(* ===== verification/Prelude.thy ===== *)
theory Prelude
  imports
    Main
    "HOL-Library.List_Lexorder"
    "HOL-Library.Char_ord"
    "HOL-Library.Product_Lexorder"
begin

text \<open>
  Shared vocabulary of the development: Python text operations on \<^typ>\<open>string\<close>, decimal and
  hexadecimal rendering and parsing, stable sorting by a key, and lemma collections.

  A Python \<open>str\<close> is a \<^typ>\<open>string\<close> of code points below 256 (HOL's \<^typ>\<open>char\<close>). White
  space and decimal-digit tests follow Python on that whole range. Case mapping is Python's on
  ASCII; code points above 127 are left as they are. An aware \<open>datetime\<close> is the number of
  microseconds from the Unix epoch in UTC (\<open>instant\<close>), a \<open>timedelta\<close> a number of
  microseconds.
\<close>

named_theorems string_simps "Python text operations"
named_theorems guard_simps "definitions of the guards and validators of the model"
named_theorems keeps "operations keep the invariant of their component"

type_synonym instant = int
type_synonym duration = int

subsection \<open>Characters\<close>

definition py_isspace :: "char \<Rightarrow> bool" where
  "py_isspace c \<longleftrightarrow> (let n = (of_char c :: nat)
     in (9 \<le> n \<and> n \<le> 13) \<or> (28 \<le> n \<and> n \<le> 32) \<or> n = 133 \<or> n = 160)"

text \<open>The ASCII digits, and \<open>str.isdigit\<close>, which also holds of superscript one, two and three.\<close>

definition ascii_digit :: "char \<Rightarrow> bool" where
  "ascii_digit c \<longleftrightarrow> (let n = (of_char c :: nat) in 48 \<le> n \<and> n \<le> 57)"

definition py_isdigit_char :: "char \<Rightarrow> bool" where
  "py_isdigit_char c \<longleftrightarrow>
     ascii_digit c \<or> (of_char c :: nat) = 178 \<or> (of_char c :: nat) = 179 \<or> (of_char c :: nat) = 185"

definition py_isdigit :: "string \<Rightarrow> bool" where
  "py_isdigit s \<longleftrightarrow> s \<noteq> [] \<and> list_all py_isdigit_char s"

definition lower_char :: "char \<Rightarrow> char" where
  "lower_char c = (let n = (of_char c :: nat) in if 65 \<le> n \<and> n \<le> 90 then char_of (n + 32) else c)"

definition upper_char :: "char \<Rightarrow> char" where
  "upper_char c = (let n = (of_char c :: nat) in if 97 \<le> n \<and> n \<le> 122 then char_of (n - 32) else c)"

definition py_lower :: "string \<Rightarrow> string" where
  "py_lower = map lower_char"

definition py_upper :: "string \<Rightarrow> string" where
  "py_upper = map upper_char"

subsection \<open>Splitting, stripping and joining\<close>

definition py_strip :: "string \<Rightarrow> string" where
  "py_strip s = rev (dropWhile py_isspace (rev (dropWhile py_isspace s)))"

text \<open>\<open>s.split(c)\<close>: always at least one part.\<close>

fun split_on :: "char \<Rightarrow> string \<Rightarrow> string list" where
  "split_on c [] = [[]]"
| "split_on c (x # xs) =
     (if x = c then [] # split_on c xs
      else (case split_on c xs of [] \<Rightarrow> [[x]] | p # ps \<Rightarrow> (x # p) # ps))"

text \<open>\<open>s.split(c, 1)\<close> where \<open>c\<close> occurs: the parts before and after its first occurrence.\<close>

fun split_once :: "char \<Rightarrow> string \<Rightarrow> (string \<times> string) option" where
  "split_once c [] = None"
| "split_once c (x # xs) =
     (if x = c then Some ([], xs)
      else (case split_once c xs of None \<Rightarrow> None | Some (a, b) \<Rightarrow> Some (x # a, b)))"

text \<open>\<open>s.split()\<close>: the maximal runs of characters that are not white space.\<close>

fun words_aux :: "string \<Rightarrow> string \<Rightarrow> string list" where
  "words_aux w [] = (if w = [] then [] else [rev w])"
| "words_aux w (c # cs) =
     (if py_isspace c then (if w = [] then words_aux [] cs else rev w # words_aux [] cs)
      else words_aux (c # w) cs)"

definition py_words :: "string \<Rightarrow> string list" where
  "py_words s = words_aux [] s"

fun join :: "string \<Rightarrow> string list \<Rightarrow> string" where
  "join sep [] = []"
| "join sep [x] = x"
| "join sep (x # y # ys) = x @ sep @ join sep (y # ys)"

definition starts_with :: "string \<Rightarrow> string \<Rightarrow> bool" where
  "starts_with p s \<longleftrightarrow> take (length p) s = p"

definition ends_with :: "string \<Rightarrow> string \<Rightarrow> bool" where
  "ends_with p s \<longleftrightarrow> starts_with (rev p) (rev s)"

definition remove_prefix :: "string \<Rightarrow> string \<Rightarrow> string" where
  "remove_prefix p s = (if starts_with p s then drop (length p) s else s)"

text \<open>\<open>p in s\<close> on text.\<close>

fun has_substring :: "string \<Rightarrow> string \<Rightarrow> bool" where
  "has_substring p [] = (p = [])"
| "has_substring p (x # xs) = (starts_with p (x # xs) \<or> has_substring p xs)"

text \<open>\<open>dict.fromkeys\<close>: each value once, at its first place.\<close>

definition firsts :: "'a list \<Rightarrow> 'a list" where
  "firsts xs = rev (remdups (rev xs))"

definition replace_char :: "char \<Rightarrow> char \<Rightarrow> string \<Rightarrow> string" where
  "replace_char a b = map (\<lambda>c. if c = a then b else c)"

subsection \<open>Numbers as text\<close>

definition digit_char :: "nat \<Rightarrow> char" where
  "digit_char d = (if d < 10 then char_of (48 + d) else char_of (87 + d))"

definition digit_value :: "char \<Rightarrow> nat" where
  "digit_value c = (let n = (of_char c :: nat)
     in if n < 65 then n - 48 else if n < 97 then n - 55 else n - 87)"

definition hex_digit :: "char \<Rightarrow> bool" where
  "hex_digit c \<longleftrightarrow> (let n = (of_char c :: nat)
     in (48 \<le> n \<and> n \<le> 57) \<or> (65 \<le> n \<and> n \<le> 70) \<or> (97 \<le> n \<and> n \<le> 102))"

fun digits_in :: "nat \<Rightarrow> nat \<Rightarrow> string" where
  "digits_in b n = (if n < b \<or> b < 2 then [digit_char n] else digits_in b (n div b) @ [digit_char (n mod b)])"

declare digits_in.simps [simp del]

definition value_in :: "nat \<Rightarrow> string \<Rightarrow> nat" where
  "value_in b s = foldl (\<lambda>a c. a * b + digit_value c) 0 s"

definition nat_str :: "nat \<Rightarrow> string" where
  "nat_str n = digits_in 10 n"

definition int_str :: "int \<Rightarrow> string" where
  "int_str i = (if i < 0 then ''-'' @ nat_str (nat (- i)) else nat_str (nat i))"

definition pad_left :: "nat \<Rightarrow> char \<Rightarrow> string \<Rightarrow> string" where
  "pad_left w c s = replicate (w - length s) c @ s"

text \<open>\<open>f"{n:02d}"\<close> of a non-negative number, and \<open>f"{n:0wx}"\<close>.\<close>

definition two_digits :: "nat \<Rightarrow> string" where
  "two_digits n = pad_left 2 (CHR ''0'') (nat_str n)"

definition hex_str :: "nat \<Rightarrow> nat \<Rightarrow> string" where
  "hex_str w n = pad_left w (CHR ''0'') (digits_in 16 n)"

text \<open>
  CPython's \<open>int(text)\<close> on a text of digit characters: it refuses the superscript digits that
  \<open>str.isdigit\<close> accepts, and more than 4300 digits, with a \<open>ValueError\<close> (\<open>None\<close>).
\<close>

definition py_int :: "string \<Rightarrow> nat option" where
  "py_int s = (if s \<noteq> [] \<and> list_all ascii_digit s \<and> length s \<le> 4300 then Some (value_in 10 s) else None)"

subsection \<open>JSON texts\<close>

text \<open>A text as \<open>json.dumps\<close> writes it, with its default ASCII escapes.\<close>

definition json_char :: "char \<Rightarrow> string" where
  "json_char c = (let n = (of_char c :: nat)
     in if n = 34 then [CHR 0x5C, CHR 0x22] else if n = 92 then [CHR 0x5C, CHR 0x5C]
        else if n = 10 then [CHR 0x5C, CHR ''n''] else if n = 13 then [CHR 0x5C, CHR ''r'']
        else if n = 9 then [CHR 0x5C, CHR ''t''] else if n = 8 then [CHR 0x5C, CHR ''b'']
        else if n = 12 then [CHR 0x5C, CHR ''f'']
        else if 32 \<le> n \<and> n \<le> 126 then [c] else [CHR 0x5C, CHR ''u''] @ hex_str 4 n)"

definition json_string :: "string \<Rightarrow> string" where
  "json_string s = [CHR 0x22] @ concat (map json_char s) @ [CHR 0x22]"

subsection \<open>Loosely typed values\<close>

text \<open>A value of an unchecked request or profile, as Python's JSON reader gives it. \<open>VOther\<close> is a
  value of any other type (a float, say).\<close>

datatype py_value =
    VNone
  | VBool bool
  | VInt int
  | VStr string
  | VList "py_value list"
  | VDict "(string \<times> py_value) list"
  | VOther

type_synonym dict = "(string \<times> py_value) list"

text \<open>\<open>d.get(k)\<close>, \<open>d[k] = v\<close> (a new key goes to the end), \<open>d.update(e)\<close>, and \<open>table.get(k, d)\<close>.\<close>

definition dict_get :: "dict \<Rightarrow> string \<Rightarrow> py_value" where
  "dict_get d k = (case map_of d k of None \<Rightarrow> VNone | Some v \<Rightarrow> v)"

fun dict_set :: "dict \<Rightarrow> string \<Rightarrow> py_value \<Rightarrow> dict" where
  "dict_set [] k v = [(k, v)]"
| "dict_set ((k', w) # d) k v = (if k' = k then (k, v) # d else (k', w) # dict_set d k v)"

definition dict_update :: "dict \<Rightarrow> dict \<Rightarrow> dict" where
  "dict_update d e = foldl (\<lambda>a (k, v). dict_set a k v) d e"

definition table_get :: "('k \<times> 'v) list \<Rightarrow> 'k \<Rightarrow> 'v \<Rightarrow> 'v" where
  "table_get t k d = (case map_of t k of None \<Rightarrow> d | Some v \<Rightarrow> v)"

definition opt_str :: "string option \<Rightarrow> py_value" where
  "opt_str v = (case v of None \<Rightarrow> VNone | Some s \<Rightarrow> VStr s)"

lemma map_of_dict_set: "map_of (dict_set d k v) x = (if x = k then Some v else map_of d x)"
  by (induction d k v rule: dict_set.induct) auto

lemma dict_get_set: "dict_get (dict_set d k v) x = (if x = k then v else dict_get d x)"
  by (simp add: dict_get_def map_of_dict_set)

lemma dict_get_simps:
  "dict_get [] x = VNone" "dict_get ((k, v) # d) x = (if k = x then v else dict_get d x)"
  by (simp_all add: dict_get_def)

lemma table_get_cases: "table_get t k d = d \<or> table_get t k d \<in> snd ` set t"
  by (auto simp: table_get_def split: option.split dest!: map_of_SomeD) force

subsection \<open>Sorting by a key\<close>

text \<open>\<open>sorted(xs, key = f)\<close> is \<^const>\<open>sort_key\<close> (both are stable); with \<open>reverse = True\<close>
  Python keeps equal keys in their first order too.\<close>

definition sort_key_desc :: "('a \<Rightarrow> 'b :: linorder) \<Rightarrow> 'a list \<Rightarrow> 'a list" where
  "sort_key_desc f xs = rev (sort_key f (rev xs))"

lemma sort_key_eq_Nil [simp]: "sort_key f xs = [] \<longleftrightarrow> xs = []"
  using length_sort [of f xs] by (metis length_0_conv)

lemma set_sort_key_desc [simp]: "set (sort_key_desc f xs) = set xs"
  by (simp add: sort_key_desc_def)

lemma length_sort_key_desc [simp]: "length (sort_key_desc f xs) = length xs"
  by (simp add: sort_key_desc_def)

lemma distinct_sort_key_desc [simp]: "distinct (sort_key_desc f xs) = distinct xs"
  by (simp add: sort_key_desc_def)

lemma sorted_sort_key_desc: "sorted_wrt (\<lambda>x y. f y \<le> f x) (sort_key_desc f xs)"
proof -
  have "sorted_wrt (\<lambda>x y. f x \<le> f y) (sort_key f (rev xs))"
    using sorted_sort_key [of f "rev xs"] by (simp add: sorted_map)
  then show ?thesis
    by (simp add: sort_key_desc_def sorted_wrt_rev)
qed

lemma sort_key_desc_hd:
  assumes "sort_key_desc f xs = y # ys"
  shows "y \<in> set xs \<and> (\<forall>x\<in>set xs. f x \<le> f y)"
proof -
  have "set xs = insert y (set ys)" using assms set_sort_key_desc [of f xs] by simp
  moreover have "\<forall>x\<in>set ys. f x \<le> f y" using assms sorted_sort_key_desc [of f xs] by simp
  ultimately show ?thesis by auto
qed

lemma sort_key_desc_Nil [simp]: "sort_key_desc f [] = []"
  by (simp add: sort_key_desc_def)

lemma sort_key_desc_eq_Nil [simp]: "sort_key_desc f xs = [] \<longleftrightarrow> xs = []"
  using length_sort_key_desc [of f xs] by (metis length_0_conv)

lemma filter_sort_key_desc: "filter P (sort_key_desc f xs) = sort_key_desc f (filter P xs)"
  by (simp add: sort_key_desc_def filter_sort flip: rev_filter)

text \<open>The position of an element in a descending sort by distinct keys is the number of greater keys.\<close>

lemma sort_key_desc_rank:
  assumes dist: "distinct (map f xs)" and k: "k < length xs"
  shows "length (filter (\<lambda>b. f (sort_key_desc f xs ! k) < f b) xs) = k"
proof -
  let ?ys = "sort_key_desc f xs"
  have dk: "distinct (map f ?ys)"
    using dist by (auto simp: distinct_map)
  have lt: "f (?ys ! j) < f (?ys ! i)" if "i < j" "j < length ?ys" for i j
  proof -
    have "f (?ys ! j) \<le> f (?ys ! i)"
      using sorted_wrt_nth_less [OF sorted_sort_key_desc that] .
    moreover have "f (?ys ! j) \<noteq> f (?ys ! i)"
      using dk that nth_eq_iff_index_eq [of "map f ?ys" i j] by simp
    ultimately show ?thesis by simp
  qed
  let ?P = "\<lambda>b. f (?ys ! k) < f b"
  have k': "k < length ?ys" using k by simp
  have "filter ?P (take k ?ys) = take k ?ys"
    using lt k' by (auto simp: filter_id_conv in_set_conv_nth)
  moreover have "filter ?P (drop k ?ys) = []"
  proof -
    have "\<not> ?P (drop k ?ys ! j)" if "j < length (drop k ?ys)" for j
      using lt [of k "k + j"] that by (cases j) (auto simp: not_less intro: less_imp_le)
    then show ?thesis by (auto simp: filter_empty_conv in_set_conv_nth)
  qed
  ultimately have "filter ?P ?ys = take k ?ys"
    by (metis append_Nil2 append_take_drop_id filter_append)
  then have "length (filter ?P ?ys) = k" using k' by simp
  then show ?thesis by (simp add: filter_sort_key_desc)
qed

lemma enumerate_sort_key_desc:
  assumes "distinct (map f xs)"
  shows "(r, a) \<in> set (enumerate 1 (sort_key_desc f xs)) \<longleftrightarrow>
    a \<in> set xs \<and> r = Suc (length (filter (\<lambda>b. f a < f b) xs))" (is "?l \<longleftrightarrow> ?r")
proof
  assume ?l
  then obtain k where k: "r = Suc k" "k < length xs" "sort_key_desc f xs ! k = a"
    by (cases r) (auto simp: in_set_enumerate_eq)
  then have "a \<in> set xs" by (metis length_sort_key_desc nth_mem set_sort_key_desc)
  then show ?r using sort_key_desc_rank [OF assms k(2)] k by simp
next
  assume r: ?r
  then obtain k where k: "k < length xs" "sort_key_desc f xs ! k = a"
    by (metis in_set_conv_nth length_sort_key_desc set_sort_key_desc)
  then show ?l using sort_key_desc_rank [OF assms k(1)] r by (auto simp: in_set_enumerate_eq)
qed

lemma set_firsts [simp]: "set (firsts xs) = set xs" and distinct_firsts [simp]: "distinct (firsts xs)"
  by (simp_all add: firsts_def)

lemma ends_with_iff: "ends_with p s \<longleftrightarrow> (\<exists>t. s = t @ p)"
proof -
  have "ends_with p s \<longleftrightarrow> (\<exists>t. rev s = rev p @ t)"
    by (auto simp: ends_with_def starts_with_def) (metis append_take_drop_id)
  also have "\<dots> \<longleftrightarrow> (\<exists>t. s = t @ p)"
    by (metis rev_append rev_rev_ident)
  finally show ?thesis .
qed

lemma find_SomeD: "find P xs = Some x \<Longrightarrow> x \<in> set xs \<and> P x"
  by (induction xs) (auto split: if_splits)

lemma in_set_map_filter: "y \<in> set (List.map_filter f xs) \<longleftrightarrow> (\<exists>x\<in>set xs. f x = Some y)"
  by (induction xs) (auto simp: List.map_filter_simps split: option.splits)

subsection \<open>Lemmas on text\<close>

lemma split_on_not_Nil [simp]: "split_on c s \<noteq> []"
  by (induction s) (auto split: list.splits)

lemma join_Cons: "ps \<noteq> [] \<Longrightarrow> join sep (p # ps) = p @ sep @ join sep ps"
  by (cases ps) auto

lemma join_Cons_Cons: "join sep ((x # p) # ps) = x # join sep (p # ps)"
  by (cases ps) auto

lemma join_split_on [simp]: "join [c] (split_on c s) = s"
proof (induction s)
  case (Cons x xs)
  obtain p ps where "split_on c xs = p # ps"
    by (cases "split_on c xs") auto
  with Cons show ?case
    by (auto simp: join_Cons join_Cons_Cons)
qed simp

lemma split_on_parts: "p \<in> set (split_on c s) \<Longrightarrow> c \<notin> set p"
proof (induction s arbitrary: p)
  case (Cons x xs)
  then show ?case
    by (cases "split_on c xs") (auto split: if_splits)
qed simp

lemma split_on_join:
  assumes "ps \<noteq> []" and "\<And>p. p \<in> set ps \<Longrightarrow> c \<notin> set p"
  shows "split_on c (join [c] ps) = ps"
proof -
  have app: "split_on c (p @ c # s) = p # split_on c s" if "c \<notin> set p" for p s
    using that by (induction p) auto
  have one: "split_on c p = [p]" if "c \<notin> set p" for p
    using that by (induction p) auto
  from assms show ?thesis
  proof (induction ps)
    case (Cons p ps)
    then show ?case
      by (cases "ps = []") (auto simp: one join_Cons app)
  qed simp
qed

lemma split_once_append: "c \<notin> set a \<Longrightarrow> split_once c (a @ c # b) = Some (a, b)"
  by (induction a) auto

lemma split_onceD: "split_once c s = Some (a, b) \<Longrightarrow> s = a @ c # b \<and> c \<notin> set a"
proof (induction s arbitrary: a)
  case (Cons x xs)
  then show ?case
    by (cases "split_once c xs") (auto split: if_splits)
qed simp

lemma split_once_Some:
  "split_once c s = Some (a, b) \<longleftrightarrow> s = a @ c # b \<and> c \<notin> set a"
  by (blast dest: split_onceD intro: split_once_append)

lemma split_once_None: "split_once c s = None \<longleftrightarrow> c \<notin> set s"
  by (induction s) (auto split: option.splits)

lemma starts_with_append [simp]: "starts_with p (p @ s)"
  by (simp add: starts_with_def)

lemma starts_with_iff: "starts_with p s \<longleftrightarrow> (\<exists>t. s = p @ t)"
  by (auto simp: starts_with_def) (metis append_take_drop_id)

lemma py_strip_Nil [simp]: "py_strip [] = []"
  by (simp add: py_strip_def)

lemma py_strip_ends:
  assumes "py_strip s \<noteq> []"
  shows "\<not> py_isspace (hd (py_strip s))" and "\<not> py_isspace (last (py_strip s))"
proof -
  let ?d = "dropWhile py_isspace s"
  let ?e = "dropWhile py_isspace (rev ?d)"
  have e: "?e \<noteq> []" using assms by (simp add: py_strip_def)
  have "last (py_strip s) = hd ?e"
    using e by (simp add: py_strip_def last_rev)
  then show "\<not> py_isspace (last (py_strip s))"
    using e hd_dropWhile [of py_isspace "rev ?d"] by simp
  have d: "?d \<noteq> []"
  proof
    assume "?d = []"
    then have "?e = []" by (simp only: rev.simps dropWhile.simps)
    with e show False by contradiction
  qed
  have hd: "\<not> py_isspace (hd ?d)" using d by (rule hd_dropWhile)
  obtain q where q: "rev ?d = takeWhile py_isspace (rev ?d) @ ?e"
    by simp
  have "?d = rev ?e @ rev (takeWhile py_isspace (rev ?d))"
    by (metis q rev_append rev_rev_ident)
  then have "hd ?d = hd (rev ?e)"
    using e by (metis hd_append2 rev_is_Nil_conv)
  then show "\<not> py_isspace (hd (py_strip s))"
    using hd by (simp add: py_strip_def)
qed

lemma py_strip_id:
  assumes "s \<noteq> []" "\<not> py_isspace (hd s)" "\<not> py_isspace (last s)"
  shows "py_strip s = s"
proof -
  have "dropWhile py_isspace s = s"
    using assms(1,2) by (cases s) auto
  moreover have "dropWhile py_isspace (rev s) = rev s"
    using assms(1,3) by (cases s rule: rev_cases) auto
  ultimately show ?thesis by (simp add: py_strip_def)
qed

lemma py_strip_idem [simp]: "py_strip (py_strip s) = py_strip s"
  by (cases "py_strip s = []") (auto intro: py_strip_id dest: py_strip_ends)

subsection \<open>Lemmas on numbers as text\<close>

lemma digit_value_digit_char [simp]: "d < 16 \<Longrightarrow> digit_value (digit_char d) = d"
  by (auto simp: digit_value_def digit_char_def Let_def)

lemma hex_digit_digit_char [simp]: "d < 16 \<Longrightarrow> hex_digit (digit_char d)"
  by (auto simp: hex_digit_def digit_char_def Let_def)

lemma ascii_digit_digit_char [simp]: "d < 10 \<Longrightarrow> ascii_digit (digit_char d)"
  by (auto simp: ascii_digit_def digit_char_def Let_def)

lemma digits_in_not_Nil [simp]: "digits_in b n \<noteq> []"
  by (subst digits_in.simps) simp

lemma digits_in_all:
  assumes "\<And>d. d < b \<Longrightarrow> P (digit_char d)" and "2 \<le> b"
  shows "list_all P (digits_in b n)"
  using assms
proof (induction b n rule: digits_in.induct)
  case (1 b n)
  then show ?case
    by (cases "n < b") (auto simp: digits_in.simps [of b n])
qed

lemma value_in_append: "value_in b (s @ t) = value_in b s * b ^ length t + value_in b t"
proof (induction t rule: rev_induct)
  case (snoc x xs)
  then show ?case
    unfolding value_in_def by (simp add: algebra_simps flip: append_assoc)
qed (simp add: value_in_def)

lemma value_in_Nil [simp]: "value_in b [] = 0"
  by (simp add: value_in_def)

lemma value_in_single [simp]: "value_in b [c] = digit_value c"
  by (simp add: value_in_def)

lemma value_in_digits_in:
  assumes "2 \<le> b" "b \<le> 16"
  shows "value_in b (digits_in b n) = n"
  using assms
proof (induction b n rule: digits_in.induct)
  case (1 b n)
  show ?case
  proof (cases "n < b")
    case True
    with "1.prems" show ?thesis by (simp add: digits_in.simps [of b n])
  next
    case False
    with "1.prems" have "value_in b (digits_in b (n div b)) = n div b"
      by (intro "1.IH") auto
    moreover have "n mod b < 16"
      using "1.prems" mod_less_divisor [of b n] by linarith
    ultimately show ?thesis
      using False "1.prems" by (simp add: digits_in.simps [of b n] value_in_append)
  qed
qed

lemma digit_value_zero [simp]: "digit_value (CHR ''0'') = 0"
  by (simp add: digit_value_def)

lemma value_in_replicate_zero [simp]: "value_in b (replicate k (CHR ''0'') @ s) = value_in b s"
proof -
  have "value_in b (replicate k (CHR ''0'')) = 0"
    by (induction k) (auto simp: value_in_append simp flip: replicate_append_same)
  then show ?thesis by (simp add: value_in_append)
qed

lemma value_in_hex_str [simp]: "value_in 16 (hex_str w n) = n"
  by (simp add: hex_str_def pad_left_def value_in_digits_in)

lemma hex_str_digits: "list_all hex_digit (hex_str w n)"
proof -
  have "list_all hex_digit (digits_in 16 n)"
    by (rule digits_in_all) simp_all
  moreover have "hex_digit (CHR ''0'')" by (simp add: hex_digit_def)
  ultimately show ?thesis
    by (auto simp: hex_str_def pad_left_def list_all_iff)
qed

lemma value_in_nat_str [simp]: "value_in 10 (nat_str n) = n"
  by (simp add: nat_str_def value_in_digits_in)

lemma nat_str_digits: "list_all ascii_digit (nat_str n)"
  unfolding nat_str_def by (rule digits_in_all) simp_all

lemma nat_str_not_Nil [simp]: "nat_str n \<noteq> []"
  by (simp add: nat_str_def)

lemma nat_str_inject [simp]: "nat_str m = nat_str n \<longleftrightarrow> m = n"
  by (metis value_in_nat_str)

end
