(* ===== verification/Calendar.thy ===== *)
theory Calendar
  imports Prelude
begin

text \<open>
  Python's proleptic Gregorian \<open>datetime\<close> as \<open>history_service/backup_archive/cron.py\<close> uses it:
  years 1 to 9999, wall-clock arithmetic (adding a \<open>timedelta\<close> to a naive or an aware value does
  not look at the time zone), \<open>OverflowError\<close> past the last day. This is standard-library
  behaviour, so nothing here maps to a line of the repository. The lemmas are that ordinals name
  dates uniquely, that the day after has the next ordinal, and that dates and weekdays repeat
  every 146097 days.
\<close>

subsection \<open>The calendar\<close>

record date_time =
  dt_year :: nat
  dt_month :: nat
  dt_day :: nat
  dt_hour :: nat
  dt_minute :: nat
  dt_second :: nat
  dt_micro :: nat

definition leap_year :: "nat \<Rightarrow> bool" where
  "leap_year y \<longleftrightarrow> y mod 4 = 0 \<and> (y mod 100 \<noteq> 0 \<or> y mod 400 = 0)"

definition days_in_month :: "nat \<Rightarrow> nat \<Rightarrow> nat" where
  "days_in_month y m =
     (if m = 2 then (if leap_year y then 29 else 28)
      else if m = 4 \<or> m = 6 \<or> m = 9 \<or> m = 11 then 30 else 31)"

definition days_before_year :: "nat \<Rightarrow> nat" where
  "days_before_year y = (y - 1) * 365 + (y - 1) div 4 - (y - 1) div 100 + (y - 1) div 400"

fun days_before_month :: "nat \<Rightarrow> nat \<Rightarrow> nat" where
  "days_before_month y 0 = 0"
| "days_before_month y (Suc m) = (if m = 0 then 0 else days_before_month y m + days_in_month y m)"

text \<open>\<open>date.toordinal()\<close>, and \<open>date.weekday()\<close> (Monday is 0).\<close>

definition to_ordinal :: "nat \<Rightarrow> nat \<Rightarrow> nat \<Rightarrow> nat" where
  "to_ordinal y m d = days_before_year y + days_before_month y m + d"

definition py_weekday :: "nat \<Rightarrow> nat \<Rightarrow> nat \<Rightarrow> nat" where
  "py_weekday y m d = (to_ordinal y m d + 6) mod 7"

definition valid_date :: "nat \<Rightarrow> nat \<Rightarrow> nat \<Rightarrow> bool" where
  "valid_date y m d \<longleftrightarrow> 1 \<le> y \<and> 1 \<le> m \<and> m \<le> 12 \<and> 1 \<le> d \<and> d \<le> days_in_month y m"

definition valid_date_time :: "date_time \<Rightarrow> bool" where
  "valid_date_time t \<longleftrightarrow> valid_date (dt_year t) (dt_month t) (dt_day t) \<and> dt_year t \<le> 9999 \<and>
     dt_hour t < 24 \<and> dt_minute t < 60 \<and> dt_second t < 60 \<and> dt_micro t < 1000000"

text \<open>The day after a date, and \<open>t + timedelta(days = 1)\<close>, which fails past 9999-12-31.\<close>

definition succ_date :: "nat \<times> nat \<times> nat \<Rightarrow> nat \<times> nat \<times> nat" where
  "succ_date = (\<lambda>(y, m, d).
     if d < days_in_month y m then (y, m, d + 1)
     else if m < 12 then (y, m + 1, 1) else (y + 1, 1, 1))"

definition add_day :: "date_time \<Rightarrow> date_time option" where
  "add_day t = (case succ_date (dt_year t, dt_month t, dt_day t) of (y, m, d) \<Rightarrow>
     if y \<le> 9999 then Some (t\<lparr>dt_year := y, dt_month := m, dt_day := d\<rparr>) else None)"

definition add_minute :: "date_time \<Rightarrow> date_time option" where
  "add_minute t =
     (if dt_minute t < 59 then Some (t\<lparr>dt_minute := dt_minute t + 1\<rparr>)
      else if dt_hour t < 23 then Some (t\<lparr>dt_hour := dt_hour t + 1, dt_minute := 0\<rparr>)
      else add_day (t\<lparr>dt_hour := 0, dt_minute := 0\<rparr>))"

text \<open>Microseconds since the start of the calendar: the order of \<open>datetime\<close> values.\<close>

definition dt_ordinal :: "date_time \<Rightarrow> nat" where
  "dt_ordinal t = to_ordinal (dt_year t) (dt_month t) (dt_day t)"

definition dt_minutes :: "date_time \<Rightarrow> nat" where
  "dt_minutes t = (dt_ordinal t * 24 + dt_hour t) * 60 + dt_minute t"

definition dt_abs :: "date_time \<Rightarrow> nat" where
  "dt_abs t = (dt_minutes t * 60 + dt_second t) * 1000000 + dt_micro t"

subsection \<open>Facts of the calendar\<close>

lemma days_in_month_bounds: "28 \<le> days_in_month y m" "days_in_month y m \<le> 31"
  by (auto simp: days_in_month_def)

lemma div_Suc_step: "0 < k \<Longrightarrow> Suc n div k = n div k + (if k dvd Suc n then 1 else 0)"
  by (simp add: div_Suc dvd_eq_mod_eq_0)

lemma leap_year_dvd: "leap_year y \<longleftrightarrow> 4 dvd y \<and> (\<not> 100 dvd y \<or> 400 dvd y)"
  by (simp add: leap_year_def dvd_eq_mod_eq_0)

lemma year_step_arith:
  fixes a c n q :: nat
  assumes "c \<le> a" "e \<Longrightarrow> h" "h \<Longrightarrow> f"
  shows "Suc n * 365 + (a + (if f then 1 else 0)) - (c + (if h then 1 else 0)) + (q + (if e then 1 else 0))
    = (n * 365 + a - c + q) + (if f \<and> (\<not> h \<or> e) then 366 else 365)"
proof -
  obtain b where "a = c + b" using assms(1) by (auto simp: le_iff_add)
  then show ?thesis using assms(2,3) by (cases e; cases h; cases f) simp_all
qed

lemma days_before_year_Suc:
  assumes "1 \<le> y"
  shows "days_before_year (Suc y) = days_before_year y + (if leap_year y then 366 else 365)"
proof -
  obtain n where y: "y = Suc n" using assms by (cases y) auto
  have le: "n div 100 \<le> n div 4" by (rule div_le_mono2) simp_all
  have dvd: "400 dvd Suc n \<Longrightarrow> 100 dvd Suc n" "100 dvd Suc n \<Longrightarrow> 4 dvd Suc n"
    by (erule dvd_trans [rotated], simp)+
  show ?thesis
    unfolding days_before_year_def leap_year_dvd y diff_Suc_1
    unfolding div_Suc_step [of 4, simplified] div_Suc_step [of 100, simplified] div_Suc_step [of 400, simplified]
    using le dvd by (rule year_step_arith)
qed

lemma era_step_arith:
  fixes a c n q k :: nat
  assumes "c \<le> a"
  shows "(n + 400 * k) * 365 + (a + 100 * k) - (c + 4 * k) + (q + k) = n * 365 + a - c + q + 146097 * k"
  using assms by simp

lemma days_before_year_mono: "1 \<le> y \<Longrightarrow> y \<le> y' \<Longrightarrow> days_before_year y \<le> days_before_year y'"
proof (induction y' arbitrary: y)
  case (Suc y')
  show ?case
  proof (cases "y = Suc y'")
    case False
    with Suc.prems have "days_before_year y \<le> days_before_year y'" by (intro Suc.IH) auto
    also have "\<dots> \<le> days_before_year (Suc y')"
      using Suc.prems False by (simp add: days_before_year_Suc)
    finally show ?thesis .
  qed simp
qed simp

lemma days_before_month_mono: "m \<le> m' \<Longrightarrow> days_before_month y m \<le> days_before_month y m'"
proof (induction m')
  case (Suc m')
  then show ?case
    by (cases "m = Suc m'") (auto simp: le_Suc_eq)
qed simp

lemma days_before_month_step:
  "1 \<le> m \<Longrightarrow> days_before_month y (Suc m) = days_before_month y m + days_in_month y m"
  by simp

lemma days_before_month_13: "days_before_month y 13 = (if leap_year y then 366 else 365)"
  by (simp add: eval_nat_numeral days_in_month_def)

lemma days_before_february: "days_before_month y 2 = 31"
  by (simp add: numeral_2_eq_2 days_in_month_def)

declare days_before_month.simps(2) [simp del]

lemma ordinal_in_month:
  assumes "valid_date y m d"
  shows "days_before_month y m < days_before_month y m + d"
    and "days_before_month y m + d \<le> days_before_month y (Suc m)"
  using assms by (auto simp: valid_date_def days_before_month_step)

lemma ordinal_in_year:
  assumes "valid_date y m d"
  shows "days_before_year y < to_ordinal y m d" and "to_ordinal y m d \<le> days_before_year (Suc y)"
proof -
  have "days_before_month y (Suc m) \<le> days_before_month y 13"
    using assms by (intro days_before_month_mono) (simp add: valid_date_def)
  then show "to_ordinal y m d \<le> days_before_year (Suc y)"
    using assms ordinal_in_month(2) [OF assms]
    by (auto simp: to_ordinal_def days_before_year_Suc days_before_month_13 valid_date_def)
  show "days_before_year y < to_ordinal y m d"
    using assms by (auto simp: to_ordinal_def valid_date_def)
qed

lemma to_ordinal_inject:
  assumes v: "valid_date y m d" "valid_date y' m' d'"
    and eq: "to_ordinal y m d = to_ordinal y' m' d'"
  shows "y = y' \<and> m = m' \<and> d = d'"
proof -
  have year: "\<not> a < b" if "valid_date a i j" "valid_date b k l" "to_ordinal a i j = to_ordinal b k l"
    for a b i j k l
  proof
    assume "a < b"
    then have "days_before_year (Suc a) \<le> days_before_year b"
      by (intro days_before_year_mono) auto
    with ordinal_in_year [OF that(1)] ordinal_in_year [OF that(2)] that(3) show False by linarith
  qed
  have y: "y = y'" using year [OF v eq] year [OF v(2,1)] eq by simp
  have eq': "days_before_month y m + d = days_before_month y m' + d'"
    using eq y by (simp add: to_ordinal_def)
  have month: "\<not> i < k" if "valid_date y i j" "valid_date y k l"
    "days_before_month y i + j = days_before_month y k + l" for i j k l
  proof
    assume "i < k"
    then have "days_before_month y (Suc i) \<le> days_before_month y k"
      by (intro days_before_month_mono) simp
    with ordinal_in_month [OF that(1)] ordinal_in_month [OF that(2)] that(3) show False by linarith
  qed
  have "m = m'" using month [of m d m' d'] month [of m' d' m d] v eq' y by force
  with eq' y show ?thesis by simp
qed

lemma succ_date_valid:
  assumes "valid_date y m d" "succ_date (y, m, d) = (y', m', d')"
  shows "valid_date y' m' d'" and "to_ordinal y' m' d' = Suc (to_ordinal y m d)"
proof -
  show "valid_date y' m' d'"
    using assms days_in_month_bounds(1) [of y "m + 1"] days_in_month_bounds(1) [of "y + 1" 1]
    by (auto simp: valid_date_def succ_date_def split: if_splits)
  consider "d < days_in_month y m" | "d = days_in_month y m" "m < 12" | "d = days_in_month y m" "m = 12"
    using assms(1) by (force simp: valid_date_def)
  then show "to_ordinal y' m' d' = Suc (to_ordinal y m d)"
  proof cases
    case 3
    have "days_before_month y 12 + days_in_month y 12 = (if leap_year y then 366 else 365)"
      using days_before_month_step [of 12 y] by (simp flip: days_before_month_13)
    moreover have "y' = Suc y" "m' = 1" "d' = 1"
      using 3 assms(2) by (auto simp: succ_date_def)
    ultimately show ?thesis
      using 3 assms(1) by (simp add: to_ordinal_def days_before_year_Suc valid_date_def days_before_month.simps)
  qed (use assms in \<open>auto simp: succ_date_def to_ordinal_def days_before_month_step valid_date_def\<close>)
qed

lemma div_mod_400:
  fixes n k :: nat
  shows "(n + 400 * k) mod 4 = n mod 4" "(n + 400 * k) mod 100 = n mod 100"
    "(n + 400 * k) div 4 = n div 4 + 100 * k" "(n + 400 * k) div 100 = n div 100 + 4 * k"
    "(n + 400 * k) div 400 = n div 400 + k"
  using mod_mult_self2 [of n 4 "100 * k"] mod_mult_self2 [of n 100 "4 * k"]
    div_mult_self2 [of 4 n "100 * k"] div_mult_self2 [of 100 n "4 * k"] div_mult_self2 [of 400 n k]
  by simp_all

lemma leap_year_400 [simp]: "leap_year (y + 400 * k) = leap_year y"
  by (simp add: leap_year_def div_mod_400)

lemma days_in_month_400 [simp]: "days_in_month (y + 400 * k) m = days_in_month y m"
  by (simp add: days_in_month_def)

lemma days_before_month_400 [simp]: "days_before_month (y + 400 * k) m = days_before_month y m"
  by (induction m) (auto simp: days_before_month.simps)

lemma days_before_year_400:
  assumes "1 \<le> y"
  shows "days_before_year (y + 400 * k) = days_before_year y + 146097 * k"
proof -
  obtain n where y: "y = Suc n" using assms by (cases y) auto
  have "n div 100 \<le> n div 4" by (rule div_le_mono2) simp_all
  then show ?thesis
    unfolding y days_before_year_def add_Suc diff_Suc_1 div_mod_400 by (rule era_step_arith)
qed

lemma to_ordinal_400:
  "1 \<le> y \<Longrightarrow> to_ordinal (y + 400 * k) m d = to_ordinal y m d + 146097 * k"
  by (simp add: to_ordinal_def days_before_year_400)

lemma valid_date_400 [simp]: "1 \<le> y \<Longrightarrow> valid_date (y + 400 * k) m d = valid_date y m d"
  by (simp add: valid_date_def)

lemma py_weekday_400 [simp]: "1 \<le> y \<Longrightarrow> py_weekday (y + 400 * k) m d = py_weekday y m d"
proof -
  have "(a + 146097 * k + 6) mod 7 = (a + 6) mod (7::nat)" for a
    using mod_mult_self2 [of "a + 6" 7 "20871 * k"] by (simp add: algebra_simps)
  then show "1 \<le> y \<Longrightarrow> ?thesis" by (simp add: py_weekday_def to_ordinal_400)
qed

end
