(* ===== verification/Cron.thy ===== *)
theory Cron
  imports Calendar
begin

text \<open>
  The five-field cron schedules of \<open>history_service/backup_archive/cron.py\<close>: the parser
  (\<open>_parse_field\<close>, \<open>CronSchedule.parse\<close>) and the search for the next run
  (\<open>_day_matches\<close>, \<open>next_after\<close>). The lemmas show that parsed schedules name legal minutes
  only, that parsing a parsed expression again gives the same schedule, and that the search
  returns the first named minute after the moment and fails only when no such minute exists.
\<close>

subsection \<open>The parser\<close>

text \<open>
  The exceptions the parser and the search can end in: the messages of \<open>CronError\<close>, the plain
  \<open>ValueError\<close> of \<open>int\<close>, and the \<open>OverflowError\<close> of \<open>datetime\<close> arithmetic.
\<close>

datatype cron_error =
    EmptyItem string
  | BadStep string
  | BadRange string
  | NotANumber string string
  | OutOfRange string nat nat
  | WrongFieldCount
  | NeverMatches
  | IntValueError
  | DateOverflow

definition is_CronError :: "cron_error \<Rightarrow> bool" where
  "is_CronError e \<longleftrightarrow> e \<noteq> IntValueError \<and> e \<noteq> DateOverflow"

text \<open>\<open>range(start, stop, step)\<close> with a positive step.\<close>

definition py_range :: "nat \<Rightarrow> nat \<Rightarrow> nat \<Rightarrow> nat list" where
  "py_range start stop step = map (\<lambda>i. start + i * step) [0..<(stop - start + step - 1) div step]"

definition check_int :: "string \<Rightarrow> cron_error + nat" where
  "check_int s = (case py_int s of None \<Rightarrow> Inl IntValueError | Some n \<Rightarrow> Inr n)"

text \<open>The step suffix of a list item: the item before the first slash, and the step.\<close>

definition parse_step :: "string \<Rightarrow> string \<Rightarrow> cron_error + string \<times> nat" where
  "parse_step name part = (case split_once (CHR ''/'') part of
       None \<Rightarrow> Inr (part, 1)
     | Some (item, step_text) \<Rightarrow>
         if \<not> py_isdigit step_text then Inl (BadStep name)
         else (case check_int step_text of
             Inl e \<Rightarrow> Inl e
           | Inr step \<Rightarrow> if step < 1 then Inl (BadStep name) else Inr (item, step)))"

text \<open>The bounds an item without its step names.\<close>

definition parse_span :: "string \<Rightarrow> nat \<Rightarrow> nat \<Rightarrow> nat \<Rightarrow> string \<Rightarrow> cron_error + nat \<times> nat" where
  "parse_span name low high step item =
     (if item = ''*'' then Inr (low, high)
      else case split_once (CHR ''-'') item of
        Some (start_text, end_text) \<Rightarrow>
          if \<not> (py_isdigit start_text \<and> py_isdigit end_text) then Inl (BadRange name)
          else (case check_int start_text of
              Inl e \<Rightarrow> Inl e
            | Inr start \<Rightarrow> (case check_int end_text of Inl e \<Rightarrow> Inl e | Inr stop \<Rightarrow> Inr (start, stop)))
      | None \<Rightarrow>
          if py_isdigit item then
            (case check_int item of
               Inl e \<Rightarrow> Inl e
             | Inr n \<Rightarrow> Inr (n, if step \<noteq> 1 then high else n))
          else Inl (NotANumber name item))"

definition parse_item :: "string \<Rightarrow> nat \<Rightarrow> nat \<Rightarrow> string \<Rightarrow> cron_error + nat list" where
  "parse_item name low high part =
     (if part = [] then Inl (EmptyItem name)
      else case parse_step name part of
        Inl e \<Rightarrow> Inl e
      | Inr (item, step) \<Rightarrow> (case parse_span name low high step item of
            Inl e \<Rightarrow> Inl e
          | Inr (start, stop) \<Rightarrow>
              if \<not> (low \<le> start \<and> start \<le> high \<and> low \<le> stop \<and> stop \<le> high) \<or> stop < start
              then Inl (OutOfRange name low high)
              else Inr (py_range start (stop + 1) step)))"

fun parse_items :: "string \<Rightarrow> nat \<Rightarrow> nat \<Rightarrow> nat set \<Rightarrow> string list \<Rightarrow> cron_error + nat set" where
  "parse_items name low high values [] = Inr values"
| "parse_items name low high values (part # parts) = (case parse_item name low high part of
       Inl e \<Rightarrow> Inl e
     | Inr ns \<Rightarrow> parse_items name low high (values \<union> set ns) parts)"

definition parse_field :: "string \<times> nat \<times> nat \<Rightarrow> string \<Rightarrow> cron_error + nat set" where
  "parse_field spec text = (case spec of (name, low, high) \<Rightarrow>
     parse_items name low high {} (split_on (CHR '','') text))"

definition cron_shortcuts :: "string \<rightharpoonup> string" where
  "cron_shortcuts = map_of
     [(''@hourly'', ''0 * * * *''), (''@daily'', ''0 0 * * *''), (''@midnight'', ''0 0 * * *''),
      (''@weekly'', ''0 0 * * 0''), (''@monthly'', ''0 0 1 * *'')]"

definition cron_fields :: "(string \<times> nat \<times> nat) list" where
  "cron_fields = [(''minute'', 0, 59), (''hour'', 0, 23), (''day of month'', 1, 31),
     (''month'', 1, 12), (''day of week'', 0, 7)]"

record cron_schedule =
  cs_expression :: string
  cs_minutes :: "nat set"
  cs_hours :: "nat set"
  cs_days :: "nat set"
  cs_months :: "nat set"
  cs_weekdays :: "nat set"
  cs_day_restricted :: bool
  cs_weekday_restricted :: bool

fun parse_fields :: "(string \<times> nat \<times> nat) list \<Rightarrow> string list \<Rightarrow> cron_error + nat set list" where
  "parse_fields (spec # specs) (part # parts) = (case parse_field spec part of
       Inl e \<Rightarrow> Inl e
     | Inr vs \<Rightarrow> (case parse_fields specs parts of Inl e \<Rightarrow> Inl e | Inr vss \<Rightarrow> Inr (vs # vss)))"
| "parse_fields _ _ = Inr []"

definition parse_cron :: "string \<Rightarrow> cron_error + cron_schedule" where
  "parse_cron expression =
     (let text = join '' '' (py_words expression);
          expanded = (case cron_shortcuts (py_lower text) of None \<Rightarrow> text | Some e \<Rightarrow> e);
          parts = split_on (CHR '' '') expanded
      in if length parts \<noteq> 5 then Inl WrongFieldCount
         else case parse_fields cron_fields parts of
           Inl e \<Rightarrow> Inl e
         | Inr parsed \<Rightarrow> Inr
            \<lparr>cs_expression = text,
             cs_minutes = parsed ! 0,
             cs_hours = parsed ! 1,
             cs_days = parsed ! 2,
             cs_months = parsed ! 3,
             cs_weekdays = (\<lambda>d. d mod 7) ` (parsed ! 4),
             cs_day_restricted = \<not> starts_with ''*'' (parts ! 2),
             cs_weekday_restricted = \<not> starts_with ''*'' (parts ! 4)\<rparr>)"

subsection \<open>The search\<close>

definition date_matches :: "cron_schedule \<Rightarrow> nat \<Rightarrow> nat \<Rightarrow> nat \<Rightarrow> bool" where
  "date_matches s y m d =
     (if m \<notin> cs_months s then False
      else
        let day_ok = d \<in> cs_days s; weekday_ok = (py_weekday y m d + 1) mod 7 \<in> cs_weekdays s
        in if cs_day_restricted s \<and> cs_weekday_restricted s then day_ok \<or> weekday_ok
           else day_ok \<and> weekday_ok)"

definition day_matches :: "cron_schedule \<Rightarrow> date_time \<Rightarrow> bool" where
  "day_matches s t = date_matches s (dt_year t) (dt_month t) (dt_day t)"

text \<open>
  The two nested loops over the sorted hours and minutes return the first pair that is not
  before the candidate's time; \<^const>\<open>List.product\<close> lists the pairs in the loops' order.
\<close>

definition first_time :: "cron_schedule \<Rightarrow> nat \<Rightarrow> nat \<Rightarrow> (nat \<times> nat) option" where
  "first_time s h mi = find (\<lambda>(hour, minute). \<not> hour < h \<and> \<not> (hour = h \<and> minute < mi))
     (List.product (sorted_list_of_set (cs_hours s)) (sorted_list_of_set (cs_minutes s)))"

fun search_days :: "nat \<Rightarrow> cron_schedule \<Rightarrow> date_time \<Rightarrow> cron_error + date_time" where
  "search_days 0 s c = Inl NeverMatches"
| "search_days (Suc n) s c =
     (case (if day_matches s c then first_time s (dt_hour c) (dt_minute c) else None) of
        Some (hour, minute) \<Rightarrow> Inr (c\<lparr>dt_hour := hour, dt_minute := minute\<rparr>)
      | None \<Rightarrow> (case add_day c of
            None \<Rightarrow> Inl DateOverflow
          | Some c' \<Rightarrow> search_days n s (c'\<lparr>dt_hour := 0, dt_minute := 0\<rparr>)))"

definition max_search_days :: nat where
  "max_search_days = 146097 + 1"

definition next_after :: "cron_schedule \<Rightarrow> date_time \<Rightarrow> cron_error + date_time" where
  "next_after s moment = (case add_minute (moment\<lparr>dt_second := 0, dt_micro := 0\<rparr>) of
       None \<Rightarrow> Inl DateOverflow
     | Some candidate \<Rightarrow> search_days max_search_days s candidate)"

text \<open>What a schedule promises: the minutes it names.\<close>

definition matches :: "cron_schedule \<Rightarrow> date_time \<Rightarrow> bool" where
  "matches s t \<longleftrightarrow> day_matches s t \<and> dt_hour t \<in> cs_hours s \<and> dt_minute t \<in> cs_minutes s \<and>
     dt_second t = 0 \<and> dt_micro t = 0"

definition wf_schedule :: "cron_schedule \<Rightarrow> bool" where
  "wf_schedule s \<longleftrightarrow> cs_minutes s \<subseteq> {0..59} \<and> cs_hours s \<subseteq> {0..23} \<and> cs_days s \<subseteq> {1..31} \<and>
     cs_months s \<subseteq> {1..12} \<and> cs_weekdays s \<subseteq> {0..6} \<and> cs_minutes s \<noteq> {} \<and> cs_hours s \<noteq> {} \<and>
     cs_days s \<noteq> {} \<and> cs_months s \<noteq> {} \<and> cs_weekdays s \<noteq> {}"

subsection \<open>Parsed schedules are well formed\<close>

lemma set_py_range:
  assumes "0 < k"
  shows "set (py_range a b k) = {x. a \<le> x \<and> x < b \<and> (x - a) mod k = 0}"
proof (intro equalityI subsetI)
  fix x assume "x \<in> set (py_range a b k)"
  then have "\<exists>i. x = a + i * k \<and> i < (b - a + k - 1) div k"
    unfolding py_range_def by auto
  then obtain i where i: "x = a + i * k" "i < (b - a + k - 1) div k" by blast
  then have "i * k + k \<le> (b - a + k - 1)"
    by (metis Suc_leI add.commute div_times_less_eq_dividend le_trans mult_Suc mult_le_mono1)
  with i assms show "x \<in> {x. a \<le> x \<and> x < b \<and> (x - a) mod k = 0}" by auto
next
  fix x assume x: "x \<in> {x. a \<le> x \<and> x < b \<and> (x - a) mod k = 0}"
  define i where "i = (x - a) div k"
  have ik: "i * k = x - a" using x by (simp add: i_def mod_eq_0_iff_dvd)
  have "Suc i * k \<le> b - a + k - 1" using x ik assms by auto
  then have "Suc i \<le> (b - a + k - 1) div k"
    using assms by (metis div_le_mono nonzero_mult_div_cancel_right less_not_refl)
  then have "i < (b - a + k - 1) div k" by simp
  with ik x show "x \<in> set (py_range a b k)"
    by (auto simp: py_range_def image_iff intro!: bexI [of _ i])
qed

lemma parse_step_pos: "parse_step name part = Inr (item, step) \<Longrightarrow> 0 < step"
  by (auto simp: parse_step_def split: option.splits if_splits sum.splits)

lemma parse_itemD:
  assumes "parse_item name low high part = Inr ns"
  shows "set ns \<subseteq> {low..high}" and "set ns \<noteq> {}"
proof -
  from assms obtain item step start stop where
    st: "parse_step name part = Inr (item, step)" and
    bounds: "low \<le> start" "stop \<le> high" "start \<le> stop" and
    ns: "ns = py_range start (stop + 1) step"
    by (auto simp: parse_item_def split: if_splits sum.splits prod.splits)
  have pos: "0 < step" using st by (rule parse_step_pos)
  show "set ns \<subseteq> {low..high}" "set ns \<noteq> {}"
    using bounds by (auto simp: ns set_py_range [OF pos] intro: exI [of _ start])
qed

lemma parse_itemsD:
  "parse_items name low high vs parts = Inr ws \<Longrightarrow> vs \<subseteq> {low..high} \<Longrightarrow>
     ws \<subseteq> {low..high} \<and> vs \<subseteq> ws \<and> (parts \<noteq> [] \<longrightarrow> ws \<noteq> {})"
proof (induction parts arbitrary: vs)
  case (Cons part parts)
  then obtain ns where ns: "parse_item name low high part = Inr ns"
    and rest: "parse_items name low high (vs \<union> set ns) parts = Inr ws"
    by (auto split: sum.splits)
  have "ws \<subseteq> {low..high} \<and> vs \<union> set ns \<subseteq> ws"
    using Cons.IH [OF rest] Cons.prems(2) parse_itemD(1) [OF ns] by blast
  then show ?case using parse_itemD(2) [OF ns] by auto
qed simp

lemma parse_fieldD:
  "parse_field (name, low, high) text = Inr vs \<Longrightarrow> vs \<subseteq> {low..high} \<and> vs \<noteq> {}"
  unfolding parse_field_def by (auto dest!: parse_itemsD)

lemma parse_fields_5:
  assumes "parse_fields cron_fields parts = Inr vss" "length parts = 5"
  shows "\<exists>a b c d e. vss = [a, b, c, d, e] \<and>
     a \<subseteq> {0..59} \<and> a \<noteq> {} \<and> b \<subseteq> {0..23} \<and> b \<noteq> {} \<and> c \<subseteq> {1..31} \<and> c \<noteq> {} \<and>
     d \<subseteq> {1..12} \<and> d \<noteq> {} \<and> e \<subseteq> {0..7} \<and> e \<noteq> {}"
proof -
  obtain p q r s t where "parts = [p, q, r, s, t]"
    using assms(2) by (auto simp: eval_nat_numeral length_Suc_conv)
  with assms(1) show ?thesis
    by (auto simp: cron_fields_def split: sum.splits dest!: parse_fieldD)
qed

lemma parse_cron_wf:
  assumes "parse_cron e = Inr s"
  shows "wf_schedule s"
proof -
  from assms obtain parts parsed where
    p: "parse_fields cron_fields parts = Inr parsed" "length parts = 5" and
    s: "cs_minutes s = parsed ! 0" "cs_hours s = parsed ! 1" "cs_days s = parsed ! 2"
      "cs_months s = parsed ! 3" "cs_weekdays s = (\<lambda>d. d mod 7) ` (parsed ! 4)"
    by (auto simp: parse_cron_def Let_def split: if_splits sum.splits)
  have "(\<lambda>d. d mod 7) ` A \<subseteq> {0..6}" for A :: "nat set"
    by (auto simp: less_Suc_eq_le [symmetric])
  moreover from parse_fields_5 [OF p] obtain a b c d e where "parsed = [a, b, c, d, e]"
    "a \<subseteq> {0..59} \<and> a \<noteq> {} \<and> b \<subseteq> {0..23} \<and> b \<noteq> {} \<and> c \<subseteq> {1..31} \<and> c \<noteq> {} \<and>
     d \<subseteq> {1..12} \<and> d \<noteq> {} \<and> e \<subseteq> {0..7} \<and> e \<noteq> {}"
    by blast
  ultimately show ?thesis
    unfolding wf_schedule_def using s by simp
qed

subsection \<open>Parsing the stored expression again\<close>

lemma words_aux_run:
  "list_all (\<lambda>c. \<not> py_isspace c) p \<Longrightarrow> words_aux w (p @ s) = words_aux (rev p @ w) s"
  by (induction p arbitrary: w) auto

lemma words_aux_parts:
  "list_all (\<lambda>c. \<not> py_isspace c) w \<Longrightarrow>
     p \<in> set (words_aux w s) \<Longrightarrow> p \<noteq> [] \<and> list_all (\<lambda>c. \<not> py_isspace c) p"
proof (induction s arbitrary: w)
  case (Cons a s)
  show ?case
  proof (cases "py_isspace a")
    case True
    then show ?thesis
      using Cons.IH [of "[]"] Cons.prems by (auto simp: list_all_iff split: if_splits)
  next
    case False
    then show ?thesis
      using Cons.IH [of "a # w"] Cons.prems by simp
  qed
qed (auto simp: list_all_iff split: if_splits)

lemma words_aux_join:
  "ps \<noteq> [] \<Longrightarrow> (\<And>p. p \<in> set ps \<Longrightarrow> p \<noteq> [] \<and> list_all (\<lambda>c. \<not> py_isspace c) p) \<Longrightarrow>
     words_aux [] (join '' '' ps) = ps"
proof (induction ps)
  case (Cons p ps)
  have sp: "py_isspace (CHR '' '')" by (simp add: py_isspace_def)
  have p: "p \<noteq> []" "list_all (\<lambda>c. \<not> py_isspace c) p" using Cons.prems(2) by auto
  show ?case
  proof (cases ps)
    case Nil
    then show ?thesis using p words_aux_run [of p "[]" "[]"] by simp
  next
    case (Cons q qs)
    have "words_aux [] (p @ '' '' @ join '' '' ps) = p # words_aux [] (join '' '' ps)"
      using p sp by (simp add: words_aux_run)
    moreover have "words_aux [] (join '' '' ps) = ps"
      using Cons Cons.IH Cons.prems by simp
    ultimately show ?thesis using Cons by simp
  qed
qed simp

lemma py_words_join_words: "py_words (join '' '' (py_words s)) = py_words s"
proof (cases "py_words s = []")
  case False
  then show ?thesis
    unfolding py_words_def by (intro words_aux_join) (auto dest: words_aux_parts [rotated])
qed (simp add: py_words_def)

subsection \<open>The first time of a day\<close>

lemma sorted_product:
  fixes xs :: "'a :: linorder list" and ys :: "'b :: linorder list"
  assumes "sorted_wrt (<) xs" "sorted ys"
  shows "sorted (List.product xs ys)"
  using assms
proof (induction xs)
  case (Cons x xs)
  have "sorted (map (Pair x) ys)"
    using Cons.prems(2) by (simp add: sorted_map less_eq_prod_def)
  moreover have "sorted (List.product xs ys)"
    using Cons by simp
  moreover have "p \<le> q" if "p \<in> set (map (Pair x) ys)" "q \<in> set (List.product xs ys)" for p q
    using that Cons.prems(1) by (auto simp: less_eq_prod_def)
  ultimately show ?case by (simp add: sorted_append)
qed simp

lemma find_sorted_least:
  assumes "sorted xs" "find P xs = Some x"
  shows "x \<in> set xs" "P x" "\<And>y. y \<in> set xs \<Longrightarrow> P y \<Longrightarrow> x \<le> y"
proof -
  from assms(2) obtain i where i: "i < length xs" "P (xs ! i)" "x = xs ! i" "\<And>j. j < i \<Longrightarrow> \<not> P (xs ! j)"
    by (auto simp: find_Some_iff)
  then show "x \<in> set xs" "P x" by auto
  fix y assume "y \<in> set xs" "P y"
  then obtain j where "j < length xs" "y = xs ! j" by (auto simp: in_set_conv_nth)
  with i \<open>P y\<close> have "i \<le> j" by (metis not_le)
  then show "x \<le> y"
    using assms(1) i \<open>j < length xs\<close> \<open>y = xs ! j\<close> by (simp add: sorted_nth_mono)
qed

definition hours_minutes :: "cron_schedule \<Rightarrow> (nat \<times> nat) list" where
  "hours_minutes s = List.product (sorted_list_of_set (cs_hours s)) (sorted_list_of_set (cs_minutes s))"

lemma wf_finite:
  assumes "wf_schedule s"
  shows "finite (cs_hours s)" "finite (cs_minutes s)"
  using assms by (auto simp: wf_schedule_def intro: finite_subset)

lemma first_time_Some:
  assumes "wf_schedule s" "first_time s h mi = Some (a, b)"
  shows "a \<in> cs_hours s" "b \<in> cs_minutes s" "(h, mi) \<le> (a, b)"
    and "\<And>c d. c \<in> cs_hours s \<Longrightarrow> d \<in> cs_minutes s \<Longrightarrow> (h, mi) \<le> (c, d) \<Longrightarrow> (a, b) \<le> (c, d)"
proof -
  have set: "set (hours_minutes s) = cs_hours s \<times> cs_minutes s"
    using wf_finite [OF assms(1)] by (simp add: hours_minutes_def)
  have sorted: "sorted (hours_minutes s)"
    unfolding hours_minutes_def by (rule sorted_product) simp_all
  note f = find_sorted_least [OF sorted assms(2) [unfolded first_time_def, folded hours_minutes_def]]
  show "a \<in> cs_hours s" "b \<in> cs_minutes s" using f(1) by (simp_all add: set)
  show "(h, mi) \<le> (a, b)" using f(2) by auto
  show "(a, b) \<le> (c, d)" if "c \<in> cs_hours s" "d \<in> cs_minutes s" "(h, mi) \<le> (c, d)" for c d
    using that by (intro f(3)) (auto simp: set)
qed

lemma first_time_None:
  assumes "wf_schedule s" "first_time s h mi = None" "c \<in> cs_hours s" "d \<in> cs_minutes s"
  shows "\<not> (h, mi) \<le> (c, d)"
proof
  assume "(h, mi) \<le> (c, d)"
  moreover have "(c, d) \<in> set (List.product (sorted_list_of_set (cs_hours s)) (sorted_list_of_set (cs_minutes s)))"
    using assms(3,4) wf_finite [OF assms(1)] by simp
  ultimately show False
    using assms(2) by (force simp: first_time_def find_None_iff)
qed

subsection \<open>One day of the search\<close>

lemma dt_minutes_le_iff:
  assumes "valid_date_time a" "valid_date_time b"
  shows "dt_minutes a \<le> dt_minutes b \<longleftrightarrow> dt_ordinal a < dt_ordinal b \<or>
    dt_ordinal a = dt_ordinal b \<and> (dt_hour a, dt_minute a) \<le> (dt_hour b, dt_minute b)"
  using assms by (auto simp: dt_minutes_def valid_date_time_def less_eq_prod_def)

lemma same_ordinal_same_date:
  assumes "valid_date_time a" "valid_date_time b" "dt_ordinal a = dt_ordinal b"
  shows "dt_year a = dt_year b" "dt_month a = dt_month b" "dt_day a = dt_day b"
  using assms to_ordinal_inject [of "dt_year a" "dt_month a" "dt_day a" "dt_year b" "dt_month b" "dt_day b"]
  by (auto simp: valid_date_time_def dt_ordinal_def)

lemma day_matches_same_day:
  assumes "valid_date_time a" "valid_date_time b" "dt_ordinal a = dt_ordinal b"
  shows "day_matches s a = day_matches s b"
  using same_ordinal_same_date [OF assms] by (simp add: day_matches_def)

definition midnight_after :: "date_time \<Rightarrow> date_time option" where
  "midnight_after c = map_option (\<lambda>c'. c'\<lparr>dt_hour := 0, dt_minute := 0\<rparr>) (add_day c)"

lemma midnight_after_Some:
  assumes "valid_date_time c" "midnight_after c = Some m"
  shows "valid_date_time m" "dt_ordinal m = Suc (dt_ordinal c)" "dt_hour m = 0" "dt_minute m = 0"
    "dt_second m = dt_second c" "dt_micro m = dt_micro c"
proof -
  obtain y mo d where sd: "succ_date (dt_year c, dt_month c, dt_day c) = (y, mo, d)"
    by (cases "succ_date (dt_year c, dt_month c, dt_day c)") auto
  have "valid_date (dt_year c) (dt_month c) (dt_day c)"
    using assms(1) by (simp add: valid_date_time_def)
  note v = succ_date_valid [OF this sd]
  show "valid_date_time m" "dt_ordinal m = Suc (dt_ordinal c)" "dt_hour m = 0" "dt_minute m = 0"
    "dt_second m = dt_second c" "dt_micro m = dt_micro c"
    using assms v sd
    by (auto simp: midnight_after_def add_day_def valid_date_time_def dt_ordinal_def split: if_splits)
qed

lemma midnight_after_None:
  assumes "valid_date_time c" "midnight_after c = None"
  shows "days_before_year 10000 \<le> dt_ordinal c"
proof -
  obtain y mo d where sd: "succ_date (dt_year c, dt_month c, dt_day c) = (y, mo, d)"
    by (cases "succ_date (dt_year c, dt_month c, dt_day c)") auto
  have "valid_date (dt_year c) (dt_month c) (dt_day c)"
    using assms(1) by (simp add: valid_date_time_def)
  note v = succ_date_valid [OF this sd]
  have "10000 \<le> y"
    using assms(2) sd by (auto simp: midnight_after_def add_day_def split: if_splits)
  then have "days_before_year 10000 \<le> days_before_year y" by (intro days_before_year_mono) auto
  with ordinal_in_year(1) [OF v(1)] v(2) show ?thesis by (simp add: dt_ordinal_def)
qed

definition time_today :: "cron_schedule \<Rightarrow> date_time \<Rightarrow> (nat \<times> nat) option" where
  "time_today s c = (if day_matches s c then first_time s (dt_hour c) (dt_minute c) else None)"

lemma search_days_Suc:
  "search_days (Suc n) s c = (case time_today s c of
      Some (hour, minute) \<Rightarrow> Inr (c\<lparr>dt_hour := hour, dt_minute := minute\<rparr>)
    | None \<Rightarrow> (case midnight_after c of None \<Rightarrow> Inl DateOverflow | Some m \<Rightarrow> search_days n s m))"
  by (simp add: time_today_def midnight_after_def split: option.splits)

declare search_days.simps(2) [simp del]

lemma time_today_None:
  assumes "wf_schedule s" "time_today s c = None"
    and "valid_date_time c" "valid_date_time u" "matches s u" "dt_minutes c \<le> dt_minutes u"
  shows "dt_ordinal c < dt_ordinal u"
proof (rule ccontr)
  assume "\<not> ?thesis"
  then have eq: "dt_ordinal c = dt_ordinal u" and le: "(dt_hour c, dt_minute c) \<le> (dt_hour u, dt_minute u)"
    using assms(6) dt_minutes_le_iff [OF assms(3,4)] by auto
  have "day_matches s c" using day_matches_same_day [OF assms(3,4) eq] assms(5) by (simp add: matches_def)
  then have "first_time s (dt_hour c) (dt_minute c) = None"
    using assms(2) by (simp add: time_today_def)
  from first_time_None [OF assms(1) this, of "dt_hour u" "dt_minute u"] assms(5) le
  show False by (simp add: matches_def)
qed

lemma time_today_Some:
  assumes "wf_schedule s" "time_today s c = Some (h, mi)"
    and "valid_date_time c" "dt_second c = 0" "dt_micro c = 0"
  defines "r \<equiv> c\<lparr>dt_hour := h, dt_minute := mi\<rparr>"
  shows "valid_date_time r" "matches s r" "dt_minutes c \<le> dt_minutes r"
    and "\<And>u. valid_date_time u \<Longrightarrow> matches s u \<Longrightarrow> dt_minutes c \<le> dt_minutes u \<Longrightarrow> dt_minutes r \<le> dt_minutes u"
proof -
  have day: "day_matches s c" and ft: "first_time s (dt_hour c) (dt_minute c) = Some (h, mi)"
    using assms(2) by (auto simp: time_today_def split: if_splits)
  note f = first_time_Some [OF assms(1) ft]
  have "h < 24" "mi < 60" using f(1,2) assms(1) by (auto simp: wf_schedule_def)
  then show v: "valid_date_time r" using assms(3) by (simp add: r_def valid_date_time_def)
  have ord: "dt_ordinal r = dt_ordinal c" by (simp add: r_def dt_ordinal_def)
  show "matches s r" using day f(1,2) assms(4,5) by (simp add: r_def matches_def day_matches_def)
  show "dt_minutes c \<le> dt_minutes r"
    using f(3) by (simp add: dt_minutes_le_iff [OF assms(3) v] ord) (simp add: r_def)
  fix u assume u: "valid_date_time u" "matches s u" "dt_minutes c \<le> dt_minutes u"
  then have "dt_ordinal c < dt_ordinal u \<or>
      dt_ordinal c = dt_ordinal u \<and> (dt_hour c, dt_minute c) \<le> (dt_hour u, dt_minute u)"
    by (simp add: dt_minutes_le_iff [OF assms(3)])
  moreover have "(h, mi) \<le> (dt_hour u, dt_minute u)"
    if "(dt_hour c, dt_minute c) \<le> (dt_hour u, dt_minute u)"
    using f(4) that u(2) by (simp only: matches_def)
  moreover have "dt_hour r = h" "dt_minute r = mi" by (simp_all add: r_def)
  ultimately show "dt_minutes r \<le> dt_minutes u"
    unfolding dt_minutes_le_iff [OF v u(1)] ord by metis
qed

subsection \<open>The whole search\<close>

lemma search_days_sound:
  assumes "wf_schedule s"
  shows "search_days n s c = Inr r \<Longrightarrow> valid_date_time c \<Longrightarrow> dt_second c = 0 \<Longrightarrow> dt_micro c = 0 \<Longrightarrow>
    valid_date_time r \<and> matches s r \<and> dt_minutes c \<le> dt_minutes r \<and>
    (\<forall>u. valid_date_time u \<longrightarrow> matches s u \<longrightarrow> dt_minutes c \<le> dt_minutes u \<longrightarrow> dt_minutes r \<le> dt_minutes u)"
proof (induction n arbitrary: c)
  case (Suc n)
  show ?case
  proof (cases "time_today s c")
    case (Some p)
    then obtain h mi where "time_today s c = Some (h, mi)" by (cases p) auto
    with time_today_Some [OF assms this Suc.prems(2-4)] Suc.prems(1) show ?thesis
      by (simp add: search_days_Suc)
  next
    case None
    with Suc.prems(1) obtain m where m: "midnight_after c = Some m" "search_days n s m = Inr r"
      by (auto simp: search_days_Suc split: option.splits)
    note mm = midnight_after_Some [OF Suc.prems(2) m(1)]
    have later: "dt_minutes m \<le> dt_minutes u"
      if "valid_date_time u" "matches s u" "dt_minutes c \<le> dt_minutes u" for u
      using time_today_None [OF assms None Suc.prems(2) that] mm
      by (auto simp: dt_minutes_le_iff [OF mm(1) that(1)] less_eq_prod_def)
    have "dt_minutes c \<le> dt_minutes m"
      using mm by (simp add: dt_minutes_le_iff [OF Suc.prems(2) mm(1)])
    with Suc.IH [OF m(2) mm(1)] mm(5,6) Suc.prems(3,4) later show ?thesis
      by (auto intro: le_trans)
  qed
qed simp

lemma search_days_exhausted:
  assumes "wf_schedule s"
  shows "search_days n s c = Inl NeverMatches \<Longrightarrow> valid_date_time c \<Longrightarrow>
    valid_date_time u \<Longrightarrow> matches s u \<Longrightarrow> dt_minutes c \<le> dt_minutes u \<Longrightarrow>
    dt_ordinal c + n \<le> dt_ordinal u"
proof (induction n arbitrary: c)
  case 0
  then show ?case by (auto simp: dt_minutes_le_iff)
next
  case (Suc n)
  then obtain m where none: "time_today s c = None" and m: "midnight_after c = Some m" "search_days n s m = Inl NeverMatches"
    by (auto simp: search_days_Suc split: option.splits prod.splits)
  note mm = midnight_after_Some [OF Suc.prems(2) m(1)]
  have lt: "dt_ordinal c < dt_ordinal u"
    using time_today_None [OF assms none Suc.prems(2-5)] .
  then have "dt_minutes m \<le> dt_minutes u"
    using mm by (auto simp: dt_minutes_le_iff [OF mm(1) Suc.prems(3)] less_eq_prod_def)
  from Suc.IH [OF m(2) mm(1) Suc.prems(3,4) this] mm(2) show ?case by simp
qed

lemma search_days_no_overflow:
  "search_days n s c = Inl DateOverflow \<Longrightarrow> valid_date_time c \<Longrightarrow>
     days_before_year 10000 < dt_ordinal c + n"
proof (induction n arbitrary: c)
  case (Suc n)
  from Suc.prems have "midnight_after c = None \<or>
      (\<exists>m. midnight_after c = Some m \<and> search_days n s m = Inl DateOverflow)"
    by (auto simp: search_days_Suc split: option.splits prod.splits)
  then show ?case
    using midnight_after_None [OF Suc.prems(2)] midnight_after_Some [OF Suc.prems(2)] Suc.IH by fastforce
qed simp

lemma search_days_errors:
  "search_days n s c = Inl e \<Longrightarrow> e = NeverMatches \<or> e = DateOverflow"
  by (induction n arbitrary: c) (auto simp: search_days_Suc split: option.splits prod.splits)

lemma search_days_room:
  "search_days n s c = Inl NeverMatches \<Longrightarrow> valid_date_time c \<Longrightarrow>
     dt_ordinal c + n \<le> days_before_year 10000"
proof (induction n arbitrary: c)
  case 0
  have "valid_date (dt_year c) (dt_month c) (dt_day c)"
    using 0 by (simp add: valid_date_time_def)
  then have "dt_ordinal c \<le> days_before_year (Suc (dt_year c))"
    using ordinal_in_year(2) by (simp add: dt_ordinal_def)
  also have "\<dots> \<le> days_before_year 10000"
    using 0 by (intro days_before_year_mono) (auto simp: valid_date_time_def)
  finally show ?case by simp
next
  case (Suc n)
  then obtain m where m: "midnight_after c = Some m" "search_days n s m = Inl NeverMatches"
    by (auto simp: search_days_Suc split: option.splits prod.splits)
  from Suc.IH [OF m(2) midnight_after_Some(1) [OF Suc.prems(2) m(1)]]
    midnight_after_Some(2) [OF Suc.prems(2) m(1)] show ?case by simp
qed

text \<open>
  Every date has a twin, a whole number of 400-year eras away, with the same month, day and
  weekday in any given window of 146097 days.
\<close>

lemma year_of_ordinal_pos:
  assumes "valid_date y m d" "146097 * k < to_ordinal y m d"
  shows "400 * k < y"
proof (rule ccontr)
  assume "\<not> ?thesis"
  then have "days_before_year (Suc y) \<le> days_before_year (1 + 400 * k)"
    using assms(1) by (intro days_before_year_mono) (auto simp: valid_date_def)
  also have "\<dots> = 146097 * k" by (simp only: days_before_year_400) (simp add: days_before_year_def)
  finally show False using ordinal_in_year(2) [OF assms(1)] assms(2) by simp
qed

lemma twin_year:
  assumes "valid_date y m d"
  obtains y' where "valid_date y' m d" "base < to_ordinal y' m d" "to_ordinal y' m d \<le> base + 146097"
    "py_weekday y' m d = py_weekday y m d"
proof (cases "to_ordinal y m d \<le> base")
  case True
  define k where "k = (base - to_ordinal y m d) div 146097 + 1"
  have y: "1 \<le> y" using assms by (simp add: valid_date_def)
  have "(base - to_ordinal y m d) mod 146097 < 146097" by simp
  moreover have "(base - to_ordinal y m d) mod 146097 + 146097 * (k - 1) = base - to_ordinal y m d"
    by (simp add: k_def)
  moreover have "146097 * k = 146097 * (k - 1) + 146097" by (simp add: k_def)
  ultimately have "base < to_ordinal y m d + 146097 * k" "to_ordinal y m d + 146097 * k \<le> base + 146097"
    using True by linarith+
  with y assms that [of "y + 400 * k"] show thesis by (simp add: to_ordinal_400)
next
  case False
  define k where "k = (to_ordinal y m d - base - 1) div 146097"
  define y' where "y' = y - 400 * k"
  have "(to_ordinal y m d - base - 1) mod 146097 < 146097" by simp
  moreover have "(to_ordinal y m d - base - 1) mod 146097 + 146097 * k = to_ordinal y m d - base - 1"
    by (simp add: k_def)
  ultimately have k: "146097 * k + base < to_ordinal y m d" "to_ordinal y m d \<le> base + 146097 + 146097 * k"
    using False by linarith+
  then have "400 * k < y" using year_of_ordinal_pos [OF assms, of k] by linarith
  then have y: "y = y' + 400 * k" "1 \<le> y'" by (simp_all add: y'_def)
  have "to_ordinal y m d = to_ordinal y' m d + 146097 * k"
    unfolding y(1) using y(2) by (rule to_ordinal_400)
  with k assms y that [of y'] show thesis by simp
qed

lemma twin_in_window:
  assumes "valid_date_time u" "matches s u" "base + 146097 \<le> days_before_year 10000"
  obtains v where "valid_date_time v" "base < dt_ordinal v" "dt_ordinal v \<le> base + 146097" "matches s v"
proof -
  have "valid_date (dt_year u) (dt_month u) (dt_day u)"
    using assms(1) by (simp add: valid_date_time_def)
  then obtain y where y: "valid_date y (dt_month u) (dt_day u)" "base < to_ordinal y (dt_month u) (dt_day u)"
    "to_ordinal y (dt_month u) (dt_day u) \<le> base + 146097"
    "py_weekday y (dt_month u) (dt_day u) = py_weekday (dt_year u) (dt_month u) (dt_day u)"
    by (rule twin_year)
  have "y \<le> 9999"
  proof (rule ccontr)
    assume "\<not> ?thesis"
    then have "days_before_year 10000 \<le> days_before_year y" by (intro days_before_year_mono) auto
    with ordinal_in_year(1) [OF y(1)] y(3) assms(3) show False by linarith
  qed
  then have "valid_date_time (u\<lparr>dt_year := y\<rparr>)"
    using y(1) assms(1) by (simp add: valid_date_time_def)
  moreover have "matches s (u\<lparr>dt_year := y\<rparr>)"
    using y(4) assms(2) by (simp add: matches_def day_matches_def date_matches_def Let_def split: if_splits)
  ultimately show thesis
    using y(2,3) that [of "u\<lparr>dt_year := y\<rparr>"] by (simp add: dt_ordinal_def)
qed

text \<open>The first candidate is the minute after the moment.\<close>

lemma add_minute_Some:
  assumes "valid_date_time t" "add_minute t = Some c"
  shows "valid_date_time c" "dt_minutes c = Suc (dt_minutes t)" "dt_second c = dt_second t" "dt_micro c = dt_micro t"
    "dt_ordinal c \<le> Suc (dt_ordinal t)"
proof -
  consider "dt_minute t < 59" | "dt_minute t = 59" "dt_hour t < 23" | "dt_minute t = 59" "dt_hour t = 23"
    using assms(1) by (force simp: valid_date_time_def)
  then have "valid_date_time c \<and> dt_minutes c = Suc (dt_minutes t) \<and> dt_second c = dt_second t \<and>
    dt_micro c = dt_micro t \<and> dt_ordinal c \<le> Suc (dt_ordinal t)"
  proof cases
    case 3
    let ?t = "t\<lparr>dt_hour := 0, dt_minute := 0\<rparr>"
    have t: "valid_date_time ?t" using assms(1) by (simp add: valid_date_time_def)
    from 3 assms(2) have "add_day ?t = Some c" by (simp add: add_minute_def)
    then have "dt_hour c = 0" "dt_minute c = 0" by (auto simp: add_day_def split: prod.splits if_splits)
    then have "midnight_after ?t = Some c"
      using \<open>add_day ?t = Some c\<close> by (simp add: midnight_after_def)
    note m = midnight_after_Some [OF t this]
    have "dt_ordinal ?t = dt_ordinal t" by (simp add: dt_ordinal_def)
    with m 3 show ?thesis by (simp add: dt_minutes_def)
  qed (use assms in \<open>auto simp: add_minute_def valid_date_time_def dt_minutes_def dt_ordinal_def\<close>)
  then show "valid_date_time c" "dt_minutes c = Suc (dt_minutes t)" "dt_second c = dt_second t"
    "dt_micro c = dt_micro t" "dt_ordinal c \<le> Suc (dt_ordinal t)" by auto
qed

lemma add_minute_None:
  assumes "valid_date_time t" "add_minute t = None"
  shows "days_before_year 10000 \<le> dt_ordinal t"
proof -
  let ?t = "t\<lparr>dt_hour := 0, dt_minute := 0\<rparr>"
  have "valid_date_time ?t" using assms(1) by (simp add: valid_date_time_def)
  moreover have "midnight_after ?t = None"
    using assms(2) by (simp add: add_minute_def midnight_after_def split: if_splits)
  ultimately show ?thesis using midnight_after_None [of ?t] by (simp add: dt_ordinal_def)
qed

lemma dt_abs_minute:
  assumes "valid_date_time t" "dt_second u = 0" "dt_micro u = 0"
  shows "dt_abs t < dt_abs u \<longleftrightarrow> dt_minutes t < dt_minutes u"
proof -
  have "(dt_second t) * 1000000 + dt_micro t < 60 * 1000000"
    using assms(1) by (simp add: valid_date_time_def)
  then show ?thesis using assms(2,3) by (auto simp: dt_abs_def algebra_simps)
qed

text \<open>The moment with its seconds cleared, from which \<^const>\<open>next_after\<close> takes its first candidate.\<close>

abbreviation floor_minute :: "date_time \<Rightarrow> date_time" where
  "floor_minute t \<equiv> t\<lparr>dt_second := 0, dt_micro := 0\<rparr>"

lemma floor_minute_facts:
  "valid_date_time t \<Longrightarrow> valid_date_time (floor_minute t)"
  "dt_minutes (floor_minute t) = dt_minutes t" "dt_ordinal (floor_minute t) = dt_ordinal t"
  by (simp_all add: valid_date_time_def dt_minutes_def dt_ordinal_def)

lemma next_after_start:
  assumes "valid_date_time t" "add_minute (floor_minute t) = Some c"
  shows "valid_date_time c" "dt_minutes c = Suc (dt_minutes t)" "dt_second c = 0" "dt_micro c = 0"
    "dt_ordinal c \<le> Suc (dt_ordinal t)"
  using add_minute_Some [OF floor_minute_facts(1) [OF assms(1)] assms(2)] by (simp_all add: floor_minute_facts)

subsection \<open>Properties\<close>

lemma parse_again:
  assumes "parse_cron e = Inr s"
  shows "parse_cron (cs_expression s) = Inr s"
proof -
  have "cs_expression s = join '' '' (py_words e)"
    using assms by (auto simp: parse_cron_def Let_def split: if_splits sum.splits)
  then show ?thesis
    using assms by (simp add: parse_cron_def py_words_join_words)
qed

lemma next_after_some_match:
  assumes "wf_schedule s" "valid_date_time t" "next_after s t = Inr r"
  shows "valid_date_time r \<and> matches s r"
proof -
  from assms(3) obtain c where c: "add_minute (floor_minute t) = Some c"
    and r: "search_days max_search_days s c = Inr r"
    by (auto simp: next_after_def split: option.splits)
  note st = next_after_start [OF assms(2) c]
  from search_days_sound [OF assms(1) r st(1,3,4)] show ?thesis by blast
qed

text \<open>a schedule that parses names only legal minutes, hours, days, months and weekdays, and
  at least one of each, so the search never builds an illegal date.\<close>

theorem parse_cron_legal:
  assumes "parse_cron e = Inr s"
  shows "wf_schedule s"
  using assms by (rule parse_cron_wf)

text \<open>the policy stores the normalised expression of a schedule and parses it again on every
  load; parsing that stored text gives back exactly the same schedule.\<close>

theorem parse_cron_again:
  assumes "parse_cron e = Inr s"
  shows "parse_cron (cs_expression s) = Inr s"
  using assms by (rule parse_again)

text \<open>C25: the next run is a legal minute the schedule names, it is strictly after the moment asked
  about, and no named minute lies between: the search never skips a due run.\<close>

theorem next_after_first:
  assumes "wf_schedule s" "valid_date_time t" "next_after s t = Inr r"
  shows "valid_date_time r \<and> matches s r \<and> dt_abs t < dt_abs r \<and>
    (\<forall>u. valid_date_time u \<longrightarrow> matches s u \<longrightarrow> dt_abs t < dt_abs u \<longrightarrow> dt_abs r \<le> dt_abs u)"
proof -
  from assms(3) obtain c where c: "add_minute (floor_minute t) = Some c"
    and r: "search_days max_search_days s c = Inr r"
    by (auto simp: next_after_def split: option.splits)
  note st = next_after_start [OF assms(2) c]
  note so = search_days_sound [OF assms(1) r st(1,3,4)]
  have "dt_abs t < dt_abs r"
    using so st(2) by (simp add: dt_abs_minute [OF assms(2)] matches_def)
  moreover have "dt_abs r \<le> dt_abs u" if u: "valid_date_time u" "matches s u" "dt_abs t < dt_abs u" for u
  proof -
    have "dt_minutes t < dt_minutes u"
      using u dt_abs_minute [OF assms(2), of u] by (simp add: matches_def)
    then have "dt_minutes r \<le> dt_minutes u" using so u st(2) by auto
    then show ?thesis using so u(2) by (simp add: dt_abs_def matches_def)
  qed
  ultimately show ?thesis using so by blast
qed

lemma never_no_match:
  assumes "wf_schedule s" "valid_date_time t" "next_after s t = Inl NeverMatches"
  shows "\<not> (\<exists>u. valid_date_time u \<and> matches s u)"
proof
  assume "\<exists>u. valid_date_time u \<and> matches s u"
  then obtain u where u: "valid_date_time u" "matches s u" by blast
  from assms(3) obtain c where c: "add_minute (floor_minute t) = Some c"
    and none: "search_days max_search_days s c = Inl NeverMatches"
    by (auto simp: next_after_def split: option.splits)
  note st = next_after_start [OF assms(2) c]
  have "dt_ordinal c + 146097 \<le> days_before_year 10000"
    using search_days_room [OF none st(1)] by (simp add: max_search_days_def)
  from twin_in_window [OF u this] obtain v where v: "valid_date_time v" "dt_ordinal c < dt_ordinal v"
    "dt_ordinal v \<le> dt_ordinal c + 146097" "matches s v" by blast
  have "dt_minutes c \<le> dt_minutes v"
    using v(2) by (simp add: dt_minutes_le_iff [OF st(1) v(1)])
  from search_days_exhausted [OF assms(1) none st(1) v(1,4) this] v(3)
  show False by (simp add: max_search_days_def)
qed

text \<open>C31: the search gives up only when the schedule names no date of the calendar at all, past or
  future: the 400 years and one day it looks at stand for every year.\<close>

theorem next_after_never:
  assumes "wf_schedule s" "valid_date_time t" "next_after s t = Inl NeverMatches"
  shows "\<not> (\<exists>u. valid_date_time u \<and> matches s u)"
  using assms by (rule never_no_match)

lemma next_after_not_overflow:
  assumes "valid_date_time t" "dt_year t < 9599"
  shows "next_after s t \<noteq> Inl DateOverflow"
proof -
  have t: "valid_date (dt_year t) (dt_month t) (dt_day t)"
    using assms(1) by (simp add: valid_date_time_def)
  have "dt_ordinal t \<le> days_before_year (Suc (dt_year t))"
    using ordinal_in_year(2) [OF t] by (simp add: dt_ordinal_def)
  also have "\<dots> \<le> days_before_year (9599 + 400 * 0)"
    using assms(2) by (intro days_before_year_mono) auto
  finally have early: "dt_ordinal t + 2 + max_search_days \<le> days_before_year 10000"
    using days_before_year_400 [of 9599 1] days_before_year_Suc [of 9999]
    by (simp add: max_search_days_def split: if_splits)
  obtain c where c: "add_minute (floor_minute t) = Some c"
    using add_minute_None [OF floor_minute_facts(1) [OF assms(1)]] early
    by (cases "add_minute (floor_minute t)") (auto simp: floor_minute_facts)
  note st = next_after_start [OF assms(1) c]
  show ?thesis
    using search_days_no_overflow [OF _ st(1)] st(5) early
    by (fastforce simp: next_after_def c)
qed

lemma next_after_errors: "next_after s t = Inl e \<Longrightarrow> e = NeverMatches \<or> e = DateOverflow"
  by (auto simp: next_after_def split: option.splits dest: search_days_errors)

subsection \<open>The policy's check of a schedule\<close>

text \<open>
  \<open>FullClassPolicy._valid_cron\<close> of \<open>policy.py\<close>: it parses the text, asks for the next run after
  the start of 2000 and keeps the normalised expression. A \<open>CronError\<close> becomes the field's
  validation message; any other exception leaves the validator as it is.
\<close>

datatype policy_error = NotACronSchedule cron_error | Raised cron_error

definition cron_probe_from :: date_time where
  "cron_probe_from = \<lparr>dt_year = 2000, dt_month = 1, dt_day = 1, dt_hour = 0, dt_minute = 0,
     dt_second = 0, dt_micro = 0\<rparr>"

definition policy_schedule :: "string \<Rightarrow> policy_error + string" where
  "policy_schedule value =
     (case (case parse_cron value of
              Inl e \<Rightarrow> Inl e
            | Inr s \<Rightarrow> (case next_after s cron_probe_from of Inl e \<Rightarrow> Inl e | Inr _ \<Rightarrow> Inr (cs_expression s))) of
        Inl e \<Rightarrow> Inl (if is_CronError e then NotACronSchedule e else Raised e)
      | Inr text \<Rightarrow> Inr text)"

lemma cron_probe_valid: "valid_date_time cron_probe_from"
  by (simp add: cron_probe_from_def valid_date_time_def valid_date_def days_in_month_def)

text \<open>a schedule the policy accepts never leaves the scheduler without a next run: its stored
  text parses, and from any moment before the year 9599 the search ends with a run.\<close>

theorem policy_schedule_runs:
  assumes "policy_schedule value = Inr text" "valid_date_time t" "dt_year t < 9599"
  shows "\<exists>s r. parse_cron text = Inr s \<and> next_after s t = Inr r"
proof -
  from assms(1) obtain s r where s: "parse_cron value = Inr s"
    and r: "next_after s cron_probe_from = Inr r" and stored: "text = cs_expression s"
    by (auto simp: policy_schedule_def split: sum.splits)
  have wf: "wf_schedule s" by (rule parse_cron_wf [OF s])
  have "valid_date_time r \<and> matches s r"
    by (rule next_after_some_match [OF wf cron_probe_valid r])
  then have "next_after s t \<noteq> Inl NeverMatches"
    using never_no_match [OF wf assms(2)] by blast
  then obtain r' where "next_after s t = Inr r'"
    using next_after_errors next_after_not_overflow [OF assms(2,3)]
    by (cases "next_after s t") auto
  moreover have "parse_cron text = Inr s" unfolding stored by (rule parse_again [OF s])
  ultimately show ?thesis by blast
qed

text \<open>an expression with a superscript digit is refused with the plain \<open>ValueError\<close> of
  \<open>int\<close> and not with the \<open>CronError\<close> the module documents for unsupported expressions, because
  \<open>str.isdigit\<close> holds of such digits.\<close>

theorem superscript_digit_escapes:
  "parse_cron (char_of (178 :: nat) # '' * * * *'') = Inl IntValueError \<and>
   policy_schedule (char_of (178 :: nat) # '' * * * *'') = Inl (Raised IntValueError)"
  by code_simp

text \<open>Witnesses: the nightly schedule at three, a leap-day schedule, and the thirtieth of February.\<close>

definition nightly :: cron_schedule where
  "nightly = \<lparr>cs_expression = ''0 3 * * *'', cs_minutes = {0}, cs_hours = {3}, cs_days = {1..31},
     cs_months = {1..12}, cs_weekdays = {0..6}, cs_day_restricted = False, cs_weekday_restricted = False\<rparr>"

definition thirtieth_of_february :: cron_schedule where
  "thirtieth_of_february = \<lparr>cs_expression = ''0 0 30 2 *'', cs_minutes = {0}, cs_hours = {0}, cs_days = {30},
     cs_months = {2}, cs_weekdays = {0..6}, cs_day_restricted = True, cs_weekday_restricted = False\<rparr>"

definition late_evening :: date_time where
  "late_evening = \<lparr>dt_year = 2024, dt_month = 2, dt_day = 28, dt_hour = 23, dt_minute = 59,
     dt_second = 30, dt_micro = 5\<rparr>"

lemma demo_schedules: "wf_schedule nightly" "wf_schedule thirtieth_of_february"
  by (auto simp: wf_schedule_def nightly_def thirtieth_of_february_def)

lemma late_evening_valid: "valid_date_time late_evening"
  by (simp add: late_evening_def valid_date_time_def valid_date_def days_in_month_def leap_year_def)

lemma search_days_max:
  "search_days max_search_days s c = (case time_today s c of
      Some (hour, minute) \<Rightarrow> Inr (c\<lparr>dt_hour := hour, dt_minute := minute\<rparr>)
    | None \<Rightarrow> (case midnight_after c of None \<Rightarrow> Inl DateOverflow | Some m \<Rightarrow> search_days 146097 s m))"
proof -
  have "max_search_days = Suc 146097" by (simp add: max_search_days_def)
  show ?thesis unfolding \<open>max_search_days = Suc 146097\<close> by (rule search_days_Suc)
qed

lemma nightly_next:
  "next_after nightly late_evening =
     Inr \<lparr>dt_year = 2024, dt_month = 2, dt_day = 29, dt_hour = 3, dt_minute = 0, dt_second = 0, dt_micro = 0\<rparr>"
proof -
  have "py_weekday 2024 2 29 = 3"
    by (simp add: py_weekday_def to_ordinal_def days_before_year_def days_before_february)
  then show ?thesis
    by (simp add: next_after_def late_evening_def nightly_def add_minute_def add_day_def succ_date_def
        days_in_month_def leap_year_def search_days_max time_today_def
        day_matches_def date_matches_def first_time_def)
qed

theorem parse_cron_legal_witness: "\<exists>s. parse_cron ''*/15 1-5/2 * 2 1,7'' = Inr s \<and> wf_schedule s"
proof -
  have "\<not> isl (parse_cron ''*/15 1-5/2 * 2 1,7'')" by code_simp
  then obtain s where "parse_cron ''*/15 1-5/2 * 2 1,7'' = Inr s"
    by (cases "parse_cron ''*/15 1-5/2 * 2 1,7''") auto
  with parse_cron_legal [OF this] show ?thesis by blast
qed

theorem parse_cron_again_witness: "\<exists>s. parse_cron ''  @Daily '' = Inr s \<and> parse_cron (cs_expression s) = Inr s"
proof -
  have "\<not> isl (parse_cron ''  @Daily '')" by code_simp
  then obtain s where "parse_cron ''  @Daily '' = Inr s"
    by (cases "parse_cron ''  @Daily ''") auto
  with parse_cron_again [OF this] show ?thesis by blast
qed

theorem next_after_first_witness:
  "\<exists>r. next_after nightly late_evening = Inr r \<and> dt_day r = 29 \<and> dt_abs late_evening < dt_abs r"
  using next_after_first [OF demo_schedules(1) late_evening_valid nightly_next] nightly_next by auto

theorem next_after_never_witness:
  "next_after thirtieth_of_february late_evening = Inl NeverMatches \<and>
   \<not> (\<exists>u. valid_date_time u \<and> matches thirtieth_of_february u)"
proof -
  have "\<not> (valid_date_time u \<and> matches thirtieth_of_february u)" for u
    by (auto simp: matches_def day_matches_def date_matches_def thirtieth_of_february_def
        valid_date_time_def valid_date_def days_in_month_def split: if_splits)
  then have "\<nexists>r. next_after thirtieth_of_february late_evening = Inr r"
    using next_after_some_match [OF demo_schedules(2) late_evening_valid] by blast
  then have "next_after thirtieth_of_february late_evening = Inl NeverMatches"
    using next_after_errors [of thirtieth_of_february late_evening]
      next_after_not_overflow [OF late_evening_valid]
    by (cases "next_after thirtieth_of_february late_evening") (auto simp: late_evening_def)
  with next_after_never [OF demo_schedules(2) late_evening_valid this] show ?thesis by blast
qed

theorem policy_schedule_runs_witness:
  "policy_schedule ''1  0 * * *'' = Inr ''1 0 * * *'' \<and>
   (\<exists>s r. parse_cron ''1 0 * * *'' = Inr s \<and> next_after s late_evening = Inr r)"
proof -
  have "case parse_cron ''1  0 * * *'' of Inl _ \<Rightarrow> False | Inr s \<Rightarrow> cs_expression s = ''1 0 * * *'' \<and>
      cs_hours s = {0} \<and> cs_minutes s = {1} \<and> 1 \<in> cs_days s \<and> 1 \<in> cs_months s \<and> 6 \<in> cs_weekdays s"
    by code_simp
  then obtain s where s: "parse_cron ''1  0 * * *'' = Inr s" "cs_expression s = ''1 0 * * *''"
    "cs_hours s = {0}" "cs_minutes s = {1}" "1 \<in> cs_days s" "1 \<in> cs_months s" "6 \<in> cs_weekdays s"
    by (auto split: sum.splits)
  have "py_weekday 2000 1 1 = 5"
    by (simp add: py_weekday_def to_ordinal_def days_before_year_def days_before_month.simps)
  with s have "\<exists>r. next_after s cron_probe_from = Inr r"
    by (simp add: next_after_def cron_probe_from_def add_minute_def search_days_max
        time_today_def day_matches_def date_matches_def first_time_def)
  with s have "policy_schedule ''1  0 * * *'' = Inr ''1 0 * * *''"
    by (auto simp: policy_schedule_def)
  moreover have "dt_year late_evening < 9599" by (simp add: late_evening_def)
  ultimately show ?thesis
    using policy_schedule_runs [OF _ late_evening_valid] by blast
qed

end
