(* ===== verification/Backup_Catalog.thy ===== *)
theory Backup_Catalog
  imports Prelude
begin

text \<open>
  The durable catalog of backup artifacts, \<open>history_service/backup_archive/catalog.py\<close>: the three
  SQLite tables as lists of rows, one function per method of \<open>ArtifactCatalog\<close>. A write runs in
  one transaction, so an operation gives either an error and no new state or the new state. An
  error is a constructor of \<open>catalog_error\<close>, one per message of the source. The lemmas give the
  invariant of the tables, that every operation keeps it, and what a deletion claim guarantees.

  Stored timestamps are the instants their fixed-width texts denote (four-digit years, which is
  what \<open>strftime\<close> writes from the year 1000 on); a JSON list of change ids is the list.
\<close>

subsection \<open>Values and errors\<close>

text \<open>A Python \<open>datetime\<close>: without a time zone, or an instant.\<close>

datatype timestamp = Naive | Aware instant

datatype catalog_error =
    NaiveTimestamp
  | InvalidName
  | InvalidLocation
  | InvalidClass
  | InvalidText string
  | RequiredText string
  | InvalidId
  | InvalidSize
  | InvalidSha256
  | InvalidChangeIds
  | PreservedWithoutActor
  | PreserveDetailsRefused
  | IdWasTombstoned
  | AlreadyCatalogued
  | NotCatalogued
  | BeingDeleted
  | Sha256Mismatch
  | SizeMismatch
  | NoLongerCatalogued
  | AlreadyClaimed
  | ChangedSincePlan
  | IsPreserved
  | IsNewestVerified
  | ChangedSincePlanned
  | PreservedClearFirst
  | TombstoneExists

record artifact =
  art_id :: string
  art_class :: string
  art_location :: string
  art_name :: string
  art_created :: timestamp
  art_size :: int
  art_sha256 :: string
  art_verified :: bool
  art_change_ids :: "string list"
  art_preserved :: bool
  art_preserve_reason :: string
  art_preserved_by :: string

text \<open>A row of the table \<open>artifacts\<close>, column by column.\<close>

record artifact_row =
  row_id :: string
  row_class :: string
  row_location :: string
  row_name :: string
  row_created_at :: instant
  row_size :: int
  row_sha256 :: string
  row_verified :: bool
  row_verified_at :: "instant option"
  row_change_ids :: "string list"
  row_preserved :: bool
  row_preserve_reason :: string
  row_preserved_by :: string
  row_preserved_at :: "instant option"
  row_claimed_at :: "instant option"
  row_claimed_by :: string
  row_cataloged_at :: instant

record tombstone =
  tomb_record :: artifact
  tomb_deleted_at :: instant
  tomb_reason :: string
  tomb_actor :: string

datatype preserve_action = Preserve | Unpreserve

record preserve_event =
  ev_artifact :: string
  ev_action :: preserve_action
  ev_reason :: string
  ev_actor :: string
  ev_at :: instant

record catalog =
  artifacts :: "artifact_row list"
  tombstones :: "tombstone list"
  preserve_events :: "preserve_event list"

type_synonym 'a outcome = "catalog_error + 'a"

definition empty_catalog :: catalog where
  "empty_catalog = \<lparr>artifacts = [], tombstones = [], preserve_events = []\<rparr>"

subsection \<open>Validation\<close>

definition utc :: "timestamp \<Rightarrow> instant outcome" where
  "utc t = (case t of Naive \<Rightarrow> Inl NaiveTimestamp | Aware i \<Rightarrow> Inr i)"

definition ascii_alnum :: "char \<Rightarrow> bool" where
  "ascii_alnum c \<longleftrightarrow> (let n = (of_char c :: nat)
     in (48 \<le> n \<and> n \<le> 57) \<or> (65 \<le> n \<and> n \<le> 90) \<or> (97 \<le> n \<and> n \<le> 122))"

text \<open>The pattern \<open>[A-Za-z0-9][A-Za-z0-9._-]{0,n}\<close>, matched against the whole text.\<close>

definition token_pattern :: "nat \<Rightarrow> string \<Rightarrow> bool" where
  "token_pattern n s = (case s of [] \<Rightarrow> False
     | c # cs \<Rightarrow> ascii_alnum c \<and> length cs \<le> n \<and>
         list_all (\<lambda>d. ascii_alnum d \<or> d = CHR ''.'' \<or> d = CHR ''_'' \<or> d = CHR ''-'') cs)"

definition sha256_pattern :: "string \<Rightarrow> bool" where
  "sha256_pattern s \<longleftrightarrow> length s = 64 \<and>
     list_all (\<lambda>c. let n = (of_char c :: nat) in (48 \<le> n \<and> n \<le> 57) \<or> (97 \<le> n \<and> n \<le> 102)) s"

definition validate_object_name :: "string \<Rightarrow> string outcome" where
  "validate_object_name name =
     (if name = [] \<or> length name > 1024 then Inl InvalidName
      else if CHR 0x5C \<in> set name \<or> CHR 0x00 \<in> set name \<or> starts_with ''/'' name then Inl InvalidName
      else if list_ex (\<lambda>part. part = '''' \<or> part = ''.'' \<or> part = ''..'') (split_on (CHR ''/'') name)
        then Inl InvalidName
      else if list_ex (\<lambda>c. (of_char c :: nat) < 32) name then Inl InvalidName
      else Inr name)"

definition validate_location :: "string \<Rightarrow> string outcome" where
  "validate_location location = (if token_pattern 63 location then Inr location else Inl InvalidLocation)"

definition validate_backup_class :: "string \<Rightarrow> string outcome" where
  "validate_backup_class cls = (if cls = ''config'' \<or> cls = ''full'' then Inr cls else Inl InvalidClass)"

definition max_text :: nat where "max_text = 512"

definition require_text :: "string \<Rightarrow> string \<Rightarrow> bool \<Rightarrow> string outcome" where
  "require_text text label required =
     (if length text > max_text \<or> CHR 0x00 \<in> set text then Inl (InvalidText label)
      else let stripped = py_strip text
           in if required \<and> stripped = [] then Inl (RequiredText label) else Inr stripped)"

fun check_change_ids :: "string list \<Rightarrow> unit outcome" where
  "check_change_ids [] = Inr ()"
| "check_change_ids (c # cs) = (case require_text c ''Change id'' True of
      Inl e \<Rightarrow> Inl e | Inr _ \<Rightarrow> check_change_ids cs)"

definition max_change_ids :: nat where "max_change_ids = 10000"

definition validate_record :: "artifact \<Rightarrow> artifact outcome" where
  "validate_record a =
     (if \<not> token_pattern 127 (art_id a) then Inl InvalidId
      else case validate_backup_class (art_class a) of Inl e \<Rightarrow> Inl e | Inr _ \<Rightarrow>
      (case validate_location (art_location a) of Inl e \<Rightarrow> Inl e | Inr _ \<Rightarrow>
      (case validate_object_name (art_name a) of Inl e \<Rightarrow> Inl e | Inr _ \<Rightarrow>
       if art_size a < 0 then Inl InvalidSize
       else if \<not> sha256_pattern (art_sha256 a) then Inl InvalidSha256
       else if length (art_change_ids a) > max_change_ids then Inl InvalidChangeIds
       else (case check_change_ids (art_change_ids a) of Inl e \<Rightarrow> Inl e | Inr _ \<Rightarrow>
         (case utc (art_created a) of Inl e \<Rightarrow> Inl e | Inr i \<Rightarrow> Inr (a\<lparr>art_created := Aware i\<rparr>))))))"

subsection \<open>Rows and queries\<close>

definition record_from_row :: "artifact_row \<Rightarrow> artifact" where
  "record_from_row r =
     \<lparr>art_id = row_id r, art_class = row_class r, art_location = row_location r, art_name = row_name r,
      art_created = Aware (row_created_at r), art_size = row_size r, art_sha256 = row_sha256 r,
      art_verified = row_verified r, art_change_ids = row_change_ids r, art_preserved = row_preserved r,
      art_preserve_reason = row_preserve_reason r, art_preserved_by = row_preserved_by r\<rparr>"

definition find_row :: "catalog \<Rightarrow> string \<Rightarrow> artifact_row option" where
  "find_row c i = find (\<lambda>r. row_id r = i) (artifacts c)"

definition update_row :: "string \<Rightarrow> (artifact_row \<Rightarrow> artifact_row) \<Rightarrow> catalog \<Rightarrow> catalog" where
  "update_row i f c = c\<lparr>artifacts := map (\<lambda>r. if row_id r = i then f r else r) (artifacts c)\<rparr>"

definition row_key :: "artifact_row \<Rightarrow> instant \<times> string" where
  "row_key r = (row_created_at r, row_id r)"

definition newest_verified_id :: "catalog \<Rightarrow> string \<Rightarrow> string \<Rightarrow> string option" where
  "newest_verified_id c cls location =
     (case sort_key_desc row_key
             (filter (\<lambda>r. row_class r = cls \<and> row_location r = location \<and> row_verified r) (artifacts c)) of
        [] \<Rightarrow> None | r # _ \<Rightarrow> Some (row_id r))"

definition get_artifact :: "catalog \<Rightarrow> string \<Rightarrow> artifact option" where
  "get_artifact c i = map_option record_from_row (find_row c i)"

text \<open>Live records, oldest first, of one class and location when these are given.\<close>

definition list_artifacts :: "catalog \<Rightarrow> string option \<Rightarrow> string option \<Rightarrow> artifact list outcome" where
  "list_artifacts c cls location =
     (case (case cls of None \<Rightarrow> Inr () | Some k \<Rightarrow> map_sum id (\<lambda>_. ()) (validate_backup_class k)) of
        Inl e \<Rightarrow> Inl e
      | Inr _ \<Rightarrow> (case (case location of None \<Rightarrow> Inr () | Some l \<Rightarrow> map_sum id (\<lambda>_. ()) (validate_location l)) of
          Inl e \<Rightarrow> Inl e
        | Inr _ \<Rightarrow> Inr (map record_from_row (sort_key row_key
            (filter (\<lambda>r. (cls = None \<or> cls = Some (row_class r)) \<and>
                         (location = None \<or> location = Some (row_location r))) (artifacts c))))))"

definition is_deletion_claimed :: "catalog \<Rightarrow> string \<Rightarrow> bool" where
  "is_deletion_claimed c i = (case find_row c i of None \<Rightarrow> False | Some r \<Rightarrow> row_claimed_at r \<noteq> None)"

definition claimed_deletions :: "catalog \<Rightarrow> (artifact \<times> instant \<times> string) list" where
  "claimed_deletions c = map (\<lambda>r. (record_from_row r, the (row_claimed_at r), row_claimed_by r))
     (sort_key row_key (filter (\<lambda>r. row_claimed_at r \<noteq> None) (artifacts c)))"

definition preserve_history :: "catalog \<Rightarrow> string \<Rightarrow> preserve_event list" where
  "preserve_history c i = (if i = [] then preserve_events c
     else filter (\<lambda>e. ev_artifact e = i) (preserve_events c))"

definition list_tombstones :: "catalog \<Rightarrow> string option \<Rightarrow> string option \<Rightarrow> tombstone list outcome" where
  "list_tombstones c cls location =
     (case (case cls of None \<Rightarrow> Inr () | Some k \<Rightarrow> map_sum id (\<lambda>_. ()) (validate_backup_class k)) of
        Inl e \<Rightarrow> Inl e
      | Inr _ \<Rightarrow> (case (case location of None \<Rightarrow> Inr () | Some l \<Rightarrow> map_sum id (\<lambda>_. ()) (validate_location l)) of
          Inl e \<Rightarrow> Inl e
        | Inr _ \<Rightarrow> Inr (sort_key (\<lambda>t. (tomb_deleted_at t, art_id (tomb_record t)))
            (filter (\<lambda>t. (cls = None \<or> cls = Some (art_class (tomb_record t))) \<and>
                         (location = None \<or> location = Some (art_location (tomb_record t)))) (tombstones c)))))"

definition catalog_locations :: "catalog \<Rightarrow> string list" where
  "catalog_locations c = sort (remdups (map row_location (artifacts c)))"

subsection \<open>Operations\<close>

definition log_event :: "preserve_event \<Rightarrow> catalog \<Rightarrow> catalog" where
  "log_event e c = c\<lparr>preserve_events := preserve_events c @ [e]\<rparr>"

definition new_row :: "artifact \<Rightarrow> instant \<Rightarrow> instant \<Rightarrow> artifact_row" where
  "new_row a created stamp =
     \<lparr>row_id = art_id a, row_class = art_class a, row_location = art_location a, row_name = art_name a,
      row_created_at = created, row_size = art_size a, row_sha256 = art_sha256 a,
      row_verified = art_verified a, row_verified_at = (if art_verified a then Some stamp else None),
      row_change_ids = art_change_ids a, row_preserved = art_preserved a,
      row_preserve_reason = art_preserve_reason a, row_preserved_by = art_preserved_by a,
      row_preserved_at = (if art_preserved a then Some stamp else None),
      row_claimed_at = None, row_claimed_by = '''', row_cataloged_at = stamp\<rparr>"

text \<open>\<open>INSERT INTO artifacts\<close>: the primary key and the unique pair.\<close>

definition insert_row :: "artifact_row \<Rightarrow> catalog \<Rightarrow> catalog outcome" where
  "insert_row r c =
     (if list_ex (\<lambda>s. row_id s = row_id r \<or> row_location s = row_location r \<and> row_name s = row_name r) (artifacts c)
      then Inl AlreadyCatalogued else Inr (c\<lparr>artifacts := artifacts c @ [r]\<rparr>))"

definition add_artifact :: "artifact \<Rightarrow> timestamp \<Rightarrow> catalog \<Rightarrow> (catalog \<times> artifact) outcome" where
  "add_artifact a now c =
     (case validate_record a of Inl e \<Rightarrow> Inl e | Inr v \<Rightarrow>
     (case require_text (art_preserve_reason v) ''Preserve reason'' False of Inl e \<Rightarrow> Inl e | Inr reason \<Rightarrow>
     (case require_text (art_preserved_by v) ''Preserved by'' False of Inl e \<Rightarrow> Inl e | Inr by_whom \<Rightarrow>
      if art_preserved v \<and> by_whom = [] then Inl PreservedWithoutActor
      else if \<not> art_preserved v \<and> (reason \<noteq> [] \<or> by_whom \<noteq> []) then Inl PreserveDetailsRefused
      else let w = v\<lparr>art_preserve_reason := reason, art_preserved_by := by_whom\<rparr> in
       (case utc now of Inl e \<Rightarrow> Inl e | Inr stamp \<Rightarrow>
        if list_ex (\<lambda>t. art_id (tomb_record t) = art_id w) (tombstones c) then Inl IdWasTombstoned
        else (case utc (art_created w) of Inl e \<Rightarrow> Inl e | Inr created \<Rightarrow>
          (case insert_row (new_row w created stamp) c of Inl e \<Rightarrow> Inl e | Inr c' \<Rightarrow>
            Inr (if art_preserved w
                 then log_event \<lparr>ev_artifact = art_id w, ev_action = Preserve, ev_reason = art_preserve_reason w,
                        ev_actor = art_preserved_by w, ev_at = stamp\<rparr> c'
                 else c', w)))))))"

definition set_preserve :: "string \<Rightarrow> string \<Rightarrow> string \<Rightarrow> timestamp \<Rightarrow> catalog \<Rightarrow> catalog outcome" where
  "set_preserve i reason actor now c =
     (case require_text reason ''Preserve reason'' True of Inl e \<Rightarrow> Inl e | Inr reason' \<Rightarrow>
     (case require_text actor ''Actor'' True of Inl e \<Rightarrow> Inl e | Inr actor' \<Rightarrow>
     (case utc now of Inl e \<Rightarrow> Inl e | Inr stamp \<Rightarrow>
     (case find_row c i of None \<Rightarrow> Inl NotCatalogued | Some r \<Rightarrow>
       if row_claimed_at r \<noteq> None then Inl BeingDeleted
       else Inr (log_event \<lparr>ev_artifact = i, ev_action = Preserve, ev_reason = reason', ev_actor = actor', ev_at = stamp\<rparr>
         (update_row i (\<lambda>r. r\<lparr>row_preserved := True, row_preserve_reason := reason',
            row_preserved_by := actor', row_preserved_at := Some stamp\<rparr>) c))))))"

definition clear_preserve :: "string \<Rightarrow> string \<Rightarrow> string \<Rightarrow> timestamp \<Rightarrow> catalog \<Rightarrow> catalog outcome" where
  "clear_preserve i actor reason now c =
     (case require_text reason ''Unpreserve reason'' False of Inl e \<Rightarrow> Inl e | Inr reason' \<Rightarrow>
     (case require_text actor ''Actor'' True of Inl e \<Rightarrow> Inl e | Inr actor' \<Rightarrow>
     (case utc now of Inl e \<Rightarrow> Inl e | Inr stamp \<Rightarrow>
     (case find_row c i of None \<Rightarrow> Inl NotCatalogued | Some r \<Rightarrow>
       Inr (log_event \<lparr>ev_artifact = i, ev_action = Unpreserve, ev_reason = reason', ev_actor = actor', ev_at = stamp\<rparr>
         (update_row i (\<lambda>r. r\<lparr>row_preserved := False, row_preserve_reason := '''',
            row_preserved_by := '''', row_preserved_at := None\<rparr>) c))))))"

definition mark_verified :: "string \<Rightarrow> string option \<Rightarrow> int option \<Rightarrow> timestamp \<Rightarrow> catalog \<Rightarrow> catalog outcome" where
  "mark_verified i sha size_given now c =
     (case utc now of Inl e \<Rightarrow> Inl e | Inr stamp \<Rightarrow>
     (case find_row c i of None \<Rightarrow> Inl NotCatalogued | Some r \<Rightarrow>
       if sha \<noteq> None \<and> sha \<noteq> Some (row_sha256 r) then Inl Sha256Mismatch
       else if size_given \<noteq> None \<and> size_given \<noteq> Some (row_size r) then Inl SizeMismatch
       else Inr (update_row i (\<lambda>r. r\<lparr>row_verified := True, row_verified_at := Some stamp\<rparr>) c)))"

definition mark_unverified :: "string \<Rightarrow> catalog \<Rightarrow> catalog outcome" where
  "mark_unverified i c =
     (if find_row c i = None then Inl NotCatalogued
      else Inr (update_row i (\<lambda>r. r\<lparr>row_verified := False, row_verified_at := None\<rparr>) c))"

definition claim_deletion :: "artifact \<Rightarrow> string \<Rightarrow> timestamp \<Rightarrow> bool \<Rightarrow> catalog \<Rightarrow> catalog outcome" where
  "claim_deletion expected actor now protect_newest c =
     (case require_text actor ''Actor'' True of Inl e \<Rightarrow> Inl e | Inr actor' \<Rightarrow>
     (case utc now of Inl e \<Rightarrow> Inl e | Inr stamp \<Rightarrow>
     (case find_row c (art_id expected) of None \<Rightarrow> Inl NoLongerCatalogued | Some r \<Rightarrow>
       if row_claimed_at r \<noteq> None then Inl AlreadyClaimed
       else if record_from_row r \<noteq> expected then Inl ChangedSincePlan
       else if row_preserved r then Inl IsPreserved
       else if protect_newest \<and> newest_verified_id c (row_class r) (row_location r) = Some (row_id r)
         then Inl IsNewestVerified
       else Inr (update_row (row_id r) (\<lambda>r. r\<lparr>row_claimed_at := Some stamp, row_claimed_by := actor'\<rparr>) c))))"

definition release_deletion :: "string \<Rightarrow> catalog \<Rightarrow> catalog" where
  "release_deletion i c = update_row i (\<lambda>r. r\<lparr>row_claimed_at := None, row_claimed_by := ''''\<rparr>) c"

text \<open>The columns a tombstone keeps, read back as a record: the preserve fields have their defaults.\<close>

definition tombstoned_record :: "artifact \<Rightarrow> artifact" where
  "tombstoned_record a = a\<lparr>art_preserved := False, art_preserve_reason := '''', art_preserved_by := ''''\<rparr>"

definition record_deletion ::
    "string \<Rightarrow> string \<Rightarrow> string \<Rightarrow> timestamp \<Rightarrow> artifact option \<Rightarrow> catalog \<Rightarrow> (catalog \<times> tombstone) outcome" where
  "record_deletion i reason actor now expected c =
     (case require_text reason ''Deletion reason'' True of Inl e \<Rightarrow> Inl e | Inr reason' \<Rightarrow>
     (case require_text actor ''Actor'' True of Inl e \<Rightarrow> Inl e | Inr actor' \<Rightarrow>
     (case utc now of Inl e \<Rightarrow> Inl e | Inr deleted_at \<Rightarrow>
     (case find_row c i of None \<Rightarrow> Inl NotCatalogued | Some r \<Rightarrow>
       let a = record_from_row r in
       if expected \<noteq> None \<and> expected \<noteq> Some a then Inl ChangedSincePlanned
       else if art_preserved a then Inl PreservedClearFirst
       else if list_ex (\<lambda>t. art_id (tomb_record t) = art_id a) (tombstones c) then Inl TombstoneExists
       else let entry = (\<lambda>x. \<lparr>tomb_record = x, tomb_deleted_at = deleted_at, tomb_reason = reason', tomb_actor = actor'\<rparr>)
            in Inr (c\<lparr>tombstones := tombstones c @ [entry (tombstoned_record a)],
                     artifacts := filter (\<lambda>s. row_id s \<noteq> i) (artifacts c)\<rparr>, entry a)))))"

subsection \<open>Operations as values\<close>

text \<open>One call of a writing method, and its effect; an error leaves the tables as they were.\<close>

datatype catalog_op =
    Add artifact timestamp
  | SetPreserve string string string timestamp
  | ClearPreserve string string string timestamp
  | MarkVerified string "string option" "int option" timestamp
  | MarkUnverified string
  | ClaimDeletion artifact string timestamp bool
  | ReleaseDeletion string
  | RecordDeletion string string string timestamp "artifact option"

fun exec :: "catalog_op \<Rightarrow> catalog \<Rightarrow> catalog outcome" where
  "exec (Add a now) c = map_sum id fst (add_artifact a now c)"
| "exec (SetPreserve i reason actor now) c = set_preserve i reason actor now c"
| "exec (ClearPreserve i actor reason now) c = clear_preserve i actor reason now c"
| "exec (MarkVerified i sha sz now) c = mark_verified i sha sz now c"
| "exec (MarkUnverified i) c = mark_unverified i c"
| "exec (ClaimDeletion a actor now protect) c = claim_deletion a actor now protect c"
| "exec (ReleaseDeletion i) c = Inr (release_deletion i c)"
| "exec (RecordDeletion i reason actor now expected) c =
     map_sum id fst (record_deletion i reason actor now expected c)"

definition run_op :: "catalog_op \<Rightarrow> catalog \<Rightarrow> catalog" where
  "run_op op c = (case exec op c of Inl _ \<Rightarrow> c | Inr c' \<Rightarrow> c')"

definition run_ops :: "catalog_op list \<Rightarrow> catalog \<Rightarrow> catalog" where
  "run_ops ops c = fold run_op ops c"

inductive cat_step :: "catalog \<Rightarrow> catalog \<Rightarrow> bool" where
  step: "exec op c = Inr c' \<Longrightarrow> cat_step c c'"

inductive_cases cat_stepE: "cat_step c c'"

inductive reachable :: "catalog \<Rightarrow> bool" where
  empty: "reachable empty_catalog"
| more: "reachable c \<Longrightarrow> cat_step c c' \<Longrightarrow> reachable c'"

subsection \<open>The invariant of the tables\<close>

definition live_ids :: "catalog \<Rightarrow> string list" where
  "live_ids c = map row_id (artifacts c)"

definition tomb_ids :: "catalog \<Rightarrow> string list" where
  "tomb_ids c = map (\<lambda>t. art_id (tomb_record t)) (tombstones c)"

definition places :: "catalog \<Rightarrow> (string \<times> string) list" where
  "places c = map (\<lambda>r. (row_location r, row_name r)) (artifacts c)"

text \<open>What the audit log says about an artifact: the action of its last event decides.\<close>

definition pinned_by_log :: "preserve_event list \<Rightarrow> string \<Rightarrow> bool" where
  "pinned_by_log es i = fold (\<lambda>e b. if ev_artifact e = i then ev_action e = Preserve else b) es False"

definition row_ok :: "artifact_row \<Rightarrow> bool" where
  "row_ok r \<longleftrightarrow>
     token_pattern 127 (row_id r) \<and> token_pattern 63 (row_location r) \<and>
     (row_class r = ''config'' \<or> row_class r = ''full'') \<and> validate_object_name (row_name r) = Inr (row_name r) \<and>
     0 \<le> row_size r \<and> sha256_pattern (row_sha256 r) \<and>
     (row_verified r \<longleftrightarrow> row_verified_at r \<noteq> None) \<and>
     (row_preserved r \<longleftrightarrow> row_preserved_at r \<noteq> None) \<and>
     (row_preserved r \<longleftrightarrow> row_preserved_by r \<noteq> []) \<and>
     (row_preserve_reason r \<noteq> [] \<longrightarrow> row_preserved r) \<and>
     \<not> (row_preserved r \<and> row_claimed_at r \<noteq> None)"

definition cat_inv :: "catalog \<Rightarrow> bool" where
  "cat_inv c \<longleftrightarrow>
     distinct (live_ids c @ tomb_ids c) \<and> distinct (places c) \<and>
     list_all row_ok (artifacts c) \<and>
     list_all (\<lambda>e. ev_artifact e \<in> set (live_ids c @ tomb_ids c)) (preserve_events c) \<and>
     list_all (\<lambda>r. row_preserved r = pinned_by_log (preserve_events c) (row_id r)) (artifacts c) \<and>
     list_all (\<lambda>i. \<not> pinned_by_log (preserve_events c) i) (tomb_ids c)"

subsection \<open>Lemmas on rows\<close>

lemma pinned_by_log_Nil [simp]: "\<not> pinned_by_log [] i"
  by (simp add: pinned_by_log_def)

lemma pinned_by_log_snoc [simp]:
  "pinned_by_log (es @ [e]) i = (if ev_artifact e = i then ev_action e = Preserve else pinned_by_log es i)"
  by (simp add: pinned_by_log_def)

lemma pinned_by_log_in: "pinned_by_log es i \<Longrightarrow> i \<in> ev_artifact ` set es"
proof (induction es rule: rev_induct)
  case (snoc e es)
  then show ?case by (auto split: if_splits)
qed simp

lemma find_row_SomeD: "find_row c i = Some r \<Longrightarrow> r \<in> set (artifacts c) \<and> row_id r = i"
  unfolding find_row_def by (auto simp: find_Some_iff)

lemma find_row_None: "find_row c i = None \<longleftrightarrow> i \<notin> set (live_ids c)"
  unfolding find_row_def live_ids_def by (auto simp: find_None_iff)

lemma find_row_eq:
  assumes "distinct (live_ids c)" "r \<in> set (artifacts c)"
  shows "find_row c (row_id r) = Some r"
proof -
  obtain s where s: "find_row c (row_id r) = Some s"
    using assms(2) find_row_None [of c "row_id r"] by (auto simp: live_ids_def)
  with find_row_SomeD [OF s] assms show ?thesis
    by (auto simp: live_ids_def distinct_map inj_on_def)
qed

definition keeps_place :: "(artifact_row \<Rightarrow> artifact_row) \<Rightarrow> bool" where
  "keeps_place f \<longleftrightarrow> (\<forall>r. row_id (f r) = row_id r \<and> row_location (f r) = row_location r \<and> row_name (f r) = row_name r)"

lemma update_row_tables [simp]:
  "tombstones (update_row i f c) = tombstones c" "preserve_events (update_row i f c) = preserve_events c"
  "tomb_ids (update_row i f c) = tomb_ids c"
  by (simp_all add: update_row_def tomb_ids_def)

lemma log_event_tables [simp]:
  "artifacts (log_event e c) = artifacts c" "tombstones (log_event e c) = tombstones c"
  "preserve_events (log_event e c) = preserve_events c @ [e]" "tomb_ids (log_event e c) = tomb_ids c"
  "live_ids (log_event e c) = live_ids c" "places (log_event e c) = places c"
  "find_row (log_event e c) i = find_row c i"
  by (simp_all add: log_event_def tomb_ids_def live_ids_def places_def find_row_def)

lemma update_row_ids [simp]:
  "keeps_place f \<Longrightarrow> live_ids (update_row i f c) = live_ids c"
  "keeps_place f \<Longrightarrow> places (update_row i f c) = places c"
  by (auto simp: update_row_def live_ids_def places_def keeps_place_def)

lemma find_row_update:
  assumes "keeps_place f"
  shows "find_row (update_row i f c) j = (if j = i then map_option f (find_row c i) else find_row c j)"
proof -
  have "find (\<lambda>r. row_id r = j) (map (\<lambda>r. if row_id r = i then f r else r) rs) =
      (if j = i then map_option f (find (\<lambda>r. row_id r = i) rs) else find (\<lambda>r. row_id r = j) rs)" for rs
    using assms by (induction rs) (auto simp: keeps_place_def)
  then show ?thesis by (simp add: find_row_def update_row_def)
qed

lemma artifacts_update: "artifacts (update_row i f c) = map (\<lambda>r. if row_id r = i then f r else r) (artifacts c)"
  by (simp add: update_row_def)

lemma keeps_place_row_updates [simp]:
  "keeps_place (\<lambda>r. r\<lparr>row_preserved := b, row_preserve_reason := x, row_preserved_by := y, row_preserved_at := z\<rparr>)"
  "keeps_place (\<lambda>r. r\<lparr>row_verified := b, row_verified_at := z\<rparr>)"
  "keeps_place (\<lambda>r. r\<lparr>row_claimed_at := z, row_claimed_by := x\<rparr>)"
  by (simp_all add: keeps_place_def)

lemma require_text_Inr:
  "require_text s l q = Inr t \<Longrightarrow> t = py_strip s \<and> length s \<le> max_text \<and> (q \<longrightarrow> t \<noteq> [])"
  by (auto simp: require_text_def Let_def split: if_splits)

lemma validate_record_Inr:
  assumes "validate_record a = Inr v"
  shows "\<exists>t. v = a\<lparr>art_created := Aware t\<rparr> \<and> art_created a = Aware t" "token_pattern 127 (art_id v)"
    "token_pattern 63 (art_location v)" "art_class v = ''config'' \<or> art_class v = ''full''"
    "validate_object_name (art_name v) = Inr (art_name v)" "0 \<le> art_size v" "sha256_pattern (art_sha256 v)"
  using assms
  by (auto simp: validate_record_def validate_backup_class_def validate_location_def validate_object_name_def
      utc_def split: if_splits sum.splits timestamp.splits)


subsection \<open>What a successful call did\<close>

lemma add_artifact_Inr:
  assumes "add_artifact a now c = Inr (c', w)"
  shows "\<exists>v stamp created. validate_record a = Inr v \<and> utc now = Inr stamp \<and> art_created v = Aware created \<and>
    w = v\<lparr>art_preserve_reason := py_strip (art_preserve_reason v), art_preserved_by := py_strip (art_preserved_by v)\<rparr> \<and>
    (art_preserved w \<longleftrightarrow> art_preserved_by w \<noteq> []) \<and> (art_preserve_reason w \<noteq> [] \<longrightarrow> art_preserved w) \<and>
    art_id w \<notin> set (live_ids c @ tomb_ids c) \<and> (art_location w, art_name w) \<notin> set (places c) \<and>
    c' = (if art_preserved w
          then log_event \<lparr>ev_artifact = art_id w, ev_action = Preserve, ev_reason = art_preserve_reason w,
                 ev_actor = art_preserved_by w, ev_at = stamp\<rparr> (c\<lparr>artifacts := artifacts c @ [new_row w created stamp]\<rparr>)
          else c\<lparr>artifacts := artifacts c @ [new_row w created stamp]\<rparr>)"
proof -
  obtain v where v: "validate_record a = Inr v"
    using assms by (auto simp: add_artifact_def split: sum.splits)
  obtain t where t: "art_created v = Aware t"
    using validate_record_Inr(1) [OF v] by auto
  from assms show ?thesis
    apply (simp add: add_artifact_def v t Let_def split: sum.splits if_splits)
    by (auto simp: insert_row_def new_row_def utc_def t live_ids_def tomb_ids_def places_def list_ex_iff
        dest!: require_text_Inr split: if_splits)
qed

lemma set_preserve_Inr:
  assumes "set_preserve i reason actor now c = Inr c'"
  shows "\<exists>r stamp. find_row c i = Some r \<and> row_claimed_at r = None \<and> py_strip reason \<noteq> [] \<and> py_strip actor \<noteq> [] \<and>
    c' = log_event \<lparr>ev_artifact = i, ev_action = Preserve, ev_reason = py_strip reason, ev_actor = py_strip actor, ev_at = stamp\<rparr>
      (update_row i (\<lambda>r. r\<lparr>row_preserved := True, row_preserve_reason := py_strip reason,
         row_preserved_by := py_strip actor, row_preserved_at := Some stamp\<rparr>) c)"
  using assms by (auto simp: set_preserve_def dest!: require_text_Inr split: sum.splits option.splits if_splits)

lemma clear_preserve_Inr:
  assumes "clear_preserve i actor reason now c = Inr c'"
  shows "\<exists>r stamp. find_row c i = Some r \<and>
    c' = log_event \<lparr>ev_artifact = i, ev_action = Unpreserve, ev_reason = py_strip reason, ev_actor = py_strip actor, ev_at = stamp\<rparr>
      (update_row i (\<lambda>r. r\<lparr>row_preserved := False, row_preserve_reason := '''',
         row_preserved_by := '''', row_preserved_at := None\<rparr>) c)"
  using assms by (auto simp: clear_preserve_def dest!: require_text_Inr split: sum.splits option.splits)

lemma mark_verified_Inr:
  assumes "mark_verified i sha sz now c = Inr c'"
  shows "\<exists>r stamp. find_row c i = Some r \<and> (sha = None \<or> sha = Some (row_sha256 r)) \<and> (sz = None \<or> sz = Some (row_size r)) \<and>
    c' = update_row i (\<lambda>r. r\<lparr>row_verified := True, row_verified_at := Some stamp\<rparr>) c"
  using assms by (auto simp: mark_verified_def split: sum.splits option.splits if_splits)

lemma mark_unverified_Inr:
  "mark_unverified i c = Inr c' \<Longrightarrow> i \<in> set (live_ids c) \<and>
     c' = update_row i (\<lambda>r. r\<lparr>row_verified := False, row_verified_at := None\<rparr>) c"
  by (auto simp: mark_unverified_def find_row_None split: if_splits)

lemma claim_deletion_Inr:
  assumes "claim_deletion a actor now protect c = Inr c'"
  shows "\<exists>r stamp. find_row c (art_id a) = Some r \<and> utc now = Inr stamp \<and> row_claimed_at r = None \<and>
    record_from_row r = a \<and> \<not> row_preserved r \<and>
    (protect \<longrightarrow> newest_verified_id c (row_class r) (row_location r) \<noteq> Some (row_id r)) \<and>
    c' = update_row (art_id a) (\<lambda>r. r\<lparr>row_claimed_at := Some stamp, row_claimed_by := py_strip actor\<rparr>) c"
  using assms by (auto simp: claim_deletion_def dest!: require_text_Inr find_row_SomeD
      split: sum.splits option.splits if_splits)

lemma record_deletion_Inr:
  assumes "record_deletion i reason actor now expected c = Inr (c', t)"
  shows "\<exists>r stamp. find_row c i = Some r \<and> utc now = Inr stamp \<and> \<not> row_preserved r \<and>
    (expected = None \<or> expected = Some (record_from_row r)) \<and> i \<notin> set (tomb_ids c) \<and>
    t = \<lparr>tomb_record = record_from_row r, tomb_deleted_at = stamp, tomb_reason = py_strip reason, tomb_actor = py_strip actor\<rparr> \<and>
    c' = c\<lparr>tombstones := tombstones c @ [t\<lparr>tomb_record := tombstoned_record (record_from_row r)\<rparr>],
           artifacts := filter (\<lambda>s. row_id s \<noteq> i) (artifacts c)\<rparr>"
  using assms by (auto simp: record_deletion_def Let_def tomb_ids_def list_ex_iff record_from_row_def
      dest!: require_text_Inr find_row_SomeD split: sum.splits option.splits if_splits)

subsection \<open>Every operation keeps the invariant\<close>

lemma cat_invD:
  assumes "cat_inv c"
  shows "distinct (live_ids c)" "distinct (tomb_ids c)" "set (live_ids c) \<inter> set (tomb_ids c) = {}"
    "\<And>i r. find_row c i = Some r \<Longrightarrow> row_ok r" "\<And>r. r \<in> set (artifacts c) \<Longrightarrow> row_ok r"
    "\<And>r. r \<in> set (artifacts c) \<Longrightarrow> row_preserved r = pinned_by_log (preserve_events c) (row_id r)"
    "\<And>i. i \<in> set (tomb_ids c) \<Longrightarrow> \<not> pinned_by_log (preserve_events c) i"
  using assms by (auto simp: cat_inv_def list_all_iff dest: find_row_SomeD)

lemma cat_inv_update:
  assumes inv: "cat_inv c" and f: "keeps_place f"
    and ok: "\<And>r. find_row c i = Some r \<Longrightarrow> row_ok (f r) \<and> row_preserved (f r) = row_preserved r"
  shows "cat_inv (update_row i f c)"
proof -
  have "row_ok (f r) \<and> row_preserved (f r) = row_preserved r" if "r \<in> set (artifacts c)" "row_id r = i" for r
    using ok find_row_eq [OF cat_invD(1) [OF inv] that(1)] that(2) by auto
  moreover have "row_id (f r) = row_id r" for r using f by (simp add: keeps_place_def)
  ultimately show ?thesis
    using inv f by (auto simp: cat_inv_def list_all_iff artifacts_update)
qed

lemma cat_inv_log_update:
  assumes inv: "cat_inv c" and f: "keeps_place f" and found: "find_row c i = Some s"
    and ok: "\<And>r. find_row c i = Some r \<Longrightarrow> row_ok (f r) \<and> row_preserved (f r) = (ev_action e = Preserve)"
    and e: "ev_artifact e = i"
  shows "cat_inv (log_event e (update_row i f c))"
proof -
  have fr: "row_ok (f r) \<and> row_preserved (f r) = (ev_action e = Preserve)" if "r \<in> set (artifacts c)" "row_id r = i" for r
    using ok find_row_eq [OF cat_invD(1) [OF inv] that(1)] that(2) by auto
  have live: "i \<in> set (live_ids c)"
    using found by (metis find_row_None option.distinct(1))
  then have "i \<notin> set (tomb_ids c)" using cat_invD(3) [OF inv] by auto
  then have "\<forall>j\<in>set (tomb_ids c). j \<noteq> i \<and> \<not> pinned_by_log (preserve_events c) j"
    using cat_invD(7) [OF inv] by auto
  moreover have "row_id (f r) = row_id r" for r using f by (simp add: keeps_place_def)
  ultimately show ?thesis
    using inv f fr live e by (auto simp: cat_inv_def list_all_iff artifacts_update)
qed

lemma row_ok_new_row:
  assumes "validate_record a = Inr v" "art_created v = Aware t"
    and "w = v\<lparr>art_preserve_reason := x, art_preserved_by := y\<rparr>"
    and "art_preserved w \<longleftrightarrow> art_preserved_by w \<noteq> []" "art_preserve_reason w \<noteq> [] \<longrightarrow> art_preserved w"
  shows "row_ok (new_row w created stamp)"
  using validate_record_Inr [OF assms(1)] assms(2-) by (auto simp: row_ok_def new_row_def)

lemma add_artifact_keeps [keeps]:
  assumes inv: "cat_inv c" and add: "add_artifact a now c = Inr (c', w)"
  shows "cat_inv c'"
proof -
  from add_artifact_Inr [OF add] obtain v stamp created where
    v: "validate_record a = Inr v" "art_created v = Aware created" and
    w: "w = v\<lparr>art_preserve_reason := py_strip (art_preserve_reason v), art_preserved_by := py_strip (art_preserved_by v)\<rparr>"
      "art_preserved w \<longleftrightarrow> art_preserved_by w \<noteq> []" "art_preserve_reason w \<noteq> [] \<longrightarrow> art_preserved w" and
    fresh: "art_id w \<notin> set (live_ids c @ tomb_ids c)" "(art_location w, art_name w) \<notin> set (places c)" and
    c': "c' = (if art_preserved w
          then log_event \<lparr>ev_artifact = art_id w, ev_action = Preserve, ev_reason = art_preserve_reason w,
                 ev_actor = art_preserved_by w, ev_at = stamp\<rparr> (c\<lparr>artifacts := artifacts c @ [new_row w created stamp]\<rparr>)
          else c\<lparr>artifacts := artifacts c @ [new_row w created stamp]\<rparr>)"
    by (elim exE conjE) blast
  let ?r = "new_row w created stamp" and ?c = "c\<lparr>artifacts := artifacts c @ [new_row w created stamp]\<rparr>"
  have ok: "row_ok ?r" by (rule row_ok_new_row [OF v w])
  have r: "row_id ?r = art_id w" "row_location ?r = art_location w" "row_name ?r = art_name w"
    "row_preserved ?r = art_preserved w" by (simp_all add: new_row_def)
  have tables: "live_ids ?c = live_ids c @ [art_id w]" "tomb_ids ?c = tomb_ids c"
    "places ?c = places c @ [(art_location w, art_name w)]" "preserve_events ?c = preserve_events c"
    by (simp_all add: live_ids_def tomb_ids_def places_def r)
  have old: "\<forall>s\<in>set (artifacts c). art_id w \<noteq> row_id s"
    using fresh(1) by (auto simp: live_ids_def)
  have unpinned: "\<not> pinned_by_log (preserve_events c) (art_id w)"
    using inv fresh(1) by (auto simp: cat_inv_def list_all_iff dest!: pinned_by_log_in)
  have tomb: "\<forall>i\<in>set (tomb_ids c). i \<noteq> art_id w" using fresh(1) by auto
  show ?thesis
    using inv fresh tomb unpinned ok old
    by (cases "art_preserved w") (auto simp: cat_inv_def list_all_iff c' tables r)
qed

lemma set_preserve_keeps [keeps]:
  assumes inv: "cat_inv c" and "set_preserve i reason actor now c = Inr c'"
  shows "cat_inv c'"
  using set_preserve_Inr [OF assms(2)] cat_invD(4) [OF inv]
  by (fastforce simp: row_ok_def intro!: cat_inv_log_update [OF inv])

lemma clear_preserve_keeps [keeps]:
  assumes inv: "cat_inv c" and "clear_preserve i actor reason now c = Inr c'"
  shows "cat_inv c'"
  using clear_preserve_Inr [OF assms(2)] cat_invD(4) [OF inv]
  by (fastforce simp: row_ok_def intro!: cat_inv_log_update [OF inv])

lemma mark_verified_keeps [keeps]:
  assumes inv: "cat_inv c" and "mark_verified i sha sz now c = Inr c'"
  shows "cat_inv c'"
  using mark_verified_Inr [OF assms(2)] cat_invD(4) [OF inv]
  by (fastforce simp: row_ok_def intro!: cat_inv_update [OF inv])

lemma mark_unverified_keeps [keeps]:
  assumes inv: "cat_inv c" and "mark_unverified i c = Inr c'"
  shows "cat_inv c'"
  using mark_unverified_Inr [OF assms(2)] cat_invD(4) [OF inv]
  by (fastforce simp: row_ok_def intro!: cat_inv_update [OF inv])

lemma claim_deletion_keeps [keeps]:
  assumes inv: "cat_inv c" and "claim_deletion a actor now protect c = Inr c'"
  shows "cat_inv c'"
  using claim_deletion_Inr [OF assms(2)] cat_invD(4) [OF inv]
  by (fastforce simp: row_ok_def intro!: cat_inv_update [OF inv])

lemma release_deletion_keeps [keeps]:
  assumes inv: "cat_inv c" shows "cat_inv (release_deletion i c)"
  using cat_invD(4) [OF inv] unfolding release_deletion_def
  by (fastforce simp: row_ok_def intro!: cat_inv_update [OF inv])

lemma record_deletion_keeps [keeps]:
  assumes inv: "cat_inv c" and del: "record_deletion i reason actor now expected c = Inr (c', t)"
  shows "cat_inv c'"
proof -
  from record_deletion_Inr [OF del] obtain r where r: "find_row c i = Some r" "\<not> row_preserved r"
    and t: "tomb_record t = record_from_row r"
    and c': "c' = c\<lparr>tombstones := tombstones c @ [t\<lparr>tomb_record := tombstoned_record (record_from_row r)\<rparr>],
           artifacts := filter (\<lambda>s. row_id s \<noteq> i) (artifacts c)\<rparr>"
    by auto
  have i: "row_id r = i" "r \<in> set (artifacts c)" using find_row_SomeD [OF r(1)] by auto
  have tables: "live_ids c' = filter (\<lambda>j. j \<noteq> i) (live_ids c)" "tomb_ids c' = tomb_ids c @ [i]"
      "preserve_events c' = preserve_events c"
    by (simp_all add: c' live_ids_def tomb_ids_def filter_map o_def tombstoned_record_def record_from_row_def i)
  have pl: "distinct (places c')"
    using inv by (auto simp: c' cat_inv_def places_def distinct_map intro: inj_on_subset)
  have "\<not> pinned_by_log (preserve_events c) i"
    using cat_invD(6) [OF inv i(2)] i(1) r(2) by simp
  moreover have "i \<in> set (live_ids c)" using i by (auto simp: live_ids_def)
  ultimately show ?thesis
    using inv pl by (auto simp: cat_inv_def list_all_iff tables) (auto simp: c')
qed

lemma map_sum_Inr_fst: "map_sum id fst x = Inr c \<Longrightarrow> \<exists>y. x = Inr (c, y)"
  by (cases x) auto

lemma exec_keeps: "cat_inv c \<Longrightarrow> exec op c = Inr c' \<Longrightarrow> cat_inv c'"
  by (cases op) (auto intro: keeps split: sum.splits dest!: map_sum_Inr_fst)

lemma run_op_keeps: "cat_inv c \<Longrightarrow> cat_inv (run_op op c)"
  by (auto simp: run_op_def intro: exec_keeps split: sum.splits)

lemma run_ops_Nil [simp]: "run_ops [] c = c"
  by (simp add: run_ops_def)

lemma run_ops_Cons [simp]: "run_ops (op # ops) c = run_ops ops (run_op op c)"
  by (simp add: run_ops_def)

lemma run_ops_keeps: "cat_inv c \<Longrightarrow> cat_inv (run_ops ops c)"
  by (induction ops arbitrary: c) (simp_all add: run_op_keeps)

lemma empty_catalog_inv [simp]: "cat_inv empty_catalog"
  by (simp add: cat_inv_def empty_catalog_def live_ids_def tomb_ids_def places_def)

lemma cat_step_keeps: "cat_step c c' \<Longrightarrow> cat_inv c \<Longrightarrow> cat_inv c'"
  by (elim cat_stepE) (rule exec_keeps)

subsection \<open>Claims, deletions and tombstones under any later calls\<close>

definition same_copy :: "artifact_row \<Rightarrow> artifact_row \<Rightarrow> bool" where
  "same_copy r s \<longleftrightarrow> row_id r = row_id s \<and> row_class r = row_class s \<and> row_location r = row_location s \<and>
     row_name r = row_name s \<and> row_created_at r = row_created_at s \<and> row_size r = row_size s \<and>
     row_sha256 r = row_sha256 s \<and> row_change_ids r = row_change_ids s"

text \<open>The two calls that end a deletion claim on an artifact.\<close>

fun ends_claim :: "string \<Rightarrow> catalog_op \<Rightarrow> bool" where
  "ends_claim i (ReleaseDeletion j) = (j = i)"
| "ends_claim i (RecordDeletion j reason actor now expected) = (j = i)"
| "ends_claim i op = False"

definition held :: "catalog \<Rightarrow> string \<Rightarrow> artifact_row \<Rightarrow> bool" where
  "held c i r \<longleftrightarrow> (case find_row c i of None \<Rightarrow> False
     | Some s \<Rightarrow> row_claimed_at s \<noteq> None \<and> \<not> row_preserved s \<and> same_copy r s)"

lemma find_row_append:
  "find_row (c\<lparr>artifacts := artifacts c @ [r]\<rparr>) i =
     (case find_row c i of None \<Rightarrow> if row_id r = i then Some r else None | Some s \<Rightarrow> Some s)"
proof -
  have "find P (xs @ [r]) = (case find P xs of None \<Rightarrow> if P r then Some r else None | Some s \<Rightarrow> Some s)" for P xs
    by (induction xs) auto
  then show ?thesis by (simp add: find_row_def)
qed

lemma find_row_filter:
  "find_row (c\<lparr>tombstones := ts, artifacts := filter (\<lambda>s. row_id s \<noteq> i) (artifacts c)\<rparr>) j =
     (if j = i then None else find_row c j)"
proof -
  have "find (\<lambda>r. row_id r = j) (filter (\<lambda>s. row_id s \<noteq> i) rs) = (if j = i then None else find (\<lambda>r. row_id r = j) rs)" for rs
    by (induction rs) auto
  from this [of "artifacts c"] show ?thesis by (simp add: find_row_def)
qed

lemma add_artifact_find:
  assumes "add_artifact a now c = Inr (c', w)" "find_row c i = Some r"
  shows "find_row c' i = Some r"
proof -
  from add_artifact_Inr [OF assms(1)] obtain s where "artifacts c' = artifacts c @ [s]"
    by (auto split: if_splits)
  then have "find_row c' i = find_row (c\<lparr>artifacts := artifacts c @ [s]\<rparr>) i"
    by (simp add: find_row_def)
  with assms(2) show ?thesis by (simp add: find_row_append)
qed

lemma exec_held:
  assumes "held c i r" "exec op c = Inr c'" "\<not> ends_claim i op"
  shows "held c' i r"
proof -
  obtain s where s: "find_row c i = Some s" "row_claimed_at s \<noteq> None" "\<not> row_preserved s" "same_copy r s"
    using assms(1) by (auto simp: held_def split: option.splits)
  note upd = find_row_update held_def same_copy_def
  show ?thesis
  proof (cases op)
    case (Add a now)
    then show ?thesis
      using assms(2) s by (auto simp: held_def dest!: map_sum_Inr_fst dest: add_artifact_find)
  next
    case (SetPreserve j reason actor now)
    then have "set_preserve j reason actor now c = Inr c'" using assms(2) by simp
    from set_preserve_Inr [OF this] show ?thesis using s by (auto simp: upd)
  next
    case (ClearPreserve j actor reason now)
    then have "clear_preserve j actor reason now c = Inr c'" using assms(2) by simp
    from clear_preserve_Inr [OF this] show ?thesis using s by (auto simp: upd)
  next
    case (MarkVerified j sha sz now)
    then have "mark_verified j sha sz now c = Inr c'" using assms(2) by simp
    from mark_verified_Inr [OF this] show ?thesis using s by (auto simp: upd)
  next
    case (MarkUnverified j)
    then have "mark_unverified j c = Inr c'" using assms(2) by simp
    from mark_unverified_Inr [OF this] show ?thesis using s by (auto simp: upd)
  next
    case (ClaimDeletion a actor now protect)
    then have "claim_deletion a actor now protect c = Inr c'" using assms(2) by simp
    from claim_deletion_Inr [OF this] show ?thesis using s by (auto simp: upd)
  next
    case (ReleaseDeletion j)
    then show ?thesis using assms(2,3) s by (auto simp: upd release_deletion_def)
  next
    case (RecordDeletion j reason actor now expected)
    then obtain t where "record_deletion j reason actor now expected c = Inr (c', t)"
      using assms(2) by (auto dest!: map_sum_Inr_fst)
    from record_deletion_Inr [OF this] show ?thesis
      using s assms(3) RecordDeletion by (auto simp: held_def find_row_filter)
  qed
qed

lemma run_ops_held:
  "held c i r \<Longrightarrow> list_all (\<lambda>op. \<not> ends_claim i op) ops \<Longrightarrow> held (run_ops ops c) i r"
  by (induction ops arbitrary: c) (auto simp: run_op_def intro: exec_held split: sum.splits)

lemma claim_deletion_held:
  assumes "claim_deletion a actor now protect c = Inr c'" "find_row c (art_id a) = Some r"
  shows "held c' (art_id a) r"
  using claim_deletion_Inr [OF assms(1)] assms(2)
  by (auto simp: held_def find_row_update same_copy_def)

lemma held_refuses:
  assumes "held c i r"
  shows "\<forall>c'. set_preserve i reason actor now c \<noteq> Inr c'"
    and "art_id b = i \<Longrightarrow> \<forall>c'. claim_deletion b actor now protect c \<noteq> Inr c'"
  using assms by (auto simp: held_def dest!: set_preserve_Inr claim_deletion_Inr)

lemma exec_appends:
  assumes "exec op c = Inr c'"
  shows "\<exists>ts es. tombstones c' = tombstones c @ ts \<and> preserve_events c' = preserve_events c @ es"
proof (cases op)
  case (Add a now)
  then show ?thesis
    using assms by (auto dest!: map_sum_Inr_fst add_artifact_Inr)
next
  case (RecordDeletion j reason actor now expected)
  then show ?thesis
    using assms by (auto dest!: map_sum_Inr_fst record_deletion_Inr)
qed (use assms in \<open>auto simp: release_deletion_def
      dest!: set_preserve_Inr clear_preserve_Inr mark_verified_Inr mark_unverified_Inr claim_deletion_Inr\<close>)

lemma run_ops_appends:
  "\<exists>ts es. tombstones (run_ops ops c) = tombstones c @ ts \<and> preserve_events (run_ops ops c) = preserve_events c @ es"
proof (induction ops arbitrary: c)
  case (Cons op ops)
  have "\<exists>ts es. tombstones (run_op op c) = tombstones c @ ts \<and> preserve_events (run_op op c) = preserve_events c @ es"
    using exec_appends [of op c] by (auto simp: run_op_def split: sum.splits)
  with Cons [of "run_op op c"] show ?case by auto
qed simp

lemma tomb_ids_stay: "i \<in> set (tomb_ids c) \<Longrightarrow> i \<in> set (tomb_ids (run_ops ops c))"
  using run_ops_appends [of ops c] by (auto simp: tomb_ids_def)

lemma record_deletion_fresh:
  assumes "cat_inv c"
  shows "record_deletion i reason actor now expected c \<noteq> Inl TombstoneExists"
proof
  assume a: "record_deletion i reason actor now expected c = Inl TombstoneExists"
  then obtain r where r: "find_row c i = Some r"
    by (auto simp: record_deletion_def require_text_def utc_def Let_def
        split: sum.splits option.splits if_splits timestamp.splits)
  then have "list_ex (\<lambda>t. art_id (tomb_record t) = row_id r) (tombstones c)"
    using a by (auto simp: record_deletion_def require_text_def utc_def Let_def record_from_row_def
        split: sum.splits if_splits timestamp.splits)
  then have "row_id r \<in> set (tomb_ids c)" by (simp add: list_ex_iff tomb_ids_def) (metis image_eqI)
  moreover have "row_id r \<in> set (live_ids c)" using find_row_SomeD [OF r] by (auto simp: live_ids_def)
  ultimately show False using cat_invD(3) [OF assms] by auto
qed

subsection \<open>The newest verified copy\<close>

abbreviation verified_in :: "catalog \<Rightarrow> string \<Rightarrow> string \<Rightarrow> artifact_row list" where
  "verified_in c cls location \<equiv>
     filter (\<lambda>r. row_class r = cls \<and> row_location r = location \<and> row_verified r) (artifacts c)"

lemma newest_verified_id_None: "newest_verified_id c cls location = None \<longleftrightarrow> verified_in c cls location = []"
  using length_sort_key_desc [of row_key "verified_in c cls location"]
  by (auto simp: newest_verified_id_def split: list.splits simp del: length_sort_key_desc)

lemma newest_verified_id_Some:
  assumes "newest_verified_id c cls location = Some i"
  shows "\<exists>r\<in>set (verified_in c cls location). row_id r = i \<and> (\<forall>s\<in>set (verified_in c cls location). row_key s \<le> row_key r)"
proof -
  obtain r rs where rs: "sort_key_desc row_key (verified_in c cls location) = r # rs" "row_id r = i"
    using assms by (auto simp: newest_verified_id_def split: list.splits)
  have set: "set (verified_in c cls location) = set (r # rs)"
    using rs(1) set_sort_key_desc [of row_key "verified_in c cls location"] by simp
  have "\<forall>s\<in>set rs. row_key s \<le> row_key r"
    using sorted_sort_key_desc [of row_key "verified_in c cls location"] rs(1) by simp
  then show ?thesis
    using rs(2) by (intro bexI [of _ r]) (auto simp: set simp del: set_filter)
qed

text \<open>A verified copy that is not the newest one has a strictly newer verified copy beside it.\<close>

lemma newer_verified_copy:
  assumes inv: "cat_inv c" and r: "r \<in> set (artifacts c)" "row_verified r"
    and "newest_verified_id c (row_class r) (row_location r) \<noteq> Some (row_id r)"
  shows "\<exists>s\<in>set (verified_in c (row_class r) (row_location r)). row_id s \<noteq> row_id r \<and> row_key r < row_key s"
proof -
  have mem: "r \<in> set (verified_in c (row_class r) (row_location r))" using r by simp
  then obtain i where i: "newest_verified_id c (row_class r) (row_location r) = Some i"
    using newest_verified_id_None [of c "row_class r" "row_location r"] by fastforce
  from newest_verified_id_Some [OF i] obtain s where s: "s \<in> set (verified_in c (row_class r) (row_location r))"
    "row_id s = i" "row_key r \<le> row_key s" using mem by blast
  moreover have "i \<noteq> row_id r" using i assms(4) by auto
  ultimately show ?thesis
    by (intro bexI [of _ s]) (auto simp: row_key_def less_eq_prod_def less_prod_def)
qed

subsection \<open>The deletion protocol as an interface\<close>

text \<open>
  What grooming needs of a catalog: a lookup, a claim that succeeds only on the current record, a
  release, and a deletion under an expected record, with the effect of each on the lookup and on
  the claims.
\<close>

locale deletion_store =
  fixes inv :: "'c \<Rightarrow> bool"
    and ident :: "'a \<Rightarrow> string"
    and lookup :: "'c \<Rightarrow> string \<Rightarrow> 'a option"
    and claimed :: "'c \<Rightarrow> string \<Rightarrow> bool"
    and claim :: "'a \<Rightarrow> string \<Rightarrow> timestamp \<Rightarrow> bool \<Rightarrow> 'c \<Rightarrow> 'e + 'c"
    and release :: "string \<Rightarrow> 'c \<Rightarrow> 'c"
    and delete :: "string \<Rightarrow> string \<Rightarrow> string \<Rightarrow> timestamp \<Rightarrow> 'a option \<Rightarrow> 'c \<Rightarrow> 'e + ('c \<times> 't)"
  assumes claim_ok: "inv c \<Longrightarrow> claim a actor now protect c = Inr c' \<Longrightarrow>
      inv c' \<and> lookup c (ident a) = Some a \<and> \<not> claimed c (ident a) \<and> lookup c' = lookup c \<and>
      claimed c' = (claimed c)(ident a := True)"
    and release_ok: "inv c \<Longrightarrow>
      inv (release i c) \<and> lookup (release i c) = lookup c \<and> claimed (release i c) = (claimed c)(i := False)"
    and delete_ok: "inv c \<Longrightarrow> delete i reason actor now expected c = Inr (c', t) \<Longrightarrow>
      inv c' \<and> lookup c i \<noteq> None \<and> (expected = None \<or> expected = lookup c i) \<and>
      lookup c' = (lookup c)(i := None) \<and> claimed c' = (claimed c)(i := False)"
begin

lemma claim_not_twice:
  assumes "inv c" "claim a actor now protect c = Inr c'" "ident b = ident a"
  shows "claim b actor' now' protect' c' \<noteq> Inr c''"
  using claim_ok [OF assms(1,2)] claim_ok [of c' b actor' now' protect' c''] assms(3) by auto

text \<open>A claim that is given up leaves the store as it was.\<close>

lemma claim_release:
  assumes "inv c" "claim a actor now protect c = Inr c'"
  shows "inv (release (ident a) c') \<and> lookup (release (ident a) c') = lookup c \<and>
    claimed (release (ident a) c') = claimed c"
proof -
  note c = claim_ok [OF assms]
  then have "claimed c = (claimed c)(ident a := False)" by (simp add: fun_eq_iff)
  with c release_ok [of c' "ident a"] show ?thesis by simp
qed

text \<open>A claim that is followed by the deletion removes exactly the claimed record.\<close>

lemma claim_delete:
  assumes "inv c" "claim a actor now protect c = Inr c'"
    and "delete (ident a) reason actor' now' expected c' = Inr (c'', t)"
  shows "inv c'' \<and> lookup c (ident a) = Some a \<and> lookup c'' = (lookup c)(ident a := None) \<and> claimed c'' = claimed c"
proof -
  note c = claim_ok [OF assms(1,2)]
  then have "claimed c = (claimed c)(ident a := False)" by (simp add: fun_eq_iff)
  with c delete_ok [OF _ assms(3)] show ?thesis by simp
qed

end

lemma is_deletion_claimed_find:
  "is_deletion_claimed c i \<longleftrightarrow> (\<exists>r. find_row c i = Some r \<and> row_claimed_at r \<noteq> None)"
  by (simp add: is_deletion_claimed_def split: option.splits)

lemma record_from_row_claim [simp]:
  "record_from_row (r\<lparr>row_claimed_at := x, row_claimed_by := y\<rparr>) = record_from_row r"
  by (simp add: record_from_row_def)

lemma art_id_record_from_row [simp]: "art_id (record_from_row r) = row_id r"
  by (simp add: record_from_row_def)

lemma get_artifact_update:
  assumes "keeps_place f" "\<And>r. record_from_row (f r) = record_from_row r"
  shows "get_artifact (update_row i f c) = get_artifact c"
  using assms by (intro ext) (simp add: get_artifact_def find_row_update option.map_comp o_def)

lemma is_deletion_claimed_update:
  assumes "keeps_place f"
  shows "is_deletion_claimed (update_row i f c) =
    (is_deletion_claimed c)(i := (\<exists>r. find_row c i = Some r \<and> row_claimed_at (f r) \<noteq> None))"
  by (rule ext) (auto simp: assms is_deletion_claimed_find find_row_update)

lemma claim_deletion_effect:
  assumes "claim_deletion a actor now protect c = Inr c'"
  shows "get_artifact c (art_id a) = Some a \<and> \<not> is_deletion_claimed c (art_id a) \<and> get_artifact c' = get_artifact c \<and>
    is_deletion_claimed c' = (is_deletion_claimed c)(art_id a := True)"
proof -
  from claim_deletion_Inr [OF assms] obtain r stamp where r: "find_row c (art_id a) = Some r" "row_claimed_at r = None"
    "record_from_row r = a"
    and c': "c' = update_row (art_id a) (\<lambda>r. r\<lparr>row_claimed_at := Some stamp, row_claimed_by := py_strip actor\<rparr>) c"
    by blast
  have "get_artifact c (art_id a) = Some a" using r by (simp add: get_artifact_def)
  with r show ?thesis
    by (simp add: c' get_artifact_update is_deletion_claimed_update) (simp add: is_deletion_claimed_find)
qed

lemma release_deletion_effect:
  "get_artifact (release_deletion i c) = get_artifact c \<and>
   is_deletion_claimed (release_deletion i c) = (is_deletion_claimed c)(i := False)"
  by (simp add: release_deletion_def get_artifact_update is_deletion_claimed_update)

lemma record_deletion_effect:
  assumes "record_deletion i reason actor now expected c = Inr (c', t)"
  shows "get_artifact c i \<noteq> None \<and> (expected = None \<or> expected = get_artifact c i) \<and>
    get_artifact c' = (get_artifact c)(i := None) \<and> is_deletion_claimed c' = (is_deletion_claimed c)(i := False)"
proof -
  from record_deletion_Inr [OF assms] obtain r ts where r: "find_row c i = Some r"
    "expected = None \<or> expected = Some (record_from_row r)"
    and c': "c' = c\<lparr>tombstones := ts, artifacts := filter (\<lambda>s. row_id s \<noteq> i) (artifacts c)\<rparr>"
    by blast
  have "get_artifact c' = (get_artifact c)(i := None)"
    by (rule ext) (simp add: c' get_artifact_def find_row_filter)
  moreover have "is_deletion_claimed c' = (is_deletion_claimed c)(i := False)"
    by (rule ext) (simp add: c' is_deletion_claimed_find find_row_filter)
  ultimately show ?thesis using r by (simp add: get_artifact_def)
qed

interpretation catalog_store: deletion_store cat_inv art_id get_artifact is_deletion_claimed
  claim_deletion release_deletion record_deletion
proof (unfold_locales, goal_cases)
  case (1 c a actor now protect c')
  then show ?case using claim_deletion_keeps [OF 1] claim_deletion_effect [OF 1(2)] by simp
next
  case (2 c i)
  then show ?case using release_deletion_keeps [OF 2] release_deletion_effect by simp
next
  case (3 c i reason actor now expected c' t)
  then show ?case using record_deletion_keeps [OF 3] record_deletion_effect [OF 3(2)] by simp
qed

subsection \<open>Properties\<close>

text \<open>A verified copy of the nightly backup, for the concrete runs below.\<close>

definition sample_copy :: "string \<Rightarrow> instant \<Rightarrow> artifact" where
  "sample_copy i t = \<lparr>art_id = i, art_class = ''config'', art_location = ''local'', art_name = ''n/'' @ i,
     art_created = Aware t, art_size = 7, art_sha256 = replicate 64 (CHR ''a''), art_verified = True,
     art_change_ids = [], art_preserved = False, art_preserve_reason = '''', art_preserved_by = ''''\<rparr>"

definition sample_catalog :: catalog where
  "sample_catalog = run_ops [Add (sample_copy ''old'' 10) (Aware 11), Add (sample_copy ''new'' 20) (Aware 21)] empty_catalog"

lemma sample_catalog_rows [code]:
  "sample_catalog = \<lparr>artifacts = [new_row (sample_copy ''old'' 10) 10 11, new_row (sample_copy ''new'' 20) 20 21],
     tombstones = [], preserve_events = []\<rparr>"
  by code_simp

lemma sample_catalog_inv: "cat_inv sample_catalog"
  unfolding sample_catalog_def by (rule run_ops_keeps) simp

text \<open>C3: Every state the catalog can reach from an empty database by calls of its writing methods, in any
  order and with any arguments, keeps the tables consistent: live and tombstoned ids are all different, no
  two live copies have the same location and name, every row has legal fields, a claimed row is never
  preserved, and a live row is preserved exactly when the last event of the audit log for it is
  \<open>preserve\<close>; nothing tombstoned was pinned.\<close>

theorem catalog_invariant:
  assumes "reachable c"
  shows "cat_inv c"
  using assms by (induction rule: reachable.induct) (simp_all add: cat_step_keeps)

lemma catalog_invariant_witness:
  "cat_inv (run_op (Add (sample_copy ''old'' 10) (Aware 11)) empty_catalog)"
proof (rule catalog_invariant)
  let ?op = "Add (sample_copy ''old'' 10) (Aware 11)"
  have "exec ?op empty_catalog = Inr (run_op ?op empty_catalog)"
    by code_simp
  then show "reachable (run_op ?op empty_catalog)"
    by (rule reachable.more [OF reachable.empty cat_step.step])
qed

text \<open>C4: From a successful deletion claim on, whatever calls follow, until that artifact's claim is released
  or its deletion recorded: the copy stays catalogued, claimed and unpinned, with the identity, place, size
  and checksum it had; every attempt to pin it or to claim it again is refused.\<close>

theorem claim_excludes_pin:
  assumes "claim_deletion a actor now protect c = Inr c'"
    and "list_all (\<lambda>op. \<not> ends_claim (art_id a) op) ops"
  shows "(\<exists>r s. find_row c (art_id a) = Some r \<and> record_from_row r = a \<and>
      find_row (run_ops ops c') (art_id a) = Some s \<and> row_claimed_at s \<noteq> None \<and> \<not> row_preserved s \<and> same_copy r s) \<and>
    (\<forall>reason by_whom later c''. exec (SetPreserve (art_id a) reason by_whom later) (run_ops ops c') \<noteq> Inr c'') \<and>
    (\<forall>b by_whom later p c''. art_id b = art_id a \<longrightarrow> exec (ClaimDeletion b by_whom later p) (run_ops ops c') \<noteq> Inr c'')"
proof -
  from claim_deletion_Inr [OF assms(1)] obtain r where r: "find_row c (art_id a) = Some r" "record_from_row r = a"
    by blast
  have h: "held (run_ops ops c') (art_id a) r"
    by (rule run_ops_held [OF claim_deletion_held [OF assms(1) r(1)] assms(2)])
  with r held_refuses [OF h] show ?thesis
    by (auto simp: held_def split: option.splits)
qed

lemma claim_excludes_pin_witness:
  "exec (SetPreserve ''old'' ''keep'' ''me'' (Aware 40))
     (run_ops [MarkUnverified ''new''] (run_op (ClaimDeletion (sample_copy ''old'' 10) ''job'' (Aware 30) True) sample_catalog))
   \<noteq> Inr empty_catalog"
proof -
  let ?a = "sample_copy ''old'' 10"
  have "claim_deletion ?a ''job'' (Aware 30) True sample_catalog
      = Inr (run_op (ClaimDeletion ?a ''job'' (Aware 30) True) sample_catalog)"
    by code_simp
  moreover have "list_all (\<lambda>op. \<not> ends_claim (art_id ?a) op) [MarkUnverified ''new'']" by simp
  moreover have "art_id ?a = ''old''" by (simp add: sample_copy_def)
  ultimately show ?thesis
    using claim_excludes_pin by metis
qed

text \<open>C34: An id that was tombstoned is never live again, and tombstones and audit events are never removed or
  changed, whatever calls follow.\<close>

theorem tombstones_are_permanent:
  assumes "cat_inv c" "i \<in> set (tomb_ids c)"
  shows "get_artifact (run_ops ops c) i = None \<and> i \<in> set (tomb_ids (run_ops ops c)) \<and>
    take (length (tombstones c)) (tombstones (run_ops ops c)) = tombstones c \<and>
    take (length (preserve_events c)) (preserve_events (run_ops ops c)) = preserve_events c"
proof -
  have stay: "i \<in> set (tomb_ids (run_ops ops c))" by (rule tomb_ids_stay [OF assms(2)])
  then have "i \<notin> set (live_ids (run_ops ops c))"
    using cat_invD(3) [OF run_ops_keeps [OF assms(1)], of ops] by auto
  then have "get_artifact (run_ops ops c) i = None"
    by (simp add: get_artifact_def find_row_None)
  with stay run_ops_appends [of ops c] show ?thesis by auto
qed

lemma tombstones_are_permanent_witness:
  "get_artifact (run_ops [Add (sample_copy ''old'' 50) (Aware 60)]
     (run_op (RecordDeletion ''old'' ''expired'' ''job'' (Aware 31) None) sample_catalog)) ''old'' = None"
proof -
  let ?c = "run_op (RecordDeletion ''old'' ''expired'' ''job'' (Aware 31) None) sample_catalog"
  have "''old'' \<in> set (tomb_ids ?c)" by code_simp
  from tombstones_are_permanent [OF run_op_keeps [OF sample_catalog_inv] this] show ?thesis by blast
qed

text \<open>Recording a deletion on consistent tables never meets a duplicate tombstone. When it succeeds, the
  artifact was not preserved and equal to the expected record if one was given, only that row goes and every
  other row stays as it was, and the tombstone keeps its columns with the time, reason and actor.\<close>

theorem record_deletion_correct:
  assumes "cat_inv c"
  shows "case record_deletion i reason actor now expected c of
      Inl e \<Rightarrow> e \<noteq> TombstoneExists
    | Inr (c', t) \<Rightarrow>
      get_artifact c i = Some (tomb_record t) \<and> \<not> art_preserved (tomb_record t) \<and>
      (expected = None \<or> expected = Some (tomb_record t)) \<and>
      (\<forall>j. get_artifact c' j = (if j = i then None else get_artifact c j)) \<and>
      tombstones c' = tombstones c @ [t\<lparr>tomb_record := tombstoned_record (tomb_record t)\<rparr>] \<and>
      tomb_reason t = py_strip reason \<and> tomb_actor t = py_strip actor \<and> Aware (tomb_deleted_at t) = now"
proof (cases "record_deletion i reason actor now expected c")
  case (Inl e)
  with record_deletion_fresh [OF assms, of i reason actor now expected] show ?thesis by auto
next
  case (Inr p)
  then obtain c' t where "record_deletion i reason actor now expected c = Inr (c', t)"
    by (cases p) auto
  with record_deletion_Inr [OF this] show ?thesis
    by (auto simp: get_artifact_def find_row_filter record_from_row_def utc_def split: timestamp.splits)
qed

lemma record_deletion_correct_witness:
  "case record_deletion ''old'' ''expired'' ''job'' (Aware 31) None sample_catalog of
      Inl e \<Rightarrow> e \<noteq> TombstoneExists
    | Inr (c', t) \<Rightarrow> get_artifact c' ''new'' = get_artifact sample_catalog ''new''"
proof -
  show ?thesis
    using record_deletion_correct [OF sample_catalog_inv, where i = "''old''" and reason = "''expired''" and
        actor = "''job''" and now = "Aware 31" and expected = None]
    by (simp split: sum.splits prod.splits)
qed

text \<open>C30: A claim made with the default protection of the newest verified copy, on a verified copy, leaves a
  strictly newer verified copy of the same class at the same location in the catalog.\<close>

theorem claimed_copy_has_newer:
  assumes "cat_inv c" "claim_deletion a actor now True c = Inr c'" "art_verified a"
  shows "\<exists>s\<in>set (artifacts c'). row_verified s \<and> row_class s = art_class a \<and> row_location s = art_location a \<and>
    row_id s \<noteq> art_id a \<and> (art_created a, art_id a) \<noteq> (Aware (row_created_at s), row_id s) \<and>
    (\<forall>t. art_created a = Aware t \<longrightarrow> (t, art_id a) < row_key s)"
proof -
  from claim_deletion_Inr [OF assms(2)] obtain r stamp where r: "find_row c (art_id a) = Some r" "record_from_row r = a"
    "newest_verified_id c (row_class r) (row_location r) \<noteq> Some (row_id r)"
    and c': "c' = update_row (art_id a) (\<lambda>r. r\<lparr>row_claimed_at := Some stamp, row_claimed_by := py_strip actor\<rparr>) c"
    by blast
  have fields: "art_class a = row_class r" "art_location a = row_location r" "art_id a = row_id r"
      "art_created a = Aware (row_created_at r)" "row_verified r"
    using assms(3) by (simp_all add: record_from_row_def flip: r(2))
  have row: "r \<in> set (artifacts c)" using find_row_SomeD [OF r(1)] by simp
  from newer_verified_copy [OF assms(1) row fields(5) r(3)] obtain s where
    "s \<in> set (verified_in c (row_class r) (row_location r))" "row_id s \<noteq> row_id r" "row_key r < row_key s" by blast
  then show ?thesis
    unfolding c' by (intro bexI [of _ s]) (auto simp: artifacts_update fields row_key_def)
qed

lemma claimed_copy_has_newer_witness:
  "\<exists>s\<in>set (artifacts (run_op (ClaimDeletion (sample_copy ''old'' 10) ''job'' (Aware 30) True) sample_catalog)).
     row_verified s \<and> row_id s \<noteq> ''old''"
proof -
  let ?a = "sample_copy ''old'' 10"
  have c: "claim_deletion ?a ''job'' (Aware 30) True sample_catalog
      = Inr (run_op (ClaimDeletion ?a ''job'' (Aware 30) True) sample_catalog)"
    by code_simp
  have v: "art_verified ?a" "art_id ?a = ''old''" by (simp_all add: sample_copy_def)
  from claimed_copy_has_newer [OF sample_catalog_inv c v(1)] show ?thesis
    unfolding v(2) by blast
qed

text \<open>The check that protects the newest verified copy is made when the deletion is claimed, not when it is
  recorded. If the newer copy fails its readback in between, the claimed copy is by then the newest verified
  one, and recording its deletion still succeeds and leaves the class without a verified copy.\<close>

theorem last_verified_copy_can_go:
  "let claimed = run_op (ClaimDeletion (sample_copy ''old'' 10) ''job'' (Aware 30) True) sample_catalog;
       failed = run_op (MarkUnverified ''new'') claimed;
       gone = run_op (RecordDeletion ''old'' ''expired'' ''job'' (Aware 31) (Some (sample_copy ''old'' 10))) failed
   in is_deletion_claimed claimed ''old'' \<and>
      newest_verified_id claimed ''config'' ''local'' = Some ''new'' \<and>
      newest_verified_id failed ''config'' ''local'' = Some ''old'' \<and>
      tomb_ids gone = [''old''] \<and> newest_verified_id gone ''config'' ''local'' = None"
  by code_simp

text \<open>The name a deleted copy had at its location can be used again by a new id: only live copies are
  checked for the pair of location and name.\<close>

theorem place_free_after_deletion:
  "let gone = run_op (RecordDeletion ''old'' ''expired'' ''job'' (Aware 31) None) sample_catalog;
       again = (sample_copy ''other'' 50)\<lparr>art_name := art_name (sample_copy ''old'' 10)\<rparr>
   in add_artifact again (Aware 60) sample_catalog = Inl AlreadyCatalogued \<and>
      get_artifact (run_op (Add again (Aware 60)) gone) ''other'' = Some again"
  by code_simp

end
