(* ===== verification/Backup_Lifecycle.thy ===== *)
theory Backup_Lifecycle
  imports Backup_Catalog "HOL-Library.Multiset"
begin

text \<open>
  Retention and grooming, \<open>history_service/backup_archive/lifecycle.py\<close>: the rules and their
  validation, the dry-run plan, \<open>apply\<close> with its per-location failures, and \<open>reconcile\<close>.

  \<open>plan\<close> reads one state of the catalog. \<open>apply\<close> runs against an environment: the targets and the
  clock are parameters, and before each of its catalog calls any calls that other threads completed
  meanwhile are run. The text of an exception (\<open>describe_error\<close>) is the model's \<open>apply_error\<close>.
\<close>

subsection \<open>Rules and plans\<close>

record retention_rule =
  rule_class :: string
  rule_location :: string
  keep_count :: "int option"
  max_age :: "duration option"

datatype rule_error = RuleField catalog_error | BadKeepCount | BadMaxAge

definition retention_rule_init :: "retention_rule \<Rightarrow> rule_error + retention_rule" where
  "retention_rule_init r =
     (case validate_backup_class (rule_class r) of Inl e \<Rightarrow> Inl (RuleField e) | Inr _ \<Rightarrow>
     (case validate_location (rule_location r) of Inl e \<Rightarrow> Inl (RuleField e) | Inr _ \<Rightarrow>
      if (case keep_count r of None \<Rightarrow> False | Some k \<Rightarrow> k < 0) then Inl BadKeepCount
      else if (case max_age r of None \<Rightarrow> False | Some d \<Rightarrow> d \<le> 0) then Inl BadMaxAge
      else Inr r))"

datatype plan_kind = Retention | Unverified

record plan_item =
  item_record :: artifact
  item_reason :: string
  item_kind :: plan_kind

record grooming_plan =
  generated_at :: instant
  plan_items :: "plan_item list"
  plan_guarded :: "plan_item list"

definition retention_items :: "grooming_plan \<Rightarrow> plan_item list" where
  "retention_items p = filter (\<lambda>i. item_kind i = Retention) (plan_items p)"

definition unverified_items :: "grooming_plan \<Rightarrow> plan_item list" where
  "unverified_items p = filter (\<lambda>i. item_kind i = Unverified) (plan_items p)"

text \<open>\<open>int(delta.total_seconds())\<close> truncates toward zero.\<close>

definition describe_delta :: "duration \<Rightarrow> string" where
  "describe_delta d =
     (let seconds = (if d < 0 then - ((- d) div 1000000) else d div 1000000)
      in if seconds mod 86400 = 0 then int_str (seconds div 86400) @ ''d''
         else if seconds mod 3600 = 0 then int_str (seconds div 3600) @ ''h''
         else int_str seconds @ ''s'')"

record manager =
  mgr_rules :: "retention_rule list"
  mgr_grace :: duration

datatype manager_error = BadGrace | DuplicateRule string string

definition rule_key :: "retention_rule \<Rightarrow> string \<times> string" where
  "rule_key r = (rule_class r, rule_location r)"

fun collect_rules :: "retention_rule list \<Rightarrow> retention_rule list \<Rightarrow> manager_error + retention_rule list" where
  "collect_rules seen [] = Inr (rev seen)"
| "collect_rules seen (r # rs) =
     (if rule_key r \<in> rule_key ` set seen then Inl (DuplicateRule (rule_class r) (rule_location r))
      else collect_rules (r # seen) rs)"

definition manager_init :: "retention_rule list \<Rightarrow> duration \<Rightarrow> manager_error + manager" where
  "manager_init rules grace =
     (if grace < 0 then Inl BadGrace
      else case collect_rules [] rules of Inl e \<Rightarrow> Inl e
        | Inr rs \<Rightarrow> Inr \<lparr>mgr_rules = rs, mgr_grace = grace\<rparr>)"

subsection \<open>Planning\<close>

text \<open>Records come from the catalog, so their \<open>created_at\<close> is aware.\<close>

definition created_instant :: "artifact \<Rightarrow> instant" where
  "created_instant a = (case art_created a of Aware t \<Rightarrow> t | Naive \<Rightarrow> 0)"

definition art_key :: "artifact \<Rightarrow> instant \<times> string" where
  "art_key a = (created_instant a, art_id a)"

definition newest_of :: "artifact list \<Rightarrow> artifact option" where
  "newest_of as = (case sort_key_desc art_key as of [] \<Rightarrow> None | a # _ \<Rightarrow> Some a)"

definition retention_reasons :: "retention_rule \<Rightarrow> instant \<Rightarrow> nat \<Rightarrow> artifact \<Rightarrow> string list" where
  "retention_reasons rule now rank a =
     (case keep_count rule of None \<Rightarrow> []
      | Some k \<Rightarrow> if int rank > k
          then [''beyond keep_count '' @ int_str k @ '' (newest #'' @ nat_str rank @ '')''] else []) @
     (case max_age rule of None \<Rightarrow> []
      | Some d \<Rightarrow> if now - created_instant a > d
          then [''older than max_age '' @ describe_delta d @ '' (age '' @
                describe_delta (now - created_instant a) @ '')''] else [])"

definition plan_group ::
    "catalog \<Rightarrow> duration \<Rightarrow> retention_rule \<Rightarrow> artifact list \<Rightarrow> instant \<Rightarrow> plan_item list \<times> plan_item list" where
  "plan_group c grace rule records now =
     (let verified = filter art_verified records;
          newest = newest_of verified;
          counted = sort_key_desc art_key (filter (\<lambda>a. \<not> art_preserved a) verified);
          hits = filter (\<lambda>(rank, a). retention_reasons rule now rank a \<noteq> [] \<and> \<not> is_deletion_claimed c (art_id a))
                   (enumerate 1 counted);
          item = (\<lambda>(rank, a). \<lparr>item_record = a, item_reason = join ''; '' (retention_reasons rule now rank a),
                    item_kind = Retention\<rparr>);
          guards = (\<lambda>(rank, a). case newest of None \<Rightarrow> False | Some n \<Rightarrow> art_id a = art_id n);
          stale = filter (\<lambda>a. \<not> (art_verified a \<or> art_preserved a \<or> is_deletion_claimed c (art_id a)) \<and>
                    now - created_instant a > grace) records
      in (map item (filter (\<lambda>h. \<not> guards h) hits) @
          map (\<lambda>a. \<lparr>item_record = a,
              item_reason = ''unverified for longer than grace '' @ describe_delta grace @
                '' (age '' @ describe_delta (now - created_instant a) @ '')'',
              item_kind = Unverified\<rparr>) stale,
          map item (filter guards hits)))"

fun plan_rules ::
    "catalog \<Rightarrow> duration \<Rightarrow> instant \<Rightarrow> retention_rule list \<Rightarrow> (plan_item list \<times> plan_item list) outcome" where
  "plan_rules c grace now [] = Inr ([], [])"
| "plan_rules c grace now (r # rs) =
     (case list_artifacts c (Some (rule_class r)) (Some (rule_location r)) of Inl e \<Rightarrow> Inl e
      | Inr records \<Rightarrow> (case plan_rules c grace now rs of Inl e \<Rightarrow> Inl e
         | Inr (is, gs) \<Rightarrow> (let g = plan_group c grace r records now in Inr (fst g @ is, snd g @ gs))))"

definition item_key :: "plan_item \<Rightarrow> instant \<times> string" where
  "item_key i = art_key (item_record i)"

definition make_plan :: "manager \<Rightarrow> timestamp \<Rightarrow> catalog \<Rightarrow> grooming_plan outcome" where
  "make_plan m now c =
     (case utc now of Inl e \<Rightarrow> Inl e | Inr t \<Rightarrow>
     (case plan_rules c (mgr_grace m) t (sort_key rule_key (mgr_rules m)) of Inl e \<Rightarrow> Inl e
      | Inr (is, gs) \<Rightarrow> Inr \<lparr>generated_at = t, plan_items = sort_key item_key is, plan_guarded = sort_key item_key gs\<rparr>))"

subsection \<open>Applying a plan\<close>

text \<open>How \<open>target.delete\<close> ends: quietly, with \<open>FileNotFoundError\<close>, with a connection or timeout
  error, or with any other exception.\<close>

datatype delete_outcome = Removed | AlreadyGone | Unreachable string | Broken string

datatype apply_error = CatalogRefused catalog_error | TargetFailed string

record 'w environment =
  open_target :: "string \<Rightarrow> 'w \<Rightarrow> (string + unit) \<times> 'w"
  delete_object :: "string \<Rightarrow> string \<Rightarrow> 'w \<Rightarrow> delete_outcome \<times> 'w"
  read_clock :: "'w \<Rightarrow> timestamp \<times> 'w"
  meanwhile :: "'w \<Rightarrow> catalog_op list \<times> 'w"

record 'w progress =
  pr_catalog :: catalog
  pr_world :: 'w
  pr_deleted :: "plan_item list"
  pr_missing :: "plan_item list"
  pr_targets :: "string list"
  pr_failed_locations :: "(string \<times> string) list"
  pr_first_failure :: "(nat \<times> plan_item \<times> apply_error) option"
  pr_skipped :: "(nat \<times> plan_item) list"

record apply_result =
  res_deleted :: "plan_item list"
  res_missing :: "plan_item list"
  res_failed :: "plan_item option"
  res_error :: "apply_error option"
  res_not_attempted :: "plan_item list"
  res_failed_locations :: "(string \<times> string) list"

definition apply_complete :: "apply_result \<Rightarrow> bool" where
  "apply_complete r \<longleftrightarrow> res_failed r = None \<and> res_not_attempted r = []"

abbreviation item_location :: "plan_item \<Rightarrow> string" where
  "item_location i \<equiv> art_location (item_record i)"

definition location_complete :: "apply_result \<Rightarrow> string \<Rightarrow> bool" where
  "location_complete r loc =
     (if loc \<in> fst ` set (res_failed_locations r) then False
      else if (case res_failed r of None \<Rightarrow> False | Some i \<Rightarrow> item_location i = loc) then False
      else \<not> list_ex (\<lambda>i. item_location i = loc) (res_not_attempted r))"

text \<open>The catalog as a call of \<open>apply\<close> finds it, and the clock.\<close>

definition others :: "'w environment \<Rightarrow> 'w progress \<Rightarrow> 'w progress" where
  "others E p = (let (ops, w) = meanwhile E (pr_world p)
     in p\<lparr>pr_catalog := run_ops ops (pr_catalog p), pr_world := w\<rparr>)"

definition tick :: "'w environment \<Rightarrow> 'w progress \<Rightarrow> timestamp \<times> 'w progress" where
  "tick E p = (let (t, w) = read_clock E (pr_world p) in (t, p\<lparr>pr_world := w\<rparr>))"

definition fail_location :: "nat \<Rightarrow> plan_item \<Rightarrow> string \<Rightarrow> 'w progress \<Rightarrow> 'w progress" where
  "fail_location k i message p =
     p\<lparr>pr_failed_locations := pr_failed_locations p @ [(item_location i, message)],
       pr_first_failure := (case pr_first_failure p of Some f \<Rightarrow> Some f | None \<Rightarrow> Some (k, i, TargetFailed message)),
       pr_skipped := pr_skipped p @ [(k, i)]\<rparr>"

definition kind_text :: "plan_kind \<Rightarrow> string" where
  "kind_text k = (case k of Retention \<Rightarrow> ''retention'' | Unverified \<Rightarrow> ''unverified'')"

definition release_claim :: "'w environment \<Rightarrow> plan_item \<Rightarrow> 'w progress \<Rightarrow> 'w progress" where
  "release_claim E i p = (let q = others E p
     in q\<lparr>pr_catalog := release_deletion (art_id (item_record i)) (pr_catalog q)\<rparr>)"

text \<open>After the object is gone: the tombstone, and the item counts as deleted or missing.\<close>

definition finish_item ::
    "'w environment \<Rightarrow> string \<Rightarrow> plan_item \<Rightarrow> bool \<Rightarrow> 'w progress \<Rightarrow> (apply_error \<times> 'w progress) + 'w progress" where
  "finish_item E actor i gone p =
     (let reason = kind_text (item_kind i) @ '': '' @ item_reason i @
            (if gone then ''; object was already missing'' else '''');
          (t, p1) = tick E p;
          p2 = others E p1
      in case record_deletion (art_id (item_record i)) reason actor t (Some (item_record i)) (pr_catalog p2) of
           Inl e \<Rightarrow> Inl (CatalogRefused e, p2)
         | Inr (c, _) \<Rightarrow> Inr (if gone then p2\<lparr>pr_catalog := c, pr_missing := pr_missing p2 @ [i]\<rparr>
                            else p2\<lparr>pr_catalog := c, pr_deleted := pr_deleted p2 @ [i]\<rparr>))"

definition groom_item ::
    "'w environment \<Rightarrow> string \<Rightarrow> nat \<Rightarrow> plan_item \<Rightarrow> 'w progress \<Rightarrow> (apply_error \<times> 'w progress) + 'w progress" where
  "groom_item E actor k i p =
     (let (t, p1) = tick E p; p2 = others E p1
      in case claim_deletion (item_record i) actor t True (pr_catalog p2) of
           Inl e \<Rightarrow> Inl (CatalogRefused e, p2)
         | Inr c \<Rightarrow>
            (let p3 = p2\<lparr>pr_catalog := c\<rparr>;
                 (out, w) = delete_object E (item_location i) (art_name (item_record i)) (pr_world p3);
                 p4 = p3\<lparr>pr_world := w\<rparr>
             in case out of
                  Removed \<Rightarrow> finish_item E actor i False p4
                | AlreadyGone \<Rightarrow> finish_item E actor i True p4
                | Unreachable message \<Rightarrow> Inr (fail_location k i message (release_claim E i p4))
                | Broken message \<Rightarrow> Inl (TargetFailed message, release_claim E i p4)))"

definition apply_item ::
    "'w environment \<Rightarrow> string \<Rightarrow> nat \<Rightarrow> plan_item \<Rightarrow> 'w progress \<Rightarrow> (apply_error \<times> 'w progress) + 'w progress" where
  "apply_item E actor k i p =
     (if item_location i \<in> fst ` set (pr_failed_locations p) then Inr (p\<lparr>pr_skipped := pr_skipped p @ [(k, i)]\<rparr>)
      else if item_location i \<notin> set (pr_targets p) then
        (let (out, w) = open_target E (item_location i) (pr_world p); p1 = p\<lparr>pr_world := w\<rparr>
         in case out of
              Inl message \<Rightarrow> Inr (fail_location k i message p1)
            | Inr _ \<Rightarrow> groom_item E actor k i (p1\<lparr>pr_targets := item_location i # pr_targets p1\<rparr>))
      else groom_item E actor k i p)"

fun apply_loop ::
    "'w environment \<Rightarrow> string \<Rightarrow> (nat \<times> plan_item) list \<Rightarrow> 'w progress \<Rightarrow> apply_result \<times> 'w progress" where
  "apply_loop E actor [] p =
     (\<lparr>res_deleted = pr_deleted p, res_missing = pr_missing p,
       res_failed = map_option (\<lambda>(k, i, e). i) (pr_first_failure p),
       res_error = map_option (\<lambda>(k, i, e). e) (pr_first_failure p),
       res_not_attempted = map snd (filter (\<lambda>(j, i). case pr_first_failure p of None \<Rightarrow> True | Some (k, _) \<Rightarrow> j \<noteq> k) (pr_skipped p)),
       res_failed_locations = pr_failed_locations p\<rparr>, p)"
| "apply_loop E actor ((k, i) # rest) p =
     (case apply_item E actor k i p of
        Inr q \<Rightarrow> apply_loop E actor rest q
      | Inl (e, q) \<Rightarrow>
          (\<lparr>res_deleted = pr_deleted q, res_missing = pr_missing q, res_failed = Some i, res_error = Some e,
            res_not_attempted = map snd (pr_skipped q) @ map snd rest,
            res_failed_locations = pr_failed_locations q\<rparr>, q))"

definition start_progress :: "catalog \<Rightarrow> 'w \<Rightarrow> 'w progress" where
  "start_progress c w = \<lparr>pr_catalog = c, pr_world = w, pr_deleted = [], pr_missing = [], pr_targets = [],
     pr_failed_locations = [], pr_first_failure = None, pr_skipped = []\<rparr>"

definition apply_plan ::
    "'w environment \<Rightarrow> string \<Rightarrow> grooming_plan \<Rightarrow> catalog \<Rightarrow> 'w \<Rightarrow> apply_result \<times> 'w progress" where
  "apply_plan E actor pl c w = apply_loop E actor (enumerate 0 (plan_items pl)) (start_progress c w)"

subsection \<open>Reconciling and the local target\<close>

record stored_object =
  obj_name :: string
  obj_size :: int

record reconcile_report =
  rep_location :: string
  rep_missing :: "artifact list"
  rep_uncatalogued :: "stored_object list"
  rep_size_mismatch :: "(artifact \<times> stored_object) list"
  rep_tombstoned_present :: "stored_object list"

definition report_clean :: "reconcile_report \<Rightarrow> bool" where
  "report_clean r \<longleftrightarrow> rep_missing r = [] \<and> rep_uncatalogued r = [] \<and> rep_size_mismatch r = [] \<and>
     rep_tombstoned_present r = []"

text \<open>\<open>{obj.name: obj for obj in objects}\<close>: the last object of a name counts.\<close>

definition by_name :: "stored_object list \<Rightarrow> string \<Rightarrow> stored_object option" where
  "by_name objs n = find (\<lambda>b. obj_name b = n) (rev objs)"

definition reconcile :: "catalog \<Rightarrow> stored_object list \<Rightarrow> string \<Rightarrow> reconcile_report outcome" where
  "reconcile c objs location =
     (case validate_location location of Inl e \<Rightarrow> Inl e | Inr loc \<Rightarrow>
     (case list_artifacts c None (Some loc) of Inl e \<Rightarrow> Inl e | Inr records \<Rightarrow>
     (case list_tombstones c None (Some loc) of Inl e \<Rightarrow> Inl e | Inr tombs \<Rightarrow>
      let catalogued = map art_name records;
          tombstoned = map (\<lambda>t. art_name (tomb_record t)) tombs;
          extra = sort_key obj_name (filter (\<lambda>b. obj_name b \<notin> set catalogued) objs)
      in Inr \<lparr>rep_location = loc,
         rep_missing = filter (\<lambda>a. by_name objs (art_name a) = None) records,
         rep_uncatalogued = filter (\<lambda>b. obj_name b \<notin> set tombstoned) extra,
         rep_size_mismatch = List.map_filter (\<lambda>a. case by_name objs (art_name a) of None \<Rightarrow> None
            | Some b \<Rightarrow> if obj_size b \<noteq> art_size a then Some (a, b) else None) records,
         rep_tombstoned_present = filter (\<lambda>b. obj_name b \<in> set tombstoned) extra\<rparr>)))"

text \<open>\<open>local_target_resolver\<close>: which target a location means; without a remote resolver every other
  location is a \<open>LookupError\<close>.\<close>

datatype 'r target = LocalTarget | RemoteTarget 'r

definition resolve_target :: "(string \<Rightarrow> string + 'r) option \<Rightarrow> string \<Rightarrow> string + 'r target" where
  "resolve_target remote location =
     (if location = ''local'' then Inr LocalTarget
      else case remote of None \<Rightarrow> Inl (''No archive target is configured for location '' @ [CHR 0x27] @ location @ [CHR 0x27] @ ''.'')
        | Some f \<Rightarrow> map_sum id RemoteTarget (f location))"

subsection \<open>What a plan holds\<close>

definition group_rows :: "catalog \<Rightarrow> string \<Rightarrow> string \<Rightarrow> artifact_row list" where
  "group_rows c cls location = filter (\<lambda>r. row_class r = cls \<and> row_location r = location) (artifacts c)"

text \<open>How many verified, unpreserved copies of the same class and location are newer.\<close>

definition newer_copies :: "catalog \<Rightarrow> artifact \<Rightarrow> nat" where
  "newer_copies c a = length (filter (\<lambda>b. art_verified b \<and> \<not> art_preserved b \<and> art_key a < art_key b)
     (map record_from_row (group_rows c (art_class a) (art_location a))))"

text \<open>A limit of the rule is passed: enough newer copies, or too old.\<close>

definition past_limit :: "retention_rule \<Rightarrow> catalog \<Rightarrow> instant \<Rightarrow> artifact \<Rightarrow> bool" where
  "past_limit rule c now a \<longleftrightarrow>
     (case keep_count rule of None \<Rightarrow> False | Some k \<Rightarrow> k \<le> int (newer_copies c a)) \<or>
     (case max_age rule of None \<Rightarrow> False | Some d \<Rightarrow> d < now - created_instant a)"

definition newest_verified :: "catalog \<Rightarrow> artifact \<Rightarrow> bool" where
  "newest_verified c a \<longleftrightarrow> newest_verified_id c (art_class a) (art_location a) = Some (art_id a)"

definition to_delete :: "manager \<Rightarrow> catalog \<Rightarrow> instant \<Rightarrow> artifact \<Rightarrow> bool" where
  "to_delete m c now a \<longleftrightarrow> \<not> art_preserved a \<and> \<not> is_deletion_claimed c (art_id a) \<and>
     list_ex (\<lambda>rule. rule_key rule = (art_class a, art_location a) \<and>
       (if art_verified a then past_limit rule c now a \<and> \<not> newest_verified c a
        else mgr_grace m < now - created_instant a)) (mgr_rules m)"

definition to_guard :: "manager \<Rightarrow> catalog \<Rightarrow> instant \<Rightarrow> artifact \<Rightarrow> bool" where
  "to_guard m c now a \<longleftrightarrow> \<not> art_preserved a \<and> \<not> is_deletion_claimed c (art_id a) \<and> art_verified a \<and>
     newest_verified c a \<and>
     list_ex (\<lambda>rule. rule_key rule = (art_class a, art_location a) \<and> past_limit rule c now a) (mgr_rules m)"

lemma list_artifacts_group:
  "list_artifacts c (Some cls) (Some location) = Inr rs \<Longrightarrow>
     rs = map record_from_row (sort_key row_key (group_rows c cls location))"
  by (auto simp: list_artifacts_def group_rows_def eq_commute [of cls] eq_commute [of location] split: sum.splits)

lemma group_records_distinct:
  assumes "cat_inv c"
  shows "distinct (map art_id (map record_from_row (sort_key row_key (group_rows c cls location))))"
proof -
  have "distinct (map row_id (group_rows c cls location))"
    using cat_invD(1) [OF assms] by (auto simp: live_ids_def group_rows_def distinct_map intro: inj_on_subset)
  then show ?thesis by (simp add: distinct_map o_def)
qed

lemma distinct_art_key: "distinct (map art_id as) \<Longrightarrow> distinct (map art_key as)"
  by (auto simp: distinct_map inj_on_def art_key_def)

lemma distinct_map_filter_key: "distinct (map f xs) \<Longrightarrow> distinct (map f (filter P xs))"
  by (auto simp: distinct_map intro: inj_on_subset)

lemma retention_reasons_iff:
  "retention_reasons rule now (Suc n) a \<noteq> [] \<longleftrightarrow>
     (case keep_count rule of None \<Rightarrow> False | Some k \<Rightarrow> k \<le> int n) \<or>
     (case max_age rule of None \<Rightarrow> False | Some d \<Rightarrow> d < now - created_instant a)"
  by (auto simp: retention_reasons_def split: option.splits)

lemma art_key_record [simp]: "art_key (record_from_row r) = row_key r"
  by (simp add: art_key_def created_instant_def record_from_row_def row_key_def)

lemma record_from_row_fields [simp]:
  "art_class (record_from_row r) = row_class r" "art_location (record_from_row r) = row_location r"
  "art_verified (record_from_row r) = row_verified r" "art_preserved (record_from_row r) = row_preserved r"
  "art_name (record_from_row r) = row_name r" "art_size (record_from_row r) = row_size r"
  by (simp_all add: record_from_row_def)

text \<open>The newest of a group's verified records is the catalog's newest verified copy.\<close>

lemma newest_of_group:
  assumes inv: "cat_inv c"
    and rs: "rs = map record_from_row (sort_key row_key (group_rows c cls location))"
  shows "map_option art_id (newest_of (filter art_verified rs)) = newest_verified_id c cls location"
proof (cases "newest_of (filter art_verified rs)")
  case None
  then have none: "filter art_verified rs = []" by (auto simp: newest_of_def split: list.splits)
  then have "verified_in c cls location = []"
    by (auto simp: rs group_rows_def filter_empty_conv)
  with None newest_verified_id_None [of c cls location] show ?thesis by simp
next
  case (Some n)
  then obtain ns where "sort_key_desc art_key (filter art_verified rs) = n # ns"
    by (auto simp: newest_of_def split: list.splits)
  from sort_key_desc_hd [OF this] have n: "n \<in> set rs" "art_verified n"
    "\<And>b. b \<in> set rs \<Longrightarrow> art_verified b \<Longrightarrow> art_key b \<le> art_key n" by auto
  from n(1) obtain r where r: "r \<in> set (group_rows c cls location)" "n = record_from_row r" by (auto simp: rs)
  have mem: "r \<in> set (verified_in c cls location)" using r n(2) by (auto simp: group_rows_def)
  then have "newest_verified_id c cls location \<noteq> None"
    using newest_verified_id_None [of c cls location] by fastforce
  then obtain i where i: "newest_verified_id c cls location = Some i" by blast
  from newest_verified_id_Some [OF i] obtain s where s: "s \<in> set (verified_in c cls location)" "row_id s = i"
    "row_key r \<le> row_key s" using mem by blast
  have "row_key s \<le> row_key r"
    using n(3) [of "record_from_row s"] s(1) by (auto simp: rs r group_rows_def)
  with s have "row_id r = i" by (auto simp: row_key_def)
  with i Some r show ?thesis by simp
qed

lemma plan_group_items:
  assumes inv: "cat_inv c" and rule: "rule_key rule = (cls, location)"
    and rs: "rs = map record_from_row (sort_key row_key (group_rows c cls location))"
  shows "item_record ` set (fst (plan_group c grace rule rs now)) =
      {a \<in> set rs. \<not> art_preserved a \<and> \<not> is_deletion_claimed c (art_id a) \<and>
         (if art_verified a then past_limit rule c now a \<and> \<not> newest_verified c a else grace < now - created_instant a)}"
    (is "?items = ?spec")
    and "item_record ` set (snd (plan_group c grace rule rs now)) =
      {a \<in> set rs. \<not> art_preserved a \<and> \<not> is_deletion_claimed c (art_id a) \<and> art_verified a \<and>
         past_limit rule c now a \<and> newest_verified c a}"
    (is "?guarded = ?gspec")
proof -
  let ?unp = "filter (\<lambda>a. \<not> art_preserved a) (filter art_verified rs)"
  have group: "art_class a = cls \<and> art_location a = location" if "a \<in> set rs" for a
    using that by (auto simp: rs group_rows_def)
  have dist: "distinct (map art_key ?unp)"
    by (intro distinct_map_filter_key distinct_art_key) (unfold rs, rule group_records_distinct [OF inv])
  have newer: "length (filter (\<lambda>b. art_key a < art_key b) ?unp) = newer_copies c a" if "a \<in> set rs" for a
  proof -
    have "length (filter P (sort_key f ys)) = length (filter P ys)" for P and f :: "artifact_row \<Rightarrow> instant \<times> string" and ys
      by (simp add: filter_sort)
    then show ?thesis
      using group [OF that]
      by (simp add: newer_copies_def rs filter_map o_def conj_commute conj_left_commute)
  qed
  have en: "(rank, a) \<in> set (enumerate 1 (sort_key_desc art_key ?unp)) \<longleftrightarrow>
      a \<in> set rs \<and> art_verified a \<and> \<not> art_preserved a \<and> rank = Suc (newer_copies c a)" for rank a
    using enumerate_sort_key_desc [OF dist, of rank a] newer by auto
  have newest: "(case newest_of (filter art_verified rs) of None \<Rightarrow> False | Some n \<Rightarrow> art_id a = art_id n)
      \<longleftrightarrow> newest_verified c a" if "a \<in> set rs" for a
    using newest_of_group [OF inv rs] group [OF that] by (auto simp: newest_verified_def split: option.splits)
  have hit: "retention_reasons rule now (Suc (newer_copies c a)) a \<noteq> [] \<longleftrightarrow> past_limit rule c now a" for a
    by (simp add: retention_reasons_iff past_limit_def)
  let ?hits = "filter (\<lambda>(rank, a). retention_reasons rule now rank a \<noteq> [] \<and> \<not> is_deletion_claimed c (art_id a))
                   (enumerate 1 (sort_key_desc art_key ?unp))"
  have hits: "(rank, a) \<in> set ?hits \<longleftrightarrow> rank = Suc (newer_copies c a) \<and> a \<in> set rs \<and> art_verified a \<and>
      \<not> art_preserved a \<and> \<not> is_deletion_claimed c (art_id a) \<and> past_limit rule c now a" for rank a
    unfolding set_filter using en hit by auto
  let ?guards = "\<lambda>a. case newest_of (filter art_verified rs) of None \<Rightarrow> False | Some n \<Rightarrow> art_id a = art_id n"
  have "item_record ` set (snd (plan_group c grace rule rs now)) = snd ` {h \<in> set ?hits. ?guards (snd h)}"
    unfolding plan_group_def Let_def snd_conv set_map set_filter image_image by (simp add: case_prod_beta)
  also have "\<dots> = {a. (Suc (newer_copies c a), a) \<in> set ?hits \<and> ?guards a}"
    unfolding set_eq_iff image_iff Bex_def split_paired_Ex mem_Collect_eq snd_conv hits by auto
  also have "\<dots> = ?gspec" unfolding hits using newest by auto
  finally show "?guarded = ?gspec" .
  have "item_record ` set (fst (plan_group c grace rule rs now)) = snd ` {h \<in> set ?hits. \<not> ?guards (snd h)} \<union>
      {a \<in> set rs. \<not> (art_verified a \<or> art_preserved a \<or> is_deletion_claimed c (art_id a)) \<and> grace < now - created_instant a}"
    unfolding plan_group_def Let_def fst_conv set_append set_map set_filter image_Un image_image by (simp add: case_prod_beta)
  also have "snd ` {h \<in> set ?hits. \<not> ?guards (snd h)} = {a. (Suc (newer_copies c a), a) \<in> set ?hits \<and> \<not> ?guards a}"
    unfolding set_eq_iff image_iff Bex_def split_paired_Ex mem_Collect_eq snd_conv hits by auto
  also have "\<dots> \<union> {a \<in> set rs. \<not> (art_verified a \<or> art_preserved a \<or> is_deletion_claimed c (art_id a)) \<and>
      grace < now - created_instant a} = ?spec"
    unfolding hits using newest by auto
  finally show "?items = ?spec" .
qed

text \<open>A live record of a group, and the records \<open>list\<close> gives for it.\<close>

lemma group_member:
  assumes "cat_inv c"
  shows "a \<in> set (map record_from_row (sort_key row_key (group_rows c cls location))) \<longleftrightarrow>
    get_artifact c (art_id a) = Some a \<and> art_class a = cls \<and> art_location a = location" (is "?l \<longleftrightarrow> ?r")
proof
  assume ?l
  then obtain r where r: "r \<in> set (artifacts c)" "row_class r = cls" "row_location r = location" "a = record_from_row r"
    by (auto simp: group_rows_def)
  with find_row_eq [OF cat_invD(1) [OF assms] r(1)] show ?r by (simp add: get_artifact_def)
next
  assume ?r
  then obtain r where r: "find_row c (art_id a) = Some r" "a = record_from_row r"
    by (auto simp: get_artifact_def)
  with find_row_SomeD [OF r(1)] \<open>?r\<close> show ?l by (auto simp: group_rows_def)
qed

definition plan_spec :: "retention_rule list \<Rightarrow> catalog \<Rightarrow> (retention_rule \<Rightarrow> artifact \<Rightarrow> bool) \<Rightarrow> artifact set" where
  "plan_spec rules c P = {a. get_artifact c (art_id a) = Some a \<and> \<not> art_preserved a \<and> \<not> is_deletion_claimed c (art_id a) \<and>
     (\<exists>rule\<in>set rules. rule_key rule = (art_class a, art_location a) \<and> P rule a)}"

lemma plan_rules_items:
  assumes inv: "cat_inv c" and "plan_rules c grace now rules = Inr (is, gs)"
  shows "item_record ` set is = plan_spec rules c (\<lambda>rule a. if art_verified a then past_limit rule c now a \<and> \<not> newest_verified c a
            else grace < now - created_instant a)"
    and "item_record ` set gs = plan_spec rules c (\<lambda>rule a. art_verified a \<and> past_limit rule c now a \<and> newest_verified c a)"
  using assms(2)
proof (induction rules arbitrary: "is" gs)
  case Nil
  case 1 then show ?case by (simp add: plan_spec_def)
  case 2 then show ?case using Nil by (simp add: plan_spec_def)
next
  case (Cons r rs)
  let ?recs = "map record_from_row (sort_key row_key (group_rows c (rule_class r) (rule_location r)))"
  have split: "\<exists>is' gs'. plan_rules c grace now rs = Inr (is', gs') \<and>
      is = fst (plan_group c grace r ?recs now) @ is' \<and> gs = snd (plan_group c grace r ?recs now) @ gs'"
    if "plan_rules c grace now (r # rs) = Inr (is, gs)" for "is" gs
    using that by (auto dest!: list_artifacts_group simp: Let_def split: sum.splits prod.splits)
  note group = plan_group_items [OF inv _ refl, of r "rule_class r" "rule_location r" grace now]
  have key: "rule_key r = (rule_class r, rule_location r)" by (simp add: rule_key_def)
  case 1
  from split [OF 1] obtain is' gs' where parts: "plan_rules c grace now rs = Inr (is', gs')"
    "is = fst (plan_group c grace r ?recs now) @ is'" by blast
  show ?case
    unfolding parts(2) set_append image_Un Cons.IH(1) [OF parts(1)] group(1) [OF key] group_member [OF inv]
    by (auto simp: plan_spec_def key)
  case 2
  from split [OF 2] obtain is' gs' where parts: "plan_rules c grace now rs = Inr (is', gs')"
    "gs = snd (plan_group c grace r ?recs now) @ gs'" by blast
  show ?case
    unfolding parts(2) set_append image_Un Cons.IH(2) [OF parts(1)] group(2) [OF key] group_member [OF inv]
    by (auto simp: plan_spec_def key)
qed

lemma make_plan_items:
  assumes inv: "cat_inv c" and plan: "make_plan m now c = Inr p"
  shows "item_record ` set (plan_items p) = {a. get_artifact c (art_id a) = Some a \<and> to_delete m c (generated_at p) a}"
    and "item_record ` set (plan_guarded p) = {a. get_artifact c (art_id a) = Some a \<and> to_guard m c (generated_at p) a}"
    and "sorted (map item_key (plan_items p))" and "sorted (map item_key (plan_guarded p))"
    and "now = Aware (generated_at p)"
proof -
  obtain t "is" gs where t: "now = Aware t" "plan_rules c (mgr_grace m) t (sort_key rule_key (mgr_rules m)) = Inr (is, gs)"
    and p: "p = \<lparr>generated_at = t, plan_items = sort_key item_key is, plan_guarded = sort_key item_key gs\<rparr>"
    using plan by (auto simp: make_plan_def utc_def split: sum.splits timestamp.splits prod.splits)
  show "item_record ` set (plan_items p) = {a. get_artifact c (art_id a) = Some a \<and> to_delete m c (generated_at p) a}"
    using plan_rules_items(1) [OF inv t(2)] by (auto simp: p plan_spec_def to_delete_def list_ex_iff)
  show "item_record ` set (plan_guarded p) = {a. get_artifact c (art_id a) = Some a \<and> to_guard m c (generated_at p) a}"
    using plan_rules_items(2) [OF inv t(2)] by (auto simp: p plan_spec_def to_guard_def list_ex_iff)
  show "sorted (map item_key (plan_items p))" "sorted (map item_key (plan_guarded p))" "now = Aware (generated_at p)"
    by (simp_all add: p t(1))
qed

text \<open>A manager's rules have legal fields and different keys, so a plan is always made.\<close>

lemma collect_rules_ok:
  "collect_rules seen rules = Inr kept \<Longrightarrow> distinct (map rule_key seen) \<Longrightarrow>
     kept = rev seen @ rules \<and> distinct (map rule_key kept)"
proof (induction seen rules rule: collect_rules.induct)
  case (2 seen r rs)
  then have new: "rule_key r \<notin> rule_key ` set seen" and more: "collect_rules (r # seen) rs = Inr kept"
    by (auto split: if_splits)
  from new 2(3) have "distinct (map rule_key (r # seen))" by simp
  from "2.IH" [OF new more this] show ?case by (elim conjE) (intro conjI, simp only: rev.simps append_assoc append.simps)
qed (auto simp: rev_map [symmetric])

lemma manager_init_rules:
  assumes "manager_init rules grace = Inr m"
  shows "mgr_rules m = rules \<and> mgr_grace m = grace \<and> 0 \<le> grace \<and> distinct (map rule_key rules)"
  using assms collect_rules_ok [of "[]" rules] by (auto simp: manager_init_def split: if_splits sum.splits)

lemma retention_rule_init_ok:
  assumes "retention_rule_init r = Inr r'"
  shows "r' = r \<and> validate_backup_class (rule_class r) = Inr (rule_class r) \<and>
    validate_location (rule_location r) = Inr (rule_location r) \<and>
    (\<forall>k. keep_count r = Some k \<longrightarrow> 0 \<le> k) \<and> (\<forall>d. max_age r = Some d \<longrightarrow> 0 < d)"
  using assms
  by (auto simp: retention_rule_init_def validate_backup_class_def validate_location_def
      split: sum.splits if_splits option.splits)

lemma plan_rules_total:
  assumes "\<And>r. r \<in> set rules \<Longrightarrow> \<exists>r'. retention_rule_init r = Inr r'"
  shows "\<exists>x. plan_rules c grace now rules = Inr x"
  using assms
proof (induction rules)
  case (Cons r rs)
  then obtain x where x: "plan_rules c grace now rs = Inr x" by auto
  obtain r' where "retention_rule_init r = Inr r'" using Cons.prems by auto
  from retention_rule_init_ok [OF this] have "\<exists>recs. list_artifacts c (Some (rule_class r)) (Some (rule_location r)) = Inr recs"
    by (auto simp: list_artifacts_def)
  with x show ?case by (auto simp: Let_def split: prod.splits)
qed simp

text \<open>Each record is planned at most once.\<close>

lemma distinct_plan_group:
  assumes inv: "cat_inv c" and rs: "rs = map record_from_row (sort_key row_key (group_rows c cls location))"
  shows "distinct (map item_record (fst (plan_group c grace rule rs now)))"
proof -
  let ?cnt = "sort_key_desc art_key (filter (\<lambda>a. \<not> art_preserved a) (filter art_verified rs))"
  have d: "distinct rs"
    unfolding rs using group_records_distinct [OF inv] by (metis distinct_map)
  then have e: "distinct (map snd (filter P (enumerate 1 ?cnt)))" for P
    by (intro distinct_map_filter_key) (simp add: map_snd_enumerate)
  have mem: "(k, a) \<in> set (enumerate n xs) \<Longrightarrow> a \<in> set xs" for k a n and xs :: "artifact list"
    by (auto simp: in_set_enumerate_eq)
  have comp: "item_record \<circ> (\<lambda>(rank, a). \<lparr>item_record = a, item_reason = f rank a, item_kind = K\<rparr>) = snd" for f K
    by (auto simp: fun_eq_iff)
  show ?thesis
    unfolding plan_group_def Let_def fst_conv map_append map_map comp distinct_append o_def plan_item.select_convs
    using e d by (auto dest!: mem simp: comp[unfolded o_def])
qed

lemma distinct_plan_rules:
  assumes inv: "cat_inv c" and "distinct (map rule_key rules)" "plan_rules c grace now rules = Inr (is, gs)"
  shows "distinct (map item_record is)"
  using assms(2,3)
proof (induction rules arbitrary: "is" gs)
  case (Cons r rs)
  let ?recs = "map record_from_row (sort_key row_key (group_rows c (rule_class r) (rule_location r)))"
  have key: "rule_key r = (rule_class r, rule_location r)" by (simp add: rule_key_def)
  obtain is' gs' where parts: "plan_rules c grace now rs = Inr (is', gs')" "is = fst (plan_group c grace r ?recs now) @ is'"
    using Cons.prems(2) by (auto dest!: list_artifacts_group simp: Let_def split: sum.splits prod.splits)
  have "\<forall>rule\<in>set rs. rule_key rule \<noteq> (rule_class r, rule_location r)"
    using Cons.prems(1) key by (auto simp del: split_paired_All) (metis image_eqI)
  then have "item_record ` set (fst (plan_group c grace r ?recs now)) \<inter> item_record ` set is' = {}"
    unfolding plan_group_items(1) [OF inv key refl] plan_rules_items(1) [OF inv parts(1)] group_member [OF inv]
    by (auto simp: plan_spec_def)
  then show ?case
    using Cons.IH [OF _ parts(1)] Cons.prems(1) distinct_plan_group [OF inv refl] by (simp add: parts(2))
qed simp

lemma distinct_make_plan:
  assumes inv: "cat_inv c" and m: "manager_init rules grace = Inr m" and plan: "make_plan m now c = Inr p"
  shows "distinct (map (\<lambda>i. art_id (item_record i)) (plan_items p))"
proof -
  obtain t "is" gs where r: "plan_rules c (mgr_grace m) t (sort_key rule_key (mgr_rules m)) = Inr (is, gs)"
    and p: "plan_items p = sort_key item_key is"
    using plan by (auto simp: make_plan_def utc_def split: sum.splits timestamp.splits prod.splits)
  have "distinct (map rule_key (sort_key rule_key (mgr_rules m)))"
    using manager_init_rules [OF m] by (simp add: distinct_map)
  from distinct_plan_rules [OF inv this r] have d: "distinct (map item_record (plan_items p))"
    by (simp add: p distinct_map)
  have "inj_on art_id (item_record ` set (plan_items p))"
    unfolding make_plan_items(1) [OF inv plan] by (rule inj_onI) (metis (mono_tags, lifting) mem_Collect_eq option.inject)
  with d have "inj_on (art_id \<circ> item_record) (set (plan_items p))"
    by (intro comp_inj_on) (simp_all add: distinct_map)
  with d show ?thesis by (simp add: distinct_map o_def)
qed

subsection \<open>One item of \<open>apply\<close>\<close>

text \<open>The catalog of a run only changes by catalog calls.\<close>

definition evolves :: "catalog \<Rightarrow> catalog \<Rightarrow> bool" where
  "evolves c c' \<longleftrightarrow> (\<exists>ops. c' = run_ops ops c)"

lemma run_ops_append: "run_ops (xs @ ys) c = run_ops ys (run_ops xs c)"
  by (simp add: run_ops_def)

lemma evolves_refl [simp]: "evolves c c"
  unfolding evolves_def by (rule exI [of _ "[]"]) simp

lemma evolves_trans [trans]: "evolves a b \<Longrightarrow> evolves b c \<Longrightarrow> evolves a c"
  unfolding evolves_def by (metis run_ops_append)

lemma evolves_run_ops [simp]: "evolves c (run_ops ops c)"
  by (auto simp: evolves_def)

lemma evolves_exec: "exec op c = Inr c' \<Longrightarrow> evolves c c'"
  unfolding evolves_def by (rule exI [of _ "[op]"]) (simp add: run_op_def)

lemma evolves_claim: "claim_deletion a actor now protect c = Inr c' \<Longrightarrow> evolves c c'"
  by (rule evolves_exec [of "ClaimDeletion a actor now protect"]) simp

lemma evolves_release: "evolves c (release_deletion i c)"
  by (rule evolves_exec [of "ReleaseDeletion i"]) simp

lemma evolves_delete: "record_deletion i reason actor now expected c = Inr (c', t) \<Longrightarrow> evolves c c'"
  by (rule evolves_exec [of "RecordDeletion i reason actor now expected"]) simp

lemma evolves_tombstones: "evolves c c' \<Longrightarrow> set (tombstones c) \<subseteq> set (tombstones c')"
  unfolding evolves_def by (metis run_ops_appends set_append sup_ge1)

lemma evolves_inv: "evolves c c' \<Longrightarrow> cat_inv c \<Longrightarrow> cat_inv c'"
  by (auto simp: evolves_def intro: run_ops_keeps)

text \<open>The fields of the progress that only \<open>apply_item\<close> itself touches.\<close>

definition counters :: "'w progress \<Rightarrow> 'w progress \<Rightarrow> bool" where
  "counters p q \<longleftrightarrow> pr_deleted q = pr_deleted p \<and> pr_missing q = pr_missing p \<and>
     pr_failed_locations q = pr_failed_locations p \<and> pr_first_failure q = pr_first_failure p \<and>
     pr_skipped q = pr_skipped p"

text \<open>An item was handled: it is counted, and the catalog has its tombstone.\<close>

definition handled :: "plan_item \<Rightarrow> 'w progress \<Rightarrow> 'w progress \<Rightarrow> bool" where
  "handled i p q \<longleftrightarrow>
     (pr_deleted q = pr_deleted p @ [i] \<and> pr_missing q = pr_missing p \<or>
      pr_missing q = pr_missing p @ [i] \<and> pr_deleted q = pr_deleted p) \<and>
     pr_failed_locations q = pr_failed_locations p \<and> pr_first_failure q = pr_first_failure p \<and>
     pr_skipped q = pr_skipped p \<and>
     (\<exists>t\<in>set (tombstones (pr_catalog q)). tomb_record t = tombstoned_record (item_record i))"

text \<open>An item was skipped: its location is a failed one.\<close>

definition passed_over :: "nat \<Rightarrow> plan_item \<Rightarrow> 'w progress \<Rightarrow> 'w progress \<Rightarrow> bool" where
  "passed_over k i p q \<longleftrightarrow>
     pr_deleted q = pr_deleted p \<and> pr_missing q = pr_missing p \<and> pr_skipped q = pr_skipped p @ [(k, i)] \<and>
     (item_location i \<in> fst ` set (pr_failed_locations p) \<and>
        pr_failed_locations q = pr_failed_locations p \<and> pr_first_failure q = pr_first_failure p \<or>
      (\<exists>message. pr_failed_locations q = pr_failed_locations p @ [(item_location i, message)] \<and>
        pr_first_failure q = (case pr_first_failure p of Some f \<Rightarrow> Some f | None \<Rightarrow> Some (k, i, TargetFailed message))))"

lemma counters_refl [simp]: "counters p p"
  by (simp add: counters_def)

lemma others_counters: "counters p (others E p) \<and> evolves (pr_catalog p) (pr_catalog (others E p))"
  by (simp add: others_def counters_def split: prod.splits)

lemma tick_counters:
  "tick E p = (t, q) \<Longrightarrow> counters p q \<and> pr_catalog q = pr_catalog p"
  by (auto simp: tick_def counters_def split: prod.splits)

lemma release_claim_counters:
  "counters p (release_claim E i p) \<and> evolves (pr_catalog p) (pr_catalog (release_claim E i p))"
  using others_counters [of p E] evolves_release
  by (auto simp: release_claim_def Let_def counters_def intro: evolves_trans)

lemma counters_trans: "counters p q \<Longrightarrow> counters q r \<Longrightarrow> counters p r"
  by (simp add: counters_def)

lemma handled_counters: "counters p q \<Longrightarrow> handled i q r \<Longrightarrow> handled i p r"
  by (simp add: counters_def handled_def)

lemma passed_over_counters: "counters p q \<Longrightarrow> passed_over k i q r \<Longrightarrow> passed_over k i p r"
  by (simp add: counters_def passed_over_def)

lemma finish_item_result:
  "case finish_item E actor i gone p of
     Inr q \<Rightarrow> handled i p q \<and> evolves (pr_catalog p) (pr_catalog q)
   | Inl (e, q) \<Rightarrow> counters p q \<and> evolves (pr_catalog p) (pr_catalog q)"
proof -
  let ?reason = "kind_text (item_kind i) @ '': '' @ item_reason i @ (if gone then ''; object was already missing'' else '''')"
  obtain t p1 where t: "tick E p = (t, p1)" by (cases "tick E p")
  let ?p2 = "others E p1"
  have p2: "counters p ?p2" "evolves (pr_catalog p) (pr_catalog ?p2)"
    using tick_counters [OF t] others_counters [of p1 E] by (auto intro: counters_trans)
  have run: "finish_item E actor i gone p =
      (case record_deletion (art_id (item_record i)) ?reason actor t (Some (item_record i)) (pr_catalog ?p2) of
         Inl e \<Rightarrow> Inl (CatalogRefused e, ?p2)
       | Inr (c, _) \<Rightarrow> Inr (if gone then ?p2\<lparr>pr_catalog := c, pr_missing := pr_missing ?p2 @ [i]\<rparr>
                          else ?p2\<lparr>pr_catalog := c, pr_deleted := pr_deleted ?p2 @ [i]\<rparr>))"
    unfolding finish_item_def Let_def t prod.case ..
  show ?thesis
  proof (cases "record_deletion (art_id (item_record i)) ?reason actor t (Some (item_record i)) (pr_catalog ?p2)")
    case (Inl e)
    then show ?thesis using p2 by (simp add: run)
  next
    case (Inr x)
    obtain c u where x: "x = (c, u)" by (cases x)
    note del = Inr [unfolded x]
    from record_deletion_Inr [OF del] have "\<exists>t\<in>set (tombstones c). tomb_record t = tombstoned_record (item_record i)"
      by auto
    then show ?thesis
      using p2 evolves_trans [OF p2(2) evolves_delete [OF del]]
      unfolding run Inr x sum.case prod.case by (simp add: handled_def counters_def)
  qed
qed

lemma fail_location_passed: "passed_over k i p (fail_location k i message p)"
  by (simp add: passed_over_def fail_location_def)

lemma groom_item_result:
  "case groom_item E actor k i p of
     Inr q \<Rightarrow> (handled i p q \<or> passed_over k i p q) \<and> evolves (pr_catalog p) (pr_catalog q)
   | Inl (e, q) \<Rightarrow> counters p q \<and> evolves (pr_catalog p) (pr_catalog q)"
proof -
  obtain t p1 where t: "tick E p = (t, p1)" by (cases "tick E p")
  let ?p2 = "others E p1"
  have p2: "counters p ?p2" "evolves (pr_catalog p) (pr_catalog ?p2)"
    using tick_counters [OF t] others_counters [of p1 E] by (auto intro: counters_trans)
  show ?thesis
  proof (cases "claim_deletion (item_record i) actor t True (pr_catalog ?p2)")
    case (Inl e)
    then show ?thesis using p2 by (simp add: groom_item_def t)
  next
    case (Inr c)
    obtain out w where del: "delete_object E (item_location i) (art_name (item_record i)) (pr_world ?p2) = (out, w)"
      by (cases "delete_object E (item_location i) (art_name (item_record i)) (pr_world ?p2)")
    let ?p4 = "?p2\<lparr>pr_catalog := c, pr_world := w\<rparr>"
    have p4: "counters p ?p4" "evolves (pr_catalog p) (pr_catalog ?p4)"
      using p2 evolves_trans [OF p2(2) evolves_claim [OF Inr]] by (simp_all add: counters_def)
    have rel: "counters p (release_claim E i ?p4)" "evolves (pr_catalog p) (pr_catalog (release_claim E i ?p4))"
      using release_claim_counters [of ?p4 E i] p4 by (auto intro: counters_trans evolves_trans)
    have fin: "case finish_item E actor i gone ?p4 of
        Inr q \<Rightarrow> handled i p q \<and> evolves (pr_catalog p) (pr_catalog q)
      | Inl (e, q) \<Rightarrow> counters p q \<and> evolves (pr_catalog p) (pr_catalog q)" for gone
      using finish_item_result [where E = E and actor = actor and i = i and gone = gone and p = ?p4] handled_counters [OF p4(1)] counters_trans [OF p4(1)]
        evolves_trans [OF p4(2)] by (auto split: sum.splits)
    have run: "groom_item E actor k i p = (case out of
          Removed \<Rightarrow> finish_item E actor i False ?p4
        | AlreadyGone \<Rightarrow> finish_item E actor i True ?p4
        | Unreachable message \<Rightarrow> Inr (fail_location k i message (release_claim E i ?p4))
        | Broken message \<Rightarrow> Inl (TargetFailed message, release_claim E i ?p4))"
      by (simp add: groom_item_def t Inr del Let_def)
    show ?thesis
    proof (cases out)
      case (Unreachable message)
      then show ?thesis
        using passed_over_counters [OF rel(1) fail_location_passed [of k i _ message]] rel(2)
        by (simp add: run fail_location_def)
    qed (use fin [of True] fin [of False] rel in \<open>auto simp: run split: sum.splits\<close>)
  qed
qed

lemma apply_item_result:
  "case apply_item E actor k i p of
     Inr q \<Rightarrow> (handled i p q \<or> passed_over k i p q) \<and> evolves (pr_catalog p) (pr_catalog q)
   | Inl (e, q) \<Rightarrow> counters p q \<and> evolves (pr_catalog p) (pr_catalog q)"
proof -
  consider (failed) "item_location i \<in> fst ` set (pr_failed_locations p)"
    | (known) "item_location i \<notin> fst ` set (pr_failed_locations p)" "item_location i \<in> set (pr_targets p)"
    | (fresh) "item_location i \<notin> fst ` set (pr_failed_locations p)" "item_location i \<notin> set (pr_targets p)"
    by blast
  then show ?thesis
  proof cases
    case failed
    then show ?thesis by (simp add: apply_item_def passed_over_def)
  next
    case known
    then show ?thesis using groom_item_result [where E = E and actor = actor and k = k and i = i and p = p] by (simp add: apply_item_def)
  next
    case fresh
    obtain out w where o: "open_target E (item_location i) (pr_world p) = (out, w)"
      by (cases "open_target E (item_location i) (pr_world p)")
    show ?thesis
    proof (cases out)
      case (Inl message)
      then show ?thesis using fresh o by (simp add: apply_item_def fail_location_def passed_over_def)
    next
      case (Inr u)
      let ?q = "p\<lparr>pr_world := w, pr_targets := item_location i # pr_targets p\<rparr>"
      have "counters p ?q" "pr_catalog ?q = pr_catalog p" by (simp_all add: counters_def)
      with groom_item_result [where E = E and actor = actor and k = k and i = i and p = ?q] show ?thesis
        using fresh o Inr by (auto simp: apply_item_def split: sum.splits
            intro: handled_counters passed_over_counters counters_trans)
    qed
  qed
qed

subsection \<open>A whole run of \<open>apply\<close>\<close>

definition recorded :: "catalog \<Rightarrow> plan_item list \<Rightarrow> bool" where
  "recorded c is \<longleftrightarrow> (\<forall>i\<in>set is. \<exists>t\<in>set (tombstones c). tomb_record t = tombstoned_record (item_record i))"

definition first_ok :: "(nat \<times> plan_item \<times> apply_error) option \<Rightarrow> (nat \<times> plan_item) list \<Rightarrow> bool" where
  "first_ok f skipped \<longleftrightarrow> (case f of None \<Rightarrow> skipped = [] | Some (k, i, e) \<Rightarrow> (k, i) \<in> set skipped)"

lemma first_ok_None [simp]: "first_ok None skipped \<longleftrightarrow> skipped = []"
  by (simp add: first_ok_def)

lemma first_ok_Some [simp]: "first_ok (Some (k, i, e)) skipped \<longleftrightarrow> (k, i) \<in> set skipped"
  by (simp add: first_ok_def)

lemma first_ok_append: "first_ok (Some f) skipped \<Longrightarrow> first_ok (Some f) (skipped @ later)"
  by (cases f) simp

definition run_ok :: "(nat \<times> plan_item) list \<Rightarrow> 'w progress \<Rightarrow> bool" where
  "run_ok done p \<longleftrightarrow>
     mset (map snd done) = mset (pr_deleted p) + mset (pr_missing p) + mset (map snd (pr_skipped p)) \<and>
     fst ` set (pr_failed_locations p) = (\<lambda>x. item_location (snd x)) ` set (pr_skipped p) \<and>
     set (pr_skipped p) \<subseteq> set done \<and> distinct (map fst (pr_skipped p)) \<and>
     first_ok (pr_first_failure p) (pr_skipped p) \<and>
     recorded (pr_catalog p) (pr_deleted p @ pr_missing p)"

lemma recorded_evolves: "recorded c is \<Longrightarrow> evolves c c' \<Longrightarrow> recorded c' is"
  unfolding recorded_def using evolves_tombstones by blast

lemma recorded_append [simp]: "recorded c (xs @ ys) \<longleftrightarrow> recorded c xs \<and> recorded c ys"
  by (auto simp: recorded_def)

lemma recorded_Cons: "recorded c (i # is) \<longleftrightarrow> recorded c [i] \<and> recorded c is"
  by (auto simp: recorded_def)

lemma recorded_Nil [simp]: "recorded c []"
  by (simp add: recorded_def)

lemma run_ok_start [simp]: "run_ok [] (start_progress c w)"
  by (simp add: run_ok_def start_progress_def)

lemma run_ok_handled:
  assumes "run_ok done p" "handled i p q" "evolves (pr_catalog p) (pr_catalog q)"
  shows "run_ok (done @ [(k, i)]) q"
proof -
  have rec: "recorded (pr_catalog q) (pr_deleted p @ pr_missing p)" "recorded (pr_catalog q) [i]"
    using assms(1) recorded_evolves [OF _ assms(3), of "pr_deleted p @ pr_missing p"] assms(2)
    unfolding run_ok_def handled_def by (blast, simp add: recorded_def)
  note p = assms(1) [unfolded run_ok_def]
  from assms(2) consider
      (deleted) "pr_deleted q = pr_deleted p @ [i]" "pr_missing q = pr_missing p"
    | (missing) "pr_missing q = pr_missing p @ [i]" "pr_deleted q = pr_deleted p"
    by (auto simp: handled_def)
  moreover have "pr_failed_locations q = pr_failed_locations p" "pr_first_failure q = pr_first_failure p"
    "pr_skipped q = pr_skipped p" using assms(2) by (simp_all add: handled_def)
  ultimately show ?thesis
    using p rec unfolding run_ok_def by cases (auto simp: recorded_Cons [of _ _ "_ # _"] recorded_Cons [of _ _ "pr_missing p"])
qed

lemma run_ok_passed_over:
  assumes "run_ok done p" "passed_over k i p q" "evolves (pr_catalog p) (pr_catalog q)" "k \<notin> fst ` set done"
  shows "run_ok (done @ [(k, i)]) q"
proof -
  note p = assms(1) [unfolded run_ok_def]
  have k: "k \<notin> fst ` set (pr_skipped p)" using p assms(4) by auto
  have rec: "recorded (pr_catalog q) (pr_deleted p @ pr_missing p)"
    using p recorded_evolves [OF _ assms(3), of "pr_deleted p @ pr_missing p"] by blast
  have fields: "pr_deleted q = pr_deleted p" "pr_missing q = pr_missing p" "pr_skipped q = pr_skipped p @ [(k, i)]"
    using assms(2) by (simp_all add: passed_over_def)
  have locs: "fst ` set (pr_failed_locations q) = insert (item_location i) (fst ` set (pr_failed_locations p))"
    using assms(2) by (auto simp: passed_over_def)
  have first: "first_ok (pr_first_failure q) (pr_skipped p @ [(k, i)])"
  proof (cases "pr_first_failure p")
    case None
    then have "pr_skipped p = []" using p by simp
    then have "pr_failed_locations p = []" using p by simp
    with None assms(2) show ?thesis by (auto simp: passed_over_def)
  next
    case (Some f)
    with p have "first_ok (Some f) (pr_skipped p)" by simp
    moreover have "pr_first_failure q = Some f" using assms(2) Some by (auto simp: passed_over_def)
    ultimately show ?thesis by (simp only: first_ok_append)
  qed
  show ?thesis
    using p k rec first unfolding run_ok_def fields locs by auto
qed

lemma run_ok_counters:
  assumes "run_ok done p" "counters p q" "evolves (pr_catalog p) (pr_catalog q)"
  shows "run_ok done q"
proof -
  have "recorded (pr_catalog q) (pr_deleted p @ pr_missing p)"
    using assms(1) recorded_evolves [OF _ assms(3), of "pr_deleted p @ pr_missing p"] unfolding run_ok_def by blast
  with assms(1,2) show ?thesis by (simp add: run_ok_def counters_def)
qed

lemma mset_without_first:
  assumes "distinct (map fst xs)" "(k, i) \<in> set xs"
  shows "mset (map snd xs) = add_mset i (mset (map snd (filter (\<lambda>(j, i). j \<noteq> k) xs)))"
  using assms
proof (induction xs)
  case (Cons x xs)
  have "filter (\<lambda>(j, i). j \<noteq> k) xs = xs" if "k \<notin> fst ` set xs"
    using that by (force simp: filter_id_conv)
  with Cons show ?case by (cases x) (auto simp: image_iff simp del: mset_filter)
qed simp

definition not_done :: "apply_result \<Rightarrow> plan_item multiset" where
  "not_done r = mset (case res_failed r of None \<Rightarrow> [] | Some i \<Rightarrow> [i]) + mset (res_not_attempted r)"

definition result_ok :: "(nat \<times> plan_item) list \<Rightarrow> apply_result \<times> 'w progress \<Rightarrow> bool" where
  "result_ok all rp \<longleftrightarrow> (case rp of (r, p) \<Rightarrow>
     mset (map snd all) = mset (res_deleted r) + mset (res_missing r) + not_done r \<and>
     fst ` set (res_failed_locations r) \<subseteq> item_location ` set_mset (not_done r) \<and>
     recorded (pr_catalog p) (res_deleted r @ res_missing r))"

lemma apply_loop_ok:
  assumes "run_ok done p" "distinct (map fst (done @ todo))"
  shows "result_ok (done @ todo) (apply_loop E actor todo p)"
  using assms
proof (induction todo arbitrary: "done" p)
  case Nil
  obtain r where r: "apply_loop E actor [] p = (r, p)" "res_deleted r = pr_deleted p" "res_missing r = pr_missing p"
      "res_failed_locations r = pr_failed_locations p"
    and failed: "res_failed r = map_option (\<lambda>(k, i, e). i) (pr_first_failure p)"
    and rest: "res_not_attempted r = map snd (filter (\<lambda>(j, i). case pr_first_failure p of None \<Rightarrow> True | Some (k, _) \<Rightarrow> j \<noteq> k) (pr_skipped p))"
    by simp
  have nd: "not_done r = mset (map snd (pr_skipped p))"
  proof (cases "pr_first_failure p")
    case None
    then show ?thesis using Nil by (simp add: not_done_def failed rest run_ok_def)
  next
    case (Some f)
    obtain k i e where f: "f = (k, i, e)" by (cases f)
    have "mset (map snd (pr_skipped p)) = add_mset i (mset (map snd (filter (\<lambda>(j, i). j \<noteq> k) (pr_skipped p))))"
      using Nil(1) by (intro mset_without_first) (auto simp: run_ok_def Some f)
    then show ?thesis by (simp add: not_done_def failed rest Some f)
  qed
  have "set_mset (not_done r) = snd ` set (pr_skipped p)" by (simp add: nd)
  with Nil(1) show ?case
    unfolding r(1) result_ok_def prod.case r(2-4) append_Nil2 by (simp add: run_ok_def nd image_image)
next
  case (Cons x todo)
  obtain k i where x: "x = (k, i)" by (cases x)
  note item = apply_item_result [where E = E and actor = actor and k = k and i = i and p = p]
  have k: "k \<notin> fst ` set done" using Cons.prems(2) by (auto simp: x image_iff)
  show ?case
  proof (cases "apply_item E actor k i p")
    case (Inl s)
    obtain e q where s: "s = (e, q)" by (cases s)
    from item Inl s have "run_ok done q" by (auto intro: run_ok_counters [OF Cons.prems(1)])
    then show ?thesis
      by (auto simp: x Inl s result_ok_def not_done_def run_ok_def image_Un image_image)
  next
    case (Inr q)
    from item Inr have "run_ok (done @ [(k, i)]) q"
      using run_ok_handled [OF Cons.prems(1)] run_ok_passed_over [OF Cons.prems(1) _ _ k] by auto
    from Cons.IH [OF this] Cons.prems(2) show ?thesis by (simp add: x Inr)
  qed
qed

lemma apply_plan_ok: "result_ok (enumerate 0 (plan_items pl)) (apply_plan E actor pl c w)"
  unfolding apply_plan_def
  using apply_loop_ok [of "[]" "start_progress c w" "enumerate 0 (plan_items pl)" E actor] by simp

lemma location_complete_not_done:
  assumes "fst ` set (res_failed_locations r) \<subseteq> item_location ` set_mset (not_done r)"
  shows "location_complete r loc \<longleftrightarrow> filter_mset (\<lambda>i. item_location i = loc) (not_done r) = {#}"
proof -
  have nd: "set_mset (not_done r) = set_option (res_failed r) \<union> set (res_not_attempted r)"
    by (cases "res_failed r") (simp_all add: not_done_def)
  have "loc \<in> fst ` set (res_failed_locations r) \<Longrightarrow> \<exists>i\<in>set_mset (not_done r). item_location i = loc"
    using assms by (metis imageE subsetD)
  then show ?thesis
    unfolding location_complete_def filter_mset_eq_mempty_iff nd
    by (cases "res_failed r") (auto simp: list_ex_iff)
qed

subsection \<open>A run that nobody disturbs\<close>

definition quiet :: "'w environment \<Rightarrow> bool" where
  "quiet E \<longleftrightarrow> (\<forall>w. fst (meanwhile E w) = [])"

lemma quiet_others: "quiet E \<Longrightarrow> pr_catalog (others E p) = pr_catalog p"
  by (cases "meanwhile E (pr_world p)") (auto simp: quiet_def others_def dest: spec [of _ "pr_world p"])

lemma tick_catalog: "tick E p = (t, q) \<Longrightarrow> pr_catalog q = pr_catalog p"
  using tick_counters by blast

text \<open>What one item does to the lookups and claims: removed when handled, otherwise as before.\<close>

definition deletable :: "catalog \<Rightarrow> artifact \<Rightarrow> bool" where
  "deletable c a \<longleftrightarrow> \<not> art_preserved a \<and> \<not> is_deletion_claimed c (art_id a) \<and> \<not> newest_verified c a"

lemma claim_deletable:
  assumes "claim_deletion a actor now True c = Inr c'"
  shows "deletable c a"
  using claim_deletion_Inr [OF assms] claim_deletion_effect [OF assms]
  by (auto simp: deletable_def newest_verified_def dest: find_row_SomeD)

definition item_effect :: "plan_item \<Rightarrow> 'w progress \<Rightarrow> (apply_error \<times> 'w progress) + 'w progress \<Rightarrow> bool" where
  "item_effect i p out = (case out of
     Inr q \<Rightarrow> is_deletion_claimed (pr_catalog q) = is_deletion_claimed (pr_catalog p) \<and>
       (if pr_skipped q = pr_skipped p
        then get_artifact (pr_catalog q) = (get_artifact (pr_catalog p))(art_id (item_record i) := None) \<and>
             get_artifact (pr_catalog p) (art_id (item_record i)) = Some (item_record i) \<and>
             deletable (pr_catalog p) (item_record i)
        else get_artifact (pr_catalog q) = get_artifact (pr_catalog p))
   | Inl (e, q) \<Rightarrow> get_artifact (pr_catalog q) = get_artifact (pr_catalog p))"

lemma finish_item_effect:
  assumes quiet: "quiet E" and inv: "cat_inv (pr_catalog p)" and sk: "pr_skipped p' = pr_skipped p"
    and claim: "claim_deletion (item_record i) actor' now True (pr_catalog p) = Inr (pr_catalog p')"
  shows "item_effect i p (finish_item E actor i gone p')"
proof -
  let ?reason = "kind_text (item_kind i) @ '': '' @ item_reason i @ (if gone then ''; object was already missing'' else '''')"
  obtain t p1 where t: "tick E p' = (t, p1)" by (cases "tick E p'")
  let ?p2 = "others E p1"
  have c2: "pr_catalog ?p2 = pr_catalog p'" "pr_skipped ?p2 = pr_skipped p"
    using quiet_others [OF quiet] tick_counters [OF t] others_counters [of p1 E] sk by (simp_all add: counters_def)
  have run: "finish_item E actor i gone p' =
      (case record_deletion (art_id (item_record i)) ?reason actor t (Some (item_record i)) (pr_catalog p') of
         Inl e \<Rightarrow> Inl (CatalogRefused e, ?p2)
       | Inr (c, _) \<Rightarrow> Inr (if gone then ?p2\<lparr>pr_catalog := c, pr_missing := pr_missing ?p2 @ [i]\<rparr>
                          else ?p2\<lparr>pr_catalog := c, pr_deleted := pr_deleted ?p2 @ [i]\<rparr>))"
    unfolding finish_item_def Let_def t prod.case c2(1) ..
  note claimed = catalog_store.claim_ok [OF inv claim]
  show ?thesis
  proof (cases "record_deletion (art_id (item_record i)) ?reason actor t (Some (item_record i)) (pr_catalog p')")
    case (Inl e)
    then show ?thesis using claimed c2 by (simp add: run item_effect_def)
  next
    case (Inr x)
    obtain c u where x: "x = (c, u)" by (cases x)
    from catalog_store.claim_delete [OF inv claim Inr [unfolded x]] claim_deletable [OF claim] show ?thesis
      using c2 unfolding run Inr x sum.case prod.case by (simp add: item_effect_def)
  qed
qed

lemma groom_item_effect:
  assumes quiet: "quiet E" and inv: "cat_inv (pr_catalog p)"
  shows "item_effect i p (groom_item E actor k i p)"
proof -
  obtain t p1 where t: "tick E p = (t, p1)" by (cases "tick E p")
  let ?p2 = "others E p1"
  have c2: "pr_catalog ?p2 = pr_catalog p" "pr_skipped ?p2 = pr_skipped p"
    using quiet_others [OF quiet] tick_counters [OF t] others_counters [of p1 E] by (simp_all add: counters_def)
  show ?thesis
  proof (cases "claim_deletion (item_record i) actor t True (pr_catalog p)")
    case (Inl e)
    then show ?thesis using c2 by (simp add: groom_item_def t item_effect_def)
  next
    case (Inr c)
    obtain out w where del: "delete_object E (item_location i) (art_name (item_record i)) (pr_world ?p2) = (out, w)"
      by (cases "delete_object E (item_location i) (art_name (item_record i)) (pr_world ?p2)")
    let ?p4 = "?p2\<lparr>pr_catalog := c, pr_world := w\<rparr>"
    have run: "groom_item E actor k i p = (case out of
          Removed \<Rightarrow> finish_item E actor i False ?p4
        | AlreadyGone \<Rightarrow> finish_item E actor i True ?p4
        | Unreachable message \<Rightarrow> Inr (fail_location k i message (release_claim E i ?p4))
        | Broken message \<Rightarrow> Inl (TargetFailed message, release_claim E i ?p4))"
      by (simp add: groom_item_def t Inr c2 del Let_def)
    have claim: "claim_deletion (item_record i) actor t True (pr_catalog p) = Inr (pr_catalog ?p4)"
      using Inr by simp
    have fin: "item_effect i p (finish_item E actor i gone ?p4)" for gone
      by (rule finish_item_effect [OF quiet inv _ claim]) (simp add: c2)
    have rel: "pr_catalog (release_claim E i ?p4) = release_deletion (art_id (item_record i)) c"
      by (simp add: release_claim_def quiet_others [OF quiet])
    note released = catalog_store.claim_release [OF inv Inr]
    have sk: "pr_skipped (release_claim E i ?p4) = pr_skipped p"
      using release_claim_counters [of ?p4 E i] c2 by (simp add: counters_def)
    show ?thesis
      using fin released by (cases out) (simp_all add: run item_effect_def rel sk fail_location_def)
  qed
qed

lemma apply_item_effect:
  assumes quiet: "quiet E" and inv: "cat_inv (pr_catalog p)"
  shows "item_effect i p (apply_item E actor k i p)"
proof -
  obtain out w where o: "open_target E (item_location i) (pr_world p) = (out, w)"
    by (cases "open_target E (item_location i) (pr_world p)")
  let ?q = "p\<lparr>pr_world := w, pr_targets := item_location i # pr_targets p\<rparr>"
  have "item_effect i p (groom_item E actor k i p)"
    by (rule groom_item_effect [OF quiet inv])
  moreover have "item_effect i p (groom_item E actor k i ?q)"
  proof -
    have "item_effect i ?q res = item_effect i p res" for res :: "(apply_error \<times> 'a progress) + 'a progress"
      by (cases res) (simp_all add: item_effect_def)
    with groom_item_effect [of E ?q i actor k] quiet inv show ?thesis by simp
  qed
  moreover have "item_effect i p (Inr (p\<lparr>pr_skipped := pr_skipped p @ [(k, i)]\<rparr>))"
    "item_effect i p (Inr (fail_location k i message (p\<lparr>pr_world := w\<rparr>)))" for message
    by (simp_all add: item_effect_def fail_location_def)
  ultimately show ?thesis
    by (cases out) (simp_all add: apply_item_def o)
qed

lemma option_eqI: "(\<And>k. (x = Some k) = (y = Some k)) \<Longrightarrow> x = y"
  by (cases x; cases y) auto

definition handled_ids :: "'w progress \<Rightarrow> string set" where
  "handled_ids p = (\<lambda>i. art_id (item_record i)) ` set (pr_deleted p @ pr_missing p)"

text \<open>The newest verified copy depends only on the lookups, and survives the removal of another one.\<close>

lemma newest_verified_id_iff:
  assumes inv: "cat_inv c"
  shows "newest_verified_id c cls location = Some i \<longleftrightarrow>
    (\<exists>a. get_artifact c i = Some a \<and> art_class a = cls \<and> art_location a = location \<and> art_verified a \<and>
      (\<forall>j b. get_artifact c j = Some b \<longrightarrow> art_class b = cls \<longrightarrow> art_location b = location \<longrightarrow> art_verified b \<longrightarrow>
        art_key b \<le> art_key a))" (is "?l \<longleftrightarrow> ?r")
proof
  assume ?l
  from newest_verified_id_Some [OF this] obtain r where r: "r \<in> set (verified_in c cls location)" "row_id r = i"
    "\<And>s. s \<in> set (verified_in c cls location) \<Longrightarrow> row_key s \<le> row_key r" by blast
  then have "get_artifact c i = Some (record_from_row r)"
    using find_row_eq [OF cat_invD(1) [OF inv], of r] by (auto simp: get_artifact_def)
  moreover have "art_key b \<le> row_key r" if b: "get_artifact c j = Some b" "art_class b = cls" "art_location b = location" "art_verified b" for j b
  proof -
    obtain s where s: "find_row c j = Some s" "b = record_from_row s" using b(1) by (auto simp: get_artifact_def)
    with b find_row_SomeD [OF s(1)] r(3) [of s] show ?thesis by auto
  qed
  ultimately show ?r using r(1) by auto
next
  assume ?r
  then obtain a where a: "get_artifact c i = Some a" "art_class a = cls" "art_location a = location" "art_verified a"
    "\<And>j b. get_artifact c j = Some b \<Longrightarrow> art_class b = cls \<Longrightarrow> art_location b = location \<Longrightarrow> art_verified b \<Longrightarrow> art_key b \<le> art_key a"
    by blast
  obtain r where r: "find_row c i = Some r" "a = record_from_row r" using a(1) by (auto simp: get_artifact_def)
  then have mem: "r \<in> set (verified_in c cls location)" using a find_row_SomeD [OF r(1)] by auto
  then obtain k where k: "newest_verified_id c cls location = Some k"
    using newest_verified_id_None [of c cls location] by fastforce
  from newest_verified_id_Some [OF k] obtain s where s: "s \<in> set (verified_in c cls location)" "row_id s = k" "row_key r \<le> row_key s"
    using mem by blast
  have "get_artifact c k = Some (record_from_row s)"
    using s find_row_eq [OF cat_invD(1) [OF inv], of s] by (auto simp: get_artifact_def)
  from a(5) [OF this] s have "row_key s \<le> row_key r" by (simp add: r)
  with s have "row_id r = k" by (auto simp: row_key_def)
  then show ?l using k find_row_SomeD [OF r(1)] by simp
qed

lemma newest_verified_id_removal:
  assumes inv: "cat_inv c" "cat_inv c'" and get: "get_artifact c' = (get_artifact c)(i := None)"
    and not_newest: "\<And>a. get_artifact c i = Some a \<Longrightarrow> \<not> newest_verified c a"
  shows "newest_verified_id c' cls location = newest_verified_id c cls location"
proof -
  have keeps: "newest_verified_id c' cls location = Some k" if k: "newest_verified_id c cls location = Some k" for k
  proof -
    from k obtain a where a: "get_artifact c k = Some a" "art_class a = cls" "art_location a = location"
      unfolding newest_verified_id_iff [OF inv(1)] by blast
    have "art_id a = k" using a(1) by (auto simp: get_artifact_def dest: find_row_SomeD)
    with not_newest [of a] a k have "k \<noteq> i" by (auto simp: newest_verified_def)
    with k show ?thesis
      unfolding newest_verified_id_iff [OF inv(1)] newest_verified_id_iff [OF inv(2)] get
      by (elim exE) (rule exI, auto)
  qed
  show ?thesis
  proof (cases "newest_verified_id c' cls location")
    case None
    with keeps show ?thesis by (cases "newest_verified_id c cls location") auto
  next
    case (Some k)
    then obtain a where a: "get_artifact c k = Some a" "art_class a = cls" "art_location a = location" "art_verified a"
      unfolding newest_verified_id_iff [OF inv(2)] get by (auto split: if_splits)
    obtain r where r: "find_row c k = Some r" "a = record_from_row r" using a(1) by (auto simp: get_artifact_def)
    then have "r \<in> set (verified_in c cls location)" using a find_row_SomeD [OF r(1)] by auto
    then have "newest_verified_id c cls location \<noteq> None"
      using newest_verified_id_None [of c cls location] by fastforce
    with keeps Some show ?thesis by auto
  qed
qed

definition undisturbed :: "catalog \<Rightarrow> 'w progress \<Rightarrow> bool" where
  "undisturbed c p \<longleftrightarrow> cat_inv (pr_catalog p) \<and>
     get_artifact (pr_catalog p) = (\<lambda>j. if j \<in> handled_ids p then None else get_artifact c j) \<and>
     is_deletion_claimed (pr_catalog p) = is_deletion_claimed c \<and>
     newest_verified_id (pr_catalog p) = newest_verified_id c \<and>
     (\<forall>i\<in>set (pr_deleted p @ pr_missing p). get_artifact c (art_id (item_record i)) = Some (item_record i) \<and>
        deletable c (item_record i))"

lemma apply_item_undisturbed:
  assumes quiet: "quiet E" and p: "undisturbed c p" and ok: "apply_item E actor k i p = Inr q"
  shows "undisturbed c q"
proof -
  have inv: "cat_inv (pr_catalog p)" using p by (simp add: undisturbed_def)
  note eff = apply_item_effect [OF quiet inv, of i actor k, unfolded ok item_effect_def sum.case]
  have res: "(handled i p q \<or> passed_over k i p q) \<and> evolves (pr_catalog p) (pr_catalog q)"
    using apply_item_result [where E = E and actor = actor and k = k and i = i and p = p] ok by simp
  then have inv': "cat_inv (pr_catalog q)" using evolves_inv inv by blast
  from res show ?thesis
  proof (elim conjE disjE)
    assume h: "handled i p q"
    then have sk: "pr_skipped q = pr_skipped p" "handled_ids q = insert (art_id (item_record i)) (handled_ids p)"
      "set (pr_deleted q @ pr_missing q) = insert i (set (pr_deleted p @ pr_missing p))"
      by (auto simp: handled_def handled_ids_def)
    have get: "get_artifact (pr_catalog q) = (get_artifact (pr_catalog p))(art_id (item_record i) := None)"
      "get_artifact (pr_catalog p) (art_id (item_record i)) = Some (item_record i)" "deletable (pr_catalog p) (item_record i)"
      "is_deletion_claimed (pr_catalog q) = is_deletion_claimed (pr_catalog p)"
      using eff sk(1) by simp_all
    have "newest_verified_id (pr_catalog q) cls loc = newest_verified_id (pr_catalog p) cls loc" for cls loc
      using get(2,3) by (intro newest_verified_id_removal [OF inv inv' get(1)]) (simp add: deletable_def)
    then have newest: "newest_verified_id (pr_catalog q) = newest_verified_id c"
      using p by (simp add: undisturbed_def fun_eq_iff)
    have c: "get_artifact c (art_id (item_record i)) = Some (item_record i)" "deletable c (item_record i)"
      using get(2,3) p by (auto simp: undisturbed_def deletable_def newest_verified_def split: if_splits)
    have "get_artifact (pr_catalog q) = (\<lambda>j. if j \<in> handled_ids q then None else get_artifact c j)"
      using p by (simp add: get(1) sk(2) undisturbed_def fun_eq_iff)
    then show ?thesis
      using p inv' newest c get(4) unfolding undisturbed_def sk(3) by simp
  next
    assume po: "passed_over k i p q"
    then have sk: "pr_skipped q \<noteq> pr_skipped p" "handled_ids q = handled_ids p"
      "set (pr_deleted q @ pr_missing q) = set (pr_deleted p @ pr_missing p)"
      by (auto simp: passed_over_def handled_ids_def)
    then have get: "get_artifact (pr_catalog q) = get_artifact (pr_catalog p)"
      "is_deletion_claimed (pr_catalog q) = is_deletion_claimed (pr_catalog p)"
      using eff by simp_all
    have "newest_verified_id (pr_catalog q) cls loc = newest_verified_id (pr_catalog p) cls loc" for cls loc
      by (rule option_eqI) (simp only: newest_verified_id_iff [OF inv] newest_verified_id_iff [OF inv'] get)
    then show ?thesis
      using p inv' get unfolding undisturbed_def sk by (simp add: fun_eq_iff)
  qed
qed

lemma apply_loop_undisturbed:
  assumes quiet: "quiet E" and p: "undisturbed c p"
  shows "case apply_loop E actor todo p of (r, q) \<Rightarrow>
    cat_inv (pr_catalog q) \<and>
    get_artifact (pr_catalog q) =
      (\<lambda>j. if j \<in> (\<lambda>i. art_id (item_record i)) ` set (res_deleted r @ res_missing r) then None else get_artifact c j) \<and>
    newest_verified_id (pr_catalog q) = newest_verified_id c \<and>
    (\<forall>i\<in>set (res_deleted r @ res_missing r). get_artifact c (art_id (item_record i)) = Some (item_record i) \<and>
        deletable c (item_record i)) \<and>
    (res_not_attempted r = [] \<and> res_failed r = None \<longrightarrow> is_deletion_claimed (pr_catalog q) = is_deletion_claimed c)"
  using p
proof (induction todo arbitrary: p)
  case Nil
  then show ?case unfolding undisturbed_def handled_ids_def by simp
next
  case (Cons x todo)
  obtain k i where x: "x = (k, i)" by (cases x)
  show ?case
  proof (cases "apply_item E actor k i p")
    case (Inl s)
    obtain e q where s: "s = (e, q)" by (cases s)
    have inv: "cat_inv (pr_catalog p)" using Cons.prems by (simp add: undisturbed_def)
    have q: "counters p q" "evolves (pr_catalog p) (pr_catalog q)"
      using apply_item_result [where E = E and actor = actor and k = k and i = i and p = p] Inl s by simp_all
    have get: "get_artifact (pr_catalog q) = get_artifact (pr_catalog p)"
      using apply_item_effect [OF quiet inv, of i actor k] Inl s by (simp add: item_effect_def)
    have inv': "cat_inv (pr_catalog q)" by (rule evolves_inv [OF q(2) inv])
    have "newest_verified_id (pr_catalog q) cls loc = newest_verified_id (pr_catalog p) cls loc" for cls loc
      by (rule option_eqI) (simp only: newest_verified_id_iff [OF inv] newest_verified_id_iff [OF inv'] get)
    then have "newest_verified_id (pr_catalog q) = newest_verified_id c"
      using Cons.prems by (simp add: undisturbed_def fun_eq_iff)
    then show ?thesis
      using Cons.prems inv' q(1) get by (simp add: x Inl s undisturbed_def handled_ids_def counters_def)
  next
    case (Inr q)
    from Cons.IH [OF apply_item_undisturbed [OF quiet Cons.prems Inr]] show ?thesis
      by (simp add: x Inr)
  qed
qed

subsection \<open>Fewer copies, fewer candidates\<close>

definition newer_set :: "catalog \<Rightarrow> artifact \<Rightarrow> artifact set" where
  "newer_set c a = {b. get_artifact c (art_id b) = Some b \<and> art_class b = art_class a \<and> art_location b = art_location a \<and>
     art_verified b \<and> \<not> art_preserved b \<and> art_key a < art_key b}"

lemma newer_copies_card:
  assumes inv: "cat_inv c"
  shows "newer_copies c a = card (newer_set c a) \<and> finite (newer_set c a)"
proof -
  let ?recs = "map record_from_row (sort_key row_key (group_rows c (art_class a) (art_location a)))"
  let ?new = "filter (\<lambda>b. art_verified b \<and> \<not> art_preserved b \<and> art_key a < art_key b) ?recs"
  have "newer_copies c a = length ?new"
    by (simp add: newer_copies_def filter_map filter_sort)
  moreover have "distinct ?new"
    using group_records_distinct [OF inv, of "art_class a" "art_location a"] by (metis distinct_filter distinct_map)
  moreover have "set ?new = newer_set c a"
    unfolding set_filter group_member [OF inv] newer_set_def by auto
  ultimately show ?thesis by (metis List.finite_set distinct_card)
qed

definition sub_catalog :: "catalog \<Rightarrow> catalog \<Rightarrow> bool" where
  "sub_catalog c c' \<longleftrightarrow> (\<forall>j a. get_artifact c j = Some a \<longrightarrow> get_artifact c' j = Some a) \<and>
     is_deletion_claimed c = is_deletion_claimed c' \<and> newest_verified_id c = newest_verified_id c'"

lemma to_delete_mono:
  assumes inv: "cat_inv c" "cat_inv c'" and sub: "sub_catalog c c'" and del: "to_delete m c now a"
  shows "to_delete m c' now a"
proof -
  have "newer_set c a \<subseteq> newer_set c' a"
    using sub by (auto simp: sub_catalog_def newer_set_def)
  then have "newer_copies c a \<le> newer_copies c' a"
    using newer_copies_card [OF inv(1)] newer_copies_card [OF inv(2)] card_mono by metis
  then have past: "past_limit rule c now a \<Longrightarrow> past_limit rule c' now a" for rule
    by (auto simp: past_limit_def split: option.splits)
  have "newest_verified c a = newest_verified c' a" "is_deletion_claimed c = is_deletion_claimed c'"
    using sub by (auto simp: sub_catalog_def newest_verified_def)
  then show ?thesis
    using del past by (auto simp: to_delete_def list_ex_iff split: if_splits)
qed

lemma make_plan_total:
  assumes m: "manager_init rules grace = Inr m" and ok: "list_all (\<lambda>r. retention_rule_init r = Inr r) rules"
  shows "\<exists>p. make_plan m (Aware t) c = Inr p \<and> generated_at p = t"
proof -
  have "\<exists>x. plan_rules c (mgr_grace m) t (sort_key rule_key (mgr_rules m)) = Inr x"
    using ok manager_init_rules [OF m] by (intro plan_rules_total) (auto simp: list_all_iff)
  then show ?thesis by (auto simp: make_plan_def utc_def)
qed

subsection \<open>Lemmas on reconciling\<close>

lemma by_name_None: "by_name objs n = None \<longleftrightarrow> n \<notin> obj_name ` set objs"
  unfolding by_name_def find_None_iff by (simp add: image_iff) metis

lemma by_name_Some: "by_name objs n = Some b \<Longrightarrow> b \<in> set objs \<and> obj_name b = n"
  unfolding by_name_def by (drule find_SomeD) simp

lemma location_member:
  assumes inv: "cat_inv c"
  shows "a \<in> record_from_row ` {r \<in> set (artifacts c). row_location r = loc} \<longleftrightarrow>
    get_artifact c (art_id a) = Some a \<and> art_location a = loc" (is "?l \<longleftrightarrow> ?r")
proof
  assume ?l
  then obtain r where "r \<in> set (artifacts c)" "row_location r = loc" "a = record_from_row r" by blast
  with find_row_eq [OF cat_invD(1) [OF inv], of r] show ?r by (simp add: get_artifact_def)
next
  assume ?r
  then obtain r where "find_row c (art_id a) = Some r" "a = record_from_row r" by (auto simp: get_artifact_def)
  with \<open>?r\<close> find_row_SomeD [of c "art_id a" r] show ?l by auto
qed

lemma list_artifacts_location:
  assumes inv: "cat_inv c" and loc: "validate_location loc = Inr loc"
  shows "\<exists>recs. list_artifacts c None (Some loc) = Inr recs \<and>
    set recs = {a. get_artifact c (art_id a) = Some a \<and> art_location a = loc}"
proof (intro exI conjI)
  let ?recs = "map record_from_row (sort_key row_key (filter (\<lambda>r. (None :: string option) = None \<and> (Some loc = None \<or> Some loc = Some (row_location r))) (artifacts c)))"
  show "list_artifacts c None (Some loc) = Inr ?recs"
    unfolding list_artifacts_def option.case loc by simp
  have "set ?recs = record_from_row ` {r \<in> set (artifacts c). row_location r = loc}" by auto
  then show "set ?recs = {a. get_artifact c (art_id a) = Some a \<and> art_location a = loc}"
    using location_member [OF inv, of _ loc] by blast
qed

lemma list_tombstones_location:
  "validate_location loc = Inr loc \<Longrightarrow> \<exists>ts. list_tombstones c None (Some loc) = Inr ts \<and>
     set ts = {t \<in> set (tombstones c). art_location (tomb_record t) = loc}"
  unfolding list_tombstones_def by auto

definition live_at :: "catalog \<Rightarrow> string \<Rightarrow> artifact set" where
  "live_at c loc = {a. get_artifact c (art_id a) = Some a \<and> art_location a = loc}"

definition tomb_names_at :: "catalog \<Rightarrow> string \<Rightarrow> string set" where
  "tomb_names_at c loc = {art_name (tomb_record t) | t. t \<in> set (tombstones c) \<and> art_location (tomb_record t) = loc}"

lemma reconcile_sets:
  assumes inv: "cat_inv c" and loc: "validate_location loc = Inr loc"
  shows "\<exists>r. reconcile c objs loc = Inr r \<and>
    set (rep_missing r) = {a \<in> live_at c loc. art_name a \<notin> obj_name ` set objs} \<and>
    set (rep_size_mismatch r) = {(a, b). a \<in> live_at c loc \<and> by_name objs (art_name a) = Some b \<and> obj_size b \<noteq> art_size a} \<and>
    set (rep_uncatalogued r) = {b \<in> set objs. obj_name b \<notin> art_name ` live_at c loc \<and> obj_name b \<notin> tomb_names_at c loc} \<and>
    set (rep_tombstoned_present r) = {b \<in> set objs. obj_name b \<notin> art_name ` live_at c loc \<and> obj_name b \<in> tomb_names_at c loc}"
proof -
  obtain recs where recs: "list_artifacts c None (Some loc) = Inr recs" "set recs = live_at c loc"
    using list_artifacts_location [OF inv loc] by (auto simp: live_at_def)
  obtain ts where ts: "list_tombstones c None (Some loc) = Inr ts"
      "set ts = {t \<in> set (tombstones c). art_location (tomb_record t) = loc}"
    using list_tombstones_location [OF loc] by blast
  have names: "(\<lambda>t. art_name (tomb_record t)) ` set ts = tomb_names_at c loc"
    by (auto simp: ts tomb_names_at_def)
  let ?extra = "sort_key obj_name (filter (\<lambda>b. obj_name b \<notin> set (map art_name recs)) objs)"
  let ?r = "\<lparr>rep_location = loc,
      rep_missing = filter (\<lambda>a. by_name objs (art_name a) = None) recs,
      rep_uncatalogued = filter (\<lambda>b. obj_name b \<notin> set (map (\<lambda>t. art_name (tomb_record t)) ts)) ?extra,
      rep_size_mismatch = List.map_filter (\<lambda>a. case by_name objs (art_name a) of None \<Rightarrow> None
        | Some b \<Rightarrow> if obj_size b \<noteq> art_size a then Some (a, b) else None) recs,
      rep_tombstoned_present = filter (\<lambda>b. obj_name b \<in> set (map (\<lambda>t. art_name (tomb_record t)) ts)) ?extra\<rparr>"
  have run: "reconcile c objs loc = Inr ?r"
    unfolding reconcile_def loc recs(1) ts(1) sum.case Let_def ..
  have mism: "set (rep_size_mismatch ?r) = {(a, b). a \<in> live_at c loc \<and> by_name objs (art_name a) = Some b \<and> obj_size b \<noteq> art_size a}"
    unfolding set_eq_iff by (auto simp: in_set_map_filter recs(2) split: option.splits if_splits)
  have "set (rep_missing ?r) = {a \<in> live_at c loc. art_name a \<notin> obj_name ` set objs}"
    by (simp add: by_name_None recs(2))
  moreover have "set (rep_uncatalogued ?r) = {b \<in> set objs. obj_name b \<notin> art_name ` live_at c loc \<and> obj_name b \<notin> tomb_names_at c loc}"
    by (auto simp: names recs(2))
  moreover have "set (rep_tombstoned_present ?r) = {b \<in> set objs. obj_name b \<notin> art_name ` live_at c loc \<and> obj_name b \<in> tomb_names_at c loc}"
    by (auto simp: names recs(2))
  ultimately show ?thesis using run mism by blast
qed

subsection \<open>Properties\<close>

definition sample_rule :: retention_rule where
  "sample_rule = \<lparr>rule_class = ''config'', rule_location = ''local'', keep_count = Some 1, max_age = None\<rparr>"

definition sample_manager :: manager where
  "sample_manager = \<lparr>mgr_rules = [sample_rule], mgr_grace = 0\<rparr>"

text \<open>Targets that delete what they are asked to, and no other thread.\<close>

definition sample_environment :: "unit environment" where
  "sample_environment = \<lparr>open_target = (\<lambda>loc w. (Inr (), w)), delete_object = (\<lambda>loc n w. (Removed, w)),
     read_clock = (\<lambda>w. (Aware 100, w)), meanwhile = (\<lambda>w. ([], w))\<rparr>"

lemma sample_manager_init: "manager_init [sample_rule] 0 = Inr sample_manager"
  by (simp add: manager_init_def sample_manager_def)

lemma sample_rule_ok: "list_all (\<lambda>r. retention_rule_init r = Inr r) [sample_rule]"
  by code_simp

lemma sample_environment_quiet: "quiet sample_environment"
  by (simp add: quiet_def sample_environment_def)

text \<open>C1: A plan from valid rules is always made, and holds exactly the copies that must go: live, unpreserved,
  unclaimed copies of a class and location with a rule that are verified, past a limit of the rule (at least
  \<open>keep_count\<close> newer verified unpreserved copies beside it, or older than \<open>max_age\<close>) and not the newest
  verified copy, or unverified and older than the grace period. The copies a limit hit but the guard kept are
  listed apart; the items are oldest first and no copy is listed twice.\<close>

theorem plan_exact:
  assumes "cat_inv c" "manager_init rules grace = Inr m" "list_all (\<lambda>r. retention_rule_init r = Inr r) rules"
  shows "\<exists>p. make_plan m (Aware t) c = Inr p \<and>
    item_record ` set (plan_items p) = {a. get_artifact c (art_id a) = Some a \<and> to_delete m c t a} \<and>
    item_record ` set (plan_guarded p) = {a. get_artifact c (art_id a) = Some a \<and> to_guard m c t a} \<and>
    sorted (map item_key (plan_items p)) \<and> distinct (map (\<lambda>i. art_id (item_record i)) (plan_items p))"
proof -
  obtain p where p: "make_plan m (Aware t) c = Inr p" "generated_at p = t"
    using make_plan_total [OF assms(2,3)] by blast
  with make_plan_items [OF assms(1) p(1)] distinct_make_plan [OF assms(1,2) p(1)] show ?thesis by auto
qed

lemma plan_exact_witness:
  "\<exists>p. make_plan sample_manager (Aware 30) sample_catalog = Inr p \<and>
    item_record ` set (plan_items p) = {a. get_artifact sample_catalog (art_id a) = Some a \<and> to_delete sample_manager sample_catalog 30 a}"
  using plan_exact [OF sample_catalog_inv sample_manager_init sample_rule_ok, of 30] by blast

text \<open>C32: Whatever the targets, the clock and other threads do, \<open>apply\<close> accounts for every planned item exactly
  once, as deleted, already missing, the failed one or not attempted; a location is reported complete exactly
  when all its planned items were handled; and the catalog holds a tombstone of every handled copy.\<close>

theorem apply_accounts:
  "case apply_plan E actor pl c w of (r, q) \<Rightarrow>
     mset (plan_items pl) = mset (res_deleted r) + mset (res_missing r) + not_done r \<and>
     (\<forall>loc. location_complete r loc =
        (filter_mset (\<lambda>i. item_location i = loc) (mset (plan_items pl)) =
         filter_mset (\<lambda>i. item_location i = loc) (mset (res_deleted r) + mset (res_missing r)))) \<and>
     recorded (pr_catalog q) (res_deleted r @ res_missing r)"
proof -
  obtain r q where rq: "apply_plan E actor pl c w = (r, q)" by (cases "apply_plan E actor pl c w")
  have ok: "mset (plan_items pl) = mset (res_deleted r) + mset (res_missing r) + not_done r"
    "fst ` set (res_failed_locations r) \<subseteq> item_location ` set_mset (not_done r)"
    "recorded (pr_catalog q) (res_deleted r @ res_missing r)"
    using apply_plan_ok [of pl E actor c w] by (simp_all add: rq result_ok_def)
  then show ?thesis
    by (simp add: rq location_complete_not_done [OF ok(2)])
qed

text \<open>C2: A run of \<open>apply\<close> that no other thread disturbs, on any plan: only records equal to their planned one,
  unpreserved, unclaimed and not the newest verified copy of their class and location, are removed; all other
  artifacts stay, and every class keeps its newest verified copy at every location.\<close>

theorem apply_deletes_only_deletable:
  assumes "quiet E" "cat_inv c"
  shows "case apply_plan E actor pl c w of (r, q) \<Rightarrow>
    get_artifact (pr_catalog q) =
      (\<lambda>j. if j \<in> (\<lambda>i. art_id (item_record i)) ` set (res_deleted r @ res_missing r) then None else get_artifact c j) \<and>
    newest_verified_id (pr_catalog q) = newest_verified_id c \<and>
    (\<forall>i\<in>set (res_deleted r @ res_missing r). get_artifact c (art_id (item_record i)) = Some (item_record i) \<and>
        deletable c (item_record i))"
proof -
  have "undisturbed c (start_progress c w)"
    using assms(2) by (simp add: undisturbed_def start_progress_def handled_ids_def)
  from apply_loop_undisturbed [OF assms(1) this, of actor "enumerate 0 (plan_items pl)"] show ?thesis
    unfolding apply_plan_def by (auto split: prod.splits)
qed

lemma apply_deletes_only_deletable_witness:
  "newest_verified_id (pr_catalog (snd (apply_plan sample_environment ''job''
     \<lparr>generated_at = 0, plan_items = [\<lparr>item_record = sample_copy ''new'' 20, item_reason = ''x'', item_kind = Retention\<rparr>],
      plan_guarded = []\<rparr> sample_catalog ()))) = newest_verified_id sample_catalog"
  using apply_deletes_only_deletable [OF sample_environment_quiet sample_catalog_inv, of "''job''"
     "\<lparr>generated_at = 0, plan_items = [\<lparr>item_record = sample_copy ''new'' 20, item_reason = ''x'', item_kind = Retention\<rparr>],
      plan_guarded = []\<rparr>" "()"] by (simp add: case_prod_beta)

text \<open>C33: Grooming converges: after an undisturbed \<open>apply\<close> that handled every item of the plan, planning again
  at the same time with the same rules plans nothing.\<close>

theorem grooming_converges:
  assumes "cat_inv c" "manager_init rules grace = Inr m" "list_all (\<lambda>r. retention_rule_init r = Inr r) rules"
    and "quiet E" "make_plan m (Aware t) c = Inr p" "apply_plan E actor p c w = (r, q)" "apply_complete r"
  shows "\<exists>p'. make_plan m (Aware t) (pr_catalog q) = Inr p' \<and> plan_items p' = []"
proof -
  let ?H = "(\<lambda>i. art_id (item_record i)) ` set (res_deleted r @ res_missing r)"
  have start: "undisturbed c (start_progress c w)"
    using assms(1) by (simp add: undisturbed_def start_progress_def handled_ids_def)
  have q: "cat_inv (pr_catalog q)" "get_artifact (pr_catalog q) = (\<lambda>j. if j \<in> ?H then None else get_artifact c j)"
    "newest_verified_id (pr_catalog q) = newest_verified_id c" "is_deletion_claimed (pr_catalog q) = is_deletion_claimed c"
    using apply_loop_undisturbed [OF assms(4) start, of actor "enumerate 0 (plan_items p)"] assms(6,7)
    by (simp_all add: apply_plan_def apply_complete_def)
  have "not_done r = {#}" using assms(7) by (simp add: not_done_def apply_complete_def)
  then have "mset (plan_items p) = mset (res_deleted r @ res_missing r)"
    using apply_plan_ok [of p E actor c w] assms(6) by (simp add: result_ok_def)
  then have "set (plan_items p) = set (res_deleted r @ res_missing r)" by (rule mset_eq_setD)
  then have H: "?H = art_id ` item_record ` set (plan_items p)"
    by (simp only: image_image)
  obtain p' where p': "make_plan m (Aware t) (pr_catalog q) = Inr p'" "generated_at p' = t"
    using make_plan_total [OF assms(2,3)] by blast
  have gen: "generated_at p = t" using make_plan_items(5) [OF assms(1,5)] by simp
  have sub: "sub_catalog (pr_catalog q) c" using q by (auto simp: sub_catalog_def split: if_splits)
  have "item_record ` set (plan_items p') = {}"
  proof (rule ccontr)
    assume "item_record ` set (plan_items p') \<noteq> {}"
    then obtain a where a: "get_artifact (pr_catalog q) (art_id a) = Some a" "to_delete m (pr_catalog q) t a"
      using make_plan_items(1) [OF q(1) p'(1)] p'(2) by auto
    then have "get_artifact c (art_id a) = Some a" "art_id a \<notin> ?H" using q(2) by (auto split: if_splits)
    moreover from this(1) have "a \<in> item_record ` set (plan_items p)"
      using make_plan_items(1) [OF assms(1,5)] to_delete_mono [OF q(1) assms(1) sub a(2)] gen by simp
    ultimately show False unfolding H by blast
  qed
  with p'(1) show ?thesis by simp
qed

definition sample_plan :: grooming_plan where
  "sample_plan = \<lparr>generated_at = 30, plan_items = [\<lparr>item_record = sample_copy ''old'' 10,
     item_reason = ''beyond keep_count 1 (newest #2)'', item_kind = Retention\<rparr>], plan_guarded = []\<rparr>"

lemma grooming_converges_witness:
  "\<exists>p'. make_plan sample_manager (Aware 30)
      (pr_catalog (snd (apply_plan sample_environment ''job'' sample_plan sample_catalog ()))) = Inr p' \<and> plan_items p' = []"
proof -
  let ?run = "apply_plan sample_environment ''job'' sample_plan sample_catalog ()"
  have "make_plan sample_manager (Aware 30) sample_catalog = Inr sample_plan" by code_simp
  moreover have "apply_complete (fst ?run)" by code_simp
  moreover have "?run = (fst ?run, snd ?run)" by simp
  ultimately show ?thesis
    by (intro grooming_converges [OF sample_catalog_inv sample_manager_init sample_rule_ok sample_environment_quiet])
qed

text \<open>C35: \<open>reconcile\<close> reports exactly the catalogued copies whose object is absent, those whose object has another
  size, the objects nobody catalogued and the objects that were recorded as deleted but are still there.\<close>

theorem reconcile_correct:
  assumes "cat_inv c" "validate_location loc = Inr loc"
  shows "\<exists>r. reconcile c objs loc = Inr r \<and>
    set (rep_missing r) = {a \<in> live_at c loc. art_name a \<notin> obj_name ` set objs} \<and>
    set (rep_size_mismatch r) = {(a, b). a \<in> live_at c loc \<and> by_name objs (art_name a) = Some b \<and> obj_size b \<noteq> art_size a} \<and>
    set (rep_uncatalogued r) = {b \<in> set objs. obj_name b \<notin> art_name ` live_at c loc \<and> obj_name b \<notin> tomb_names_at c loc} \<and>
    set (rep_tombstoned_present r) = {b \<in> set objs. obj_name b \<notin> art_name ` live_at c loc \<and> obj_name b \<in> tomb_names_at c loc} \<and>
    (report_clean r \<longrightarrow> obj_name ` set objs = art_name ` live_at c loc)"
proof -
  obtain r where r: "reconcile c objs loc = Inr r"
    "set (rep_missing r) = {a \<in> live_at c loc. art_name a \<notin> obj_name ` set objs}"
    "set (rep_size_mismatch r) = {(a, b). a \<in> live_at c loc \<and> by_name objs (art_name a) = Some b \<and> obj_size b \<noteq> art_size a}"
    "set (rep_uncatalogued r) = {b \<in> set objs. obj_name b \<notin> art_name ` live_at c loc \<and> obj_name b \<notin> tomb_names_at c loc}"
    "set (rep_tombstoned_present r) = {b \<in> set objs. obj_name b \<notin> art_name ` live_at c loc \<and> obj_name b \<in> tomb_names_at c loc}"
    using reconcile_sets [OF assms] by blast
  moreover have "obj_name ` set objs = art_name ` live_at c loc" if "report_clean r"
  proof -
    have "{a \<in> live_at c loc. art_name a \<notin> obj_name ` set objs} = {}"
      "{b \<in> set objs. obj_name b \<notin> art_name ` live_at c loc \<and> obj_name b \<notin> tomb_names_at c loc} = {}"
      "{b \<in> set objs. obj_name b \<notin> art_name ` live_at c loc \<and> obj_name b \<in> tomb_names_at c loc} = {}"
      using that unfolding r(2,4,5) [symmetric] by (simp_all add: report_clean_def)
    then show ?thesis by blast
  qed
  ultimately show ?thesis by blast
qed

lemma reconcile_correct_witness:
  "\<exists>r. reconcile sample_catalog [\<lparr>obj_name = ''n/old'', obj_size = 7\<rparr>] ''local'' = Inr r \<and>
    set (rep_missing r) = {a \<in> live_at sample_catalog ''local''. art_name a \<notin> {''n/old''}}"
proof -
  have "validate_location ''local'' = Inr ''local''" by code_simp
  from reconcile_correct [OF sample_catalog_inv this, of "[\<lparr>obj_name = ''n/old'', obj_size = 7\<rparr>]"] show ?thesis
    by (elim exE conjE) (rule exI, simp)
qed

end
