(* ===== verification/Slot_Layout.thy ===== *)
theory Slot_Layout
  imports Prelude
begin

text \<open>
  Profile slot matrices, \<open>app/slot_layout.py\<close>: normalising an unchecked value into rows of slot
  numbers and holes, counting the visible slots, and validating the geometry. The lemmas show that
  exactly the legal matrices are accepted, unchanged, and what a validated matrix looks like.
\<close>

type_synonym slot_layout = "int option list list"

datatype layout_error =
    LayoutNotAList
  | RowNotAList
  | BadSlotValue
  | DuplicateSlot
  | NotPositive
  | RowCountMismatch
  | RowLengthMismatch
  | SlotCountMismatch

subsection \<open>Operations\<close>

fun normalize_row :: "int set \<Rightarrow> py_value list \<Rightarrow> layout_error + int option list \<times> int set" where
  "normalize_row seen [] = Inr ([], seen)"
| "normalize_row seen (VNone # vs) =
     (case normalize_row seen vs of Inl e \<Rightarrow> Inl e | Inr (row, seen') \<Rightarrow> Inr (None # row, seen'))"
| "normalize_row seen (VInt n # vs) =
     (if n < 0 then Inl BadSlotValue
      else if n \<in> seen then Inl DuplicateSlot
      else case normalize_row (insert n seen) vs of Inl e \<Rightarrow> Inl e
        | Inr (row, seen') \<Rightarrow> Inr (Some n # row, seen'))"
| "normalize_row seen (_ # vs) = Inl BadSlotValue"

fun normalize_rows :: "int set \<Rightarrow> py_value list \<Rightarrow> layout_error + slot_layout" where
  "normalize_rows seen [] = Inr []"
| "normalize_rows seen (VList vs # rows) =
     (case normalize_row seen vs of Inl e \<Rightarrow> Inl e
      | Inr (row, seen') \<Rightarrow> (case normalize_rows seen' rows of Inl e \<Rightarrow> Inl e | Inr l \<Rightarrow> Inr (row # l)))"
| "normalize_rows seen (_ # rows) = Inl RowNotAList"

definition normalize_slot_layout :: "py_value \<Rightarrow> layout_error + slot_layout option" where
  "normalize_slot_layout v = (case v of
       VNone \<Rightarrow> Inr None
     | VStr s \<Rightarrow> if s = '''' then Inr None else Inl LayoutNotAList
     | VList rows \<Rightarrow> map_sum id Some (normalize_rows {} rows)
     | _ \<Rightarrow> Inl LayoutNotAList)"

definition visible_slot_count :: "slot_layout option \<Rightarrow> int" where
  "visible_slot_count l = (\<Sum>row\<leftarrow>(case l of None \<Rightarrow> [] | Some rows \<Rightarrow> rows). \<Sum>s\<leftarrow>row. if s \<noteq> None then 1 else 0)"

definition validate_slot_layout ::
    "slot_layout option \<Rightarrow> int \<Rightarrow> int \<Rightarrow> int option \<Rightarrow> layout_error + int option" where
  "validate_slot_layout layout rows columns slot_count = (case layout of
       None \<Rightarrow> Inr slot_count
     | Some l \<Rightarrow>
        if rows < 1 \<or> columns < 1 then Inl NotPositive
        else if int (length l) \<noteq> rows then Inl RowCountMismatch
        else if list_ex (\<lambda>row. int (length row) \<noteq> columns) l then Inl RowLengthMismatch
        else let count = visible_slot_count (Some l) in
          (case slot_count of None \<Rightarrow> Inr (Some count)
           | Some n \<Rightarrow> if count \<noteq> n then Inl SlotCountMismatch else Inr (Some n)))"

subsection \<open>Lemmas\<close>

text \<open>The slot numbers of a matrix in reading order, and the value that spells a matrix.\<close>

definition row_slots :: "int option list \<Rightarrow> int list" where
  "row_slots row = List.map_filter id row"

definition layout_slots :: "slot_layout \<Rightarrow> int list" where
  "layout_slots l = concat (map row_slots l)"

fun cell_value :: "int option \<Rightarrow> py_value" where
  "cell_value None = VNone"
| "cell_value (Some n) = VInt n"

definition layout_value :: "slot_layout \<Rightarrow> py_value" where
  "layout_value l = VList (map (\<lambda>row. VList (map cell_value row)) l)"

definition legal_layout :: "slot_layout \<Rightarrow> bool" where
  "legal_layout l \<longleftrightarrow> distinct (layout_slots l) \<and> list_all (\<lambda>n. 0 \<le> n) (layout_slots l)"

lemma cell_value_inject [simp]: "cell_value a = cell_value b \<longleftrightarrow> a = b"
  by (cases a; cases b) auto

lemma map_cell_value_inject [simp]: "map cell_value xs = map cell_value ys \<longleftrightarrow> xs = ys"
  by (rule inj_map_eq_map) (simp add: inj_def)

lemma cell_value_iffs [simp]:
  "VNone = cell_value a \<longleftrightarrow> a = None" "VInt n = cell_value a \<longleftrightarrow> a = Some n"
  "VBool b \<noteq> cell_value a" "VStr t \<noteq> cell_value a" "VList vs \<noteq> cell_value a" "VDict d \<noteq> cell_value a" "VOther \<noteq> cell_value a"
  by (cases a; auto)+

lemma row_slots_simps [simp]:
  "row_slots [] = []" "row_slots (None # row) = row_slots row" "row_slots (Some n # row) = n # row_slots row"
  by (simp_all add: row_slots_def List.map_filter_simps)

lemma layout_slots_simps [simp]:
  "layout_slots [] = []" "layout_slots (row # l) = row_slots row @ layout_slots l"
  by (simp_all add: layout_slots_def)

lemma normalize_row_None:
  "normalize_row seen (VNone # vs) = Inr (row, seen') \<longleftrightarrow>
     (\<exists>row'. row = None # row' \<and> normalize_row seen vs = Inr (row', seen'))"
  by (auto split: sum.splits)

lemma normalize_row_Some:
  "normalize_row seen (VInt n # vs) = Inr (row, seen') \<longleftrightarrow>
     (\<exists>row'. row = Some n # row' \<and> 0 \<le> n \<and> n \<notin> seen \<and> normalize_row (insert n seen) vs = Inr (row', seen'))"
  by (auto split: sum.splits)

lemma normalize_row_iff:
  "normalize_row seen vs = Inr (row, seen') \<longleftrightarrow>
     vs = map cell_value row \<and> distinct (row_slots row) \<and> list_all (\<lambda>n. 0 \<le> n) (row_slots row) \<and>
     set (row_slots row) \<inter> seen = {} \<and> seen' = seen \<union> set (row_slots row)"
proof (induction seen vs arbitrary: row seen' rule: normalize_row.induct)
  case (2 seen vs)
  show ?case
    unfolding normalize_row_None 2 by (cases row) auto
next
  case (3 seen n vs)
  show ?case
  proof (cases "0 \<le> n \<and> n \<notin> seen")
    case True
    then have IH: "normalize_row (insert n seen) vs = Inr (row', seen') \<longleftrightarrow>
        vs = map cell_value row' \<and> distinct (row_slots row') \<and> list_all (\<lambda>n. 0 \<le> n) (row_slots row') \<and>
        set (row_slots row') \<inter> insert n seen = {} \<and> seen' = insert n seen \<union> set (row_slots row')" for row'
      by (intro 3) auto
    show ?thesis
      unfolding normalize_row_Some IH using True by (cases row) auto
  next
    case False
    then show ?thesis unfolding normalize_row_Some by (cases row) auto
  qed
qed (auto elim: cell_value.elims dest: sym)

lemma normalize_rows_iff:
  "normalize_rows seen vs = Inr l \<longleftrightarrow>
     vs = map (\<lambda>row. VList (map cell_value row)) l \<and> legal_layout l \<and> set (layout_slots l) \<inter> seen = {}"
proof (induction seen vs arbitrary: l rule: normalize_rows.induct)
  case (2 seen vs rows)
  show ?case
  proof (cases l)
    case (Cons row l')
    have "normalize_rows seen (VList vs # rows) = Inr (row # l') \<longleftrightarrow>
        (\<exists>seen'. normalize_row seen vs = Inr (row, seen') \<and> normalize_rows seen' rows = Inr l')"
      by (auto split: sum.splits)
    also have "\<dots> \<longleftrightarrow> vs = map cell_value row \<and> distinct (row_slots row) \<and> list_all (\<lambda>n. 0 \<le> n) (row_slots row) \<and>
        set (row_slots row) \<inter> seen = {} \<and> normalize_rows (seen \<union> set (row_slots row)) rows = Inr l'"
      unfolding normalize_row_iff by blast
    also have "\<dots> \<longleftrightarrow> VList vs # rows = map (\<lambda>row. VList (map cell_value row)) (row # l') \<and>
        legal_layout (row # l') \<and> set (layout_slots (row # l')) \<inter> seen = {}"
    proof (cases "normalize_row seen vs")
      case (Inl e)
      then have "\<not> (vs = map cell_value row \<and> distinct (row_slots row) \<and> list_all (\<lambda>n. 0 \<le> n) (row_slots row) \<and>
          set (row_slots row) \<inter> seen = {})"
        using normalize_row_iff [of seen vs row "seen \<union> set (row_slots row)"] by auto
      then show ?thesis by (auto simp: legal_layout_def)
    next
      case (Inr p)
      obtain row' seen' where p: "p = (row', seen')" by (cases p)
      note IH = "2.IH" [OF Inr p [symmetric]]
      show ?thesis
      proof (cases "vs = map cell_value row \<and> distinct (row_slots row) \<and> list_all (\<lambda>n. 0 \<le> n) (row_slots row) \<and>
          set (row_slots row) \<inter> seen = {}")
        case True
        then have "normalize_row seen vs = Inr (row, seen \<union> set (row_slots row))"
          by (simp add: normalize_row_iff)
        with Inr p have "seen' = seen \<union> set (row_slots row)" by (metis Inr_inject prod.inject)
        with IH [of l'] True show ?thesis by (auto simp: legal_layout_def)
      qed (auto simp: legal_layout_def)
    qed
    finally show ?thesis by (simp add: Cons)
  qed (auto split: sum.splits)
qed (auto simp: legal_layout_def)

lemma visible_slot_count_layout: "visible_slot_count (Some l) = int (length (layout_slots l))"
proof -
  have "(\<Sum>s\<leftarrow>row. if s \<noteq> None then 1 else 0) = int (length (row_slots row))" for row
    by (induction row rule: list.induct) (auto simp: row_slots_def List.map_filter_simps)
  then show ?thesis
    by (induction l) (simp_all add: visible_slot_count_def)
qed

subsection \<open>Properties\<close>

text \<open>C40: Normalising accepts exactly the matrices spelled as lists of lists of null and integers whose slot
  numbers are non-negative and all different, and gives back that matrix, holes and row lengths included.\<close>

theorem normalize_slot_layout_exact:
  "normalize_slot_layout v = Inr (Some l) \<longleftrightarrow> v = layout_value l \<and> legal_layout l"
proof -
  have "map_sum id Some (normalize_rows {} rows) = Inr (Some l) \<longleftrightarrow> normalize_rows {} rows = Inr l" for rows
    by (cases "normalize_rows {} rows") auto
  then show ?thesis
    by (cases v) (simp_all add: normalize_slot_layout_def layout_value_def normalize_rows_iff)
qed

text \<open>Validating a matrix succeeds exactly when rows and columns are positive and match it and a given slot
  count is its number of visible slots; that number is the result, and it is at most rows times columns.\<close>

theorem validate_slot_layout_exact:
  "validate_slot_layout (Some l) rows columns slot_count = Inr r \<longleftrightarrow>
     1 \<le> rows \<and> 1 \<le> columns \<and> int (length l) = rows \<and> list_all (\<lambda>row. int (length row) = columns) l \<and>
     (slot_count = None \<or> slot_count = r) \<and> r = Some (int (length (layout_slots l))) \<and>
     int (length (layout_slots l)) \<le> rows * columns"
proof -
  have row: "length (row_slots row) \<le> length row" for row
    by (induction row rule: list.induct) (auto simp: row_slots_def List.map_filter_simps split: option.splits)
  have bound: "int (length (layout_slots l)) \<le> int (length l) * columns" if "list_all (\<lambda>row. int (length row) = columns) l"
    using that
  proof (induction l)
    case (Cons a l)
    then show ?case using row [of a] by (simp add: distrib_right)
  qed simp
  show ?thesis
    using bound by (auto simp: validate_slot_layout_def visible_slot_count_layout list_all_iff list_ex_iff Let_def
        split: option.splits)
qed

end
