(* ===== verification/Combined_Shelf.thy ===== *)
theory Combined_Shelf
  imports Prelude
begin

text \<open>
  Saved state keyed by a combined shelf id, \<open>app/services/combined_shelf_ids.py\<close>: taking such an id
  apart, locating a saved bay on the separate shelves, and the three kinds of warnings. The lemmas
  show that the parts of an id are exact, that a located bay is the only one the stacking order
  allows, and how many warnings there are.
\<close>

subsection \<open>Combined ids and bays\<close>

definition combined_enclosure_parts :: "py_value \<Rightarrow> string list option" where
  "combined_enclosure_parts v = (case v of
       VStr s \<Rightarrow>
        if CHR ''+'' \<notin> set s then None
        else let parts = split_on (CHR ''+'') s in
          if length parts < 2 \<or> length (remdups parts) \<noteq> length parts then None
          else if list_ex (\<lambda>p. p = '''' \<or> p \<noteq> py_strip p \<or> CHR '':'' \<in> set p) parts then None
          else Some parts
     | _ \<Rightarrow> None)"

fun locate_from :: "int \<Rightarrow> int \<Rightarrow> (string \<times> int option) list \<Rightarrow> (string \<times> int) option" where
  "locate_from slot offset [] = None"
| "locate_from slot offset ((m, count) # members) = (case count of
       None \<Rightarrow> None
     | Some n \<Rightarrow> if n \<le> 0 then None
         else if slot < offset + n then Some (m, slot - offset)
         else locate_from slot (offset + n) members)"

definition locate_member_slot :: "int \<Rightarrow> (string \<times> int option) list \<Rightarrow> (string \<times> int) option" where
  "locate_member_slot slot members = (if slot < 0 then None else locate_from slot 0 members)"

subsection \<open>Warnings for saved bay assignments\<close>

definition max_reported_scopes :: nat where "max_reported_scopes = 4"

definition max_reported_bays :: nat where "max_reported_bays = 8"

definition split_since :: string where
  "split_since = ''from before same-model shelves were shown separately (#1000)''"

definition bay_text :: "int \<Rightarrow> string" where
  "bay_text slot = ''bay '' @ two_digits (nat slot)"

definition more_text :: "nat \<Rightarrow> nat \<Rightarrow> string" where
  "more_text n shown = (if n > shown then ''; and '' @ nat_str (n - shown) @ '' more'' else '''')"

definition reported_now :: "int option \<Rightarrow> bool" where
  "reported_now count = (case count of None \<Rightarrow> False | Some n \<Rightarrow> 0 < n)"

text \<open>The scopes to warn about, sorted by id, each with its distinct bays in order.\<close>

definition orphaned_scopes :: "(string \<times> int list) list \<Rightarrow> string list \<Rightarrow> (string \<times> int list) list" where
  "orphaned_scopes scopes offered = sort (map (\<lambda>(i, slots). (i, sort (remdups slots)))
     (filter (\<lambda>(i, slots). i \<notin> set offered \<and> slots \<noteq> [] \<and> combined_enclosure_parts (VStr i) \<noteq> None) scopes))"

definition placement_texts ::
    "(string \<Rightarrow> int \<Rightarrow> bool) \<Rightarrow> (string \<times> int option) list \<Rightarrow> int list \<Rightarrow> string list" where
  "placement_texts has_assignment members slots = List.map_filter (\<lambda>slot.
     case locate_member_slot slot members of None \<Rightarrow> None
     | Some (m, local) \<Rightarrow> Some (bay_text slot @ '' -> '' @ m @ '' '' @ bay_text local @
         (if has_assignment m local then '' (that bay already has a saved assignment)'' else ''''))) slots"

definition scope_warning ::
    "(string \<Rightarrow> int option) \<Rightarrow> (string \<Rightarrow> int \<Rightarrow> bool) \<Rightarrow> string list \<Rightarrow> string \<times> int list \<Rightarrow> string" where
  "scope_warning bay_counts has_assignment reopenable scope = (case scope of (i, slots) \<Rightarrow>
     let parts = (case combined_enclosure_parts (VStr i) of None \<Rightarrow> [] | Some ps \<Rightarrow> ps);
         count = length slots;
         noun = (if count = 1 then ''assignment is'' else ''assignments are'');
         verb = (if count = 1 then ''it is'' else ''they are'');
         lead = nat_str count @ '' saved bay '' @ noun @ '' filed under the combined enclosure '' @ i @ '' '' @
           split_since @ '', so '' @ verb @ '' not applied to the separate shelf views. Nothing was moved.'' @
           (if i \<in> set reopenable then '' That combined view still opens when its id is selected.'' else '''');
         members = map (\<lambda>p. (p, bay_counts p)) parts
     in if \<not> list_all (\<lambda>(p, n). reported_now n) members then
          lead @ '' Not every shelf it joined is reported now ('' @
            join '', '' (map fst (filter (\<lambda>(p, n). \<not> reported_now n) members)) @
            ''), so where each bay belongs is not known. Check each bay before saving its assignment again.''
        else
          (let placements = placement_texts has_assignment members slots;
               unplaced = length (filter (\<lambda>slot. locate_member_slot slot members = None) slots);
               detail = join ''; '' (take max_reported_bays placements) @ more_text (length placements) max_reported_bays;
               tail = (if unplaced \<noteq> 0 then '' '' @ nat_str unplaced @ '' saved '' @
                   (if unplaced = 1 then ''bay lies'' else ''bays lie'') @
                   '' past the last shelf and cannot be placed.'' else '''')
           in lead @ '' Open each shelf and save the assignment again where it belongs: '' @ detail @ ''.'' @ tail))"

definition combined_mapping_warnings ::
    "(string \<times> int list) list \<Rightarrow> string list \<Rightarrow> (string \<Rightarrow> int option) \<Rightarrow> (string \<Rightarrow> int \<Rightarrow> bool) \<Rightarrow> string list \<Rightarrow> string list" where
  "combined_mapping_warnings scopes offered bay_counts has_assignment reopenable =
     (let orphaned = orphaned_scopes scopes offered
      in map (scope_warning bay_counts has_assignment reopenable) (take max_reported_scopes orphaned) @
         (if length orphaned > max_reported_scopes
          then [nat_str (length orphaned - max_reported_scopes) @
                '' more combined enclosures hold saved bay assignments that are not applied.'']
          else []))"

subsection \<open>Warnings for references and history\<close>

definition stale_reference :: "string list \<Rightarrow> string \<Rightarrow> bool" where
  "stale_reference offered i \<longleftrightarrow> i \<notin> set offered \<and>
     (case combined_enclosure_parts (VStr i) of None \<Rightarrow> False | Some parts \<Rightarrow> list_ex (\<lambda>p. p \<in> set offered) parts)"

definition combined_reference_warnings ::
    "string list \<Rightarrow> string list \<Rightarrow> (string \<times> string list) list \<Rightarrow> string list" where
  "combined_reference_warnings offered view_order bindings =
     (let order_ids = sort (remdups (filter (stale_reference offered)
            (map (remove_prefix ''enclosure:'') (filter (starts_with ''enclosure:'') view_order))));
          shown = take max_reported_scopes order_ids
      in (if order_ids = [] then [] else
           [''The saved main-page order names the combined enclosure '' @ join '', '' shown @
            more_text (length order_ids) (length shown) @ '' '' @ split_since @
            ''. That entry is skipped; save the order again in System Setup to place the separate shelves.'']) @
         concat (map (\<lambda>(view_id, ids).
           let stale = sort (remdups (filter (stale_reference offered) ids)); shown = take max_reported_scopes stale
           in if stale = [] then [] else
             [''Storage view '' @ view_id @ '' is bound to the combined enclosure '' @ join '', '' shown @
              more_text (length stale) (length shown) @ '' '' @ split_since @
              ''. Bind it to one of the separate shelves in System Setup.'']) bindings))"

type_synonym history_row = "(string \<times> py_value) list"

definition scope_ids :: "history_row \<Rightarrow> (string \<times> string) option" where
  "scope_ids scope = (case map_of scope ''system_id'' of
       Some (VStr s) \<Rightarrow> (case map_of scope ''enclosure_id'' of Some (VStr e) \<Rightarrow> Some (s, e) | _ \<Rightarrow> None)
     | _ \<Rightarrow> None)"

definition combined_entry :: "history_row \<Rightarrow> (string \<times> string \<times> string \<times> int) option" where
  "combined_entry scope = (case scope_ids scope of None \<Rightarrow> None
     | Some (s, e) \<Rightarrow> if combined_enclosure_parts (VStr e) = None then None
         else Some (s,
           (case map_of scope ''system_label'' of Some (VStr l) \<Rightarrow> if l = '''' then s else l | _ \<Rightarrow> s), e,
           (case map_of scope ''tracked_slots'' of Some (VInt n) \<Rightarrow> n | _ \<Rightarrow> 0)))"

definition split_entries :: "history_row list \<Rightarrow> (string \<times> string \<times> string \<times> int) list" where
  "split_entries scopes =
     (let ids = List.map_filter scope_ids scopes
      in filter (\<lambda>(s, label, e, n). case combined_enclosure_parts (VStr e) of None \<Rightarrow> True
           | Some parts \<Rightarrow> list_all (\<lambda>p. (s, p) \<in> set ids) parts)
         (sort (remdups (List.map_filter combined_entry scopes))))"

text \<open>A warning: the system and the combined id it is about, if any, and its message.\<close>

type_synonym history_warning = "(string \<times> string) option \<times> string"

definition combined_history_scope_warnings :: "history_row list \<Rightarrow> history_warning list" where
  "combined_history_scope_warnings scopes =
     (let split = split_entries scopes
      in map (\<lambda>(s, label, e, n). (Some (s, e),
           ''History for '' @ label @ '' keeps '' @ int_str n @ '' tracked bay'' @ (if n \<noteq> 1 then ''s'' else '''') @
           '' under the combined enclosure '' @ e @ '' '' @ split_since @ ''. New history is recorded under each shelf ('' @
           join '', '' (case combined_enclosure_parts (VStr e) of None \<Rightarrow> [] | Some ps \<Rightarrow> ps) @
           ''); the older rows stay under the combined id and are not shown with either shelf. Nothing was moved.''))
           (take max_reported_scopes split) @
         (if length split > max_reported_scopes
          then [(None, nat_str (length split - max_reported_scopes) @
             '' more combined enclosures keep history under their old combined id.'')] else []))"

subsection \<open>Lemmas\<close>

definition legal_part :: "string \<Rightarrow> bool" where
  "legal_part p \<longleftrightarrow> p \<noteq> '''' \<and> py_strip p = p \<and> CHR '':'' \<notin> set p \<and> CHR ''+'' \<notin> set p"

text \<open>The bays of the members drawn before, and the bay a place has in the combined view.\<close>

definition bays_before :: "(string \<times> int option) list \<Rightarrow> int" where
  "bays_before pre = (\<Sum>(m, c)\<leftarrow>pre. case c of None \<Rightarrow> 0 | Some n \<Rightarrow> n)"

lemma bays_before_simps [simp]:
  "bays_before [] = 0" "bays_before ((m, Some n) # pre) = n + bays_before pre"
  by (simp_all add: bays_before_def)

lemma reported_now_simps [simp]: "reported_now (Some n) \<longleftrightarrow> 0 < n" "\<not> reported_now None"
  by (simp_all add: reported_now_def)

lemma bays_before_nonneg: "list_all (\<lambda>(m, c). reported_now c) pre \<Longrightarrow> 0 \<le> bays_before pre"
  by (induction pre) (auto simp: bays_before_def reported_now_def split: option.splits)

text \<open>A place of a bay counted from an offset, and what it means for the first member.\<close>

definition place_at :: "int \<Rightarrow> int \<Rightarrow> (string \<times> int option) list \<Rightarrow> string \<Rightarrow> int \<Rightarrow> bool" where
  "place_at slot offset members m l \<longleftrightarrow>
     (\<exists>pre n post. members = pre @ (m, Some n) # post \<and> list_all (\<lambda>(m, c). reported_now c) pre \<and>
        0 \<le> l \<and> l < n \<and> slot = offset + bays_before pre + l)"

lemma place_at_Nil [simp]: "\<not> place_at slot offset [] m l"
  by (simp add: place_at_def)

lemma place_at_Cons:
  "place_at slot offset ((m', count) # members) m l \<longleftrightarrow>
     (\<exists>n. m' = m \<and> count = Some n \<and> 0 \<le> l \<and> l < n \<and> slot = offset + l) \<or>
     (\<exists>n. count = Some n \<and> 0 < n \<and> place_at slot (offset + n) members m l)" (is "?l \<longleftrightarrow> ?a \<or> ?b")
proof
  assume ?l
  then obtain pre n post where p: "(m', count) # members = pre @ (m, Some n) # post" "list_all (\<lambda>(m, c). reported_now c) pre"
    "0 \<le> l" "l < n" "slot = offset + bays_before pre + l" by (auto simp: place_at_def)
  show "?a \<or> ?b"
  proof (cases pre)
    case Nil
    with p show ?thesis by auto
  next
    case (Cons x pre')
    with p obtain k where k: "x = (m', Some k)" "count = Some k" "0 < k"
      by (auto simp: reported_now_def split: option.splits)
    with p Cons have "place_at slot (offset + k) members m l"
      unfolding place_at_def by - (rule exI [of _ pre'], rule exI [of _ n], rule exI [of _ post], simp)
    with k show ?thesis by blast
  qed
next
  assume "?a \<or> ?b"
  then show ?l
  proof
    assume ?a
    then obtain n where "m' = m" "count = Some n" "0 \<le> l" "l < n" "slot = offset + l" by blast
    then show ?l unfolding place_at_def
      by - (rule exI [of _ "[]"], rule exI [of _ n], rule exI [of _ members], simp)
  next
    assume ?b
    then obtain k pre n post where k: "count = Some k" "0 < k" "members = pre @ (m, Some n) # post"
      "list_all (\<lambda>(m, c). reported_now c) pre" "0 \<le> l" "l < n" "slot = offset + k + bays_before pre + l"
      unfolding place_at_def by blast
    then show ?l
      unfolding place_at_def
      by - (rule exI [of _ "(m', Some k) # pre"], rule exI [of _ n], rule exI [of _ post], simp)
  qed
qed

lemma place_at_offset: "place_at slot offset members m l \<Longrightarrow> offset \<le> slot"
  unfolding place_at_def using bays_before_nonneg by fastforce

lemma locate_from_iff:
  "offset \<le> slot \<Longrightarrow> locate_from slot offset members = Some (m, l) \<longleftrightarrow> place_at slot offset members m l"
proof (induction slot offset members rule: locate_from.induct)
  case (2 slot offset m' count members)
  show ?case
  proof (cases count)
    case None
    then show ?thesis unfolding place_at_Cons by simp
  next
    case (Some n)
    consider "n \<le> 0" | "0 < n" "slot < offset + n" | "0 < n" "offset + n \<le> slot" by linarith
    then show ?thesis
    proof cases
      case 1
      then show ?thesis unfolding place_at_Cons by (auto simp: Some)
    next
      case 2
      then have "\<not> place_at slot (offset + n) members m l" using place_at_offset by fastforce
      then show ?thesis unfolding place_at_Cons using 2 \<open>offset \<le> slot\<close> by (auto simp: Some)
    next
      case 3
      then have "locate_from slot (offset + n) members = Some (m, l) \<longleftrightarrow> place_at slot (offset + n) members m l"
        by (intro "2.IH" [OF Some]) auto
      then show ?thesis unfolding place_at_Cons using 3 by (auto simp: Some)
    qed
  qed
qed simp

subsection \<open>Properties\<close>

text \<open>A text is taken apart into shelf ids exactly when it is the ids joined by plus signs, at least two,
  all different, each non-empty, without surrounding space, colon or plus sign.\<close>

theorem combined_enclosure_parts_exact:
  "combined_enclosure_parts (VStr s) = Some parts \<longleftrightarrow>
     s = join ''+'' parts \<and> 2 \<le> length parts \<and> distinct parts \<and> list_all legal_part parts"
proof
  assume "combined_enclosure_parts (VStr s) = Some parts"
  then have p: "parts = split_on (CHR ''+'') s" "2 \<le> length parts" "length (remdups parts) = length parts"
    "\<not> list_ex (\<lambda>p. p = '''' \<or> p \<noteq> py_strip p \<or> CHR '':'' \<in> set p) parts"
    by (auto simp: combined_enclosure_parts_def Let_def split: if_splits)
  moreover have "CHR ''+'' \<notin> set q" if "q \<in> set parts" for q
    using that split_on_parts by (simp add: p(1))
  ultimately show "s = join ''+'' parts \<and> 2 \<le> length parts \<and> distinct parts \<and> list_all legal_part parts"
    by (auto simp: legal_part_def list_all_iff list_ex_iff)
next
  assume a: "s = join ''+'' parts \<and> 2 \<le> length parts \<and> distinct parts \<and> list_all legal_part parts"
  then have split: "split_on (CHR ''+'') s = parts"
    using split_on_join [of parts "CHR ''+''"] by (cases "parts = []") (auto simp: legal_part_def list_all_iff)
  have "CHR ''+'' \<in> set s"
  proof (cases parts)
    case (Cons p ps)
    with a show ?thesis by (cases ps) auto
  qed (use a in simp)
  with a split show "combined_enclosure_parts (VStr s) = Some parts"
    by (auto simp: combined_enclosure_parts_def legal_part_def list_all_iff list_ex_iff distinct_remdups_id)
qed

text \<open>A bay of the combined view is located on a shelf exactly when all shelves stacked before that one have
  a known positive bay count and the bay lies inside it, offset by their bays; so every bay has at most one
  place, and an unknown count makes every later bay unlocatable.\<close>

theorem locate_member_slot_exact:
  "locate_member_slot slot members = Some (m, l) \<longleftrightarrow>
     (\<exists>pre n post. members = pre @ (m, Some n) # post \<and> list_all (\<lambda>(m, c). reported_now c) pre \<and>
        0 \<le> l \<and> l < n \<and> slot = bays_before pre + l)"
proof (cases "slot < 0")
  case True
  then show ?thesis
    using bays_before_nonneg by (fastforce simp: locate_member_slot_def)
next
  case False
  then show ?thesis using locate_from_iff [of 0 slot members m l] by (simp add: locate_member_slot_def place_at_def)
qed

text \<open>There is one warning for every combined scope with saved bays that no view offers, in order of their
  ids, up to the bound of four, and one more that counts the rest; bays of scopes still offered never warn.\<close>

theorem combined_mapping_warnings_bounded:
  "let orphans = filter (\<lambda>(i, slots). i \<notin> set offered \<and> slots \<noteq> [] \<and> combined_enclosure_parts (VStr i) \<noteq> None) scopes;
       warnings = combined_mapping_warnings scopes offered bay_counts has_assignment reopenable
   in length warnings = min (length orphans) 4 + (if length orphans > 4 then 1 else 0) \<and>
      (warnings = []) = (orphans = []) \<and>
      take 4 warnings = map (scope_warning bay_counts has_assignment reopenable) (take 4 (orphaned_scopes scopes offered))"
proof -
  let ?orphans = "filter (\<lambda>(i, slots). i \<notin> set offered \<and> slots \<noteq> [] \<and> combined_enclosure_parts (VStr i) \<noteq> None) scopes"
  define os where "os = orphaned_scopes scopes offered"
  have len: "length ?orphans = length os" by (simp add: os_def orphaned_scopes_def)
  then have nil: "?orphans = [] \<longleftrightarrow> os = []" by (simp only: length_0_conv [symmetric])
  let ?f = "scope_warning bay_counts has_assignment reopenable"
  define rest where "rest = (if 4 < length os then [nat_str (length os - 4) @
      '' more combined enclosures hold saved bay assignments that are not applied.''] else [])"
  have w: "combined_mapping_warnings scopes offered bay_counts has_assignment reopenable = map ?f (take 4 os) @ rest"
    unfolding combined_mapping_warnings_def Let_def max_reported_scopes_def os_def [symmetric] rest_def ..
  have rest: "rest = [] \<longleftrightarrow> \<not> 4 < length os" "length rest \<le> 1" by (simp_all add: rest_def)
  have "length rest = (if 4 < length os then 1 else 0)" using rest by (cases rest) auto
  moreover have "take 4 (map ?f (take 4 os) @ rest) = map ?f (take 4 os)" using rest(1) by (cases "4 < length os") simp_all
  moreover have "map ?f (take 4 os) @ rest = [] \<longleftrightarrow> os = []" using rest(1) by (cases os) auto
  ultimately show ?thesis
    unfolding Let_def len nil w by (simp add: min_def os_def)
qed

end
