(* ===== verification/Operation_Bounds.thy ===== *)
theory Operation_Bounds
  imports Prelude
begin

text \<open>
  The bounds of anonymous bulk history reads, \<open>history_service/operation_bounds.py\<close>: the admission
  counter, the validation of a request into a read plan with its projected row counts, the check
  before a storage read, and the counting of returned rows.

  \<open>datetime.fromisoformat\<close> is a parameter, \<open>parse_iso\<close>: the point in time a text denotes and whether
  it had an offset. A plan keeps \<open>since\<close> as that instant instead of its ISO text.
\<close>

subsection \<open>Budgets and errors\<close>

definition allowed_history_metrics :: "string list" where
  "allowed_history_metrics = [''temperature_c'', ''bytes_read'', ''bytes_written'', ''annualized_bytes_read'',
     ''annualized_bytes_written'', ''power_on_hours'']"

definition history_metric_max_limits :: "string \<rightharpoonup> int" where
  "history_metric_max_limits = map_of [(''temperature_c'', 96), (''bytes_read'', 60), (''bytes_written'', 60),
     (''annualized_bytes_read'', 60), (''annualized_bytes_written'', 60), (''power_on_hours'', 60)]"

definition internal_metric_max_limits :: "string \<rightharpoonup> int" where
  "internal_metric_max_limits = history_metric_max_limits(''temperature'' \<mapsto> 96)"

definition max_scopes :: int where "max_scopes = 32"
definition max_targets :: int where "max_targets = 347"
definition max_metrics :: int where "max_metrics = int (length allowed_history_metrics)"
definition max_event_rows :: int where "max_event_rows = 4096"
definition max_returned_rows :: int where "max_returned_rows = 36000"
definition max_history_hours :: int where "max_history_hours = 8760"
definition transit_tolerance_seconds :: int where "transit_tolerance_seconds = 1"
definition max_metric_limit :: int where "max_metric_limit = 96"
definition max_concurrent_reads :: int where "max_concurrent_reads = 4"

datatype bounds_error =
    Shape string
  | Budget string int int

type_synonym 'a bounded = "bounds_error + 'a"

subsection \<open>Admission\<close>

record admission =
  max_concurrency :: int
  in_flight :: int

definition admission_init :: "py_value \<Rightarrow> admission option" where
  "admission_init v = (case v of VInt n \<Rightarrow> if n < 1 then None else Some \<lparr>max_concurrency = n, in_flight = 0\<rparr>
     | _ \<Rightarrow> None)"

definition try_acquire :: "admission \<Rightarrow> bool \<times> admission" where
  "try_acquire a = (if in_flight a \<ge> max_concurrency a then (False, a)
     else (True, a\<lparr>in_flight := in_flight a + 1\<rparr>))"

text \<open>An unbalanced release is a \<open>RuntimeError\<close>.\<close>

definition release_admission :: "admission \<Rightarrow> admission option" where
  "release_admission a = (if in_flight a < 1 then None else Some (a\<lparr>in_flight := in_flight a - 1\<rparr>))"

subsection \<open>Requests\<close>

record history_scope =
  sc_system :: string
  sc_enclosure :: "string option"
  sc_slots :: "int list"

record read_plan =
  rp_scopes :: "history_scope list"
  rp_metrics :: "string list"
  rp_since :: instant
  rp_event_limit :: int
  rp_metric_limit :: int
  rp_window_hours :: int
  rp_scope_count :: int
  rp_target_count :: int
  rp_event_rows :: int
  rp_rows :: int
  rp_returned_rows :: int
  rp_response_bytes :: int

definition metric_max :: "string \<Rightarrow> int" where
  "metric_max k = (case history_metric_max_limits k of None \<Rightarrow> 0 | Some n \<Rightarrow> n)"

definition metric_limits :: "read_plan \<Rightarrow> (string \<times> int) list" where
  "metric_limits p = map (\<lambda>k. (k, min (rp_metric_limit p) (metric_max k))) (rp_metrics p)"

definition budget_metadata :: "read_plan \<Rightarrow> (string \<times> int) list" where
  "budget_metadata p = [(''scope_count'', rp_scope_count p), (''target_count'', rp_target_count p),
     (''projected_event_rows'', rp_event_rows p), (''projected_returned_rows'', rp_rows p),
     (''returned_row_count'', rp_returned_rows p), (''response_bytes'', rp_response_bytes p)]"

definition with_result :: "int \<Rightarrow> int \<Rightarrow> read_plan \<Rightarrow> read_plan" where
  "with_result rows bytes p = p\<lparr>rp_returned_rows := rows, rp_response_bytes := bytes\<rparr>"

definition strict_int :: "py_value \<Rightarrow> string \<Rightarrow> int \<Rightarrow> int \<Rightarrow> int bounded" where
  "strict_int v label lo hi = (case v of
       VInt n \<Rightarrow> if lo \<le> n \<and> n \<le> hi then Inr n
         else Inl (Shape (label @ '' must be an integer from '' @ int_str lo @ '' to '' @ int_str hi @ ''.''))
     | _ \<Rightarrow> Inl (Shape (label @ '' must be an integer from '' @ int_str lo @ '' to '' @ int_str hi @ ''.'')))"

text \<open>What \<open>fromisoformat\<close> gives: the instant its fields denote in their own offset, or in UTC when
  there is none.\<close>

datatype iso_time = NaiveAt instant | AwareAt instant

definition spell_utc :: "string \<Rightarrow> string" where
  "spell_utc s = concat (map (\<lambda>c. if c = CHR ''Z'' then ''+00:00'' else [c]) s)"

definition parse_since :: "(string \<Rightarrow> iso_time option) \<Rightarrow> py_value \<Rightarrow> instant bounded" where
  "parse_since parse_iso v = (case v of
       VStr s \<Rightarrow>
         if py_strip s = '''' then Inl (Shape ''since is required for bulk history reads.'')
         else (case parse_iso (spell_utc (py_strip s)) of
             None \<Rightarrow> Inl (Shape ''since must be a valid timezone-aware timestamp.'')
           | Some (NaiveAt _) \<Rightarrow> Inl (Shape ''since must be timezone-aware.'')
           | Some (AwareAt t) \<Rightarrow> Inr t)
     | _ \<Rightarrow> Inl (Shape ''since is required for bulk history reads.''))"

text \<open>\<open>astimezone(utc)\<close> overflows outside the years 1 to 9999.\<close>

definition since_as_utc :: "instant \<Rightarrow> instant bounded" where
  "since_as_utc t = (if t < - 62135596800000000 \<or> 253402300800000000 \<le> t
     then Inl (Shape ''since must be a valid timezone-aware timestamp.'') else Inr t)"

definition normalize_since :: "(string \<Rightarrow> iso_time option) \<Rightarrow> py_value \<Rightarrow> iso_time \<Rightarrow> (instant \<times> int) bounded" where
  "normalize_since parse_iso v now =
     (case parse_since parse_iso v of Inl e \<Rightarrow> Inl e | Inr t0 \<Rightarrow>
     (case since_as_utc t0 of Inl e \<Rightarrow> Inl e | Inr t \<Rightarrow>
      let current = (case now of NaiveAt i \<Rightarrow> i | AwareAt i \<Rightarrow> i);
          elapsed = current - t;
          maximum = (max_history_hours * 3600 + transit_tolerance_seconds) * 1000000
      in if elapsed < 3600 * 1000000 \<or> elapsed > maximum
         then Inl (Shape (''since must bound history to between 1 and '' @ int_str max_history_hours @ '' hours.''))
         else Inr (t, min (elapsed div (3600 * 1000000)) max_history_hours)))"

fun check_slots :: "py_value list \<Rightarrow> int list bounded" where
  "check_slots [] = Inr []"
| "check_slots (VInt n # vs) =
     (if n < 0 then Inl (Shape ''History slot identifiers must be non-negative integers.'')
      else case check_slots vs of Inl e \<Rightarrow> Inl e | Inr ns \<Rightarrow> Inr (n # ns))"
| "check_slots (_ # vs) = Inl (Shape ''History slot identifiers must be non-negative integers.'')"

definition normalize_scope :: "py_value \<Rightarrow> (history_scope \<times> int) bounded" where
  "normalize_scope v = (case v of
       VDict d \<Rightarrow>
        if list_ex (\<lambda>(k, _). k \<notin> {''system_id'', ''enclosure_id'', ''slots''}) d
          then Inl (Shape ''History scope contains unsupported fields.'')
        else (case map_of d ''system_id'' of
            Some (VStr s) \<Rightarrow>
              if py_strip s = '''' then Inl (Shape ''Each history scope requires system_id.'')
              else (case (case map_of d ''enclosure_id'' of None \<Rightarrow> Inr None | Some VNone \<Rightarrow> Inr None
                       | Some (VStr e) \<Rightarrow> Inr (if py_strip e = '''' then None else Some (py_strip e))
                       | Some _ \<Rightarrow> Inl (Shape ''enclosure_id must be a string or null.'')) of
                  Inl err \<Rightarrow> Inl err
                | Inr enclosure \<Rightarrow> (case map_of d ''slots'' of
                      Some (VList raw) \<Rightarrow>
                        if raw = [] then Inl (Shape ''Each history scope requires at least one slot.'')
                        else if int (length raw) > max_targets then Inl (Budget ''target_count'' (int (length raw)) max_targets)
                        else (case check_slots raw of Inl err \<Rightarrow> Inl err
                          | Inr ns \<Rightarrow> Inr (\<lparr>sc_system = py_strip s, sc_enclosure = enclosure, sc_slots = sort (remdups ns)\<rparr>,
                                          int (length raw)))
                    | _ \<Rightarrow> Inl (Shape ''Each history scope requires at least one slot.'')))
          | _ \<Rightarrow> Inl (Shape ''Each history scope requires system_id.''))
     | _ \<Rightarrow> Inl (Shape ''Each history scope must be an object.''))"

definition scope_identity :: "history_scope \<Rightarrow> string \<times> string option" where
  "scope_identity sc = (sc_system sc, sc_enclosure sc)"

fun normalize_scopes ::
    "int \<Rightarrow> (string \<times> string option) list \<Rightarrow> py_value list \<Rightarrow> history_scope list bounded" where
  "normalize_scopes raw_count identities [] = Inr []"
| "normalize_scopes raw_count identities (v # vs) =
     (case normalize_scope v of Inl e \<Rightarrow> Inl e | Inr (sc, n) \<Rightarrow>
      if raw_count + n > max_targets then Inl (Budget ''target_count'' (raw_count + n) max_targets)
      else if scope_identity sc \<in> set identities
        then Inl (Shape ''Duplicate history scope identities are not allowed.'')
      else (case normalize_scopes (raw_count + n) (scope_identity sc # identities) vs of
          Inl e \<Rightarrow> Inl e | Inr scs \<Rightarrow> Inr (sc # scs)))"

fun normalize_metrics :: "string list \<Rightarrow> py_value list \<Rightarrow> string list bounded" where
  "normalize_metrics seen [] = Inr seen"
| "normalize_metrics seen (VStr k # vs) =
     (if k \<notin> set allowed_history_metrics then Inl (Shape ''metrics contains an unsupported history metric.'')
      else normalize_metrics (if k \<in> set seen then seen else seen @ [k]) vs)"
| "normalize_metrics seen (_ # vs) = Inl (Shape ''metrics contains an unsupported history metric.'')"

definition build_history_read_plan ::
    "(string \<Rightarrow> iso_time option) \<Rightarrow> py_value list \<Rightarrow> py_value list \<Rightarrow> py_value \<Rightarrow> py_value \<Rightarrow> py_value \<Rightarrow> iso_time \<Rightarrow>
     read_plan bounded" where
  "build_history_read_plan parse_iso raw_scopes raw_metrics since event_limit metric_limit now =
     (if raw_scopes = [] then Inl (Shape ''At least one history scope is required.'')
      else if int (length raw_scopes) > max_scopes
        then Inl (Budget ''scope_count'' (int (length raw_scopes)) max_scopes)
      else case normalize_scopes 0 [] raw_scopes of Inl e \<Rightarrow> Inl e | Inr scopes \<Rightarrow>
      if raw_metrics = [] \<or> int (length raw_metrics) > max_metrics
        then Inl (Shape (''metrics must contain between 1 and '' @ int_str max_metrics @ '' entries.''))
      else case normalize_metrics [] raw_metrics of Inl e \<Rightarrow> Inl e | Inr metrics \<Rightarrow>
      (case strict_int event_limit ''event_limit'' 0 max_event_rows of Inl e \<Rightarrow> Inl e | Inr ev \<Rightarrow>
      (case strict_int metric_limit ''metric_limit'' 1 max_metric_limit of Inl e \<Rightarrow> Inl e | Inr ml \<Rightarrow>
      (case normalize_since parse_iso since now of Inl e \<Rightarrow> Inl e | Inr (t, hours) \<Rightarrow>
       let targets = (\<Sum>sc\<leftarrow>scopes. int (length (sc_slots sc)));
           event_rows = targets * ev;
           rows = targets * (ev + (\<Sum>k\<leftarrow>metrics. min ml (metric_max k)))
       in if event_rows > max_event_rows then Inl (Budget ''event_rows'' event_rows max_event_rows)
          else if rows > max_returned_rows then Inl (Budget ''projected_rows'' rows max_returned_rows)
          else Inr \<lparr>rp_scopes = scopes, rp_metrics = metrics, rp_since = t, rp_event_limit = ev, rp_metric_limit = ml,
            rp_window_hours = hours, rp_scope_count = int (length scopes), rp_target_count = targets,
            rp_event_rows = event_rows, rp_rows = rows, rp_returned_rows = 0, rp_response_bytes = 0\<rparr>))))"

fun check_metric_limits :: "int \<Rightarrow> (string \<times> py_value) list \<Rightarrow> int bounded" where
  "check_metric_limits acc [] = Inr acc"
| "check_metric_limits acc ((k, v) # rest) = (case internal_metric_max_limits k of
       None \<Rightarrow> Inl (Shape ''Unsupported history metric.'')
     | Some hi \<Rightarrow> (case strict_int v (k @ '' limit'') 1 hi of Inl e \<Rightarrow> Inl e
         | Inr n \<Rightarrow> check_metric_limits (acc + n) rest))"

definition validate_store_scope_request ::
    "(string \<Rightarrow> iso_time option) \<Rightarrow> py_value list \<Rightarrow> py_value \<Rightarrow> (string \<times> py_value) list \<Rightarrow> py_value \<Rightarrow> iso_time \<Rightarrow>
     instant bounded" where
  "validate_store_scope_request parse_iso raw_slots event_limit limits since now =
     (if raw_slots = [] then Inl (Shape ''Bulk history storage reads require explicit slots.'')
      else if int (length raw_slots) > max_targets
        then Inl (Budget ''target_count'' (int (length raw_slots)) max_targets)
      else case check_slots raw_slots of Inl e \<Rightarrow> Inl e | Inr ns \<Rightarrow>
      (case strict_int event_limit ''event_limit'' 0 max_event_rows of Inl e \<Rightarrow> Inl e | Inr ev \<Rightarrow>
       if limits = [] \<or> int (length limits) > max_metrics
         then Inl (Shape ''Bulk history storage reads require allowlisted metrics.'')
       else (case check_metric_limits 0 limits of Inl e \<Rightarrow> Inl e | Inr metric_rows \<Rightarrow>
         (case normalize_since parse_iso since now of Inl e \<Rightarrow> Inl e | Inr (t, hours) \<Rightarrow>
          let targets = int (card (set ns)); event_rows = targets * ev; rows = targets * (ev + metric_rows)
          in if event_rows > max_event_rows then Inl (Budget ''event_rows'' event_rows max_event_rows)
             else if rows > max_returned_rows then Inl (Budget ''projected_rows'' rows max_returned_rows)
             else Inr t))))"

definition list_length :: "py_value \<Rightarrow> int" where
  "list_length v = (case v of VList xs \<Rightarrow> int (length xs) | _ \<Rightarrow> 0)"

definition count_history_rows :: "(string \<times> py_value) list list \<Rightarrow> int" where
  "count_history_rows histories = (\<Sum>payload\<leftarrow>histories.
     (case map_of payload ''events'' of None \<Rightarrow> 0 | Some v \<Rightarrow> list_length v) +
     (case map_of payload ''metrics'' of Some (VDict d) \<Rightarrow> (\<Sum>(k, v)\<leftarrow>d. list_length v) | _ \<Rightarrow> 0))"

subsection \<open>Lemmas on a plan\<close>

definition legal_scope :: "history_scope \<Rightarrow> bool" where
  "legal_scope sc \<longleftrightarrow> sc_system sc \<noteq> '''' \<and> py_strip (sc_system sc) = sc_system sc \<and> sc_enclosure sc \<noteq> Some '''' \<and>
     sc_slots sc \<noteq> [] \<and> sorted (sc_slots sc) \<and> distinct (sc_slots sc) \<and> list_all (\<lambda>n. 0 \<le> n) (sc_slots sc)"

lemma check_slots_Inr: "check_slots vs = Inr ns \<longleftrightarrow> vs = map VInt ns \<and> list_all (\<lambda>n. 0 \<le> n) ns"
proof (induction vs arbitrary: ns rule: check_slots.induct)
  case (2 n vs)
  show ?case
  proof (cases ns)
    case (Cons m ns')
    then show ?thesis using 2 [of ns'] by (auto split: sum.splits)
  qed (auto split: sum.splits)
qed auto

lemma normalize_scope_legal:
  assumes "normalize_scope v = Inr (sc, n)"
  shows "legal_scope sc \<and> int (length (sc_slots sc)) \<le> n \<and> n \<le> max_targets"
proof -
  from assms obtain d s e raw ns where
    "v = VDict d" "py_strip s \<noteq> ''''" "e \<noteq> Some ''''" "raw \<noteq> []" "\<not> int (length raw) > max_targets"
    "check_slots raw = Inr ns" "sc = \<lparr>sc_system = py_strip s, sc_enclosure = e, sc_slots = sort (remdups ns)\<rparr>"
    "n = int (length raw)"
    by (auto simp: normalize_scope_def split: py_value.splits option.splits if_splits sum.splits)
  then show ?thesis
    by (auto simp: legal_scope_def check_slots_Inr list_all_iff length_remdups_leq)
qed

lemma normalize_scopes_legal:
  "normalize_scopes raw_count identities vs = Inr scs \<Longrightarrow>
     list_all legal_scope scs \<and> length scs = length vs \<and> distinct (map scope_identity scs) \<and>
     set (map scope_identity scs) \<inter> set identities = {} \<and>
     (vs \<noteq> [] \<longrightarrow> raw_count + (\<Sum>sc\<leftarrow>scs. int (length (sc_slots sc))) \<le> max_targets)"
proof (induction vs arbitrary: raw_count identities scs)
  case (Cons v vs)
  obtain sc n scs' where v: "normalize_scope v = Inr (sc, n)" and le: "raw_count + n \<le> max_targets"
    and new: "scope_identity sc \<notin> set identities" and scs: "scs = sc # scs'"
    and rest: "normalize_scopes (raw_count + n) (scope_identity sc # identities) vs = Inr scs'"
    using Cons.prems by (auto split: sum.splits if_splits)
  note n = normalize_scope_legal [OF v]
  have "vs = [] \<Longrightarrow> scs' = []" using rest by simp
  then show ?case using Cons.IH [OF rest] n le new by (cases "vs = []") (auto simp: scs)
qed simp

lemma normalize_metrics_legal:
  "normalize_metrics seen vs = Inr ks \<Longrightarrow> distinct seen \<Longrightarrow> set seen \<subseteq> set allowed_history_metrics \<Longrightarrow>
     distinct ks \<and> set ks \<subseteq> set allowed_history_metrics \<and> (vs \<noteq> [] \<or> seen \<noteq> [] \<longrightarrow> ks \<noteq> [])"
proof (induction seen vs arbitrary: ks rule: normalize_metrics.induct)
  case (2 seen k vs)
  then show ?case by (auto split: if_splits)
qed auto

lemma strict_int_Inr: "strict_int v label lo hi = Inr n \<longleftrightarrow> v = VInt n \<and> lo \<le> n \<and> n \<le> hi"
  by (auto simp: strict_int_def split: py_value.splits if_splits)

lemma normalize_since_Inr:
  assumes "normalize_since parse_iso v now = Inr (t, hours)"
  shows "1 \<le> hours \<and> hours \<le> max_history_hours \<and>
    (\<exists>i. now = NaiveAt i \<or> now = AwareAt i) \<and>
    (let elapsed = (case now of NaiveAt i \<Rightarrow> i | AwareAt i \<Rightarrow> i) - t
     in 3600 * 1000000 \<le> elapsed \<and> elapsed \<le> (max_history_hours * 3600 + transit_tolerance_seconds) * 1000000)"
proof -
  let ?e = "(case now of NaiveAt i \<Rightarrow> i | AwareAt i \<Rightarrow> i) - t"
  have b: "3600 * 1000000 \<le> ?e" "?e \<le> (max_history_hours * 3600 + transit_tolerance_seconds) * 1000000"
    and h: "hours = min (?e div (3600 * 1000000)) max_history_hours"
    using assms by (auto simp: normalize_since_def since_as_utc_def Let_def split: sum.splits if_splits)
  have "1 \<le> ?e div (3600 * 1000000)" using b(1) by (simp add: pos_imp_zdiv_pos_iff zdiv_mono1 [where a = "3600 * 1000000" and b = "3600 * 1000000", simplified])
  then show ?thesis using b h by (cases now) (auto simp: Let_def max_history_hours_def)
qed

lemma sum_list_bound:
  assumes "list_all (\<lambda>x. f x \<le> (b :: int)) xs" "0 \<le> b" "int (length xs) \<le> n"
  shows "(\<Sum>x\<leftarrow>xs. f x) \<le> n * b"
proof -
  have "(\<Sum>x\<leftarrow>xs. f x) \<le> int (length xs) * b"
    using assms(1) by (induction xs) (auto simp: algebra_simps)
  also have "\<dots> \<le> n * b" using assms(2,3) by (intro mult_right_mono) auto
  finally show ?thesis .
qed

definition plan_ok :: "read_plan \<Rightarrow> bool" where
  "plan_ok p \<longleftrightarrow>
     list_all legal_scope (rp_scopes p) \<and> distinct (map scope_identity (rp_scopes p)) \<and>
     rp_scopes p \<noteq> [] \<and> rp_scope_count p = int (length (rp_scopes p)) \<and> rp_scope_count p \<le> max_scopes \<and>
     rp_target_count p = (\<Sum>sc\<leftarrow>rp_scopes p. int (length (sc_slots sc))) \<and> rp_target_count p \<le> max_targets \<and>
     rp_metrics p \<noteq> [] \<and> distinct (rp_metrics p) \<and> set (rp_metrics p) \<subseteq> set allowed_history_metrics \<and>
     0 \<le> rp_event_limit p \<and> rp_event_limit p \<le> max_event_rows \<and>
     1 \<le> rp_metric_limit p \<and> rp_metric_limit p \<le> max_metric_limit \<and>
     1 \<le> rp_window_hours p \<and> rp_window_hours p \<le> max_history_hours \<and>
     rp_event_rows p = rp_target_count p * rp_event_limit p \<and> rp_event_rows p \<le> max_event_rows \<and>
     rp_rows p = rp_target_count p * (rp_event_limit p + (\<Sum>(k, n)\<leftarrow>metric_limits p. n)) \<and> rp_rows p \<le> max_returned_rows"

lemma build_plan_parts:
  assumes "build_history_read_plan parse_iso raw_scopes raw_metrics since event_limit metric_limit now = Inr p"
  shows "raw_scopes \<noteq> [] \<and> int (length raw_scopes) \<le> max_scopes \<and> normalize_scopes 0 [] raw_scopes = Inr (rp_scopes p) \<and>
    raw_metrics \<noteq> [] \<and> normalize_metrics [] raw_metrics = Inr (rp_metrics p) \<and>
    strict_int event_limit ''event_limit'' 0 max_event_rows = Inr (rp_event_limit p) \<and>
    strict_int metric_limit ''metric_limit'' 1 max_metric_limit = Inr (rp_metric_limit p) \<and>
    normalize_since parse_iso since now = Inr (rp_since p, rp_window_hours p) \<and>
    rp_scope_count p = int (length (rp_scopes p)) \<and>
    rp_target_count p = (\<Sum>sc\<leftarrow>rp_scopes p. int (length (sc_slots sc))) \<and>
    rp_event_rows p = rp_target_count p * rp_event_limit p \<and> rp_event_rows p \<le> max_event_rows \<and>
    rp_rows p = rp_target_count p * (rp_event_limit p + (\<Sum>k\<leftarrow>rp_metrics p. min (rp_metric_limit p) (metric_max k))) \<and>
    rp_rows p \<le> max_returned_rows"
  using assms by (auto simp: build_history_read_plan_def Let_def split: if_splits sum.splits)

lemma build_plan_ok:
  assumes "build_history_read_plan parse_iso raw_scopes raw_metrics since event_limit metric_limit now = Inr p"
  shows "plan_ok p"
proof -
  note b = build_plan_parts [OF assms]
  have scopes: "list_all legal_scope (rp_scopes p)" "length (rp_scopes p) = length raw_scopes"
      "distinct (map scope_identity (rp_scopes p))" "(\<Sum>sc\<leftarrow>rp_scopes p. int (length (sc_slots sc))) \<le> max_targets"
    using b normalize_scopes_legal [of 0 "[]" raw_scopes "rp_scopes p"] by simp_all
  have metrics: "distinct (rp_metrics p)" "set (rp_metrics p) \<subseteq> set allowed_history_metrics" "rp_metrics p \<noteq> []"
    using b normalize_metrics_legal [of "[]" raw_metrics "rp_metrics p"] by simp_all
  have "(\<Sum>(k, n)\<leftarrow>metric_limits p. n) = (\<Sum>k\<leftarrow>rp_metrics p. min (rp_metric_limit p) (metric_max k))"
    by (simp add: metric_limits_def o_def)
  moreover have "rp_scopes p \<noteq> []" using b scopes(2) by auto
  ultimately show ?thesis
    using b scopes metrics normalize_since_Inr [of parse_iso since now "rp_since p" "rp_window_hours p"]
    by (auto simp: plan_ok_def strict_int_Inr)
qed

lemma plan_okD:
  assumes "plan_ok p"
  shows "rp_event_rows p = rp_target_count p * rp_event_limit p" "rp_event_rows p \<le> max_event_rows"
    "rp_rows p = rp_target_count p * (rp_event_limit p + (\<Sum>(k, n)\<leftarrow>metric_limits p. n))" "rp_rows p \<le> max_returned_rows"
    "0 \<le> rp_event_limit p" "rp_event_limit p \<le> max_event_rows"
  using assms unfolding plan_ok_def by blast+

text \<open>The rows of one target's history stay within the limits of a plan.\<close>

definition history_within :: "read_plan \<Rightarrow> (string \<times> py_value) list \<Rightarrow> bool" where
  "history_within p payload \<longleftrightarrow>
     (case map_of payload ''events'' of None \<Rightarrow> 0 | Some v \<Rightarrow> list_length v) \<le> rp_event_limit p \<and>
     (case map_of payload ''metrics'' of
        Some (VDict d) \<Rightarrow> map fst d = rp_metrics p \<and> list_all (\<lambda>((k, v), (k', n)). list_length v \<le> n) (zip d (metric_limits p))
      | _ \<Rightarrow> True)"

lemma sum_zip_bound:
  assumes "length d = length ls" "list_all (\<lambda>((k, v), (k', n)). list_length v \<le> n) (zip d ls)"
  shows "(\<Sum>(k, v)\<leftarrow>d. list_length v) \<le> (\<Sum>(k, n)\<leftarrow>ls. n)"
  using assms by (induction d ls rule: list_induct2) auto

lemma metric_max_nonneg: "0 \<le> metric_max k"
  by (auto simp: metric_max_def history_metric_max_limits_def split: option.splits if_splits)

lemma history_within_rows:
  assumes "plan_ok p" "history_within p payload"
  shows "(case map_of payload ''events'' of None \<Rightarrow> 0 | Some v \<Rightarrow> list_length v) +
     (case map_of payload ''metrics'' of Some (VDict d) \<Rightarrow> (\<Sum>(k, v)\<leftarrow>d. list_length v) | _ \<Rightarrow> 0)
     \<le> rp_event_limit p + (\<Sum>(k, n)\<leftarrow>metric_limits p. n)"
proof -
  have "0 \<le> (\<Sum>(k, n)\<leftarrow>metric_limits p. n)"
    using assms(1) metric_max_nonneg by (auto simp: metric_limits_def o_def plan_ok_def intro!: sum_list_nonneg)
  moreover have "(\<Sum>(k, v)\<leftarrow>d. list_length v) \<le> (\<Sum>(k, n)\<leftarrow>metric_limits p. n)"
    if "map_of payload ''metrics'' = Some (VDict d)" for d
  proof (rule sum_zip_bound)
    show "length d = length (metric_limits p)"
      using that assms(2) by (simp add: history_within_def metric_limits_def) (metis length_map)
  qed (use that assms(2) in \<open>simp add: history_within_def\<close>)
  ultimately show ?thesis
    using assms(2) unfolding history_within_def
    by (auto split: option.splits py_value.splits)
qed

lemma card_slots: "distinct ns \<Longrightarrow> card (set ns) = length ns"
  by (simp add: distinct_card)

lemma check_metric_limits_plan:
  "list_all (\<lambda>(k, n). \<exists>hi. internal_metric_max_limits k = Some hi \<and> 1 \<le> n \<and> n \<le> hi) ls \<Longrightarrow>
     check_metric_limits acc (map (\<lambda>(k, n). (k, VInt n)) ls) = Inr (acc + (\<Sum>(k, n)\<leftarrow>ls. n))"
  by (induction ls arbitrary: acc) (auto simp: strict_int_def)

lemma metric_max_allowed:
  "k \<in> set allowed_history_metrics \<Longrightarrow> internal_metric_max_limits k = Some (metric_max k) \<and> 1 \<le> metric_max k"
  by (auto simp: allowed_history_metrics_def internal_metric_max_limits_def history_metric_max_limits_def metric_max_def)

text \<open>The admission counter under any mix of calls; a refused call leaves it as it is.\<close>

datatype admission_call = Acquire | Release

fun admission_run :: "admission_call \<Rightarrow> admission \<Rightarrow> admission" where
  "admission_run Acquire a = snd (try_acquire a)"
| "admission_run Release a = (case release_admission a of None \<Rightarrow> a | Some b \<Rightarrow> b)"

fun admission_held :: "admission_call list \<Rightarrow> admission \<Rightarrow> int" where
  "admission_held [] a = 0"
| "admission_held (Acquire # cs) a = (if fst (try_acquire a) then 1 else 0) + admission_held cs (snd (try_acquire a))"
| "admission_held (Release # cs) a = (case release_admission a of
       None \<Rightarrow> admission_held cs a | Some b \<Rightarrow> admission_held cs b - 1)"

lemma admission_run_fold:
  assumes "0 \<le> in_flight a" "in_flight a \<le> max_concurrency a"
  shows "let b = fold admission_run cs a in max_concurrency b = max_concurrency a \<and>
    0 \<le> in_flight b \<and> in_flight b \<le> max_concurrency b \<and> in_flight b = in_flight a + admission_held cs a"
  using assms
proof (induction cs arbitrary: a)
  case (Cons c cs)
  show ?case
  proof (cases c)
    case Acquire
    let ?b = "snd (try_acquire a)"
    have "0 \<le> in_flight ?b" "in_flight ?b \<le> max_concurrency ?b" using Cons.prems by (auto simp: try_acquire_def)
    from Cons.IH [OF this] show ?thesis by (auto simp: Acquire try_acquire_def Let_def)
  next
    case Release
    show ?thesis
    proof (cases "release_admission a")
      case None
      with Cons show ?thesis by (simp add: Release)
    next
      case (Some b)
      then have "0 \<le> in_flight b" "in_flight b \<le> max_concurrency b" "in_flight b = in_flight a - 1"
          "max_concurrency b = max_concurrency a"
        using Cons.prems by (auto simp: release_admission_def split: if_splits)
      with Cons.IH [OF this(1,2)] show ?thesis by (simp add: Release Some Let_def)
    qed
  qed
qed (simp add: Let_def)

subsection \<open>Properties\<close>

text \<open>An ISO text and a request for the runs below.\<close>

definition sample_iso :: "string \<Rightarrow> iso_time option" where
  "sample_iso s = (if s = ''2026-01-01T00:00:00+00:00'' then Some (AwareAt 1767225600000000) else None)"

definition sample_scope :: py_value where
  "sample_scope = VDict [(''system_id'', VStr '' nas ''), (''enclosure_id'', VNone), (''slots'', VList [VInt 3, VInt 1, VInt 3])]"

definition sample_read_plan :: read_plan where
  "sample_read_plan = \<lparr>rp_scopes = [\<lparr>sc_system = ''nas'', sc_enclosure = None, sc_slots = [1, 3]\<rparr>], rp_metrics = [''bytes_read''],
     rp_since = 1767225600000000, rp_event_limit = 10, rp_metric_limit = 96, rp_window_hours = 24, rp_scope_count = 1,
     rp_target_count = 2, rp_event_rows = 20, rp_rows = 140, rp_returned_rows = 0, rp_response_bytes = 0\<rparr>"

lemma sample_plan_built:
  "build_history_read_plan sample_iso [sample_scope] [VStr ''bytes_read'', VStr ''bytes_read''] (VStr ''2026-01-01T00:00:00Z'')
     (VInt 10) (VInt 96) (AwareAt 1767312000000000) = Inr sample_read_plan"
  by code_simp

text \<open>C28: A request that is accepted stays inside every server-owned budget: the plan has between 1 and 32 scopes
  with different identities and at most 347 distinct targets in all, known metrics without repeats, limits and
  a window in range, and its projected event rows (at most 4096) and returned rows (at most 36000) are exactly
  the targets times the limits.\<close>

theorem plan_within_budgets:
  assumes "build_history_read_plan parse_iso raw_scopes raw_metrics since event_limit metric_limit now = Inr p"
  shows "plan_ok p"
  by (rule build_plan_ok [OF assms])

lemma plan_within_budgets_witness: "plan_ok sample_read_plan"
  by (rule plan_within_budgets [OF sample_plan_built])

text \<open>The projection of a plan is an upper bound: whatever histories a read returns for at most the plan's
  targets, each within the plan's event limit and per-metric limits, the counted rows are at most the
  projected rows.\<close>

theorem returned_rows_bounded:
  assumes "build_history_read_plan parse_iso raw_scopes raw_metrics since event_limit metric_limit now = Inr p"
    and "int (length histories) \<le> rp_target_count p" "list_all (history_within p) histories"
  shows "count_history_rows histories \<le> rp_rows p \<and> count_history_rows histories \<le> max_returned_rows"
proof -
  note ok = build_plan_ok [OF assms(1)]
  let ?b = "rp_event_limit p + (\<Sum>(k, n)\<leftarrow>metric_limits p. n)"
  have "0 \<le> ?b"
    using ok metric_max_nonneg by (auto simp: plan_ok_def metric_limits_def o_def intro!: sum_list_nonneg add_nonneg_nonneg)
  moreover have "count_history_rows histories \<le> rp_target_count p * ?b"
    unfolding count_history_rows_def
    by (rule sum_list_bound) (use assms(2,3) history_within_rows [OF ok] \<open>0 \<le> ?b\<close> in \<open>auto simp: list_all_iff\<close>)
  ultimately show ?thesis using plan_okD(3,4) [OF ok] by simp
qed

lemma returned_rows_bounded_witness:
  "count_history_rows [[(''events'', VList [VOther]), (''metrics'', VDict [(''bytes_read'', VList [VOther, VOther])])]] \<le> rp_rows sample_read_plan"
proof -
  let ?h = "[[(''events'', VList [VOther]), (''metrics'', VDict [(''bytes_read'', VList [VOther, VOther])])]]"
  have "int (length ?h) \<le> rp_target_count sample_read_plan" "list_all (history_within sample_read_plan) ?h"
    by code_simp+
  from returned_rows_bounded [OF sample_plan_built this] show ?thesis by blast
qed

text \<open>The check before a storage read accepts every scope of an accepted plan: its slots, the plan's event
  limit, its per-metric limits and its window, at the same time.\<close>

theorem planned_scope_is_readable:
  assumes "build_history_read_plan parse_iso raw_scopes raw_metrics since event_limit metric_limit now = Inr p"
    and "sc \<in> set (rp_scopes p)"
  shows "validate_store_scope_request parse_iso (map VInt (sc_slots sc)) (VInt (rp_event_limit p))
      (map (\<lambda>(k, n). (k, VInt n)) (metric_limits p)) since now = Inr (rp_since p)"
proof -
  note ok = build_plan_ok [OF assms(1)] and b = build_plan_parts [OF assms(1)]
  have sc: "legal_scope sc" using ok assms(2) by (simp add: plan_ok_def list_all_iff)
  let ?n = "int (length (sc_slots sc))" and ?m = "\<Sum>(k, n)\<leftarrow>metric_limits p. n"
  have le: "?n \<le> rp_target_count p"
  proof -
    have "?n \<le> (\<Sum>sc\<leftarrow>rp_scopes p. int (length (sc_slots sc)))"
      using assms(2) by (intro member_le_sum_list) auto
    then show ?thesis using ok by (simp add: plan_ok_def)
  qed
  have m0: "0 \<le> ?m"
    using ok metric_max_nonneg by (auto simp: plan_ok_def metric_limits_def o_def intro!: sum_list_nonneg)
  have "check_metric_limits 0 (map (\<lambda>(k, n). (k, VInt n)) (metric_limits p)) = Inr ?m"
  proof -
    have "list_all (\<lambda>(k, n). \<exists>hi. internal_metric_max_limits k = Some hi \<and> 1 \<le> n \<and> n \<le> hi) (metric_limits p)"
      using ok metric_max_allowed by (auto simp: plan_ok_def metric_limits_def list_all_iff)
    from check_metric_limits_plan [OF this, of 0] show ?thesis by simp
  qed
  moreover have "length (metric_limits p) \<le> length allowed_history_metrics"
    using ok card_mono [of "set allowed_history_metrics" "set (rp_metrics p)"] card_length [of allowed_history_metrics]
    by (auto simp: plan_ok_def metric_limits_def distinct_card)
  moreover have "?n * rp_event_limit p \<le> max_event_rows"
    using plan_okD [OF ok] mult_right_mono [OF le, of "rp_event_limit p"] by linarith
  moreover have "?n * (rp_event_limit p + ?m) \<le> max_returned_rows"
    using plan_okD [OF ok] m0 mult_right_mono [OF le, of "rp_event_limit p + ?m"] by linarith
  moreover have "check_slots (map VInt (sc_slots sc)) = Inr (sc_slots sc)"
    using sc by (simp add: check_slots_Inr legal_scope_def)
  moreover have "metric_limits p \<noteq> []" using ok by (simp add: plan_ok_def metric_limits_def)
  ultimately show ?thesis
    using sc ok b le
    by (auto simp: validate_store_scope_request_def Let_def strict_int_def plan_ok_def legal_scope_def max_metrics_def
        distinct_card)
qed

lemma planned_scope_is_readable_witness:
  "validate_store_scope_request sample_iso [VInt 1, VInt 3] (VInt 10) [(''bytes_read'', VInt 60)]
     (VStr ''2026-01-01T00:00:00Z'') (AwareAt 1767312000000000) = Inr 1767225600000000"
proof -
  let ?sc = "\<lparr>sc_system = ''nas'', sc_enclosure = None, sc_slots = [1, 3]\<rparr>"
  have "?sc \<in> set (rp_scopes sample_read_plan)" by (simp add: sample_read_plan_def)
  from planned_scope_is_readable [OF sample_plan_built this] show ?thesis
    by (simp add: sample_read_plan_def metric_limits_def metric_max_def history_metric_max_limits_def)
qed

text \<open>From a fresh admission of positive capacity, under any sequence of acquires and releases: the number in
  flight stays between zero and the capacity and equals the granted acquires minus the accepted releases.\<close>

theorem admission_bounded:
  assumes "admission_init (VInt n) = Some a"
  shows "let b = fold admission_run calls a in
    max_concurrency b = n \<and> 0 \<le> in_flight b \<and> in_flight b \<le> n \<and> in_flight b = admission_held calls a \<and>
    (fst (try_acquire b) = (in_flight b < n)) \<and> (release_admission b = None) = (in_flight b = 0)"
proof -
  have "max_concurrency a = n" "in_flight a = 0" "1 \<le> n"
    using assms by (auto simp: admission_init_def split: if_splits)
  with admission_run_fold [of a calls] show ?thesis
    by (auto simp: Let_def try_acquire_def release_admission_def)
qed

lemma admission_bounded_witness:
  "in_flight (fold admission_run [Acquire, Acquire, Acquire, Release] \<lparr>max_concurrency = 2, in_flight = 0\<rparr>) \<le> 2"
proof -
  have "admission_init (VInt 2) = Some \<lparr>max_concurrency = 2, in_flight = 0\<rparr>" by (simp add: admission_init_def)
  from admission_bounded [OF this, of "[Acquire, Acquire, Acquire, Release]"] show ?thesis unfolding Let_def by blast
qed

end
