(* ===== verification/Device_Names.thy ===== *)
theory Device_Names
  imports Prelude
begin

text \<open>
  Device names, GEOM labels and hexadecimal identifiers, from \<open>app/services/parsers.py\<close> and
  \<open>app/config.py\<close>: the regular expressions of these functions as matchers of a prefix of a text, and
  searching as trying every position in turn. A matcher gives the matched text.
\<close>

definition normalize_text :: "string option \<Rightarrow> string option" where
  "normalize_text v = (case v of None \<Rightarrow> None | Some s \<Rightarrow> if py_strip s = '''' then None else Some (py_strip s))"

subsection \<open>Matchers\<close>

definition ascii_letter_digit :: "char \<Rightarrow> bool" where
  "ascii_letter_digit c \<longleftrightarrow> (let n = (of_char c :: nat)
     in (48 \<le> n \<and> n \<le> 57) \<or> (65 \<le> n \<and> n \<le> 90) \<or> (97 \<le> n \<and> n \<le> 122))"

text \<open>A literal under \<open>re.IGNORECASE\<close>, one or more digits after a literal, an optional suffix.\<close>

definition match_literal :: "string \<Rightarrow> string \<Rightarrow> string option" where
  "match_literal p s = (if py_lower (take (length p) s) = p then Some (take (length p) s) else None)"

definition match_digits :: "string \<Rightarrow> string \<Rightarrow> string option" where
  "match_digits p s = (case match_literal p s of None \<Rightarrow> None
     | Some m \<Rightarrow> (let ds = takeWhile ascii_digit (drop (length m) s) in if ds = [] then None else Some (m @ ds)))"

definition then_optional :: "string option \<Rightarrow> string \<Rightarrow> string \<Rightarrow> string option" where
  "then_optional m p s = (case m of None \<Rightarrow> None
     | Some t \<Rightarrow> (case match_digits p (drop (length t) s) of None \<Rightarrow> Some t | Some u \<Rightarrow> Some (t @ u)))"

definition match_class :: "string \<Rightarrow> (char \<Rightarrow> bool) \<Rightarrow> string \<Rightarrow> string option" where
  "match_class p C s = (case match_literal p s of None \<Rightarrow> None
     | Some m \<Rightarrow> (let cs = takeWhile C (drop (length m) s) in if cs = [] then None else Some (m @ cs)))"

fun first_match :: "string option list \<Rightarrow> string option" where
  "first_match [] = None"
| "first_match (None # ms) = first_match ms"
| "first_match (Some m # ms) = Some m"

text \<open>An optional \<open>/dev/\<close> before a match; when the text starts with it, no alternative starts with its
  slash, so it is taken.\<close>

definition after_dev :: "(string \<Rightarrow> string option) \<Rightarrow> string \<Rightarrow> string option" where
  "after_dev f s = (case match_literal ''/dev/'' s of
       None \<Rightarrow> f s
     | Some d \<Rightarrow> map_option (\<lambda>m. d @ m) (f (drop (length d) s)))"

definition match_device :: "string \<Rightarrow> string option" where
  "match_device s = then_optional
     (first_match [match_digits ''da'' s, match_digits ''ada'' s, match_digits ''sd'' s, match_digits ''nvd'' s,
        then_optional (match_digits ''nvme'' s) ''n'' s,
        match_class ''multipath/disk'' (\<lambda>c. ascii_letter_digit c \<or> c = CHR ''-'') s]) ''p'' s"

definition match_gptid :: "string \<Rightarrow> string option" where
  "match_gptid s = match_class ''gptid/''
     (\<lambda>c. ascii_letter_digit c \<or> c = CHR ''-'' \<or> c = CHR ''_'' \<or> c = CHR ''.'') s"

text \<open>\<open>re.search\<close>: the first position where the matcher succeeds; with a guard, only positions not
  preceded by a letter or digit count.\<close>

fun search_from :: "bool \<Rightarrow> bool \<Rightarrow> (string \<Rightarrow> string option) \<Rightarrow> string \<Rightarrow> string option" where
  "search_from guard after_alnum f [] = (if guard \<and> after_alnum then None else f [])"
| "search_from guard after_alnum f (c # cs) =
     (case (if guard \<and> after_alnum then None else f (c # cs)) of
        Some m \<Rightarrow> Some m
      | None \<Rightarrow> search_from guard (ascii_letter_digit c) f cs)"

subsection \<open>Names\<close>

definition geom_label_namespaces :: "string list" where
  "geom_label_namespaces = [''gptid/'', ''gpt/'', ''diskid/'', ''label/'', ''ufsid/'', ''ufs/'', ''msdosfs/'',
     ''ntfs/'', ''ext2fs/'', ''iso9660/'']"

definition without_dev :: "string \<Rightarrow> string" where
  "without_dev s = remove_prefix ''/dev/'' s"

definition is_geom_label_path :: "string option \<Rightarrow> bool" where
  "is_geom_label_path v = (case v of None \<Rightarrow> False
     | Some s \<Rightarrow> if s = '''' then False
         else list_ex (\<lambda>p. starts_with p (py_lower (without_dev (py_strip s)))) geom_label_namespaces)"

text \<open>\<open>re.sub(r"(p\d+)$", "", name)\<close> on a name without line breaks.\<close>

definition drop_partition :: "string \<Rightarrow> string" where
  "drop_partition s =
     (let ds = takeWhile ascii_digit (rev s); rest = drop (length ds) (rev s)
      in case rest of c # cs \<Rightarrow> if ds \<noteq> [] \<and> (c = CHR ''p'' \<or> c = CHR ''P'') then rev cs else s | [] \<Rightarrow> s)"

definition normalize_device_name :: "string option \<Rightarrow> string option" where
  "normalize_device_name v = (case v of None \<Rightarrow> None
     | Some s \<Rightarrow> if s = '''' then None
         else if is_geom_label_path v then Some (without_dev (py_strip s))
         else (case search_from True False (after_dev match_device) s of
             None \<Rightarrow> Some (without_dev (py_strip s))
           | Some d \<Rightarrow> Some (drop_partition (without_dev d))))"

definition normalize_gptid :: "string option \<Rightarrow> string option" where
  "normalize_gptid v = (case v of None \<Rightarrow> None
     | Some s \<Rightarrow> if s = '''' then None
         else (case search_from False False (after_dev match_gptid) s of
             None \<Rightarrow> Some (without_dev (py_strip s))
           | Some g \<Rightarrow> Some (without_dev g)))"

definition normalize_lookup_keys :: "string option \<Rightarrow> string set" where
  "normalize_lookup_keys v = (case v of None \<Rightarrow> {}
     | Some s \<Rightarrow> if s = '''' then {}
         else {py_lower (without_dev (py_strip s))} \<union>
           (case normalize_device_name v of None \<Rightarrow> {} | Some d \<Rightarrow> if d = '''' then {} else {py_lower d}) \<union>
           (case normalize_gptid v of None \<Rightarrow> {} | Some g \<Rightarrow> if g = '''' then {} else {py_lower g}))"

subsection \<open>Hexadecimal identifiers\<close>

text \<open>The text before the first \<open>error:\<close>.\<close>

fun before_error :: "string \<Rightarrow> string" where
  "before_error [] = []"
| "before_error (c # cs) = (if match_literal ''error:'' (c # cs) \<noteq> None then [] else c # before_error cs)"

definition match_hex_value :: "string \<Rightarrow> string option" where
  "match_hex_value s =
     (let v = (if starts_with ''0x'' s then drop 2 s else s)
      in if v \<noteq> [] \<and> list_all hex_digit v then Some v else None)"

definition normalize_hex_identifier :: "string option \<Rightarrow> string option" where
  "normalize_hex_identifier v = (case v of None \<Rightarrow> None
     | Some s \<Rightarrow> if s = '''' then None
         else (let cleaned = py_strip (before_error (py_strip s))
           in if cleaned = '''' then None
              else (case match_hex_value cleaned of None \<Rightarrow> None
                | Some h \<Rightarrow> (let n = dropWhile (\<lambda>c. c = CHR ''0'') (py_lower h)
                    in Some (if n = '''' then ''0'' else n)))))"

definition shift_hex_identifier :: "string option \<Rightarrow> int \<Rightarrow> string option" where
  "shift_hex_identifier v delta = (case normalize_hex_identifier v of None \<Rightarrow> None
     | Some n \<Rightarrow> (let shifted = int (value_in 16 n) + delta
         in if shifted < 0 then None else Some (hex_str 0 (nat shifted))))"

definition format_hex_identifier :: "string option \<Rightarrow> string option" where
  "format_hex_identifier v = map_option (\<lambda>n. ''0x'' @ n) (normalize_hex_identifier v)"

subsection \<open>Lemmas on hexadecimal identifiers\<close>

lemma digit_char_inj: "d < 16 \<Longrightarrow> digit_char d = CHR ''0'' \<Longrightarrow> d = 0"
  by (metis digit_value_digit_char digit_value_zero)

lemma hd_digits_in:
  assumes "2 \<le> b" "b \<le> 16" "0 < n"
  shows "hd (digits_in b n) \<noteq> CHR ''0''"
  using assms
proof (induction b n rule: digits_in.induct)
  case (1 b n)
  show ?case
  proof (cases "n < b")
    case True
    with 1 digit_char_inj [of n] show ?thesis by (auto simp: digits_in.simps [of b n])
  next
    case False
    have "0 < n div b" using False 1 by (simp add: div_greater_zero_iff)
    with 1 False have "hd (digits_in b (n div b)) \<noteq> CHR ''0''" by auto
    then show ?thesis using False 1 by (simp add: digits_in.simps [of b n])
  qed
qed

text \<open>The characters of a normalised identifier.\<close>

definition lower_hex :: "char \<Rightarrow> bool" where
  "lower_hex c \<longleftrightarrow> (let n = (of_char c :: nat) in (48 \<le> n \<and> n \<le> 57) \<or> (97 \<le> n \<and> n \<le> 102))"

lemma lower_hex_facts:
  assumes "lower_hex c"
  shows "hex_digit c" "lower_char c = c" "\<not> py_isspace c" "c \<noteq> CHR '':''" "c \<noteq> CHR ''x''" "digit_char (digit_value c) = c"
    "digit_value c < 16"
proof -
  have range: "(48 \<le> (of_char c :: nat) \<and> (of_char c :: nat) \<le> 57) \<or> (97 \<le> (of_char c :: nat) \<and> (of_char c :: nat) \<le> 102)"
    using assms by (simp add: lower_hex_def Let_def)
  then show "hex_digit c" "lower_char c = c" "\<not> py_isspace c" "c \<noteq> CHR '':''" "c \<noteq> CHR ''x''" "digit_value c < 16"
    by (auto simp: hex_digit_def lower_char_def py_isspace_def digit_value_def Let_def)
  have "char_of (of_char c :: nat) = c" by simp
  with range show "digit_char (digit_value c) = c"
    by (auto simp: digit_char_def digit_value_def Let_def)
qed

lemma lower_hex_digit_char: "d < 16 \<Longrightarrow> lower_hex (digit_char d)"
  by (auto simp: lower_hex_def digit_char_def Let_def)

lemma lower_hex_lower: "hex_digit c \<Longrightarrow> lower_hex (lower_char c)"
  by (auto simp: hex_digit_def lower_hex_def lower_char_def Let_def)

definition canonical_hex :: "string \<Rightarrow> bool" where
  "canonical_hex s \<longleftrightarrow> s \<noteq> [] \<and> list_all lower_hex s \<and> (hd s = CHR ''0'' \<longrightarrow> s = ''0'')"

lemma digit_char_zero: "digit_char 0 = CHR ''0''"
  by code_simp

lemma digits_in_value_in:
  assumes "list_all lower_hex s" "s \<noteq> []" "hd s \<noteq> CHR ''0''"
  shows "0 < value_in 16 s \<and> digits_in 16 (value_in 16 s) = s"
  using assms
proof (induction s rule: rev_induct)
  case (snoc c cs)
  have c: "lower_hex c" using snoc.prems by simp
  have v: "value_in 16 (cs @ [c]) = value_in 16 cs * 16 + digit_value c" by (simp add: value_in_append)
  show ?case
  proof (cases "cs = []")
    case True
    have "digit_value c \<noteq> 0"
    proof
      assume "digit_value c = 0"
      with lower_hex_facts(6) [OF c] digit_char_zero have "c = CHR ''0''" by metis
      with snoc.prems(3) True show False by simp
    qed
    then show ?thesis using lower_hex_facts(6,7) [OF c] by (simp add: True digits_in.simps [of 16 "digit_value c"])
  next
    case False
    with snoc have IH: "0 < value_in 16 cs" "digits_in 16 (value_in 16 cs) = cs" by auto
    have "\<not> value_in 16 (cs @ [c]) < 16" using IH(1) by (simp add: v)
    moreover have "value_in 16 (cs @ [c]) div 16 = value_in 16 cs" "value_in 16 (cs @ [c]) mod 16 = digit_value c"
      using lower_hex_facts(7) [OF c] by (simp_all add: v)
    ultimately show ?thesis
      using IH lower_hex_facts(6) [OF c] by (simp add: digits_in.simps [of 16 "value_in 16 (cs @ [c])"])
  qed
qed simp

lemma hex_str_value_in: "canonical_hex s \<Longrightarrow> hex_str 0 (value_in 16 s) = s"
proof (cases "s = ''0''")
  case True
  then show ?thesis by (simp add: hex_str_def pad_left_def value_in_def digit_value_def digits_in.simps [of 16 0] digit_char_zero)
next
  case False
  moreover assume "canonical_hex s"
  ultimately show ?thesis using digits_in_value_in [of s] by (auto simp: canonical_hex_def hex_str_def pad_left_def)
qed

lemma canonical_hex_str: "canonical_hex (hex_str 0 n)"
proof (cases "n = 0")
  case True
  then show ?thesis
    by (simp add: hex_str_def pad_left_def digits_in.simps [of 16 0] digit_char_zero canonical_hex_def lower_hex_def)
next
  case False
  have "list_all lower_hex (digits_in 16 n)" by (rule digits_in_all) (simp_all add: lower_hex_digit_char)
  with False hd_digits_in [of 16 n] show ?thesis by (auto simp: hex_str_def pad_left_def canonical_hex_def)
qed

lemma lower_char_colon: "lower_char c = CHR '':'' \<Longrightarrow> c = CHR '':''"
proof -
  assume "lower_char c = CHR '':''"
  then have "of_char (lower_char c) = (of_char (CHR '':'') :: nat)" by simp
  then have "\<not> (65 \<le> (of_char c :: nat) \<and> (of_char c :: nat) \<le> 90)"
    by (auto simp: lower_char_def Let_def split: if_splits)
  with \<open>lower_char c = CHR '':''\<close> show ?thesis by (simp add: lower_char_def Let_def split: if_splits)
qed

lemma length_error_prefix: "length ''error:'' = 6"
  by simp

lemma before_error_id: "CHR '':'' \<notin> set s \<Longrightarrow> before_error s = s"
proof (induction s)
  case (Cons c cs)
  have no: "CHR '':'' \<notin> set (map lower_char (c # cs))"
    using Cons.prems lower_char_colon by fastforce
  have "match_literal ''error:'' (c # cs) = None"
  proof (rule ccontr)
    assume "match_literal ''error:'' (c # cs) \<noteq> None"
    then have eq: "take 6 (map lower_char (c # cs)) = ''error:''"
      unfolding match_literal_def py_lower_def take_map by (metis (no_types) length_error_prefix)
    have "CHR '':'' \<in> set (take 6 (map lower_char (c # cs)))" unfolding eq by simp
    with no show False by (metis in_set_takeD)
  qed
  with Cons show ?case by simp
qed simp

lemma normalize_hex_canonical: "normalize_hex_identifier v = Some h \<Longrightarrow> canonical_hex h"
proof -
  assume a: "normalize_hex_identifier v = Some h"
  then obtain m c where m: "match_hex_value c = Some m"
    and h: "h = (let n = dropWhile (\<lambda>c. c = CHR ''0'') (py_lower m) in if n = '''' then ''0'' else n)"
    by (auto simp: normalize_hex_identifier_def Let_def split: option.splits if_splits)
  from m have hex: "list_all hex_digit m" by (auto simp: match_hex_value_def Let_def split: if_splits)
  then have low: "list_all lower_hex (py_lower m)" by (auto simp: py_lower_def list_all_iff lower_hex_lower)
  let ?n = "dropWhile (\<lambda>c. c = CHR ''0'') (py_lower m)"
  have "list_all lower_hex ?n" using low by (auto simp: list_all_iff dest: set_dropWhileD)
  moreover have "?n \<noteq> [] \<Longrightarrow> hd ?n \<noteq> CHR ''0''" by (rule hd_dropWhile)
  moreover have "lower_hex CHR ''0''" by code_simp
  ultimately show ?thesis unfolding h canonical_hex_def Let_def by auto
qed

lemma strip_lower_hex: "list_all lower_hex s \<Longrightarrow> py_strip s = s"
  by (cases "s = []") (auto simp: list_all_iff lower_hex_facts intro!: py_strip_id)

lemma normalize_hex_id: "canonical_hex h \<Longrightarrow> normalize_hex_identifier (Some h) = Some h"
proof -
  assume c: "canonical_hex h"
  then have ne: "h \<noteq> []" and low: "list_all lower_hex h" by (auto simp: canonical_hex_def)
  have x: "\<not> starts_with ''0x'' h"
    using low lower_hex_facts(5) [of "CHR ''x''"] by (auto simp: starts_with_iff)
  have "CHR '':'' \<notin> set h" using low lower_hex_facts(4) by (auto simp: list_all_iff)
  then have e: "before_error h = h" by (rule before_error_id)
  have hexes: "list_all hex_digit h" using low lower_hex_facts(1) by (auto simp: list_all_iff)
  have l: "py_lower h = h" using low lower_hex_facts(2) by (auto simp: py_lower_def list_all_iff intro: map_idI)
  have d: "(let n = dropWhile (\<lambda>c. c = CHR ''0'') h in if n = '''' then ''0'' else n) = h"
  proof (cases "hd h = CHR ''0''")
    case True with c have "h = ''0''" by (simp add: canonical_hex_def)
    then show ?thesis by simp
  next
    case False with ne have "dropWhile (\<lambda>c. c = CHR ''0'') h = h" by (cases h) auto
    with ne show ?thesis by simp
  qed
  show ?thesis using ne x hexes d
    by (simp add: normalize_hex_identifier_def strip_lower_hex [OF low] e match_hex_value_def l)
qed

subsection \<open>Properties\<close>

text \<open>Arithmetic on hexadecimal identifiers. A normalised identifier is a fixed point of the
  normalisation, shifting by \<open>a\<close> and then by \<open>b\<close> is shifting by \<open>a + b\<close> whenever the intermediate identifier exists,
  and shifting by \<open>0\<close> is normalising. So an identifier derived from a neighbour's SAS address and
  shifted back is the normalised original.\<close>

theorem shift_hex_composes:
  "normalize_hex_identifier (normalize_hex_identifier v) = normalize_hex_identifier v \<and>
   shift_hex_identifier v 0 = normalize_hex_identifier v \<and>
   (shift_hex_identifier v a \<noteq> None \<longrightarrow>
     shift_hex_identifier (shift_hex_identifier v a) b = shift_hex_identifier v (a + b))"
proof (cases "normalize_hex_identifier v")
  case None
  then show ?thesis by (simp add: shift_hex_identifier_def) (simp add: normalize_hex_identifier_def)
next
  case (Some n)
  note c = normalize_hex_canonical [OF Some]
  show ?thesis
    by (auto simp: Some c Let_def normalize_hex_id shift_hex_identifier_def canonical_hex_str hex_str_value_in ac_simps)
qed

theorem shift_hex_composes_witness:
  "shift_hex_identifier (shift_hex_identifier (Some '' 0x000C5 error: x'') 1) (- 1) = Some ''c5''"
proof -
  have "shift_hex_identifier (Some '' 0x000C5 error: x'') 1 \<noteq> None" by code_simp
  with shift_hex_composes [of "Some '' 0x000C5 error: x''" 1 "- 1"]
  have "shift_hex_identifier (shift_hex_identifier (Some '' 0x000C5 error: x'') 1) (- 1)
      = normalize_hex_identifier (Some '' 0x000C5 error: x'')" by simp
  also have "\<dots> = Some ''c5''" by code_simp
  finally show ?thesis .
qed

end
