(* ===== verification/Disk_Accounting.thy ===== *)
theory Disk_Accounting
  imports Device_Names
begin

text \<open>
  Disk-retention accounting, from \<open>app/services/inventory_accounting.py\<close>: the identity tokens of disk
  records and rendered slots, the union-find over tokens, the logical disk of every token set, and the
  totals.

  A Python set of tokens is a list without duplicates whose order is the iteration order; the order is
  arbitrary, and \<open>identities_order_free\<close> shows that no result depends on it. \<open>_Classes\<close> enters a token
  it is asked for as its own parent; here a token without an entry is its own parent.
\<close>

subsection \<open>Tokens\<close>

text \<open>\<open>_BARE_DEVICE_MAPPER_NAME\<close> on a cleaned text (no line break at its end).\<close>

definition bare_device_mapper_name :: "string \<Rightarrow> bool" where
  "bare_device_mapper_name s =
     (let t = (if starts_with ''/dev/'' (py_lower s) then drop 5 s else s); ds = drop 3 t
      in starts_with ''dm-'' (py_lower t) \<and> ds \<noteq> [] \<and> list_all ascii_digit ds)"

definition clean :: "py_value \<Rightarrow> string option" where
  "clean v = (case v of VStr s \<Rightarrow> map_option py_lower (normalize_text (Some s)) | _ \<Rightarrow> None)"

definition or_else :: "string option \<Rightarrow> string \<Rightarrow> string" where
  "or_else v d = (case v of Some s \<Rightarrow> if s = '''' then d else s | None \<Rightarrow> d)"

definition device_token :: "py_value \<Rightarrow> string list" where
  "device_token v = (case clean v of None \<Rightarrow> []
     | Some d \<Rightarrow> if bare_device_mapper_name d then []
         else [''dev:'' @ py_lower (or_else (normalize_device_name (Some d)) d)])"

definition logical_disk_identity_tokens :: "py_value \<Rightarrow> py_value \<Rightarrow> py_value \<Rightarrow> py_value list \<Rightarrow> string list" where
  "logical_disk_identity_tokens serial logical_unit_id gptid device_names = remdups
     ((case clean serial of None \<Rightarrow> [] | Some s \<Rightarrow> [''serial:'' @ s]) @
      (case clean logical_unit_id of None \<Rightarrow> [] | Some l \<Rightarrow> [''lun:'' @ l]) @
      (case clean gptid of None \<Rightarrow> []
       | Some g \<Rightarrow> if bare_device_mapper_name g then []
           else [''gptid:'' @ py_lower (or_else (normalize_gptid (Some g)) g)]) @
      concat (map device_token device_names))"

datatype path_member = PathName string | PathRecord py_value

record multipath_view =
  mp_name :: py_value
  mp_device_name :: py_value
  mp_path_device_name :: py_value
  mp_alternate_path_device :: py_value
  mp_members :: "path_member list"

record slot_view =
  slot_serial :: py_value
  slot_logical_unit_id :: py_value
  slot_gptid :: py_value
  slot_device_name :: py_value
  slot_smart_device_names :: "py_value list"
  slot_multipath :: "multipath_view option"

record disk_record =
  disk_serial :: py_value
  disk_lunid :: py_value
  disk_identifier :: py_value
  disk_device_name :: py_value
  disk_path_device_name :: py_value
  disk_multipath_name :: py_value
  disk_multipath_member :: py_value
  disk_smart_devices :: "py_value list"

definition multipath_names :: "slot_view \<Rightarrow> py_value list" where
  "multipath_names s = (case slot_multipath s of None \<Rightarrow> []
     | Some m \<Rightarrow> [mp_name m, mp_device_name m, mp_path_device_name m, mp_alternate_path_device m] @
         map (\<lambda>p. case p of PathName n \<Rightarrow> VStr n | PathRecord d \<Rightarrow> d) (mp_members m))"

definition slot_identity_tokens :: "slot_view \<Rightarrow> string list" where
  "slot_identity_tokens s = logical_disk_identity_tokens (slot_serial s) (slot_logical_unit_id s) (slot_gptid s)
     ([slot_device_name s] @ slot_smart_device_names s @ multipath_names s)"

definition disk_record_identity_tokens :: "disk_record \<Rightarrow> string list" where
  "disk_record_identity_tokens d = logical_disk_identity_tokens (disk_serial d) (disk_lunid d) (disk_identifier d)
     ([disk_device_name d, disk_path_device_name d, disk_multipath_name d, disk_multipath_member d] @
      disk_smart_devices d)"

definition scope_node_local_tokens :: "string list \<Rightarrow> string option \<Rightarrow> string list" where
  "scope_node_local_tokens tokens scope = (case scope of None \<Rightarrow> tokens
     | Some node \<Rightarrow>
         (let device_values = map (drop 4) (filter (starts_with ''dev:'') tokens)
          in remdups (map (\<lambda>t. if starts_with ''dev:'' t \<or> (starts_with ''gptid:'' t \<and> drop 6 t \<in> set device_values)
                 then ''node['' @ node @ '']/'' @ t else t) tokens)))"

subsection \<open>Union-find\<close>

type_synonym classes = "(string \<times> string) list"

definition parent_of :: "classes \<Rightarrow> string \<Rightarrow> string" where
  "parent_of ps t = (case map_of ps t of None \<Rightarrow> t | Some p \<Rightarrow> p)"

text \<open>The walk to the root. A parent is never larger than its child, so no more steps than entries are
  needed (\<open>find_stable\<close>).\<close>

fun find_within :: "nat \<Rightarrow> classes \<Rightarrow> string \<Rightarrow> string" where
  "find_within 0 ps t = t"
| "find_within (Suc n) ps t = (let p = parent_of ps t in if p = t then t else find_within n ps p)"

definition find_class :: "classes \<Rightarrow> string \<Rightarrow> string" where
  "find_class ps t = find_within (Suc (length ps)) ps t"

fun min_text :: "string list \<Rightarrow> string" where
  "min_text [] = []"
| "min_text [x] = x"
| "min_text (x # y # ys) = min x (min_text (y # ys))"

fun set_parent :: "classes \<Rightarrow> string \<Rightarrow> string \<Rightarrow> classes" where
  "set_parent [] t p = [(t, p)]"
| "set_parent ((u, q) # ps) t p = (if u = t then (u, p) # ps else (u, q) # set_parent ps t p)"

definition union_tokens :: "classes \<Rightarrow> string list \<Rightarrow> classes" where
  "union_tokens ps tokens =
     (let roots = remdups (map (find_class ps) tokens)
      in if length roots \<le> 1 then ps
         else foldl (\<lambda>qs r. set_parent qs r (min_text roots)) ps roots)"

definition classes_of :: "string list list \<Rightarrow> classes" where
  "classes_of Ts = foldl union_tokens [] Ts"

subsection \<open>Logical disks\<close>

definition is_serial :: "string \<Rightarrow> bool" where
  "is_serial t = starts_with ''serial:'' t"

definition is_lun :: "string \<Rightarrow> bool" where
  "is_lun t = starts_with ''lun:'' t"

definition stable_token :: "string \<Rightarrow> bool" where
  "stable_token t \<longleftrightarrow> is_serial t \<or> is_lun t"

definition lun_serials :: "string list list \<Rightarrow> string \<Rightarrow> string list" where
  "lun_serials Ts l = remdups (concat (map (filter is_serial) (filter (\<lambda>T. l \<in> set T) Ts)))"

definition shared_lun :: "string list list \<Rightarrow> string \<Rightarrow> bool" where
  "shared_lun Ts t \<longleftrightarrow> is_lun t \<and> 1 < length (lun_serials Ts t)"

definition rename_shared_luns :: "string list list \<Rightarrow> string list list" where
  "rename_shared_luns Ts = map (\<lambda>T. remdups (map (\<lambda>t. if shared_lun Ts t then ''shared-'' @ t else t) T)) Ts"

definition token_kind :: "string \<Rightarrow> string" where
  "token_kind t = takeWhile (\<lambda>c. c \<noteq> CHR '':'') t"

text \<open>\<open>carriers\<close>: the kind of a stable token, its component, and its stable class.\<close>

definition carriers :: "string list list \<Rightarrow> ((string \<times> string) \<times> string) list" where
  "carriers Ts = (let stable = classes_of (map (filter stable_token) Ts); components = classes_of Ts
     in map (\<lambda>t. ((token_kind t, find_class components t), find_class stable t)) (filter stable_token (concat Ts)))"

definition conflicting :: "string list list \<Rightarrow> string \<Rightarrow> bool" where
  "conflicting Ts component \<longleftrightarrow> list_ex (\<lambda>((kind, c), _). c = component \<and>
     1 < length (remdups (map snd (filter (\<lambda>e. fst e = (kind, c)) (carriers Ts))))) (carriers Ts)"

definition in_conflict :: "string list list \<Rightarrow> string list \<Rightarrow> bool" where
  "in_conflict Ts T \<longleftrightarrow> T \<noteq> [] \<and> conflicting Ts (find_class (classes_of Ts) (hd T))"

definition stable_root :: "string list list \<Rightarrow> string list \<Rightarrow> string" where
  "stable_root Ts T = find_class (classes_of (map (filter stable_token) Ts)) (hd (filter stable_token T))"

definition attached :: "string list list \<Rightarrow> (string \<times> string) list" where
  "attached Ts = concat (map (\<lambda>T. map (\<lambda>t. (t, stable_root Ts T)) (filter (\<lambda>t. \<not> stable_token t) T))
     (filter (\<lambda>T. in_conflict Ts T \<and> filter stable_token T \<noteq> []) Ts))"

definition name_classes :: "string list list \<Rightarrow> classes" where
  "name_classes Ts = classes_of (filter (\<lambda>T. in_conflict Ts T \<and> filter stable_token T = []) Ts)"

definition attached_by_group :: "string list list \<Rightarrow> string \<Rightarrow> string list" where
  "attached_by_group Ts g = remdups (map snd (filter (\<lambda>(t, _). find_class (name_classes Ts) t = g) (attached Ts)))"

definition disk_class :: "string list list \<Rightarrow> string list \<Rightarrow> string option" where
  "disk_class Ts T =
     (if T = [] then None
      else if \<not> in_conflict Ts T then Some (''disk:'' @ find_class (classes_of Ts) (hd T))
      else if filter stable_token T \<noteq> [] then Some (''stable:'' @ stable_root Ts T)
      else (let group = find_class (name_classes Ts) (hd T); roots = attached_by_group Ts group
        in if length roots = 1 then Some (''stable:'' @ hd roots)
           else if roots = [] then Some (''names:'' @ group)
           else None))"

definition identity_classes :: "string list list \<Rightarrow> string option list" where
  "identity_classes Ts = (let Us = rename_shared_luns Ts in map (disk_class Us) Us)"

subsection \<open>Totals\<close>

record retention =
  source_disk_count :: nat
  rendered_unique_disk_count :: nat
  duplicate_disk_view_count :: nat
  unplaced_disk_count :: nat
  bare_device_mapper_unplaced_count :: nat

definition has_bare_name :: "disk_record \<Rightarrow> bool" where
  "has_bare_name d = list_ex (\<lambda>v. case clean v of None \<Rightarrow> False | Some s \<Rightarrow> bare_device_mapper_name s)
     ([disk_identifier d, disk_device_name d, disk_path_device_name d, disk_multipath_name d, disk_multipath_member d] @
      disk_smart_devices d)"

text \<open>The token sets of the sources and of the slots that carry any; an omitted scope list is \<open>None\<close>.\<close>

definition source_tokens :: "disk_record list \<Rightarrow> string option list option \<Rightarrow> string list list" where
  "source_tokens disks scopes = map2 (\<lambda>d. scope_node_local_tokens (disk_record_identity_tokens d)) disks
     (case scopes of None \<Rightarrow> replicate (length disks) None | Some ss \<Rightarrow> ss)"

definition rendered_tokens :: "slot_view list \<Rightarrow> string option list option \<Rightarrow> string list list" where
  "rendered_tokens slots scopes = filter (\<lambda>T. T \<noteq> []) (map2 (\<lambda>s. scope_node_local_tokens (slot_identity_tokens s)) slots
     (case scopes of None \<Rightarrow> replicate (length slots) None | Some ss \<Rightarrow> ss))"

definition scopes_fit :: "'a list \<Rightarrow> string option list option \<Rightarrow> bool" where
  "scopes_fit xs scopes = (case scopes of None \<Rightarrow> True | Some ss \<Rightarrow> length ss = length xs)"

definition source_identities :: "disk_record list \<Rightarrow> slot_view list \<Rightarrow> string option list option \<Rightarrow>
    string option list option \<Rightarrow> string option list" where
  "source_identities disks slots dscopes sscopes = take (length disks)
     (identity_classes (source_tokens disks dscopes @ rendered_tokens slots sscopes))"

definition rendered_identities :: "disk_record list \<Rightarrow> slot_view list \<Rightarrow> string option list option \<Rightarrow>
    string option list option \<Rightarrow> string option list" where
  "rendered_identities disks slots dscopes sscopes = drop (length disks)
     (identity_classes (source_tokens disks dscopes @ rendered_tokens slots sscopes))"

text \<open>\<open>None\<close> is the \<open>ValueError\<close> of a scope list of another length.\<close>

definition build_disk_retention_accounting :: "disk_record list \<Rightarrow> slot_view list \<Rightarrow> string option list option \<Rightarrow>
    string option list option \<Rightarrow> retention option" where
  "build_disk_retention_accounting disks slots dscopes sscopes =
     (if \<not> scopes_fit disks dscopes \<or> \<not> scopes_fit slots sscopes then None
      else
        (let views = filter (\<lambda>i. i \<noteq> None) (rendered_identities disks slots dscopes sscopes);
             rendered = remdups views;
             missing = filter (\<lambda>((d, T), i). i = None \<or> i \<notin> set rendered)
               (zip (zip disks (source_tokens disks dscopes)) (source_identities disks slots dscopes sscopes))
         in Some \<lparr>source_disk_count = length (source_tokens disks dscopes),
             rendered_unique_disk_count = length rendered,
             duplicate_disk_view_count = length views - length rendered,
             unplaced_disk_count = length missing,
             bare_device_mapper_unplaced_count = length (filter (\<lambda>((d, T), i). T = [] \<and> has_bare_name d) missing)\<rparr>))"


subsection \<open>Union-find: the class of a token is the least linked token\<close>

lemma map_of_set_parent: "map_of (set_parent ps t p) u = (if u = t then Some p else map_of ps u)"
  by (induction ps t p rule: set_parent.induct) auto

lemma parent_of_set_parent: "parent_of (set_parent ps t p) u = (if u = t then p else parent_of ps u)"
  by (simp add: parent_of_def map_of_set_parent)

lemma parent_of_set_all:
  "parent_of (foldl (\<lambda>qs r. set_parent qs r m) ps roots) u = (if u \<in> set roots then m else parent_of ps u)"
  by (induction roots arbitrary: ps) (auto simp: parent_of_set_parent)

lemma min_text_in: "xs \<noteq> [] \<Longrightarrow> min_text xs \<in> set xs"
  by (induction xs rule: min_text.induct) (auto simp: min_def)

lemma min_text_le: "x \<in> set xs \<Longrightarrow> min_text xs \<le> x"
  by (induction xs rule: min_text.induct) (auto simp: min_def)

text \<open>Parents are not larger than their children.\<close>

definition shrinking :: "classes \<Rightarrow> bool" where
  "shrinking ps \<longleftrightarrow> (\<forall>t. parent_of ps t \<le> t)"

definition entries_upto :: "classes \<Rightarrow> string \<Rightarrow> string set" where
  "entries_upto ps t = {u \<in> fst ` set ps. u \<le> t}"

lemma finite_entries [simp]: "finite (entries_upto ps t)"
  by (simp add: entries_upto_def)

lemma parent_in_entries: "parent_of ps t \<noteq> t \<Longrightarrow> t \<in> fst ` set ps"
  by (auto simp: parent_of_def split: option.splits dest!: map_of_SomeD) force

lemma entries_shrink:
  assumes "shrinking ps" "parent_of ps t \<noteq> t"
  shows "card (entries_upto ps (parent_of ps t)) < card (entries_upto ps t)"
proof (rule psubset_card_mono)
  have "parent_of ps t < t" using assms by (auto simp: shrinking_def order.strict_iff_order)
  then have "entries_upto ps (parent_of ps t) \<subseteq> entries_upto ps t" "t \<notin> entries_upto ps (parent_of ps t)"
    by (auto simp: entries_upto_def)
  moreover have "t \<in> entries_upto ps t" using parent_in_entries [OF assms(2)] by (simp add: entries_upto_def)
  ultimately show "entries_upto ps (parent_of ps t) \<subset> entries_upto ps t" by blast
qed simp

lemma find_within_enough:
  assumes "shrinking ps" "card (entries_upto ps t) \<le> m" "card (entries_upto ps t) \<le> n"
  shows "find_within (Suc m) ps t = find_within (Suc n) ps t"
  using assms(2,3)
proof (induction m arbitrary: t n)
  case 0
  then have "parent_of ps t = t" using entries_shrink [OF assms(1), of t] by force
  then show ?case by simp
next
  case (Suc m)
  show ?case
  proof (cases "parent_of ps t = t")
    case False
    with entries_shrink [OF assms(1)] have less: "card (entries_upto ps (parent_of ps t)) < card (entries_upto ps t)" by blast
    then obtain n' where n: "n = Suc n'" using Suc.prems by (cases n) auto
    have "find_within (Suc m) ps (parent_of ps t) = find_within (Suc n') ps (parent_of ps t)"
      using less Suc.prems n by (intro Suc.IH) auto
    then show ?thesis using False by (simp add: n)
  qed simp
qed

lemma card_entries: "card (entries_upto ps t) \<le> length ps"
proof -
  have "card (entries_upto ps t) \<le> card (fst ` set ps)"
    by (rule card_mono) (auto simp: entries_upto_def)
  also have "\<dots> \<le> length ps" by (metis card_length length_map list.set_map)
  finally show ?thesis .
qed

text \<open>More steps do not change the class, and the class of a token is the class of its parent.\<close>

lemma find_stable: "shrinking ps \<Longrightarrow> length ps \<le> n \<Longrightarrow> find_within (Suc n) ps t = find_class ps t"
  unfolding find_class_def using card_entries [of ps t] by (intro find_within_enough) auto

lemma find_class_step:
  assumes "shrinking ps"
  shows "find_class ps t = (if parent_of ps t = t then t else find_class ps (parent_of ps t))"
proof (cases "parent_of ps t = t")
  case False
  have "find_class ps t = find_within (Suc (Suc (length ps))) ps t"
    using find_stable [OF assms] by simp
  also have "\<dots> = find_within (Suc (length ps)) ps (parent_of ps t)"
    using False by (simp only: find_within.simps(2) [of "Suc (length ps)"] Let_def if_False)
  finally show ?thesis using False by (simp only: find_class_def if_False)
qed (simp add: find_class_def)

lemma shrink_induct:
  assumes "shrinking ps" "\<And>t. (parent_of ps t \<noteq> t \<Longrightarrow> P (parent_of ps t)) \<Longrightarrow> P t"
  shows "P t"
proof (induction "card (entries_upto ps t)" arbitrary: t rule: less_induct)
  case less
  show ?case by (rule assms(2)) (rule less.hyps, rule entries_shrink [OF assms(1)])
qed

lemma find_class_le:
  assumes s: "shrinking ps"
  shows "find_class ps t \<le> t"
proof (induction t rule: shrink_induct [OF s])
  case (1 t)
  then show ?case
    using s by (subst find_class_step) (auto simp: shrinking_def intro: order_trans)
qed

lemma find_class_root:
  assumes s: "shrinking ps"
  shows "parent_of ps (find_class ps t) = find_class ps t"
proof (induction t rule: shrink_induct [OF s])
  case (1 t)
  then show ?case by (auto simp: find_class_step [OF s, of t])
qed

text \<open>Joining makes the least root the root of every joined class and changes no other class.\<close>

lemma union_find:
  fixes T :: "string list"
  assumes s: "shrinking ps"
  defines "Q \<equiv> find_class ps ` set T"
  shows "shrinking (union_tokens ps T) \<and>
    find_class (union_tokens ps T) t =
      (if find_class ps t \<in> Q then min_text (remdups (map (find_class ps) T)) else find_class ps t)"
proof -
  let ?roots = "remdups (map (find_class ps) T)" let ?m = "min_text ?roots"
  have Q: "set ?roots = Q" by (simp add: Q_def)
  show ?thesis
  proof (cases "length ?roots \<le> 1")
    case True
    have "find_class ps t \<in> Q \<Longrightarrow> find_class ps t = ?m"
      using True min_text_in [of ?roots] Q by (cases ?roots) auto
    then show ?thesis using True s by (simp add: union_tokens_def Let_def)
  next
    case False
    let ?ps = "union_tokens ps T"
    have par: "parent_of ?ps u = (if u \<in> Q then ?m else parent_of ps u)" for u
      using False Q by (simp add: union_tokens_def Let_def parent_of_set_all)
    have "?roots \<noteq> []" using False by (cases ?roots) simp_all
    from min_text_in [OF this] have m: "?m \<in> Q" by (simp only: Q)
    have s': "shrinking ?ps"
      using s min_text_le [of _ ?roots] Q by (auto simp: shrinking_def par)
    have "find_class ?ps t = (if find_class ps t \<in> Q then ?m else find_class ps t)"
    proof (induction t rule: shrink_induct [OF s])
      case (1 t)
      have fixm: "find_class ?ps ?m = ?m" using m by (simp add: find_class_step [OF s'] par)
      show ?case
      proof (cases "parent_of ps t = t")
        case True
        then have "find_class ps t = t" by (simp add: find_class_step [OF s])
        then show ?thesis using True fixm by (simp add: find_class_step [OF s', of t] par)
      next
        case False
        have "t \<notin> Q"
          using False find_class_root [OF s] by (auto simp: Q_def)
        then show ?thesis using False 1
          by (simp add: find_class_step [OF s', of t] find_class_step [OF s, of t] par)
      qed
    qed
    with s' show ?thesis by simp
  qed
qed

text \<open>Two tokens of one set are linked.\<close>

definition links :: "string set set \<Rightarrow> (string \<times> string) set" where
  "links S = (\<Union>T\<in>S. T \<times> T)"

definition linked :: "string set set \<Rightarrow> string \<Rightarrow> string \<Rightarrow> bool" where
  "linked S t u \<longleftrightarrow> (t, u) \<in> (links S)\<^sup>*"

lemma linked_refl [simp]: "linked S t t"
  by (simp add: linked_def)

lemma linked_trans: "linked S t u \<Longrightarrow> linked S u v \<Longrightarrow> linked S t v"
  by (simp add: linked_def)

lemma linked_sym: "linked S t u \<Longrightarrow> linked S u t"
proof -
  have "sym (links S)" by (auto simp: links_def sym_def)
  then have "sym ((links S)\<^sup>*)" by (rule sym_rtrancl)
  then show "linked S t u \<Longrightarrow> linked S u t" by (auto simp: linked_def dest: symD)
qed

lemma linked_mono: "S \<subseteq> S' \<Longrightarrow> linked S t u \<Longrightarrow> linked S' t u"
  unfolding linked_def using rtrancl_mono [of "links S" "links S'"] by (auto simp: links_def)

lemma linked_in: "T \<in> S \<Longrightarrow> t \<in> T \<Longrightarrow> u \<in> T \<Longrightarrow> linked S t u"
  unfolding linked_def links_def by (rule r_into_rtrancl) blast

text \<open>What is constant on every set is constant on every class.\<close>

lemma linked_invariant:
  assumes "linked S t u" "\<And>T x y. T \<in> S \<Longrightarrow> x \<in> T \<Longrightarrow> y \<in> T \<Longrightarrow> f x = f y"
  shows "f t = f u"
  using assms(1) unfolding linked_def
  by (induction rule: rtrancl_induct) (auto simp: links_def dest: assms(2))

definition represents :: "(string \<Rightarrow> string) \<Rightarrow> string set set \<Rightarrow> bool" where
  "represents R S \<longleftrightarrow> (\<forall>t. linked S t (R t) \<and> R t \<le> t) \<and> (\<forall>T\<in>S. \<forall>t\<in>T. \<forall>u\<in>T. R t = R u)"

lemma represents_eq: "represents R S \<Longrightarrow> R t = R u \<longleftrightarrow> linked S t u"
proof
  assume r: "represents R S" and "R t = R u"
  then show "linked S t u" by (metis linked_sym linked_trans represents_def)
next
  assume r: "represents R S" and l: "linked S t u"
  from r have same: "\<forall>T\<in>S. \<forall>t\<in>T. \<forall>u\<in>T. R t = R u" unfolding represents_def by blast
  show "R t = R u" by (rule linked_invariant [OF l]) (use same in blast)
qed

lemma represents_least: "represents R S \<Longrightarrow> linked S t u \<Longrightarrow> R t \<le> u"
  using represents_eq [of R S t u] unfolding represents_def by (metis (no_types))

lemma represents_unique:
  assumes "represents R S" "represents R' S"
  shows "R t = R' t"
proof (rule antisym)
  have "\<forall>t. linked S t (R t)" "\<forall>t. linked S t (R' t)" using assms unfolding represents_def by blast+
  then show "R t \<le> R' t" "R' t \<le> R t" using represents_least [OF assms(1)] represents_least [OF assms(2)] by blast+
qed

lemma represents_union:
  assumes s: "shrinking ps" and r: "represents (find_class ps) S"
  shows "represents (find_class (union_tokens ps T)) (insert (set T) S)"
proof -
  let ?m = "min_text (remdups (map (find_class ps) T))"
  note u = conjunct2 [OF union_find [OF s]]
  have link: "linked (insert (set T) S) t (find_class (union_tokens ps T) t)" for t
  proof -
    have old: "linked (insert (set T) S) v (find_class ps v)" for v
      using r linked_mono [of S "insert (set T) S"] unfolding represents_def by blast
    show ?thesis
    proof (cases "find_class ps t \<in> find_class ps ` set T")
      case True
      then obtain y where y: "y \<in> set T" "find_class ps t = find_class ps y" by auto
      then have "T \<noteq> []" by auto
      then have "?m \<in> find_class ps ` set T" using min_text_in [of "remdups (map (find_class ps) T)"] by auto
      then obtain x where x: "x \<in> set T" "?m = find_class ps x" by auto
      have "linked (insert (set T) S) y x" using x y by (intro linked_in [of "set T"]) auto
      then have "linked (insert (set T) S) t ?m"
        using old [of t] old [of y] old [of x] x y by (metis linked_sym linked_trans)
      then show ?thesis using True by (simp add: u)
    qed (use old in \<open>simp add: u\<close>)
  qed
  have le: "find_class (union_tokens ps T) t \<le> t" for t
    by (rule find_class_le) (rule conjunct1 [OF union_find [OF s]])
  have "find_class (union_tokens ps T) t = find_class (union_tokens ps T) v"
    if "U \<in> insert (set T) S" "t \<in> U" "v \<in> U" for U t v
  proof -
    from that(1) consider "U = set T" | "U \<in> S" by blast
    then show ?thesis
    proof cases
      case 2
      then have "find_class ps t = find_class ps v" using r that unfolding represents_def by blast
      then show ?thesis by (simp add: u)
    qed (use that in \<open>simp add: u\<close>)
  qed
  with link le show ?thesis unfolding represents_def by blast
qed

text \<open>
  What the accounting relies on of the class store: starting from singletons, joining a set gives
  representatives of the linked classes. Every fact about find follows from these laws.
\<close>

locale class_store =
  fixes empty :: 'c
    and join :: "'c \<Rightarrow> string list \<Rightarrow> 'c"
    and find :: "'c \<Rightarrow> string \<Rightarrow> string"
    and ok :: "'c \<Rightarrow> bool"
  assumes ok_empty: "ok empty"
    and find_empty: "find empty t = t"
    and ok_join: "ok c \<Longrightarrow> ok (join c T)"
    and join_represents: "ok c \<Longrightarrow> represents (find c) S \<Longrightarrow> represents (find (join c T)) (insert (set T) S)"
begin

definition joined :: "string list list \<Rightarrow> 'c" where
  "joined Ts = foldl join empty Ts"

lemma joined_represents: "ok (joined Ts) \<and> represents (find (joined Ts)) (set ` set Ts)"
proof (induction Ts rule: rev_induct)
  case Nil
  then show ?case by (simp add: joined_def ok_empty represents_def find_empty)
next
  case (snoc T Ts)
  then show ?case using ok_join join_represents [of "joined Ts" "set ` set Ts" T] by (simp add: joined_def)
qed

lemmas represents_joined = conjunct2 [OF joined_represents]

lemma find_eq: "find (joined Ts) t = find (joined Ts) u \<longleftrightarrow> linked (set ` set Ts) t u"
  by (rule represents_eq [OF represents_joined])

lemma find_linked: "linked (set ` set Ts) t (find (joined Ts) t)"
  using represents_joined [of Ts] unfolding represents_def by blast

lemma find_cong: "set ` set Ts = set ` set Us \<Longrightarrow> find (joined Ts) t = find (joined Us) t"
  by (rule represents_unique [OF represents_joined]) (metis represents_joined)

lemma find_least: "linked (set ` set Ts) t u \<Longrightarrow> find (joined Ts) t \<le> u"
  by (rule represents_least [OF represents_joined])

lemma find_same: "T \<in> set Ts \<Longrightarrow> t \<in> set T \<Longrightarrow> u \<in> set T \<Longrightarrow> find (joined Ts) t = find (joined Ts) u"
  by (simp add: find_eq) (rule linked_in [of "set T"], simp_all)

lemma find_constant:
  assumes "find (joined Ts) t = find (joined Ts) u"
    and "\<And>T x y. T \<in> set Ts \<Longrightarrow> x \<in> set T \<Longrightarrow> y \<in> set T \<Longrightarrow> f x = f y"
  shows "f t = f u"
  by (rule linked_invariant [OF iffD1 [OF find_eq assms(1)]]) (use assms(2) in auto)

end

interpretation uf: class_store "[]" union_tokens find_class shrinking
proof
  show "shrinking []" by (simp add: shrinking_def parent_of_def)
  show "find_class [] t = t" for t by (simp add: find_class_def parent_of_def)
  show "shrinking (union_tokens c T)" if "shrinking c" for c T using union_find [OF that] by blast
  show "represents (find_class (union_tokens c T)) (insert (set T) S)"
    if "shrinking c" "represents (find_class c) S" for c S T using that by (rule represents_union)
qed

lemma joined_classes: "uf.joined = classes_of"
  by (rule ext) (simp add: uf.joined_def classes_of_def)

lemmas class_facts = uf.find_eq [unfolded joined_classes] uf.find_linked [unfolded joined_classes]
lemmas class_eq = uf.find_eq [unfolded joined_classes]
lemmas class_linked = uf.find_linked [unfolded joined_classes]
lemmas class_cong = uf.find_cong [unfolded joined_classes]
lemmas class_least = uf.find_least [unfolded joined_classes]
lemmas class_same = uf.find_same [unfolded joined_classes]
lemmas class_constant = uf.find_constant [unfolded joined_classes]

subsection \<open>The order of the token sets' iteration does not matter\<close>

definition same_sets :: "string list list \<Rightarrow> string list list \<Rightarrow> bool" where
  "same_sets Ts Us \<longleftrightarrow> list_all2 (\<lambda>T U. set T = set U) Ts Us"

lemma same_setsD: "same_sets Ts Us \<Longrightarrow> set ` set Ts = set ` set Us"
proof -
  assume "same_sets Ts Us"
  then have "map set Ts = map set Us" by (simp add: same_sets_def list_all2_conv_all_nth list_eq_iff_nth_eq)
  then show ?thesis by (metis list.set_map)
qed

lemma same_sets_tokens: "same_sets Ts Us \<Longrightarrow> set (concat Ts) = set (concat Us)"
proof -
  assume "same_sets Ts Us"
  then have "\<Union> (set ` set Ts) = \<Union> (set ` set Us)" by (simp add: same_setsD)
  then show ?thesis by simp
qed

lemma same_sets_map:
  "same_sets Ts Us \<Longrightarrow> (\<And>T U. set T = set U \<Longrightarrow> set (f T) = set (g U)) \<Longrightarrow> same_sets (map f Ts) (map g Us)"
  by (auto simp: same_sets_def list_all2_conv_all_nth)

lemma same_sets_filter:
  "same_sets Ts Us \<Longrightarrow> (\<And>T U. T \<in> set Ts \<Longrightarrow> U \<in> set Us \<Longrightarrow> set T = set U \<Longrightarrow> P T = Q U) \<Longrightarrow> same_sets (filter P Ts) (filter Q Us)"
  unfolding same_sets_def by (induction Ts Us rule: list_all2_induct) auto

lemma length_remdups_set: "set xs = set ys \<Longrightarrow> length (remdups xs) = length (remdups ys)"
  by (simp add: length_remdups_card_conv)

lemma lun_serials_same: "same_sets Ts Us \<Longrightarrow> shared_lun Ts t = shared_lun Us t"
proof -
  assume s: "same_sets Ts Us"
  have eq: "set (concat (map (filter is_serial) (filter (\<lambda>T. t \<in> set T) Vs)))
      = {x. is_serial x \<and> (\<exists>V\<in>set ` set Vs. t \<in> V \<and> x \<in> V)}" for Vs by auto
  have "set (concat (map (filter is_serial) (filter (\<lambda>T. t \<in> set T) Ts)))
      = set (concat (map (filter is_serial) (filter (\<lambda>T. t \<in> set T) Us)))"
    unfolding eq same_setsD [OF s] ..
  then show ?thesis by (simp add: shared_lun_def lun_serials_def length_remdups_card_conv)
qed

lemma rename_same: "same_sets Ts Us \<Longrightarrow> same_sets (rename_shared_luns Ts) (rename_shared_luns Us)"
  unfolding rename_shared_luns_def by (rule same_sets_map) (auto simp: lun_serials_same)

definition stable_of :: "string list list \<Rightarrow> classes" where
  "stable_of Ts = classes_of (map (filter stable_token) Ts)"

lemma conflicting_iff:
  "conflicting Ts c \<longleftrightarrow> (\<exists>k. 1 < card {find_class (stable_of Ts) t | t.
     t \<in> set (concat Ts) \<and> stable_token t \<and> token_kind t = k \<and> find_class (classes_of Ts) t = c})"
proof -
  have set: "set (map snd (filter (\<lambda>e. fst e = (k, c)) (carriers Ts))) = {find_class (stable_of Ts) t | t.
     t \<in> set (concat Ts) \<and> stable_token t \<and> token_kind t = k \<and> find_class (classes_of Ts) t = c}" for k
    by (force simp: carriers_def stable_of_def Let_def)
  have "conflicting Ts c \<longleftrightarrow> (\<exists>k. (\<exists>r. ((k, c), r) \<in> set (carriers Ts)) \<and>
      1 < card (set (map snd (filter (\<lambda>e. fst e = (k, c)) (carriers Ts)))))"
    unfolding conflicting_def list_ex_iff length_remdups_card_conv by fast
  also have "\<dots> \<longleftrightarrow> (\<exists>k. 1 < card (set (map snd (filter (\<lambda>e. fst e = (k, c)) (carriers Ts)))))"
  proof -
    have "1 < card (set (map snd (filter (\<lambda>e. fst e = (k, c)) (carriers Ts)))) \<Longrightarrow> \<exists>r. ((k, c), r) \<in> set (carriers Ts)" for k
    proof -
      assume "1 < card (set (map snd (filter (\<lambda>e. fst e = (k, c)) (carriers Ts))))"
      then have "set (map snd (filter (\<lambda>e. fst e = (k, c)) (carriers Ts))) \<noteq> {}" by force
      then obtain e where "e \<in> set (carriers Ts)" "fst e = (k, c)" by auto
      then show "\<exists>r. ((k, c), r) \<in> set (carriers Ts)" by (metis prod.collapse)
    qed
    then show ?thesis by blast
  qed
  finally show ?thesis unfolding set .
qed


lemma stable_of_same: "same_sets Ts Us \<Longrightarrow> find_class (stable_of Ts) t = find_class (stable_of Us) t"
  unfolding stable_of_def by (rule class_cong) (rule same_setsD, rule same_sets_map, auto)

lemma components_same: "same_sets Ts Us \<Longrightarrow> find_class (classes_of Ts) t = find_class (classes_of Us) t"
  by (rule class_cong) (rule same_setsD)

lemma conflicting_same: "same_sets Ts Us \<Longrightarrow> conflicting Ts c = conflicting Us c"
  unfolding conflicting_iff by (simp only: stable_of_same components_same same_sets_tokens)

lemma head_in: "T \<noteq> [] \<Longrightarrow> hd T \<in> set T"
  by simp

lemma component_head:
  assumes s: "same_sets Ts Us" and T: "T \<in> set Ts" and eq: "set T = set U" and ne: "T \<noteq> []"
  shows "find_class (classes_of Ts) (hd T) = find_class (classes_of Us) (hd U)"
proof -
  have "U \<noteq> []" using eq ne by auto
  then have "hd U \<in> set T" using eq head_in by blast
  then have "find_class (classes_of Ts) (hd T) = find_class (classes_of Ts) (hd U)"
    using ne by (intro class_same [OF T]) simp_all
  then show ?thesis by (simp add: components_same [OF s])
qed

lemma in_conflict_same:
  assumes s: "same_sets Ts Us" and T: "T \<in> set Ts" and U: "U \<in> set Us" and eq: "set T = set U"
  shows "in_conflict Ts T = in_conflict Us U"
proof (cases "T = []")
  case True
  then have "U = []" using eq by simp
  with True show ?thesis by (simp add: in_conflict_def)
next
  case False
  then have "U \<noteq> []" using eq by auto
  with False show ?thesis by (simp add: in_conflict_def component_head [OF s T eq False] conflicting_same [OF s])
qed

lemma stable_empty_same: "set T = set U \<Longrightarrow> (filter stable_token T = []) = (filter stable_token U = [])"
  by (simp add: filter_empty_conv)

lemma stable_root_same:
  assumes "same_sets Ts Us" "T \<in> set Ts" "U \<in> set Us" "set T = set U" "filter stable_token T \<noteq> []"
  shows "stable_root Ts T = stable_root Us U"
proof -
  have "same_sets (map (filter stable_token) Ts) (map (filter stable_token) Us)"
    by (rule same_sets_map [OF assms(1)]) auto
  from component_head [OF this, of "filter stable_token T" "filter stable_token U"] assms
  show ?thesis by (auto simp: stable_root_def)
qed

lemma attached_iff: "(t, r) \<in> set (attached Ts) \<longleftrightarrow> (\<exists>T\<in>set Ts. in_conflict Ts T \<and> filter stable_token T \<noteq> [] \<and>
    t \<in> set T \<and> \<not> stable_token t \<and> r = stable_root Ts T)"
  by (auto simp: attached_def)

lemma same_sets_member: "same_sets Ts Us \<Longrightarrow> T \<in> set Ts \<Longrightarrow> \<exists>U\<in>set Us. set T = set U"
  by (metis image_iff same_setsD)

lemma same_sets_sym: "same_sets Ts Us \<Longrightarrow> same_sets Us Ts"
  by (auto simp: same_sets_def list_all2_conv_all_nth)

lemma attached_sub:
  assumes s: "same_sets Ts Us" and a: "(t, r) \<in> set (attached Ts)"
  shows "(t, r) \<in> set (attached Us)"
proof -
  from a obtain T where T: "T \<in> set Ts" "in_conflict Ts T" "filter stable_token T \<noteq> []" "t \<in> set T"
    "\<not> stable_token t" "r = stable_root Ts T" by (auto simp: attached_iff)
  from same_sets_member [OF s T(1)] obtain U where U: "U \<in> set Us" "set T = set U" by blast
  then show ?thesis
    using T in_conflict_same [OF s T(1) U] stable_root_same [OF s T(1) U T(3)] stable_empty_same [OF U(2)]
    by (auto simp: attached_iff)
qed

lemma attached_same: "same_sets Ts Us \<Longrightarrow> set (attached Ts) = set (attached Us)"
  using attached_sub same_sets_sym by fast

lemma name_classes_same:
  assumes s: "same_sets Ts Us"
  shows "find_class (name_classes Ts) t = find_class (name_classes Us) t"
  unfolding name_classes_def
  by (rule class_cong, rule same_setsD, rule same_sets_filter [OF s])
    (metis in_conflict_same [OF s] stable_empty_same)

lemma attached_by_group_same:
  "same_sets Ts Us \<Longrightarrow> set (attached_by_group Ts g) = set (attached_by_group Us g)"
  by (simp add: attached_by_group_def name_classes_same [of Ts Us] attached_same [of Ts Us])

lemma distinct_attached: "distinct (attached_by_group Ts g)"
  by (simp add: attached_by_group_def)

lemma single_same: "set xs = set ys \<Longrightarrow> distinct xs \<Longrightarrow> distinct ys \<Longrightarrow>
    length xs = length ys \<and> (length xs = 1 \<longrightarrow> hd xs = hd ys)"
proof -
  assume a: "set xs = set ys" "distinct xs" "distinct ys"
  then have len: "length xs = length ys" by (metis distinct_card)
  show ?thesis
  proof (cases xs)
    case (Cons x xs')
    then show ?thesis using a len by (cases ys) auto
  qed (use len in simp)
qed

lemma name_group_same:
  assumes s: "same_sets Ts Us" and T: "T \<in> set Ts" and U: "U \<in> set Us" and eq: "set T = set U"
    and c: "in_conflict Ts T" "filter stable_token T = []"
  shows "find_class (name_classes Ts) (hd T) = find_class (name_classes Us) (hd U)"
proof -
  have "T \<noteq> []" using c by (simp add: in_conflict_def)
  moreover have "T \<in> set (filter (\<lambda>T. in_conflict Ts T \<and> filter stable_token T = []) Ts)"
    using T c by simp
  moreover have "U \<in> set (filter (\<lambda>T. in_conflict Us T \<and> filter stable_token T = []) Us)"
    using U c in_conflict_same [OF s T U eq] stable_empty_same [OF eq] by simp
  moreover have "same_sets (filter (\<lambda>T. in_conflict Ts T \<and> filter stable_token T = []) Ts)
      (filter (\<lambda>T. in_conflict Us T \<and> filter stable_token T = []) Us)"
    by (rule same_sets_filter [OF s]) (metis in_conflict_same [OF s] stable_empty_same)
  ultimately show ?thesis unfolding name_classes_def using eq by (intro component_head) auto
qed

lemma disk_class_same:
  assumes s: "same_sets Ts Us" and T: "T \<in> set Ts" and U: "U \<in> set Us" and eq: "set T = set U"
  shows "disk_class Ts T = disk_class Us U"
proof (cases "T = []")
  case True
  then have "U = []" using eq by simp
  with True show ?thesis by (simp add: disk_class_def)
next
  case ne: False
  then have ne': "U \<noteq> []" using eq by auto
  note conf = in_conflict_same [OF s T U eq]
  show ?thesis
  proof (cases "in_conflict Ts T \<and> filter stable_token T = []")
    case True
    let ?g = "find_class (name_classes Ts) (hd T)"
    have g: "find_class (name_classes Us) (hd U) = ?g" using name_group_same [OF s T U eq] True by simp
    have one: "length (attached_by_group Ts ?g) = length (attached_by_group Us ?g) \<and>
        (length (attached_by_group Ts ?g) = 1 \<longrightarrow> hd (attached_by_group Ts ?g) = hd (attached_by_group Us ?g))"
      by (rule single_same [OF attached_by_group_same [OF s] distinct_attached distinct_attached])
    have nil: "(attached_by_group Ts ?g = []) = (attached_by_group Us ?g = [])"
      using attached_by_group_same [OF s, of ?g] by (metis set_empty)
    show ?thesis unfolding disk_class_def Let_def g
      using ne ne' True conf stable_empty_same [OF eq] one nil by simp
  next
    case False
    show ?thesis
    proof (cases "in_conflict Ts T")
      case True
      then have f: "filter stable_token T \<noteq> []" using False by simp
      then show ?thesis
        using ne ne' True conf stable_root_same [OF s T U eq f] stable_empty_same [OF eq] by (simp add: disk_class_def)
    next
      case False
      then show ?thesis using ne ne' conf component_head [OF s T eq ne] by (simp add: disk_class_def)
    qed
  qed
qed


subsection \<open>Serials separate disks\<close>

definition single_named :: "string list \<Rightarrow> bool" where
  "single_named T \<longleftrightarrow> length (filter is_serial T) \<le> 1 \<and> length (filter is_lun T) \<le> 1"

lemma filter_single_eq: "length (filter P xs) \<le> 1 \<Longrightarrow> x \<in> set xs \<Longrightarrow> P x \<Longrightarrow> y \<in> set xs \<Longrightarrow> P y \<Longrightarrow> x = y"
proof -
  assume a: "length (filter P xs) \<le> 1" "x \<in> set xs" "P x" "y \<in> set xs" "P y"
  then have "x \<in> set (filter P xs)" "y \<in> set (filter P xs)" by simp_all
  with a(1) show "x = y" by (cases "filter P xs") auto
qed

lemma not_serial_and_lun: "is_serial t \<Longrightarrow> \<not> is_lun t"
  by (auto simp: is_serial_def is_lun_def starts_with_iff)

lemma renamed_not_stable: "is_serial (''shared-'' @ t) = False" "is_lun (''shared-'' @ t) = False"
  by (simp_all add: is_serial_def is_lun_def starts_with_def)

definition renamed :: "string list list \<Rightarrow> string \<Rightarrow> string" where
  "renamed Ts t = (if shared_lun Ts t then ''shared-'' @ t else t)"

lemma rename_shared_luns_alt: "rename_shared_luns Ts = map (\<lambda>T. remdups (map (renamed Ts) T)) Ts"
  by (simp add: rename_shared_luns_def renamed_def cong: map_cong)

lemma renamed_serial: "is_serial (renamed Ts t) \<longleftrightarrow> is_serial t" "is_serial t \<Longrightarrow> renamed Ts t = t"
  by (auto simp: renamed_def shared_lun_def renamed_not_stable simp del: append.simps dest: not_serial_and_lun)

lemma renamed_lun: "is_lun (renamed Ts t) \<longleftrightarrow> is_lun t \<and> \<not> shared_lun Ts t" "is_lun (renamed Ts t) \<Longrightarrow> renamed Ts t = t"
  by (auto simp: renamed_def shared_lun_def renamed_not_stable simp del: append.simps split: if_splits)

text \<open>After the renaming a LUN token occurs with at most one serial.\<close>

lemma lun_one_serial:
  assumes "U \<in> set (rename_shared_luns Ts)" "V \<in> set (rename_shared_luns Ts)" "l \<in> set U" "l \<in> set V" "is_lun l"
    "s \<in> set U" "is_serial s" "s' \<in> set V" "is_serial s'"
  shows "s = s'"
proof -
  have origin: "\<exists>T\<in>set Ts. l \<in> set T \<and> x \<in> set T \<and> \<not> shared_lun Ts l"
    if "W \<in> set (rename_shared_luns Ts)" "l \<in> set W" "x \<in> set W" "is_serial x" for W x
  proof -
    from that(1) obtain T where T: "T \<in> set Ts" "W = remdups (map (renamed Ts) T)" by (auto simp: rename_shared_luns_alt)
    from that(2) T obtain t where t: "t \<in> set T" "l = renamed Ts t" by auto
    with assms(5) have l: "l = t" "\<not> shared_lun Ts l" using renamed_lun [where Ts = Ts and t = t] by auto
    from that(3) T obtain y where y: "y \<in> set T" "x = renamed Ts y" by auto
    with that(4) have "x = y" using renamed_serial [where Ts = Ts and t = y] by auto
    with l t y have "l \<in> set T \<and> x \<in> set T \<and> \<not> shared_lun Ts l" by metis
    then show "\<exists>T\<in>set Ts. l \<in> set T \<and> x \<in> set T \<and> \<not> shared_lun Ts l" using T(1) by (rule bexI)
  qed
  from origin [OF assms(1,3,6,7)] origin [OF assms(2,4,8,9)]
  have "s \<in> set (lun_serials Ts l)" "s' \<in> set (lun_serials Ts l)" "length (lun_serials Ts l) \<le> 1"
    using assms(5,7,9) by (auto simp: lun_serials_def shared_lun_def)
  then show ?thesis by (cases "lun_serials Ts l") auto
qed

lemma rename_single: "list_all single_named Ts \<Longrightarrow> U \<in> set (rename_shared_luns Ts) \<Longrightarrow>
    x \<in> set U \<Longrightarrow> y \<in> set U \<Longrightarrow> is_serial x \<and> is_serial y \<or> is_lun x \<and> is_lun y \<Longrightarrow> x = y"
proof -
  assume a: "list_all single_named Ts" "U \<in> set (rename_shared_luns Ts)" "x \<in> set U" "y \<in> set U"
    "is_serial x \<and> is_serial y \<or> is_lun x \<and> is_lun y"
  from a(2) obtain T where T: "T \<in> set Ts" "U = remdups (map (renamed Ts) T)" by (auto simp: rename_shared_luns_alt)
  with a(3,4) obtain x' y' where m: "x' \<in> set T" "x = renamed Ts x'" "y' \<in> set T" "y = renamed Ts y'" by auto
  from a(1) T(1) have s: "length (filter is_serial T) \<le> 1" "length (filter is_lun T) \<le> 1"
    by (auto simp: list_all_iff single_named_def)
  from a(5) show "x = y"
  proof
    assume "is_serial x \<and> is_serial y"
    then show ?thesis using filter_single_eq [OF s(1) m(1) _ m(3)] m renamed_serial by metis
  next
    assume "is_lun x \<and> is_lun y"
    then show ?thesis using filter_single_eq [OF s(2) m(1) _ m(3)] m renamed_lun by metis
  qed
qed

text \<open>The serials a stable token is tied to; constant on the stable classes.\<close>

definition tied_serials :: "string list list \<Rightarrow> string \<Rightarrow> string set" where
  "tied_serials Us t = (if is_serial t then {t} else {s. is_serial s \<and> (\<exists>U\<in>set Us. t \<in> set U \<and> s \<in> set U)})"

lemma tied_serials_lun:
  assumes Ts: "list_all single_named Ts" and U: "U \<in> set (rename_shared_luns Ts)"
    and "s \<in> set U" "is_serial s" "l \<in> set U" "is_lun l"
  shows "tied_serials (rename_shared_luns Ts) l = {s}"
proof -
  have "\<not> is_serial l" using not_serial_and_lun [of l] assms(6) by blast
  moreover have "x = s" if "is_serial x" "V \<in> set (rename_shared_luns Ts)" "l \<in> set V" "x \<in> set V" for x V
    by (rule lun_one_serial [OF that(2) U that(3) assms(5,6) that(4,1) assms(3,4)])
  ultimately show ?thesis using assms(2-5) unfolding tied_serials_def if_not_P [OF \<open>\<not> is_serial l\<close>] by blast
qed

lemma tied_serials_constant:
  assumes "list_all single_named Ts" "U \<in> set (rename_shared_luns Ts)"
    "x \<in> set U" "stable_token x" "y \<in> set U" "stable_token y"
  shows "tied_serials (rename_shared_luns Ts) x = tied_serials (rename_shared_luns Ts) y"
proof -
  consider "is_serial x \<and> is_serial y \<or> is_lun x \<and> is_lun y" | "is_serial x" "is_lun y" | "is_lun x" "is_serial y"
    using assms(4,6) by (auto simp: stable_token_def)
  then show ?thesis
  proof cases
    case 1
    with rename_single [OF assms(1,2,3,5)] show ?thesis by simp
  next
    case 2
    with tied_serials_lun [OF assms(1,2,3) _ assms(5)] show ?thesis by (simp add: tied_serials_def)
  next
    case 3
    with tied_serials_lun [OF assms(1,2,5) _ assms(3)] show ?thesis by (simp add: tied_serials_def)
  qed
qed

lemma stable_class_serial:
  assumes Ts: "list_all single_named Ts" and "is_serial s" "is_serial s'"
    and eq: "find_class (stable_of (rename_shared_luns Ts)) s = find_class (stable_of (rename_shared_luns Ts)) s'"
  shows "s = s'"
proof -
  have "tied_serials (rename_shared_luns Ts) s = tied_serials (rename_shared_luns Ts) s'"
    using eq unfolding stable_of_def
    by (rule class_constant) (auto dest: tied_serials_constant [OF Ts])
  with assms(2,3) show ?thesis by (simp add: tied_serials_def)
qed

lemma stable_root_token:
  assumes "U \<in> set Us" "t \<in> set U" "stable_token t"
  shows "stable_root Us U = find_class (stable_of Us) t"
proof -
  have "filter stable_token U \<in> set (map (filter stable_token) Us)" using assms(1) by simp
  moreover have "t \<in> set (filter stable_token U)" using assms(2,3) by simp
  moreover from this have "hd (filter stable_token U) \<in> set (filter stable_token U)" by (metis head_in empty_iff list.set(1))
  ultimately show ?thesis unfolding stable_root_def stable_of_def by (intro class_same [of "filter stable_token U"])
qed

lemma component_token:
  "U \<in> set Us \<Longrightarrow> t \<in> set U \<Longrightarrow> find_class (classes_of Us) (hd U) = find_class (classes_of Us) t"
  by (rule class_same) (auto intro: head_in)

lemma not_conflicting_serials:
  assumes "\<not> conflicting Us c" "s \<in> set U" "U \<in> set Us" "is_serial s" "s' \<in> set V" "V \<in> set Us" "is_serial s'"
    "find_class (classes_of Us) s = c" "find_class (classes_of Us) s' = c"
  shows "find_class (stable_of Us) s = find_class (stable_of Us) s'"
proof -
  let ?R = "{find_class (stable_of Us) t | t. t \<in> set (concat Us) \<and> stable_token t \<and> token_kind t = ''serial'' \<and>
      find_class (classes_of Us) t = c}"
  have kind: "token_kind x = ''serial''" if "is_serial x" for x
    using that by (auto simp: is_serial_def starts_with_iff token_kind_def)
  have "finite ?R" by (rule finite_subset [of _ "find_class (stable_of Us) ` set (concat Us)"]) auto
  moreover have "\<not> 1 < card ?R" using assms(1) unfolding conflicting_iff by blast
  moreover have "find_class (stable_of Us) s \<in> ?R" "find_class (stable_of Us) s' \<in> ?R"
    using assms kind by (auto simp: stable_token_def)
  ultimately show ?thesis by (metis (no_types, lifting) card_le_Suc0_iff_eq linorder_not_less One_nat_def)
qed

lemma disk_class_serial:
  assumes "U \<in> set Us" "s \<in> set U" "is_serial s"
  shows "disk_class Us U = (if conflicting Us (find_class (classes_of Us) s)
      then Some (''stable:'' @ find_class (stable_of Us) s) else Some (''disk:'' @ find_class (classes_of Us) s))"
proof -
  have st: "stable_token s" using assms(3) by (simp add: stable_token_def)
  have "U \<noteq> []" "filter stable_token U \<noteq> []" using assms(2) st by (auto simp: filter_empty_conv)
  then show ?thesis
    by (simp add: disk_class_def in_conflict_def component_token [OF assms(1,2)] stable_root_token [OF assms(1,2) st])
qed

lemma disk_class_separates:
  assumes Ts: "list_all single_named Ts" and Us: "Us = rename_shared_luns Ts"
    and "U \<in> set Us" "s \<in> set U" "is_serial s" "V \<in> set Us" "s' \<in> set V" "is_serial s'"
  shows "disk_class Us U = disk_class Us V \<longleftrightarrow> s = s'"
proof
  assume eq: "disk_class Us U = disk_class Us V"
  have "find_class (stable_of Us) s = find_class (stable_of Us) s'"
  proof (cases "conflicting Us (find_class (classes_of Us) s)")
    case True
    then show ?thesis using eq by (simp add: disk_class_serial [OF assms(3-5)] disk_class_serial [OF assms(6-8)] split: if_splits)
  next
    case False
    then have "find_class (classes_of Us) s' = find_class (classes_of Us) s"
      using eq by (simp add: disk_class_serial [OF assms(3-5)] disk_class_serial [OF assms(6-8)] split: if_splits)
    with not_conflicting_serials [OF False assms(4,3,5,7,6,8)] show ?thesis by simp
  qed
  with stable_class_serial [OF Ts assms(5,8)] Us show "s = s'" by simp
next
  assume "s = s'"
  then show "disk_class Us U = disk_class Us V"
    by (simp add: disk_class_serial [OF assms(3-5)] disk_class_serial [OF assms(6-8)])
qed


subsection \<open>Records with one identity are linked\<close>

lemma linked_sub:
  assumes "linked A t u" "\<And>T. T \<in> A \<Longrightarrow> \<exists>T'\<in>B. T \<subseteq> T'"
  shows "linked B t u"
proof -
  have "links A \<subseteq> links B"
  proof
    fix p assume "p \<in> links A"
    then obtain T where T: "T \<in> A" "p \<in> T \<times> T" unfolding links_def by blast
    from assms(2) [OF T(1)] obtain T' where T': "T' \<in> B" "T \<subseteq> T'" by blast
    then have "p \<in> T' \<times> T'" using T(2) by auto
    with T'(1) show "p \<in> links B" unfolding links_def by blast
  qed
  then have "(links A)\<^sup>* \<subseteq> (links B)\<^sup>*" by (rule rtrancl_mono)
  then show ?thesis using assms(1) unfolding linked_def by blast
qed

lemma stable_root_linked:
  assumes "U \<in> set Us" "filter stable_token U \<noteq> []"
  shows "linked (set ` set Us) (hd U) (stable_root Us U)"
proof -
  from assms(2) obtain t where t: "t \<in> set U" "stable_token t" unfolding filter_empty_conv by blast
  have "linked (set ` set (map (filter stable_token) Us)) t (stable_root Us U)"
    unfolding stable_root_token [OF assms(1) t] stable_of_def by (rule class_linked)
  moreover have "\<exists>T'\<in>set ` set Us. T \<subseteq> T'" if "T \<in> set ` set (map (filter stable_token) Us)" for T
    using that by auto
  ultimately have "linked (set ` set Us) t (stable_root Us U)" by (rule linked_sub)
  moreover have "linked (set ` set Us) (hd U) t" using assms(1) t(1) by (metis linked_in head_in imageI empty_iff list.set(1))
  ultimately show ?thesis by (rule linked_trans [rotated])
qed

text \<open>The label of a record's identity and a token it is linked to.\<close>

definition label_root :: "string list list \<Rightarrow> string list \<Rightarrow> string \<Rightarrow> bool" where
  "label_root Us U r \<longleftrightarrow> linked (set ` set Us) (hd U) r \<and>
     disk_class Us U \<in> {Some (''disk:'' @ r), Some (''stable:'' @ r), Some (''names:'' @ r)}"

lemma name_class_linked: "linked (set ` set Us) t (find_class (name_classes Us) t)"
  unfolding name_classes_def by (rule linked_sub [OF class_linked]) auto

lemma label_root_exists:
  assumes U: "U \<in> set Us" and some: "disk_class Us U \<noteq> None"
  shows "\<exists>r. label_root Us U r"
proof -
  from some have ne: "U \<noteq> []" by (auto simp: disk_class_def)
  let ?g = "find_class (name_classes Us) (hd U)"
  consider (disk) "\<not> in_conflict Us U" | (stable) "in_conflict Us U" "filter stable_token U \<noteq> []"
    | (names) "in_conflict Us U" "filter stable_token U = []" by blast
  then show ?thesis
  proof cases
    case disk
    then have "label_root Us U (find_class (classes_of Us) (hd U))"
      by (simp add: label_root_def disk_class_def ne class_linked)
    then show ?thesis ..
  next
    case stable
    then have "label_root Us U (stable_root Us U)"
      by (simp add: label_root_def disk_class_def ne stable_root_linked [OF U])
    then show ?thesis ..
  next
    case names
    let ?roots = "attached_by_group Us ?g"
    show ?thesis
    proof (cases "length ?roots = 1")
      case True
      then obtain r where r: "?roots = [r]" by (cases ?roots) auto
      then have "r \<in> set ?roots" by simp
      then obtain t where "(t, r) \<in> set (attached Us)" and t: "find_class (name_classes Us) t = ?g"
        by (auto simp: attached_by_group_def)
      then obtain V where V: "V \<in> set Us" "filter stable_token V \<noteq> []" "t \<in> set V" "r = stable_root Us V"
        by (auto simp: attached_iff)
      have "linked (set ` set Us) (hd U) ?g" "linked (set ` set Us) ?g t"
        using name_class_linked [of Us] t linked_sym by (metis, metis)
      moreover have "linked (set ` set Us) t (hd V)" using V by (intro linked_in [of "set V"]) (auto intro: head_in)
      moreover have "linked (set ` set Us) (hd V) r" using stable_root_linked [OF V(1,2)] V(4) by simp
      ultimately have "linked (set ` set Us) (hd U) r" by (meson linked_trans)
      then have "label_root Us U r" using names r by (simp add: label_root_def disk_class_def ne)
      then show ?thesis ..
    next
      case False
      with some names have "label_root Us U ?g"
        using name_class_linked [of Us "hd U"] by (auto simp: label_root_def disk_class_def ne Let_def split: if_splits)
      then show ?thesis ..
    qed
  qed
qed

lemma label_root_unique: "label_root Us U r \<Longrightarrow> label_root Us V r' \<Longrightarrow> disk_class Us U = disk_class Us V \<Longrightarrow> r = r'"
  by (auto simp: label_root_def)

lemma same_identity_linked:
  assumes U: "U \<in> set Us" and V: "V \<in> set Us" and eq: "disk_class Us U = disk_class Us V" "disk_class Us U \<noteq> None"
  shows "linked (set ` set Us) (hd U) (hd V)"
proof -
  obtain r where r: "label_root Us U r" using label_root_exists [OF U eq(2)] ..
  obtain r' where r': "label_root Us V r'" using label_root_exists [OF V] eq by auto
  from label_root_unique [OF r r' eq(1)] r r' show ?thesis
    by (metis label_root_def linked_sym linked_trans)
qed


subsection \<open>The tokens of records\<close>

lemma filter_remdups_length: "length (filter P xs) \<le> 1 \<Longrightarrow> length (filter P (remdups xs)) \<le> 1"
  by (metis remdups_filter length_remdups_leq order_trans)

lemma device_tokens_not_stable: "filter is_serial (device_token v) = []" "filter is_lun (device_token v) = []"
  by (simp_all add: device_token_def is_serial_def is_lun_def starts_with_def split: option.split)

lemma concat_device_tokens:
  "filter is_serial (concat (map device_token vs)) = []" "filter is_lun (concat (map device_token vs)) = []"
  by (simp_all add: filter_concat comp_def device_tokens_not_stable)

lemma tokens_single: "single_named (logical_disk_identity_tokens serial lun gptid names)"
proof -
  let ?s = "case clean serial of None \<Rightarrow> [] | Some s \<Rightarrow> [''serial:'' @ s]"
  let ?l = "case clean lun of None \<Rightarrow> [] | Some l \<Rightarrow> [''lun:'' @ l]"
  let ?g = "case clean gptid of None \<Rightarrow> [] | Some g \<Rightarrow> if bare_device_mapper_name g then []
           else [''gptid:'' @ py_lower (or_else (normalize_gptid (Some g)) g)]"
  have "filter is_serial ?g = []" "filter is_lun ?g = []" "filter is_serial ?l = []" "filter is_lun ?s = []"
    by (simp_all add: is_serial_def is_lun_def starts_with_def split: option.split)
  moreover have "length (filter is_serial ?s) \<le> 1" "length (filter is_lun ?l) \<le> 1"
    by (simp_all split: option.split)
  ultimately show ?thesis
    unfolding single_named_def logical_disk_identity_tokens_def
    by (intro conjI filter_remdups_length) (simp_all only: filter_append concat_device_tokens append_Nil append_Nil2)
qed

lemma scope_single: "single_named T \<Longrightarrow> single_named (scope_node_local_tokens T scope)"
proof (cases scope)
  case (Some node)
  define f where "f t = (if starts_with ''dev:'' t \<or> (starts_with ''gptid:'' t \<and> drop 6 t \<in> drop 4 ` {t \<in> set T. starts_with ''dev:'' t})
    then ''node['' @ node @ '']/'' @ t else t)" for t
  have scoped: "scope_node_local_tokens T scope = remdups (map f T)"
    by (simp add: scope_node_local_tokens_def Some f_def [abs_def] Let_def)
  have "is_serial (f t) = is_serial t" "is_lun (f t) = is_lun t" for t
    by (auto simp: f_def is_serial_def is_lun_def starts_with_iff)
  then have "filter is_serial (map f T) = map f (filter is_serial T)" "filter is_lun (map f T) = map f (filter is_lun T)"
    by (simp_all add: filter_map comp_def)
  moreover assume "single_named T"
  ultimately show ?thesis unfolding single_named_def scoped
    by (intro conjI filter_remdups_length) simp_all
qed (simp add: scope_node_local_tokens_def)

lemma list_all_map2: "(\<And>x y. P (f x y)) \<Longrightarrow> list_all P (map2 f xs ys)"
  by (auto simp: list_all_iff)

lemma record_tokens_single: "list_all single_named (source_tokens disks dscopes @ rendered_tokens slots sscopes)"
proof -
  have "list_all single_named (source_tokens disks dscopes)"
    unfolding source_tokens_def disk_record_identity_tokens_def
    by (rule list_all_map2) (rule scope_single, rule tokens_single)
  moreover have "list_all single_named (rendered_tokens slots sscopes)"
    unfolding rendered_tokens_def slot_identity_tokens_def
    using list_all_map2 [of single_named "\<lambda>s. scope_node_local_tokens (logical_disk_identity_tokens (slot_serial s)
        (slot_logical_unit_id s) (slot_gptid s) ([slot_device_name s] @ slot_smart_device_names s @ multipath_names s))"]
      scope_single [OF tokens_single]
    by (auto simp: list_all_iff)
  ultimately show ?thesis by simp
qed

lemma length_source_tokens: "scopes_fit disks dscopes \<Longrightarrow> length (source_tokens disks dscopes) = length disks"
  by (auto simp: source_tokens_def scopes_fit_def split: option.splits)

lemma length_rendered_tokens: "length (rendered_tokens slots sscopes) \<le> length slots"
  by (auto simp: rendered_tokens_def intro: order_trans [OF length_filter_le])

lemma length_identity_classes [simp]: "length (identity_classes Ts) = length Ts"
  by (simp add: identity_classes_def rename_shared_luns_def Let_def)

lemma identity_nth: "i < length Ts \<Longrightarrow> identity_classes Ts ! i = disk_class (rename_shared_luns Ts) (rename_shared_luns Ts ! i)"
  by (simp add: identity_classes_def rename_shared_luns_def Let_def)

lemma renamed_nth: "i < length Ts \<Longrightarrow> rename_shared_luns Ts ! i \<in> set (rename_shared_luns Ts)"
  by (rule nth_mem) (simp add: rename_shared_luns_def)

lemma renamed_serial_in:
  assumes "i < length Ts" "t \<in> set (Ts ! i)" "is_serial t"
  shows "t \<in> set (rename_shared_luns Ts ! i)"
proof -
  have "renamed Ts t \<in> set (rename_shared_luns Ts ! i)" using assms by (simp add: rename_shared_luns_alt)
  then show ?thesis using renamed_serial(2) [OF assms(3)] by simp
qed

subsection \<open>Properties\<close>

text \<open>The union-find of the accounting is exact: after joining token sets, the class of a token is
  named by the least token that a chain of sets links to it, and two tokens have one name iff a chain
  links them. Neither the order of the sets nor the order inside a set matters.\<close>

theorem union_find_refines_linkage:
  "find_class (classes_of Ts) t = Min {u. linked (set ` set Ts) t u} \<and>
   (find_class (classes_of Ts) t = find_class (classes_of Ts) u \<longleftrightarrow> linked (set ` set Ts) t u)"
proof
  have sub: "{u. linked (set ` set Ts) t u} \<subseteq> insert t (set (concat Ts))"
  proof
    fix u assume "u \<in> {u. linked (set ` set Ts) t u}"
    then have "(t, u) \<in> (links (set ` set Ts))\<^sup>*" by (simp add: linked_def)
    then show "u \<in> insert t (set (concat Ts))" by (cases rule: rtranclE) (auto simp: links_def)
  qed
  show "find_class (classes_of Ts) t = Min {u. linked (set ` set Ts) t u}"
    by (rule Min_eqI [symmetric]) (use class_least class_linked finite_subset [OF sub] in auto)
qed (rule class_eq)

text \<open>The iteration order of Python sets does not leak: token sets with the same elements, in
  whatever order they are iterated, give the same identities.\<close>

theorem identities_order_free:
  assumes "same_sets Ts Us"
  shows "identity_classes Ts = identity_classes Us"
proof -
  note s = rename_same [OF assms]
  have len: "length Ts = length Us" using assms by (simp add: same_sets_def list_all2_lengthD)
  show ?thesis
  proof (rule nth_equalityI)
    fix i assume "i < length (identity_classes Ts)"
    then have i: "i < length Ts" "i < length Us" using len by simp_all
    have "set (rename_shared_luns Ts ! i) = set (rename_shared_luns Us ! i)"
      using s i by (auto simp: same_sets_def list_all2_conv_all_nth rename_shared_luns_def)
    then show "identity_classes Ts ! i = identity_classes Us ! i"
      by (simp add: identity_nth i disk_class_same [OF s renamed_nth [OF i(1)] renamed_nth [OF i(2)]])
  qed (simp add: len)
qed

theorem identities_order_free_witness:
  "identity_classes [[''serial:a'', ''dev:x''], [''dev:x'', ''dev:y'']]
     = identity_classes [[''dev:x'', ''serial:a''], [''dev:y'', ''dev:x'']]"
  by (rule identities_order_free) (auto simp: same_sets_def)

text \<open>C24: Serials decide. Whatever else two records carry, a source disk or a rendered slot that reports a
  serial always gets an identity, and two of them get the same one iff their serials are the same: a
  shared device name, GPT label or RAID LUN id never merges two disks, and a lost name never splits one.\<close>

theorem serials_decide_identity:
  assumes "Ts = source_tokens disks dscopes @ rendered_tokens slots sscopes"
    and "i < length Ts" "''serial:'' @ a \<in> set (Ts ! i)"
    and "j < length Ts" "''serial:'' @ b \<in> set (Ts ! j)"
  shows "identity_classes Ts ! i \<noteq> None \<and> (identity_classes Ts ! i = identity_classes Ts ! j \<longleftrightarrow> a = b)"
proof -
  have Ts: "list_all single_named Ts" unfolding assms(1) by (rule record_tokens_single)
  have ser: "is_serial (''serial:'' @ x)" for x by (simp add: is_serial_def starts_with_def)
  note ia = renamed_nth [OF assms(2)] renamed_serial_in [OF assms(2,3) ser] ser
  note jb = renamed_nth [OF assms(4)] renamed_serial_in [OF assms(4,5) ser] ser
  have "identity_classes Ts ! i \<noteq> None"
    unfolding identity_nth [OF assms(2)] disk_class_serial [OF ia] by simp
  moreover have "identity_classes Ts ! i = identity_classes Ts ! j \<longleftrightarrow> ''serial:'' @ a = ''serial:'' @ b"
    unfolding identity_nth [OF assms(2)] identity_nth [OF assms(4)]
    by (rule disk_class_separates [OF Ts refl ia jb])
  ultimately show ?thesis by simp
qed


text \<open>Two disks of one HA pair under the same device name, seen from two nodes.\<close>

definition sample_disk :: "string \<Rightarrow> disk_record" where
  "sample_disk serial = \<lparr>disk_serial = VStr serial, disk_lunid = VNone, disk_identifier = VNone,
     disk_device_name = VStr ''sda'', disk_path_device_name = VNone, disk_multipath_name = VNone,
     disk_multipath_member = VNone, disk_smart_devices = []\<rparr>"

definition sample_slot :: "string \<Rightarrow> slot_view" where
  "sample_slot serial = \<lparr>slot_serial = VStr serial, slot_logical_unit_id = VNone, slot_gptid = VNone,
     slot_device_name = VStr ''sda'', slot_smart_device_names = [], slot_multipath = None\<rparr>"

lemma sample_tokens:
  "source_tokens [sample_disk ''A'', sample_disk ''B''] None = [[''serial:a'', ''dev:sda''], [''serial:b'', ''dev:sda'']]"
  "rendered_tokens [sample_slot '' a''] None = [[''serial:a'', ''dev:sda'']]"
  by code_simp+

theorem serials_decide_identity_witness:
  "identity_classes [[''serial:a'', ''dev:sda''], [''serial:b'', ''dev:sda''], [''serial:a'', ''dev:sda'']] ! 0
     \<noteq> identity_classes [[''serial:a'', ''dev:sda''], [''serial:b'', ''dev:sda''], [''serial:a'', ''dev:sda'']] ! 1"
  using serials_decide_identity [of "[[''serial:a'', ''dev:sda''], [''serial:b'', ''dev:sda''], [''serial:a'', ''dev:sda'']]"
    "[sample_disk ''A'', sample_disk ''B'']" None "[sample_slot '' a'']" None 0 "''a''" 1 "''b''"]
  by (simp add: sample_tokens)

lemma split_identities:
  assumes "scopes_fit disks dscopes"
  shows "identity_classes (source_tokens disks dscopes @ rendered_tokens slots sscopes)
    = source_identities disks slots dscopes sscopes @ rendered_identities disks slots dscopes sscopes"
  by (simp add: source_identities_def rendered_identities_def)

lemma length_source_identities: "scopes_fit disks dscopes \<Longrightarrow>
    length (source_identities disks slots dscopes sscopes) = length disks"
  by (simp add: source_identities_def length_source_tokens)

lemma length_rendered_identities: "scopes_fit disks dscopes \<Longrightarrow>
    length (rendered_identities disks slots dscopes sscopes) = length (rendered_tokens slots sscopes)"
  by (simp add: rendered_identities_def length_source_tokens)

lemma filter_zip_snd_Nil:
  "length xs = length ys \<Longrightarrow> (filter (\<lambda>(x, y). P y) (zip xs ys) = []) = list_all (\<lambda>y. \<not> P y) ys"
  by (induction xs ys rule: list_induct2) auto

lemma filter_missing_Nil:
  assumes "length disks = length Ts" "length Ts = length ids"
  shows "(filter (\<lambda>((d, T), i). P i) (zip (zip disks Ts) ids) = []) = list_all (\<lambda>i. \<not> P i) ids"
  using filter_zip_snd_Nil [of "zip disks Ts" ids P] assms by (simp add: case_prod_unfold)

lemma retention_facts:
  "case build_disk_retention_accounting disks slots dscopes sscopes of
     None \<Rightarrow> \<not> (scopes_fit disks dscopes \<and> scopes_fit slots sscopes)
   | Some r \<Rightarrow> scopes_fit disks dscopes \<and> scopes_fit slots sscopes \<and>
       source_disk_count r = length disks \<and>
       rendered_unique_disk_count r + duplicate_disk_view_count r
         = length (filter (\<lambda>i. i \<noteq> None) (rendered_identities disks slots dscopes sscopes)) \<and>
       rendered_unique_disk_count r + duplicate_disk_view_count r \<le> length slots \<and>
       rendered_unique_disk_count r = card (set (rendered_identities disks slots dscopes sscopes) - {None}) \<and>
       (unplaced_disk_count r = 0 \<longleftrightarrow> set (source_identities disks slots dscopes sscopes)
          \<subseteq> set (rendered_identities disks slots dscopes sscopes) - {None}) \<and>
       bare_device_mapper_unplaced_count r \<le> unplaced_disk_count r \<and> unplaced_disk_count r \<le> length disks"
proof (cases "scopes_fit disks dscopes \<and> scopes_fit slots sscopes")
  case True
  let ?src = "source_identities disks slots dscopes sscopes" let ?ren = "rendered_identities disks slots dscopes sscopes"
  let ?views = "filter (\<lambda>i. i \<noteq> None) ?ren"
  let ?P = "\<lambda>i. i = None \<or> i \<notin> set (remdups ?views)"
  let ?rows = "zip (zip disks (source_tokens disks dscopes)) ?src"
  let ?missing = "filter (\<lambda>((d, T), i). ?P i) ?rows"
  have len: "length disks = length (source_tokens disks dscopes)" "length (source_tokens disks dscopes) = length ?src"
    using True by (simp_all add: length_source_tokens length_source_identities)
  have none: "(?missing = []) = (set ?src \<subseteq> set ?ren - {None})"
    unfolding filter_missing_Nil [OF len] by (auto simp: list_all_iff)
  have views: "length ?views \<le> length slots"
    using True by (intro order_trans [OF length_filter_le]) (simp add: length_rendered_identities length_rendered_tokens)
  have unique: "length (remdups ?views) = card (set ?ren - {None})"
    by (simp add: length_remdups_card_conv) (rule arg_cong [of _ _ card], auto)
  let ?bare = "filter (\<lambda>((d, T), i). T = [] \<and> has_bare_name d) ?missing"
  have result: "build_disk_retention_accounting disks slots dscopes sscopes =
      Some \<lparr>source_disk_count = length disks, rendered_unique_disk_count = card (set ?ren - {None}),
        duplicate_disk_view_count = length ?views - card (set ?ren - {None}),
        unplaced_disk_count = length ?missing, bare_device_mapper_unplaced_count = length ?bare\<rparr>"
    using True unique len(1) by (simp only: build_disk_retention_accounting_def Let_def simp_thms if_False)
  have "length ?missing \<le> length disks" using len by (intro order_trans [OF length_filter_le]) simp
  moreover have "length ?bare \<le> length ?missing" by (rule length_filter_le)
  moreover have "card (set ?ren - {None}) \<le> length ?views" unfolding unique [symmetric] by (rule length_remdups_leq)
  ultimately show ?thesis
    unfolding result option.case retention.simps using True none views length_0_conv [of ?missing] by (intro conjI) linarith+
qed (auto simp: build_disk_retention_accounting_def)

text \<open>The totals. The only failure is a scope list of the wrong length. Otherwise every source disk
  is counted; unique disks and duplicate views add up to the rendered views that have an identity, which
  are no more than the slots; no disk is unplaced exactly when every source disk has an identity and a
  rendered view has it too; and the bare device-mapper total is part of the unplaced total.\<close>

theorem retention_totals:
  "case build_disk_retention_accounting disks slots dscopes sscopes of
     None \<Rightarrow> \<not> (scopes_fit disks dscopes \<and> scopes_fit slots sscopes)
   | Some r \<Rightarrow> scopes_fit disks dscopes \<and> scopes_fit slots sscopes \<and>
       source_disk_count r = length disks \<and>
       rendered_unique_disk_count r + duplicate_disk_view_count r
         = length (filter (\<lambda>i. i \<noteq> None) (rendered_identities disks slots dscopes sscopes)) \<and>
       rendered_unique_disk_count r + duplicate_disk_view_count r \<le> length slots \<and>
       rendered_unique_disk_count r = card (set (rendered_identities disks slots dscopes sscopes) - {None}) \<and>
       (unplaced_disk_count r = 0 \<longleftrightarrow> set (source_identities disks slots dscopes sscopes)
          \<subseteq> set (rendered_identities disks slots dscopes sscopes) - {None}) \<and>
       bare_device_mapper_unplaced_count r \<le> unplaced_disk_count r \<and> unplaced_disk_count r \<le> length disks"
  by (rule retention_facts)

text \<open>C27: A zero is proof of retention. When the accounting reports no unplaced disk, every source disk
  carries a token, and a chain of records that share tokens leads from it to a rendered slot with the
  same identity.\<close>

theorem retained_disks_are_rendered:
  assumes "build_disk_retention_accounting disks slots dscopes sscopes = Some r" "unplaced_disk_count r = 0"
    and "i < length disks" and Ts: "Ts = source_tokens disks dscopes @ rendered_tokens slots sscopes"
  shows "Ts ! i \<noteq> [] \<and> (\<exists>j. length disks \<le> j \<and> j < length Ts \<and> identity_classes Ts ! j = identity_classes Ts ! i \<and>
    linked (set ` set (rename_shared_luns Ts)) (hd (rename_shared_luns Ts ! i)) (hd (rename_shared_luns Ts ! j)))"
proof -
  let ?src = "source_identities disks slots dscopes sscopes" let ?ren = "rendered_identities disks slots dscopes sscopes"
  have fit: "scopes_fit disks dscopes" and sub: "set ?src \<subseteq> set ?ren - {None}"
    using retention_facts [where disks = disks and slots = slots and dscopes = dscopes and sscopes = sscopes] assms(1,2) by (simp_all split: option.splits)
  have len: "length ?src = length disks" using fit by (rule length_source_identities)
  have ids: "identity_classes Ts = ?src @ ?ren" unfolding Ts using fit by (rule split_identities)
  then have iT: "i < length Ts" using assms(3) len by (metis length_append length_identity_classes trans_less_add1)
  have "?src ! i \<in> set ?src" using assms(3) len by simp
  with sub obtain k where k: "k < length ?ren" "?ren ! k = ?src ! i" and some: "?src ! i \<noteq> None"
    by (metis DiffE in_set_conv_nth insertI1 subset_iff)
  let ?j = "length disks + k"
  have j: "?j < length Ts" using k(1) ids len by (metis add_less_cancel_left length_append length_identity_classes)
  have same: "identity_classes Ts ! ?j = identity_classes Ts ! i" "identity_classes Ts ! i \<noteq> None"
    using k some assms(3) len by (simp_all add: ids nth_append)
  have "linked (set ` set (rename_shared_luns Ts)) (hd (rename_shared_luns Ts ! i)) (hd (rename_shared_luns Ts ! ?j))"
    using same by (intro same_identity_linked renamed_nth iT j) (simp_all add: identity_nth iT j)
  moreover have "Ts ! i \<noteq> []"
    using same(2) by (auto simp: identity_nth [OF iT] disk_class_def rename_shared_luns_def iT)
  ultimately show ?thesis using j same(1) by (intro conjI exI [of _ ?j]) simp_all
qed


lemma sample_accounting: "build_disk_retention_accounting [sample_disk ''A''] [sample_slot ''a ''] None None =
    Some \<lparr>source_disk_count = 1, rendered_unique_disk_count = 1, duplicate_disk_view_count = 0,
      unplaced_disk_count = 0, bare_device_mapper_unplaced_count = 0\<rparr>"
  by code_simp

theorem retained_disks_are_rendered_witness:
  "\<exists>j. 1 \<le> j \<and> j < 2 \<and>
    identity_classes (source_tokens [sample_disk ''A''] None @ rendered_tokens [sample_slot ''a ''] None) ! j
      = identity_classes (source_tokens [sample_disk ''A''] None @ rendered_tokens [sample_slot ''a ''] None) ! 0"
proof -
  have "length (source_tokens [sample_disk ''A''] None @ rendered_tokens [sample_slot ''a ''] None) = 2" by code_simp
  then show ?thesis
    using retained_disks_are_rendered [OF sample_accounting _ _ refl, of 0] by auto
qed

end
