(* ===== verification/History_Domain.thy ===== *)
theory History_Domain
  imports Prelude
begin

text \<open>
  Slot history records and events, from \<open>history_service/domain.py\<close>: normalising the values of a snapshot,
  the record of one slot, and the events between two records. Python's \<open>str\<close>, \<open>int\<close> and truth value
  of a list, a dict or a float are parameters (\<open>py_env\<close>); of the other values they are modelled.
\<close>

record py_env =
  str_other :: "py_value \<Rightarrow> string"
  int_other :: int
  truth_other :: bool

subsection \<open>Tables\<close>

definition field_labels :: "(string \<times> string) list" where
  "field_labels = [
    (''present'', ''Present''), (''state'', ''State''), (''identify_active'', ''Identify Active''),
    (''health'', ''Health''), (''device_name'', ''Device''), (''serial'', ''Serial''), (''model'', ''Model''),
    (''gptid'', ''Persistent ID''), (''persistent_id_label'', ''Persistent ID Type''),
    (''logical_unit_id'', ''Logical Unit ID''), (''sas_address'', ''SAS Address''), (''pool_name'', ''Pool''),
    (''vdev_name'', ''Vdev''), (''topology_label'', ''Topology''), (''multipath_device'', ''Multipath Device''),
    (''multipath_mode'', ''Multipath Mode''), (''multipath_state'', ''Multipath State''),
    (''multipath_lunid'', ''LUN ID''), (''multipath_primary_path'', ''Primary Path''),
    (''multipath_alternate_path'', ''Alternate Path''), (''multipath_active_paths'', ''Active Paths''),
    (''multipath_passive_paths'', ''Passive Paths''), (''multipath_failed_paths'', ''Failed Paths''),
    (''multipath_other_paths'', ''Other Paths''), (''multipath_active_controllers'', ''Active Controllers''),
    (''multipath_passive_controllers'', ''Passive Controllers''),
    (''multipath_failed_controllers'', ''Failed Controllers'')]"

definition event_groups :: "(string \<times> string list) list" where
  "event_groups = [
    (''slot_state_changed'', [''present'', ''state'', ''identify_active'', ''health'']),
    (''slot_identity_changed'', [''device_name'', ''serial'', ''model'', ''gptid'', ''logical_unit_id'', ''sas_address'']),
    (''slot_topology_changed'', [''pool_name'', ''vdev_name'', ''topology_label'']),
    (''slot_multipath_changed'', [''multipath_device'', ''multipath_mode'', ''multipath_state'', ''multipath_lunid'',
       ''multipath_primary_path'', ''multipath_alternate_path'', ''multipath_active_paths'',
       ''multipath_passive_paths'', ''multipath_failed_paths'', ''multipath_other_paths'',
       ''multipath_active_controllers'', ''multipath_passive_controllers'', ''multipath_failed_controllers''])]"

subsection \<open>Values\<close>

definition py_truth :: "py_env \<Rightarrow> py_value \<Rightarrow> bool" where
  "py_truth E v = (case v of VNone \<Rightarrow> False | VBool b \<Rightarrow> b | VInt n \<Rightarrow> n \<noteq> 0 | VStr s \<Rightarrow> s \<noteq> ''''
     | VList xs \<Rightarrow> xs \<noteq> [] | VDict d \<Rightarrow> d \<noteq> [] | VOther \<Rightarrow> truth_other E)"

definition py_or :: "py_env \<Rightarrow> py_value \<Rightarrow> py_value \<Rightarrow> py_value" where
  "py_or E a b = (if py_truth E a then a else b)"

definition py_str :: "py_env \<Rightarrow> py_value \<Rightarrow> string" where
  "py_str E v = (case v of VNone \<Rightarrow> ''None'' | VBool b \<Rightarrow> (if b then ''True'' else ''False'') | VInt n \<Rightarrow> int_str n
     | VStr s \<Rightarrow> s | _ \<Rightarrow> str_other E v)"

text \<open>\<open>int(text)\<close>: white space around, one sign, digits with single underscores between them; \<open>None\<close> is the
  \<open>ValueError\<close>, and the \<open>TypeError\<close> of a list or a dict.\<close>

definition int_of_text :: "string \<Rightarrow> int option" where
  "int_of_text s =
     (let t = py_strip s;
          negative = starts_with ''-'' t;
          body = (if negative \<or> starts_with ''+'' t then drop 1 t else t);
          groups = split_on (CHR ''_'') body
      in if list_all (\<lambda>g. g \<noteq> [] \<and> list_all ascii_digit g) groups
         then map_option (\<lambda>n. if negative then - int n else int n) (py_int (concat groups)) else None)"

definition py_int_of :: "py_env \<Rightarrow> py_value \<Rightarrow> int option" where
  "py_int_of E v = (case v of VBool b \<Rightarrow> Some (if b then 1 else 0) | VInt n \<Rightarrow> Some n | VStr s \<Rightarrow> int_of_text s
     | VOther \<Rightarrow> Some (int_other E) | _ \<Rightarrow> None)"

definition normalize_value_text :: "py_env \<Rightarrow> py_value \<Rightarrow> string option" where
  "normalize_value_text E v = (if v = VNone then None
     else let text = py_strip (py_str E v) in if text = '''' then None else Some text)"

definition normalize_sas_address :: "py_env \<Rightarrow> py_value \<Rightarrow> string option" where
  "normalize_sas_address E v = (case normalize_value_text E v of None \<Rightarrow> None
     | Some text \<Rightarrow>
         (let normalized = py_lower text; hex_digits = remove_prefix ''0x'' normalized
          in if hex_digits \<noteq> [] \<and> list_all (\<lambda>c. c = CHR ''0'') hex_digits then None else Some normalized))"

definition as_bool :: "py_env \<Rightarrow> py_value \<Rightarrow> bool" where
  "as_bool E v = (case v of VBool b \<Rightarrow> b | VInt n \<Rightarrow> n \<noteq> 0 | VOther \<Rightarrow> truth_other E
     | VStr s \<Rightarrow> py_lower (py_strip s) \<in> {''1'', ''true'', ''yes'', ''on''} | _ \<Rightarrow> False)"

definition unique_join :: "py_env \<Rightarrow> py_value list \<Rightarrow> string option" where
  "unique_join E vs = (let parts = rev (remdups (rev (List.map_filter (normalize_value_text E) vs)))
     in if parts = [] then None else Some (join '', '' parts))"

definition build_disk_identity_key :: "py_env \<Rightarrow> py_value \<Rightarrow> py_value \<Rightarrow> py_value \<Rightarrow> string option" where
  "build_disk_identity_key E serial label persistent =
     (case normalize_value_text E serial of None \<Rightarrow> None
      | Some s \<Rightarrow> (case normalize_value_text E persistent of None \<Rightarrow> None
        | Some p \<Rightarrow> Some (py_lower s @ ''|'' @
            py_lower (case normalize_value_text E label of None \<Rightarrow> ''unknown'' | Some l \<Rightarrow> l) @ ''|'' @ py_lower p)))"

datatype member_bucket = ActivePath | PassivePath | FailedPath | OtherPath

definition classify_multipath_member_state :: "py_env \<Rightarrow> py_value \<Rightarrow> member_bucket" where
  "classify_multipath_member_state E v = (case normalize_value_text E v of None \<Rightarrow> OtherPath
     | Some name \<Rightarrow> (let state = py_upper name
         in if state = ''ACTIVE'' then ActivePath
            else if state = ''PASSIVE'' then PassivePath
            else if state \<in> {''FAIL'', ''FAILED'', ''FAULT'', ''OFFLINE'', ''LOST''} then FailedPath
            else OtherPath))"

subsection \<open>Records\<close>

record slot_state =
  ss_system_id :: string
  ss_system_label :: "string option"
  ss_enclosure_key :: string
  ss_enclosure_id :: "string option"
  ss_enclosure_label :: "string option"
  ss_slot :: int
  ss_slot_label :: string
  ss_present :: bool
  ss_state :: "string option"
  ss_identify_active :: bool
  ss_device_name :: "string option"
  ss_serial :: "string option"
  ss_model :: "string option"
  ss_gptid :: "string option"
  ss_pool_name :: "string option"
  ss_vdev_name :: "string option"
  ss_health :: "string option"
  ss_persistent_id_label :: "string option"
  ss_disk_identity_key :: "string option"
  ss_logical_unit_id :: "string option"
  ss_sas_address :: "string option"
  ss_topology_label :: "string option"
  ss_multipath_device :: "string option"
  ss_multipath_mode :: "string option"
  ss_multipath_state :: "string option"
  ss_multipath_lunid :: "string option"
  ss_multipath_primary_path :: "string option"
  ss_multipath_alternate_path :: "string option"
  ss_multipath_active_paths :: "string option"
  ss_multipath_passive_paths :: "string option"
  ss_multipath_failed_paths :: "string option"
  ss_multipath_other_paths :: "string option"
  ss_multipath_active_controllers :: "string option"
  ss_multipath_passive_controllers :: "string option"
  ss_multipath_failed_controllers :: "string option"


subsection \<open>Stored values\<close>

fun opt_value :: "string option \<Rightarrow> py_value" where
  "opt_value None = VNone"
| "opt_value (Some s) = VStr s"

text \<open>\<open>__post_init__\<close>: a missing identity key is derived from the stored fields.\<close>

definition fill_identity_key :: "py_env \<Rightarrow> slot_state \<Rightarrow> slot_state" where
  "fill_identity_key E r = (case ss_disk_identity_key r of Some k \<Rightarrow> r
     | None \<Rightarrow> r\<lparr>ss_disk_identity_key := build_disk_identity_key E (opt_value (ss_serial r))
         (opt_value (ss_persistent_id_label r)) (opt_value (ss_gptid r))\<rparr>)"

definition slot_number_text :: "int \<Rightarrow> string" where
  "slot_number_text n = (if n < 0 then int_str n else two_digits (nat n))"

text \<open>The members of a multipath payload that are dicts; \<open>None\<close> is the \<open>TypeError\<close> of a value that
  cannot be iterated.\<close>

definition multipath_members :: "py_env \<Rightarrow> (string \<times> py_value) list \<Rightarrow> (string \<times> py_value) list list option" where
  "multipath_members E m =
     (let v = dict_get m ''members''
      in if \<not> py_truth E v then Some []
         else (case v of
             VList xs \<Rightarrow> Some (List.map_filter (\<lambda>x. case x of VDict d \<Rightarrow> Some d | _ \<Rightarrow> None) xs)
           | VDict d \<Rightarrow> Some [] | VStr s \<Rightarrow> Some [] | _ \<Rightarrow> None))"

definition member_bucket_of :: "py_env \<Rightarrow> (string \<times> py_value) list \<Rightarrow> member_bucket" where
  "member_bucket_of E d = classify_multipath_member_state E (py_or E (dict_get d ''state'') (dict_get d ''mode''))"

definition bucket_values :: "py_env \<Rightarrow> member_bucket \<Rightarrow> string \<Rightarrow> (string \<times> py_value) list list \<Rightarrow> py_value list" where
  "bucket_values E b field members = map (\<lambda>d. dict_get d field) (filter (\<lambda>d. member_bucket_of E d = b) members)"

text \<open>The record of a slot from its numbers, its multipath payload and the members of that.\<close>

definition slot_record :: "py_env \<Rightarrow> (string \<times> py_value) list \<Rightarrow> (string \<times> py_value) list \<Rightarrow> int \<Rightarrow>
    (string \<times> py_value) list option \<Rightarrow> (string \<times> py_value) list list \<Rightarrow> slot_state" where
  "slot_record E snapshot payload number multipath members =
     (let text = (\<lambda>field. normalize_value_text E (dict_get payload field));
          m_get = (\<lambda>field. case multipath of None \<Rightarrow> VNone | Some m \<Rightarrow> dict_get m field);
          joined = (\<lambda>b field. unique_join E (bucket_values E b field members));
          enclosure_id = normalize_value_text E (py_or E (dict_get payload ''enclosure_id'') (dict_get snapshot ''selected_enclosure_id''))
      in \<lparr>
        ss_system_id = (case normalize_value_text E (dict_get snapshot ''selected_system_id'') of None \<Rightarrow> ''default'' | Some s \<Rightarrow> s),
        ss_system_label = normalize_value_text E (dict_get snapshot ''selected_system_label''),
        ss_enclosure_key = (case enclosure_id of None \<Rightarrow> '''' | Some e \<Rightarrow> e),
        ss_enclosure_id = enclosure_id,
        ss_enclosure_label = normalize_value_text E (py_or E (dict_get payload ''enclosure_label'') (dict_get snapshot ''selected_enclosure_label'')),
        ss_slot = number,
        ss_slot_label = (case text ''slot_label'' of None \<Rightarrow> slot_number_text number | Some l \<Rightarrow> l),
        ss_present = as_bool E (dict_get payload ''present''),
        ss_state = text ''state'',
        ss_identify_active = as_bool E (dict_get payload ''identify_active''),
        ss_device_name = text ''device_name'',
        ss_serial = text ''serial'',
        ss_model = text ''model'',
        ss_gptid = text ''gptid'',
        ss_pool_name = text ''pool_name'',
        ss_vdev_name = text ''vdev_name'',
        ss_health = text ''health'',
        ss_persistent_id_label = text ''persistent_id_label'',
        ss_disk_identity_key = build_disk_identity_key E (dict_get payload ''serial'')
          (dict_get payload ''persistent_id_label'') (dict_get payload ''gptid''),
        ss_logical_unit_id = (case text ''logical_unit_id'' of None \<Rightarrow> normalize_value_text E (m_get ''lunid'') | Some l \<Rightarrow> Some l),
        ss_sas_address = normalize_sas_address E (dict_get payload ''sas_address''),
        ss_topology_label = text ''topology_label'',
        ss_multipath_device = normalize_value_text E (m_get ''device_name''),
        ss_multipath_mode = normalize_value_text E (m_get ''mode''),
        ss_multipath_state = normalize_value_text E (py_or E (m_get ''state'') (m_get ''provider_state'')),
        ss_multipath_lunid = normalize_value_text E (m_get ''lunid''),
        ss_multipath_primary_path = normalize_value_text E (m_get ''path_device_name''),
        ss_multipath_alternate_path = normalize_value_text E (m_get ''alternate_path_device''),
        ss_multipath_active_paths = joined ActivePath ''device_name'',
        ss_multipath_passive_paths = joined PassivePath ''device_name'',
        ss_multipath_failed_paths = joined FailedPath ''device_name'',
        ss_multipath_other_paths = joined OtherPath ''device_name'',
        ss_multipath_active_controllers = joined ActivePath ''controller_label'',
        ss_multipath_passive_controllers = joined PassivePath ''controller_label'',
        ss_multipath_failed_controllers = joined FailedPath ''controller_label''\<rparr>)"

definition from_snapshot_slot ::
    "py_env \<Rightarrow> (string \<times> py_value) list \<Rightarrow> (string \<times> py_value) list \<Rightarrow> slot_state option" where
  "from_snapshot_slot E snapshot payload =
     (case py_int_of E (py_or E (dict_get payload ''slot'') (VInt 0)) of None \<Rightarrow> None
      | Some number \<Rightarrow>
         (let multipath = (case dict_get payload ''multipath'' of VDict m \<Rightarrow> Some m | _ \<Rightarrow> None)
          in map_option (\<lambda>members. fill_identity_key E (slot_record E snapshot payload number multipath members))
               (case multipath of None \<Rightarrow> Some [] | Some m \<Rightarrow> multipath_members E m)))"

subsection \<open>Comparing two records\<close>

datatype field_value = FlagField bool | TextField "string option"

definition slot_fields :: "slot_state \<Rightarrow> (string \<times> field_value) list" where
  "slot_fields r = [
    (''present'', FlagField (ss_present r)), (''state'', TextField (ss_state r)),
    (''identify_active'', FlagField (ss_identify_active r)), (''health'', TextField (ss_health r)),
    (''device_name'', TextField (ss_device_name r)), (''serial'', TextField (ss_serial r)),
    (''model'', TextField (ss_model r)), (''gptid'', TextField (ss_gptid r)),
    (''logical_unit_id'', TextField (ss_logical_unit_id r)), (''sas_address'', TextField (ss_sas_address r)),
    (''pool_name'', TextField (ss_pool_name r)), (''vdev_name'', TextField (ss_vdev_name r)),
    (''topology_label'', TextField (ss_topology_label r)),
    (''multipath_device'', TextField (ss_multipath_device r)), (''multipath_mode'', TextField (ss_multipath_mode r)),
    (''multipath_state'', TextField (ss_multipath_state r)), (''multipath_lunid'', TextField (ss_multipath_lunid r)),
    (''multipath_primary_path'', TextField (ss_multipath_primary_path r)),
    (''multipath_alternate_path'', TextField (ss_multipath_alternate_path r)),
    (''multipath_active_paths'', TextField (ss_multipath_active_paths r)),
    (''multipath_passive_paths'', TextField (ss_multipath_passive_paths r)),
    (''multipath_failed_paths'', TextField (ss_multipath_failed_paths r)),
    (''multipath_other_paths'', TextField (ss_multipath_other_paths r)),
    (''multipath_active_controllers'', TextField (ss_multipath_active_controllers r)),
    (''multipath_passive_controllers'', TextField (ss_multipath_passive_controllers r)),
    (''multipath_failed_controllers'', TextField (ss_multipath_failed_controllers r))]"

definition slot_field :: "slot_state \<Rightarrow> string \<Rightarrow> field_value" where
  "slot_field r f = (case map_of (slot_fields r) f of None \<Rightarrow> TextField None | Some v \<Rightarrow> v)"

definition filled :: "string option \<Rightarrow> bool" where
  "filled v \<longleftrightarrow> v \<noteq> None \<and> v \<noteq> Some ''''"

definition stable_disk_identity :: "slot_state \<Rightarrow> slot_state \<Rightarrow> bool" where
  "stable_disk_identity p c \<longleftrightarrow>
     ss_serial p = ss_serial c \<and> ss_gptid p = ss_gptid c \<and> ss_logical_unit_id p = ss_logical_unit_id c \<and>
     (filled (ss_serial p) \<or> filled (ss_gptid p) \<or> filled (ss_logical_unit_id p) \<or>
      (filled (ss_disk_identity_key p) \<and> ss_disk_identity_key p = ss_disk_identity_key c))"

text \<open>\<open>None\<close> is the \<open>ValueError\<close> of \<open>int\<close> on a superscript digit, which \<open>isdigit\<close> accepts.\<close>

definition sas_dual_path_addresses_equivalent :: "string option \<Rightarrow> string option \<Rightarrow> bool option" where
  "sas_dual_path_addresses_equivalent old new = (case (old, new) of
       (Some o_text, Some n_text) \<Rightarrow>
         (let o_hex = remove_prefix ''0x'' o_text; n_hex = remove_prefix ''0x'' n_text
          in if o_text = '''' \<or> n_text = '''' then Some False
             else if length o_hex \<noteq> length n_hex \<or> length o_hex < 2 then Some False
             else if butlast o_hex \<noteq> butlast n_hex then Some False
             else if \<not> (py_isdigit [last o_hex] \<and> py_isdigit [last n_hex]) then Some False
             else (case (py_int [last o_hex], py_int [last n_hex]) of
                 (Some a, Some b) \<Rightarrow> Some (\<bar>int a - int b\<bar> \<le> 3) | _ \<Rightarrow> None))
     | _ \<Rightarrow> Some False)"

definition field_values_equal :: "py_env \<Rightarrow> slot_state \<Rightarrow> slot_state \<Rightarrow> string \<Rightarrow> bool option" where
  "field_values_equal E p c f =
     (if f \<noteq> ''sas_address'' then Some (slot_field p f = slot_field c f)
      else (let old = normalize_sas_address E (opt_value (ss_sas_address p));
                new = normalize_sas_address E (opt_value (ss_sas_address c))
        in if old = new then Some True
           else if stable_disk_identity p c then sas_dual_path_addresses_equivalent old new
           else Some False))"

subsection \<open>Events\<close>

record slot_event =
  se_observed_at :: string
  se_system_id :: string
  se_system_label :: "string option"
  se_enclosure_key :: string
  se_enclosure_id :: "string option"
  se_enclosure_label :: "string option"
  se_slot :: int
  se_slot_label :: string
  se_event_type :: string
  se_previous_value :: "string option"
  se_current_value :: "string option"
  se_device_name :: "string option"
  se_serial :: "string option"
  se_details_json :: string
  se_gptid :: "string option"
  se_persistent_id_label :: "string option"
  se_disk_identity_key :: "string option"
  se_logical_unit_id :: "string option"
  se_sas_address :: "string option"

definition fill_event_key :: "py_env \<Rightarrow> slot_event \<Rightarrow> slot_event" where
  "fill_event_key E e = (case se_disk_identity_key e of Some k \<Rightarrow> e
     | None \<Rightarrow> e\<lparr>se_disk_identity_key := build_disk_identity_key E (opt_value (se_serial e))
         (opt_value (se_persistent_id_label e)) (opt_value (se_gptid e))\<rparr>)"

definition or_text :: "string option \<Rightarrow> string option \<Rightarrow> string option" where
  "or_text a b = (if filled a then a else b)"

definition filled_texts :: "string option list \<Rightarrow> string list" where
  "filled_texts vs = List.map_filter id (filter filled vs)"

definition summarize_record :: "slot_state option \<Rightarrow> string \<Rightarrow> string option" where
  "summarize_record record event_type = (case record of None \<Rightarrow> None
     | Some r \<Rightarrow>
         if event_type = ''slot_state_changed'' then
           map_option (\<lambda>state. state @ '' / '' @ (if ss_identify_active r then ''identify'' else ''steady''))
             (or_text (ss_state r) (Some (if ss_present r then ''present'' else ''empty'')))
         else if event_type = ''slot_identity_changed'' then
           or_text (ss_serial r) (or_text (ss_device_name r) (or_text (ss_gptid r) (Some ''unknown disk'')))
         else if event_type = ''slot_topology_changed'' then
           or_text (ss_topology_label r) (or_text (Some (join '' / '' (filled_texts [ss_pool_name r, ss_vdev_name r])))
             (Some ''unassigned''))
         else if event_type = ''slot_multipath_changed'' then
           (if \<not> filled (ss_multipath_device r) \<and> \<not> filled (ss_multipath_primary_path r) \<and> \<not> filled (ss_multipath_alternate_path r)
            then Some ''no multipath''
            else Some (join '' / '' (
              filled_texts [or_text (ss_multipath_device r) (Some ''direct path set''), ss_multipath_state r] @
              (if filled (ss_multipath_active_paths r) then map (\<lambda>s. ''active '' @ s) (filled_texts [ss_multipath_active_paths r])
               else map (\<lambda>s. ''primary '' @ s) (filled_texts [ss_multipath_primary_path r])) @
              map (\<lambda>s. ''failed '' @ s) (filled_texts [ss_multipath_failed_paths r]))))
         else or_text (ss_serial r) (or_text (ss_device_name r) (Some (ss_slot_label r))))"

text \<open>\<open>json.dumps(changes, sort_keys=True)\<close>.\<close>

fun json_field_value :: "field_value \<Rightarrow> string" where
  "json_field_value (FlagField b) = (if b then ''true'' else ''false'')"
| "json_field_value (TextField None) = ''null''"
| "json_field_value (TextField (Some s)) = json_string s"

type_synonym field_change = "string \<times> string \<times> field_value \<times> field_value"

definition json_change :: "field_change \<Rightarrow> string" where
  "json_change c = (case c of (field, label, old, new) \<Rightarrow> json_string field @ '': {'' @
     json_string ''current'' @ '': '' @ json_field_value new @ '', '' @
     json_string ''label'' @ '': '' @ json_string label @ '', '' @
     json_string ''previous'' @ '': '' @ json_field_value old @ ''}'')"

definition details_json :: "field_change list \<Rightarrow> string" where
  "details_json changes = ''{'' @ join '', '' (map json_change (sort_key fst changes)) @ ''}''"

fun field_changes :: "py_env \<Rightarrow> slot_state \<Rightarrow> slot_state \<Rightarrow> string list \<Rightarrow> field_change list option" where
  "field_changes E p c [] = Some []"
| "field_changes E p c (f # fs) = (case field_values_equal E p c f of None \<Rightarrow> None
     | Some same \<Rightarrow> (case field_changes E p c fs of None \<Rightarrow> None
       | Some rest \<Rightarrow> Some (if same then rest
           else (f, (case map_of field_labels f of None \<Rightarrow> f | Some l \<Rightarrow> l), slot_field p f, slot_field c f) # rest)))"

definition make_event :: "py_env \<Rightarrow> slot_state \<Rightarrow> slot_state \<Rightarrow> string \<Rightarrow> string \<Rightarrow> field_change list \<Rightarrow> slot_event" where
  "make_event E p c observed_at event_type changes = fill_event_key E \<lparr>
     se_observed_at = observed_at, se_system_id = ss_system_id c, se_system_label = ss_system_label c,
     se_enclosure_key = ss_enclosure_key c, se_enclosure_id = ss_enclosure_id c,
     se_enclosure_label = ss_enclosure_label c, se_slot = ss_slot c, se_slot_label = ss_slot_label c,
     se_event_type = event_type, se_previous_value = summarize_record (Some p) event_type,
     se_current_value = summarize_record (Some c) event_type, se_device_name = ss_device_name c,
     se_serial = ss_serial c, se_details_json = details_json changes, se_gptid = ss_gptid c,
     se_persistent_id_label = ss_persistent_id_label c, se_disk_identity_key = ss_disk_identity_key c,
     se_logical_unit_id = ss_logical_unit_id c, se_sas_address = ss_sas_address c\<rparr>"

fun group_events :: "py_env \<Rightarrow> slot_state \<Rightarrow> slot_state \<Rightarrow> string \<Rightarrow> (string \<times> string list) list \<Rightarrow> slot_event list option" where
  "group_events E p c t [] = Some []"
| "group_events E p c t ((event_type, names) # groups) =
     (if event_type \<noteq> ''slot_state_changed'' \<and> ss_present p \<noteq> ss_present c then group_events E p c t groups
      else (case field_changes E p c names of None \<Rightarrow> None
        | Some changes \<Rightarrow> (case group_events E p c t groups of None \<Rightarrow> None
          | Some rest \<Rightarrow> Some (if changes = [] then rest else make_event E p c t event_type changes # rest))))"

definition build_slot_events :: "py_env \<Rightarrow> slot_state option \<Rightarrow> slot_state \<Rightarrow> string \<Rightarrow> slot_event list option" where
  "build_slot_events E previous c observed_at = (case previous of None \<Rightarrow> Some []
     | Some p \<Rightarrow> group_events E p c observed_at event_groups)"


subsection \<open>Which fields count as changed\<close>

text \<open>Two SAS addresses of one disk: the same digits but for the last, a decimal port at most three apart.\<close>

definition same_disk_path :: "string \<Rightarrow> string \<Rightarrow> bool" where
  "same_disk_path old new \<longleftrightarrow> (\<exists>stem a b. stem \<noteq> [] \<and> a < 10 \<and> b < 10 \<and> \<bar>int a - int b\<bar> \<le> 3 \<and>
     remove_prefix ''0x'' old = stem @ [digit_char a] \<and> remove_prefix ''0x'' new = stem @ [digit_char b])"

definition same_field :: "py_env \<Rightarrow> slot_state \<Rightarrow> slot_state \<Rightarrow> string \<Rightarrow> bool" where
  "same_field E p c f \<longleftrightarrow>
     (if f \<noteq> ''sas_address'' then slot_field p f = slot_field c f
      else (let old = normalize_sas_address E (opt_value (ss_sas_address p));
                new = normalize_sas_address E (opt_value (ss_sas_address c))
        in old = new \<or> (stable_disk_identity p c \<and> (\<exists>o_text n_text. old = Some o_text \<and> new = Some n_text \<and> same_disk_path o_text n_text))))"

definition ascii_text :: "string option \<Rightarrow> bool" where
  "ascii_text v \<longleftrightarrow> (case v of None \<Rightarrow> True | Some s \<Rightarrow> list_all (\<lambda>c. (of_char c :: nat) < 128) s)"

lemma py_int_digit: "ascii_digit c \<Longrightarrow> py_int [c] = Some (digit_value c)"
  by (simp add: py_int_def)

lemma digit_char_value: "ascii_digit c \<Longrightarrow> digit_char (digit_value c) = c \<and> digit_value c < 10"
proof -
  assume "ascii_digit c"
  then have "48 \<le> (of_char c :: nat)" "(of_char c :: nat) \<le> 57" by (auto simp: ascii_digit_def Let_def)
  then have "(of_char c :: nat) - 48 < 10" "48 + ((of_char c :: nat) - 48) = of_char c" "(of_char c :: nat) < 65" by auto
  moreover have "char_of (of_char c :: nat) = c" by simp
  ultimately show ?thesis by (simp only: digit_char_def digit_value_def Let_def if_True)
qed

lemma ascii_isdigit: "(of_char c :: nat) < 128 \<Longrightarrow> py_isdigit [c] = ascii_digit c"
  by (auto simp: py_isdigit_def py_isdigit_char_def)

lemma remove_prefix_subset: "set (remove_prefix p s) \<subseteq> set s"
  by (auto simp: remove_prefix_def dest: in_set_dropD)

lemma dual_path_exact:
  assumes o_ascii: "list_all (\<lambda>c. (of_char c :: nat) < 128) old" and n_ascii: "list_all (\<lambda>c. (of_char c :: nat) < 128) new"
  shows "sas_dual_path_addresses_equivalent (Some old) (Some new) = Some (same_disk_path old new)"
proof -
  let ?o = "remove_prefix ''0x'' old" let ?n = "remove_prefix ''0x'' new"
  have last: "x \<noteq> [] \<Longrightarrow> set x \<subseteq> set y \<Longrightarrow> list_all (\<lambda>c. (of_char c :: nat) < 128) y \<Longrightarrow> (of_char (last x) :: nat) < 128" for x y
    using last_in_set by (fastforce simp: list_all_iff)
  show ?thesis
  proof (cases "length ?o = length ?n \<and> \<not> length ?o < 2 \<and> butlast ?o = butlast ?n")
    case True
    then have ne: "?o \<noteq> []" "?n \<noteq> []" "old \<noteq> []" "new \<noteq> []" "butlast ?o \<noteq> []"
      by (auto simp: remove_prefix_def starts_with_def butlast_conv_take split: if_splits)
    have d: "py_isdigit [last ?o] = ascii_digit (last ?o)" "py_isdigit [last ?n] = ascii_digit (last ?n)"
      using last [OF ne(1) remove_prefix_subset o_ascii] last [OF ne(2) remove_prefix_subset n_ascii] by (simp_all add: ascii_isdigit)
    have split: "?o = butlast ?o @ [last ?o]" "?n = butlast ?o @ [last ?n]"
      using append_butlast_last_id [OF ne(1)] append_butlast_last_id [OF ne(2)] True by metis+
    show ?thesis
    proof (cases "ascii_digit (last ?o) \<and> ascii_digit (last ?n)")
      case digits: True
      note dv = digit_char_value [OF conjunct1 [OF digits]] digit_char_value [OF conjunct2 [OF digits]]
      have "same_disk_path old new \<longleftrightarrow> \<bar>int (digit_value (last ?o)) - int (digit_value (last ?n))\<bar> \<le> 3"
      proof
        assume "same_disk_path old new"
        then obtain stem a b where s: "a < 10" "b < 10" "\<bar>int a - int b\<bar> \<le> 3" "?o = stem @ [digit_char a]" "?n = stem @ [digit_char b]"
          by (auto simp: same_disk_path_def)
        from s(4,5) have "last ?o = digit_char a" "last ?n = digit_char b" by simp_all
        with s show "\<bar>int (digit_value (last ?o)) - int (digit_value (last ?n))\<bar> \<le> 3" by simp
      next
        assume "\<bar>int (digit_value (last ?o)) - int (digit_value (last ?n))\<bar> \<le> 3"
        with dv split ne(5) show "same_disk_path old new"
          unfolding same_disk_path_def by (metis (no_types, lifting))
      qed
      then show ?thesis using True ne digits
        by (simp add: sas_dual_path_addresses_equivalent_def Let_def d py_int_digit)
    next
      case False
      then have "\<not> same_disk_path old new"
        by (auto simp: same_disk_path_def)
      then show ?thesis using True ne False
        by (simp add: sas_dual_path_addresses_equivalent_def Let_def d)
    qed
  next
    case False
    then have "\<not> same_disk_path old new" by (auto simp: same_disk_path_def)
    then show ?thesis using False
      by (auto simp: sas_dual_path_addresses_equivalent_def Let_def)
  qed
qed

lemma lower_ascii: "(of_char c :: nat) < 128 \<Longrightarrow> (of_char (lower_char c) :: nat) < 128"
  by (simp add: lower_char_def Let_def)

lemma strip_subset: "set (py_strip s) \<subseteq> set s"
  by (auto simp: py_strip_def dest!: set_dropWhileD)

lemma normalize_sas_ascii:
  assumes "ascii_text v" "normalize_sas_address E (opt_value v) = Some s"
  shows "list_all (\<lambda>c. (of_char c :: nat) < 128) s"
proof (cases v)
  case (Some t)
  with assms(2) have "s = py_lower (py_strip t)"
    by (auto simp: normalize_sas_address_def normalize_value_text_def py_str_def Let_def split: if_splits option.splits)
  with assms(1) Some strip_subset [of t] show ?thesis
    by (auto simp: ascii_text_def list_all_iff py_lower_def lower_ascii)
qed (use assms(2) in \<open>simp add: normalize_sas_address_def normalize_value_text_def\<close>)

lemma field_values_equal_exact:
  assumes "ascii_text (ss_sas_address p)" "ascii_text (ss_sas_address c)"
  shows "field_values_equal E p c f = Some (same_field E p c f)"
proof (cases "f = ''sas_address''")
  case True
  let ?old = "normalize_sas_address E (opt_value (ss_sas_address p))"
  let ?new = "normalize_sas_address E (opt_value (ss_sas_address c))"
  have "sas_dual_path_addresses_equivalent ?old ?new
      = Some (\<exists>o_text n_text. ?old = Some o_text \<and> ?new = Some n_text \<and> same_disk_path o_text n_text)"
  proof (cases "?old = None \<or> ?new = None")
    case True
    then show ?thesis by (auto simp: sas_dual_path_addresses_equivalent_def split: option.splits)
  next
    case False
    then obtain a b where "?old = Some a" "?new = Some b" by auto
    with dual_path_exact [OF normalize_sas_ascii [OF assms(1)] normalize_sas_ascii [OF assms(2)]] show ?thesis by simp
  qed
  then show ?thesis using True by (simp add: field_values_equal_def same_field_def Let_def)
qed (simp add: field_values_equal_def same_field_def)

definition change_of :: "slot_state \<Rightarrow> slot_state \<Rightarrow> string \<Rightarrow> field_change" where
  "change_of p c f = (f, (case map_of field_labels f of None \<Rightarrow> f | Some l \<Rightarrow> l), slot_field p f, slot_field c f)"

lemma field_changes_exact:
  assumes "ascii_text (ss_sas_address p)" "ascii_text (ss_sas_address c)"
  shows "field_changes E p c fs = Some (map (change_of p c) (filter (\<lambda>f. \<not> same_field E p c f) fs))"
  by (induction fs) (simp_all add: field_values_equal_exact [OF assms] change_of_def)

definition reported_groups :: "py_env \<Rightarrow> slot_state \<Rightarrow> slot_state \<Rightarrow> (string \<times> string list) list \<Rightarrow> (string \<times> string list) list" where
  "reported_groups E p c groups = filter (\<lambda>(g, fs). (g = ''slot_state_changed'' \<or> ss_present p = ss_present c) \<and>
     filter (\<lambda>f. \<not> same_field E p c f) fs \<noteq> []) groups"

lemma group_events_exact:
  assumes "ascii_text (ss_sas_address p)" "ascii_text (ss_sas_address c)"
  shows "group_events E p c t groups = Some (map (\<lambda>(g, fs). make_event E p c t g
    (map (change_of p c) (filter (\<lambda>f. \<not> same_field E p c f) fs))) (reported_groups E p c groups))"
proof (induction groups)
  case (Cons g groups)
  obtain k fs where g: "g = (k, fs)" by fastforce
  show ?case using Cons by (simp add: g reported_groups_def field_changes_exact [OF assms])
qed (simp add: reported_groups_def)

lemma make_event_facts:
  "se_event_type (make_event E p c t g ch) = g" "se_observed_at (make_event E p c t g ch) = t"
  "se_details_json (make_event E p c t g ch) = details_json ch"
  "se_slot (make_event E p c t g ch) = ss_slot c" "se_serial (make_event E p c t g ch) = ss_serial c"
  "se_enclosure_key (make_event E p c t g ch) = ss_enclosure_key c" "se_system_id (make_event E p c t g ch) = ss_system_id c"
  "se_previous_value (make_event E p c t g ch) = summarize_record (Some p) g"
  "se_current_value (make_event E p c t g ch) = summarize_record (Some c) g"
  by (simp_all add: make_event_def fill_event_key_def split: option.split)


subsection \<open>Well-formed records\<close>

definition clean_text :: "string option \<Rightarrow> bool" where
  "clean_text v \<longleftrightarrow> (case v of None \<Rightarrow> True | Some s \<Rightarrow> s \<noteq> '''' \<and> py_strip s = s)"

definition text_fields :: "slot_state \<Rightarrow> string option list" where
  "text_fields r = [ss_system_label r, ss_enclosure_id r, ss_enclosure_label r, ss_state r, ss_device_name r,
     ss_serial r, ss_model r, ss_gptid r, ss_pool_name r, ss_vdev_name r, ss_health r, ss_persistent_id_label r,
     ss_logical_unit_id r, ss_sas_address r, ss_topology_label r, ss_multipath_device r, ss_multipath_mode r,
     ss_multipath_state r, ss_multipath_lunid r, ss_multipath_primary_path r, ss_multipath_alternate_path r,
     ss_multipath_active_paths r, ss_multipath_passive_paths r, ss_multipath_failed_paths r,
     ss_multipath_other_paths r, ss_multipath_active_controllers r, ss_multipath_passive_controllers r,
     ss_multipath_failed_controllers r, Some (ss_system_id r), Some (ss_slot_label r)]"

definition well_formed_slot :: "py_env \<Rightarrow> slot_state \<Rightarrow> bool" where
  "well_formed_slot E r \<longleftrightarrow> list_all clean_text (text_fields r) \<and>
     ss_enclosure_key r = (case ss_enclosure_id r of None \<Rightarrow> '''' | Some e \<Rightarrow> e) \<and>
     ss_disk_identity_key r = build_disk_identity_key E (opt_value (ss_serial r)) (opt_value (ss_persistent_id_label r))
       (opt_value (ss_gptid r)) \<and>
     normalize_sas_address E (opt_value (ss_sas_address r)) = ss_sas_address r"

lemma clean_text_simps [simp]: "clean_text None" "clean_text (Some s) = (s \<noteq> '''' \<and> py_strip s = s)"
  by (simp_all add: clean_text_def)

lemma normalize_clean: "clean_text (normalize_value_text E v)"
  by (simp add: normalize_value_text_def Let_def)

lemma normalize_text_opt: "clean_text t \<Longrightarrow> normalize_value_text E (opt_value t) = t"
  by (cases t) (auto simp: normalize_value_text_def py_str_def Let_def)

lemma normalize_text_again [simp]: "normalize_value_text E (opt_value (normalize_value_text E v)) = normalize_value_text E v"
  by (rule normalize_text_opt) (rule normalize_clean)

lemma identity_key_again [simp]:
  "build_disk_identity_key E (opt_value (normalize_value_text E s)) (opt_value (normalize_value_text E l)) (opt_value (normalize_value_text E p))
     = build_disk_identity_key E s l p"
  by (simp add: build_disk_identity_key_def split: option.split)

lemma isspace_lower: "py_isspace (lower_char c) = py_isspace c"
  by (auto simp: py_isspace_def lower_char_def Let_def)

lemma lower_char_idem: "lower_char (lower_char c) = lower_char c"
  by (simp add: lower_char_def Let_def)

lemma py_lower_idem [simp]: "py_lower (py_lower s) = py_lower s"
  by (simp add: py_lower_def lower_char_idem)

lemma strip_lower: "py_strip s = s \<Longrightarrow> py_strip (py_lower s) = py_lower s"
proof (cases "s = []")
  case False
  assume s: "py_strip s = s"
  have "\<not> py_isspace (hd s)" "\<not> py_isspace (last s)" using py_strip_ends [of s] s False by auto
  then have "\<not> py_isspace (hd (py_lower s))" "\<not> py_isspace (last (py_lower s))"
    using False by (simp_all add: py_lower_def hd_map last_map isspace_lower)
  then show ?thesis using False by (intro py_strip_id) (simp_all add: py_lower_def)
qed (simp add: py_lower_def)

lemma py_lower_eq_Nil: "py_lower s = [] \<longleftrightarrow> s = []"
  by (simp add: py_lower_def)

lemma sas_clean: "clean_text (normalize_sas_address E v)"
  using normalize_clean [of E v]
  by (auto simp: normalize_sas_address_def Let_def strip_lower py_lower_eq_Nil split: option.split)

lemma sas_again: "normalize_sas_address E (opt_value (normalize_sas_address E v)) = normalize_sas_address E v"
proof (cases "normalize_sas_address E v")
  case (Some s)
  then have low: "py_lower s = s"
    by (auto simp: normalize_sas_address_def Let_def split: option.splits if_splits)
  have nz: "\<not> (remove_prefix ''0x'' s \<noteq> [] \<and> list_all (\<lambda>c. c = CHR ''0'') (remove_prefix ''0x'' s))"
    using Some by (auto simp: normalize_sas_address_def Let_def split: option.splits if_splits)
  have "normalize_value_text E (opt_value (Some s)) = Some s" using sas_clean [of E v] Some by (intro normalize_text_opt) simp
  then show ?thesis using Some low nz by (simp add: normalize_sas_address_def Let_def)
qed (simp add: normalize_sas_address_def normalize_value_text_def)

lemma hd_join: "ps \<noteq> [] \<Longrightarrow> hd ps \<noteq> [] \<Longrightarrow> join sep ps \<noteq> [] \<and> hd (join sep ps) = hd (hd ps)"
  by (cases "(sep, ps)" rule: join.cases) auto

lemma last_join: "ps \<noteq> [] \<Longrightarrow> last ps \<noteq> [] \<Longrightarrow> join sep ps \<noteq> [] \<and> last (join sep ps) = last (last ps)"
  by (induction sep ps rule: join.induct) auto

lemma unique_join_clean: "clean_text (unique_join E vs)"
proof -
  let ?ps = "rev (remdups (rev (List.map_filter (normalize_value_text E) vs)))"
  have part: "p \<noteq> [] \<and> py_strip p = p" if "p \<in> set ?ps" for p
    using that normalize_clean [of E] by (auto simp: in_set_map_filter) (metis clean_text_simps(2))+
  show ?thesis
  proof (cases "?ps = []")
    case False
    then have "hd ?ps \<in> set ?ps" "last ?ps \<in> set ?ps" by (rule hd_in_set, rule last_in_set)
    note h = part [OF this(1)] and l = part [OF this(2)]
    have "\<not> py_isspace (hd (hd ?ps))" "\<not> py_isspace (last (last ?ps))"
      using py_strip_ends [of "hd ?ps"] py_strip_ends [of "last ?ps"] h l by auto
    with hd_join [OF False conjunct1 [OF h], of "'', ''"] last_join [OF False conjunct1 [OF l], of "'', ''"]
    have "py_strip (join '', '' ?ps) = join '', '' ?ps" "join '', '' ?ps \<noteq> []" by (simp_all add: py_strip_id)
    then show ?thesis using False by (simp add: unique_join_def Let_def)
  qed (simp add: unique_join_def)
qed

lemma number_text_clean: "slot_number_text n \<noteq> '''' \<and> py_strip (slot_number_text n) = slot_number_text n"
proof -
  have ok: "x \<noteq> [] \<Longrightarrow> \<forall>c\<in>set x. \<not> py_isspace c \<Longrightarrow> py_strip x = x" for x
    by (rule py_strip_id) simp_all
  have digits: "\<not> py_isspace c" if "c \<in> set (nat_str m)" for c m
    using that nat_str_digits [of m] by (auto simp: list_all_iff ascii_digit_def py_isspace_def Let_def)
  have "\<not> py_isspace (CHR ''-'')" "\<not> py_isspace (CHR ''0'')" by code_simp+
  with digits have "\<forall>c\<in>set (slot_number_text n). \<not> py_isspace c"
    by (auto simp: slot_number_text_def int_str_def two_digits_def pad_left_def)
  moreover have "slot_number_text n \<noteq> []" by (simp add: slot_number_text_def int_str_def two_digits_def pad_left_def)
  ultimately show ?thesis using ok by blast
qed

lemma slot_record_clean: "list_all clean_text (text_fields (slot_record E snapshot payload number multipath members))"
proof -
  have default: "(case normalize_value_text E v of None \<Rightarrow> d | Some s \<Rightarrow> s) \<noteq> '''' \<and>
      py_strip (case normalize_value_text E v of None \<Rightarrow> d | Some s \<Rightarrow> s) = (case normalize_value_text E v of None \<Rightarrow> d | Some s \<Rightarrow> s)"
    if "d \<noteq> '''' \<and> py_strip d = d" for d v
    using that normalize_clean [of E v] by (cases "normalize_value_text E v") auto
  have either: "clean_text (case normalize_value_text E v of None \<Rightarrow> normalize_value_text E w | Some l \<Rightarrow> Some l)" for v w
    using normalize_clean [of E v] normalize_clean [of E w] by (cases "normalize_value_text E v") auto
  have "py_strip ''default'' = ''default''" by code_simp
  then show ?thesis
    by (simp add: text_fields_def slot_record_def Let_def normalize_clean sas_clean unique_join_clean number_text_clean default either)
qed

lemma slot_record_well_formed: "well_formed_slot E (slot_record E snapshot payload number multipath members)"
  unfolding well_formed_slot_def
  by (intro conjI slot_record_clean) (simp_all add: slot_record_def Let_def sas_again)

lemma fill_well_formed:
  assumes "well_formed_slot E r"
  shows "fill_identity_key E r = r"
proof -
  have "r\<lparr>ss_disk_identity_key := ss_disk_identity_key r\<rparr> = r" by (cases r) simp
  with assms show ?thesis by (auto simp: well_formed_slot_def fill_identity_key_def split: option.split)
qed

subsection \<open>Properties\<close>

text \<open>Records are well-formed. Whatever values a snapshot holds, if its slot number can be read and its
  multipath members can be iterated, a record results; every text of it is absent or non-empty without white
  space around, its enclosure key spells its enclosure id, its identity key is the one its stored serial
  and persistent id give, so constructing it again from the stored columns does not change it, and its SAS
  address is normal and never all zero.\<close>

theorem snapshot_record_well_formed:
  "case from_snapshot_slot E snapshot payload of
     None \<Rightarrow> py_int_of E (py_or E (dict_get payload ''slot'') (VInt 0)) = None \<or>
       (\<exists>m. dict_get payload ''multipath'' = VDict m \<and> multipath_members E m = None)
   | Some r \<Rightarrow> well_formed_slot E r \<and> fill_identity_key E r = r \<and>
       (\<forall>z. ss_sas_address r \<noteq> Some (''0x'' @ replicate (Suc z) (CHR ''0'')))"
proof -
  have wf: "well_formed_slot E (slot_record E snapshot payload n m ds)" for n m ds
    by (rule slot_record_well_formed)
  have zero: "ss_sas_address r \<noteq> Some (''0x'' @ replicate (Suc z) (CHR ''0''))" if "well_formed_slot E r" for r z
  proof
    assume a: "ss_sas_address r = Some (''0x'' @ replicate (Suc z) (CHR ''0''))"
    have c: "clean_text (ss_sas_address r)" "normalize_sas_address E (opt_value (ss_sas_address r)) = ss_sas_address r"
      using that by (simp_all add: well_formed_slot_def text_fields_def)
    have n: "normalize_value_text E (opt_value (ss_sas_address r)) = ss_sas_address r" by (rule normalize_text_opt [OF c(1)])
    have low: "py_lower (''0x'' @ replicate (Suc z) (CHR ''0'')) = ''0x'' @ replicate (Suc z) (CHR ''0'')"
    proof -
      have "lower_char (CHR ''0'') = CHR ''0''" "lower_char (CHR ''x'') = CHR ''x''" by code_simp+
      then show ?thesis by (simp add: py_lower_def)
    qed
    from c(2) n a low show False
      by (simp add: normalize_sas_address_def Let_def remove_prefix_def starts_with_def list_all_iff)
  qed
  show ?thesis
    using wf zero [OF wf] fill_well_formed [OF wf]
    by (auto simp: from_snapshot_slot_def Let_def split: option.splits py_value.splits)
qed

text \<open>C26: Events are exactly the changes. For records whose SAS addresses are ASCII, comparing succeeds,
  and there is one event per group with a changed field, in the order of the groups; when the presence of a
  disk changed, only the state group is reported. Two SAS addresses of one disk that differ only by up to
  three in their last, decimal digit are not a change. Each event carries the place and disk of the current
  record, the two summaries, and the JSON of exactly the changed fields. The first record of a slot gives
  no event.\<close>

theorem slot_events_exact:
  assumes "ascii_text (ss_sas_address p)" "ascii_text (ss_sas_address c)"
  shows "\<exists>events. build_slot_events E (Some p) c t = Some events \<and> build_slot_events E None c t = Some [] \<and>
    map se_event_type events = map fst (reported_groups E p c event_groups) \<and>
    map se_details_json events
      = map (\<lambda>(g, names). details_json (map (change_of p c) (filter (\<lambda>f. \<not> same_field E p c f) names)))
          (reported_groups E p c event_groups) \<and>
    list_all (\<lambda>e. se_observed_at e = t \<and> se_system_id e = ss_system_id c \<and> se_enclosure_key e = ss_enclosure_key c \<and>
      se_slot e = ss_slot c \<and> se_serial e = ss_serial c \<and>
      se_previous_value e = summarize_record (Some p) (se_event_type e) \<and>
      se_current_value e = summarize_record (Some c) (se_event_type e)) events \<and>
    (ss_present p \<noteq> ss_present c \<longrightarrow> map se_event_type events = [''slot_state_changed''])"
proof -
  define evs where "evs = map (\<lambda>(g, names). make_event E p c t g
    (map (change_of p c) (filter (\<lambda>f. \<not> same_field E p c f) names))) (reported_groups E p c event_groups)"
  have some: "build_slot_events E (Some p) c t = Some evs" "build_slot_events E None c t = Some []"
    by (simp_all add: build_slot_events_def group_events_exact [OF assms] evs_def)
  have types: "map se_event_type evs = map fst (reported_groups E p c event_groups)"
    by (simp add: evs_def make_event_facts comp_def case_prod_unfold)
  have presence: "map fst (reported_groups E p c event_groups) = [''slot_state_changed'']" if "ss_present p \<noteq> ss_present c"
  proof -
    have "\<not> same_field E p c ''present''" using that by (simp add: same_field_def slot_field_def slot_fields_def)
    then show ?thesis using that by (simp add: reported_groups_def event_groups_def)
  qed
  show ?thesis
    by (rule exI [of _ evs])
      (use types presence in \<open>simp add: some, simp add: evs_def make_event_facts case_prod_unfold list_all_iff\<close>)
qed

definition sample_env :: py_env where
  "sample_env = \<lparr>str_other = (\<lambda>v. ''{}''), int_other = 0, truth_other = True\<rparr>"

definition sample_record :: "string \<Rightarrow> slot_state" where
  "sample_record address = slot_record sample_env []
     [(''present'', VBool True), (''serial'', VStr ''A1''), (''sas_address'', VStr address)] 3 None []"

theorem slot_events_exact_witness:
  "build_slot_events sample_env (Some (sample_record ''0x5000c1'')) (sample_record ''0x5000c4'') ''now'' = Some []"
proof -
  have ascii: "ascii_text (ss_sas_address (sample_record ''0x5000c1''))" "ascii_text (ss_sas_address (sample_record ''0x5000c4''))"
    by code_simp+
  have none: "reported_groups sample_env (sample_record ''0x5000c1'') (sample_record ''0x5000c4'') event_groups = []"
  proof -
    have "list_all (\<lambda>(g, names). list_all (\<lambda>f. field_values_equal sample_env (sample_record ''0x5000c1'') (sample_record ''0x5000c4'') f
        = Some True) names) event_groups"
      by code_simp
    then show ?thesis
      by (auto simp: reported_groups_def list_all_iff filter_empty_conv field_values_equal_exact [OF ascii])
  qed
  from slot_events_exact [OF ascii, of sample_env "''now''"] none show ?thesis by auto
qed

end
