(* ===== verification/Fault_Families.thy ===== *)
theory Fault_Families
  imports Prelude
begin

text \<open>
  The fault families of SAS and SCSI diagnostics, from \<open>app/services/sas_diagnostics/common.py\<close>: labels,
  severities, priorities and likely layers. A family is a text; an unknown one has the defaults of the code.
\<close>

subsection \<open>Tables\<close>

definition fault_family_labels :: "(string \<times> string) list" where
  "fault_family_labels = [
    (''sas_protocol'', ''SAS protocol error''), (''link_loss'', ''SAS link loss''), (''timeout'', ''SAS timeout''),
    (''bus_reset'', ''SCSI bus reset''), (''controller_terminated_io'', ''Controller terminated IO''),
    (''controller_configuration'', ''Controller configuration error''), (''sas_transport'', ''SAS transport error''),
    (''device_path_exception'', ''Device/path exception''), (''ses_enclosure'', ''SES/enclosure management error''),
    (''logical_unit_communication'', ''Logical unit communication error''),
    (''target_failure'', ''Target/device failure''), (''protection_error'', ''Block protection error''),
    (''data_buffer_error'', ''Data buffer transfer error''), (''pcie_fabric'', ''PCIe fabric error''),
    (''cam_error'', ''CAM transport error''), (''scsi_status'', ''SCSI status''), (''retry'', ''Command retry''),
    (''recovered_data'', ''Recovered data/media error''), (''write_protect'', ''Write protection''),
    (''failure_prediction'', ''Failure prediction''), (''log_exception'', ''SCSI log exception''),
    (''power_condition'', ''SCSI power condition''), (''unit_attention'', ''Device state change''),
    (''medium_format'', ''Medium format/defect error''), (''enclosure_warning'', ''SES/enclosure warning''),
    (''write_error'', ''Write error''), (''read_error'', ''Read error''), (''write_io'', ''Write IO affected''),
    (''read_io'', ''Read IO affected''), (''capacity_query'', ''Capacity query''),
    (''log_sense'', ''LOG SENSE diagnostic page''), (''maintenance'', ''SCSI maintenance command''),
    (''aborted_command'', ''Aborted command''), (''scsi_sense'', ''SCSI sense event''),
    (''scsi_command'', ''SCSI command'')]"

definition error_families :: "string list" where
  "error_families = [
    ''sas_protocol'', ''link_loss'', ''timeout'', ''controller_terminated_io'', ''controller_configuration'',
    ''sas_transport'', ''ses_enclosure'', ''logical_unit_communication'', ''target_failure'', ''pcie_fabric'',
    ''data_buffer_error'', ''write_error'', ''read_error'', ''medium_format'']"

definition warning_families :: "string list" where
  "warning_families = [
    ''cam_error'', ''bus_reset'', ''scsi_status'', ''retry'', ''aborted_command'', ''device_path_exception'',
    ''protection_error'', ''recovered_data'', ''write_protect'', ''failure_prediction'', ''log_exception'',
    ''power_condition'', ''unit_attention'', ''enclosure_warning'']"

definition family_priorities :: "(string \<times> int) list" where
  "family_priorities = [
    (''link_loss'', 0), (''sas_protocol'', 1), (''timeout'', 2), (''sas_transport'', 3),
    (''controller_terminated_io'', 4), (''device_path_exception'', 5), (''ses_enclosure'', 6),
    (''logical_unit_communication'', 7), (''target_failure'', 8), (''pcie_fabric'', 9), (''data_buffer_error'', 10),
    (''controller_configuration'', 11), (''cam_error'', 12), (''bus_reset'', 13), (''aborted_command'', 14),
    (''protection_error'', 15), (''scsi_sense'', 16), (''scsi_status'', 17), (''retry'', 18),
    (''failure_prediction'', 19), (''medium_format'', 20), (''write_error'', 21), (''read_error'', 22),
    (''enclosure_warning'', 23), (''recovered_data'', 24), (''write_protect'', 25), (''log_exception'', 26),
    (''power_condition'', 26), (''unit_attention'', 27), (''write_io'', 30), (''read_io'', 31), (''log_sense'', 32),
    (''capacity_query'', 33), (''maintenance'', 34), (''scsi_command'', 35)]"

subsection \<open>Lookups\<close>

text \<open>\<open>FAULT_FAMILY_SEVERITIES\<close> is the union of two dicts, the warnings on top.\<close>

definition fault_family_severities :: "(string \<times> string) list" where
  "fault_family_severities = map (\<lambda>f. (f, ''warning'')) warning_families @ map (\<lambda>f. (f, ''error'')) error_families"

definition fault_family_severity :: "string \<Rightarrow> string" where
  "fault_family_severity family = table_get fault_family_severities family ''info''"

definition fault_family_priority :: "string \<Rightarrow> int" where
  "fault_family_priority family = table_get family_priorities family 20"

definition severity_rank :: "string option \<Rightarrow> int" where
  "severity_rank severity = table_get [(''error'', 0), (''warning'', 1), (''info'', 2)]
     (py_lower (case severity of None \<Rightarrow> ''info'' | Some s \<Rightarrow> if s = '''' then ''info'' else s)) 3"

definition fault_family_likely_layer :: "string \<Rightarrow> string" where
  "fault_family_likely_layer family =
     (if family \<in> {''sas_protocol'', ''link_loss'', ''timeout'', ''sas_transport''} then ''SAS link/path''
      else if family = ''controller_terminated_io'' then ''HBA path or downstream fabric''
      else if family = ''controller_configuration'' then ''HBA firmware/configuration''
      else if family = ''ses_enclosure'' then ''SES/enclosure management path''
      else if family = ''enclosure_warning'' then ''SES/enclosure health''
      else if family = ''logical_unit_communication'' then ''Target communication path''
      else if family = ''target_failure'' then ''SCSI target/device''
      else if family = ''medium_format'' then ''Target medium/defect management''
      else if family = ''failure_prediction'' then ''Target health prediction''
      else if family = ''recovered_data'' then ''Target media recovery''
      else if family = ''write_protect'' then ''Target write protection''
      else if family = ''log_exception'' then ''SCSI diagnostic log''
      else if family = ''power_condition'' then ''SCSI target power condition''
      else if family = ''unit_attention'' then ''SCSI target state change''
      else if family = ''pcie_fabric'' then ''Host PCIe fabric or endpoint''
      else if family = ''data_buffer_error'' then ''SCSI data buffer transfer''
      else if family = ''protection_error'' then ''Block protection metadata''
      else if family \<in> {''write_error'', ''read_error''} then ''Target media or command data path''
      else if family = ''bus_reset'' then ''SCSI/SAS recovery''
      else if family = ''aborted_command'' then ''Target or transport aborted command''
      else if family = ''device_path_exception'' then ''Target device or path state''
      else if family \<in> {''write_io'', ''read_io''} then ''Workload IO context''
      else if family = ''cam_error'' then ''FreeBSD CAM transport layer''
      else if family = ''scsi_status'' then ''SCSI target status''
      else if family = ''log_sense'' then ''SCSI diagnostic log page''
      else ''SCSI/SAS fabric'')"

subsection \<open>Lemmas\<close>

text \<open>A known family: one the labels name.\<close>

definition known_family :: "string \<Rightarrow> bool" where
  "known_family family = list_ex (\<lambda>(f, _). f = family) fault_family_labels"

lemma severity_rank_range: "0 \<le> severity_rank s \<and> severity_rank s \<le> 3"
  by (simp add: severity_rank_def table_get_def split: option.split)

lemma fault_family_severity_values: "fault_family_severity f \<in> {''error'', ''warning'', ''info''}"
  using table_get_cases [of fault_family_severities f "''info''"]
  by (auto simp: fault_family_severity_def fault_family_severities_def)

lemma severity_families_known: "list_all known_family (error_families @ warning_families)"
  by code_simp

lemma severity_families_disjoint: "list_all (\<lambda>f. f \<notin> set warning_families) error_families"
  by code_simp

lemma priorities_known: "list_all (\<lambda>(f, _). known_family f) family_priorities \<and>
    list_all (\<lambda>(f, _). list_ex (\<lambda>(g, _). g = f) family_priorities) fault_family_labels"
  by code_simp

end
