(* ===== verification/Lsi_Loginfo.thy ===== *)
theory Lsi_Loginfo
  imports Fault_Families "HOL-Library.Word"
begin

unbundle bit_operations_syntax

text \<open>
  Broadcom/LSI loginfo values, from \<open>app/services/sas_diagnostics/lsi_loginfo.py\<close>: the lookup tables, and
  the decoder that splits a value by masks. Python's unbounded integers are \<^typ>\<open>int\<close>, its bit operations those of HOL.
\<close>

subsection \<open>Tables\<close>

definition lsi_loginfo_source :: dict where
  "lsi_loginfo_source = [(''name'', VStr ''baruch/lsi_decode_loginfo''),
     (''url'', VStr ''https://github.com/baruch/lsi_decode_loginfo''), (''license'', VStr ''MIT'')]"

definition lsi_loginfo_type_names :: "(int \<times> string \<times> string) list" where
  "lsi_loginfo_type_names = [
    (0x0, ''NONE'', ''none''), (0x10000000, ''SCSI'', ''scsi''), (0x20000000, ''FC'', ''fc''),
    (0x30000000, ''SAS'', ''sas''), (0x40000000, ''iSCSI'', ''iscsi'')]"

definition lsi_sas_origin_names :: "(int \<times> string \<times> string) list" where
  "lsi_sas_origin_names = [
    (0x0, ''IOP'', ''iop''), (0x1000000, ''PL'', ''physical_layer''), (0x2000000, ''IR'', ''integrated_raid'')]"

definition lsi_sas_iop_codes :: "(int \<times> string \<times> string \<times> string \<times> string) list" where
  "lsi_sas_iop_codes = [
    (0x10000, ''IOP_LOGINFO_CODE_BOOT'', ''Boot'', ''controller_configuration'', ''''),
    (0x30000, ''IOP_LOGINFO_CODE_CONFIG_INVALID_PAGE'', ''Config invalid page'', ''controller_configuration'', ''''),
    (0x40000, ''IOP_LOGINFO_CODE_DIAG_MSG_ERROR'', ''Diagnostic message error'', ''controller_configuration'', ''''),
    (0x50000, ''IOP_LOGINFO_CODE_TASK_TERMINATED'', ''Task terminated'', ''controller_terminated_io'', ''Associated with Task Abort''),
    (0x60000, ''IOP_LOGINFO_CODE_ENCL_MGMT'', ''Enclosure management'', ''ses_enclosure'', ''''),
    (0x70000, ''IOP_LOGINFO_CODE_TARGET'', ''Target mode'', ''controller_terminated_io'', ''''),
    (0x80000, ''IOP_LOGINFO_CODE_LOG_TIMESTAMP_EVENT'', ''Log timestamp event'', ''controller_configuration'', '''')]"

definition lsi_sas_iop_invalid_page_details :: "(int \<times> string \<times> string \<times> string) list" where
  "lsi_sas_iop_invalid_page_details = [
    (0x0, ''IOP_LOGINFO_CODE_CONFIG_INVALID_PAGE'', ''Config invalid page'', ''controller_configuration''),
    (0x100, ''IOP_LOGINFO_CODE_CONFIG_INVALID_PAGE_RT'', ''Route Table Entry not found'', ''controller_configuration''),
    (0x200, ''IOP_LOGINFO_CODE_CONFIG_INVALID_PAGE_PN'', ''Invalid Page Number'', ''controller_configuration''),
    (0x300, ''IOP_LOGINFO_CODE_CONFIG_INVALID_PAGE_FORM'', ''Invalid FORM'', ''controller_configuration''),
    (0x400, ''IOP_LOGINFO_CODE_CONFIG_INVALID_PAGE_PT'', ''Invalid Page Type'', ''controller_configuration''),
    (0x500, ''IOP_LOGINFO_CODE_CONFIG_INVALID_PAGE_DNM'', ''Device Not Mapped'', ''controller_configuration''),
    (0x600, ''IOP_LOGINFO_CODE_CONFIG_INVALID_PAGE_PERSIST'', ''Persistent Page not found'', ''controller_configuration''),
    (0x700, ''IOP_LOGINFO_CODE_CONFIG_INVALID_PAGE_DEFAULT'', ''Default Page not found'', ''controller_configuration''),
    (0xE000, ''IOP_LOGINFO_CODE_FWUPLOAD_NO_FLASH_AVAILABLE'', ''Firmware upload, no flash available'', ''controller_configuration''),
    (0xE001, ''IOP_LOGINFO_CODE_FWUPLOAD_UNKNOWN_IMAGE_TYPE'', ''Firmware upload, unknown image type'', ''controller_configuration''),
    (0xE002, ''IOP_LOGINFO_CODE_FWUPLOAD_WRONG_IMAGE_SIZE'', ''Firmware upload, wrong image size'', ''controller_configuration''),
    (0xE003, ''IOP_LOGINFO_CODE_FWUPLOAD_ENTIRE_FLASH_UPLOAD_FAILED'', ''Firmware upload, entire flash upload failed'', ''controller_configuration''),
    (0xE004, ''IOP_LOGINFO_CODE_FWUPLOAD_REGION_UPLOAD_FAILED'', ''Firmware upload, region upload failed'', ''controller_configuration''),
    (0xE005, ''IOP_LOGINFO_CODE_FWUPLOAD_DMA_FAILURE'', ''Firmware upload DMA failure'', ''controller_configuration'')]"

definition lsi_sas_iop_boot_details :: "(int \<times> string \<times> string \<times> string) list" where
  "lsi_sas_iop_boot_details = [
    (0x0, ''IOP_LOGINFO_CODE_INVALID_SAS_ADDRESS'', ''Invalid SAS address'', ''controller_configuration''),
    (0x101, ''IOP_LOGINFO_CODE_FLASH_NOT_PRESENT'', ''Flash not present'', ''controller_configuration''),
    (0x102, ''IOP_LOGINFO_CODE_FLASH_ERASE_FAILED'', ''Flash erase failed'', ''controller_configuration''),
    (0x103, ''IOP_LOGINFO_CODE_FLASH_WRITE_FAILED'', ''Flash write failed'', ''controller_configuration''),
    (0x401, ''IOP_LOGINFO_CODE_IMAGE_BOOTLOADER_NOT_PRESENT'', ''Bootloader image not present'', ''controller_configuration''),
    (0x402, ''IOP_LOGINFO_CODE_IMAGE_MAIN_CHECKSUM_FAILURE'', ''Main image checksum failure'', ''controller_configuration''),
    (0x403, ''IOP_LOGINFO_CODE_IMAGE_EXT_CHECKSUM_FAILURE'', ''Extended image checksum failure'', ''controller_configuration''),
    (0x404, ''IOP_LOGINFO_CODE_IMAGE_INIT_NOT_PRESENT'', ''Init image not present'', ''controller_configuration''),
    (0x405, ''IOP_LOGINFO_CODE_IMAGE_INIT_ADDRESS_ERROR'', ''Init image address error'', ''controller_configuration'')]"

definition lsi_sas_iop_enclosure_mgmt_details :: "(int \<times> string \<times> string \<times> string) list" where
  "lsi_sas_iop_enclosure_mgmt_details = [
    (0x1, ''IOP_LOGINFO_CODE_ENCL_MGMT_READ_ACTION_ERROR'', ''Read action not supported for SEP message'', ''ses_enclosure''),
    (0x2, ''IOP_LOGINFO_CODE_ENCL_MGMT_INVALID_BUS_ID_ERROR'', ''Invalid bus/id in SEP message'', ''ses_enclosure'')]"

definition lsi_sas_iop_target_details :: "(int \<times> string \<times> string \<times> string) list" where
  "lsi_sas_iop_target_details = [
    (0x1, ''IOP_LOGINFO_CODE_TARGET_ASSIST_TERMINATED'', ''Target assist terminated'', ''controller_terminated_io''),
    (0x2, ''IOP_LOGINFO_CODE_TARGET_STATUS_SEND_TERMINATED'', ''Target status send terminated'', ''controller_terminated_io''),
    (0x3, ''IOP_LOGINFO_CODE_TARGET_MODE_ABORT_ALL_IO'', ''Target mode abort all IO'', ''aborted_command''),
    (0x4, ''IOP_LOGINFO_CODE_TARGET_MODE_ABORT_EXACT_IO'', ''Target mode abort exact IO'', ''aborted_command''),
    (0x5, ''IOP_LOGINFO_CODE_TARGET_MODE_ABORT_EXACT_IO_REQ'', ''Target mode abort exact IO request'', ''aborted_command'')]"

definition lsi_sas_ir_codes :: "(int \<times> string \<times> string \<times> string) list" where
  "lsi_sas_ir_codes = [
    (0x10000, ''IR_LOGINFO_RAID_ACTION_ERROR'', ''RAID action error'', ''device_path_exception''),
    (0x10001, ''IR_LOGINFO_VOLUME_CREATE_INVALID_LENGTH'', ''Volume create invalid length'', ''device_path_exception''),
    (0x10002, ''IR_LOGINFO_VOLUME_CREATE_DUPLICATE'', ''Volume create duplicate'', ''device_path_exception''),
    (0x10003, ''IR_LOGINFO_VOLUME_CREATE_NO_SLOTS'', ''Volume create no slots'', ''device_path_exception''),
    (0x10004, ''IR_LOGINFO_VOLUME_CREATE_DMA_ERROR'', ''Volume create DMA error'', ''controller_terminated_io''),
    (0x10005, ''IR_LOGINFO_VOLUME_CREATE_INVALID_VOLUME_TYPE'', ''Volume create invalid volume type'', ''device_path_exception''),
    (0x10006, ''IR_LOGINFO_VOLUME_MFG_PAGE4_ERROR'', ''Volume manufacturing page 4 error'', ''controller_configuration''),
    (0x10007, ''IR_LOGINFO_VOLUME_INTERNAL_CONFIG_STRUCTURE_ERROR'', ''Volume internal config structure error'', ''controller_configuration''),
    (0x10010, ''IR_LOGINFO_VOLUME_ACTIVATING_AN_ACTIVE_VOLUME'', ''Activating an active volume'', ''device_path_exception''),
    (0x10011, ''IR_LOGINFO_VOLUME_ACTIVATING_INVALID_VOLUME_TYPE'', ''Activating invalid volume type'', ''device_path_exception''),
    (0x10012, ''IR_LOGINFO_VOLUME_ACTIVATING_TOO_MANY_VOLUMES'', ''Activating too many volumes'', ''device_path_exception''),
    (0x10013, ''IR_LOGINFO_VOLUME_ACTIVATING_VOLUME_ID_IN_USE'', ''Activating volume id in use'', ''device_path_exception''),
    (0x10014, ''IR_LOGINFO_VOLUME_ACTIVATE_VOLUME_FAILED'', ''Activate volume failed'', ''device_path_exception''),
    (0x10015, ''IR_LOGINFO_VOLUME_ACTIVATING_IMPORT_VOLUME_FAILED'', ''Activating import volume failed'', ''device_path_exception''),
    (0x10016, ''IR_LOGINFO_VOLUME_ACTIVATING_TOO_MANY_PHYS_DISKS'', ''Activating too many physical disks'', ''device_path_exception''),
    (0x10020, ''IR_LOGINFO_PHYSDISK_CREATE_TOO_MANY_DISKS'', ''Physical disk create too many disks'', ''device_path_exception''),
    (0x10021, ''IR_LOGINFO_PHYSDISK_CREATE_INVALID_LENGTH'', ''Physical disk create invalid length'', ''device_path_exception''),
    (0x10022, ''IR_LOGINFO_PHYSDISK_CREATE_DMA_ERROR'', ''Physical disk create DMA error'', ''controller_terminated_io''),
    (0x10023, ''IR_LOGINFO_PHYSDISK_CREATE_BUS_TID_INVALID'', ''Physical disk bus/target invalid'', ''device_path_exception''),
    (0x10024, ''IR_LOGINFO_PHYSDISK_CREATE_CONFIG_PAGE_ERROR'', ''Physical disk create config page error'', ''controller_configuration''),
    (0x10030, ''IR_LOGINFO_COMPAT_ERROR_RAID_DISABLED'', ''Compatibility error, RAID disabled'', ''device_path_exception''),
    (0x10031, ''IR_LOGINFO_COMPAT_ERROR_INQUIRY_FAILED'', ''Compatibility error, inquiry failed'', ''device_path_exception''),
    (0x10032, ''IR_LOGINFO_COMPAT_ERROR_NOT_DIRECT_ACCESS'', ''Compatibility error, not direct access'', ''device_path_exception''),
    (0x10033, ''IR_LOGINFO_COMPAT_ERROR_REMOVABLE_FOUND'', ''Compatibility error, removable device found'', ''device_path_exception''),
    (0x10034, ''IR_LOGINFO_COMPAT_ERROR_NEED_SCSI_2_OR_HIGHER'', ''Compatibility error, needs SCSI-2 or higher'', ''device_path_exception''),
    (0x10035, ''IR_LOGINFO_COMPAT_ERROR_SATA_48BIT_LBA_NOT_SUPPORTED'', ''Compatibility error, SATA 48-bit LBA not supported'', ''device_path_exception''),
    (0x10036, ''IR_LOGINFO_COMPAT_ERROR_DEVICE_NOT_512_BYTE_BLOCK'', ''Compatibility error, device not 512-byte block'', ''device_path_exception''),
    (0x10037, ''IR_LOGINFO_COMPAT_ERROR_VOLUME_TYPE_CHECK_FAILED'', ''Compatibility error, volume type check failed'', ''device_path_exception''),
    (0x10038, ''IR_LOGINFO_COMPAT_ERROR_UNSUPPORTED_VOLUME_TYPE'', ''Compatibility error, unsupported volume type'', ''device_path_exception''),
    (0x10039, ''IR_LOGINFO_COMPAT_ERROR_DISK_TOO_SMALL'', ''Compatibility error, disk too small'', ''device_path_exception''),
    (0x1003A, ''IR_LOGINFO_COMPAT_ERROR_PHYS_DISK_NOT_FOUND'', ''Physical disk not found'', ''link_loss''),
    (0x1003B, ''IR_LOGINFO_COMPAT_ERROR_MEMBERSHIP_COUNT'', ''Compatibility error, membership count'', ''device_path_exception''),
    (0x1003C, ''IR_LOGINFO_COMPAT_ERROR_NON_64K_STRIPE_SIZE'', ''Compatibility error, non-64K stripe size'', ''device_path_exception''),
    (0x1003D, ''IR_LOGINFO_COMPAT_ERROR_IME_VOL_NOT_CURRENTLY_SUPPORTED'', ''Compatibility error, IME volume not currently supported'', ''device_path_exception''),
    (0x10050, ''IR_LOGINFO_DEV_FW_UPDATE_ERR_DFU_IN_PROGRESS'', ''Device firmware update error, update in progress'', ''controller_configuration''),
    (0x10051, ''IR_LOGINFO_DEV_FW_UPDATE_ERR_DEVICE_IN_INVALID_STATE'', ''Device firmware update error, device in invalid state'', ''device_path_exception''),
    (0x10052, ''IR_LOGINFO_DEV_FW_UPDATE_ERR_INVALID_TIMEOUT'', ''Device firmware update error, invalid timeout'', ''controller_configuration''),
    (0x10053, ''IR_LOGINFO_DEV_FW_UPDATE_ERR_NO_TIMERS'', ''Device firmware update error, no timers'', ''controller_configuration''),
    (0x10054, ''IR_LOGINFO_DEV_FW_UPDATE_ERR_READING_CFG_PAGE'', ''Device firmware update error, reading config page'', ''controller_configuration''),
    (0x10055, ''IR_LOGINFO_DEV_FW_UPDATE_ERR_PORT_IO_TIMEOUTS_REQUIRED'', ''Device firmware update error, port IO timeouts required'', ''timeout''),
    (0x10056, ''IR_LOGINFO_DEV_FW_UPDATE_ERR_ALLOC_CFG_PAGE'', ''Device firmware update error, allocate config page'', ''controller_configuration''),
    (0x20000, ''IR_LOGINFO_CODE_UNUSED2'', ''Unused IR code'', ''device_path_exception'')]"

definition lsi_sas_pl_codes :: "(int \<times> string \<times> string \<times> string \<times> string) list" where
  "lsi_sas_pl_codes = [
    (0x10000, ''PL_LOGINFO_CODE_OPEN_FAILURE'', ''Open failure'', ''sas_transport'', ''see SUB_CODE_OPEN_FAIL''),
    (0x20000, ''PL_LOGINFO_CODE_INVALID_SGL'', ''Invalid SGL'', ''controller_terminated_io'', ''''),
    (0x30000, ''PL_LOGINFO_CODE_WRONG_REL_OFF_OR_FRAME_LENGTH'', ''Wrong relative offset or frame length'', ''sas_transport'', ''''),
    (0x40000, ''PL_LOGINFO_CODE_FRAME_XFER_ERROR'', ''Frame transfer error'', ''sas_transport'', ''''),
    (0x50000, ''PL_LOGINFO_CODE_TX_FM_CONNECTED_LOW'', ''TX frame connected low'', ''sas_transport'', ''''),
    (0x60000, ''PL_LOGINFO_CODE_SATA_NON_NCQ_RW_ERR_BIT_SET'', ''SATA non-NCQ read/write error'', ''device_path_exception'', ''''),
    (0x70000, ''PL_LOGINFO_CODE_SATA_READ_LOG_RECEIVE_DATA_ERR'', ''SATA read-log receive-data error'', ''device_path_exception'', ''''),
    (0x80000, ''PL_LOGINFO_CODE_SATA_NCQ_FAIL_ALL_CMDS_AFTR_ERR'', ''SATA NCQ failed all commands after error'', ''device_path_exception'', ''''),
    (0x90000, ''PL_LOGINFO_CODE_SATA_ERR_IN_RCV_SET_DEV_BIT_FIS'', ''SATA error in received Set Device Bit FIS'', ''device_path_exception'', ''''),
    (0xA0000, ''PL_LOGINFO_CODE_RX_FM_INVALID_MESSAGE'', ''RX frame invalid message'', ''sas_protocol'', ''''),
    (0xB0000, ''PL_LOGINFO_CODE_RX_CTX_MESSAGE_VALID_ERROR'', ''RX context message valid error'', ''sas_protocol'', ''''),
    (0xC0000, ''PL_LOGINFO_CODE_RX_FM_CURRENT_FRAME_ERROR'', ''RX frame current-frame error'', ''sas_protocol'', ''''),
    (0xD0000, ''PL_LOGINFO_CODE_SATA_LINK_DOWN'', ''SATA link down'', ''link_loss'', ''''),
    (0xE0000, ''PL_LOGINFO_CODE_DISCOVERY_SATA_INIT_W_IOS'', ''Discovery SATA init with IOs'', ''device_path_exception'', ''''),
    (0xF0000, ''PL_LOGINFO_CODE_CONFIG_ERROR'', ''Configuration error'', ''controller_configuration'', ''''),
    (0x100000, ''PL_LOGINFO_CODE_DSCVRY_SATA_INIT_TIMEOUT'', ''Discovery SATA init timeout'', ''timeout'', ''''),
    (0x110000, ''PL_LOGINFO_CODE_RESET'', ''Reset'', ''device_path_exception'', ''See Sub-Codes below''),
    (0x120000, ''PL_LOGINFO_CODE_ABORT'', ''Abort'', ''sas_transport'', ''See Sub-Codes below''),
    (0x130000, ''PL_LOGINFO_CODE_IO_NOT_YET_EXECUTED'', ''IO not yet executed'', ''controller_terminated_io'', ''Associated with Task Abort''),
    (0x140000, ''PL_LOGINFO_CODE_IO_EXECUTED'', ''IO executed before abort'', ''controller_terminated_io'', ''Associated with Task Abort''),
    (0x150000, ''PL_LOGINFO_CODE_PERS_RESV_OUT_NOT_AFFIL_OWNER'', ''Persistent reservation owner mismatch'', ''device_path_exception'', ''''),
    (0x160000, ''PL_LOGINFO_CODE_OPEN_TXDMA_ABORT'', ''Open TXDMA abort'', ''sas_transport'', ''''),
    (0x170000, ''PL_LOGINFO_CODE_IO_DEVICE_MISSING_DELAY_RETRY'', ''IO device missing delay retry'', ''link_loss'', ''I-T Nexus Loss''),
    (0x180000, ''PL_LOGINFO_CODE_IO_CANCELLED_DUE_TO_R_ERR'', ''IO cancelled due to receive error'', ''sas_transport'', ''''),
    (0x200000, ''PL_LOGINFO_CODE_ENCL_MGMT_ERR'', ''Enclosure management error'', ''ses_enclosure'', '''')]"

definition lsi_sas_pl_subcodes :: "(int \<times> string \<times> string \<times> string) list" where
  "lsi_sas_pl_subcodes = [
    (0x100, ''PL_LOGINFO_SUB_CODE_OPEN_FAILURE'', ''Open failure'', ''sas_transport''),
    (0x200, ''PL_LOGINFO_SUB_CODE_INVALID_SGL'', ''Invalid SGL'', ''controller_terminated_io''),
    (0x300, ''PL_LOGINFO_SUB_CODE_WRONG_REL_OFF_OR_FRAME_LENGTH'', ''Wrong relative offset or frame length'', ''sas_transport''),
    (0x400, ''PL_LOGINFO_SUB_CODE_FRAME_XFER_ERROR'', ''Frame transfer error'', ''sas_transport''),
    (0x500, ''PL_LOGINFO_SUB_CODE_TX_FM_CONNECTED_LOW'', ''TX frame connected low'', ''sas_transport''),
    (0x600, ''PL_LOGINFO_SUB_CODE_SATA_NON_NCQ_RW_ERR_BIT_SET'', ''SATA non-NCQ read/write error'', ''device_path_exception''),
    (0x700, ''PL_LOGINFO_SUB_CODE_SATA_READ_LOG_RECEIVE_DATA_ERR'', ''SATA read-log receive-data error'', ''device_path_exception''),
    (0x800, ''PL_LOGINFO_SUB_CODE_SATA_NCQ_FAIL_ALL_CMDS_AFTR_ERR'', ''SATA NCQ failed all commands after error'', ''device_path_exception''),
    (0x900, ''PL_LOGINFO_SUB_CODE_SATA_ERR_IN_RCV_SET_DEV_BIT_FIS'', ''SATA error in received Set Device Bit FIS'', ''device_path_exception''),
    (0xA00, ''PL_LOGINFO_SUB_CODE_RX_FM_INVALID_MESSAGE'', ''RX frame invalid message'', ''sas_protocol''),
    (0xB00, ''PL_LOGINFO_SUB_CODE_RX_CTX_MESSAGE_VALID_ERROR'', ''RX context message valid error'', ''sas_protocol''),
    (0xC00, ''PL_LOGINFO_SUB_CODE_RX_FM_CURRENT_FRAME_ERROR'', ''RX frame current-frame error'', ''sas_protocol''),
    (0xD00, ''PL_LOGINFO_SUB_CODE_SATA_LINK_DOWN'', ''SATA link down'', ''link_loss''),
    (0xE00, ''PL_LOGINFO_SUB_CODE_DISCOVERY_SATA_ERR'', ''Discovery SATA error'', ''device_path_exception''),
    (0xF00, ''PL_LOGINFO_SUB_CODE_SECOND_OPEN'', ''Second open'', ''sas_transport''),
    (0x1000, ''PL_LOGINFO_SUB_CODE_DSCVRY_SATA_INIT_TIMEOUT'', ''Discovery SATA init timeout'', ''timeout''),
    (0x2000, ''PL_LOGINFO_SUB_CODE_BREAK_ON_SATA_CONNECTION'', ''Break on SATA connection'', ''link_loss''),
    (0x3000, ''PL_LOGINFO_SUB_CODE_BREAK_ON_STUCK_LINK'', ''Break on stuck link'', ''link_loss''),
    (0x4000, ''PL_LOGINFO_SUB_CODE_BREAK_ON_STUCK_LINK_AIP'', ''Break on stuck link AIP'', ''link_loss''),
    (0x5000, ''PL_LOGINFO_SUB_CODE_BREAK_ON_INCOMPLETE_BREAK_RCVD'', ''Break on incomplete break received'', ''sas_transport'')]"

definition lsi_sas_pl_open_failure_details :: "(int \<times> string \<times> string \<times> string) list" where
  "lsi_sas_pl_open_failure_details = [
    (0x1, ''PL_LOGINFO_SUB_CODE_OPEN_FAILURE_NO_DEST_TIMEOUT'', ''No destination timeout'', ''timeout''),
    (0x2, ''PL_LOGINFO_SUB_CODE_OPEN_FAILURE_SATA_NEG_RATE_2HI'', ''SATA negotiated rate too high'', ''device_path_exception''),
    (0x3, ''PL_LOGINFO_SUB_CODE_OPEN_FAILURE_RATE_NOT_SUPPORTED'', ''Rate not supported'', ''device_path_exception''),
    (0x4, ''PL_LOGINFO_SUB_CODE_OPEN_FAILURE_BREAK'', ''Open failure break'', ''sas_transport''),
    (0x5, ''PL_LOGINFO_SUB_CODE_OPEN_FAIL_RES_INITIALIZE0'', ''Resource initialize failure 0'', ''device_path_exception''),
    (0x6, ''PL_LOGINFO_SUB_CODE_OPEN_FAIL_RES_INITIALIZE1'', ''Resource initialize failure 1'', ''device_path_exception''),
    (0x7, ''PL_LOGINFO_SUB_CODE_OPEN_FAIL_RES_STOP0'', ''Resource stop failure 0'', ''device_path_exception''),
    (0x8, ''PL_LOGINFO_SUB_CODE_OPEN_FAIL_RES_STOP1'', ''Resource stop failure 1'', ''device_path_exception''),
    (0x9, ''PL_LOGINFO_SUB_CODE_OPEN_FAIL_RETRY'', ''Open fail retry'', ''retry''),
    (0xA, ''PL_LOGINFO_SUB_CODE_OPEN_FAIL_BREAK'', ''Open fail break'', ''sas_transport''),
    (0xB, ''PL_LOGINFO_SUB_CODE_OPEN_FAIL_UNUSED_0B'', ''Open fail unused 0B'', ''sas_transport''),
    (0xC, ''PL_LOGINFO_SUB_CODE_OPEN_FAIL_OPEN_TIMEOUT_EXP'', ''Open fail timeout waiting for expander'', ''timeout''),
    (0xD, ''PL_LOGINFO_SUB_CODE_OPEN_FAIL_UNUSED_0D'', ''Open fail unused 0D'', ''sas_transport''),
    (0xE, ''PL_LOGINFO_SUB_CODE_OPEN_FAIL_DVTBLE_ACCSS_FAIL'', ''Device table access failure'', ''device_path_exception''),
    (0x11, ''PL_LOGINFO_SUB_CODE_OPEN_FAIL_BAD_DEST'', ''Bad destination'', ''device_path_exception''),
    (0x12, ''PL_LOGINFO_SUB_CODE_OPEN_FAIL_RATE_NOT_SUPP'', ''Rate not supported'', ''device_path_exception''),
    (0x13, ''PL_LOGINFO_SUB_CODE_OPEN_FAIL_PROT_NOT_SUPP'', ''Protocol not supported'', ''device_path_exception''),
    (0x14, ''PL_LOGINFO_SUB_CODE_OPEN_FAILURE_ABANDON0'', ''Open reject zone violation'', ''device_path_exception''),
    (0x15, ''PL_LOGINFO_SUB_CODE_OPEN_FAILURE_ABANDON1'', ''Open failure abandon 1'', ''sas_transport''),
    (0x16, ''PL_LOGINFO_SUB_CODE_OPEN_FAILURE_ABANDON2'', ''Open failure abandon 2'', ''sas_transport''),
    (0x17, ''PL_LOGINFO_SUB_CODE_OPEN_FAILURE_ABANDON3'', ''Open failure abandon 3'', ''sas_transport''),
    (0x18, ''PL_LOGINFO_SUB_CODE_OPEN_FAIL_STP_RESOURCES_BSY'', ''STP resources busy'', ''device_path_exception''),
    (0x19, ''PL_LOGINFO_SUB_CODE_OPEN_FAIL_WRONG_DESTINATION'', ''Wrong destination'', ''device_path_exception''),
    (0x1A, ''PL_LOGINFO_SUB_CODE_OPEN_FAILURE_ORR_TIMEOUT'', ''Open reject retry timeout'', ''timeout''),
    (0x1B, ''PL_LOGINFO_SUB_CODE_OPEN_FAILURE_PATH_BLOCKED'', ''Path blocked'', ''link_loss''),
    (0x1C, ''PL_LOGINFO_SUB_CODE_OPEN_FAILURE_AWT_MAXED'', ''Arbitration wait timer maxed'', ''timeout''),
    (0x20, ''PL_LOGINFO_SUB_CODE_TARGET_BUS_RESET'', ''Target bus reset'', ''bus_reset''),
    (0x30, ''PL_LOGINFO_SUB_CODE_TRANSPORT_LAYER'', ''Transport layer'', ''sas_transport''),
    (0x40, ''PL_LOGINFO_SUB_CODE_PORT_LAYER'', ''Port layer'', ''sas_transport'')]"

definition lsi_sas_pl_discovery_sata_details :: "(int \<times> string \<times> string \<times> string) list" where
  "lsi_sas_pl_discovery_sata_details = [
    (0x0, ''PL_LOGINFO_SUB_CODE_DISCOVERY_SATA_INIT_W_IOS'', ''Discovery SATA init with IOs'', ''device_path_exception''),
    (0x1, ''PL_LOGINFO_SUB_CODE_DISCOVERY_REMOTE_SEP_RESET'', ''Discovery remote SEP reset'', ''ses_enclosure'')]"

definition lsi_sas_pl_config_errors :: "(int \<times> string \<times> string \<times> string) list" where
  "lsi_sas_pl_config_errors = [
    (0x1, ''PL_LOGINFO_CODE_CONFIG_PL_NOT_INITIALIZED'', ''PL not initialized'', ''controller_configuration''),
    (0x100, ''PL_LOGINFO_CODE_CONFIG_INVALID_PAGE_PT'', ''Invalid Page Type'', ''controller_configuration''),
    (0x200, ''PL_LOGINFO_CODE_CONFIG_INVALID_PAGE_NUM_PHYS'', ''Invalid Number of Phys'', ''controller_configuration''),
    (0x300, ''PL_LOGINFO_CODE_CONFIG_INVALID_PAGE_NOT_IMP'', ''Case Not Handled'', ''controller_configuration''),
    (0x400, ''PL_LOGINFO_CODE_CONFIG_INVALID_PAGE_NO_DEV'', ''No Device found'', ''device_path_exception''),
    (0x500, ''PL_LOGINFO_CODE_CONFIG_INVALID_PAGE_FORM'', ''Invalid FORM'', ''controller_configuration''),
    (0x600, ''PL_LOGINFO_CODE_CONFIG_INVALID_PAGE_PHY'', ''Invalid Phy'', ''controller_configuration''),
    (0x700, ''PL_LOGINFO_CODE_CONFIG_INVALID_PAGE_NO_OWNER'', ''No Owner found'', ''controller_configuration'')]"

definition lsi_sas_pl_enclosure_mgmt_errors :: "(int \<times> string \<times> string \<times> string) list" where
  "lsi_sas_pl_enclosure_mgmt_errors = [
    (0x0, ''PL_LOGINFO_CODE_ENCL_MGMT_SMP_FRAME_FAILURE'', (''Can'' @ [CHR 0x27] @ ''t get SMP Frame''), ''ses_enclosure''),
    (0x10, ''PL_LOGINFO_CODE_ENCL_MGMT_SMP_READ_ERROR'', ''Error occurred on SMP Read'', ''ses_enclosure''),
    (0x20, ''PL_LOGINFO_CODE_ENCL_MGMT_SMP_WRITE_ERROR'', ''Error occurred on SMP Write'', ''ses_enclosure''),
    (0x40, ''PL_LOGINFO_CODE_ENCL_MGMT_NOT_SUPPORTED_ON_ENCL'', ''Enclosure management not available for this WWID'', ''ses_enclosure''),
    (0x50, ''PL_LOGINFO_CODE_ENCL_MGMT_ADDR_MODE_NOT_SUPPORTED'', ''Address mode not supported'', ''ses_enclosure''),
    (0x60, ''PL_LOGINFO_CODE_ENCL_MGMT_BAD_SLOT_NUM'', ''Invalid Slot Number in SEP message'', ''ses_enclosure''),
    (0x70, ''PL_LOGINFO_CODE_ENCL_MGMT_SGPIO_NOT_PRESENT'', ''SGPIO not present/enabled'', ''ses_enclosure''),
    (0x80, ''PL_LOGINFO_CODE_ENCL_MGMT_GPIO_NOT_CONFIGURED'', ''GPIO not configured'', ''ses_enclosure''),
    (0x90, ''PL_LOGINFO_CODE_ENCL_MGMT_GPIO_FRAME_ERROR'', ''GPIO cannot allocate a frame'', ''ses_enclosure''),
    (0xA0, ''PL_LOGINFO_CODE_ENCL_MGMT_GPIO_CONFIG_PAGE_ERROR'', ''GPIO failed config page request'', ''ses_enclosure''),
    (0xB0, ''PL_LOGINFO_CODE_ENCL_MGMT_SES_FRAME_ALLOC_ERROR'', (''Can'' @ [CHR 0x27] @ ''t get frame for SES command''), ''ses_enclosure''),
    (0xC0, ''PL_LOGINFO_CODE_ENCL_MGMT_SES_IO_ERROR'', ''SES I/O execution error'', ''ses_enclosure''),
    (0xD0, ''PL_LOGINFO_CODE_ENCL_MGMT_SES_RETRIES_EXHAUSTED'', ''SEP I/O retries exhausted'', ''ses_enclosure''),
    (0xE0, ''PL_LOGINFO_CODE_ENCL_MGMT_SMP_FRAME_ALLOC_ERROR'', (''Can'' @ [CHR 0x27] @ ''t get frame for SMP command''), ''ses_enclosure''),
    (0x100, ''PL_LOGINFO_DA_SEP_NOT_PRESENT'', ''SEP not present when message received'', ''ses_enclosure''),
    (0x101, ''PL_LOGINFO_DA_SEP_SINGLE_THREAD_ERROR'', ''SEP can only accept one message at a time'', ''ses_enclosure''),
    (0x102, ''PL_LOGINFO_DA_SEP_ISTWI_INTR_IN_IDLE_STATE'', ''ISTWI interrupt received while idle'', ''ses_enclosure''),
    (0x103, ''PL_LOGINFO_DA_SEP_RECEIVED_NACK_FROM_SLAVE'', ''SEP NACKed, it is busy'', ''ses_enclosure''),
    (0x104, ''PL_LOGINFO_DA_SEP_DID_NOT_RECEIVE_ACK'', ''SEP did not receive ACK'', ''ses_enclosure''),
    (0x105, ''PL_LOGINFO_DA_SEP_BAD_STATUS_HDR_CHKSUM'', ''SEP sent bad status header checksum'', ''ses_enclosure''),
    (0x106, ''PL_LOGINFO_DA_SEP_STOP_ON_DATA'', ''SEP stopped while transferring data'', ''ses_enclosure''),
    (0x107, ''PL_LOGINFO_DA_SEP_STOP_ON_SENSE_DATA'', ''SEP stopped while transferring sense data'', ''ses_enclosure''),
    (0x108, ''PL_LOGINFO_DA_SEP_UNSUPPORTED_SCSI_STATUS_1'', ''SEP returned unknown SCSI status'', ''ses_enclosure''),
    (0x109, ''PL_LOGINFO_DA_SEP_UNSUPPORTED_SCSI_STATUS_2'', ''SEP returned unknown SCSI status'', ''ses_enclosure''),
    (0x10A, ''PL_LOGINFO_DA_SEP_CHKSUM_ERROR_AFTER_STOP'', ''SEP returned bad checksum after STOP'', ''ses_enclosure''),
    (0x10B, ''PL_LOGINFO_DA_SEP_CHKSUM_ERROR_AFTER_STOP_GETDATA'', ''SEP returned bad checksum after STOP while getting data'', ''ses_enclosure''),
    (0x10C, ''PL_LOGINFO_DA_SEP_UNSUPPORTED_COMMAND'', ''SEP does not support CDB opcode'', ''ses_enclosure''),
    (0x10D, ''PL_LOGINFO_DA_SEP_UNSUPPORTED_COMMAND_2'', ''SEP does not support CDB opcode, firmware location 2'', ''ses_enclosure''),
    (0x10E, ''PL_LOGINFO_DA_SEP_UNSUPPORTED_COMMAND_3'', ''SEP does not support CDB opcode, firmware location 3'', ''ses_enclosure'')]"

subsection \<open>Decoding\<close>

text \<open>A matched entry: symbol, label and family. What the tables say of the low 24 bits: the code (its symbol
  is missing when it is unknown), the sub-code, the detail, and the bits no table explained.\<close>

type_synonym lsi_entry = "(string \<times> string \<times> string) option"

record lsi_parts =
  lp_path :: string
  lp_symbol :: "string option"
  lp_label :: string
  lp_family :: string
  lp_note :: string
  lp_sub :: lsi_entry
  lp_detail :: lsi_entry
  lp_unparsed :: int

definition clear_bits :: "lsi_entry \<Rightarrow> int \<Rightarrow> int \<Rightarrow> int" where
  "clear_bits entry bits u = (if entry = None then u else u AND NOT bits)"

text \<open>A code with a detail table for the low \<open>bits\<close> of the value.\<close>

definition with_detail :: "(int \<times> string \<times> string \<times> string) list \<Rightarrow> int \<Rightarrow> int \<Rightarrow> lsi_parts \<Rightarrow> lsi_parts" where
  "with_detail tbl bits value p = (let e = map_of tbl (value AND bits)
     in p\<lparr>lp_detail := e, lp_unparsed := clear_bits e bits (lp_unparsed p)\<rparr>)"

definition known_code :: "string \<Rightarrow> (int \<times> string \<times> string \<times> string \<times> string) list \<Rightarrow> string \<Rightarrow> int \<Rightarrow> lsi_parts" where
  "known_code path tbl unknown value =
     (let u = (value AND 0x00FFFFFF) AND NOT 0x00FF0000
      in case map_of tbl (value AND 0x00FF0000) of
         None \<Rightarrow> \<lparr>lp_path = path, lp_symbol = None, lp_label = unknown, lp_family = ''controller_terminated_io'',
             lp_note = '''', lp_sub = None, lp_detail = None, lp_unparsed = u\<rparr>
       | Some (symbol, label, family, note) \<Rightarrow> \<lparr>lp_path = path, lp_symbol = Some symbol, lp_label = label,
             lp_family = family, lp_note = note, lp_sub = None, lp_detail = None, lp_unparsed = u\<rparr>)"

definition physical_layer_parts :: "int \<Rightarrow> lsi_parts" where
  "physical_layer_parts value =
     (let p = known_code ''sas_physical_layer'' lsi_sas_pl_codes ''Unknown SAS physical-layer code'' value;
          code = value AND 0x00FF0000
      in if code \<in> {0x00010000, 0x00110000, 0x00120000} then
           (let s = map_of lsi_sas_pl_subcodes (value AND 0x0000FF00);
                q = p\<lparr>lp_sub := s, lp_unparsed := clear_bits s 0x0000FF00 (lp_unparsed p)\<rparr>
            in if value AND 0x0000FF00 = 0x00000100 \<and> value AND 0x000000FF \<noteq> 0
                 then with_detail lsi_sas_pl_open_failure_details 0x000000FF value q
               else if value AND 0x0000FF00 = 0x00000E00
                 then with_detail lsi_sas_pl_discovery_sata_details 0x000000FF value q
               else q)
         else if code = 0x000F0000 then with_detail lsi_sas_pl_config_errors 0x0000FFFF value p
         else if code = 0x00200000 then with_detail lsi_sas_pl_enclosure_mgmt_errors 0x0000FFFF value p
         else p)"

definition iop_parts :: "int \<Rightarrow> lsi_parts" where
  "iop_parts value =
     (let p = known_code ''sas_iop'' lsi_sas_iop_codes ''Unknown SAS IOP code'' value;
          code = value AND 0x00FF0000
      in if code = 0x00010000 then with_detail lsi_sas_iop_boot_details 0x0000FFFF value p
         else if code = 0x00030000 then with_detail lsi_sas_iop_invalid_page_details 0x0000FFFF value p
         else if code = 0x00060000 then with_detail lsi_sas_iop_enclosure_mgmt_details 0x0000FFFF value p
         else if code = 0x00070000 then with_detail lsi_sas_iop_target_details 0x0000FFFF value p
         else p)"

definition integrated_raid_parts :: "int \<Rightarrow> lsi_parts" where
  "integrated_raid_parts value =
     (case map_of lsi_sas_ir_codes (value AND 0x00FFFFFF) of
        None \<Rightarrow> \<lparr>lp_path = ''sas_integrated_raid'', lp_symbol = None, lp_label = ''Unknown integrated RAID code'',
            lp_family = ''device_path_exception'', lp_note = '''', lp_sub = None, lp_detail = None,
            lp_unparsed = value AND 0x00FFFFFF\<rparr>
      | Some (symbol, label, family) \<Rightarrow> \<lparr>lp_path = ''sas_integrated_raid'', lp_symbol = Some symbol,
            lp_label = label, lp_family = family, lp_note = '''', lp_sub = None, lp_detail = None, lp_unparsed = 0\<rparr>)"

definition lsi_type :: "int \<Rightarrow> string \<times> string" where
  "lsi_type value = table_get lsi_loginfo_type_names (value AND 0xF0000000) (''Unknown'', ''unknown'')"

definition lsi_origin :: "int \<Rightarrow> string \<times> string" where
  "lsi_origin value = table_get lsi_sas_origin_names (value AND 0x0F000000) (''Unknown'', ''unknown'')"

definition lsi_parts_of :: "int \<Rightarrow> lsi_parts" where
  "lsi_parts_of value =
     (if snd (lsi_type value) = ''sas'' \<and> snd (lsi_origin value) = ''physical_layer'' then physical_layer_parts value
      else if snd (lsi_type value) = ''sas'' \<and> snd (lsi_origin value) = ''iop'' then iop_parts value
      else if snd (lsi_type value) = ''sas'' \<and> snd (lsi_origin value) = ''integrated_raid'' then integrated_raid_parts value
      else \<lparr>lp_path = ''generic'', lp_symbol = None, lp_label = ''Unknown code'', lp_family = ''controller_terminated_io'',
            lp_note = '''', lp_sub = None, lp_detail = None, lp_unparsed = value AND 0x00FFFFFF\<rparr>)"

definition entry_symbol :: "lsi_entry \<Rightarrow> string option" where
  "entry_symbol e = map_option fst e"

definition entry_label :: "lsi_entry \<Rightarrow> string option" where
  "entry_label e = map_option (fst \<circ> snd) e"

definition entry_family :: "lsi_entry \<Rightarrow> string option" where
  "entry_family e = map_option (snd \<circ> snd) e"

definition parts_family :: "lsi_parts \<Rightarrow> string" where
  "parts_family p = (case entry_family (lp_detail p) of Some f \<Rightarrow> f
     | None \<Rightarrow> (case entry_family (lp_sub p) of Some f \<Rightarrow> f | None \<Rightarrow> lp_family p))"

definition lsi_label :: "int \<Rightarrow> lsi_parts \<Rightarrow> string" where
  "lsi_label value p =
     (let detail = (case entry_label (lp_detail p) of Some l \<Rightarrow> Some l | None \<Rightarrow> entry_label (lp_sub p))
      in ''LSI '' @ fst (lsi_type value) @
         (if fst (lsi_origin value) \<noteq> ''Unknown'' then '' '' @ fst (lsi_origin value) else '''') @
         '' '' @ lp_label p @
         (case detail of None \<Rightarrow> '''' | Some d \<Rightarrow> if py_lower d \<noteq> py_lower (lp_label p) then '': '' @ d else ''''))"

definition hex_word :: "int \<Rightarrow> string" where
  "hex_word v = ''0x'' @ hex_str 8 (nat v)"

definition opt_list :: "'a option \<Rightarrow> 'a list" where
  "opt_list v = (case v of None \<Rightarrow> [] | Some x \<Rightarrow> [x])"

definition lsi_components :: "int \<Rightarrow> lsi_parts \<Rightarrow> string list" where
  "lsi_components value p =
     (let base = [''type '' @ fst (lsi_type value), ''origin '' @ fst (lsi_origin value),
            (case lp_symbol p of None \<Rightarrow> ''code '' @ hex_word (value AND 0x00FF0000) | Some s \<Rightarrow> s)] @
            opt_list (entry_symbol (lp_sub p)) @ opt_list (entry_symbol (lp_detail p));
          shown = base @ filter (\<lambda>l. l \<notin> set base) (opt_list (entry_label (lp_detail p)))
      in shown @ (if lp_note p \<noteq> '''' then [lp_note p] else []) @
         (if lp_unparsed p \<noteq> 0 then [''unparsed '' @ hex_word (lp_unparsed p)] else []))"

text \<open>The confidence of a decode and its note.\<close>

definition lsi_confidence :: "int \<Rightarrow> lsi_parts \<Rightarrow> string \<times> string option" where
  "lsi_confidence value p =
     (if snd (lsi_type value) = ''unknown'' then
        (''unconfirmed'', Some ''Loginfo type is not in the current local LSI lookup table.'')
      else if snd (lsi_type value) \<noteq> ''sas'' then
        (''unconfirmed'', Some ''Loginfo type is known, but the current local decoder only expands SAS loginfo entries.'')
      else if snd (lsi_origin value) = ''unknown'' then
        (''unconfirmed'', Some ''SAS loginfo origin is not in the current local LSI lookup table.'')
      else if lp_symbol p = None then
        (''unconfirmed'', Some ''SAS loginfo code is not in the current local LSI lookup table.'')
      else if lp_unparsed p \<noteq> 0 then
        (''vendor-reference-partial'',
         Some ''Reference code matched, but some low-order loginfo bits are not decoded by the current local table.'')
      else (''vendor-reference'', None))"

definition hex_or_none :: "int \<Rightarrow> py_value" where
  "hex_or_none v = (if v \<noteq> 0 then VStr (hex_word v) else VNone)"

definition decode_lsi_value :: "string \<Rightarrow> int \<Rightarrow> dict" where
  "decode_lsi_value raw value =
     (let p = lsi_parts_of value; family = parts_family p; (confidence, note) = lsi_confidence value p
      in [(''label'', VStr (lsi_label value p)),
          (''family'', VStr family),
          (''likely_layer'', VStr (fault_family_likely_layer family)),
          (''description'', VStr (''Decoded Broadcom/LSI loginfo '' @ raw @ '': '' @ join '', '' (lsi_components value p) @ ''.'')),
          (''loginfo'', VStr raw),
          (''vendor'', VStr ''Broadcom/LSI''),
          (''decode_confidence'', VStr confidence),
          (''decode_source'', VStr ''baruch_lsi_decode_loginfo''),
          (''source_attribution'', VDict lsi_loginfo_source),
          (''lsi_loginfo'', VDict [
            (''type'', VStr (snd (lsi_type value))), (''type_label'', VStr (fst (lsi_type value))),
            (''origin'', VStr (snd (lsi_origin value))), (''origin_label'', VStr (fst (lsi_origin value))),
            (''decode_path'', VStr (lp_path p)),
            (''code'', VStr (hex_word (value AND 0x00FF0000))), (''code_symbol'', opt_str (lp_symbol p)),
            (''code_label'', VStr (lp_label p)),
            (''sub_code'', hex_or_none (value AND 0x0000FF00)), (''sub_code_symbol'', opt_str (entry_symbol (lp_sub p))),
            (''sub_code_label'', opt_str (entry_label (lp_sub p))),
            (''detail_code'', hex_or_none (value AND 0x000000FF)), (''detail_symbol'', opt_str (entry_symbol (lp_detail p))),
            (''detail_label'', opt_str (entry_label (lp_detail p))), (''unparsed'', hex_or_none (lp_unparsed p))])] @
         (case note of None \<Rightarrow> [] | Some n \<Rightarrow> [(''decoder_note'', VStr n)]))"

definition loginfo_digits :: "string \<Rightarrow> string" where
  "loginfo_digits loginfo = remove_prefix ''0x'' (py_lower (py_strip loginfo))"

definition decode_lsi_loginfo :: "string \<Rightarrow> dict option" where
  "decode_lsi_loginfo loginfo =
     (let raw = loginfo_digits loginfo
      in if raw = '''' \<or> \<not> list_all hex_digit raw then None
         else Some (decode_lsi_value raw (int (value_in 16 raw))))"

subsection \<open>Lemmas\<close>

lemma families_known:
  "list_all (\<lambda>(k, s, l, f, n). known_family f) lsi_sas_pl_codes"
  "list_all (\<lambda>(k, s, l, f, n). known_family f) lsi_sas_iop_codes"
  "list_all (\<lambda>(k, s, l, f). known_family f) lsi_sas_ir_codes"
  "list_all (\<lambda>(k, s, l, f). known_family f) lsi_sas_pl_subcodes"
  "list_all (\<lambda>(k, s, l, f). known_family f) lsi_sas_pl_open_failure_details"
  "list_all (\<lambda>(k, s, l, f). known_family f) lsi_sas_pl_discovery_sata_details"
  "list_all (\<lambda>(k, s, l, f). known_family f) lsi_sas_pl_config_errors"
  "list_all (\<lambda>(k, s, l, f). known_family f) lsi_sas_pl_enclosure_mgmt_errors"
  "list_all (\<lambda>(k, s, l, f). known_family f) lsi_sas_iop_boot_details"
  "list_all (\<lambda>(k, s, l, f). known_family f) lsi_sas_iop_invalid_page_details"
  "list_all (\<lambda>(k, s, l, f). known_family f) lsi_sas_iop_enclosure_mgmt_details"
  "list_all (\<lambda>(k, s, l, f). known_family f) lsi_sas_iop_target_details"
  by code_simp+

lemma default_families_known: "known_family ''controller_terminated_io''" "known_family ''device_path_exception''"
  by code_simp+

definition entry_known :: "lsi_entry \<Rightarrow> bool" where
  "entry_known e \<longleftrightarrow> (case entry_family e of None \<Rightarrow> True | Some f \<Rightarrow> known_family f)"

text \<open>Every family a decode can name is known, and the unexplained bits are low bits of the value.\<close>

definition parts_sound :: "int \<Rightarrow> lsi_parts \<Rightarrow> bool" where
  "parts_sound value p \<longleftrightarrow> known_family (lp_family p) \<and> entry_known (lp_sub p) \<and> entry_known (lp_detail p) \<and>
     lp_unparsed p AND (value AND 0x00FFFFFF) = lp_unparsed p"

lemma table_entry_known: "list_all (\<lambda>(k, s, l, f). known_family f) tbl \<Longrightarrow> entry_known (map_of tbl k)"
  by (auto simp: entry_known_def entry_family_def list_all_iff split: option.split dest!: map_of_SomeD)

lemma clear_bits_sub: "u AND v = u \<Longrightarrow> clear_bits e m u AND v = clear_bits e m u"
  by (metis and.assoc and.commute clear_bits_def)

lemma with_detail_sound:
  "list_all (\<lambda>(k, s, l, f). known_family f) tbl \<Longrightarrow> parts_sound v p \<Longrightarrow> parts_sound v (with_detail tbl m v p)"
  by (simp add: parts_sound_def with_detail_def Let_def table_entry_known clear_bits_sub)

lemma with_sub_sound:
  "list_all (\<lambda>(k, s, l, f). known_family f) tbl \<Longrightarrow> parts_sound v p \<Longrightarrow>
    parts_sound v (p\<lparr>lp_sub := map_of tbl k, lp_unparsed := clear_bits (map_of tbl k) m (lp_unparsed p)\<rparr>)"
  by (simp add: parts_sound_def table_entry_known clear_bits_sub)

lemma and_sub: "(a AND b) AND a = a AND (b :: int)"
  by (rule bit_eqI) (auto simp: bit_and_iff)

lemma known_code_sound:
  assumes "list_all (\<lambda>(k, s, l, f, n). known_family f) tbl"
  shows "parts_sound v (known_code path tbl unknown v)"
proof -
  show ?thesis
  proof (cases "map_of tbl (v AND 0x00FF0000)")
    case None
    then show ?thesis by (simp add: known_code_def parts_sound_def and_sub entry_known_def entry_family_def default_families_known)
  next
    case (Some e)
    obtain s l f n where e: "e = (s, l, f, n)" by (cases e)
    with Some assms have "known_family f" by (auto simp: list_all_iff dest!: map_of_SomeD)
    then show ?thesis using Some e by (simp add: known_code_def parts_sound_def and_sub entry_known_def entry_family_def)
  qed
qed

lemma integrated_raid_sound: "parts_sound v (integrated_raid_parts v)"
proof (cases "map_of lsi_sas_ir_codes (v AND 0x00FFFFFF)")
  case None
  then show ?thesis
    by (simp add: integrated_raid_parts_def parts_sound_def entry_known_def entry_family_def default_families_known)
next
  case (Some e)
  obtain s l f where e: "e = (s, l, f)" by (cases e)
  with Some families_known(3) have "known_family f" by (auto simp: list_all_iff dest!: map_of_SomeD)
  then show ?thesis using Some e by (simp add: integrated_raid_parts_def parts_sound_def entry_known_def entry_family_def)
qed

lemma lsi_parts_sound: "parts_sound v (lsi_parts_of v)"
proof -
  note pl = known_code_sound [OF families_known(1)] and iop = known_code_sound [OF families_known(2)]
  have "parts_sound v (physical_layer_parts v)"
    unfolding physical_layer_parts_def Let_def
    by (simp only: split: if_split) (intro conjI impI with_detail_sound with_sub_sound families_known pl)
  moreover have "parts_sound v (iop_parts v)"
    unfolding iop_parts_def Let_def
    by (simp only: split: if_split) (intro conjI impI with_detail_sound families_known iop)
  moreover have "parts_sound v \<lparr>lp_path = ''generic'', lp_symbol = None, lp_label = ''Unknown code'',
      lp_family = ''controller_terminated_io'', lp_note = '''', lp_sub = None, lp_detail = None,
      lp_unparsed = v AND 0x00FFFFFF\<rparr>"
    by (simp add: parts_sound_def entry_known_def entry_family_def default_families_known)
  ultimately show ?thesis using integrated_raid_sound by (simp add: lsi_parts_of_def)
qed

lemma parts_family_known: "parts_sound v p \<Longrightarrow> known_family (parts_family p)"
  by (auto simp: parts_sound_def parts_family_def entry_known_def split: option.split)

end
