(* ===== verification/Lsi_Rows.thy ===== *)
theory Lsi_Rows
  imports Lsi_Loginfo
begin

text \<open>
  Every row of the loginfo tables of \<open>Lsi_Loginfo\<close> is reached: one evaluation per table, and the property
  that collects them.
\<close>

lemma pl_rows:
  "list_all (\<lambda>(k, s, l, f, n). let p = lsi_parts_of (0x31000000 + k) in (lp_symbol p, lp_label p, lp_family p, lp_note p) = (Some s, l, f, n))
     lsi_sas_pl_codes"
  by code_simp

lemma iop_rows:
  "list_all (\<lambda>(k, s, l, f, n). let p = lsi_parts_of (0x30000000 + k) in (lp_symbol p, lp_label p, lp_family p, lp_note p) = (Some s, l, f, n))
     lsi_sas_iop_codes"
  by code_simp

lemma ir_rows:
  "list_all (\<lambda>(k, s, l, f). let p = lsi_parts_of (0x32000000 + k) in (lp_symbol p, lp_label p, lp_family p) = (Some s, l, f))
     lsi_sas_ir_codes"
  by code_simp

lemma sub_rows:
  "list_all (\<lambda>c. list_all (\<lambda>(k, e). lp_sub (lsi_parts_of (0x31000000 + c + k)) = Some e) lsi_sas_pl_subcodes)
     [0x10000, 0x110000, 0x120000]"
  by code_simp

lemma detail_rows_0:
  "list_all (\<lambda>(k, e). lp_detail (lsi_parts_of (0x31010100 + k)) = Some e) lsi_sas_pl_open_failure_details"
  by code_simp

lemma detail_rows_1:
  "list_all (\<lambda>(k, e). lp_detail (lsi_parts_of (0x31110E00 + k)) = Some e) lsi_sas_pl_discovery_sata_details"
  by code_simp

lemma detail_rows_2:
  "list_all (\<lambda>(k, e). lp_detail (lsi_parts_of (0x310F0000 + k)) = Some e) lsi_sas_pl_config_errors"
  by code_simp

lemma detail_rows_3:
  "list_all (\<lambda>(k, e). lp_detail (lsi_parts_of (0x31200000 + k)) = Some e) lsi_sas_pl_enclosure_mgmt_errors"
  by code_simp

lemma detail_rows_4:
  "list_all (\<lambda>(k, e). lp_detail (lsi_parts_of (0x30010000 + k)) = Some e) lsi_sas_iop_boot_details"
  by code_simp

lemma detail_rows_5:
  "list_all (\<lambda>(k, e). lp_detail (lsi_parts_of (0x30030000 + k)) = Some e) lsi_sas_iop_invalid_page_details"
  by code_simp

lemma detail_rows_6:
  "list_all (\<lambda>(k, e). lp_detail (lsi_parts_of (0x30060000 + k)) = Some e) lsi_sas_iop_enclosure_mgmt_details"
  by code_simp

lemma detail_rows_7:
  "list_all (\<lambda>(k, e). lp_detail (lsi_parts_of (0x30070000 + k)) = Some e) lsi_sas_iop_target_details"
  by code_simp

subsection \<open>Properties\<close>

text \<open>No row of the tables is dead and no bit is lost. Composing a value from the type, the origin and the
  key of any row decodes to that row: the symbol, label and family of the code, the sub-code or the detail.
  For every value the bits reported as unparsed are low bits of the value, and a decode is vendor-reference
  only for a SAS value of known origin and code with no unparsed bit.\<close>

theorem lsi_rows_decode:
  "list_all (\<lambda>(k, s, l, f, n). let p = lsi_parts_of (0x31000000 + k) in (lp_symbol p, lp_label p, lp_family p, lp_note p) = (Some s, l, f, n))
     lsi_sas_pl_codes \<and>
   list_all (\<lambda>(k, s, l, f, n). let p = lsi_parts_of (0x30000000 + k) in (lp_symbol p, lp_label p, lp_family p, lp_note p) = (Some s, l, f, n))
     lsi_sas_iop_codes \<and>
   list_all (\<lambda>(k, s, l, f). let p = lsi_parts_of (0x32000000 + k) in (lp_symbol p, lp_label p, lp_family p) = (Some s, l, f))
     lsi_sas_ir_codes \<and>
   list_all (\<lambda>c. list_all (\<lambda>(k, e). lp_sub (lsi_parts_of (0x31000000 + c + k)) = Some e) lsi_sas_pl_subcodes)
     [0x10000, 0x110000, 0x120000] \<and>
   list_all (\<lambda>(base, tbl). list_all (\<lambda>(k, e). lp_detail (lsi_parts_of (base + k)) = Some e) tbl)
     [(0x31010100, lsi_sas_pl_open_failure_details), (0x31110E00, lsi_sas_pl_discovery_sata_details),
      (0x310F0000, lsi_sas_pl_config_errors), (0x31200000, lsi_sas_pl_enclosure_mgmt_errors),
      (0x30010000, lsi_sas_iop_boot_details), (0x30030000, lsi_sas_iop_invalid_page_details),
      (0x30060000, lsi_sas_iop_enclosure_mgmt_details), (0x30070000, lsi_sas_iop_target_details)] \<and>
   lp_unparsed (lsi_parts_of v) AND (v AND 0x00FFFFFF) = lp_unparsed (lsi_parts_of v) \<and>
   (fst (lsi_confidence v (lsi_parts_of v)) = ''vendor-reference'' \<longleftrightarrow>
     snd (lsi_type v) = ''sas'' \<and> snd (lsi_origin v) \<noteq> ''unknown'' \<and> lp_symbol (lsi_parts_of v) \<noteq> None \<and>
     lp_unparsed (lsi_parts_of v) = 0)"
  by (intro conjI pl_rows iop_rows ir_rows sub_rows, simp add: detail_rows_0 detail_rows_1 detail_rows_2 detail_rows_3 detail_rows_4 detail_rows_5 detail_rows_6 detail_rows_7)
    (use lsi_parts_sound [of v] in \<open>auto simp: parts_sound_def lsi_confidence_def\<close>)

end
