(* ===== verification/Scsi_Decode.thy ===== *)
theory Scsi_Decode
  imports Fault_Families "HOL-Library.Word"
begin

unbundle bit_operations_syntax

text \<open>
  SCSI commands, sense data and statuses in kernel messages, from \<open>app/services/sas_diagnostics/scsi.py\<close>: the
  standard tables, the command descriptor block with its addresses and lengths, sense families, and status
  values. A decoded dict is a list of pairs in insertion order; bytes are integers from 0 to 255. The values
  of an event are texts or \<open>None\<close>, as the parser of kernel messages makes them.
\<close>

subsection \<open>Tables\<close>

definition t10_opcode_source :: dict where
  "t10_opcode_source = [
    (''name'', VStr ''INCITS T10 SCSI Operation Codes numeric list''),
    (''url'', VStr ''https://www.t10.org/lists/op-num.htm'')]"

definition t10_asc_ascq_source :: dict where
  "t10_asc_ascq_source = [
    (''name'', VStr ''INCITS T10 SCSI ASC/ASCQ numeric list''),
    (''url'', VStr ''https://www.t10.org/lists/asc-num.htm'')]"

definition t10_log_sense_source :: dict where
  "t10_log_sense_source = [
    (''name'', VStr ''INCITS T10 SPC/SBC LOG SENSE page assignments''),
    (''url'', VStr ''https://www.t10.org/lists/1spc-lst.htm'')]"

definition t10_status_source :: dict where
  "t10_status_source = [
    (''name'', VStr ''INCITS T10 SCSI status codes list''), (''url'', VStr ''https://www.t10.org/lists/2status.htm'')]"

definition kernel_message_source :: dict where
  "kernel_message_source = [
    (''name'', VStr ''FreeBSD CAM/MPR kernel message''), (''url'', VNone)]"

definition scsi_cdb_opcode_names :: "(int \<times> string) list" where
  "scsi_cdb_opcode_names = [
    (0x00, ''TEST UNIT READY''), (0x03, ''REQUEST SENSE''), (0x04, ''FORMAT UNIT''), (0x07, ''REASSIGN BLOCKS''),
    (0x08, ''READ(6)''), (0x0A, ''WRITE(6)''), (0x12, ''INQUIRY''), (0x15, ''MODE SELECT(6)''),
    (0x1A, ''MODE SENSE(6)''), (0x1B, ''START STOP UNIT''), (0x1C, ''RECEIVE DIAGNOSTIC RESULTS''),
    (0x1D, ''SEND DIAGNOSTIC''), (0x1E, ''PREVENT ALLOW MEDIUM REMOVAL''), (0x23, ''READ FORMAT CAPACITIES''),
    (0x25, ''READ CAPACITY(10)''), (0x28, ''READ(10)''), (0x2A, ''WRITE(10)''), (0x2B, ''SEEK(10)''),
    (0x2E, ''WRITE AND VERIFY(10)''), (0x2F, ''VERIFY(10)''), (0x34, ''PRE-FETCH(10)''),
    (0x35, ''SYNCHRONIZE CACHE(10)''), (0x36, ''LOCK UNLOCK CACHE(10)''), (0x37, ''READ DEFECT DATA(10)''),
    (0x38, ''MEDIUM SCAN''), (0x3B, ''WRITE BUFFER''), (0x3C, ''READ BUFFER''), (0x3E, ''READ LONG(10)''),
    (0x3F, ''WRITE LONG(10)''), (0x41, ''WRITE SAME(10)''), (0x42, ''UNMAP''), (0x48, ''SANITIZE''),
    (0x4C, ''LOG SELECT''), (0x4D, ''LOG SENSE''), (0x55, ''MODE SELECT(10)''), (0x56, ''RESERVE(10)''),
    (0x57, ''RELEASE(10)''), (0x5A, ''MODE SENSE(10)''), (0x5E, ''PERSISTENT RESERVE IN''),
    (0x5F, ''PERSISTENT RESERVE OUT''), (0x7E, ''EXTENDED CDB''), (0x7F, ''VARIABLE LENGTH CDB''),
    (0x83, ''THIRD-PARTY COPY OUT''), (0x84, ''THIRD-PARTY COPY IN''), (0x85, ''ATA PASS-THROUGH(16)''),
    (0x88, ''READ(16)''), (0x89, ''COMPARE AND WRITE''), (0x8A, ''WRITE(16)''), (0x8B, ''ORWRITE''),
    (0x8C, ''READ ATTRIBUTE''), (0x8D, ''WRITE ATTRIBUTE''), (0x8E, ''WRITE AND VERIFY(16)''),
    (0x8F, ''VERIFY(16)''), (0x90, ''PRE-FETCH(16)''), (0x91, ''SYNCHRONIZE CACHE(16)''), (0x93, ''WRITE SAME(16)''),
    (0x94, ''ZBC OUT''), (0x95, ''ZBC IN''), (0x9A, ''WRITE STREAM(16)''), (0x9B, ''READ BUFFER(16)''),
    (0x9C, ''WRITE ATOMIC(16)''), (0x9D, ''SERVICE ACTION BIDIRECTIONAL''), (0x9E, ''SERVICE ACTION IN(16)''),
    (0x9F, ''SERVICE ACTION OUT(16)''), (0xA0, ''REPORT LUNS''), (0xA1, ''ATA PASS-THROUGH(12)''),
    (0xA2, ''SECURITY PROTOCOL IN''), (0xA3, ''MAINTENANCE IN''), (0xA4, ''MAINTENANCE OUT''),
    (0xA5, ''MOVE MEDIUM''), (0xA7, ''MOVE MEDIUM ATTACHED''), (0xA8, ''READ(12)''),
    (0xA9, ''SERVICE ACTION OUT(12)''), (0xAA, ''WRITE(12)''), (0xAB, ''SERVICE ACTION IN(12)''),
    (0xAE, ''WRITE AND VERIFY(12)''), (0xAF, ''VERIFY(12)''), (0xB5, ''SECURITY PROTOCOL OUT''),
    (0xB6, ''SEND VOLUME TAG''), (0xB7, ''READ DEFECT DATA(12)''), (0xB8, ''READ ELEMENT STATUS''),
    (0xBA, ''REDUNDANCY GROUP (IN)''), (0xBB, ''REDUNDANCY GROUP (OUT)''), (0xBC, ''SPARE (IN)''),
    (0xBD, ''SPARE (OUT)''), (0xBE, ''VOLUME SET (IN)''), (0xBF, ''VOLUME SET (OUT)'')]"

definition scsi_service_action_names :: "((int \<times> int) \<times> string) list" where
  "scsi_service_action_names = [
    ((0x5E, 0x00), ''READ KEYS''), ((0x5E, 0x01), ''READ RESERVATION''), ((0x5E, 0x02), ''REPORT CAPABILITIES''),
    ((0x5E, 0x03), ''READ FULL STATUS''), ((0x5F, 0x00), ''REGISTER''), ((0x5F, 0x01), ''RESERVE''),
    ((0x5F, 0x02), ''RELEASE''), ((0x5F, 0x03), ''CLEAR''), ((0x5F, 0x04), ''PREEMPT''),
    ((0x5F, 0x05), ''PREEMPT AND ABORT''), ((0x5F, 0x06), ''REGISTER AND IGNORE EXISTING KEY''),
    ((0x5F, 0x07), ''REGISTER AND MOVE''), ((0x84, 0x00), ''COPY STATUS''), ((0x84, 0x01), ''RECEIVE DATA''),
    ((0x84, 0x03), ''OPERATING PARAMETERS''), ((0x84, 0x04), ''FAILED SEGMENT DETAILS''),
    ((0x9E, 0x10), ''READ CAPACITY(16)''), ((0x9E, 0x11), ''READ LONG(16)''), ((0x9E, 0x12), ''GET LBA STATUS''),
    ((0x9F, 0x11), ''WRITE LONG(16)''), ((0xA3, 0x05), ''REPORT DEVICE IDENTIFIER''),
    ((0xA3, 0x0A), ''REPORT TARGET PORT GROUPS''), ((0xA3, 0x0B), ''REPORT ALIASES''),
    ((0xA3, 0x0C), ''REPORT SUPPORTED OPERATION CODES''),
    ((0xA3, 0x0D), ''REPORT SUPPORTED TASK MANAGEMENT FUNCTIONS''), ((0xA3, 0x0E), ''REPORT PRIORITY''),
    ((0xA3, 0x0F), ''REPORT TIMESTAMP''), ((0xA4, 0x06), ''SET DEVICE IDENTIFIER''),
    ((0xA4, 0x0A), ''SET TARGET PORT GROUPS''), ((0xA4, 0x0B), ''CHANGE ALIASES''), ((0xA4, 0x0E), ''SET PRIORITY''),
    ((0xA4, 0x0F), ''SET TIMESTAMP'')]"

definition scsi_service_action_opcodes :: "int list" where
  "scsi_service_action_opcodes = map (fst \<circ> fst) scsi_service_action_names @ [0x9D, 0x9E, 0x9F, 0xA3, 0xA4, 0xA9, 0xAB]"

definition scsi_sense_key_labels :: "(string \<times> string) list" where
  "scsi_sense_key_labels = [
    (''NO SENSE'', ''No specific sense key''), (''RECOVERED ERROR'', ''Recovered target error''),
    (''NOT READY'', ''Device not ready''), (''MEDIUM ERROR'', ''Disk media error''),
    (''HARDWARE ERROR'', ''Hardware reported an error''), (''ILLEGAL REQUEST'', ''Unsupported or invalid command''),
    (''UNIT ATTENTION'', ''Device state changed''), (''DATA PROTECT'', ''Data protection prevented the command''),
    (''BLANK CHECK'', ''Blank or unwritten medium''), (''COPY ABORTED'', ''Copy operation aborted''),
    (''ABORTED COMMAND'', ''Command aborted below the OS''), (''VOLUME OVERFLOW'', ''Volume overflow''),
    (''MISCOMPARE'', ''Compare operation mismatch'')]"

definition scsi_asc_ascq_labels :: "((int \<times> int) \<times> string) list" where
  "scsi_asc_ascq_labels = [
    ((0x00, 0x00), ''No additional sense information''), ((0x00, 0x06), ''I/O process terminated''),
    ((0x00, 0x16), ''Operation in progress''), ((0x00, 0x1D), ''ATA pass through information available''),
    ((0x03, 0x00), ''Peripheral device write fault''), ((0x03, 0x01), ''No write current''),
    ((0x03, 0x02), ''Excessive write errors''), ((0x04, 0x00), ''Logical unit not ready''),
    ((0x04, 0x01), ''Logical unit is becoming ready''),
    ((0x04, 0x02), ''Logical unit not ready, initializing command required''),
    ((0x04, 0x03), ''Logical unit not ready, manual intervention required''),
    ((0x04, 0x05), ''Logical unit not ready, rebuild in progress''),
    ((0x04, 0x06), ''Logical unit not ready, recalculation in progress''),
    ((0x04, 0x07), ''Logical unit not ready, operation in progress''),
    ((0x04, 0x09), ''Logical unit not ready, self-test in progress''),
    ((0x04, 0x0A), ''Logical unit not accessible, asymmetric access state transition''),
    ((0x04, 0x0B), ''Logical unit not accessible, target port in standby state''),
    ((0x04, 0x0C), ''Logical unit not accessible, target port in unavailable state''),
    ((0x04, 0x1A), ''Logical unit not ready, START STOP UNIT command in progress''),
    ((0x04, 0x1B), ''Logical unit not ready, sanitize in progress''),
    ((0x04, 0x20), ''Logical unit not ready, logical unit reset required''),
    ((0x04, 0x21), ''Logical unit not ready, hard reset required''),
    ((0x04, 0x22), ''Logical unit not ready, power cycle required''),
    ((0x05, 0x00), ''Logical unit does not respond to selection''),
    ((0x08, 0x00), ''Logical unit communication failure''), ((0x08, 0x01), ''Logical unit communication timeout''),
    ((0x08, 0x02), ''Logical unit communication parity error''),
    ((0x08, 0x03), ''Logical unit communication CRC error''), ((0x08, 0x04), ''Unreachable copy target''),
    ((0x09, 0x00), ''Track following error''), ((0x09, 0x01), ''Tracking servo failure''),
    ((0x09, 0x02), ''Focus servo failure''), ((0x09, 0x03), ''Spindle servo failure''),
    ((0x09, 0x04), ''Head select fault''), ((0x0B, 0x00), ''Warning''),
    ((0x0B, 0x01), ''Warning - specified temperature exceeded''), ((0x0B, 0x02), ''Warning - enclosure degraded''),
    ((0x0B, 0x03), ''Warning - background self-test failed''),
    ((0x0B, 0x04), ''Warning - background pre-scan detected medium error''),
    ((0x0B, 0x05), ''Warning - background medium scan detected medium error''),
    ((0x0B, 0x06), ''Warning - non-volatile cache now volatile''), ((0x0C, 0x00), ''Write error''),
    ((0x0C, 0x01), ''Write error, recovered with auto reallocation''),
    ((0x0C, 0x02), ''Write error, auto reallocation failed''),
    ((0x0C, 0x03), ''Write error, recommend reassignment''), ((0x0C, 0x07), ''Write error, recovery needed''),
    ((0x0C, 0x08), ''Write error, recovery failed''), ((0x0C, 0x0C), ''Write error, unexpected unsolicited data''),
    ((0x0C, 0x0D), ''Write error, not enough unsolicited data''), ((0x0C, 0x0E), ''Multiple write errors''),
    ((0x0E, 0x00), ''Invalid information unit''), ((0x0E, 0x01), ''Information unit too short''),
    ((0x0E, 0x02), ''Information unit too long''), ((0x0E, 0x03), ''Invalid field in command information unit''),
    ((0x10, 0x00), ''ID CRC or ECC error''), ((0x10, 0x01), ''Logical block guard check failed''),
    ((0x10, 0x02), ''Logical block application tag check failed''),
    ((0x10, 0x03), ''Logical block reference tag check failed''), ((0x11, 0x00), ''Unrecovered read error''),
    ((0x14, 0x00), ''Recorded entity not found''), ((0x14, 0x01), ''Record not found''),
    ((0x14, 0x05), ''Record not found, recommend reassignment''), ((0x15, 0x00), ''Random positioning error''),
    ((0x15, 0x01), ''Mechanical positioning error''),
    ((0x15, 0x02), ''Positioning error detected by read of medium''),
    ((0x16, 0x00), ''Data synchronization mark error''),
    ((0x17, 0x00), ''Recovered data with no error correction applied''),
    ((0x17, 0x01), ''Recovered data with retries''), ((0x17, 0x02), ''Recovered data with positive head offset''),
    ((0x17, 0x03), ''Recovered data with negative head offset''),
    ((0x17, 0x05), ''Recovered data using previous sector id''),
    ((0x17, 0x06), ''Recovered data without ECC, data auto-reallocated''),
    ((0x17, 0x07), ''Recovered data without ECC, recommend reassignment''),
    ((0x17, 0x08), ''Recovered data without ECC, recommend rewrite''),
    ((0x18, 0x00), ''Recovered data with error correction applied''),
    ((0x18, 0x01), ''Recovered data with error correction and retries applied''),
    ((0x18, 0x02), ''Recovered data, data auto-reallocated''),
    ((0x18, 0x05), ''Recovered data, recommend reassignment''),
    ((0x18, 0x06), ''Recovered data, recommend rewrite''), ((0x19, 0x00), ''Defect list error''),
    ((0x19, 0x01), ''Defect list not available''), ((0x19, 0x02), ''Defect list error in primary list''),
    ((0x19, 0x03), ''Defect list error in grown list''), ((0x1A, 0x00), ''Parameter list length error''),
    ((0x1B, 0x00), ''Synchronous data transfer error''), ((0x20, 0x00), ''Invalid command operation code''),
    ((0x21, 0x00), ''Logical block address out of range''), ((0x24, 0x00), ''Invalid field in CDB''),
    ((0x25, 0x00), ''Logical unit not supported''), ((0x27, 0x00), ''Write protected''),
    ((0x27, 0x01), ''Hardware write protected''), ((0x27, 0x02), ''Logical unit software write protected''),
    ((0x27, 0x07), ''Space allocation failed write protect''),
    ((0x28, 0x00), ''Not ready to ready change, medium may have changed''),
    ((0x28, 0x01), ''Import or export element accessed''),
    ((0x29, 0x00), ''Power on, reset, or bus device reset occurred''), ((0x29, 0x01), ''Power on occurred''),
    ((0x29, 0x02), ''SCSI bus reset occurred''), ((0x29, 0x03), ''Bus device reset function occurred''),
    ((0x29, 0x04), ''Device internal reset''), ((0x29, 0x05), ''Transceiver mode changed to single-ended''),
    ((0x29, 0x06), ''Transceiver mode changed to LVD''), ((0x29, 0x07), ''I_T nexus loss occurred''),
    ((0x2A, 0x01), ''Mode parameters changed''), ((0x2A, 0x02), ''Log parameters changed''),
    ((0x2A, 0x03), ''Reservations preempted''), ((0x2A, 0x04), ''Reservations released''),
    ((0x2A, 0x05), ''Registrations preempted''), ((0x2A, 0x06), ''Asymmetric access state changed''),
    ((0x2A, 0x07), ''Implicit asymmetric access state transition failed''),
    ((0x2A, 0x09), ''Capacity data has changed''), ((0x2A, 0x0A), ''Error history I_T nexus cleared''),
    ((0x2A, 0x0B), ''Error history snapshot released''), ((0x2C, 0x00), ''Command sequence error''),
    ((0x2F, 0x00), ''Commands cleared by another initiator''), ((0x31, 0x00), ''Medium format corrupted''),
    ((0x31, 0x01), ''Format command failed''), ((0x31, 0x02), ''Zoned formatting failed due to spare linking''),
    ((0x32, 0x00), ''No defect spare location available''), ((0x32, 0x01), ''Defect list update failure''),
    ((0x3A, 0x00), ''Medium not present''), ((0x3E, 0x00), ''Logical unit has not self-configured yet''),
    ((0x3E, 0x01), ''Logical unit failure''), ((0x3E, 0x02), ''Timeout on logical unit''),
    ((0x3E, 0x03), ''Logical unit failed self-test''),
    ((0x3E, 0x04), ''Logical unit unable to update self-test log''),
    ((0x3F, 0x00), ''Target operating conditions have changed''), ((0x3F, 0x01), ''Microcode has been changed''),
    ((0x3F, 0x03), ''Inquiry data has changed''), ((0x3F, 0x04), ''Component device attached''),
    ((0x3F, 0x05), ''Device identifier changed''), ((0x3F, 0x06), ''Redundancy group created or modified''),
    ((0x3F, 0x07), ''Redundancy group deleted''), ((0x3F, 0x08), ''Spare created or modified''),
    ((0x3F, 0x09), ''Spare deleted''), ((0x3F, 0x0A), ''Volume set created or modified''),
    ((0x3F, 0x0B), ''Volume set deleted''), ((0x3F, 0x0E), ''Reported LUNs data has changed''),
    ((0x3F, 0x0F), ''Echo buffer overwritten''), ((0x3F, 0x16), ''Microcode has been changed without reset''),
    ((0x34, 0x00), ''Enclosure failure''), ((0x35, 0x00), ''Enclosure services failure''),
    ((0x35, 0x01), ''Unsupported enclosure function''), ((0x35, 0x02), ''Enclosure services unavailable''),
    ((0x40, 0x00), ''RAM failure''), ((0x41, 0x00), ''Data path failure''),
    ((0x42, 0x00), ''Power-on or self-test failure''), ((0x43, 0x00), ''Message error''),
    ((0x44, 0x00), ''Internal target failure''), ((0x45, 0x00), ''Select or reselect failure''),
    ((0x46, 0x00), ''Unsuccessful soft reset''), ((0x47, 0x00), ''SCSI parity error''),
    ((0x47, 0x01), ''Data phase CRC error detected''),
    ((0x47, 0x02), ''SCSI parity error detected during ST data phase''),
    ((0x47, 0x03), ''Information unit iuCRC error detected''),
    ((0x47, 0x04), ''Asynchronous information protection error detected''),
    ((0x47, 0x05), ''Protocol service CRC error''), ((0x47, 0x06), ''PHY test function in progress''),
    ((0x48, 0x00), ''Initiator detected error message received''), ((0x49, 0x00), ''Invalid message error''),
    ((0x4A, 0x00), ''Command phase error''), ((0x4B, 0x00), ''Data phase error''),
    ((0x4B, 0x01), ''Invalid target port transfer tag received''), ((0x4B, 0x02), ''Too much write data''),
    ((0x4B, 0x03), ''ACK/NAK timeout''), ((0x4B, 0x04), ''NAK received''), ((0x4B, 0x05), ''Data offset error''),
    ((0x4B, 0x06), ''Initiator response timeout''), ((0x4B, 0x07), ''Connection lost''),
    ((0x4B, 0x08), ''Data-in buffer overflow, data buffer size''),
    ((0x4B, 0x09), ''Data-in buffer overflow, data buffer descriptor area''),
    ((0x4B, 0x0A), ''Data-in buffer error''), ((0x4B, 0x0B), ''Data-out buffer overflow, data buffer size''),
    ((0x4B, 0x0C), ''Data-out buffer overflow, data buffer descriptor area''),
    ((0x4B, 0x0D), ''Data-out buffer error''), ((0x4B, 0x0E), ''PCIe fabric error''),
    ((0x4B, 0x0F), ''PCIe completion timeout''), ((0x4B, 0x10), ''PCIe completer abort''),
    ((0x4B, 0x11), ''PCIe poisoned TLP received''), ((0x4B, 0x12), ''PCIe ECRC check failed''),
    ((0x4B, 0x13), ''PCIe unsupported request''), ((0x4B, 0x14), ''PCIe ACS violation''),
    ((0x4B, 0x15), ''PCIe TLP prefix blocked''), ((0x4C, 0x00), ''Logical unit failed self-configuration''),
    ((0x55, 0x00), ''System resource failure''), ((0x55, 0x01), ''System buffer full''),
    ((0x55, 0x03), ''Insufficient resources''), ((0x55, 0x0B), ''Insufficient power for operation''),
    ((0x5B, 0x00), ''Log exception''), ((0x5B, 0x01), ''Threshold condition met''),
    ((0x5B, 0x02), ''Log counter at maximum''), ((0x5B, 0x03), ''Log list codes exhausted''),
    ((0x5E, 0x00), ''Low power condition on''), ((0x5E, 0x01), ''Idle condition activated by timer''),
    ((0x5E, 0x02), ''Standby condition activated by timer''),
    ((0x5E, 0x03), ''Idle condition activated by command''),
    ((0x5E, 0x04), ''Standby condition activated by command''),
    ((0x5D, 0x00), ''Failure prediction threshold exceeded''),
    ((0x5D, 0x01), ''Media failure prediction threshold exceeded''),
    ((0x5D, 0x02), ''Logical unit failure prediction threshold exceeded''),
    ((0x5D, 0x03), ''Spare area exhaustion prediction threshold exceeded''),
    ((0x5D, 0x10), ''Hardware impending failure, general hard drive failure''),
    ((0x5D, 0x11), ''Hardware impending failure, drive error rate too high''),
    ((0x5D, 0x12), ''Hardware impending failure, data error rate too high''),
    ((0x5D, 0x13), ''Hardware impending failure, seek error rate too high''),
    ((0x5D, 0x14), ''Hardware impending failure, too many block reassigns''),
    ((0x5D, 0x15), ''Hardware impending failure, access times too high''),
    ((0x5D, 0x16), ''Hardware impending failure, start unit times too high''),
    ((0x5D, 0x17), ''Hardware impending failure, channel parametrics''),
    ((0x5D, 0x18), ''Hardware impending failure, controller detected''),
    ((0x5D, 0x19), ''Hardware impending failure, throughput performance''),
    ((0x5D, 0x1A), ''Hardware impending failure, seek time performance''),
    ((0x5D, 0x1B), ''Hardware impending failure, spin-up retry count''),
    ((0x5D, 0x1C), ''Hardware impending failure, drive calibration retry count''),
    ((0x67, 0x00), ''Configuration failure''), ((0x68, 0x00), ''Logical unit not configured''),
    ((0x69, 0x00), ''Data loss on logical unit''), ((0x6B, 0x00), ''State change has occurred''),
    ((0x6B, 0x01), ''A redundancy level got better''), ((0x6B, 0x02), ''A redundancy level got worse''),
    ((0x6C, 0x00), ''Rebuild failure occurred''), ((0x6D, 0x00), ''Recalculate failure occurred'')]"

definition scsi_status_labels :: "(string \<times> string) list" where
  "scsi_status_labels = [
    (''GOOD'', ''GOOD''), (''CHECK CONDITION'', ''CHECK CONDITION''), (''CONDITION MET'', ''CONDITION MET''),
    (''BUSY'', ''BUSY''), (''RESERVATION CONFLICT'', ''RESERVATION CONFLICT''),
    (''TASK SET FULL'', ''TASK SET FULL''), (''ACA ACTIVE'', ''ACA ACTIVE''), (''TASK ABORTED'', ''TASK ABORTED'')]"

definition scsi_status_codes :: "(int \<times> string) list" where
  "scsi_status_codes = [
    (0x00, ''GOOD''), (0x02, ''CHECK CONDITION''), (0x04, ''CONDITION MET''), (0x08, ''BUSY''),
    (0x18, ''RESERVATION CONFLICT''), (0x28, ''TASK SET FULL''), (0x30, ''ACA ACTIVE''), (0x40, ''TASK ABORTED'')]"

definition log_sense_page_names :: "(int \<times> string) list" where
  "log_sense_page_names = [
    (0x00, ''Supported Log Pages''), (0x02, ''Write Error Counter''), (0x03, ''Read Error Counter''),
    (0x05, ''Verify Error Counter''), (0x0D, ''Temperature''), (0x0E, ''Start-Stop Cycle Counter''),
    (0x10, ''Self-Test Results''), (0x15, ''Background Scan Results''), (0x18, ''Protocol-Specific Port''),
    (0x19, ''General Statistics and Performance''), (0x1A, ''Power Condition Transitions''),
    (0x2F, ''Informational Exceptions''), (0x3F, ''All Log Pages'')]"

definition log_sense_page_control_labels :: "(int \<times> string) list" where
  "log_sense_page_control_labels = [
    (0x00, ''Current threshold values''), (0x01, ''Current cumulative values''),
    (0x02, ''Default threshold values''), (0x03, ''Default cumulative values'')]"

definition sas_phy_log_parameters :: py_value where
  "sas_phy_log_parameters = VList [
    VDict [(''code'', VStr ''0x0001''), (''name'', VStr ''Invalid dword count'')],
    VDict [(''code'', VStr ''0x0002''), (''name'', VStr ''Running disparity error count'')],
    VDict [(''code'', VStr ''0x0003''), (''name'', VStr ''Loss of dword synchronization count'')],
    VDict [(''code'', VStr ''0x0004''), (''name'', VStr ''PHY reset problem count'')]]"

definition link_sense_descriptions :: "((int \<times> int) \<times> string) list" where
  "link_sense_descriptions = [
    ((0x4B, 0x04),
      ''The other end of a SAS link rejected a frame because it arrived with a bad CRC, an invalid '' @
      ''dword or an ERROR (SPL-4 6.20.3.1). A disk returns this code when a frame it sent was rejected '' @
      ''and it stopped resending it (SPL-4 8.2.4). It does not say which link or hop on the path '' @
      ''corrupted the frame.''),
    ((0x4B, 0x03),
      ''A frame got neither ACK nor NAK within the 1 ms a receiver is allowed (SPL-4 6.20.3.1). The '' @
      ''sender closed the connection, then resent the frame or aborted the command (SPL-4 8.2.4). It '' @
      ''does not say where the frame or its reply was lost.''),
    ((0x4B, 0x06),
      ''The disk waited past its initiator response timeout (SPL-4 9.2.7.4) for the next frame from '' @
      ''the host, such as write data, and aborted the command. It does not say which side or link '' @
      ''stalled.''),
    ((0x47, 0x03),
      ''A transferred information unit failed its CRC check. For a SATA disk behind a SAS HBA, this is '' @
      (''how the disk'' @ [CHR 0x27] @ ''s own ATA INTERFACE CRC error is reported (SAT-4 table 162); compare its '') @
      ''Interface CRC Errors count in SMART details. It does not say which cable or connector.'')]"

subsection \<open>Events and texts\<close>

type_synonym mpr_event = "(string \<times> string option) list"

text \<open>\<open>event.get(k)\<close>, and \<open>str(event.get(k) or "")\<close>.\<close>

definition ev_get :: "mpr_event \<Rightarrow> string \<Rightarrow> string option" where
  "ev_get e k = (case map_of e k of None \<Rightarrow> None | Some v \<Rightarrow> v)"

definition ev_text :: "mpr_event \<Rightarrow> string \<Rightarrow> string" where
  "ev_text e k = (case ev_get e k of None \<Rightarrow> '''' | Some s \<Rightarrow> s)"

definition opt_note :: "string option \<Rightarrow> dict" where
  "opt_note note = (case note of None \<Rightarrow> [] | Some n \<Rightarrow> [(''decoder_note'', VStr n)])"

definition hex_byte :: "int \<Rightarrow> string" where
  "hex_byte v = ''0x'' @ hex_str 2 (nat v)"

text \<open>\<open>int(text, 16)\<close>: white space around, a sign, an optional \<open>0x\<close>, single underscores between digits.\<close>

definition int_base16 :: "string \<Rightarrow> int option" where
  "int_base16 s =
     (let t = py_strip s;
          negative = starts_with ''-'' t;
          body = (if negative \<or> starts_with ''+'' t then drop 1 t else t);
          digits = (if starts_with ''0x'' (py_lower body)
            then (if starts_with ''_'' (drop 2 body) then drop 3 body else drop 2 body) else body);
          groups = split_on (CHR ''_'') digits
      in if list_all (\<lambda>g. g \<noteq> [] \<and> list_all hex_digit g) groups
         then Some ((if negative then - 1 else 1) * int (value_in 16 (concat groups))) else None)"

text \<open>\<open>re.search\<close> with a matcher of the text from a position on.\<close>

fun re_search :: "(string \<Rightarrow> 'a option) \<Rightarrow> string \<Rightarrow> 'a option" where
  "re_search f [] = f []"
| "re_search f (c # cs) = (case f (c # cs) of Some m \<Rightarrow> Some m | None \<Rightarrow> re_search f cs)"

subsection \<open>Commands\<close>

definition upper_letter :: "char \<Rightarrow> bool" where
  "upper_letter c \<longleftrightarrow> (let n = (of_char c :: nat) in 65 \<le> n \<and> n \<le> 90)"

definition operation_char :: "char \<Rightarrow> bool" where
  "operation_char c \<longleftrightarrow> upper_letter c \<or> ascii_digit c \<or> c \<in> {CHR '' '', CHR ''_'', CHR ''/'', CHR ''-''}"

text \<open>The operation name: its characters never include a point or a bracket, so the longest run is the only one
  that can be followed by the optional bracket and the point.\<close>

definition match_operation :: "string \<Rightarrow> (string \<times> string) option" where
  "match_operation s = (case s of [] \<Rightarrow> None
     | c # _ \<Rightarrow> if \<not> upper_letter c then None
         else (let run = takeWhile operation_char s; rest = drop (length run) s;
                   inner = takeWhile (\<lambda>c. upper_letter c \<or> ascii_digit c) (drop 1 rest);
                   after = drop (length inner + 1) rest
               in if starts_with ''('' rest \<and> inner \<noteq> [] \<and> starts_with '')'' after
                  then Some (run @ ''('' @ inner @ '')'', drop 1 after) else Some (run, rest)))"

text \<open>The bytes after white space: hexadecimal digits and spaces. When white space is followed by anything else,
  the last white space can still be the match if it is a space and not the only one.\<close>

definition hex_or_space :: "char \<Rightarrow> bool" where
  "hex_or_space c \<longleftrightarrow> hex_digit c \<or> c = CHR '' ''"

definition match_cdb :: "string \<Rightarrow> string option" where
  "match_cdb s =
     (let ws = takeWhile py_isspace s; rest = drop (length ws) s; digits = takeWhile hex_or_space rest
      in if ws = [] then None
         else if digits \<noteq> [] then Some digits
         else if 2 \<le> length ws \<and> last ws = CHR '' '' then Some [CHR '' ''] else None)"

definition match_cdb_message :: "string \<Rightarrow> (string \<times> string) option" where
  "match_cdb_message s = (case match_operation s of None \<Rightarrow> None
     | Some (operation, rest) \<Rightarrow>
         if \<not> starts_with ''.'' rest then None
         else (let ws = takeWhile py_isspace (drop 1 rest); tail = drop (length ws + 1) rest
           in if ws = [] \<or> \<not> starts_with ''CDB:'' tail then None
              else map_option (\<lambda>cdb. (operation, cdb)) (match_cdb (drop 4 tail))))"

definition cdb_bytes_of :: "string \<Rightarrow> int list" where
  "cdb_bytes_of cdb = map (\<lambda>w. int (value_in 16 w)) (filter (\<lambda>w. length w = 2 \<and> list_all hex_digit w) (py_words cdb))"

definition cdb_direction :: "string \<Rightarrow> string" where
  "cdb_direction operation =
     (let upper = py_upper operation
      in if starts_with ''WRITE'' upper \<or> has_substring '' WRITE'' upper then ''write''
         else if starts_with ''READ'' upper \<or> has_substring '' READ'' upper then ''read'' else ''other'')"

definition cdb_fault_family :: "string \<Rightarrow> string" where
  "cdb_fault_family operation =
     (let upper = py_upper operation; direction = cdb_direction operation
      in if starts_with ''READ CAPACITY'' upper then ''capacity_query''
         else if direction = ''write'' then ''write_io''
         else if direction = ''read'' then ''read_io''
         else if upper = ''LOG SENSE'' then ''log_sense''
         else if has_substring ''PERSISTENT RESERVE'' upper \<or>
           upper \<in> {''READ KEYS'', ''READ RESERVATION'', ''REPORT CAPABILITIES'', ''READ FULL STATUS'', ''REGISTER'',
             ''RESERVE'', ''RELEASE'', ''CLEAR'', ''PREEMPT'', ''PREEMPT AND ABORT'', ''REGISTER AND IGNORE EXISTING KEY'',
             ''REGISTER AND MOVE''} then ''maintenance''
         else if has_substring ''DIAGNOSTIC'' upper \<or> has_substring ''ENCLOSURE'' upper then ''ses_enclosure''
         else if has_substring ''MAINTENANCE'' upper then ''maintenance''
         else ''scsi_command'')"

definition int_from_bytes :: "int list \<Rightarrow> int" where
  "int_from_bytes bs = foldl (\<lambda>r b. push_bit 8 r OR b) 0 bs"

text \<open>\<open>bytes[i:j]\<close>.\<close>

definition slice :: "nat \<Rightarrow> nat \<Rightarrow> 'a list \<Rightarrow> 'a list" where
  "slice i j xs = take (j - i) (drop i xs)"

definition decode_cdb_address :: "int list \<Rightarrow> dict" where
  "decode_cdb_address b =
     (if 16 \<le> length b \<and> b ! 0 \<in> {0x88, 0x8A, 0x8E, 0x8F, 0x91, 0x93} then
        [(''lba'', VInt (int_from_bytes (slice 2 10 b))), (''transfer_blocks'', VInt (int_from_bytes (slice 10 14 b)))]
      else if 12 \<le> length b \<and> b ! 0 \<in> {0xA8, 0xAA, 0xAE, 0xAF} then
        [(''lba'', VInt (int_from_bytes (slice 2 6 b))), (''transfer_blocks'', VInt (int_from_bytes (slice 6 10 b)))]
      else if 10 \<le> length b \<and> b ! 0 \<in> {0x28, 0x2A, 0x2E, 0x2F, 0x35, 0x41} then
        [(''lba'', VInt (int_from_bytes (slice 2 6 b))), (''transfer_blocks'', VInt (int_from_bytes (slice 7 9 b)))]
      else if 6 \<le> length b \<and> b ! 0 \<in> {0x08, 0x0A} then
        [(''lba'', VInt ((push_bit 16 (b ! 1 AND 0x1F) OR push_bit 8 (b ! 2)) OR b ! 3)),
         (''transfer_blocks'', VInt (if b ! 4 = 0 then 256 else b ! 4))]
      else [])"

definition decode_cdb_lengths :: "int list \<Rightarrow> dict" where
  "decode_cdb_lengths b =
     (case b of [] \<Rightarrow> []
      | opcode # _ \<Rightarrow>
         if opcode = 0x12 \<and> 5 \<le> length b then [(''allocation_length'', VInt (int_from_bytes (slice 3 5 b)))]
         else if opcode \<in> {0x03, 0x1A} \<and> 5 \<le> length b then [(''allocation_length'', VInt (b ! 4))]
         else if opcode = 0x15 \<and> 5 \<le> length b then [(''parameter_list_length'', VInt (b ! 4))]
         else if opcode \<in> {0x4C, 0x55, 0x5F} \<and> 9 \<le> length b then
           [(''parameter_list_length'', VInt (int_from_bytes (slice 7 9 b)))]
         else if opcode = 0x42 \<and> 9 \<le> length b then [(''parameter_list_length'', VInt (int_from_bytes (slice 7 9 b)))]
         else if opcode \<in> {0x4D, 0x5A, 0x5E} \<and> 9 \<le> length b then
           [(''allocation_length'', VInt (int_from_bytes (slice 7 9 b)))]
         else if opcode = 0xA0 \<and> 10 \<le> length b then [(''allocation_length'', VInt (int_from_bytes (slice 6 10 b)))]
         else if opcode = 0x84 \<and> 14 \<le> length b then [(''allocation_length'', VInt (int_from_bytes (slice 10 14 b)))]
         else if opcode = 0xA3 \<and> 10 \<le> length b then [(''allocation_length'', VInt (int_from_bytes (slice 6 10 b)))]
         else if opcode = 0xA4 \<and> 10 \<le> length b then [(''parameter_list_length'', VInt (int_from_bytes (slice 6 10 b)))]
         else if opcode = 0x9E \<and> 14 \<le> length b \<and> b ! 1 AND 0x1F \<in> {0x10, 0x12} then
           [(''allocation_length'', VInt (int_from_bytes (slice 10 14 b)))]
         else [])"

definition decode_log_sense_cdb :: "int list \<Rightarrow> dict" where
  "decode_log_sense_cdb b =
     (if length b < 3 then []
      else (let page_code = b ! 2 AND 0x3F; page_control = drop_bit 6 (b ! 2) AND 0x03
        in [(''log_page_code'', VStr (hex_byte page_code)),
            (''log_page'', VStr (table_get log_sense_page_names page_code ''Unknown log page'')),
            (''log_page_control'', VStr (''0x'' @ hex_str 0 (nat page_control))),
            (''log_page_control_label'', VStr (table_get log_sense_page_control_labels page_control '''')),
            (''log_save_parameters'', VBool (b ! 1 AND 0x01 \<noteq> 0)),
            (''log_page_source'', VDict t10_log_sense_source)] @
           (if 3 < length b then [(''log_subpage_code'', VStr (hex_byte (b ! 3)))] else []) @
           (if page_code = 0x18 then [(''sas_phy_log_concepts'', sas_phy_log_parameters)] else [])))"

text \<open>The service action of a command, when its opcode has one and the byte is there, and its name.\<close>

definition service_action_of :: "int list \<Rightarrow> int option" where
  "service_action_of b = (case b of opcode # action # _ \<Rightarrow>
       if opcode \<in> set scsi_service_action_opcodes then Some (action AND 0x1F) else None
     | _ \<Rightarrow> None)"

definition service_action_name :: "int list \<Rightarrow> string option" where
  "service_action_name b = (case service_action_of b of None \<Rightarrow> None
     | Some a \<Rightarrow> map_of scsi_service_action_names (b ! 0, a))"

definition opcode_name :: "int list \<Rightarrow> string option" where
  "opcode_name b = (case b of [] \<Rightarrow> None | opcode # _ \<Rightarrow> map_of scsi_cdb_opcode_names opcode)"

definition cdb_operation :: "string \<Rightarrow> int list \<Rightarrow> string" where
  "cdb_operation reported b = (case service_action_name b of Some n \<Rightarrow> n
     | None \<Rightarrow> (case opcode_name b of Some n \<Rightarrow> n | None \<Rightarrow> reported))"

definition cdb_confidence :: "int list \<Rightarrow> string \<times> string option" where
  "cdb_confidence b =
     (if service_action_of b \<noteq> None \<and> service_action_name b = None then
        (''standard-partial'', Some ''Opcode is standard, but this service action is not in the current local lookup table.'')
      else if opcode_name b = None then
        (''observed'', Some ''Kernel message supplied the operation name; opcode is not in the current local standards table.'')
      else (''standard'', None))"

definition decode_cdb :: "string \<Rightarrow> int list \<Rightarrow> dict" where
  "decode_cdb reported b =
     (let operation = cdb_operation reported b; family = cdb_fault_family operation; (confidence, note) = cdb_confidence b;
          standard = opcode_name b \<noteq> None;
          base = [(''label'', VStr operation), (''family'', VStr family), (''operation'', VStr operation),
            (''reported_operation'', VStr reported), (''direction'', VStr (cdb_direction operation)),
            (''cdb_hex'', VStr (join '' '' (map (\<lambda>v. hex_str 2 (nat v)) b))), (''byte_count'', VInt (int (length b))),
            (''likely_layer'', VStr (fault_family_likely_layer family)),
            (''description'', VStr (operation @ '' was active when the path error was reported.'')),
            (''decode_confidence'', VStr confidence),
            (''decode_source'', VStr (if standard then ''t10_scsi_operation_codes'' else ''kernel_message'')),
            (''source_attribution'', VDict (if standard then t10_opcode_source else kernel_message_source))] @ opt_note note @
            (case b of [] \<Rightarrow> [] | opcode # _ \<Rightarrow> [(''opcode'', VStr (hex_byte opcode))]) @
            (case service_action_of b of None \<Rightarrow> []
             | Some a \<Rightarrow> [(''service_action'', VStr (hex_byte a))] @
                 (if service_action_name b \<noteq> None then [(''service_action_label'', VStr operation)] else []))
      in dict_update (dict_update (dict_update base (decode_cdb_address b)) (decode_cdb_lengths b))
           (if b \<noteq> [] \<and> b ! 0 = 0x4D then decode_log_sense_cdb b else []))"

definition decode_scsi_cdb_message :: "string \<Rightarrow> dict" where
  "decode_scsi_cdb_message message = (case re_search match_cdb_message message of None \<Rightarrow> []
     | Some (operation, cdb) \<Rightarrow> decode_cdb (py_strip operation) (cdb_bytes_of cdb))"

subsection \<open>Sense data\<close>

definition parse_asc_ascq :: "string \<Rightarrow> (int \<times> int) option" where
  "parse_asc_ascq s = (case split_once (CHR '','') s of None \<Rightarrow> None
     | Some (a, b) \<Rightarrow> (case (int_base16 (py_strip a), int_base16 (py_strip b)) of
           (Some x, Some y) \<Rightarrow> Some (x, y) | _ \<Rightarrow> None))"

definition asc_fault_family :: "int \<Rightarrow> int \<Rightarrow> string option" where
  "asc_fault_family asc ascq =
     (if asc = 0x03 then Some ''write_error''
      else if asc = 0x04 then
        Some (if ascq \<in> {0x0A, 0x0B, 0x0C} then ''device_path_exception'' else ''target_failure'')
      else if asc = 0x08 then Some ''logical_unit_communication''
      else if asc = 0x09 then Some ''target_failure''
      else if asc = 0x0B then Some (if ascq = 0x02 then ''enclosure_warning'' else ''device_path_exception'')
      else if asc = 0x0C then Some ''write_error''
      else if asc = 0x10 then Some ''protection_error''
      else if asc = 0x11 then Some ''read_error''
      else if asc = 0x14 then Some ''device_path_exception''
      else if asc \<in> {0x15, 0x16} then Some ''target_failure''
      else if asc \<in> {0x17, 0x18} then Some ''recovered_data''
      else if asc = 0x19 then Some ''medium_format''
      else if asc = 0x1B then Some ''sas_protocol''
      else if asc = 0x27 then Some ''write_protect''
      else if asc \<in> {0x28, 0x29, 0x2A, 0x2F, 0x6B} then
        Some (if asc = 0x29 \<and> ascq = 0x07 then ''link_loss''
          else if asc = 0x29 \<and> ascq \<in> {0x02, 0x03, 0x04} then ''bus_reset''
          else if asc = 0x29 \<and> ascq \<in> {0x05, 0x06} then ''sas_protocol''
          else if asc = 0x2A \<and> ascq = 0x07 then ''device_path_exception''
          else ''unit_attention'')
      else if asc \<in> {0x31, 0x32} then Some ''medium_format''
      else if asc \<in> {0x34, 0x35} then Some ''ses_enclosure''
      else if asc = 0x3E then Some (if ascq = 0x02 then ''timeout'' else ''target_failure'')
      else if asc = 0x3F then Some ''unit_attention''
      else if asc \<in> {0x40, 0x41, 0x42, 0x44} then Some ''target_failure''
      else if asc \<in> {0x45, 0x46, 0x47, 0x48, 0x49, 0x4A} then Some ''sas_protocol''
      else if asc = 0x4B then
        Some (if ascq \<in> {0x03, 0x06, 0x0F} then ''timeout''
          else if ascq = 0x07 then ''link_loss''
          else if 0x08 \<le> ascq \<and> ascq \<le> 0x0D then ''data_buffer_error''
          else if 0x0E \<le> ascq \<and> ascq \<le> 0x15 then ''pcie_fabric''
          else ''sas_protocol'')
      else if asc = 0x4C then Some ''target_failure''
      else if asc = 0x55 then Some ''device_path_exception''
      else if asc = 0x5B then Some ''log_exception''
      else if asc = 0x5D then Some ''failure_prediction''
      else if asc = 0x5E then Some ''power_condition''
      else if asc \<in> {0x67, 0x68, 0x69, 0x6C, 0x6D} then Some ''target_failure''
      else None)"

text \<open>The later tests of the code for three codes of 4Bh are never reached: that code always has a family.\<close>

definition sense_fault_family :: "string \<Rightarrow> string \<Rightarrow> (int \<times> int) option \<Rightarrow> string" where
  "sense_fault_family reason sense_key asc =
     (let lowered = py_lower (reason @ '' '' @ sense_key)
      in case (case asc of None \<Rightarrow> None | Some (a, q) \<Rightarrow> asc_fault_family a q) of
           Some f \<Rightarrow> f
         | None \<Rightarrow>
            if has_substring ''nak'' lowered then ''sas_protocol''
            else if has_substring ''connection lost'' lowered then ''link_loss''
            else if has_substring ''timeout'' lowered then ''timeout''
            else if has_substring ''bus reset'' lowered \<or> has_substring ''reset occurred'' lowered then ''bus_reset''
            else if has_substring ''aborted'' lowered then ''aborted_command''
            else ''scsi_sense'')"

definition sense_description :: "string \<Rightarrow> string \<Rightarrow> (int \<times> int) option \<Rightarrow> string" where
  "sense_description label family asc =
     (case (case asc of None \<Rightarrow> None | Some a \<Rightarrow> map_of link_sense_descriptions a) of
        Some d \<Rightarrow> d
      | None \<Rightarrow>
         if family = ''sas_protocol'' then label @ '' is a SAS protocol/link symptom, often path or signal related.''
         else if family = ''link_loss'' then ''The OS reported that the link to this target was lost.''
         else if family = ''timeout'' then ''The command waited too long for SAS acknowledgement or completion.''
         else if family = ''bus_reset'' then ''The bus was reset while recovering from transport errors.''
         else table_get [
           (''logical_unit_communication'', label @ '' indicates the target stopped responding cleanly on the communication path.''),
           (''target_failure'', label @ '' points at a target/device-side failure reported through SCSI sense data.''),
           (''medium_format'', label @ '' points at target medium formatting or defect-list management.''),
           (''failure_prediction'', label @ '' is a target-reported health prediction condition.''),
           (''recovered_data'', label @ '' means the target recovered data after media or correction work.''),
           (''write_protect'', label @ '' means the target refused the command because write protection is active.''),
           (''log_exception'', label @ '' points at a SCSI diagnostic log threshold or counter condition.''),
           (''power_condition'', label @ '' reports a target power-condition transition.''),
           (''unit_attention'', label @ '' is a SCSI target state-change notification.''),
           (''enclosure_warning'', label @ '' is an enclosure/SES health warning reported through SCSI sense data.''),
           (''pcie_fabric'', label @ '' is a host PCIe fabric or endpoint error surfaced through SCSI sense data.''),
           (''data_buffer_error'', label @ '' indicates a data buffer transfer problem during the SCSI command.''),
           (''write_error'', label @ '' indicates the target reported a write-path error through SCSI sense data.''),
           (''read_error'', label @ '' indicates the target reported a read-path error through SCSI sense data.''),
           (''ses_enclosure'', label @ '' came from an enclosure services or SES-related sense condition.''),
           (''protection_error'', label @ '' indicates block protection metadata did not validate.'')]
           family (''The target returned SCSI sense data: '' @ label @ ''.''))"

definition first_filled :: "string list \<Rightarrow> string \<Rightarrow> string" where
  "first_filled ss d = (case filter (\<lambda>s. s \<noteq> '''') ss of [] \<Rightarrow> d | s # _ \<Rightarrow> s)"

definition decode_scsi_sense_event :: "mpr_event \<Rightarrow> dict" where
  "decode_scsi_sense_event e =
     (let reason = py_strip (ev_text e ''reason'');
          sense_key = py_upper (first_filled [ev_text e ''sense_key'', ev_text e ''sense''] '''');
          asc = py_lower (ev_text e ''asc'');
          codes = parse_asc_ascq asc;
          asc_label = (case codes of None \<Rightarrow> None | Some c \<Rightarrow> map_of scsi_asc_ascq_labels c);
          family = sense_fault_family reason sense_key codes;
          sense_label = map_of scsi_sense_key_labels sense_key;
          unlisted = (codes \<noteq> None \<and> asc_label = None);
          label = (if unlisted \<and> reason = '''' then ''Unconfirmed ASC/ASCQ '' @ asc
            else if reason \<noteq> '''' then reason
            else (case asc_label of Some l \<Rightarrow> l
              | None \<Rightarrow> (case sense_label of Some l \<Rightarrow> l | None \<Rightarrow> ''SCSI sense event'')));
          confidence = (if asc_label \<noteq> None then ''standard''
            else if reason \<noteq> '''' \<or> sense_label \<noteq> None then ''observed'' else ''unconfirmed'')
      in [(''label'', VStr label), (''family'', VStr family), (''sense_key'', VStr sense_key),
          (''sense_label'', opt_str sense_label), (''asc'', VStr asc), (''asc_label'', opt_str asc_label),
          (''likely_layer'', VStr (fault_family_likely_layer family)),
          (''description'', VStr (sense_description label family codes)),
          (''decode_confidence'', VStr confidence),
          (''decode_source'', VStr (if asc_label \<noteq> None then ''t10_scsi_asc_ascq'' else ''kernel_message'')),
          (''source_attribution'', VDict (if asc_label \<noteq> None then t10_asc_ascq_source else kernel_message_source))] @
         opt_note (if unlisted
           then Some ''ASC/ASCQ was observed in kernel output but is not in the current local lookup table.'' else None))"

subsection \<open>Status values\<close>

fun title_from :: "bool \<Rightarrow> string \<Rightarrow> string" where
  "title_from cased [] = []"
| "title_from cased (c # cs) =
     (if cased then lower_char c else upper_char c) # title_from (upper_letter (upper_char c)) cs"

definition display_scsi_status_label :: "string \<Rightarrow> string" where
  "display_scsi_status_label label = join '' '' (map (\<lambda>w. if w = ''ACA'' then ''ACA'' else title_from False w) (py_words label))"

definition match_status_code :: "string \<Rightarrow> int option" where
  "match_status_code s =
     (let t = remove_prefix ''0x'' s; v = (if t \<noteq> [] \<and> last t = CHR ''h'' then butlast t else t)
      in if v \<noteq> [] \<and> length v \<le> 2 \<and> list_all hex_digit v then Some (int (value_in 16 v)) else None)"

definition status_label :: "string \<Rightarrow> string option" where
  "status_label raw =
     (let spelled = replace_char (CHR ''-'') (CHR '' '') (replace_char (CHR ''_'') (CHR '' '') (py_upper raw));
          normalized = (case match_status_code raw of None \<Rightarrow> spelled | Some n \<Rightarrow> table_get scsi_status_codes n spelled)
      in map_of scsi_status_labels normalized)"

definition decode_scsi_status_value :: "string \<Rightarrow> dict" where
  "decode_scsi_status_value text =
     (let raw = py_strip text
      in if raw = '''' then
           [(''label'', VStr ''SCSI status event''), (''family'', VStr ''scsi_status''),
            (''likely_layer'', VStr ''SCSI target status''),
            (''description'', VStr ''The target returned a SCSI status response for this command.'')]
         else (case status_label raw of
           Some label \<Rightarrow>
             (let family = (if label = ''TASK ABORTED'' then ''aborted_command'' else ''scsi_status'');
                  display = display_scsi_status_label label;
                  description = (if label = ''CHECK CONDITION''
                      then ''The target returned Check Condition; following sense data should explain the failure.''
                    else if label \<in> {''BUSY'', ''TASK SET FULL''}
                      then ''The target or command queue could not accept the command at that moment.''
                    else if label = ''RESERVATION CONFLICT''
                      then ''The command conflicted with a SCSI reservation or persistent reservation state.''
                    else if label = ''TASK ABORTED'' then ''The target reported that the task was aborted.''
                    else ''The target returned a standard SCSI status response for this command.'')
              in [(''label'', VStr (''SCSI status: '' @ display)), (''family'', VStr family),
                  (''likely_layer'', VStr (if family \<noteq> ''scsi_status'' then fault_family_likely_layer family else ''SCSI target status'')),
                  (''description'', VStr description), (''scsi_status'', VStr display),
                  (''decode_confidence'', VStr ''standard''), (''decode_source'', VStr ''t10_scsi_status''),
                  (''source_attribution'', VDict t10_status_source)] @
                 (case match_status_code raw of None \<Rightarrow> [] | Some n \<Rightarrow> [(''scsi_status_code'', VStr (hex_byte n))]))
         | None \<Rightarrow>
             [(''label'', VStr (''SCSI status: '' @ raw)), (''family'', VStr ''scsi_status''),
              (''likely_layer'', VStr ''SCSI target status''),
              (''description'', VStr ''The target returned a SCSI status response that is not in the current local status-code table.''),
              (''scsi_status'', VStr raw), (''decode_confidence'', VStr ''observed''),
              (''decode_source'', VStr ''kernel_message''), (''source_attribution'', VDict kernel_message_source),
              (''decoder_note'', VStr (''Kernel message supplied the SCSI status text; value is not in the '' @
                ''current local status-code table.''))]))"


subsection \<open>Numbers in command blocks\<close>

text \<open>The bytes of a number, most significant first, and commands with an address and a block count.\<close>

fun be_bytes :: "nat \<Rightarrow> int \<Rightarrow> int list" where
  "be_bytes 0 v = []"
| "be_bytes (Suc n) v = be_bytes n (v div 256) @ [v mod 256]"

lemma length_be_bytes [simp]: "length (be_bytes n v) = n"
  by (induction n v rule: be_bytes.induct) simp_all

lemma shift_or: "0 \<le> b \<Longrightarrow> b < 256 \<Longrightarrow> push_bit 8 r OR b = r * 256 + (b :: int)"
proof -
  assume b: "0 \<le> b" "b < 256"
  have "push_bit 8 r AND b = 0"
  proof (rule bit_eqI)
    fix n
    have "\<not> bit b n" if "8 \<le> n"
    proof -
      have "b < 2 ^ n" using b(2) power_increasing [OF that, of "2 :: int"] by simp
      with b(1) have "b div 2 ^ n = 0" by simp
      then show ?thesis by (simp add: bit_iff_odd)
    qed
    then show "bit (push_bit 8 r AND b) n \<longleftrightarrow> bit (0 :: int) n" by (auto simp: bit_and_iff bit_push_bit_iff)
  qed
  then have "push_bit 8 r OR b = push_bit 8 r + b" using plus_and_or [of "push_bit 8 r" b] by simp
  then show ?thesis by (simp add: push_bit_eq_mult)
qed

lemma int_from_bytes_snoc: "0 \<le> b \<Longrightarrow> b < 256 \<Longrightarrow> int_from_bytes (bs @ [b]) = int_from_bytes bs * 256 + b"
  by (simp add: int_from_bytes_def shift_or)

lemma int_from_be_bytes: "0 \<le> v \<Longrightarrow> v < 256 ^ n \<Longrightarrow> int_from_bytes (be_bytes n v) = v"
proof (induction n v rule: be_bytes.induct)
  case (1 v)
  then show ?case by (simp add: int_from_bytes_def)
next
  case (2 n v)
  from 2(3) have "v div 256 < 256 ^ n" by (simp add: div_less_iff_less_mult mult.commute)
  with 2 have "int_from_bytes (be_bytes n (v div 256)) = v div 256" by (simp add: pos_imp_zdiv_nonneg_iff)
  then show ?case by (simp add: int_from_bytes_snoc)
qed

lemma slice_middle: "length a = i \<Longrightarrow> i + length b = j \<Longrightarrow> slice i j (a @ b @ c) = b"
  by (simp add: slice_def)

text \<open>The standard layouts of the commands with an address. \<open>f\<close>, \<open>g\<close> and \<open>c\<close> are the bytes around the
  address and the count: the flags, the group number and the control byte. In a six-byte command the flags are the
  three bits above the address.\<close>

definition cdb6 :: "int \<Rightarrow> int \<Rightarrow> int \<Rightarrow> int \<Rightarrow> int \<Rightarrow> int list" where
  "cdb6 opcode f lba n c = [opcode, 32 * f + lba div 65536] @ be_bytes 2 lba @ [n mod 256, c]"

definition cdb10 :: "int \<Rightarrow> int \<Rightarrow> int \<Rightarrow> int \<Rightarrow> int \<Rightarrow> int \<Rightarrow> int list" where
  "cdb10 opcode f lba g n c = [opcode, f] @ be_bytes 4 lba @ [g] @ be_bytes 2 n @ [c]"

definition cdb12 :: "int \<Rightarrow> int \<Rightarrow> int \<Rightarrow> int \<Rightarrow> int \<Rightarrow> int \<Rightarrow> int list" where
  "cdb12 opcode f lba n g c = [opcode, f] @ be_bytes 4 lba @ be_bytes 4 n @ [g, c]"

definition cdb16 :: "int \<Rightarrow> int \<Rightarrow> int \<Rightarrow> int \<Rightarrow> int \<Rightarrow> int \<Rightarrow> int list" where
  "cdb16 opcode f lba n g c = [opcode, f] @ be_bytes 8 lba @ be_bytes 4 n @ [g, c]"

definition address_dict :: "int \<Rightarrow> int \<Rightarrow> dict" where
  "address_dict lba n = [(''lba'', VInt lba), (''transfer_blocks'', VInt n)]"

lemma cdb10_slices: "slice 2 6 (cdb10 k f lba g n c) = be_bytes 4 lba" "slice 7 9 (cdb10 k f lba g n c) = be_bytes 2 n"
  using slice_middle [of "[k, f]" 2 "be_bytes 4 lba" 6 "[g] @ be_bytes 2 n @ [c]"]
    slice_middle [of "[k, f] @ be_bytes 4 lba @ [g]" 7 "be_bytes 2 n" 9 "[c]"] by (simp_all add: cdb10_def)

lemma cdb12_slices: "slice 2 6 (cdb12 k f lba n g c) = be_bytes 4 lba" "slice 6 10 (cdb12 k f lba n g c) = be_bytes 4 n"
  using slice_middle [of "[k, f]" 2 "be_bytes 4 lba" 6 "be_bytes 4 n @ [g, c]"]
    slice_middle [of "[k, f] @ be_bytes 4 lba" 6 "be_bytes 4 n" 10 "[g, c]"] by (simp_all add: cdb12_def)

lemma cdb16_slices: "slice 2 10 (cdb16 k f lba n g c) = be_bytes 8 lba" "slice 10 14 (cdb16 k f lba n g c) = be_bytes 4 n"
  using slice_middle [of "[k, f]" 2 "be_bytes 8 lba" 10 "be_bytes 4 n @ [g, c]"]
    slice_middle [of "[k, f] @ be_bytes 8 lba" 10 "be_bytes 4 n" 14 "[g, c]"] by (simp_all add: cdb16_def)

lemma low_bits_flags: "0 \<le> a \<Longrightarrow> a < 32 \<Longrightarrow> (32 * f + a) AND 0x1F = (a :: int)"
proof -
  assume a: "0 \<le> a" "a < 32"
  have "(32 * f + a) AND 0x1F = take_bit 5 (32 * f + a)" by (simp add: take_bit_eq_mask mask_eq_exp_minus_1)
  also have "\<dots> = a" using a by (simp add: take_bit_eq_mod)
  finally show ?thesis .
qed

lemma cdb6_lba: "0 \<le> lba \<Longrightarrow> lba < 2 ^ 21 \<Longrightarrow>
    (push_bit 16 (cdb6 k f lba n c ! 1 AND 0x1F) OR push_bit 8 (cdb6 k f lba n c ! 2)) OR cdb6 k f lba n c ! 3 = lba"
proof -
  assume lba: "0 \<le> lba" "lba < 2 ^ 21"
  let ?a = "lba div 65536" let ?b = "lba div 256 mod 256" let ?c = "lba mod 256"
  have bytes: "be_bytes 2 lba = [?b, ?c]" by (simp add: eval_nat_numeral)
  have a: "0 \<le> ?a" "?a < 32" using lba by (simp_all add: pos_imp_zdiv_nonneg_iff)
  have "push_bit 16 ?a OR push_bit 8 ?b = push_bit 8 (push_bit 8 ?a OR ?b)" by (simp add: push_bit_or)
  then have "(push_bit 16 ?a OR push_bit 8 ?b) OR ?c = (?a * 256 + ?b) * 256 + ?c" by (simp add: shift_or)
  also have "\<dots> = lba"
  proof -
    have "?a = lba div 256 div 256" by (simp add: zdiv_zmult2_eq [symmetric])
    then have "?a * 256 + ?b = lba div 256" by (simp only: div_mult_mod_eq)
    then show ?thesis by (simp only: div_mult_mod_eq)
  qed
  finally show ?thesis using low_bits_flags[OF a, of f] by (simp add: cdb6_def bytes)
qed

subsection \<open>Properties\<close>

text \<open>C38: Addresses survive. For every read, write, verify or synchronize command of the standard lengths, whatever
  its flags, group number and control byte, the decoder returns exactly the logical block address and block count
  that were encoded, over the whole range of the fields; a six-byte command with count zero means 256 blocks.\<close>

theorem cdb_address_roundtrip:
  assumes "0 \<le> lba" "0 \<le> n"
  shows "(k \<in> {0x88, 0x8A, 0x8E, 0x8F, 0x91, 0x93} \<and> lba < 2 ^ 64 \<and> n < 2 ^ 32 \<longrightarrow>
      decode_cdb_address (cdb16 k f lba n g c) = address_dict lba n) \<and>
    (k \<in> {0xA8, 0xAA, 0xAE, 0xAF} \<and> lba < 2 ^ 32 \<and> n < 2 ^ 32 \<longrightarrow>
      decode_cdb_address (cdb12 k f lba n g c) = address_dict lba n) \<and>
    (k \<in> {0x28, 0x2A, 0x2E, 0x2F, 0x35, 0x41} \<and> lba < 2 ^ 32 \<and> n < 2 ^ 16 \<longrightarrow>
      decode_cdb_address (cdb10 k f lba g n c) = address_dict lba n) \<and>
    (k \<in> {0x08, 0x0A} \<and> lba < 2 ^ 21 \<and> 1 \<le> n \<and> n \<le> 256 \<longrightarrow>
      decode_cdb_address (cdb6 k f lba n c) = address_dict lba n)"
proof (intro conjI impI)
  assume a: "k \<in> {0x88, 0x8A, 0x8E, 0x8F, 0x91, 0x93} \<and> lba < 2 ^ 64 \<and> n < 2 ^ 32"
  have "length (cdb16 k f lba n g c) = 16" "cdb16 k f lba n g c ! 0 = k" by (simp_all add: cdb16_def)
  then show "decode_cdb_address (cdb16 k f lba n g c) = address_dict lba n"
    using a assms by (simp add: decode_cdb_address_def cdb16_slices int_from_be_bytes address_dict_def)
next
  assume a: "k \<in> {0xA8, 0xAA, 0xAE, 0xAF} \<and> lba < 2 ^ 32 \<and> n < 2 ^ 32"
  have "length (cdb12 k f lba n g c) = 12" "cdb12 k f lba n g c ! 0 = k" by (simp_all add: cdb12_def)
  then show "decode_cdb_address (cdb12 k f lba n g c) = address_dict lba n"
    using a assms by (simp add: decode_cdb_address_def cdb12_slices int_from_be_bytes address_dict_def)
next
  assume a: "k \<in> {0x28, 0x2A, 0x2E, 0x2F, 0x35, 0x41} \<and> lba < 2 ^ 32 \<and> n < 2 ^ 16"
  have "length (cdb10 k f lba g n c) = 10" "cdb10 k f lba g n c ! 0 = k" by (simp_all add: cdb10_def)
  then show "decode_cdb_address (cdb10 k f lba g n c) = address_dict lba n"
    using a assms by (auto simp: decode_cdb_address_def cdb10_slices int_from_be_bytes address_dict_def)
next
  assume a: "k \<in> {0x08, 0x0A} \<and> lba < 2 ^ 21 \<and> 1 \<le> n \<and> n \<le> 256"
  have "length (cdb6 k f lba n c) = 6" "cdb6 k f lba n c ! 0 = k" "cdb6 k f lba n c ! 4 = n mod 256"
    by (simp_all add: cdb6_def eval_nat_numeral)
  moreover have "(if n mod 256 = 0 then 256 else n mod 256) = n" using a by (cases "n = 256") auto
  ultimately show "decode_cdb_address (cdb6 k f lba n c) = address_dict lba n"
    using a cdb6_lba [OF assms(1), of k f n c] by (auto simp: decode_cdb_address_def address_dict_def)
qed

theorem cdb_address_roundtrip_witness:
  "decode_cdb_address (cdb10 0x28 0x18 0x01020304 0x1F 0x0506 0xC0) = address_dict 0x01020304 0x0506 \<and>
   decode_cdb_address (cdb6 0x08 5 0x1FFFFF 256 0xC0) = address_dict 0x1FFFFF 256"
  using cdb_address_roundtrip [of "0x01020304" "0x0506" "0x28" "0x18" "0x1F" "0xC0"]
    cdb_address_roundtrip [of "0x1FFFFF" "256" "0x08" "5" "0" "0xC0"] by simp

end
