(* ===== verification/Mpr_Summary.thy ===== *)
theory Mpr_Summary
  imports Lsi_Loginfo Scsi_Decode "HOL-Library.Multiset"
begin

text \<open>
  Kernel events of the SAS controllers and their summaries, from
  \<open>app/services/sas_diagnostics/decoder.py\<close>: the dispatch to the decoders, the decoded record of an event with
  its bounds and fingerprint, the running summary (counters, devices, targets, findings) and its final form.

  An event is an association list from keys to texts or None; a record is a Python dict. The sets of a summary
  are lists without repetition: the code only adds to them and sorts them. A counter is an association list in
  the order of first use, which is the order of a Python \<open>Counter\<close>.
\<close>

subsection \<open>Tables\<close>

definition default_event_table_page_size :: nat where
  "default_event_table_page_size = 25"

definition max_diagnostic_text_length :: nat where
  "max_diagnostic_text_length = 384"

definition max_diagnostic_collection_items :: nat where
  "max_diagnostic_collection_items = 64"

definition max_diagnostic_numeric_token_length :: nat where
  "max_diagnostic_numeric_token_length = 32"

definition scsi_status_severities :: "(string \<times> string) list" where
  "scsi_status_severities = [
    (''GOOD'', ''info''), (''CHECK CONDITION'', ''warning''), (''CONDITION MET'', ''info''), (''BUSY'', ''warning''),
    (''RESERVATION CONFLICT'', ''warning''), (''TASK SET FULL'', ''warning''), (''ACA ACTIVE'', ''warning''),
    (''TASK ABORTED'', ''error'')]"

definition freebsd_errno_source :: dict where
  "freebsd_errno_source = [
    (''name'', VStr ''FreeBSD intro(2) errno list''),
    (''url'', VStr ''https://man.freebsd.org/cgi/man.cgi?apropos=0&manpath=freebsd&query=intro&sektion=2'')]"

definition freebsd_errno_labels :: "(nat \<times> string \<times> string) list" where
  "freebsd_errno_labels = [(5, ''EIO'', ''Input/output error'')]"

subsection \<open>Values\<close>

text \<open>\<open>str(d.get(k) or "")\<close> of a key that holds texts only.\<close>

definition dict_text :: "dict \<Rightarrow> string \<Rightarrow> string" where
  "dict_text d k = (case dict_get d k of VStr s \<Rightarrow> s | _ \<Rightarrow> '''')"

definition cut_text :: "nat \<Rightarrow> string \<Rightarrow> string" where
  "cut_text n s = (if length s \<le> n then s else take (n - 3) s @ ''...'')"

function bound_diagnostic_value :: "py_value \<Rightarrow> py_value" where
  "bound_diagnostic_value (VStr s) = VStr (cut_text max_diagnostic_text_length s)"
| "bound_diagnostic_value (VDict d) =
     VDict (map (\<lambda>(k, v). (k, bound_diagnostic_value v)) (take max_diagnostic_collection_items d))"
| "bound_diagnostic_value (VList xs) = VList (map bound_diagnostic_value (take max_diagnostic_collection_items xs))"
| "bound_diagnostic_value VNone = VNone"
| "bound_diagnostic_value (VBool b) = VBool b"
| "bound_diagnostic_value (VInt i) = VInt i"
| "bound_diagnostic_value VOther = VOther"
  by pat_completeness auto
termination
proof (relation "measure size", goal_cases)
  case (2 d z k v)
  then have "z \<in> set d" by (auto dest: in_set_takeD)
  with 2 show ?case by (auto dest!: size_list_estimation [where f = "size_prod (\<lambda>_. 0) size" and y = "size v"])
next
  case (3 xs z)
  then have "z \<in> set xs" by (auto dest: in_set_takeD)
  then show ?case using size_list_estimation' [of z xs "size z" size] by simp
qed simp

subsection \<open>Decoding an event\<close>

definition message_value_after_colon :: "string \<Rightarrow> string" where
  "message_value_after_colon message = (case split_once (CHR '':'') message of
     None \<Rightarrow> py_strip message | Some (_, rest) \<Rightarrow> py_strip rest)"

definition decode_cam_status_event :: "string \<Rightarrow> dict" where
  "decode_cam_status_event message =
     (let status = message_value_after_colon message; lowered = py_lower status;
          (label, description) =
            (if lowered = ''ccb request completed with an error'' then
               (''CAM completed command with an error'',
                ''The FreeBSD CAM layer saw the CCB complete with a failed command status.'')
             else if lowered = ''scsi status error'' then
               (''CAM reported SCSI status error'',
                ''The FreeBSD CAM layer reported that target SCSI status, not clean transport completion, drove the failure.'')
             else ((if status \<noteq> '''' then ''CAM status: '' @ status else ''CAM transport status''),
                ''The FreeBSD CAM layer reported a non-clean command status.''))
      in [(''label'', VStr label), (''family'', VStr ''cam_error''), (''likely_layer'', VStr ''OS CAM transport layer''),
          (''description'', VStr description), (''cam_status'', if status \<noteq> '''' then VStr status else VNone)])"

definition decode_scsi_status_event :: "string \<Rightarrow> dict" where
  "decode_scsi_status_event message = decode_scsi_status_value (message_value_after_colon message)"

text \<open>
  \<open>Error\s+(\d+)\s*,\s*(.+)$\<close> at one position. A point never matches a newline and the end is the end of the text
  or a last newline, so the state is the rest of the line after the comma and nothing but one newline may follow
  it. When only white space follows the comma, the match gives some of it back to the state.
\<close>

definition match_cam_state :: "string \<Rightarrow> string option" where
  "match_cam_state rest =
     (let body = dropWhile py_isspace rest; line = takeWhile (\<lambda>c. c \<noteq> CHR 0x0A) body; after = drop (length line) body
      in if body \<noteq> [] then (if after = [] \<or> after = [CHR 0x0A] then Some line else None)
         else (case rev rest of [] \<Rightarrow> None
           | c # cs \<Rightarrow> if c \<noteq> CHR 0x0A then Some [c]
               else (case cs of [] \<Rightarrow> None | d # _ \<Rightarrow> if d \<noteq> CHR 0x0A then Some [d] else None)))"

definition match_cam_error :: "string \<Rightarrow> (string \<times> string) option" where
  "match_cam_error s =
     (let rest = drop 5 s; spaces = takeWhile py_isspace rest; number = drop (length spaces) rest;
          code = takeWhile ascii_digit number; tail = dropWhile py_isspace (drop (length code) number)
      in if py_lower (take 5 s) = ''error'' \<and> spaces \<noteq> [] \<and> code \<noteq> [] \<and> starts_with '','' tail
         then map_option (\<lambda>state. (code, state)) (match_cam_state (drop 1 tail)) else None)"

definition decode_cam_error_event :: "string \<Rightarrow> dict" where
  "decode_cam_error_event message =
     (case re_search match_cam_error message of
        None \<Rightarrow> [(''label'', VStr (if py_strip message \<noteq> '''' then ''CAM error: '' @ py_strip message else ''CAM error'')),
          (''family'', VStr ''cam_error''), (''likely_layer'', VStr ''FreeBSD CAM transport layer''),
          (''description'', VStr ''The FreeBSD CAM layer reported a command error.'')]
      | Some (token, raw_state) \<Rightarrow>
          if max_diagnostic_numeric_token_length < length token then
            [(''label'', VStr ''CAM error: numeric code too long to decode''), (''family'', VStr ''cam_error''),
             (''likely_layer'', VStr ''FreeBSD CAM transport layer''),
             (''description'', VStr ''The FreeBSD CAM layer reported a command error with an oversized numeric code.''),
             (''cam_error_code_raw'', VStr (take (max_diagnostic_numeric_token_length - 3) token @ ''...'')),
             (''cam_retry_state'', bound_diagnostic_value (VStr (py_strip raw_state))),
             (''decode_confidence'', VStr ''unconfirmed''), (''decode_source'', VStr ''freebsd_cam_errno''),
             (''source_attribution'', VDict freebsd_errno_source),
             (''decoder_note'', VStr ''CAM numeric error code was too long to decode safely; bounded raw evidence was retained.'')]
          else
            (let code = value_in 10 token; state = py_strip raw_state; known = map_of freebsd_errno_labels code;
                 head = (case known of Some (name, _) \<Rightarrow> ''CAM '' @ name | None \<Rightarrow> ''CAM error '' @ nat_str code)
             in [(''label'', VStr (head @ '': '' @ state)), (''family'', VStr ''cam_error''),
                 (''likely_layer'', VStr ''FreeBSD CAM transport layer''),
                 (''description'', VStr (case known of
                    None \<Rightarrow> ''The FreeBSD CAM layer reported an OS-level command failure for this disk/path.''
                  | Some (name, text) \<Rightarrow> ''The FreeBSD CAM layer reported '' @ name @ '' ('' @ text @ '') and '' @
                      py_lower state @ '' for this disk/path.'')),
                 (''cam_error_code'', VInt (int code)), (''cam_retry_state'', VStr state),
                 (''decode_confidence'', VStr ''observed''), (''decode_source'', VStr ''freebsd_cam_errno''),
                 (''source_attribution'', VDict freebsd_errno_source)] @
                (case known of
                   Some (name, text) \<Rightarrow> [(''errno_name'', VStr name), (''errno_label'', VStr text)]
                 | None \<Rightarrow> [(''decoder_note'',
                     VStr ''CAM reported a numeric error code that is not in the current local errno table.'')])))"

definition decode_mpr_dmesg_event :: "mpr_event \<Rightarrow> dict" where
  "decode_mpr_dmesg_event e =
     (let event_type = ev_text e ''event_type''; message = ev_text e ''message''
      in if event_type = ''cdb'' then decode_scsi_cdb_message message
         else if event_type = ''scsi_sense'' then decode_scsi_sense_event e
         else if event_type = ''cam_status'' then decode_cam_status_event message
         else if event_type = ''cam_error'' then decode_cam_error_event message
         else if event_type = ''scsi_status'' then decode_scsi_status_event message
         else if event_type = ''retry'' then
           [(''label'', VStr ''Command retry scheduled''), (''family'', VStr ''retry''),
            (''likely_layer'', VStr ''OS retry path''),
            (''description'', VStr ''The OS is retrying a command after transport or sense data indicated failure.'')]
         else if event_type = ''ioc_terminated'' then
           (let loginfo = py_lower (ev_text e ''loginfo'')
            in case decode_lsi_loginfo loginfo of
                 Some d \<Rightarrow> d
               | None \<Rightarrow>
                  [(''label'', VStr ''Controller terminated SCSI IO''), (''family'', VStr ''controller_terminated_io''),
                   (''likely_layer'', VStr ''HBA path or downstream SAS fabric''),
                   (''description'', VStr ''The HBA reported an IO terminated before normal completion.''),
                   (''loginfo'', if loginfo \<noteq> '''' then VStr loginfo else VNone)])
         else [])"

subsection \<open>The decoded record of an event\<close>

definition finding_fingerprint :: "dict \<Rightarrow> string option" where
  "finding_fingerprint r =
     (if dict_text r ''family'' = '''' then None
      else Some (join ''|'' (filter (\<lambda>part. part \<noteq> '''') (map (dict_text r)
        [''family'', ''label'', ''loginfo'', ''asc'', ''opcode'', ''service_action'', ''operation'', ''controller'',
         ''device'', ''target'']))))"

definition event_base :: "mpr_event \<Rightarrow> string \<Rightarrow> int \<Rightarrow> dict" where
  "event_base e event_id n = [
     (''id'', VStr event_id), (''event_id'', VStr event_id), (''sequence'', VInt n),
     (''source'', opt_str (ev_get e ''source'')), (''controller'', opt_str (ev_get e ''controller'')),
     (''device'', opt_str (ev_get e ''device'')), (''target'', opt_str (ev_get e ''target'')),
     (''message'', opt_str (ev_get e ''message'')), (''event_type'', opt_str (ev_get e ''event_type'')),
     (''severity'', VStr (first_filled [ev_text e ''severity''] ''info'')),
     (''raw_line'', opt_str (ev_get e ''line'')), (''decoded'', VDict (decode_mpr_dmesg_event e))]"

definition copied_event_keys :: "string list" where
  "copied_event_keys = [''bus'', ''lun'', ''smid'', ''loginfo'', ''asc'', ''reason'', ''timestamp_raw'']"

definition copied_decoded_keys :: "string list" where
  "copied_decoded_keys = [
     ''label'', ''family'', ''likely_layer'', ''description'', ''operation'', ''direction'', ''opcode'',
     ''service_action'', ''cdb_hex'', ''byte_count'', ''lba'', ''transfer_blocks'', ''allocation_length'',
     ''parameter_list_length'', ''sense_key'', ''sense_label'', ''asc_label'', ''log_page_code'', ''log_page'',
     ''log_page_control'', ''log_page_control_label'', ''log_save_parameters'', ''log_page_source'',
     ''log_subpage_code'', ''sas_phy_log_concepts'', ''vendor'', ''source_attribution'', ''decode_confidence'',
     ''decode_source'', ''decoder_note'', ''reported_operation'', ''cam_status'', ''scsi_status'',
     ''scsi_status_code'', ''cam_error_code'', ''cam_error_code_raw'', ''cam_retry_state'', ''errno_name'',
     ''errno_label'', ''service_action_label'']"

text \<open>Keys copied from a source when it has a value for them.\<close>

definition copy_keys :: "(string \<Rightarrow> py_value) \<Rightarrow> string list \<Rightarrow> dict \<Rightarrow> dict" where
  "copy_keys source ks r = foldl (\<lambda>r k. if source k = VNone then r else dict_set r k (source k)) r ks"

definition set_label :: "mpr_event \<Rightarrow> dict \<Rightarrow> dict" where
  "set_label e r = (if dict_text r ''label'' \<noteq> '''' then r
     else dict_set r ''label'' (VStr (first_filled [ev_text e ''reason'', ev_text e ''message''] ''Kernel event'')))"

definition set_severity :: "mpr_event \<Rightarrow> dict \<Rightarrow> dict" where
  "set_severity e r =
     (let sensed = (if dict_text r ''event_type'' = ''scsi_sense'' \<and>
              map_of fault_family_severities (dict_text r ''family'') \<noteq> None
            then dict_set r ''severity'' (VStr (fault_family_severity (dict_text r ''family''))) else r)
      in if dict_text sensed ''event_type'' = ''scsi_status''
         then dict_set sensed ''severity'' (VStr (table_get scsi_status_severities
           (py_upper (dict_text (decode_mpr_dmesg_event e) ''scsi_status'')) (dict_text sensed ''severity'')))
         else sensed)"

definition set_layer :: "dict \<Rightarrow> dict" where
  "set_layer r = (if dict_text r ''likely_layer'' = '''' \<and> dict_text r ''family'' \<noteq> ''''
     then dict_set r ''likely_layer'' (VStr (fault_family_likely_layer (dict_text r ''family''))) else r)"

definition set_fingerprint :: "dict \<Rightarrow> dict" where
  "set_fingerprint r = (case finding_fingerprint r of None \<Rightarrow> r | Some f \<Rightarrow> dict_set r ''fingerprint'' (VStr f))"

definition bounded_record :: "dict \<Rightarrow> dict" where
  "bounded_record r = map (\<lambda>(k, v). (k, bound_diagnostic_value v)) (filter (\<lambda>(k, v). v \<noteq> VNone) r)"

definition make_decoded_event_record :: "mpr_event \<Rightarrow> string \<Rightarrow> int \<Rightarrow> dict" where
  "make_decoded_event_record e event_id n =
     bounded_record (set_fingerprint (set_layer (set_severity e (set_label e
       (copy_keys (dict_get (decode_mpr_dmesg_event e)) copied_decoded_keys
         (copy_keys (\<lambda>k. opt_str (ev_get e k)) copied_event_keys (event_base e event_id n)))))))"

subsection \<open>The running summary\<close>

record finding =
  fd_fingerprint :: string
  fd_family :: string
  fd_label :: string
  fd_severity :: string
  fd_likely_layer :: string
  fd_count :: nat
  fd_controllers :: "string list"
  fd_devices :: "string list"
  fd_targets :: "string list"
  fd_loginfo :: py_value
  fd_asc :: py_value
  fd_asc_label :: py_value
  fd_opcode :: py_value
  fd_operation :: py_value
  fd_last_event_id :: py_value

type_synonym counter = "(string \<times> nat) list"

record mpr_summary =
  ms_event_count :: nat
  ms_error_count :: nat
  ms_retry_count :: nat
  ms_sense_count :: nat
  ms_ioc_terminated_count :: nat
  ms_devices :: "string list"
  ms_targets :: "string list"
  ms_loginfo_counts :: counter
  ms_sense_counts :: counter
  ms_cam_status_counts :: counter
  ms_fault_family_counts :: counter
  ms_operation_counts :: counter
  ms_finding_records :: "(string \<times> finding) list"
  ms_decoded_records :: "dict list"
  ms_recent_events :: "dict list"

definition new_mpr_event_summary :: mpr_summary where
  "new_mpr_event_summary = \<lparr>ms_event_count = 0, ms_error_count = 0, ms_retry_count = 0, ms_sense_count = 0,
     ms_ioc_terminated_count = 0, ms_devices = [], ms_targets = [], ms_loginfo_counts = [], ms_sense_counts = [],
     ms_cam_status_counts = [], ms_fault_family_counts = [], ms_operation_counts = [], ms_finding_records = [],
     ms_decoded_records = [], ms_recent_events = []\<rparr>"

text \<open>\<open>counter[k] += 1\<close> for a non-empty text, and \<open>s.add(t)\<close> for a non-empty text.\<close>

fun count_up :: "string \<Rightarrow> counter \<Rightarrow> counter" where
  "count_up k [] = [(k, 1)]"
| "count_up k ((k', n) # c) = (if k' = k then (k', Suc n) # c else (k', n) # count_up k c)"

definition count_text :: "string \<Rightarrow> counter \<Rightarrow> counter" where
  "count_text k c = (if k = '''' then c else count_up k c)"

definition add_text :: "string \<Rightarrow> string list \<Rightarrow> string list" where
  "add_text t ts = (if t = '''' then ts else List.insert t ts)"

definition record_severity :: "dict \<Rightarrow> string" where
  "record_severity r = first_filled [dict_text r ''severity''] (fault_family_severity (dict_text r ''family''))"

definition new_finding :: "dict \<Rightarrow> finding" where
  "new_finding r = \<lparr>fd_fingerprint = dict_text r ''fingerprint'', fd_family = dict_text r ''family'',
     fd_label = first_filled [dict_text r ''label''] (table_get fault_family_labels (dict_text r ''family'') ''''),
     fd_severity = record_severity r, fd_likely_layer = dict_text r ''likely_layer'', fd_count = 0,
     fd_controllers = [], fd_devices = [], fd_targets = [], fd_loginfo = dict_get r ''loginfo'',
     fd_asc = dict_get r ''asc'', fd_asc_label = dict_get r ''asc_label'', fd_opcode = dict_get r ''opcode'',
     fd_operation = dict_get r ''operation'', fd_last_event_id = dict_get r ''event_id''\<rparr>"

definition update_finding :: "dict \<Rightarrow> finding \<Rightarrow> finding" where
  "update_finding r f = f\<lparr>
     fd_severity := (if severity_rank (Some (record_severity r)) < severity_rank (Some (fd_severity f))
       then record_severity r else fd_severity f),
     fd_count := fd_count f + 1, fd_last_event_id := dict_get r ''event_id'',
     fd_controllers := add_text (dict_text r ''controller'') (fd_controllers f),
     fd_devices := add_text (dict_text r ''device'') (fd_devices f),
     fd_targets := add_text (dict_text r ''target'') (fd_targets f)\<rparr>"

fun upsert :: "string \<Rightarrow> 'a \<Rightarrow> ('a \<Rightarrow> 'a) \<Rightarrow> (string \<times> 'a) list \<Rightarrow> (string \<times> 'a) list" where
  "upsert k d g [] = [(k, g d)]"
| "upsert k d g ((k', v) # m) = (if k' = k then (k', g v) # m else (k', v) # upsert k d g m)"

definition record_finding :: "dict \<Rightarrow> mpr_summary \<Rightarrow> mpr_summary" where
  "record_finding r s =
     (if dict_text r ''fingerprint'' = '''' then s
      else s\<lparr>ms_finding_records :=
        upsert (dict_text r ''fingerprint'') (new_finding r) (update_finding r) (ms_finding_records s)\<rparr>)"

definition compact_event_keys :: "string list" where
  "compact_event_keys = [''event_id'', ''controller'', ''device'', ''target'', ''message'', ''event_type'',
     ''severity'', ''loginfo'', ''asc'', ''reason'', ''timestamp_raw'']"

definition compact_event :: "mpr_event \<Rightarrow> dict" where
  "compact_event e = List.map_filter (\<lambda>(k, v). case v of
       Some t \<Rightarrow> if k \<in> set compact_event_keys \<and> t \<noteq> '''' then Some (k, bound_diagnostic_value (VStr t)) else None
     | None \<Rightarrow> None) e"

definition last_items :: "nat \<Rightarrow> 'a list \<Rightarrow> 'a list" where
  "last_items n xs = drop (length xs - n) xs"

definition record_mpr_event_summary :: "mpr_summary \<Rightarrow> mpr_event \<Rightarrow> dict \<Rightarrow> mpr_summary" where
  "record_mpr_event_summary s e r =
     (let event_type = first_filled [ev_text e ''event_type''] ''message'';
          counted = s\<lparr>ms_event_count := ms_event_count s + 1,
            ms_error_count := ms_error_count s + (if dict_get r ''severity'' = VStr ''error'' then 1 else 0),
            ms_retry_count := ms_retry_count s + (if event_type = ''retry'' then 1 else 0),
            ms_sense_count := ms_sense_count s + (if event_type = ''scsi_sense'' then 1 else 0),
            ms_sense_counts := (if event_type = ''scsi_sense''
              then count_text (ev_text e ''reason'') (ms_sense_counts s) else ms_sense_counts s),
            ms_ioc_terminated_count := ms_ioc_terminated_count s + (if event_type = ''ioc_terminated'' then 1 else 0),
            ms_cam_status_counts := (if event_type = ''cam_status''
              then count_text (message_value_after_colon (ev_text e ''message'')) (ms_cam_status_counts s)
              else ms_cam_status_counts s),
            ms_devices := add_text (ev_text e ''device'') (ms_devices s),
            ms_targets := add_text (ev_text e ''target'') (ms_targets s),
            ms_loginfo_counts := count_text (ev_text e ''loginfo'') (ms_loginfo_counts s),
            ms_fault_family_counts := count_text (dict_text r ''family'') (ms_fault_family_counts s)\<rparr>;
          found = (if dict_text r ''family'' = '''' then counted else record_finding r counted)
      in found\<lparr>ms_operation_counts := count_text (dict_text r ''operation'') (ms_operation_counts found),
           ms_recent_events := last_items 12 (ms_recent_events found @ [compact_event e]),
           ms_decoded_records := ms_decoded_records found @ [r]\<rparr>)"

subsection \<open>The final summary\<close>

text \<open>
  The order of targets. CPython refuses to read a number of more than 4300 digits; the parser of the kernel log
  cuts targets to 32 characters long before.
\<close>

definition mpr_target_sort_key :: "string option \<Rightarrow> (int \<times> int \<times> string) option" where
  "mpr_target_sort_key v = (case v of
       None \<Rightarrow> Some (2, 0, '''')
     | Some t \<Rightarrow> if t \<noteq> '''' \<and> list_all ascii_digit t then map_option (\<lambda>n. (0, int n, t)) (py_int t) else Some (1, 0, t))"

definition sorted_targets :: "string list \<Rightarrow> string list option" where
  "sorted_targets ts = (if list_all (\<lambda>t. mpr_target_sort_key (Some t) \<noteq> None) ts
     then Some (sort_key (\<lambda>t. the (mpr_target_sort_key (Some t))) ts) else None)"

definition str_list :: "string list \<Rightarrow> py_value" where
  "str_list ts = VList (map VStr ts)"

definition finding_row :: "finding \<Rightarrow> dict option" where
  "finding_row f = (case sorted_targets (fd_targets f) of None \<Rightarrow> None | Some targets \<Rightarrow> Some [
     (''fingerprint'', VStr (fd_fingerprint f)), (''family'', VStr (fd_family f)),
     (''label'', VStr (first_filled [fd_label f] (table_get fault_family_labels (fd_family f)
        (title_from False (replace_char (CHR ''_'') (CHR '' '') (fd_family f)))))),
     (''count'', VInt (int (fd_count f))),
     (''severity'', VStr (first_filled [fd_severity f] (fault_family_severity (fd_family f)))),
     (''likely_layer'', VStr (first_filled [fd_likely_layer f] (fault_family_likely_layer (fd_family f)))),
     (''affected'', VDict [(''controllers'', str_list (sort (fd_controllers f))),
        (''devices'', str_list (sort (fd_devices f))), (''targets'', str_list targets)]),
     (''loginfo'', fd_loginfo f), (''asc'', fd_asc f), (''asc_label'', fd_asc_label f), (''opcode'', fd_opcode f),
     (''operation'', fd_operation f), (''last_event_id'', fd_last_event_id f)])"

definition dict_int :: "dict \<Rightarrow> string \<Rightarrow> int" where
  "dict_int d k = (case dict_get d k of VInt i \<Rightarrow> i | _ \<Rightarrow> 0)"

definition finding_sort_key :: "dict \<Rightarrow> int \<times> int \<times> int \<times> string" where
  "finding_sort_key row = (severity_rank (Some (dict_text row ''severity'')), - dict_int row ''count'',
     fault_family_priority (dict_text row ''family''), dict_text row ''label'')"

definition top_mpr_findings :: "mpr_summary \<Rightarrow> dict list option" where
  "top_mpr_findings s = (case those (map (finding_row \<circ> snd) (ms_finding_records s)) of
     None \<Rightarrow> None | Some rows \<Rightarrow> Some (take 6 (sort_key finding_sort_key rows)))"

definition named_few :: "string \<Rightarrow> string list \<Rightarrow> string" where
  "named_few lead names = lead @ join '', '' (take 4 names) @
     (if 4 < length names then '' +'' @ nat_str (length names - 4) else '''')"

definition mpr_operator_summary :: "mpr_summary \<Rightarrow> string list \<Rightarrow> dict option \<Rightarrow> string option" where
  "mpr_operator_summary s targets primary =
     (if ms_event_count s = 0 then None
      else (let scope = (if ms_devices s \<noteq> [] then named_few '' on '' (sort (ms_devices s))
                  else if targets \<noteq> [] then named_few '' on target '' targets else '''')
        in Some (case primary of
             Some row \<Rightarrow> dict_text row ''label'' @ scope @ '': '' @ nat_str (ms_error_count s) @ '' errors, '' @
               nat_str (ms_retry_count s) @ '' retries''
           | None \<Rightarrow> ''Kernel reported '' @ nat_str (ms_event_count s) @ '' MPR/CAM events'' @ scope)))"

definition counter_dict :: "counter \<Rightarrow> py_value" where
  "counter_dict c = VDict (map (\<lambda>(k, n). (k, VInt (int n))) c)"

definition event_table :: "dict list \<Rightarrow> dict" where
  "event_table records =
     (let rows = last_items default_event_table_page_size records
      in [(''schema_version'', VInt 2), (''total_count'', VInt (int (length records))),
          (''page_size'', VInt (int default_event_table_page_size)), (''sample_count'', VInt (int (length rows))),
          (''sample_limit'', VInt (int default_event_table_page_size)), (''sample_kind'', VStr ''recent''),
          (''truncated'', VBool (length rows < length records)), (''rows'', VList (map VDict rows))])"

definition finalize_mpr_event_summary :: "mpr_summary \<Rightarrow> dict option" where
  "finalize_mpr_event_summary s = (case (top_mpr_findings s, sorted_targets (ms_targets s)) of
       (Some rows, Some targets) \<Rightarrow>
         (let primary = (case rows of [] \<Rightarrow> None | row # _ \<Rightarrow> Some row)
          in Some [
            (''event_count'', VInt (int (ms_event_count s))), (''error_count'', VInt (int (ms_error_count s))),
            (''retry_count'', VInt (int (ms_retry_count s))), (''sense_count'', VInt (int (ms_sense_count s))),
            (''ioc_terminated_count'', VInt (int (ms_ioc_terminated_count s))),
            (''devices'', str_list (sort (ms_devices s))), (''targets'', str_list targets),
            (''loginfo_counts'', counter_dict (ms_loginfo_counts s)),
            (''sense_counts'', counter_dict (ms_sense_counts s)),
            (''cam_status_counts'', counter_dict (ms_cam_status_counts s)),
            (''fault_family_counts'', counter_dict (ms_fault_family_counts s)),
            (''operation_counts'', counter_dict (ms_operation_counts s)),
            (''top_findings'', VList (map VDict rows)),
            (''primary_fault'', case primary of None \<Rightarrow> VNone | Some row \<Rightarrow> VDict row),
            (''operator_summary'', opt_str (mpr_operator_summary s targets primary)),
            (''recent_events'', VList (map VDict (ms_recent_events s))),
            (''event_table'', VDict (event_table (ms_decoded_records s)))])
     | _ \<Rightarrow> None)"

text \<open>The summary of a sequence of events, each with its decoded record, and of the events of a kernel log with
  their ids.\<close>

definition summarize :: "(mpr_event \<times> dict) list \<Rightarrow> mpr_summary" where
  "summarize ers = foldl (\<lambda>s (e, r). record_mpr_event_summary s e r) new_mpr_event_summary ers"

definition decoded_events :: "(mpr_event \<times> string) list \<Rightarrow> (mpr_event \<times> dict) list" where
  "decoded_events es = map (\<lambda>(n, e, i). (e, make_decoded_event_record e i (int n))) (enumerate 0 es)"

subsection \<open>Counters and findings\<close>

lemma table_get_count_text:
  "table_get (count_text k c) x 0 = table_get c x 0 + (if k \<noteq> '''' \<and> k = x then 1 else 0)"
proof -
  have "table_get (count_up k c) x 0 = table_get c x 0 + (if k = x then 1 else 0)"
    by (induction k c rule: count_up.induct) (auto simp: table_get_def)
  then show ?thesis by (cases "k = x") (simp_all add: count_text_def)
qed

lemma set_add_text: "set (add_text t ts) = (if t = '''' then {} else {t}) \<union> set ts"
  by (simp add: add_text_def)

lemma map_of_upsert:
  "map_of (upsert k d g m) x = (if x = k then Some (g (case map_of m k of None \<Rightarrow> d | Some v \<Rightarrow> v)) else map_of m x)"
  by (induction k d g m rule: upsert.induct) auto

text \<open>The records that a finding counts.\<close>

definition found_in :: "string \<Rightarrow> dict \<Rightarrow> bool" where
  "found_in fp r \<longleftrightarrow> dict_text r ''family'' \<noteq> '''' \<and> fp \<noteq> '''' \<and> dict_text r ''fingerprint'' = fp"

lemmas summary_step = record_mpr_event_summary_def record_finding_def Let_def

lemma findings_step:
  "map_of (ms_finding_records (record_mpr_event_summary s e r)) fp =
     (if found_in fp r then Some (update_finding r (case map_of (ms_finding_records s) fp of None \<Rightarrow> new_finding r | Some f \<Rightarrow> f))
      else map_of (ms_finding_records s) fp)"
  by (auto simp: summary_step found_in_def map_of_upsert)

lemma summarize_snoc: "summarize (ers @ [(e, r)]) = record_mpr_event_summary (summarize ers) e r"
  by (simp add: summarize_def)

lemma summarize_Nil [simp]: "summarize [] = new_mpr_event_summary"
  by (simp add: summarize_def)

lemma last_items_snoc: "last_items n (last_items n xs @ [x]) = last_items n (xs @ [x])"
  by (cases "length xs \<le> n") (auto simp: last_items_def Suc_diff_le)

definition finding_records_of :: "string \<Rightarrow> (mpr_event \<times> dict) list \<Rightarrow> dict list" where
  "finding_records_of fp ers = filter (found_in fp) (map snd ers)"

lemma finding_of_records:
  "case map_of (ms_finding_records (summarize ers)) fp of
     None \<Rightarrow> finding_records_of fp ers = []
   | Some f \<Rightarrow> fd_count f = length (finding_records_of fp ers) \<and> 0 < fd_count f \<and>
       fd_severity f \<in> set (map record_severity (finding_records_of fp ers)) \<and>
       (\<forall>r\<in>set (finding_records_of fp ers).
         severity_rank (Some (fd_severity f)) \<le> severity_rank (Some (record_severity r)))"
proof (induction ers rule: rev_induct)
  case Nil
  then show ?case by (simp add: new_mpr_event_summary_def finding_records_of_def)
next
  case (snoc x ers)
  obtain e r where x: "x = (e, r)" by (cases x)
  have new: "fd_severity (new_finding r) = record_severity r" "fd_count (new_finding r) = 0"
    by (simp_all add: new_finding_def)
  show ?case
    using snoc unfolding x summarize_snoc findings_step
    by (auto simp: finding_records_of_def update_finding_def new filter_map filter_empty_conv split: option.splits)
      (meson less_imp_le order_trans)+
qed

lemma first_filled_type: "first_filled [t] ''message'' = k \<longleftrightarrow> (if t = '''' then k = ''message'' else t = k)"
  by (auto simp: first_filled_def)

lemma record_finding_keeps:
  "ms_operation_counts (record_finding r s) = ms_operation_counts s"
  "ms_recent_events (record_finding r s) = ms_recent_events s"
  "ms_decoded_records (record_finding r s) = ms_decoded_records s"
  "ms_event_count (record_finding r s) = ms_event_count s"
  "ms_error_count (record_finding r s) = ms_error_count s"
  "ms_retry_count (record_finding r s) = ms_retry_count s"
  "ms_sense_count (record_finding r s) = ms_sense_count s"
  "ms_fault_family_counts (record_finding r s) = ms_fault_family_counts s"
  "ms_loginfo_counts (record_finding r s) = ms_loginfo_counts s"
  "ms_devices (record_finding r s) = ms_devices s"
  by (simp_all add: record_finding_def)

lemma summary_step_counts:
  "ms_event_count (record_mpr_event_summary s e r) = ms_event_count s + 1"
  "ms_error_count (record_mpr_event_summary s e r) =
     ms_error_count s + (if dict_get r ''severity'' = VStr ''error'' then 1 else 0)"
  "ms_retry_count (record_mpr_event_summary s e r) =
     ms_retry_count s + (if ev_text e ''event_type'' = ''retry'' then 1 else 0)"
  "ms_sense_count (record_mpr_event_summary s e r) =
     ms_sense_count s + (if ev_text e ''event_type'' = ''scsi_sense'' then 1 else 0)"
  "ms_fault_family_counts (record_mpr_event_summary s e r) = count_text (dict_text r ''family'') (ms_fault_family_counts s)"
  "ms_loginfo_counts (record_mpr_event_summary s e r) = count_text (ev_text e ''loginfo'') (ms_loginfo_counts s)"
  "ms_devices (record_mpr_event_summary s e r) = add_text (ev_text e ''device'') (ms_devices s)"
  "ms_recent_events (record_mpr_event_summary s e r) = last_items 12 (ms_recent_events s @ [compact_event e])"
  "ms_decoded_records (record_mpr_event_summary s e r) = ms_decoded_records s @ [r]"
  by (simp_all add: record_mpr_event_summary_def Let_def record_finding_keeps first_filled_type)

lemma summary_totals:
  "ms_event_count (summarize ers) = length ers \<and>
   ms_error_count (summarize ers) = length (filter (\<lambda>(e, r). dict_get r ''severity'' = VStr ''error'') ers) \<and>
   ms_retry_count (summarize ers) = length (filter (\<lambda>(e, r). ev_text e ''event_type'' = ''retry'') ers) \<and>
   ms_sense_count (summarize ers) = length (filter (\<lambda>(e, r). ev_text e ''event_type'' = ''scsi_sense'') ers) \<and>
   table_get (ms_fault_family_counts (summarize ers)) (c # f) 0 =
     length (filter (\<lambda>(e, r). dict_text r ''family'' = c # f) ers) \<and>
   table_get (ms_loginfo_counts (summarize ers)) (c # f) 0 = length (filter (\<lambda>(e, r). ev_text e ''loginfo'' = c # f) ers) \<and>
   set (ms_devices (summarize ers)) = {ev_text e ''device'' |e r. (e, r) \<in> set ers} - {''''} \<and>
   ms_recent_events (summarize ers) = last_items 12 (map (compact_event \<circ> fst) ers) \<and>
   ms_decoded_records (summarize ers) = map snd ers"
proof (induction ers rule: rev_induct)
  case Nil
  then show ?case by (simp add: new_mpr_event_summary_def table_get_def last_items_def)
next
  case (snoc x ers)
  obtain e r where x: "x = (e, r)" by (cases x)
  show ?case
    using snoc unfolding x summarize_snoc summary_step_counts
    by (auto simp: table_get_count_text set_add_text last_items_snoc)
qed

subsection \<open>Properties\<close>

text \<open>The summary counts every event once and in the right place. After any sequence of events with their
  records, the totals are the numbers of events, of records with severity error, of retries and of sense
  events, each fault family and each finding counts exactly its records, the devices and the log info codes are
  those of the events, and the last twelve events and all the records are kept in order.\<close>

theorem summary_counts_exact:
  "ms_event_count (summarize ers) = length ers \<and>
   ms_error_count (summarize ers) = length (filter (\<lambda>(e, r). dict_get r ''severity'' = VStr ''error'') ers) \<and>
   ms_retry_count (summarize ers) = length (filter (\<lambda>(e, r). ev_text e ''event_type'' = ''retry'') ers) \<and>
   ms_sense_count (summarize ers) = length (filter (\<lambda>(e, r). ev_text e ''event_type'' = ''scsi_sense'') ers) \<and>
   table_get (ms_fault_family_counts (summarize ers)) (c # f) 0 =
     length (filter (\<lambda>(e, r). dict_text r ''family'' = c # f) ers) \<and>
   table_get (ms_loginfo_counts (summarize ers)) (c # f) 0 = length (filter (\<lambda>(e, r). ev_text e ''loginfo'' = c # f) ers) \<and>
   table_get (map (\<lambda>(k, x). (k, fd_count x)) (ms_finding_records (summarize ers))) fp 0 =
     length (finding_records_of fp ers) \<and>
   set (ms_devices (summarize ers)) = {ev_text e ''device'' |e r. (e, r) \<in> set ers} - {''''} \<and>
   ms_recent_events (summarize ers) = last_items 12 (map (compact_event \<circ> fst) ers) \<and>
   ms_decoded_records (summarize ers) = map snd ers"
proof -
  have "table_get (map (\<lambda>(k, x). (k, fd_count x)) (ms_finding_records (summarize ers))) fp 0 =
     length (finding_records_of fp ers)"
    using finding_of_records [where ers = ers and fp = fp] by (auto simp: table_get_def map_of_map split: option.splits)
  then show ?thesis
    using summary_totals [where ers = ers and c = c and f = f] by simp
qed

subsection \<open>Decoded records\<close>

lemma dict_get_distinct_filter:
  "distinct (map fst d) \<Longrightarrow> dict_get (bounded_record d) k = bound_diagnostic_value (dict_get d k)"
proof (induction d)
  case (Cons x d)
  obtain k' v where x: "x = (k', v)" by (cases x)
  have fst_bounded: "fst ` set (bounded_record d) \<subseteq> fst ` set d"
    by (auto simp: bounded_record_def image_iff) force
  have none: "dict_get (bounded_record d) k = VNone" if "k = k'"
  proof -
    have "k \<notin> fst ` set (bounded_record d)" using Cons.prems that x fst_bounded by auto
    then show ?thesis by (simp add: dict_get_def map_of_eq_None_iff [THEN iffD2])
  qed
  have "bounded_record (x # d) = (if v \<noteq> VNone then [(k', bound_diagnostic_value v)] else []) @ bounded_record d"
    by (simp add: bounded_record_def x)
  then show ?case
    using Cons none x by (auto simp: dict_get_simps)
qed (simp add: bounded_record_def dict_get_def)

lemma dict_set_keys: "distinct (map fst d) \<Longrightarrow> distinct (map fst (dict_set d k v))"
proof -
  have "set (map fst (dict_set d k v)) = insert k (set (map fst d))" for d
    by (induction d k v rule: dict_set.induct) auto
  then show "distinct (map fst d) \<Longrightarrow> distinct (map fst (dict_set d k v))"
    by (induction d k v rule: dict_set.induct) auto
qed

lemma copy_keys_keys: "distinct (map fst r) \<Longrightarrow> distinct (map fst (copy_keys f ks r))"
  unfolding copy_keys_def by (induction ks arbitrary: r) (auto intro!: dict_set_keys)

lemma dict_get_copy_keys:
  "dict_get (copy_keys f ks r) k = (if k \<in> set ks \<and> f k \<noteq> VNone then f k else dict_get r k)"
proof (induction ks arbitrary: r)
  case (Cons x ks)
  have "copy_keys f (x # ks) r = copy_keys f ks (if f x = VNone then r else dict_set r x (f x))"
    by (simp add: copy_keys_def)
  then show ?case using Cons by (auto simp: dict_get_set)
qed (simp add: copy_keys_def)

lemma dict_text_set: "dict_text (dict_set d k (VStr v)) x = (if x = k then v else dict_text d x)"
  by (simp add: dict_text_def dict_get_set)

lemma distinct_set_label: "distinct (map fst r) \<Longrightarrow> distinct (map fst (set_label e r))"
  unfolding set_label_def by (simp only: dict_set_keys split: if_split) simp

lemma distinct_set_severity: "distinct (map fst r) \<Longrightarrow> distinct (map fst (set_severity e r))"
  unfolding set_severity_def Let_def by (simp only: dict_set_keys split: if_split) simp

lemma distinct_set_layer: "distinct (map fst r) \<Longrightarrow> distinct (map fst (set_layer r))"
  unfolding set_layer_def by (simp only: dict_set_keys split: if_split) simp

lemma distinct_set_fingerprint: "distinct (map fst r) \<Longrightarrow> distinct (map fst (set_fingerprint r))"
  unfolding set_fingerprint_def by (cases "finding_fingerprint r") (simp_all only: dict_set_keys option.case)

lemmas set_steps_keys = distinct_set_fingerprint distinct_set_layer distinct_set_severity distinct_set_label

text \<open>The record before it is bounded.\<close>

definition full_record :: "mpr_event \<Rightarrow> string \<Rightarrow> int \<Rightarrow> dict" where
  "full_record e i n = set_fingerprint (set_layer (set_severity e (set_label e
     (copy_keys (dict_get (decode_mpr_dmesg_event e)) copied_decoded_keys
       (copy_keys (\<lambda>k. opt_str (ev_get e k)) copied_event_keys (event_base e i n))))))"

lemma full_record_keys: "distinct (map fst (full_record e i n))"
  unfolding full_record_def by (intro set_steps_keys copy_keys_keys) (simp add: event_base_def)

lemma dict_get_record: "dict_get (make_decoded_event_record e i n) k = bound_diagnostic_value (dict_get (full_record e i n) k)"
  using dict_get_distinct_filter [OF full_record_keys [of e i n], of k] by (simp add: make_decoded_event_record_def full_record_def)

lemma dict_text_record: "dict_text (make_decoded_event_record e i n) k = cut_text 384 (dict_text (full_record e i n) k)"
  by (simp add: dict_text_def dict_get_record cut_text_def max_diagnostic_text_length_def split: py_value.split)

text \<open>The fields of the record.\<close>

lemma dict_get_fingerprint: "k \<noteq> ''fingerprint'' \<Longrightarrow> dict_get (set_fingerprint r) k = dict_get r k"
  by (simp add: set_fingerprint_def dict_get_set split: option.split)

lemma dict_get_layer: "k \<noteq> ''likely_layer'' \<Longrightarrow> dict_get (set_layer r) k = dict_get r k"
  by (simp add: set_layer_def dict_get_set)

lemma dict_get_severity: "k \<noteq> ''severity'' \<Longrightarrow> dict_get (set_severity e r) k = dict_get r k"
  by (simp add: set_severity_def Let_def dict_get_set)

lemma dict_get_label: "k \<noteq> ''label'' \<Longrightarrow> dict_get (set_label e r) k = dict_get r k"
  by (simp add: set_label_def dict_get_set)

lemmas dict_get_steps = dict_get_fingerprint dict_get_layer dict_get_severity dict_get_label

lemma full_record_family: "dict_get (full_record e i n) ''family'' = dict_get (decode_mpr_dmesg_event e) ''family''"
  by (simp add: full_record_def dict_get_steps dict_get_copy_keys copied_decoded_keys_def copied_event_keys_def
      event_base_def dict_get_simps)

lemma full_record_label: "dict_text (full_record e i n) ''label'' \<noteq> ''''"
proof -
  have "dict_text (set_label e r) ''label'' \<noteq> ''''" for r
    by (auto simp: set_label_def dict_text_set first_filled_def split: list.split dest: filter_eq_ConsD)
  then show ?thesis
    by (simp add: full_record_def dict_text_def dict_get_fingerprint dict_get_layer dict_get_severity)
qed

text \<open>A value within the bounds of the diagnostics: texts of at most 384 characters and collections of at most 64
  items, at any depth.\<close>

function within_bounds :: "py_value \<Rightarrow> bool" where
  "within_bounds (VStr s) = (length s \<le> 384)"
| "within_bounds (VDict d) = (length d \<le> 64 \<and> (\<forall>(k, v)\<in>set d. within_bounds v))"
| "within_bounds (VList xs) = (length xs \<le> 64 \<and> (\<forall>v\<in>set xs. within_bounds v))"
| "within_bounds VNone = True"
| "within_bounds (VBool b) = True"
| "within_bounds (VInt i) = True"
| "within_bounds VOther = True"
  by pat_completeness auto
termination
proof (relation "measure size", goal_cases)
  case (2 d z k v)
  then show ?case by (auto dest!: size_list_estimation [where f = "size_prod (\<lambda>_. 0) size" and y = "size v"])
next
  case (3 xs z)
  then show ?case using size_list_estimation' [of z xs "size z" size] by simp
qed simp

lemma length_cut_text: "3 \<le> n \<Longrightarrow> length (cut_text n s) \<le> n"
  by (cases "length s \<le> n") (simp_all add: cut_text_def)

lemma cut_text_eq_Nil: "3 \<le> n \<Longrightarrow> cut_text n s = '''' \<longleftrightarrow> s = ''''"
  by (auto simp: cut_text_def)

lemma bound_within_bounds: "within_bounds (bound_diagnostic_value v)"
proof (induction v rule: bound_diagnostic_value.induct)
  case (1 s)
  then show ?case using length_cut_text [of 384 s] by (simp add: max_diagnostic_text_length_def)
next
  case (2 d)
  then show ?case by (auto simp: max_diagnostic_collection_items_def dest: in_set_takeD)
next
  case (3 xs)
  then show ?case by (auto simp: max_diagnostic_collection_items_def)
qed simp_all

subsection \<open>Families of the decoders\<close>

lemma known_family_eq: "known_family f \<longleftrightarrow> f \<in> set (map fst fault_family_labels)"
  by (force simp: known_family_def list_ex_iff)

lemma known_family_length: "known_family f \<Longrightarrow> f \<noteq> '''' \<and> length f \<le> 384"
proof -
  have "list_all (\<lambda>(f, _). f \<noteq> '''' \<and> length f \<le> 384) fault_family_labels" by code_simp
  then show "known_family f \<Longrightarrow> f \<noteq> '''' \<and> length f \<le> 384"
    by (auto simp: known_family_eq list_all_iff)
qed

lemma code_families_known:
  "list_all known_family [''write_error'', ''device_path_exception'', ''target_failure'',
     ''logical_unit_communication'', ''enclosure_warning'', ''protection_error'', ''read_error'', ''recovered_data'',
     ''medium_format'', ''sas_protocol'', ''write_protect'', ''link_loss'', ''bus_reset'', ''unit_attention'',
     ''ses_enclosure'', ''timeout'', ''data_buffer_error'', ''pcie_fabric'', ''log_exception'', ''failure_prediction'',
     ''power_condition'', ''aborted_command'', ''scsi_sense'', ''capacity_query'', ''write_io'', ''read_io'',
     ''log_sense'', ''maintenance'', ''scsi_command'', ''scsi_status'', ''cam_error'', ''retry'',
     ''controller_terminated_io'']"
  by code_simp

lemmas known = code_families_known [unfolded list.pred_inject]

lemma asc_fault_family_known: "asc_fault_family a q = Some f \<Longrightarrow> known_family f"
  unfolding asc_fault_family_def by (auto simp: known split: if_split_asm)

lemma sense_fault_family_known: "known_family (sense_fault_family reason key asc)"
  unfolding sense_fault_family_def Let_def
  by (auto simp: known asc_fault_family_known split: option.split prod.split)

lemma cdb_fault_family_known: "known_family (cdb_fault_family operation)"
  unfolding cdb_fault_family_def Let_def by (simp add: known)

text \<open>A decode without a family is empty; any other has a known one.\<close>

definition family_decoded :: "dict \<Rightarrow> bool" where
  "family_decoded d \<longleftrightarrow> d = [] \<or> known_family (dict_text d ''family'') \<and> dict_get d ''family'' = VStr (dict_text d ''family'')"

lemma family_decodedI: "dict_get d ''family'' = VStr f \<Longrightarrow> known_family f \<Longrightarrow> family_decoded d"
  by (simp add: family_decoded_def dict_text_def)

lemma dict_get_append: "dict_get (d @ d') k = (case map_of d k of Some v \<Rightarrow> v | None \<Rightarrow> dict_get d' k)"
  by (simp add: dict_get_def map_add_def split: option.split)

lemma dict_get_update_other: "k \<notin> fst ` set e \<Longrightarrow> dict_get (dict_update d e) k = dict_get d k"
  unfolding dict_update_def
proof (induction e arbitrary: d)
  case (Cons x e)
  then show ?case by (cases x) (simp add: dict_get_set)
qed simp

definition no_family :: "dict \<Rightarrow> bool" where
  "no_family d \<longleftrightarrow> ''family'' \<notin> fst ` set d"

lemma no_family_intros:
  "no_family []" "k \<noteq> ''family'' \<Longrightarrow> no_family d \<Longrightarrow> no_family ((k, v) # d)"
  "no_family d \<Longrightarrow> no_family d' \<Longrightarrow> no_family (d @ d')"
  "no_family d \<Longrightarrow> no_family d' \<Longrightarrow> no_family (if c then d else d')"
  by (auto simp: no_family_def)

lemma cdb_extensions:
  "no_family (decode_cdb_address b)" "no_family (decode_log_sense_cdb b)" "no_family (decode_cdb_lengths b)"
proof -
  show "no_family (decode_cdb_address b)"
    unfolding decode_cdb_address_def by (intro no_family_intros) simp_all
  show "no_family (decode_log_sense_cdb b)"
    unfolding decode_log_sense_cdb_def Let_def by (intro no_family_intros) simp_all
  show "no_family (decode_cdb_lengths b)"
  proof (cases b)
    case (Cons opcode rest)
    show ?thesis
      unfolding decode_cdb_lengths_def Cons list.case by (intro no_family_intros) simp_all
  qed (simp add: decode_cdb_lengths_def no_family_def)
qed

lemmas cdb_extension_keys = cdb_extensions [unfolded no_family_def]

lemma decode_cdb_family: "dict_get (decode_cdb reported b) ''family'' = VStr (cdb_fault_family (cdb_operation reported b))"
  by (simp add: decode_cdb_def Let_def dict_get_update_other cdb_extension_keys dict_get_simps split: prod.split)

lemma cdb_message_family: "family_decoded (decode_scsi_cdb_message m)"
proof (cases "re_search match_cdb_message m")
  case None
  then show ?thesis by (simp add: decode_scsi_cdb_message_def family_decoded_def)
next
  case (Some p)
  then show ?thesis
    by (cases p) (auto simp: decode_scsi_cdb_message_def intro: family_decodedI [OF decode_cdb_family] cdb_fault_family_known)
qed

lemma second_family: "dict_get ((''label'', l) # (''family'', v) # d) ''family'' = v"
  by (simp add: dict_get_simps)

lemma sense_event_family: "family_decoded (decode_scsi_sense_event e)"
proof -
  have "\<exists>reason key asc. dict_get (decode_scsi_sense_event e) ''family'' = VStr (sense_fault_family reason key asc)"
    unfolding decode_scsi_sense_event_def Let_def append_Cons second_family by blast
  then show ?thesis using sense_fault_family_known by (metis family_decodedI)
qed

lemma status_value_family: "family_decoded (decode_scsi_status_value t)"
proof -
  have "dict_get (decode_scsi_status_value t) ''family'' \<in> {VStr ''scsi_status'', VStr ''aborted_command''}"
    by (simp add: decode_scsi_status_value_def Let_def dict_get_simps split: option.split)
  then show ?thesis using known by (auto intro: family_decodedI)
qed

lemma cam_families: "family_decoded (decode_cam_status_event m)" "family_decoded (decode_cam_error_event m)"
proof -
  have "dict_get (decode_cam_status_event m) ''family'' = VStr ''cam_error''"
    by (simp add: decode_cam_status_event_def Let_def dict_get_simps)
  then show "family_decoded (decode_cam_status_event m)" using known by (blast intro: family_decodedI)
  have "dict_get (decode_cam_error_event m) ''family'' = VStr ''cam_error''"
    by (simp add: decode_cam_error_event_def Let_def dict_get_simps split: option.split)
  then show "family_decoded (decode_cam_error_event m)" using known by (blast intro: family_decodedI)
qed

lemma lsi_family: "decode_lsi_loginfo t = Some d \<Longrightarrow> family_decoded d"
  by (auto simp: decode_lsi_loginfo_def decode_lsi_value_def Let_def dict_get_simps split: if_splits prod.splits
      intro!: family_decodedI [OF _ parts_family_known [OF lsi_parts_sound]])

lemma decode_family: "family_decoded (decode_mpr_dmesg_event e)"
proof -
  have retry: "family_decoded [(''label'', l), (''family'', VStr ''retry''), x, y]" for l x y
    using known by (auto intro: family_decodedI simp: dict_get_simps)
  have terminated: "family_decoded [(''label'', l), (''family'', VStr ''controller_terminated_io''), x, y, z]" for l x y z
    using known by (auto intro: family_decodedI simp: dict_get_simps)
  have none: "family_decoded []" by (simp add: family_decoded_def)
  show ?thesis
    unfolding decode_mpr_dmesg_event_def decode_scsi_status_event_def Let_def
    by (simp add: cdb_message_family sense_event_family status_value_family cam_families lsi_family retry terminated none
        split: option.split)
qed

subsection \<open>Records are well formed\<close>

lemma full_record_severity: "dict_text (full_record e i n) ''severity'' \<noteq> ''''"
proof -
  have base: "dict_text (event_base e i n) ''severity'' \<noteq> ''''"
    by (auto simp: event_base_def dict_text_def dict_get_simps first_filled_def)
  have sev: "fault_family_severity f \<noteq> ''''" for f
    using fault_family_severity_values [of f] by auto
  have status: "table_get scsi_status_severities k d \<noteq> ''''" if "d \<noteq> ''''" for k d
    using table_get_cases [of scsi_status_severities k d] that by (auto simp: scsi_status_severities_def)
  have "dict_text (set_severity e r) ''severity'' \<noteq> ''''" if "dict_text r ''severity'' \<noteq> ''''" for r
    using that by (simp add: set_severity_def Let_def dict_text_set sev status)
  then show ?thesis
    using base by (simp add: full_record_def dict_text_def dict_get_fingerprint dict_get_layer dict_get_label
        dict_get_copy_keys copied_decoded_keys_def copied_event_keys_def)
qed

lemma likely_layer_not_Nil: "fault_family_likely_layer f \<noteq> ''''"
  unfolding fault_family_likely_layer_def by (simp split: if_split)

lemma join_eq_Nil: "join sep (p # ps) = '''' \<Longrightarrow> p = ''''"
  by (cases ps) auto

lemma full_record_filled:
  assumes "dict_text (full_record e i n) ''family'' \<noteq> ''''"
  shows "dict_text (full_record e i n) ''likely_layer'' \<noteq> ''''" "dict_text (full_record e i n) ''fingerprint'' \<noteq> ''''"
proof -
  have layer: "dict_text (set_layer r) ''likely_layer'' \<noteq> ''''" if "dict_text r ''family'' \<noteq> ''''" for r
    using that likely_layer_not_Nil by (auto simp: set_layer_def dict_text_set)
  have print: "dict_text (set_fingerprint r) ''fingerprint'' \<noteq> ''''" if "dict_text r ''family'' \<noteq> ''''" for r
    using that by (auto simp: set_fingerprint_def finding_fingerprint_def dict_text_set dest: join_eq_Nil)
  have keep: "dict_text (set_fingerprint r) k = dict_text r k" if "k \<noteq> ''fingerprint''" for r k
    using that by (simp add: dict_text_def dict_get_fingerprint)
  have keep': "dict_text (set_layer r) k = dict_text r k" if "k \<noteq> ''likely_layer''" for r k
    using that by (simp add: dict_text_def dict_get_layer)
  show "dict_text (full_record e i n) ''likely_layer'' \<noteq> ''''" "dict_text (full_record e i n) ''fingerprint'' \<noteq> ''''"
    using assms by (simp_all add: full_record_def keep keep' layer print)
qed

text \<open>C39: Every decoded record is well formed, whatever the event says: it has a label and a severity; its fault
  family is either absent or one that the labels know, with a likely layer and a fingerprint to count it under;
  and no value in it is longer than 384 characters or 64 items at any depth.\<close>

theorem decoded_record_well_formed:
  "(let r = make_decoded_event_record e i n
    in dict_text r ''label'' \<noteq> '''' \<and> dict_text r ''severity'' \<noteq> '''' \<and>
       (dict_get r ''family'' = VNone \<or>
        known_family (dict_text r ''family'') \<and> dict_text r ''likely_layer'' \<noteq> '''' \<and> dict_text r ''fingerprint'' \<noteq> '''') \<and>
       list_all (\<lambda>(k, v). within_bounds v) r)"
proof -
  let ?r = "make_decoded_event_record e i n" and ?d = "decode_mpr_dmesg_event e"
  have family: "dict_get ?r ''family'' = VNone \<or>
      known_family (dict_text ?r ''family'') \<and> dict_text ?r ''likely_layer'' \<noteq> '''' \<and> dict_text ?r ''fingerprint'' \<noteq> ''''"
  proof (cases "?d = []")
    case True
    then show ?thesis by (simp add: dict_get_record full_record_family dict_get_simps)
  next
    case False
    then have known: "known_family (dict_text ?d ''family'')"
      using decode_family [of e] by (simp add: family_decoded_def)
    have same: "dict_text (full_record e i n) ''family'' = dict_text ?d ''family''"
      by (simp add: dict_text_def full_record_family)
    show ?thesis
      using known known_family_length [OF known] full_record_filled [of e i n]
      by (simp add: dict_text_record same cut_text_eq_Nil cut_text_def)
  qed
  have bounded: "list_all (\<lambda>(k, v). within_bounds v) ?r"
    by (auto simp: list_all_iff make_decoded_event_record_def bounded_record_def bound_within_bounds)
  show ?thesis
    unfolding Let_def using family bounded full_record_label full_record_severity
    by (simp add: dict_text_record cut_text_eq_Nil)
qed

subsection \<open>The ranking of findings\<close>

lemma those_map_Some: "(\<And>x. x \<in> set xs \<Longrightarrow> f x \<noteq> None) \<Longrightarrow> those (map f xs) = Some (map (the \<circ> f) xs)"
  by (induction xs) (force split: option.split)+

lemma sorted_targets_short:
  assumes "\<And>t. t \<in> set ts \<Longrightarrow> length t \<le> 4300"
  shows "sorted_targets ts \<noteq> None"
proof -
  have "mpr_target_sort_key (Some t) \<noteq> None" if "t \<in> set ts" for t
    using assms [OF that] by (auto simp: mpr_target_sort_key_def py_int_def)
  then show ?thesis by (simp add: sorted_targets_def list_all_iff)
qed

lemma upsert_values: "snd ` set (upsert k d g m) \<subseteq> insert (g d) (snd ` set m \<union> g ` snd ` set m)"
  by (induction k d g m rule: upsert.induct) auto

lemma finding_targets_short:
  "\<forall>x\<in>set ers. length (dict_text (snd x) ''target'') \<le> 384 \<Longrightarrow>
   f \<in> snd ` set (ms_finding_records (summarize ers)) \<Longrightarrow> t \<in> set (fd_targets f) \<Longrightarrow> length t \<le> 384"
proof (induction ers arbitrary: f t rule: rev_induct)
  case Nil
  then show ?case by (simp add: new_mpr_event_summary_def)
next
  case (snoc x ers)
  obtain e r where x: "x = (e, r)" by (cases x)
  let ?S = "snd ` set (ms_finding_records (summarize ers))"
  have len: "length (dict_text r ''target'') \<le> 384" using snoc.prems(1) by (simp add: x)
  have old: "length t \<le> 384" if "f \<in> ?S" "t \<in> set (fd_targets f)" for f t
    using snoc.IH snoc.prems(1) that by simp
  have "snd ` set (ms_finding_records (record_mpr_event_summary (summarize ers) e r)) \<subseteq>
      insert (update_finding r (new_finding r)) (?S \<union> update_finding r ` ?S)"
    using upsert_values [where m = "ms_finding_records (summarize ers)"] by (auto simp: summary_step)
  then have f: "f = update_finding r (new_finding r) \<or> f \<in> ?S \<or> (\<exists>g\<in>?S. f = update_finding r g)"
    using snoc.prems(2) x summarize_snoc by auto
  have targets: "fd_targets (update_finding r g) = add_text (dict_text r ''target'') (fd_targets g)" for g
    by (simp add: update_finding_def)
  have none: "fd_targets (new_finding r) = []" by (simp add: new_finding_def)
  have "length t \<le> 384" if "f = update_finding r g" "g = new_finding r \<or> g \<in> ?S" for g
    using snoc.prems(3) that len none old [of g t] by (auto simp: targets set_add_text split: if_split_asm)
  then show ?case
    using f old [of f t] snoc.prems(3) by blast
qed

lemma decoded_events_record:
  "(e, r) \<in> set (decoded_events es) \<Longrightarrow> \<exists>i n. r = make_decoded_event_record e i n"
  by (auto simp: decoded_events_def)

lemma finding_rows_exist:
  assumes "f \<in> snd ` set (ms_finding_records (summarize (decoded_events es)))"
  shows "finding_row f \<noteq> None"
proof -
  have "\<forall>x\<in>set (decoded_events es). length (dict_text (snd x) ''target'') \<le> 384"
    using length_cut_text [of 384] by (auto simp: dict_text_record dest!: decoded_events_record)
  then have "length t \<le> 384" if "t \<in> set (fd_targets f)" for t
    using finding_targets_short [OF _ assms that] by blast
  then have "sorted_targets (fd_targets f) \<noteq> None"
    by (intro sorted_targets_short) force
  then show ?thesis by (auto simp: finding_row_def)
qed

lemma finding_row_severity:
  "finding_row f = Some row \<Longrightarrow> fd_severity f \<noteq> '''' \<Longrightarrow> dict_text row ''severity'' = fd_severity f"
  by (auto simp: finding_row_def dict_text_def dict_get_simps first_filled_def split: option.splits)

lemma finding_of_record:
  assumes er: "(e, r) \<in> set (decoded_events es)" and family: "dict_text r ''family'' \<noteq> ''''"
  shows "\<exists>f \<in> snd ` set (ms_finding_records (summarize (decoded_events es))). fd_severity f \<noteq> '''' \<and>
    severity_rank (Some (fd_severity f)) \<le> severity_rank (Some (dict_text r ''severity''))"
proof -
  let ?ers = "decoded_events es"
  have filled: "dict_text r ''severity'' \<noteq> '''' \<and> (dict_text r ''family'' = '''' \<or> dict_text r ''fingerprint'' \<noteq> '''')"
    if er: "(e, r) \<in> set ?ers" for e r
  proof -
    obtain i n where r: "r = make_decoded_event_record e i n" using decoded_events_record [OF er] by blast
    show ?thesis
      using full_record_severity [of e i n] full_record_filled(2) [of e i n]
      by (auto simp: r dict_text_record cut_text_eq_Nil)
  qed
  have sev: "record_severity r = dict_text r ''severity''" if "(e, r) \<in> set ?ers" for e r
    using filled [OF that] by (simp add: record_severity_def first_filled_def)
  let ?fp = "dict_text r ''fingerprint''"
  have rec: "r \<in> set (finding_records_of ?fp ?ers)"
    using er family filled [OF er] by (force simp: finding_records_of_def found_in_def)
  with finding_of_records [where ers = ?ers and fp = ?fp] obtain f where
    f: "map_of (ms_finding_records (summarize ?ers)) ?fp = Some f"
      "fd_severity f \<in> set (map record_severity (finding_records_of ?fp ?ers))"
      "severity_rank (Some (fd_severity f)) \<le> severity_rank (Some (record_severity r))"
    by (auto split: option.splits)
  have "fd_severity f \<noteq> ''''"
  proof -
    obtain e' r' where "(e', r') \<in> set ?ers" "fd_severity f = record_severity r'"
      using f(2) by (auto simp: finding_records_of_def)
    then show ?thesis using filled [of e' r'] sev [of e' r'] by simp
  qed
  moreover have "f \<in> snd ` set (ms_finding_records (summarize ?ers))"
    using f(1) by (force dest: map_of_SomeD)
  ultimately show ?thesis using f(3) sev [OF er] by auto
qed

text \<open>C29: The findings shown are the worst ones. For every log, ranking the findings succeeds; the rows are the
  findings of the summary in order of severity, count, priority and label; the first six are shown; and the
  first is at least as severe as every record that names a fault family.\<close>

theorem top_findings_ranked:
  "\<exists>rows rest. top_mpr_findings (summarize (decoded_events es)) = Some rows \<and>
     mset (map Some (rows @ rest)) = mset (map (finding_row \<circ> snd) (ms_finding_records (summarize (decoded_events es)))) \<and>
     sorted (map finding_sort_key (rows @ rest)) \<and> length rows = min 6 (length (rows @ rest)) \<and>
     list_all (\<lambda>(e, r). dict_text r ''family'' = '''' \<or>
       (\<exists>row others. rows = row # others \<and>
         severity_rank (Some (dict_text row ''severity'')) \<le> severity_rank (Some (dict_text r ''severity''))))
       (decoded_events es)"
proof -
  let ?ers = "decoded_events es" let ?fs = "ms_finding_records (summarize ?ers)"
  define all where "all = sort_key finding_sort_key (map (the \<circ> (finding_row \<circ> snd)) ?fs)"
  have rows: "finding_row (snd x) \<noteq> None" if "x \<in> set ?fs" for x
    using finding_rows_exist that by (meson imageI)
  then have top: "top_mpr_findings (summarize ?ers) = Some (take 6 all)"
    using those_map_Some [of ?fs "finding_row \<circ> snd"] by (simp add: top_mpr_findings_def all_def)
  have some: "map Some (map (the \<circ> (finding_row \<circ> snd)) ?fs) = map (finding_row \<circ> snd) ?fs"
    using rows by auto
  have "mset (map Some all) = mset (map Some (map (the \<circ> (finding_row \<circ> snd)) ?fs))"
    by (simp add: all_def multiset.map_comp)
  then have mset: "mset (map Some all) = mset (map (finding_row \<circ> snd) ?fs)"
    by (simp only: some)
  have sorted: "sorted (map finding_sort_key all)" by (simp add: all_def)
  have worst: "\<exists>row others. take 6 all = row # others \<and>
      severity_rank (Some (dict_text row ''severity'')) \<le> severity_rank (Some (dict_text r ''severity''))"
    if er: "(e, r) \<in> set ?ers" and family: "dict_text r ''family'' \<noteq> ''''" for e r
  proof -
    obtain f where f: "f \<in> snd ` set ?fs" "fd_severity f \<noteq> ''''"
      "severity_rank (Some (fd_severity f)) \<le> severity_rank (Some (dict_text r ''severity''))"
      using finding_of_record [OF er family] by blast
    obtain row where row: "finding_row f = Some row" using finding_rows_exist [OF f(1)] by blast
    have "row \<in> set all" using f(1) row by (force simp: all_def image_iff)
    then obtain x xs where all: "all = x # xs" "row \<in> insert x (set xs)" by (cases all) auto
    then have "finding_sort_key x \<le> finding_sort_key row" using sorted by auto
    then have "severity_rank (Some (dict_text x ''severity'')) \<le> severity_rank (Some (dict_text row ''severity''))"
      by (auto simp: finding_sort_key_def less_eq_prod_def)
    then show ?thesis using all f finding_row_severity [OF row f(2)] by auto
  qed
  show ?thesis
    using top mset sorted worst
    by (intro exI [of _ "take 6 all"] exI [of _ "drop 6 all"]) (auto simp: list_all_iff)
qed

end
