(* ===== verification/Mapping_Scope.thy ===== *)
theory Mapping_Scope
  imports Prelude
begin

text \<open>
  Manual slot mappings, \<open>ManualMapping\<close> of \<open>app/models/domain.py\<close>, and their physical scope: an enclosure id that
  names a drawer of a shelf stands for the shelf, \<open>resolve_physical_mapping_scope\<close> of
  \<open>app/services/mapping_store.py\<close>.
\<close>

record manual_mapping =
  mm_system_id :: "string option"
  mm_slot :: int
  mm_enclosure_id :: "string option"
  mm_serial :: "string option"
  mm_device_name :: "string option"
  mm_gptid :: "string option"
  mm_notes :: "string option"
  mm_updated_at :: instant
  mm_source :: string

text \<open>System, enclosure and slot; enclosure and slot.\<close>

type_synonym identity = "string option \<times> string option \<times> int"
type_synonym scope_identity = "string option \<times> int"

text \<open>The validator of the texts of a mapping: stripped, cut to 256 characters, and missing when empty.\<close>

definition trim_string :: "string option \<Rightarrow> string option" where
  "trim_string v = (case v of None \<Rightarrow> None
     | Some s \<Rightarrow> if py_strip s = '''' then None else Some (take 256 (py_strip s)))"

subsection \<open>Physical scopes\<close>

definition drawer_sub_profile_ids :: "string list" where
  "drawer_sub_profile_ids = [''dell-md1280-drawer-bottom-42'', ''dell-md1280-drawer-top-42'']"

text \<open>\<open>s.rpartition("::")\<close> when the separator occurs: what is before and after its last occurrence.\<close>

fun cut_colons :: "string \<Rightarrow> (string \<times> string) option" where
  "cut_colons (a # b # cs) =
     (if a = CHR '':'' \<and> b = CHR '':'' then Some ([], cs)
      else map_option (\<lambda>(x, y). (a # x, y)) (cut_colons (b # cs)))"
| "cut_colons _ = None"

definition rpartition_colons :: "string \<Rightarrow> (string \<times> string) option" where
  "rpartition_colons s = map_option (\<lambda>(after, before). (rev before, rev after)) (cut_colons (rev s))"

definition is_drawer_alias :: "string \<Rightarrow> bool" where
  "is_drawer_alias s = (case rpartition_colons s of None \<Rightarrow> False | Some (_, p) \<Rightarrow> p \<in> set drawer_sub_profile_ids)"

definition resolve_text :: "string \<Rightarrow> string" where
  "resolve_text s = (case rpartition_colons s of
     None \<Rightarrow> s
   | Some (physical, profile) \<Rightarrow>
       if physical \<noteq> '''' \<and> profile \<in> set drawer_sub_profile_ids \<and> \<not> is_drawer_alias physical then physical else s)"

definition resolve_physical_mapping_scope :: "string option \<Rightarrow> string option" where
  "resolve_physical_mapping_scope e = map_option resolve_text e"

definition canonical_mapping :: "manual_mapping \<Rightarrow> manual_mapping" where
  "canonical_mapping m = m\<lparr>mm_enclosure_id := resolve_physical_mapping_scope (mm_enclosure_id m)\<rparr>"

definition model_identity :: "manual_mapping \<Rightarrow> identity" where
  "model_identity m = (mm_system_id m, mm_enclosure_id m, mm_slot m)"

text \<open>\<open>value or d\<close> for a text that may be missing.\<close>

definition text_or :: "string option \<Rightarrow> string \<Rightarrow> string" where
  "text_or v d = (case v of None \<Rightarrow> d | Some s \<Rightarrow> if s = '''' then d else s)"

end
