(* ===== verification/Mapping_Store.thy ===== *)
theory Mapping_Store
  imports Mapping_Scope "HOL-Library.Countable"
begin

text \<open>
  The store of manual slot mappings, \<open>app/services/mapping_store.py\<close>: the keys of both file versions, the
  classification of the rows of a file, the scoped reads, the revisions that guard writes, and the four writing
  operations. The file is its JSON document; the file system, SHA-256 and the clock are parameters.

  A JSON number of more than 4300 digits and a
  floating-point version are outside the model.
\<close>

subsection \<open>Errors and parameters\<close>

datatype mapping_error =
    ScopeConflict
  | RevisionConflict string
  | DigestMismatch string string
  | DuplicateMapping "string option" int
  | SourceUnreadable
  | NotReplaced string
  | DurabilityUnknown

text \<open>What the store takes from outside: the JSON form of a time in a model and its reader, the time stamp of a
  file, the digest, and the time of a call.\<close>

record mapping_env =
  me_time :: "instant \<Rightarrow> py_value"
  me_stamp :: "instant \<Rightarrow> string"
  me_read_time :: "py_value \<Rightarrow> instant option"
  me_digest :: "py_value \<Rightarrow> string"
  me_now :: instant

subsection \<open>Keys\<close>

definition slot_key :: "identity \<Rightarrow> string" where
  "slot_key i = (case i of (sys, enc, slot) \<Rightarrow>
     text_or sys ''default_system'' @ '':'' @ text_or (resolve_physical_mapping_scope enc) ''default'' @ '':'' @ int_str slot)"

definition json_opt :: "string option \<Rightarrow> string" where
  "json_opt v = (case v of None \<Rightarrow> ''null'' | Some s \<Rightarrow> json_string s)"

definition encode_v2_key :: "identity \<Rightarrow> string" where
  "encode_v2_key i = (case i of (sys, enc, slot) \<Rightarrow>
     ''v2:['' @ json_opt sys @ '','' @ json_opt (resolve_physical_mapping_scope enc) @ '','' @ int_str slot @ '']'')"

text \<open>
  Reading a key back. \<open>json.loads\<close> accepts more spellings, but the code refuses every key that does not
  encode again to itself, so a reader of the canonical spelling decides the same keys.
\<close>

definition simple_escape :: "char \<Rightarrow> char option" where
  "simple_escape c =
     (if c = CHR 0x22 then Some c else if c = CHR 0x5C then Some c else if c = CHR ''n'' then Some (CHR 0x0A)
      else if c = CHR ''r'' then Some (CHR 0x0D) else if c = CHR ''t'' then Some (CHR 0x09)
      else if c = CHR ''b'' then Some (CHR 0x08) else if c = CHR ''f'' then Some (CHR 0x0C) else None)"

function read_json_chars :: "string \<Rightarrow> (string \<times> string) option" where
  "read_json_chars [] = None"
| "read_json_chars (c # cs) =
     (if c = CHR 0x22 then Some ([], cs)
      else if c \<noteq> CHR 0x5C then map_option (\<lambda>(s, r). (c # s, r)) (read_json_chars cs)
      else (case cs of [] \<Rightarrow> None
        | e # rest \<Rightarrow>
            if e = CHR ''u'' then
              (if length (take 4 rest) = 4 \<and> list_all hex_digit (take 4 rest) \<and> value_in 16 (take 4 rest) < 256
               then map_option (\<lambda>(s, r). (char_of (value_in 16 (take 4 rest)) # s, r)) (read_json_chars (drop 4 rest))
               else None)
            else (case simple_escape e of None \<Rightarrow> None
              | Some x \<Rightarrow> map_option (\<lambda>(s, r). (x # s, r)) (read_json_chars rest))))"
  by pat_completeness auto
termination by (relation "measure length") auto

definition read_json_opt :: "string \<Rightarrow> (string option \<times> string) option" where
  "read_json_opt s =
     (if starts_with ''null'' s then Some (None, drop 4 s)
      else (case s of [] \<Rightarrow> None | c # cs \<Rightarrow>
        if c = CHR 0x22 then map_option (\<lambda>(t, r). (Some t, r)) (read_json_chars cs) else None))"

definition read_json_int :: "string \<Rightarrow> int option" where
  "read_json_int s =
     (let negative = starts_with ''-'' s; ds = (if negative then drop 1 s else s)
      in if ds \<noteq> [] \<and> list_all ascii_digit ds
         then Some ((if negative then - 1 else 1) * int (value_in 10 ds)) else None)"

definition read_json_identity :: "string \<Rightarrow> identity option" where
  "read_json_identity s =
     (if \<not> starts_with ''['' s then None
      else case read_json_opt (drop 1 s) of None \<Rightarrow> None | Some (sys, r1) \<Rightarrow>
        (if \<not> starts_with '','' r1 then None
         else case read_json_opt (drop 1 r1) of None \<Rightarrow> None | Some (enc, r2) \<Rightarrow>
           (if \<not> starts_with '','' r2 \<or> \<not> ends_with '']'' r2 then None
            else map_option (\<lambda>slot. (sys, enc, slot)) (read_json_int (butlast (drop 1 r2))))))"

definition decode_v2_key :: "string \<Rightarrow> identity option" where
  "decode_v2_key key =
     (if \<not> starts_with ''v2:'' key then None
      else case read_json_identity (drop 3 key) of None \<Rightarrow> None
        | Some i \<Rightarrow> if encode_v2_key i = key then Some i else None)"

definition drawer_alias_enclosure_ids :: "string option \<Rightarrow> string list" where
  "drawer_alias_enclosure_ids enc =
     (let physical = text_or (resolve_physical_mapping_scope enc) ''''
      in if physical = '''' then [] else map (\<lambda>p. physical @ ''::'' @ p) (sort drawer_sub_profile_ids))"

definition v1_physical_keys :: "string option \<Rightarrow> string option \<Rightarrow> int \<Rightarrow> string list" where
  "v1_physical_keys sys enc slot =
     (let physical = resolve_physical_mapping_scope enc; prefix = text_or sys ''default_system''
      in firsts ((prefix @ '':'' @ text_or physical ''default'' @ '':'' @ int_str slot) #
           map (\<lambda>a. prefix @ '':'' @ a @ '':'' @ int_str slot) (drawer_alias_enclosure_ids physical)))"

definition v1_legacy_keys :: "string option \<Rightarrow> int \<Rightarrow> string list" where
  "v1_legacy_keys enc slot =
     (let physical = resolve_physical_mapping_scope enc
      in firsts ((text_or physical ''default'' @ '':'' @ int_str slot) #
           map (\<lambda>a. a @ '':'' @ int_str slot) (drawer_alias_enclosure_ids physical)))"

subsection \<open>The document\<close>

text \<open>The file: absent, unreadable (an I/O error or not a regular file), not JSON, JSON with a repeated key in
  some object, or a JSON value.\<close>

datatype mapping_file = Missing | Unreadable | NotJson | RepeatedKeys | Json py_value

type_synonym entries = "(string \<times> manual_mapping) list"

text \<open>A text field of the model: absent means None; other types do not validate.\<close>

definition text_field :: "dict \<Rightarrow> string \<Rightarrow> string option option" where
  "text_field d k = (case dict_get d k of VNone \<Rightarrow> Some None | VStr s \<Rightarrow> Some (Some s) | _ \<Rightarrow> None)"

definition source_field :: "dict \<Rightarrow> string option" where
  "source_field d = (case map_of d ''source'' of None \<Rightarrow> Some ''manual'' | Some (VStr s) \<Rightarrow> Some s | _ \<Rightarrow> None)"

definition time_field :: "mapping_env \<Rightarrow> dict \<Rightarrow> instant option" where
  "time_field E d = (case map_of d ''updated_at'' of None \<Rightarrow> Some (me_now E) | Some v \<Rightarrow> me_read_time E v)"

definition validate_raw_model :: "mapping_env \<Rightarrow> py_value \<Rightarrow> manual_mapping option" where
  "validate_raw_model E raw = (case raw of
       VDict d \<Rightarrow>
         (case (dict_get d ''slot'', text_field d ''system_id'', text_field d ''enclosure_id'') of
            (VInt slot, Some sys, Some enc) \<Rightarrow>
              (case (text_field d ''serial'', text_field d ''device_name'', text_field d ''gptid'', text_field d ''notes'',
                  time_field E d, source_field d) of
                 (Some serial, Some device, Some gptid, Some notes, Some updated, Some source) \<Rightarrow>
                   Some \<lparr>mm_system_id = sys, mm_slot = slot, mm_enclosure_id = enc, mm_serial = trim_string serial,
                     mm_device_name = trim_string device, mm_gptid = trim_string gptid, mm_notes = trim_string notes,
                     mm_updated_at = updated, mm_source = source\<rparr>
               | _ \<Rightarrow> None)
          | _ \<Rightarrow> None)
     | _ \<Rightarrow> None)"

fun read_entries :: "mapping_env \<Rightarrow> dict \<Rightarrow> entries option" where
  "read_entries E [] = Some []"
| "read_entries E ((k, v) # rest) = (case validate_raw_model E v of None \<Rightarrow> None
     | Some m \<Rightarrow> map_option (\<lambda>es. (k, m) # es) (read_entries E rest))"

text \<open>The outcome of reading: a version and its entries.\<close>

definition read_document :: "mapping_env \<Rightarrow> bool \<Rightarrow> bool \<Rightarrow> mapping_file \<Rightarrow> mapping_error + int \<times> entries" where
  "read_document E strict tolerate f = (case f of
       Missing \<Rightarrow> Inr (2, [])
     | Unreadable \<Rightarrow> if strict then Inl SourceUnreadable else Inr (1, [])
     | NotJson \<Rightarrow> if strict then Inl ScopeConflict else Inr (1, [])
     | RepeatedKeys \<Rightarrow> Inl ScopeConflict
     | Json (VDict payload) \<Rightarrow>
         (case (case map_of payload ''version'' of None \<Rightarrow> VInt 1 | Some v \<Rightarrow> v) of
            VInt version \<Rightarrow>
              if version \<noteq> 1 \<and> version \<noteq> 2 then Inl ScopeConflict
              else (case dict_get payload ''slot_mappings'' of
                   VDict raw \<Rightarrow>
                     (case read_entries E raw of
                        Some es \<Rightarrow> Inr (version, es)
                      | None \<Rightarrow> if tolerate \<and> version = 1 then Inr (version, []) else Inl ScopeConflict)
                 | _ \<Rightarrow> if \<not> strict \<and> version = 1 then Inr (version, []) else Inl ScopeConflict)
          | _ \<Rightarrow> Inl ScopeConflict)
     | Json _ \<Rightarrow> if strict then Inl ScopeConflict else Inr (1, []))"

subsection \<open>Classification\<close>

record classified_row =
  cr_key :: string
  cr_stored :: manual_mapping
  cr_identity :: identity
  cr_canonical :: manual_mapping

type_synonym mappings = "(identity \<times> manual_mapping) list"

record classified_store =
  cs_version :: int
  cs_rows :: "classified_row list"
  cs_mappings :: mappings

text \<open>The owners a version 1 key without a system can mean: the text before an enclosure and the slot.\<close>

definition key_owners :: "string \<Rightarrow> string option \<Rightarrow> int \<Rightarrow> string option list" where
  "key_owners key enc slot = remdups (List.map_filter (\<lambda>token.
     let suffix = '':'' @ token @ '':'' @ int_str slot; owner = take (length key - length suffix) key
     in if ends_with suffix key \<and> owner \<noteq> '''' then Some (if owner = ''default_system'' then None else Some owner) else None)
     (firsts (text_or enc ''default'' # drawer_alias_enclosure_ids enc)))"

definition classify_v1 :: "string \<Rightarrow> manual_mapping \<Rightarrow> (identity \<times> manual_mapping) option" where
  "classify_v1 key m =
     (let c = canonical_mapping m; enc = mm_enclosure_id c; slot = mm_slot c
      in case mm_system_id c of
           Some sys \<Rightarrow>
             if key \<in> set (v1_physical_keys (Some sys) enc slot @ v1_legacy_keys enc slot)
             then Some ((Some sys, enc, slot), c) else None
         | None \<Rightarrow>
             if key \<in> set (v1_legacy_keys enc slot) then Some ((None, enc, slot), c)
             else (case key_owners key enc slot of
                [owner] \<Rightarrow> Some ((owner, enc, slot), c\<lparr>mm_system_id := owner\<rparr>)
              | _ \<Rightarrow> None))"

definition classify_row :: "int \<Rightarrow> string \<Rightarrow> manual_mapping \<Rightarrow> classified_row option" where
  "classify_row version key m =
     (if version = 1 then
        map_option (\<lambda>(i, c). \<lparr>cr_key = key, cr_stored = m, cr_identity = i, cr_canonical = c\<rparr>) (classify_v1 key m)
      else if version = 2 then
        (case decode_v2_key key of None \<Rightarrow> None
         | Some i \<Rightarrow> if i = model_identity (canonical_mapping m)
             then Some \<lparr>cr_key = key, cr_stored = m, cr_identity = i, cr_canonical = canonical_mapping m\<rparr> else None)
      else None)"

text \<open>What two mappings of one bay must agree on.\<close>

type_synonym semantic = "string option \<times> int \<times> string option \<times> string option \<times> string option \<times> string option"

definition semantic_mapping :: "manual_mapping \<Rightarrow> semantic" where
  "semantic_mapping m = (let c = canonical_mapping m
     in (mm_enclosure_id c, mm_slot c, mm_serial c, mm_device_name c, mm_gptid c, mm_notes c))"

definition semantic_payload :: "manual_mapping \<Rightarrow> py_value" where
  "semantic_payload m = (case semantic_mapping m of (enc, slot, serial, device, gptid, notes) \<Rightarrow> VDict [
     (''enclosure_id'', opt_str enc), (''slot'', VInt slot), (''serial'', opt_str serial),
     (''device_name'', opt_str device), (''gptid'', opt_str gptid), (''notes'', opt_str notes)])"

definition rows_of :: "identity \<Rightarrow> classified_row list \<Rightarrow> classified_row list" where
  "rows_of i rows = filter (\<lambda>r. cr_identity r = i) rows"

text \<open>The rows of one identity agree when their semantic digests are one.\<close>

definition rows_agree :: "mapping_env \<Rightarrow> classified_row list \<Rightarrow> bool" where
  "rows_agree E rows = (length (remdups (map (\<lambda>r. me_digest E (semantic_payload (cr_canonical r))) rows)) = 1)"

definition winner :: "identity \<Rightarrow> classified_row list \<Rightarrow> classified_row" where
  "winner i rows = hd (sort_key_desc (\<lambda>r. (cr_key r = slot_key i, cr_key r)) rows)"

definition row_identities :: "classified_row list \<Rightarrow> identity list" where
  "row_identities rows = firsts (map cr_identity rows)"

fun classify_rows :: "int \<Rightarrow> entries \<Rightarrow> classified_row list option" where
  "classify_rows version [] = Some []"
| "classify_rows version ((k, m) # es) = (case classify_row version k m of None \<Rightarrow> None
     | Some r \<Rightarrow> map_option (\<lambda>rs. r # rs) (classify_rows version es))"

definition classify_entries :: "mapping_env \<Rightarrow> int \<Rightarrow> entries \<Rightarrow> mapping_error + classified_store" where
  "classify_entries E version es = (case classify_rows version es of
       None \<Rightarrow> Inl ScopeConflict
     | Some rows \<Rightarrow>
         if list_all (\<lambda>i. rows_agree E (rows_of i rows)) (row_identities rows)
         then Inr \<lparr>cs_version = version, cs_rows = rows,
           cs_mappings = map (\<lambda>i. (i, cr_canonical (winner i (rows_of i rows)))) (row_identities rows)\<rparr>
         else Inl ScopeConflict)"

definition load_state :: "mapping_env \<Rightarrow> mapping_file \<Rightarrow> mapping_error + classified_store" where
  "load_state E f = (case read_document E True False f of Inl e \<Rightarrow> Inl e
     | Inr (version, es) \<Rightarrow> classify_entries E version es)"

subsection \<open>Scoped reads\<close>

definition identity_matches_system :: "identity \<Rightarrow> string option \<Rightarrow> bool" where
  "identity_matches_system i sys = (if sys = None then fst i = None else fst i = None \<or> fst i = sys)"

definition v1_resolvable_keys :: "string option \<Rightarrow> string option \<Rightarrow> int \<Rightarrow> string list" where
  "v1_resolvable_keys sys enc slot = v1_physical_keys sys enc slot @ v1_physical_keys sys None slot @
     v1_legacy_keys enc slot @ v1_legacy_keys None slot"

text \<open>A slot or enclosure that is not given matches everything.\<close>

definition fits_slot :: "int option \<Rightarrow> int \<Rightarrow> bool" where
  "fits_slot slot n = (case slot of None \<Rightarrow> True | Some s \<Rightarrow> n = s)"

definition invalid_row_is_relevant ::
    "int \<Rightarrow> string \<Rightarrow> manual_mapping \<Rightarrow> string option \<Rightarrow> string option \<Rightarrow> int option \<Rightarrow> bool" where
  "invalid_row_is_relevant version key m sys enc slot =
     (let c = canonical_mapping m;
          system_fits = (if sys \<noteq> None then mm_system_id c = None \<or> mm_system_id c = sys else mm_system_id c = None)
      in if system_fits \<and> fits_slot slot (mm_slot c) \<and>
            (enc = None \<or> mm_enclosure_id c = None \<or> mm_enclosure_id c = enc) then True
         else if version = 1 then key \<in> set (v1_resolvable_keys sys enc (case slot of None \<Rightarrow> mm_slot c | Some s \<Rightarrow> s))
         else (case decode_v2_key key of None \<Rightarrow> False
           | Some i \<Rightarrow> identity_matches_system i sys \<and> fits_slot slot (snd (snd i)) \<and>
               (enc = None \<or> fst (snd i) = None \<or> fst (snd i) = enc)))"

record scoped_snapshot =
  sn_state :: classified_store
  sn_invalid :: entries
  sn_conflicting :: "identity list"

definition snapshot_of :: "mapping_env \<Rightarrow> int \<Rightarrow> entries \<Rightarrow> scoped_snapshot" where
  "snapshot_of E version es =
     (let rows = List.map_filter (\<lambda>(k, m). classify_row version k m) es
      in \<lparr>sn_state = \<lparr>cs_version = version, cs_rows = rows,
            cs_mappings = map (\<lambda>i. (i, cr_canonical (hd (sort_key_desc cr_key (rows_of i rows))))) (row_identities rows)\<rparr>,
          sn_invalid = filter (\<lambda>(k, m). classify_row version k m = None) es,
          sn_conflicting = filter (\<lambda>i. \<not> rows_agree E (rows_of i rows)) (row_identities rows)\<rparr>)"

definition load_scoped_snapshot :: "mapping_env \<Rightarrow> mapping_file \<Rightarrow> mapping_error + scoped_snapshot" where
  "load_scoped_snapshot E f = (case read_document E True False f of Inl e \<Rightarrow> Inl e
     | Inr (version, es) \<Rightarrow> Inr (snapshot_of E version es))"

text \<open>A legacy row whose enclosure was an alias must agree with the row of the system for the same bay.\<close>

definition legacy_clash :: "string option \<Rightarrow> classified_row list \<Rightarrow> bool" where
  "legacy_clash sys rows = list_ex (\<lambda>l. fst (cr_identity l) = None \<and>
     mm_enclosure_id (cr_stored l) \<noteq> mm_enclosure_id (cr_canonical l) \<and>
     list_ex (\<lambda>r. fst (cr_identity r) = sys \<and> snd (cr_identity r) = snd (cr_identity l) \<and>
       semantic_mapping (cr_canonical r) \<noteq> semantic_mapping (cr_canonical l)) rows) rows"

definition state_for_scope ::
    "scoped_snapshot \<Rightarrow> string option \<Rightarrow> string option \<Rightarrow> int option \<Rightarrow> mapping_error + classified_store" where
  "state_for_scope sn sys enclosure slot =
     (let state = sn_state sn; enc = resolve_physical_mapping_scope enclosure;
          selected = filter (\<lambda>r. case cr_identity r of (s, e, n) \<Rightarrow>
            (s = None \<or> s = sys) \<and> fits_slot slot n \<and> (enc = None \<or> e = enc)) (cs_rows state)
      in if list_ex (\<lambda>(k, m). invalid_row_is_relevant (cs_version state) k m sys enc slot) (sn_invalid sn)
         then Inl ScopeConflict
         else if list_ex (\<lambda>i. identity_matches_system i sys \<and> fits_slot slot (snd (snd i)) \<and>
             (enc = None \<or> fst (snd i) = None \<or> fst (snd i) = enc)) (sn_conflicting sn) then Inl ScopeConflict
         else if legacy_clash sys selected then Inl ScopeConflict else Inr state)"

definition load_state_for_scope ::
    "mapping_env \<Rightarrow> mapping_file \<Rightarrow> string option \<Rightarrow> string option \<Rightarrow> int option \<Rightarrow> mapping_error + classified_store" where
  "load_state_for_scope E f sys enc slot = (case load_scoped_snapshot E f of Inl e \<Rightarrow> Inl e
     | Inr sn \<Rightarrow> state_for_scope sn sys enc slot)"

definition query_identities :: "string option \<Rightarrow> string option \<Rightarrow> int \<Rightarrow> bool \<Rightarrow> identity list" where
  "query_identities sys enc slot legacy = firsts ((sys, enc, slot) #
     (if legacy then [(sys, None, slot), (None, enc, slot), (None, None, slot)] else []))"

definition first_mapping :: "mappings \<Rightarrow> identity list \<Rightarrow> manual_mapping option" where
  "first_mapping ms is = (case List.map_filter (map_of ms) is of [] \<Rightarrow> None | m # _ \<Rightarrow> Some m)"

text \<open>A copy of a model through JSON: its texts pass the validator again.\<close>

definition validated :: "manual_mapping \<Rightarrow> manual_mapping" where
  "validated m = m\<lparr>mm_serial := trim_string (mm_serial m), mm_device_name := trim_string (mm_device_name m),
     mm_gptid := trim_string (mm_gptid m), mm_notes := trim_string (mm_notes m)\<rparr>"

text \<open>What a read can be given instead of the file: a lookup snapshot, a read snapshot whose classification may
  have failed, entries with their version, or plain entries.\<close>

datatype loaded_entries =
    FromFile
  | LookupSnapshot mappings
  | ReadSnapshot "mapping_error + classified_store"
  | VersionedEntries int entries
  | PlainEntries entries

definition state_from_plain :: "mapping_env \<Rightarrow> entries \<Rightarrow> mapping_error + classified_store" where
  "state_from_plain E es =
     (if es = [] then classify_entries E 2 es
      else if list_all (\<lambda>(k, _). starts_with ''v2:'' k) es then classify_entries E 2 es
      else if list_all (\<lambda>(k, _). \<not> starts_with ''v2:'' k) es then classify_entries E 1 es
      else Inl ScopeConflict)"

definition get_mapping :: "mapping_env \<Rightarrow> mapping_file \<Rightarrow> string option \<Rightarrow> string option \<Rightarrow> int \<Rightarrow> bool \<Rightarrow>
    loaded_entries \<Rightarrow> mapping_error + manual_mapping option" where
  "get_mapping E f sys enclosure slot legacy loaded =
     (let enc = resolve_physical_mapping_scope enclosure; ids = query_identities sys enc slot legacy;
          from_state = (\<lambda>st. case st of Inl e \<Rightarrow> Inl e
            | Inr s \<Rightarrow> Inr (map_option canonical_mapping (first_mapping (cs_mappings s) ids)))
      in case loaded of
           FromFile \<Rightarrow> from_state (load_state_for_scope E f sys enc (Some slot))
         | LookupSnapshot ms \<Rightarrow> Inr (map_option validated (first_mapping ms ids))
         | ReadSnapshot (Inl e) \<Rightarrow> Inl e
         | ReadSnapshot (Inr s) \<Rightarrow> Inr (map_option validated (first_mapping (cs_mappings s) ids))
         | VersionedEntries version es \<Rightarrow> from_state (classify_entries E version es)
         | PlainEntries es \<Rightarrow> from_state (state_from_plain E es))"

definition load_all :: "mapping_env \<Rightarrow> mapping_file \<Rightarrow> mapping_error + int \<times> entries" where
  "load_all E f = (case read_document E False True f of Inl e \<Rightarrow> Inl e
     | Inr (version, es) \<Rightarrow>
         if version = 2 then (case classify_entries E version es of Inl e \<Rightarrow> Inl e | Inr _ \<Rightarrow> Inr (version, es))
         else Inr (version, es))"

definition load_lookup_snapshot :: "mapping_env \<Rightarrow> mapping_file \<Rightarrow> mapping_error + mappings" where
  "load_lookup_snapshot E f = (case read_document E False True f of Inl e \<Rightarrow> Inl e
     | Inr (version, es) \<Rightarrow> (case classify_entries E version es of Inl e \<Rightarrow> Inl e | Inr s \<Rightarrow> Inr (cs_mappings s)))"

definition load_read_snapshot ::
    "mapping_env \<Rightarrow> mapping_file \<Rightarrow> mapping_error + scoped_snapshot \<times> (mapping_error + classified_store)" where
  "load_read_snapshot E f = (case read_document E True False f of Inl e \<Rightarrow> Inl e
     | Inr (version, es) \<Rightarrow> (case classify_entries E version es of
           Inl e \<Rightarrow> if version = 2 then Inl e else Inr (snapshot_of E version es, Inl e)
         | Inr s \<Rightarrow> Inr (snapshot_of E version es, Inr s)))"

definition has_legacy_only_mapping ::
    "mapping_env \<Rightarrow> mapping_file \<Rightarrow> string option \<Rightarrow> string option \<Rightarrow> int \<Rightarrow> loaded_entries \<Rightarrow> mapping_error + bool" where
  "has_legacy_only_mapping E f sys enc slot loaded =
     (case (case loaded of FromFile \<Rightarrow> (case load_all E f of Inl e \<Rightarrow> Inl e | Inr (v, es) \<Rightarrow> Inr (VersionedEntries v es))
            | _ \<Rightarrow> Inr loaded) of
        Inl e \<Rightarrow> Inl e
      | Inr given \<Rightarrow> (case get_mapping E f sys enc slot False given of
            Inl e \<Rightarrow> Inl e
          | Inr (Some _) \<Rightarrow> Inr False
          | Inr None \<Rightarrow> (case get_mapping E f sys enc slot True given of Inl e \<Rightarrow> Inl e | Inr m \<Rightarrow> Inr (m \<noteq> None))))"

text \<open>The mappings of a scope: the row of the system itself before the row without a system.\<close>

definition in_scope :: "string option \<Rightarrow> string option \<Rightarrow> identity \<Rightarrow> bool" where
  "in_scope sys enc i \<longleftrightarrow> identity_matches_system i sys \<and> (enc = None \<or> fst (snd i) = enc)"

definition add_scope_entry :: "string option \<Rightarrow> (scope_identity \<times> nat \<times> manual_mapping) list \<Rightarrow>
    identity \<times> manual_mapping \<Rightarrow> (scope_identity \<times> nat \<times> manual_mapping) list" where
  "add_scope_entry sys acc x = (case x of (i, m) \<Rightarrow>
     let rank = (if fst i = sys then 1 else 0)
     in case map_of acc (snd i) of
          None \<Rightarrow> acc @ [(snd i, rank, m)]
        | Some (r, _) \<Rightarrow> if r < rank then map (\<lambda>(k, v). (k, if k = snd i then (rank, m) else v)) acc else acc)"

definition scope_entries ::
    "classified_store \<Rightarrow> string option \<Rightarrow> string option \<Rightarrow> (scope_identity \<times> manual_mapping) list" where
  "scope_entries s sys enclosure =
     (let enc = resolve_physical_mapping_scope enclosure
      in map (\<lambda>(k, r, m). (k, m))
           (foldl (add_scope_entry sys) [] (filter (\<lambda>(i, m). in_scope sys enc i) (cs_mappings s))))"

definition opt_text :: "string option \<Rightarrow> string" where
  "opt_text v = text_or v ''''"

definition scope_key :: "scope_identity \<Rightarrow> string \<times> int" where
  "scope_key k = (opt_text (fst k), snd k)"

text \<open>Counts can use a read snapshot instead of the file.\<close>

type_synonym read_snapshot = "scoped_snapshot \<times> (mapping_error + classified_store)"

definition count_for_system ::
    "mapping_env \<Rightarrow> mapping_file \<Rightarrow> string option \<Rightarrow> read_snapshot option \<Rightarrow> mapping_error + nat" where
  "count_for_system E f sys loaded =
     (if sys = None then
        (case (case loaded of None \<Rightarrow> load_state E f | Some (_, display) \<Rightarrow> display) of
           Inl e \<Rightarrow> Inl e | Inr s \<Rightarrow> Inr (length (cs_mappings s)))
      else (case (case loaded of None \<Rightarrow> load_state_for_scope E f sys None None
            | Some (sn, _) \<Rightarrow> state_for_scope sn sys None None) of
           Inl e \<Rightarrow> Inl e | Inr s \<Rightarrow> Inr (length (scope_entries s sys None))))"

definition list_mappings ::
    "mapping_env \<Rightarrow> mapping_file \<Rightarrow> string option \<Rightarrow> string option \<Rightarrow> mapping_error + manual_mapping list" where
  "list_mappings E f sys enclosure =
     (let enc = resolve_physical_mapping_scope enclosure
      in if sys \<noteq> None then (case load_state_for_scope E f sys enc None of Inl e \<Rightarrow> Inl e
           | Inr s \<Rightarrow> Inr (map snd (sort_key (\<lambda>(k, m). scope_key k) (scope_entries s sys enc))))
         else (case load_state E f of Inl e \<Rightarrow> Inl e
           | Inr s \<Rightarrow> Inr (sort_key (\<lambda>m. (opt_text (mm_system_id m), opt_text (mm_enclosure_id m), mm_slot m))
               (map snd (filter (\<lambda>(i, m). enc = None \<or> fst (snd i) = enc) (cs_mappings s))))))"

subsection \<open>Revisions\<close>

definition dump_model :: "mapping_env \<Rightarrow> manual_mapping \<Rightarrow> py_value" where
  "dump_model E m = VDict [
     (''device_name'', opt_str (mm_device_name m)), (''enclosure_id'', opt_str (mm_enclosure_id m)),
     (''gptid'', opt_str (mm_gptid m)), (''notes'', opt_str (mm_notes m)), (''serial'', opt_str (mm_serial m)),
     (''slot'', VInt (mm_slot m)), (''source'', VStr (mm_source m)), (''system_id'', opt_str (mm_system_id m)),
     (''updated_at'', me_time E (mm_updated_at m))]"

definition row_payload :: "mapping_env \<Rightarrow> classified_row \<Rightarrow> py_value" where
  "row_payload E r = (case cr_identity r of (sys, enc, slot) \<Rightarrow> VDict [
     (''key'', VStr (cr_key r)), (''identity'', VList [opt_str sys, opt_str enc, VInt slot]),
     (''model'', dump_model E (cr_stored r))])"

definition rows_matching :: "mapping_env \<Rightarrow> classified_store \<Rightarrow> (identity \<Rightarrow> bool) \<Rightarrow> py_value" where
  "rows_matching E s P =
     VList (map (row_payload E) (filter (\<lambda>r. P (cr_identity r)) (sort_key cr_key (cs_rows s))))"

definition import_identity_selected :: "string option \<Rightarrow> string option \<Rightarrow> identity \<Rightarrow> bool" where
  "import_identity_selected sys enc i \<longleftrightarrow> identity_matches_system i sys \<and> (enc = None \<or> fst (snd i) = enc)"

definition replace_identity_selected :: "string option \<Rightarrow> string option \<Rightarrow> identity \<Rightarrow> bool" where
  "replace_identity_selected sys enc i \<longleftrightarrow>
     identity_matches_system i sys \<and> (enc = None \<or> fst (snd i) = None \<or> fst (snd i) = enc)"

definition resolvable_identity_selected :: "string option \<Rightarrow> string option \<Rightarrow> int \<Rightarrow> identity \<Rightarrow> bool" where
  "resolvable_identity_selected sys enc slot i \<longleftrightarrow> i \<in> set (query_identities sys enc slot True)"

definition scope_revision_of ::
    "mapping_env \<Rightarrow> classified_store \<Rightarrow> string option \<Rightarrow> string option \<Rightarrow> string" where
  "scope_revision_of E s sys enclosure =
     (let enc = resolve_physical_mapping_scope enclosure
      in me_digest E (VDict [(''version'', VInt (cs_version s)), (''system_id'', opt_str sys), (''enclosure_id'', opt_str enc),
           (''rows'', rows_matching E s (import_identity_selected sys enc))]))"

definition resolvable_revision_of ::
    "mapping_env \<Rightarrow> classified_store \<Rightarrow> string option \<Rightarrow> string option \<Rightarrow> int \<Rightarrow> string" where
  "resolvable_revision_of E s sys enclosure slot =
     (let enc = resolve_physical_mapping_scope enclosure
      in me_digest E (VDict [(''version'', VInt (cs_version s)), (''system_id'', opt_str sys), (''enclosure_id'', opt_str enc),
           (''slot'', VInt slot), (''rows'', rows_matching E s (resolvable_identity_selected sys enc slot))]))"

definition save_revision_of ::
    "mapping_env \<Rightarrow> classified_store \<Rightarrow> string option \<Rightarrow> string option \<Rightarrow> int \<Rightarrow> string" where
  "save_revision_of E s sys enclosure slot =
     (let enc = resolve_physical_mapping_scope enclosure
      in me_digest E (VDict [(''system_id'', opt_str sys), (''enclosure_id'', opt_str enc), (''slot'', VInt slot),
           (''scope_revision'', VStr (scope_revision_of E s sys enc)),
           (''resolvable_revision'', VStr (resolvable_revision_of E s sys enc slot))]))"

definition clear_revision_of ::
    "mapping_env \<Rightarrow> classified_store \<Rightarrow> string option \<Rightarrow> string option \<Rightarrow> int \<Rightarrow> string" where
  "clear_revision_of E s sys enclosure slot =
     (let enc = resolve_physical_mapping_scope enclosure;
          effective = (case first_mapping (cs_mappings s) (query_identities sys enc slot True) of
            None \<Rightarrow> enc | Some m \<Rightarrow> mm_enclosure_id m)
      in me_digest E (VDict [(''enclosure_id'', opt_str enc), (''slot'', VInt slot), (''effective_scope'', opt_str effective),
           (''effective_revision'', VStr (scope_revision_of E s sys effective)),
           (''resolvable_revision'', VStr (resolvable_revision_of E s sys enc slot))]))"

definition scope_revision :: "mapping_env \<Rightarrow> mapping_file \<Rightarrow> string option \<Rightarrow> string option \<Rightarrow> mapping_error + string" where
  "scope_revision E f sys enc = (case load_state_for_scope E f sys enc None of Inl e \<Rightarrow> Inl e
     | Inr s \<Rightarrow> Inr (scope_revision_of E s sys enc))"

definition save_revision ::
    "mapping_env \<Rightarrow> mapping_file \<Rightarrow> string option \<Rightarrow> string option \<Rightarrow> int \<Rightarrow> mapping_error + string" where
  "save_revision E f sys enc slot = (case load_state_for_scope E f sys enc (Some slot) of Inl e \<Rightarrow> Inl e
     | Inr s \<Rightarrow> Inr (save_revision_of E s sys enc slot))"

definition clear_revision ::
    "mapping_env \<Rightarrow> mapping_file \<Rightarrow> string option \<Rightarrow> string option \<Rightarrow> int \<Rightarrow> mapping_error + string" where
  "clear_revision E f sys enc slot = (case load_state_for_scope E f sys enc (Some slot) of Inl e \<Rightarrow> Inl e
     | Inr s \<Rightarrow> Inr (clear_revision_of E s sys enc slot))"

text \<open>The revisions of a batch of bays from one snapshot; the first failing bay fails the batch.\<close>

fun revisions_from ::
    "(string option \<Rightarrow> int \<Rightarrow> mapping_error + string) \<Rightarrow> scope_identity list \<Rightarrow> mapping_error + (scope_identity \<times> string) list" where
  "revisions_from g [] = Inr []"
| "revisions_from g (t # ts) = (case g (resolve_physical_mapping_scope (fst t)) (snd t) of Inl e \<Rightarrow> Inl e
     | Inr r \<Rightarrow> (case revisions_from g ts of Inl e \<Rightarrow> Inl e | Inr rs \<Rightarrow> Inr ((t, r) # rs)))"

definition batch_revisions ::
    "(classified_store \<Rightarrow> string option \<Rightarrow> int \<Rightarrow> string) \<Rightarrow> mapping_env \<Rightarrow> mapping_file \<Rightarrow> string option \<Rightarrow>
     scope_identity list \<Rightarrow> scoped_snapshot option \<Rightarrow> mapping_error + (scope_identity \<times> string) list" where
  "batch_revisions revision E f sys targets loaded =
     (if targets = [] then Inr []
      else (case (case loaded of None \<Rightarrow> load_scoped_snapshot E f | Some sn \<Rightarrow> Inr sn) of Inl e \<Rightarrow> Inl e
        | Inr sn \<Rightarrow> revisions_from (\<lambda>enc slot. case state_for_scope sn sys enc (Some slot) of Inl e \<Rightarrow> Inl e
             | Inr s \<Rightarrow> Inr (revision s enc slot)) (firsts targets)))"

definition save_revisions where
  "save_revisions E f sys = batch_revisions (\<lambda>s enc slot. save_revision_of E s sys enc slot) E f sys"

definition clear_revisions where
  "clear_revisions E f sys = batch_revisions (\<lambda>s enc slot. clear_revision_of E s sys enc slot) E f sys"

subsection \<open>Previews\<close>

fun normalize_incoming_from :: "string option \<Rightarrow> string option \<Rightarrow> (scope_identity \<times> manual_mapping) list \<Rightarrow>
    manual_mapping list \<Rightarrow> mapping_error + (scope_identity \<times> manual_mapping) list" where
  "normalize_incoming_from sys enc acc [] = Inr acc"
| "normalize_incoming_from sys enc acc (m # ms) =
     (let scoped = m\<lparr>mm_system_id := sys, mm_enclosure_id :=
            (if enc \<noteq> None then enc else resolve_physical_mapping_scope (mm_enclosure_id m))\<rparr>;
          k = (mm_enclosure_id scoped, mm_slot scoped)
      in if k \<in> fst ` set acc then Inl (DuplicateMapping (fst k) (snd k))
         else normalize_incoming_from sys enc (acc @ [(k, scoped)]) ms)"

definition normalize_incoming :: "string option \<Rightarrow> string option \<Rightarrow> manual_mapping list \<Rightarrow>
    mapping_error + (scope_identity \<times> manual_mapping) list" where
  "normalize_incoming sys enclosure ms = normalize_incoming_from sys (resolve_physical_mapping_scope enclosure) [] ms"

type_synonym mapping_values = "(string \<times> string option) list"

definition mapping_values :: "manual_mapping \<Rightarrow> mapping_values" where
  "mapping_values m = [(''device_name'', mm_device_name m), (''gptid'', mm_gptid m), (''notes'', mm_notes m),
     (''serial'', mm_serial m)]"

record mapping_preview =
  pv_revision :: string
  pv_import_digest :: string
  pv_additions :: "(scope_identity \<times> mapping_values) list"
  pv_updates :: "(scope_identity \<times> (string \<times> string option \<times> string option) list) list"
  pv_removals :: "(scope_identity \<times> mapping_values) list"
  pv_unchanged :: "scope_identity list"

definition value_changes :: "manual_mapping \<Rightarrow> manual_mapping \<Rightarrow> (string \<times> string option \<times> string option) list" where
  "value_changes old new = List.map_filter (\<lambda>((k, a), (_, b)). if a \<noteq> b then Some (k, a, b) else None)
     (zip (mapping_values old) (mapping_values new))"

definition preview_from_state :: "mapping_env \<Rightarrow> classified_store \<Rightarrow> string option \<Rightarrow> string option \<Rightarrow>
    manual_mapping list \<Rightarrow> mapping_error + mapping_preview \<times> (scope_identity \<times> manual_mapping) list" where
  "preview_from_state E s sys enclosure ms =
     (let enc = resolve_physical_mapping_scope enclosure; current = scope_entries s sys enc
      in case normalize_incoming sys enc ms of Inl e \<Rightarrow> Inl e | Inr incoming \<Rightarrow>
        (let revision = scope_revision_of E s sys enc;
             ids = sort_key scope_key (remdups (map fst current @ map fst incoming));
             new = (\<lambda>k. map_of incoming k); old = (\<lambda>k. map_of current k);
             payload = VList (map (semantic_payload \<circ> snd) (sort_key (\<lambda>(k, m). scope_key k) incoming))
         in Inr (\<lparr>pv_revision = revision,
              pv_import_digest = me_digest E (VDict [(''revision'', VStr revision), (''system_id'', opt_str sys),
                (''enclosure_id'', opt_str enc), (''mappings'', payload)]),
              pv_additions = List.map_filter (\<lambda>k. case (old k, new k) of
                (None, Some m) \<Rightarrow> Some (k, mapping_values m) | _ \<Rightarrow> None) ids,
              pv_updates = List.map_filter (\<lambda>k. case (old k, new k) of
                (Some a, Some b) \<Rightarrow> if semantic_mapping a = semantic_mapping b then None else Some (k, value_changes a b)
                | _ \<Rightarrow> None) ids,
              pv_removals = List.map_filter (\<lambda>k. case (old k, new k) of
                (Some a, None) \<Rightarrow> Some (k, mapping_values a) | _ \<Rightarrow> None) ids,
              pv_unchanged = List.map_filter (\<lambda>k. case (old k, new k) of
                (Some a, Some b) \<Rightarrow> if semantic_mapping a = semantic_mapping b then Some k else None | _ \<Rightarrow> None) ids\<rparr>,
            incoming)))"

definition preview_replace_mappings :: "mapping_env \<Rightarrow> mapping_file \<Rightarrow> string option \<Rightarrow> string option \<Rightarrow>
    manual_mapping list \<Rightarrow> mapping_error + mapping_preview" where
  "preview_replace_mappings E f sys enc ms = (case load_state_for_scope E f sys enc None of Inl e \<Rightarrow> Inl e
     | Inr s \<Rightarrow> (case preview_from_state E s sys enc ms of Inl e \<Rightarrow> Inl e | Inr (p, _) \<Rightarrow> Inr p))"

subsection \<open>Writes\<close>

text \<open>What the file system makes of a replacement: done, not done, or done with its durability unknown.\<close>

datatype commit_fate = Committed | Unreplaced string | Unconfirmed

record store_state =
  st_file :: mapping_file
  st_journal :: "(string \<times> string) list"

text \<open>The mapping that is written under an identity.\<close>

definition owned_mapping :: "identity \<Rightarrow> manual_mapping \<Rightarrow> manual_mapping" where
  "owned_mapping i m = (canonical_mapping m)\<lparr>mm_system_id := fst i, mm_enclosure_id := fst (snd i)\<rparr>"

definition identity_key :: "identity \<Rightarrow> string \<times> string \<times> int" where
  "identity_key i = (opt_text (fst i), opt_text (fst (snd i)), snd (snd i))"

text \<open>Texts survive \<open>json.loads\<close> after \<open>json.dumps\<close>, so the comparison of the two encodings holds.\<close>

definition serialize_v2 :: "mapping_env \<Rightarrow> mappings \<Rightarrow> mapping_error + py_value" where
  "serialize_v2 E ms =
     (let sorted_ms = sort_key (\<lambda>(i, m). identity_key i) ms
      in if list_ex (\<lambda>(i, m). model_identity (owned_mapping i m) \<noteq> i) sorted_ms then Inl ScopeConflict
         else (let raw = sort_key fst (foldl (\<lambda>d (i, m). dict_set d (encode_v2_key i) (dump_model E (owned_mapping i m))) [] sorted_ms)
           in case read_entries E raw of None \<Rightarrow> Inl ScopeConflict
            | Some es \<Rightarrow> (case classify_entries E 2 es of Inl e \<Rightarrow> Inl e
                | Inr _ \<Rightarrow> Inr (VDict [(''slot_mappings'', VDict raw), (''updated_at'', VStr (me_stamp E (me_now E))),
                    (''version'', VInt 2)]))))"

definition commit_v2 :: "mapping_env \<Rightarrow> commit_fate \<Rightarrow> mappings \<Rightarrow> mapping_file \<Rightarrow> mapping_error option \<times> mapping_file" where
  "commit_v2 E fate ms f = (case serialize_v2 E ms of Inl e \<Rightarrow> (Some e, f)
     | Inr v \<Rightarrow> (case fate of
           Committed \<Rightarrow> (None, Json v)
         | Unreplaced reason \<Rightarrow> (Some (NotReplaced reason), f)
         | Unconfirmed \<Rightarrow> (Some DurabilityUnknown, Json v)))"

text \<open>A commit, and on success the journal entry and the result of the call.\<close>

definition commit_with :: "mapping_env \<Rightarrow> commit_fate \<Rightarrow> mappings \<Rightarrow> string \<times> string \<Rightarrow> 'a \<Rightarrow> store_state \<Rightarrow>
    (mapping_error + 'a) \<times> store_state" where
  "commit_with E fate ms entry result st = (case commit_v2 E fate ms (st_file st) of
       (Some e, f) \<Rightarrow> (Inl e, st\<lparr>st_file := f\<rparr>)
     | (None, f) \<Rightarrow> (Inr result, st\<lparr>st_file := f, st_journal := st_journal st @ [entry]\<rparr>))"

text \<open>\<open>d[k] = v\<close> and the removal of the identities that match.\<close>

fun put_entry :: "entries \<Rightarrow> string \<Rightarrow> manual_mapping \<Rightarrow> entries" where
  "put_entry [] k m = [(k, m)]"
| "put_entry ((l, n) # es) k m = (if l = k then (k, m) # es else (l, n) # put_entry es k m)"

fun put_mapping :: "mappings \<Rightarrow> identity \<Rightarrow> manual_mapping \<Rightarrow> mappings" where
  "put_mapping [] i m = [(i, m)]"
| "put_mapping ((j, n) # ms) i m = (if j = i then (i, m) # ms else (j, n) # put_mapping ms i m)"

definition without_identities :: "(identity \<Rightarrow> bool) \<Rightarrow> mappings \<Rightarrow> mappings" where
  "without_identities P ms = filter (\<lambda>(i, m). \<not> P i) ms"

definition put_all :: "instant \<Rightarrow> manual_mapping list \<Rightarrow> mappings \<Rightarrow> mappings" where
  "put_all t incoming ms = foldl (\<lambda>acc m. let saved = m\<lparr>mm_updated_at := t\<rparr> in put_mapping acc (model_identity saved) saved) ms incoming"

definition revision_moved :: "string option \<Rightarrow> string \<Rightarrow> bool" where
  "revision_moved expected current \<longleftrightarrow> (case expected of None \<Rightarrow> False | Some r \<Rightarrow> r \<noteq> current)"

definition bay_subject :: "identity \<Rightarrow> string" where
  "bay_subject i = opt_text (fst i) @ '':'' @ opt_text (fst (snd i)) @ '':'' @ int_str (snd (snd i))"

definition save_mapping :: "mapping_env \<Rightarrow> commit_fate \<Rightarrow> manual_mapping \<Rightarrow> string option \<Rightarrow> store_state \<Rightarrow>
    (mapping_error + manual_mapping) \<times> store_state" where
  "save_mapping E fate mapping expected st = (case load_state E (st_file st) of Inl e \<Rightarrow> (Inl e, st)
     | Inr s \<Rightarrow>
         (let m = canonical_mapping mapping; saved = m\<lparr>mm_updated_at := me_now E\<rparr>;
              current = save_revision_of E s (mm_system_id m) (mm_enclosure_id m) (mm_slot m);
              kept = without_identities (resolvable_identity_selected (mm_system_id m) (mm_enclosure_id m) (mm_slot m)) (cs_mappings s)
          in if revision_moved expected current then (Inl (RevisionConflict current), st)
             else commit_with E fate (put_mapping kept (model_identity saved) saved)
               (''mapping.save'', bay_subject (model_identity saved)) saved st))"

definition clear_mapping :: "mapping_env \<Rightarrow> commit_fate \<Rightarrow> string option \<Rightarrow> string option \<Rightarrow> int \<Rightarrow> string option \<Rightarrow>
    store_state \<Rightarrow> (mapping_error + bool) \<times> store_state" where
  "clear_mapping E fate sys enclosure slot expected st = (case load_state E (st_file st) of Inl e \<Rightarrow> (Inl e, st)
     | Inr s \<Rightarrow>
         (let enc = resolve_physical_mapping_scope enclosure; current = clear_revision_of E s sys enc slot
          in if revision_moved expected current then (Inl (RevisionConflict current), st)
             else if first_mapping (cs_mappings s) (query_identities sys enc slot True) = None then (Inr False, st)
             else commit_with E fate (without_identities (resolvable_identity_selected sys enc slot) (cs_mappings s))
               (''mapping.clear'', bay_subject (sys, enc, slot)) True st))"

definition scope_subject :: "string option \<Rightarrow> string option \<Rightarrow> string" where
  "scope_subject sys enc = opt_text sys @ '':'' @ opt_text enc"

definition replace_mappings :: "mapping_env \<Rightarrow> commit_fate \<Rightarrow> string option \<Rightarrow> string option \<Rightarrow> manual_mapping list \<Rightarrow>
    store_state \<Rightarrow> (mapping_error + nat) \<times> store_state" where
  "replace_mappings E fate sys enclosure ms st = (case load_state E (st_file st) of Inl e \<Rightarrow> (Inl e, st)
     | Inr s \<Rightarrow>
         (let enc = resolve_physical_mapping_scope enclosure
          in case normalize_incoming sys enc ms of Inl e \<Rightarrow> (Inl e, st)
           | Inr incoming \<Rightarrow>
               commit_with E fate (put_all (me_now E) (map snd incoming)
                   (without_identities (replace_identity_selected sys enc) (cs_mappings s)))
                 (''mapping.replace'', scope_subject sys enc) (length incoming) st))"

record import_result =
  ir_saved_count :: nat
  ir_revision :: string
  ir_preview :: mapping_preview

definition apply_mapping_import :: "mapping_env \<Rightarrow> commit_fate \<Rightarrow> string option \<Rightarrow> string option \<Rightarrow> manual_mapping list \<Rightarrow>
    string \<Rightarrow> string \<Rightarrow> store_state \<Rightarrow> (mapping_error + import_result) \<times> store_state" where
  "apply_mapping_import E fate sys enclosure ms expected digest st = (case load_state E (st_file st) of Inl e \<Rightarrow> (Inl e, st)
     | Inr s \<Rightarrow>
         (let enc = resolve_physical_mapping_scope enclosure
          in case preview_from_state E s sys enc ms of Inl e \<Rightarrow> (Inl e, st)
           | Inr (preview, incoming) \<Rightarrow>
               if pv_revision preview \<noteq> expected then (Inl (RevisionConflict (pv_revision preview)), st)
               else if pv_import_digest preview \<noteq> digest
                 then (Inl (DigestMismatch (pv_revision preview) (pv_import_digest preview)), st)
               else (let current = put_all (me_now E) (map snd incoming)
                           (without_identities (import_identity_selected sys enc) (cs_mappings s));
                         (done, st') = commit_with E fate current (''mapping.import'', scope_subject sys enc) () st
                     in case done of Inl e \<Rightarrow> (Inl e, st')
                      | Inr _ \<Rightarrow>
                         (case classify_entries E 2 (foldl (\<lambda>d (i, m). put_entry d (encode_v2_key i) m) [] current) of
                            Inl e \<Rightarrow> (Inl e, st')
                          | Inr final \<Rightarrow> (Inr \<lparr>ir_saved_count = length incoming,
                              ir_revision = scope_revision_of E final sys enc, ir_preview = preview\<rparr>, st')))))"

subsection \<open>Keys are read back\<close>

lemma starts_with_Cons: "starts_with (p # ps) (x # xs) \<longleftrightarrow> p = x \<and> starts_with ps xs"
  by (auto simp: starts_with_def)

lemma starts_with_Nil [simp]: "starts_with [] s"
  by (simp add: starts_with_def)

lemma of_char_inj: "(of_char c :: nat) = n \<Longrightarrow> c = char_of n"
  by auto

lemma char_codes:
  "char_of (34::nat) = CHR 0x22" "char_of (92::nat) = CHR 0x5C" "char_of (10::nat) = CHR 0x0A"
  "char_of (13::nat) = CHR 0x0D" "char_of (9::nat) = CHR 0x09" "char_of (8::nat) = CHR 0x08" "char_of (12::nat) = CHR 0x0C"
  by code_simp+

lemma length_hex_str_byte: "n < 256 \<Longrightarrow> length (hex_str 4 n) = 4"
proof -
  assume "n < 256"
  then have "n div 16 < 16" by simp
  then have "length (digits_in 16 n) \<le> 2"
    by (simp add: digits_in.simps [of 16 n] digits_in.simps [of 16 "n div 16"])
  then show ?thesis by (simp add: hex_str_def pad_left_def)
qed

lemma read_json_char: "read_json_chars (json_char c @ r) = map_option (\<lambda>(s, q). (c # s, q)) (read_json_chars r)"
proof -
  let ?n = "of_char c :: nat"
  have n: "?n < 256" by simp
  show ?thesis
  proof (cases "?n \<in> {34, 92, 10, 13, 9, 8, 12}")
    case True
    then show ?thesis
      by (auto simp: json_char_def simple_escape_def char_codes dest!: of_char_inj)
  next
    case False
    then have c: "c \<noteq> CHR 0x22" "c \<noteq> CHR 0x5C" by auto
    show ?thesis
    proof (cases "32 \<le> ?n \<and> ?n \<le> 126")
      case True
      then show ?thesis using False c by (simp add: json_char_def Let_def)
    next
      case out: False
      have hex: "length (hex_str 4 ?n) = 4" using n by (rule length_hex_str_byte)
      have "json_char c = [CHR 0x5C, CHR ''u''] @ hex_str 4 ?n"
        using False out by (simp add: json_char_def Let_def)
      then show ?thesis using hex hex_str_digits [of 4 ?n] n by simp
    qed
  qed
qed

lemma read_json_string: "read_json_chars (concat (map json_char s) @ CHR 0x22 # r) = Some (s, r)"
  by (induction s) (simp_all add: read_json_char)

lemma read_json_opt_json_opt: "read_json_opt (json_opt v @ r) = Some (v, r)"
proof (cases v)
  case None
  then show ?thesis by (simp add: read_json_opt_def json_opt_def starts_with_Cons)
next
  case (Some s)
  then show ?thesis by (simp add: read_json_opt_def json_opt_def json_string_def starts_with_Cons read_json_string)
qed

lemma nat_str_no_sign: "\<not> starts_with ''-'' (nat_str n)"
proof -
  have "list_all ascii_digit (nat_str n)" by (rule nat_str_digits)
  then show ?thesis by (cases "nat_str n") (auto simp: starts_with_Cons ascii_digit_def)
qed

lemma read_json_int_str: "read_json_int (int_str i) = Some i"
  using nat_str_no_sign [of "nat i"] nat_str_digits
  by (cases "i < 0") (simp_all add: read_json_int_def int_str_def Let_def starts_with_Cons)

lemma ends_with_append [simp]: "ends_with p (s @ p)"
  by (auto simp: ends_with_iff)

lemma drop_Suc_append: "drop (Suc 0) (x # xs) = xs"
  by simp

lemma read_encoded_identity:
  "read_json_identity (drop 3 (encode_v2_key (sys, enc, slot))) = Some (sys, resolve_physical_mapping_scope enc, slot)"
proof -
  let ?tail = "int_str slot @ '']''"
  have "drop 3 (encode_v2_key (sys, enc, slot)) =
      CHR ''['' # json_opt sys @ CHR '','' # json_opt (resolve_physical_mapping_scope enc) @ CHR '','' # ?tail"
    by (simp add: encode_v2_key_def)
  then show ?thesis
    by (simp add: read_json_identity_def starts_with_Cons read_json_opt_json_opt read_json_int_str butlast_append
        ends_with_append [of "'']''" "CHR '','' # int_str slot", simplified])
qed

lemma cut_colons_length: "cut_colons s = Some (a, b) \<Longrightarrow> length a + length b + 2 = length s"
  by (induction s arbitrary: a rule: cut_colons.induct) (auto split: if_splits)

lemma resolve_text_again [simp]: "resolve_text (resolve_text s) = resolve_text s"
  by (auto simp: resolve_text_def is_drawer_alias_def split: option.splits prod.splits)

lemma resolve_again [simp]: "resolve_physical_mapping_scope (resolve_physical_mapping_scope e) = resolve_physical_mapping_scope e"
  by (cases e) (simp_all add: resolve_physical_mapping_scope_def)

definition physical_identity :: "identity \<Rightarrow> bool" where
  "physical_identity i \<longleftrightarrow> resolve_physical_mapping_scope (fst (snd i)) = fst (snd i)"

lemma decode_v2_key_iff: "decode_v2_key key = Some i \<longleftrightarrow> key = encode_v2_key i \<and> physical_identity i"
proof -
  obtain sys enc slot where i: "i = (sys, enc, slot)" by (cases i) auto
  have v2: "starts_with ''v2:'' (encode_v2_key i)" by (simp add: i encode_v2_key_def starts_with_Cons)
  have read: "read_json_identity (drop 3 (encode_v2_key i)) = Some (sys, resolve_physical_mapping_scope enc, slot)"
    unfolding i by (rule read_encoded_identity)
  have enc: "encode_v2_key (sys, resolve_physical_mapping_scope enc, slot) = encode_v2_key i"
    by (simp add: i encode_v2_key_def)
  show ?thesis
  proof
    assume d: "decode_v2_key key = Some i"
    then have key: "key = encode_v2_key i" by (auto simp: decode_v2_key_def split: if_splits option.splits)
    with d read enc v2 have "(sys, resolve_physical_mapping_scope enc, slot) = i"
      by (simp add: decode_v2_key_def)
    then show "key = encode_v2_key i \<and> physical_identity i" using key by (simp add: i physical_identity_def)
  next
    assume "key = encode_v2_key i \<and> physical_identity i"
    then show "decode_v2_key key = Some i"
      using read v2 by (simp add: decode_v2_key_def i physical_identity_def)
  qed
qed

lemma encode_v2_key_inj:
  "physical_identity i \<Longrightarrow> physical_identity j \<Longrightarrow> encode_v2_key i = encode_v2_key j \<Longrightarrow> i = j"
  by (metis decode_v2_key_iff option.inject)

subsection \<open>A commit is read back\<close>

definition wf_mappings :: "mappings \<Rightarrow> bool" where
  "wf_mappings ms \<longleftrightarrow> distinct (map fst ms) \<and> list_all (\<lambda>(i, m). physical_identity i \<and> model_identity m = i) ms"

text \<open>The reader of times reads what the writer wrote.\<close>

definition times_read_back :: "mapping_env \<Rightarrow> bool" where
  "times_read_back E \<longleftrightarrow> (\<forall>t. me_read_time E (me_time E t) = Some t)"

definition mapping_row :: "identity \<times> manual_mapping \<Rightarrow> classified_row" where
  "mapping_row x = (case x of (i, m) \<Rightarrow>
     \<lparr>cr_key = encode_v2_key i, cr_stored = validated m, cr_identity = i, cr_canonical = validated m\<rparr>)"

definition file_order :: "mappings \<Rightarrow> mappings" where
  "file_order ms = sort_key (\<lambda>(i, m). encode_v2_key i) (sort_key (\<lambda>(i, m). identity_key i) ms)"

lemma set_file_order [simp]: "set (file_order ms) = set ms" and length_file_order: "length (file_order ms) = length ms"
  by (simp_all add: file_order_def)

lemma distinct_file_order: "distinct (map fst ms) \<Longrightarrow> distinct (map fst (file_order ms))"
proof -
  have keep: "distinct (map fst (sort_key f ms)) = distinct (map fst ms)" for f :: "'a \<times> 'b \<Rightarrow> 'c :: linorder" and ms
    by (simp add: distinct_map)
  show "distinct (map fst ms) \<Longrightarrow> distinct (map fst (file_order ms))"
    by (simp add: file_order_def keep)
qed

lemma map_of_file_order: "distinct (map fst ms) \<Longrightarrow> map_of (file_order ms) = map_of ms"
  by (intro map_of_inject_set [THEN iffD2]) (simp_all add: distinct_file_order)

lemma sort_key_map: "sort_key f (map g xs) = map g (sort_key (f \<circ> g) xs)"
proof (induction xs)
  case (Cons x xs)
  have "insort_key f (g x) (map g ys) = map g (insort_key (f \<circ> g) x ys)" for ys
    by (induction ys) simp_all
  with Cons show ?case by (simp add: comp_def)
qed simp

lemma dict_set_new: "k \<notin> fst ` set d \<Longrightarrow> dict_set d k v = d @ [(k, v)]"
  by (induction d k v rule: dict_set.induct) auto

lemma foldl_dict_set_distinct:
  "distinct (map f xs) \<Longrightarrow> fst ` set d \<inter> f ` set xs = {} \<Longrightarrow>
   foldl (\<lambda>d x. dict_set d (f x) (g x)) d xs = d @ map (\<lambda>x. (f x, g x)) xs"
proof (induction xs arbitrary: d)
  case (Cons x xs)
  then have new: "f x \<notin> fst ` set d" by auto
  have "foldl (\<lambda>d x. dict_set d (f x) (g x)) (d @ [(f x, g x)]) xs = (d @ [(f x, g x)]) @ map (\<lambda>x. (f x, g x)) xs"
    using Cons.prems by (intro Cons.IH) auto
  then show ?case by (simp add: dict_set_new [OF new])
qed simp

lemma firsts_distinct: "distinct xs \<Longrightarrow> firsts xs = xs"
  by (simp add: firsts_def distinct_remdups_id)

lemma validated_fields [simp]:
  "mm_system_id (validated m) = mm_system_id m" "mm_enclosure_id (validated m) = mm_enclosure_id m"
  "mm_slot (validated m) = mm_slot m" "model_identity (validated m) = model_identity m"
  "mm_updated_at (validated m) = mm_updated_at m" "mm_source (validated m) = mm_source m"
  by (simp_all add: validated_def model_identity_def)

lemma owned_mapping_own: "model_identity m = i \<Longrightarrow> physical_identity i \<Longrightarrow> owned_mapping i m = m"
  by (auto simp: owned_mapping_def canonical_mapping_def model_identity_def physical_identity_def)

lemma canonical_own: "physical_identity (model_identity m) \<Longrightarrow> canonical_mapping m = m"
  by (simp add: canonical_mapping_def model_identity_def physical_identity_def)

lemma validate_dump: "times_read_back E \<Longrightarrow> validate_raw_model E (dump_model E m) = Some (validated m)"
  by (auto simp: validate_raw_model_def dump_model_def text_field_def source_field_def time_field_def dict_get_simps
      times_read_back_def validated_def opt_str_def split: option.split)

lemma read_dumped_entries:
  "times_read_back E \<Longrightarrow> read_entries E (map (\<lambda>(i, m). (encode_v2_key i, dump_model E m)) ms) =
     Some (map (\<lambda>(i, m). (encode_v2_key i, validated m)) ms)"
  by (induction ms) (auto simp: validate_dump)

lemma classify_own_rows:
  "list_all (\<lambda>(i, m). physical_identity i \<and> model_identity m = i) ms \<Longrightarrow>
   classify_rows 2 (map (\<lambda>(i, m). (encode_v2_key i, validated m)) ms) = Some (map mapping_row ms)"
proof (induction ms)
  case (Cons x ms)
  obtain i m where x: "x = (i, m)" by (cases x)
  have "classify_row 2 (encode_v2_key i) (validated m) = Some (mapping_row x)"
    using Cons.prems by (auto simp: x classify_row_def mapping_row_def decode_v2_key_iff [THEN iffD2] canonical_own)
  with Cons show ?case by (simp add: x)
qed simp

lemma rows_of_mapping_rows:
  "distinct (map fst ms) \<Longrightarrow> (i, m) \<in> set ms \<Longrightarrow> rows_of i (map mapping_row ms) = [mapping_row (i, m)]"
proof (induction ms)
  case (Cons x ms)
  have none: "rows_of j (map mapping_row ms) = []" if "j \<notin> fst ` set ms" for j
    using that by (force simp: rows_of_def mapping_row_def filter_empty_conv)
  have "rows_of i (map mapping_row (x # ms)) = (if fst x = i then [mapping_row x] else []) @ rows_of i (map mapping_row ms)"
    by (simp add: rows_of_def mapping_row_def split: prod.split)
  then show ?case using Cons none by (cases "fst x = i") (auto simp: image_iff)
qed simp

lemma map_identity_rows: "map cr_identity (map mapping_row ms) = map fst ms"
  by (simp add: mapping_row_def split: prod.split)

lemma classify_own_entries:
  assumes "wf_mappings ms"
  shows "classify_entries E 2 (map (\<lambda>(i, m). (encode_v2_key i, validated m)) ms) = Inr \<lparr>cs_version = 2,
    cs_rows = map mapping_row ms, cs_mappings = map (\<lambda>(i, m). (i, validated m)) ms\<rparr>"
proof -
  have d: "distinct (map fst ms)" and own: "list_all (\<lambda>(i, m). physical_identity i \<and> model_identity m = i) ms"
    using assms by (simp_all add: wf_mappings_def)
  have ids: "row_identities (map mapping_row ms) = map fst ms"
    unfolding row_identities_def map_identity_rows using d by (rule firsts_distinct)
  have agree: "rows_agree E (rows_of i (map mapping_row ms))" and win: "cr_canonical (winner i (rows_of i (map mapping_row ms))) = validated m"
    if "(i, m) \<in> set ms" for i m
    using rows_of_mapping_rows [OF d that] by (simp_all add: rows_agree_def winner_def sort_key_desc_def mapping_row_def)
  show ?thesis
    unfolding classify_entries_def classify_own_rows [OF own] option.case ids
    using agree win by (auto simp: list_all_iff)
qed

lemma wf_file_order: "wf_mappings ms \<Longrightarrow> wf_mappings (file_order ms)"
  by (simp add: wf_mappings_def distinct_file_order list_all_iff)

lemma serialized:
  assumes "wf_mappings ms" "times_read_back E"
  shows "\<exists>stamp. serialize_v2 E ms = Inr (VDict [
    (''slot_mappings'', VDict (map (\<lambda>(i, m). (encode_v2_key i, dump_model E m)) (file_order ms))),
    (''updated_at'', VStr stamp), (''version'', VInt 2)])"
proof -
  let ?s = "sort_key (\<lambda>(i, m). identity_key i) ms"
  have own: "physical_identity i \<and> model_identity m = i" if "(i, m) \<in> set ms" for i m
    using assms(1) that by (auto simp: wf_mappings_def list_all_iff)
  have "distinct (map fst ?s)" using assms(1) by (simp add: wf_mappings_def distinct_map)
  moreover have "inj_on encode_v2_key (fst ` set ?s)"
    using own by (intro inj_onI encode_v2_key_inj) auto
  ultimately have "distinct (map (encode_v2_key \<circ> fst) ?s)" by (simp add: distinct_map comp_inj_on)
  then have keys: "distinct (map (\<lambda>(i, m). encode_v2_key i) ?s)" by (simp add: comp_def split_def)
  have "foldl (\<lambda>d x. dict_set d (case x of (i, m) \<Rightarrow> encode_v2_key i) (case x of (i, m) \<Rightarrow> dump_model E (owned_mapping i m))) [] ?s =
      [] @ map (\<lambda>x. (case x of (i, m) \<Rightarrow> encode_v2_key i, case x of (i, m) \<Rightarrow> dump_model E (owned_mapping i m))) ?s"
    using keys by (intro foldl_dict_set_distinct) simp_all
  also have "\<dots> = map (\<lambda>(i, m). (encode_v2_key i, dump_model E m)) ?s"
    using own by (auto simp: owned_mapping_own)
  finally have raw: "foldl (\<lambda>d (i, m). dict_set d (encode_v2_key i) (dump_model E (owned_mapping i m))) [] ?s =
      map (\<lambda>(i, m). (encode_v2_key i, dump_model E m)) ?s"
    by (simp add: split_def)
  have sorted: "sort_key fst (map (\<lambda>(i, m). (encode_v2_key i, dump_model E m)) ?s) =
      map (\<lambda>(i, m). (encode_v2_key i, dump_model E m)) (file_order ms)"
    by (simp add: sort_key_map file_order_def comp_def split_def)
  have "\<not> list_ex (\<lambda>(i, m). model_identity (owned_mapping i m) \<noteq> i) ?s"
    using own by (auto simp: list_ex_iff owned_mapping_own)
  then show ?thesis
    using classify_own_entries [OF wf_file_order [OF assms(1)]]
    by (simp add: serialize_v2_def Let_def raw sorted read_dumped_entries [OF assms(2)])
qed

lemma committed_document:
  assumes "wf_mappings ms" "times_read_back E" "serialize_v2 E ms = Inr v"
  shows "read_document E strict tolerate (Json v) =
    Inr (2, map (\<lambda>(i, m). (encode_v2_key i, validated m)) (file_order ms))"
  using serialized [OF assms(1,2)] assms(3)
  by (auto simp: read_document_def dict_get_simps read_dumped_entries [OF assms(2)])

lemma commit_read_back:
  assumes "wf_mappings ms" "times_read_back E"
  shows "\<exists>v. serialize_v2 E ms = Inr v \<and> load_state E (Json v) = Inr \<lparr>cs_version = 2,
    cs_rows = map mapping_row (file_order ms), cs_mappings = map (\<lambda>(i, m). (i, validated m)) (file_order ms)\<rparr>"
  using serialized [OF assms] committed_document [OF assms] classify_own_entries [OF wf_file_order [OF assms(1)]]
  by (auto simp: load_state_def)

subsection \<open>Loaded states\<close>

lemma classify_v1_sound:
  assumes "classify_v1 k m = Some (i, c)"
  shows "physical_identity i \<and> model_identity c = i"
proof -
  have phys: "physical_identity (sys, mm_enclosure_id (canonical_mapping m), n)" for sys n
    by (simp add: physical_identity_def canonical_mapping_def)
  show ?thesis
    using assms phys by (auto simp: classify_v1_def Let_def model_identity_def split: option.splits if_splits list.splits)
qed

lemma classify_row_sound:
  assumes "classify_row version k m = Some r"
  shows "cr_key r = k \<and> cr_stored r = m \<and> physical_identity (cr_identity r) \<and> model_identity (cr_canonical r) = cr_identity r"
proof (cases "version = 1")
  case True
  then show ?thesis using assms by (auto simp: classify_row_def dest: classify_v1_sound)
next
  case False
  then obtain i where "decode_v2_key k = Some i" "i = model_identity (canonical_mapping m)"
      "r = \<lparr>cr_key = k, cr_stored = m, cr_identity = i, cr_canonical = canonical_mapping m\<rparr>"
    using assms by (auto simp: classify_row_def split: option.splits if_splits)
  then show ?thesis unfolding decode_v2_key_iff by simp
qed

lemma classify_rows_sound:
  "classify_rows version es = Some rows \<Longrightarrow> r \<in> set rows \<Longrightarrow>
   physical_identity (cr_identity r) \<and> model_identity (cr_canonical r) = cr_identity r"
proof (induction es arbitrary: rows)
  case (Cons x es)
  obtain k m where x: "x = (k, m)" by (cases x)
  from Cons.prems(1) obtain r' rs where "classify_row version k m = Some r'" "classify_rows version es = Some rs" "rows = r' # rs"
    by (auto simp: x split: option.splits)
  then show ?case using Cons.IH [of rs] Cons.prems(2) classify_row_sound [of version k m r'] by auto
qed simp

lemma winner_in: "rows \<noteq> [] \<Longrightarrow> winner i rows \<in> set rows"
  unfolding winner_def by (metis hd_in_set set_sort_key_desc sort_key_desc_eq_Nil)

lemma classified_wf:
  assumes "classify_entries E version es = Inr s"
  shows "wf_mappings (cs_mappings s)"
proof -
  from assms obtain rows where rows: "classify_rows version es = Some rows"
    and s: "s = \<lparr>cs_version = version, cs_rows = rows,
      cs_mappings = map (\<lambda>i. (i, cr_canonical (winner i (rows_of i rows)))) (row_identities rows)\<rparr>"
    by (auto simp: classify_entries_def split: option.splits if_splits)
  have "physical_identity i \<and> model_identity (cr_canonical (winner i (rows_of i rows))) = i" if i: "i \<in> set (row_identities rows)" for i
  proof -
    have "rows_of i rows \<noteq> []" using i by (force simp: row_identities_def rows_of_def filter_empty_conv)
    then have "winner i (rows_of i rows) \<in> set (rows_of i rows)" by (rule winner_in)
    then have "winner i (rows_of i rows) \<in> set rows" "cr_identity (winner i (rows_of i rows)) = i"
      by (auto simp: rows_of_def)
    with classify_rows_sound [OF rows] show ?thesis by metis
  qed
  moreover have "distinct (row_identities rows)" by (simp add: row_identities_def)
  ultimately show ?thesis by (auto simp: s wf_mappings_def list_all_iff comp_def)
qed

lemma load_state_wf: "load_state E f = Inr s \<Longrightarrow> wf_mappings (cs_mappings s)"
  by (auto simp: load_state_def split: sum.splits prod.splits dest: classified_wf)

lemma wf_without [simp]: "wf_mappings ms \<Longrightarrow> wf_mappings (without_identities P ms)"
  by (auto simp: wf_mappings_def without_identities_def list_all_iff distinct_map inj_on_def)

lemma put_mapping_fst: "fst ` set (put_mapping ms i m) = insert i (fst ` set ms)"
  by (induction ms i m rule: put_mapping.induct) auto

lemma wf_put:
  "wf_mappings ms \<Longrightarrow> physical_identity i \<Longrightarrow> model_identity m = i \<Longrightarrow> wf_mappings (put_mapping ms i m)"
  by (induction ms i m rule: put_mapping.induct) (force simp: wf_mappings_def put_mapping_fst)+

lemma map_of_put: "map_of (put_mapping ms i m) j = (if j = i then Some m else map_of ms j)"
  by (induction ms i m rule: put_mapping.induct) auto

lemma map_of_without: "map_of (without_identities P ms) i = (if P i then None else map_of ms i)"
  by (induction ms) (auto simp: without_identities_def)

text \<open>The mappings a file means: the abstract store.\<close>

definition stored :: "mapping_env \<Rightarrow> mapping_file \<Rightarrow> identity \<Rightarrow> manual_mapping option" where
  "stored E f = (case load_state E f of Inl _ \<Rightarrow> (\<lambda>i. None) | Inr s \<Rightarrow> map_of (cs_mappings s))"

lemma commit_outcome:
  assumes wf: "wf_mappings ms" and env: "times_read_back E"
    and c: "commit_with E fate ms entry result st = (out, st')"
  shows "(fate = Committed \<longrightarrow> out = Inr result \<and> st_journal st' = st_journal st @ [entry]) \<and>
    (fate \<noteq> Committed \<longrightarrow> (\<exists>e. out = Inl e) \<and> st_journal st' = st_journal st) \<and>
    (case fate of Unreplaced _ \<Rightarrow> st_file st' = st_file st
     | _ \<Rightarrow> (\<exists>s. load_state E (st_file st') = Inr s \<and> cs_version s = 2 \<and>
         stored E (st_file st') = (\<lambda>i. map_option validated (map_of ms i))))"
proof -
  obtain v where v: "serialize_v2 E ms = Inr v" "load_state E (Json v) = Inr \<lparr>cs_version = 2,
      cs_rows = map mapping_row (file_order ms), cs_mappings = map (\<lambda>(i, m). (i, validated m)) (file_order ms)\<rparr>"
    using commit_read_back [OF wf env] by blast
  have "map_of (map (\<lambda>(i, m). (i, validated m)) (file_order ms)) = (\<lambda>i. map_option validated (map_of ms i))"
    using wf by (simp add: map_of_map map_of_file_order wf_mappings_def comp_def)
  then show ?thesis
    using c v by (cases fate) (auto simp: commit_with_def commit_v2_def stored_def)
qed

subsection \<open>Scoped reads of a committed file\<close>

lemma classify_rows_filter:
  "classify_rows version es = Some rows \<Longrightarrow>
   List.map_filter (\<lambda>(k, m). classify_row version k m) es = rows \<and>
   filter (\<lambda>(k, m). classify_row version k m = None) es = []"
  by (induction es arbitrary: rows) (auto simp: List.map_filter_simps split: option.splits)

lemma own_rows_agree:
  assumes "wf_mappings ms" "i \<in> fst ` set ms"
  shows "rows_agree E (rows_of i (map mapping_row ms))"
    "\<exists>m. rows_of i (map mapping_row ms) = [mapping_row (i, m)] \<and> (i, m) \<in> set ms"
proof -
  obtain m where m: "(i, m) \<in> set ms" using assms(2) by auto
  have r: "rows_of i (map mapping_row ms) = [mapping_row (i, m)]"
    using assms(1) m by (intro rows_of_mapping_rows) (simp_all add: wf_mappings_def)
  then show "rows_agree E (rows_of i (map mapping_row ms))" by (simp add: rows_agree_def)
  show "\<exists>m. rows_of i (map mapping_row ms) = [mapping_row (i, m)] \<and> (i, m) \<in> set ms" using r m by blast
qed

lemma snapshot_own:
  assumes "wf_mappings ms"
  shows "snapshot_of E 2 (map (\<lambda>(i, m). (encode_v2_key i, validated m)) ms) =
    \<lparr>sn_state = \<lparr>cs_version = 2, cs_rows = map mapping_row ms, cs_mappings = map (\<lambda>(i, m). (i, validated m)) ms\<rparr>,
     sn_invalid = [], sn_conflicting = []\<rparr>"
proof -
  have d: "distinct (map fst ms)" and own: "list_all (\<lambda>(i, m). physical_identity i \<and> model_identity m = i) ms"
    using assms by (simp_all add: wf_mappings_def)
  have ids: "row_identities (map mapping_row ms) = map fst ms"
    unfolding row_identities_def map_identity_rows using d by (rule firsts_distinct)
  have win: "cr_canonical (hd (sort_key_desc cr_key (rows_of i (map mapping_row ms)))) = validated m" if "(i, m) \<in> set ms" for i m
    using rows_of_mapping_rows [OF d that] by (simp add: sort_key_desc_def mapping_row_def)
  note f = classify_rows_filter [OF classify_own_rows [OF own], THEN conjunct1]
    classify_rows_filter [OF classify_own_rows [OF own], THEN conjunct2]
  have m: "map (\<lambda>i. (i, cr_canonical (hd (sort_key_desc cr_key (rows_of i (map mapping_row ms)))))) (map fst ms) =
      map (\<lambda>(i, m). (i, validated m)) ms"
    using win by auto
  have c: "filter (\<lambda>i. \<not> rows_agree E (rows_of i (map mapping_row ms))) (map fst ms) = []"
    using own_rows_agree(1) [OF assms] by (auto simp: filter_empty_conv)
  show ?thesis unfolding snapshot_of_def Let_def f ids m c ..
qed

lemma scoped_read_own:
  assumes wf: "wf_mappings ms" and env: "times_read_back E" and v: "serialize_v2 E ms = Inr v"
  shows "load_state_for_scope E (Json v) sys enc slot = load_state E (Json v)"
proof -
  have o: "list_all (\<lambda>(i, m). physical_identity i \<and> model_identity m = i) (file_order ms)"
    using wf_file_order [OF wf] by (simp add: wf_mappings_def)
  obtain v' where v': "serialize_v2 E ms = Inr v'" "load_state E (Json v') = Inr \<lparr>cs_version = 2,
    cs_rows = map mapping_row (file_order ms), cs_mappings = map (\<lambda>(i, m). (i, validated m)) (file_order ms)\<rparr>"
    using commit_read_back [OF wf env] by blast
  have doc: "read_document E True False (Json v) = Inr (2, map (\<lambda>(i, m). (encode_v2_key i, validated m)) (file_order ms))"
    using committed_document [OF wf env v] .
  have clash: "\<not> legacy_clash sys (filter P (map mapping_row (file_order ms)))" for P
    by (auto simp: legacy_clash_def list_ex_iff mapping_row_def)
  show ?thesis
    using v v' clash by (simp add: load_state_for_scope_def load_scoped_snapshot_def doc snapshot_own [OF wf_file_order [OF wf]] state_for_scope_def)
qed

subsection \<open>Properties of keys and saves\<close>

text \<open>Keys of version 2 are exact. A key decodes to an identity exactly when it is the key that identity
  encodes to and its enclosure is a physical one, so no two physical bays share a key and no alias of a drawer
  ever gets a key of its own.\<close>

theorem v2_key_exact:
  "decode_v2_key key = Some (sys, enc, slot) \<longleftrightarrow>
     key = encode_v2_key (sys, enc, slot) \<and> resolve_physical_mapping_scope enc = enc"
  by (simp add: decode_v2_key_iff physical_identity_def)

lemma first_mapping_simps [simp]:
  "first_mapping ms [] = None"
  "first_mapping ms (i # is) = (case map_of ms i of None \<Rightarrow> first_mapping ms is | Some m \<Rightarrow> Some m)"
  by (simp_all add: first_mapping_def List.map_filter_simps split: option.split)

lemma first_mapping_in: "first_mapping ms is = Some m \<Longrightarrow> \<exists>i\<in>set is. map_of ms i = Some m"
  by (induction "is") (auto split: option.splits)

lemma get_from_stored:
  assumes "load_state_for_scope E f sys enc (Some slot) = Inr s" "wf_mappings (cs_mappings s)"
  shows "get_mapping E f sys enc slot legacy FromFile =
    Inr (first_mapping (cs_mappings s) (query_identities sys (resolve_physical_mapping_scope enc) slot legacy))"
proof -
  have "canonical_mapping m = m" if m: "first_mapping (cs_mappings s) is = Some m" for m "is"
  proof -
    obtain i where "map_of (cs_mappings s) i = Some m" using first_mapping_in [OF m] by blast
    then have "(i, m) \<in> set (cs_mappings s)" by (rule map_of_SomeD)
    then show ?thesis using assms(2) by (auto simp: wf_mappings_def list_all_iff intro: canonical_own)
  qed
  then show ?thesis using assms(1) by (auto simp: get_mapping_def Let_def load_state_for_scope_def state_for_scope_def split: sum.splits if_splits intro: option.map_ident_strong)
qed

lemma canonical_identity: "physical_identity (model_identity (canonical_mapping m))"
  by (simp add: physical_identity_def model_identity_def canonical_mapping_def)

lemma commit_with_InrD:
  "commit_with E fate ms entry result st = (Inr x, st') \<Longrightarrow>
   fate = Committed \<and> x = result \<and> (\<exists>v. serialize_v2 E ms = Inr v \<and> st_file st' = Json v)"
  by (auto simp: commit_with_def commit_v2_def split: option.splits prod.splits sum.splits commit_fate.splits)

text \<open>What a successful call leaves, from the mappings it committed.\<close>

lemma committed_store:
  assumes "wf_mappings ms" "times_read_back E" "commit_with E fate ms entry result st = (Inr x, st')"
  shows "stored E (st_file st') = (\<lambda>i. map_option validated (map_of ms i))"
    and "get_mapping E (st_file st') sys enc slot legacy FromFile =
      Inr (first_mapping (map (\<lambda>(i, m). (i, validated m)) (file_order ms))
        (query_identities sys (resolve_physical_mapping_scope enc) slot legacy))"
proof -
  from commit_with_InrD [OF assms(3)] obtain v where v: "serialize_v2 E ms = Inr v" "st_file st' = Json v" "fate = Committed"
    by blast
  have load: "load_state E (Json v) = Inr \<lparr>cs_version = 2, cs_rows = map mapping_row (file_order ms),
      cs_mappings = map (\<lambda>(i, m). (i, validated m)) (file_order ms)\<rparr>"
    using commit_read_back [OF assms(1,2)] v(1) by auto
  show "stored E (st_file st') = (\<lambda>i. map_option validated (map_of ms i))"
    using commit_outcome [OF assms] v(3) by auto
  show "get_mapping E (st_file st') sys enc slot legacy FromFile =
      Inr (first_mapping (map (\<lambda>(i, m). (i, validated m)) (file_order ms))
        (query_identities sys (resolve_physical_mapping_scope enc) slot legacy))"
    using get_from_stored [of E "Json v" sys enc slot] scoped_read_own [OF assms(1,2) v(1)] load load_state_wf [OF load]
    by (simp add: v(2))
qed

lemma map_of_validated_order:
  "distinct (map fst ms) \<Longrightarrow> map_of (map (\<lambda>(i, m). (i, validated m)) (file_order ms)) i = map_option validated (map_of ms i)"
  by (simp add: map_of_map map_of_file_order comp_def)

lemma query_identities_head: "\<exists>rest. query_identities sys enc slot legacy = (sys, enc, slot) # rest"
proof -
  have "firsts (x # xs) = x # filter (\<lambda>y. y \<noteq> x) (firsts xs)" for x :: identity and xs
  proof -
    have "rev (remdups (ys @ [x])) = x # filter (\<lambda>y. y \<noteq> x) (rev (remdups ys))" for ys :: "identity list"
      by (induction ys) (auto simp: filter_id_conv)
    then show ?thesis by (simp add: firsts_def)
  qed
  then show ?thesis by (simp add: query_identities_def)
qed

text \<open>C16: A save is one update of the abstract store. After a committed save the mappings of the file are those
  before it, without any row a read of the bay could fall back to, and with the saved mapping under its own
  identity; reading the bay back under the spelling it was saved with returns the saved mapping, its texts as
  the validator reads them, with or without the legacy fallback.\<close>

theorem save_mapping_refines:
  assumes "times_read_back E" "save_mapping E fate m expected st = (Inr saved, st')"
  shows "saved = (canonical_mapping m)\<lparr>mm_updated_at := me_now E\<rparr> \<and>
    stored E (st_file st') = (\<lambda>i. map_option validated
      (if i = model_identity saved then Some saved
       else if i \<in> set (query_identities (mm_system_id saved) (mm_enclosure_id saved) (mm_slot saved) True) then None
       else stored E (st_file st) i)) \<and>
    get_mapping E (st_file st') (mm_system_id m) (mm_enclosure_id m) (mm_slot m) legacy FromFile = Inr (Some (validated saved))"
proof -
  let ?c = "canonical_mapping m" let ?saved = "?c\<lparr>mm_updated_at := me_now E\<rparr>"
  obtain s where s: "load_state E (st_file st) = Inr s" using assms(2) by (auto simp: save_mapping_def split: sum.splits)
  let ?kept = "without_identities (resolvable_identity_selected (mm_system_id ?c) (mm_enclosure_id ?c) (mm_slot ?c)) (cs_mappings s)"
  let ?ms = "put_mapping ?kept (model_identity ?saved) ?saved"
  have c: "commit_with E fate ?ms (''mapping.save'', bay_subject (model_identity ?saved)) ?saved st = (Inr saved, st')"
    using assms(2) s by (auto simp: save_mapping_def Let_def split: if_splits)
  have i: "model_identity ?saved = model_identity ?c" by (simp add: model_identity_def)
  have wf: "wf_mappings ?ms"
    using load_state_wf [OF s] canonical_identity [of m] by (intro wf_put wf_without) (simp_all add: i)
  have saved: "saved = ?saved" using commit_with_InrD [OF c] by simp
  have fields: "mm_system_id ?saved = mm_system_id m" "mm_slot ?saved = mm_slot m"
    "mm_enclosure_id ?saved = resolve_physical_mapping_scope (mm_enclosure_id m)"
    by (simp_all add: canonical_mapping_def)
  have abs: "stored E (st_file st') = (\<lambda>i. map_option validated
      (if i = model_identity saved then Some saved
       else if i \<in> set (query_identities (mm_system_id saved) (mm_enclosure_id saved) (mm_slot saved) True) then None
       else stored E (st_file st) i))"
    unfolding committed_store(1) [OF wf assms(1) c]
    by (auto simp: fun_eq_iff map_of_put map_of_without saved stored_def s resolvable_identity_selected_def)
  obtain rest where q: "query_identities (mm_system_id m) (resolve_physical_mapping_scope (mm_enclosure_id m)) (mm_slot m) legacy =
      model_identity ?saved # rest"
    using query_identities_head fields by (metis model_identity_def)
  have "get_mapping E (st_file st') (mm_system_id m) (mm_enclosure_id m) (mm_slot m) legacy FromFile = Inr (Some (validated saved))"
    using wf unfolding committed_store(2) [OF wf assms(1) c] q
    by (simp add: map_of_validated_order wf_mappings_def map_of_put saved)
  then show ?thesis using saved abs by blast
qed

subsection \<open>Revisions decide writes\<close>

definition rows_classified :: "classified_store \<Rightarrow> bool" where
  "rows_classified s \<longleftrightarrow> (\<forall>r\<in>set (cs_rows s). classify_row (cs_version s) (cr_key r) (cr_stored r) = Some r)"

text \<open>The mapping of an identity agrees with every row of it.\<close>

definition mapping_agrees :: "classified_store \<Rightarrow> identity \<Rightarrow> bool" where
  "mapping_agrees s i \<longleftrightarrow> (case map_of (cs_mappings s) i of
     None \<Rightarrow> rows_of i (cs_rows s) = []
   | Some m \<Rightarrow> rows_of i (cs_rows s) \<noteq> [] \<and>
       (\<forall>r\<in>set (rows_of i (cs_rows s)). semantic_mapping (cr_canonical r) = semantic_mapping m))"

lemma classify_row_again: "classify_row version k m = Some r \<Longrightarrow> classify_row version (cr_key r) (cr_stored r) = Some r"
  by (frule classify_row_sound) simp

lemma classify_rows_classified:
  "classify_rows version es = Some rows \<Longrightarrow> \<forall>r\<in>set rows. classify_row version (cr_key r) (cr_stored r) = Some r"
proof (induction es arbitrary: rows)
  case (Cons x es)
  obtain k m where x: "x = (k, m)" by (cases x)
  show ?case using Cons by (auto simp: x split: option.splits intro: classify_row_again)
qed simp

lemma opt_str_inj [simp]: "opt_str v = opt_str w \<longleftrightarrow> v = w"
  by (auto simp: opt_str_def split: option.splits)

lemma semantic_payload_inj: "semantic_payload m = semantic_payload n \<longleftrightarrow> semantic_mapping m = semantic_mapping n"
  by (auto simp: semantic_payload_def split: prod.splits)

lemma rows_agree_same:
  assumes "inj (me_digest E)" "rows_agree E rows" "r \<in> set rows" "r' \<in> set rows"
  shows "semantic_mapping (cr_canonical r) = semantic_mapping (cr_canonical r')"
proof -
  let ?D = "\<lambda>r. me_digest E (semantic_payload (cr_canonical r))"
  have "card (?D ` set rows) = 1"
    using assms(2) by (simp add: rows_agree_def length_remdups_card_conv)
  then obtain d where "?D ` set rows = {d}" by (auto simp: card_1_singleton_iff)
  then have "?D r = ?D r'" using assms(3,4) by (metis image_eqI singletonD)
  then show ?thesis using assms(1) by (simp add: inj_eq semantic_payload_inj)
qed

lemma map_of_identities: "map_of (map (\<lambda>i. (i, g i)) is) i = (if i \<in> set is then Some (g i) else None)"
  by (induction "is") auto

lemma in_row_identities: "i \<in> set (row_identities rows) \<longleftrightarrow> rows_of i rows \<noteq> []"
  by (force simp: row_identities_def rows_of_def filter_empty_conv)

lemma chosen_agrees:
  assumes "inj (me_digest E)" "rows_agree E (rows_of i rows) \<or> rows_of i rows = []"
    and "\<And>i. rows_of i rows \<noteq> [] \<Longrightarrow> pick i (rows_of i rows) \<in> set (rows_of i rows)"
  shows "mapping_agrees \<lparr>cs_version = v, cs_rows = rows,
    cs_mappings = map (\<lambda>i. (i, cr_canonical (pick i (rows_of i rows)))) (row_identities rows)\<rparr> i"
proof (cases "rows_of i rows = []")
  case True
  then show ?thesis by (simp add: mapping_agrees_def map_of_identities in_row_identities)
next
  case False
  then have "rows_agree E (rows_of i rows)" "pick i (rows_of i rows) \<in> set (rows_of i rows)" using assms(2,3) by auto
  then have "semantic_mapping (cr_canonical r) = semantic_mapping (cr_canonical (pick i (rows_of i rows)))"
    if "r \<in> set (rows_of i rows)" for r
    using rows_agree_same [OF assms(1)] that by blast
  then show ?thesis using False by (simp add: mapping_agrees_def map_of_identities in_row_identities)
qed

lemma classified_agrees:
  assumes "inj (me_digest E)" "classify_entries E version es = Inr s"
  shows "rows_classified s \<and> mapping_agrees s i"
proof -
  from assms(2) obtain rows where rows: "classify_rows version es = Some rows"
    "list_all (\<lambda>i. rows_agree E (rows_of i rows)) (row_identities rows)"
    and s: "s = \<lparr>cs_version = version, cs_rows = rows,
      cs_mappings = map (\<lambda>i. (i, cr_canonical (winner i (rows_of i rows)))) (row_identities rows)\<rparr>"
    by (auto simp: classify_entries_def split: option.splits if_splits)
  have "rows_agree E (rows_of i rows) \<or> rows_of i rows = []"
    using rows(2) in_row_identities [of i rows] by (auto simp: list_all_iff)
  then have "mapping_agrees s i"
    unfolding s by (intro chosen_agrees [OF assms(1)] winner_in)
  then show ?thesis using classify_rows_classified [OF rows(1)] by (simp add: s rows_classified_def)
qed

lemma scoped_agrees:
  assumes "inj (me_digest E)" "load_state_for_scope E f sys enc (Some slot) = Inr s"
    and i: "i \<in> set (query_identities sys (resolve_physical_mapping_scope enc) slot True)"
  shows "rows_classified s \<and> mapping_agrees s i"
proof -
  obtain version es where doc: "read_document E True False f = Inr (version, es)"
    and scope: "state_for_scope (snapshot_of E version es) sys enc (Some slot) = Inr s"
    using assms(2) by (auto simp: load_state_for_scope_def load_scoped_snapshot_def split: sum.splits)
  let ?rows = "List.map_filter (\<lambda>(k, m). classify_row version k m) es"
  have s: "s = \<lparr>cs_version = version, cs_rows = ?rows,
      cs_mappings = map (\<lambda>i. (i, cr_canonical (hd (sort_key_desc cr_key (rows_of i ?rows))))) (row_identities ?rows)\<rparr>"
    and free: "\<not> list_ex (\<lambda>i. identity_matches_system i sys \<and> fits_slot (Some slot) (snd (snd i)) \<and>
      (resolve_physical_mapping_scope enc = None \<or> fst (snd i) = None \<or> fst (snd i) = resolve_physical_mapping_scope enc))
      (filter (\<lambda>i. \<not> rows_agree E (rows_of i ?rows)) (row_identities ?rows))"
    using scope by (auto simp: state_for_scope_def snapshot_of_def Let_def split: if_splits)
  have "identity_matches_system i sys \<and> fits_slot (Some slot) (snd (snd i)) \<and>
      (fst (snd i) = None \<or> fst (snd i) = resolve_physical_mapping_scope enc)"
    using i by (auto simp: query_identities_def identity_matches_system_def fits_slot_def)
  then have "i \<notin> set (filter (\<lambda>i. \<not> rows_agree E (rows_of i ?rows)) (row_identities ?rows))"
    using free unfolding list_ex_iff by blast
  then have "rows_agree E (rows_of i ?rows) \<or> rows_of i ?rows = []"
    using in_row_identities [of i ?rows] unfolding set_filter by blast
  then have "mapping_agrees s i"
    unfolding s by (intro chosen_agrees [OF assms(1), where pick = "\<lambda>i rs. hd (sort_key_desc cr_key rs)"])
      (metis hd_in_set set_sort_key_desc sort_key_desc_eq_Nil)+
  then show ?thesis
    by (auto simp: s rows_classified_def in_set_map_filter intro: classify_row_again)
qed

lemma row_payload_inj:
  assumes "times_read_back E" "classify_row v (cr_key r) (cr_stored r) = Some r" "classify_row v (cr_key r') (cr_stored r') = Some r'"
    and "row_payload E r = row_payload E r'"
  shows "r = r'"
proof -
  have time: "me_time E t = me_time E t' \<longleftrightarrow> t = t'" for t t'
    using assms(1) by (metis option.inject times_read_back_def)
  have "cr_key r = cr_key r'" "dump_model E (cr_stored r) = dump_model E (cr_stored r')"
    using assms(4) by (auto simp: row_payload_def split: prod.splits)
  moreover from this(2) have "cr_stored r = cr_stored r'"
    by (cases "cr_stored r"; cases "cr_stored r'") (simp add: dump_model_def time)
  ultimately show ?thesis using assms(2,3) by (metis option.inject)
qed

lemma save_revision_rows:
  assumes E: "inj (me_digest E)" "times_read_back E" and s: "rows_classified s1" "rows_classified s2"
    and rev: "save_revision_of E s1 sys enc1 slot = save_revision_of E s2 sys enc2 slot"
    and enc: "resolve_physical_mapping_scope enc1 = enc" "resolve_physical_mapping_scope enc2 = enc"
  shows "cs_version s1 = cs_version s2 \<and>
    (\<forall>i. import_identity_selected sys enc i \<or> resolvable_identity_selected sys enc slot i \<longrightarrow>
      set (rows_of i (cs_rows s1)) = set (rows_of i (cs_rows s2)))"
proof -
  have enc': "resolve_physical_mapping_scope enc = enc" using enc(1) resolve_again by metis
  let ?R = "\<lambda>P s. filter (\<lambda>r. P (cr_identity r)) (sort_key cr_key (cs_rows s))"
  have v: "cs_version s1 = cs_version s2"
    and m: "rows_matching E s1 (resolvable_identity_selected sys enc slot) = rows_matching E s2 (resolvable_identity_selected sys enc slot)"
      "rows_matching E s1 (import_identity_selected sys enc) = rows_matching E s2 (import_identity_selected sys enc)"
    using rev E(1) by (simp_all add: save_revision_of_def resolvable_revision_of_def scope_revision_of_def Let_def enc enc' inj_eq)
  have rows: "set (rows_of i (cs_rows s1)) = set (rows_of i (cs_rows s2))"
    if "rows_matching E s1 P = rows_matching E s2 P" "P i" for P i
  proof -
    have "map (row_payload E) (?R P s1) = map (row_payload E) (?R P s2)" using that(1) by (simp add: rows_matching_def)
    moreover have "inj_on (row_payload E) (set (?R P s1) \<union> set (?R P s2))"
      using s v by (intro inj_onI row_payload_inj [OF E(2), where v = "cs_version s2"]) (auto simp: rows_classified_def)
    ultimately have "?R P s1 = ?R P s2" by (rule map_inj_on)
    then have "set (?R P s1) = set (?R P s2)" by simp
    then show ?thesis using that(2) unfolding rows_of_def set_filter set_sort by blast
  qed
  show ?thesis using v rows[OF m(1)] rows[OF m(2)] by blast
qed

lemma first_mapping_semantics:
  assumes "\<And>i. i \<in> set is \<Longrightarrow> mapping_agrees s1 i \<and> mapping_agrees s2 i \<and> set (rows_of i (cs_rows s1)) = set (rows_of i (cs_rows s2))"
  shows "map_option semantic_mapping (first_mapping (cs_mappings s1) is) =
    map_option semantic_mapping (first_mapping (cs_mappings s2) is)"
  using assms
proof (induction "is")
  case (Cons i "is")
  have "map_option semantic_mapping (map_of (cs_mappings s1) i) = map_option semantic_mapping (map_of (cs_mappings s2) i)"
    using Cons.prems [of i] by (auto simp: mapping_agrees_def split: option.splits)
  then show ?case using Cons by (auto split: option.splits)
qed simp

lemma save_revision_of_now [simp]: "save_revision_of (E\<lparr>me_now := t\<rparr>) = save_revision_of E"
  by (intro ext) (simp add: save_revision_of_def scope_revision_of_def resolvable_revision_of_def rows_matching_def
      row_payload_def dump_model_def Let_def cong: map_cong)

lemma times_read_back_now [simp]: "times_read_back (E\<lparr>me_now := t\<rparr>) = times_read_back E"
  by (simp add: times_read_back_def)


subsection \<open>Imports and replacements\<close>

definition scoped_mapping :: "string option \<Rightarrow> string option \<Rightarrow> manual_mapping \<Rightarrow> manual_mapping" where
  "scoped_mapping sys enc m = m\<lparr>mm_system_id := sys, mm_enclosure_id :=
     (if enc \<noteq> None then enc else resolve_physical_mapping_scope (mm_enclosure_id m))\<rparr>"

lemma normalize_incoming_from_ok:
  "normalize_incoming_from sys enc acc ms = Inr inc \<Longrightarrow> distinct (map fst acc) \<Longrightarrow>
   inc = acc @ map (\<lambda>m. (snd (model_identity (scoped_mapping sys enc m)), scoped_mapping sys enc m)) ms \<and>
   distinct (map fst inc)"
proof (induction ms arbitrary: acc)
  case (Cons m ms)
  let ?c = "scoped_mapping sys enc m" let ?x = "((mm_enclosure_id ?c, mm_slot ?c), ?c)"
  have new: "fst ?x \<notin> fst ` set acc" and rest: "normalize_incoming_from sys enc (acc @ [?x]) ms = Inr inc"
    using Cons.prems(1) by (simp_all add: scoped_mapping_def Let_def split: if_split_asm)
  have "distinct (map fst (acc @ [?x]))" using new Cons.prems(2) by simp
  from Cons.IH [OF rest this] have inc: "inc = (acc @ [?x]) @ map (\<lambda>m. (snd (model_identity (scoped_mapping sys enc m)), scoped_mapping sys enc m)) ms"
    and dist: "distinct (map fst inc)" by blast+
  from dist show ?case by (intro conjI) (simp_all only: inc, simp_all add: model_identity_def)
qed simp

lemma normalize_incoming_ok:
  assumes "normalize_incoming sys enclosure ms = Inr inc"
  shows "inc = map (\<lambda>m. (snd (model_identity (scoped_mapping sys (resolve_physical_mapping_scope enclosure) m)),
      scoped_mapping sys (resolve_physical_mapping_scope enclosure) m)) ms \<and> distinct (map fst inc)"
proof -
  have "distinct (map fst ([] :: (scope_identity \<times> manual_mapping) list))" by simp
  from normalize_incoming_from_ok [OF assms [unfolded normalize_incoming_def] this] show ?thesis
    unfolding append_Nil .
qed

lemma scoped_identity:
  "model_identity (scoped_mapping sys (resolve_physical_mapping_scope e) m) =
     (sys, snd (model_identity (scoped_mapping sys (resolve_physical_mapping_scope e) m)))"
  "physical_identity (model_identity (scoped_mapping sys (resolve_physical_mapping_scope e) m))"
  by (simp_all add: scoped_mapping_def model_identity_def physical_identity_def)

lemma put_all_step:
  "put_all t (inc @ [m]) ms = put_mapping (put_all t inc ms) (model_identity m) (m\<lparr>mm_updated_at := t\<rparr>)"
  by (simp add: put_all_def Let_def model_identity_def)

lemma put_all_ok:
  assumes "wf_mappings ms" "\<forall>m\<in>set inc. physical_identity (model_identity m)"
  shows "wf_mappings (put_all t inc ms)"
  using assms(2)
proof (induction inc rule: rev_induct)
  case Nil
  then show ?case using assms(1) by (simp add: put_all_def)
next
  case (snoc m inc)
  then show ?case unfolding put_all_step by (intro wf_put) (auto simp: model_identity_def)
qed

lemma map_of_put_all:
  assumes "\<forall>m\<in>set inc. model_identity m = (sys, snd (model_identity m))"
    and "distinct (map (snd \<circ> model_identity) inc)"
  shows "map_of (put_all t inc ms) i =
    (case (if fst i = sys then map_of (map (\<lambda>m. (snd (model_identity m), m)) inc) (snd i) else None) of
       Some m \<Rightarrow> Some (m\<lparr>mm_updated_at := t\<rparr>) | None \<Rightarrow> map_of ms i)"
  using assms
proof (induction inc rule: rev_induct)
  case Nil
  then show ?case by (simp add: put_all_def)
next
  case (snoc m inc)
  let ?k = "snd (model_identity m)"
  have id: "model_identity m = (sys, ?k)" using snoc.prems(1) by simp
  have new: "map_of (map (\<lambda>m. (snd (model_identity m), m)) inc) ?k = None"
    using snoc.prems(2) by (auto simp: map_of_eq_None_iff)
  have i: "i = model_identity m \<longleftrightarrow> fst i = sys \<and> snd i = ?k" by (metis fst_conv id prod.collapse)
  show ?case
    unfolding put_all_step map_of_put using snoc new i by (auto simp: map_add_def split: option.split)
qed

text \<open>What a committed replacement of the selected identities leaves.\<close>

lemma replaced_store:
  assumes s: "load_state E (st_file st) = Inr s" and env: "times_read_back E"
    and inc: "normalize_incoming sys enclosure ms = Inr inc"
    and c: "commit_with E fate (put_all (me_now E) (map snd inc) (without_identities P (cs_mappings s))) entry result st = (Inr x, st')"
    and own: "\<And>m. m \<in> set (map snd inc) \<Longrightarrow> P (model_identity m)"
  shows "stored E (st_file st') = (\<lambda>i. map_option validated
    (if P i then (if fst i = sys then map_option (\<lambda>m. m\<lparr>mm_updated_at := me_now E\<rparr>) (map_of inc (snd i)) else None)
     else stored E (st_file st) i))"
proof -
  let ?ms = "put_all (me_now E) (map snd inc) (without_identities P (cs_mappings s))"
  note ok = normalize_incoming_ok [OF inc]
  have pair: "inc = map (\<lambda>m. (snd (model_identity m), m)) (map snd inc)" using ok by (auto simp: comp_def)
  have ids: "\<forall>m\<in>set (map snd inc). model_identity m = (sys, snd (model_identity m)) \<and> physical_identity (model_identity m)"
    using ok scoped_identity by auto
  then have ids': "\<forall>m\<in>set (map snd inc). model_identity m = (sys, snd (model_identity m))" by blast
  have "map fst inc = map (snd \<circ> model_identity) (map snd inc)" by (subst pair) (simp add: comp_def)
  then have dist: "distinct (map (snd \<circ> model_identity) (map snd inc))" using ok by metis
  have wf: "wf_mappings ?ms" using ids load_state_wf [OF s] by (intro put_all_ok wf_without) auto
  have new: "P i" if "fst i = sys" "map_of inc (snd i) = Some m" for i m
  proof -
    have "(snd i, m) \<in> set inc" using that(2) by (rule map_of_SomeD)
    then have "m \<in> set (map snd inc)" "snd (model_identity m) = snd i" using ok by force+
    then have "model_identity m = i" using ids that(1) by (metis prod.collapse)
    then show ?thesis using own [OF \<open>m \<in> set (map snd inc)\<close>] by simp
  qed
  have "map_of ?ms i = (if P i then (if fst i = sys then map_option (\<lambda>m. m\<lparr>mm_updated_at := me_now E\<rparr>) (map_of inc (snd i)) else None)
      else map_of (cs_mappings s) i)" for i
    unfolding map_of_put_all [OF ids' dist] pair [symmetric]
    using new [of i] by (auto simp: map_of_without split: option.split)
  then show ?thesis unfolding committed_store(1) [OF wf env c] by (auto simp: fun_eq_iff stored_def s)
qed

text \<open>What a preview shows of a mapping, and of the change of one into another.\<close>

definition shown :: "manual_mapping \<Rightarrow> string \<Rightarrow> string option option" where
  "shown m = [''device_name'' \<mapsto> mm_device_name m, ''gptid'' \<mapsto> mm_gptid m, ''notes'' \<mapsto> mm_notes m, ''serial'' \<mapsto> mm_serial m]"

definition shown_changes :: "manual_mapping \<Rightarrow> manual_mapping \<Rightarrow> (string \<times> string option \<times> string option) set" where
  "shown_changes before after = {(field, x, y). shown before field = Some x \<and> shown after field = Some y \<and> x \<noteq> y}"

lemma map_of_values: "map_of (mapping_values m) = shown m"
  by (rule ext) (simp add: mapping_values_def shown_def)

lemma value_changes_fields: "value_changes a b = filter (\<lambda>(field, x, y). x \<noteq> y)
    [(''device_name'', mm_device_name a, mm_device_name b), (''gptid'', mm_gptid a, mm_gptid b), (''notes'', mm_notes a, mm_notes b),
     (''serial'', mm_serial a, mm_serial b)]"
  by (simp add: value_changes_def mapping_values_def map_filter_simps)

lemma set_value_changes: "set (value_changes a b) = shown_changes a b"
  unfolding value_changes_fields by (auto simp: shown_changes_def shown_def split: if_splits)

lemma image_map_filter: "g ` set (List.map_filter f ks) = {g y |y k. k \<in> set ks \<and> f k = Some y}"
  unfolding image_def Bex_def in_set_map_filter by blast

lemma preview_exact:
  assumes "preview_from_state E s sys enclosure ms = Inr (p, incoming)"
    and old: "old = map_of (scope_entries s sys enclosure)" and new: "new = map_of incoming"
  shows "(\<lambda>(k, vs). (k, map_of vs)) ` set (pv_additions p) = {(k, shown m) |k m. old k = None \<and> new k = Some m}"
    and "(\<lambda>(k, vs). (k, map_of vs)) ` set (pv_removals p) = {(k, shown m) |k m. old k = Some m \<and> new k = None}"
    and "(\<lambda>(k, cs). (k, set cs)) ` set (pv_updates p) =
      {(k, shown_changes a b) |k a b. old k = Some a \<and> new k = Some b \<and> semantic_mapping a \<noteq> semantic_mapping b}"
    and "set (pv_unchanged p) = {k. \<exists>a b. old k = Some a \<and> new k = Some b \<and> semantic_mapping a = semantic_mapping b}"
proof -
  let ?current = "scope_entries s sys (resolve_physical_mapping_scope enclosure)"
  define ids where "ids = sort_key scope_key (remdups (map fst ?current @ map fst incoming))"
  have scope: "map_of ?current = old" using old by (simp add: scope_entries_def Let_def)
  have "set ids = dom old \<union> dom new"
    by (simp add: ids_def new dom_map_of_conv_image_fst flip: scope)
  then have ids: "k \<in> set ids \<longleftrightarrow> old k \<noteq> None \<or> new k \<noteq> None" for k by auto
  have norm: "normalize_incoming sys (resolve_physical_mapping_scope enclosure) ms = Inr incoming"
    using assms(1) by (simp add: preview_from_state_def Let_def split: sum.splits)
  note eq = assms(1) [unfolded preview_from_state_def Let_def norm sum.case scope ids_def [symmetric] new [symmetric]
      sum.inject prod.inject, THEN conjunct1]
  have parts: "pv_additions p = List.map_filter (\<lambda>k. case (old k, new k) of
        (None, Some m) \<Rightarrow> Some (k, mapping_values m) | _ \<Rightarrow> None) ids"
    "pv_removals p = List.map_filter (\<lambda>k. case (old k, new k) of
        (Some a, None) \<Rightarrow> Some (k, mapping_values a) | _ \<Rightarrow> None) ids"
    "pv_updates p = List.map_filter (\<lambda>k. case (old k, new k) of
        (Some a, Some b) \<Rightarrow> if semantic_mapping a = semantic_mapping b then None else Some (k, value_changes a b)
        | _ \<Rightarrow> None) ids"
    "pv_unchanged p = List.map_filter (\<lambda>k. case (old k, new k) of
        (Some a, Some b) \<Rightarrow> if semantic_mapping a = semantic_mapping b then Some k else None | _ \<Rightarrow> None) ids"
    unfolding eq [symmetric] mapping_preview.simps by (rule refl)+
  show "(\<lambda>(k, vs). (k, map_of vs)) ` set (pv_additions p) = {(k, shown m) |k m. old k = None \<and> new k = Some m}"
    unfolding parts(1) image_map_filter ids by (force simp: map_of_values split: option.splits)
  show "(\<lambda>(k, vs). (k, map_of vs)) ` set (pv_removals p) = {(k, shown m) |k m. old k = Some m \<and> new k = None}"
    unfolding parts(2) image_map_filter ids by (force simp: map_of_values split: option.splits)
  show "(\<lambda>(k, cs). (k, set cs)) ` set (pv_updates p) =
      {(k, shown_changes a b) |k a b. old k = Some a \<and> new k = Some b \<and> semantic_mapping a \<noteq> semantic_mapping b}"
    unfolding parts(3) image_map_filter ids by (force simp: set_value_changes split: option.splits if_splits)
  have "(\<lambda>k. k) ` set (pv_unchanged p) = {k. \<exists>a b. old k = Some a \<and> new k = Some b \<and> semantic_mapping a = semantic_mapping b}"
    unfolding parts(4) image_map_filter ids by (force split: option.splits if_splits)
  then show "set (pv_unchanged p) = {k. \<exists>a b. old k = Some a \<and> new k = Some b \<and> semantic_mapping a = semantic_mapping b}"
    by simp
qed

text \<open>C15: An import does what its preview said. When an import is applied, the preview computed from the present
  file carries the confirmed revision and digest; its additions, updates, removals and unchanged bays are
  exactly the differences between the mappings of the scope and the incoming ones, with the values that go and come:
  an addition shows the values that are stored, a removal those that were, an update each value that changes, from what
  it was to what it becomes; afterwards the selected
  identities hold exactly the incoming mappings and no other identity has changed.\<close>

theorem import_applies_preview:
  assumes "times_read_back E"
    and "apply_mapping_import E fate sys enclosure ms expected digest st = (Inr r, st')"
  shows "\<exists>s incoming. load_state E (st_file st) = Inr s \<and>
    incoming = map (\<lambda>m. (snd (model_identity m), m)) (map (scoped_mapping sys (resolve_physical_mapping_scope enclosure)) ms) \<and>
    distinct (map fst incoming) \<and> ir_saved_count r = length ms \<and>
    pv_revision (ir_preview r) = expected \<and> pv_revision (ir_preview r) = scope_revision_of E s sys enclosure \<and>
    pv_import_digest (ir_preview r) = digest \<and>
    (let old = map_of (scope_entries s sys enclosure); new = map_of incoming; p = ir_preview r
     in (\<lambda>(k, vs). (k, map_of vs)) ` set (pv_additions p) = {(k, shown m) |k m. old k = None \<and> new k = Some m} \<and>
        (\<lambda>(k, vs). (k, map_of vs)) ` set (pv_removals p) = {(k, shown m) |k m. old k = Some m \<and> new k = None} \<and>
        (\<lambda>(k, cs). (k, set cs)) ` set (pv_updates p) =
          {(k, shown_changes a b) |k a b. old k = Some a \<and> new k = Some b \<and> semantic_mapping a \<noteq> semantic_mapping b} \<and>
        set (pv_unchanged p) = {k. \<exists>a b. old k = Some a \<and> new k = Some b \<and> semantic_mapping a = semantic_mapping b}) \<and>
    stored E (st_file st') = (\<lambda>i. map_option validated
      (if import_identity_selected sys (resolve_physical_mapping_scope enclosure) i
       then (if fst i = sys then map_option (\<lambda>m. m\<lparr>mm_updated_at := me_now E\<rparr>) (map_of incoming (snd i)) else None)
       else stored E (st_file st) i))"
proof -
  let ?enc = "resolve_physical_mapping_scope enclosure"
  obtain s where s: "load_state E (st_file st) = Inr s"
    using assms(2) by (auto simp: apply_mapping_import_def split: sum.splits)
  obtain p inc where p: "preview_from_state E s sys ?enc ms = Inr (p, inc)"
    using assms(2) s by (auto simp: apply_mapping_import_def Let_def split: sum.splits)
  let ?c = "commit_with E fate (put_all (me_now E) (map snd inc)
      (without_identities (import_identity_selected sys ?enc) (cs_mappings s))) (''mapping.import'', scope_subject sys ?enc) () st"
  have same: "preview_from_state E s sys ?enc ms = preview_from_state E s sys enclosure ms"
    by (simp add: preview_from_state_def Let_def)
  have rev: "pv_revision p = scope_revision_of E s sys enclosure" and norm: "normalize_incoming sys enclosure ms = Inr inc"
    using p by (auto simp: preview_from_state_def Let_def scope_revision_of_def normalize_incoming_def split: sum.splits)
  have r: "pv_revision p = expected" "pv_import_digest p = digest" "ir_saved_count r = length inc" "ir_preview r = p" "?c = (Inr (), st')"
    using assms(2) s p
    by (auto simp: apply_mapping_import_def Let_def split: sum.splits prod.splits if_splits)
  note ok = normalize_incoming_ok [OF norm]
  have inc: "inc = map (\<lambda>m. (snd (model_identity m), m)) (map (scoped_mapping sys ?enc) ms)"
    using ok by (simp add: comp_def)
  have own: "import_identity_selected sys ?enc (model_identity m)" if "m \<in> set (map snd inc)" for m
    using that by (cases ?enc) (auto simp: inc import_identity_selected_def identity_matches_system_def model_identity_def scoped_mapping_def)
  have "length inc = length ms" using inc by (metis length_map)
  then have saved: "ir_saved_count r = length ms" using r(3) by simp
  show ?thesis
    unfolding Let_def
  proof (intro exI conjI)
    show "load_state E (st_file st) = Inr s" by (rule s)
    show "inc = map (\<lambda>m. (snd (model_identity m), m)) (map (scoped_mapping sys ?enc) ms)" by (rule inc)
    show "distinct (map fst inc)" using ok by blast
    show "ir_saved_count r = length ms" by (rule saved)
    show "pv_revision (ir_preview r) = expected" "pv_import_digest (ir_preview r) = digest"
      "pv_revision (ir_preview r) = scope_revision_of E s sys enclosure" using r rev by simp_all
    note exact = preview_exact [OF p [unfolded same] refl refl, folded r(4)]
    show "(\<lambda>(k, vs). (k, map_of vs)) ` set (pv_additions (ir_preview r)) =
        {(k, shown m) |k m. map_of (scope_entries s sys enclosure) k = None \<and> map_of inc k = Some m}" by (rule exact(1))
    show "(\<lambda>(k, vs). (k, map_of vs)) ` set (pv_removals (ir_preview r)) =
        {(k, shown m) |k m. map_of (scope_entries s sys enclosure) k = Some m \<and> map_of inc k = None}" by (rule exact(2))
    show "(\<lambda>(k, cs). (k, set cs)) ` set (pv_updates (ir_preview r)) =
        {(k, shown_changes a b) |k a b. map_of (scope_entries s sys enclosure) k = Some a \<and> map_of inc k = Some b \<and>
          semantic_mapping a \<noteq> semantic_mapping b}" by (rule exact(3))
    show "set (pv_unchanged (ir_preview r)) = {k. \<exists>a b. map_of (scope_entries s sys enclosure) k = Some a \<and>
        map_of inc k = Some b \<and> semantic_mapping a = semantic_mapping b}" by (rule exact(4))
    show "stored E (st_file st') = (\<lambda>i. map_option validated (if import_identity_selected sys ?enc i
        then (if fst i = sys then map_option (\<lambda>m. m\<lparr>mm_updated_at := me_now E\<rparr>) (map_of inc (snd i)) else None)
        else stored E (st_file st) i))"
      by (rule replaced_store [OF s assms(1) norm r(5) own])
  qed
qed

text \<open>A replacement without a confirmed preview also takes the rows of the system that name no enclosure.\<close>

lemma replace_mappings_exact:
  assumes "times_read_back E" "replace_mappings E fate sys enclosure ms st = (Inr n, st')"
  shows "\<exists>incoming. normalize_incoming sys enclosure ms = Inr incoming \<and> n = length ms \<and>
    stored E (st_file st') = (\<lambda>i. map_option validated
      (if replace_identity_selected sys (resolve_physical_mapping_scope enclosure) i
       then (if fst i = sys then map_option (\<lambda>m. m\<lparr>mm_updated_at := me_now E\<rparr>) (map_of incoming (snd i)) else None)
       else stored E (st_file st) i))"
proof -
  let ?enc = "resolve_physical_mapping_scope enclosure"
  obtain s where s: "load_state E (st_file st) = Inr s"
    using assms(2) by (auto simp: replace_mappings_def split: sum.splits)
  obtain inc where inc: "normalize_incoming sys ?enc ms = Inr inc"
    using assms(2) s by (auto simp: replace_mappings_def Let_def split: sum.splits)
  then have norm: "normalize_incoming sys enclosure ms = Inr inc" by (simp add: normalize_incoming_def)
  have c: "commit_with E fate (put_all (me_now E) (map snd inc) (without_identities (replace_identity_selected sys ?enc) (cs_mappings s)))
      (''mapping.replace'', scope_subject sys ?enc) (length inc) st = (Inr n, st')"
    using assms(2) s inc by (simp add: replace_mappings_def Let_def)
  note ok = normalize_incoming_ok [OF norm]
  have own: "replace_identity_selected sys ?enc (model_identity m)" if "m \<in> set (map snd inc)" for m
  proof -
    have "snd ` set inc = scoped_mapping sys ?enc ` set ms" using ok by (simp add: image_image)
    with that show ?thesis
      by (cases ?enc) (auto simp: replace_identity_selected_def identity_matches_system_def model_identity_def scoped_mapping_def)
  qed
  have "n = length inc" using commit_with_InrD [OF c] by simp
  moreover have "length inc = length ms" using ok by (metis length_map)
  ultimately show ?thesis using replaced_store [OF s assms(1) norm c own] norm by (intro exI [of _ inc]) simp
qed

lemma first_mapping_None: "first_mapping ms is = None \<longleftrightarrow> (\<forall>i\<in>set is. map_of ms i = None)"
  by (induction "is") (auto split: option.split)

lemma query_subset: "set (query_identities sys enc slot legacy) \<subseteq> set (query_identities sys enc slot True)"
  by (auto simp: query_identities_def)

text \<open>Clearing a bay clears all of it. The call answers whether a read of the bay, legacy rows included, had
  anything to find; if not, nothing is touched, and if so exactly the rows such a read could find are gone and
  the read finds nothing afterwards.\<close>

theorem clear_mapping_exact:
  assumes "times_read_back E" "clear_mapping E fate sys enclosure slot expected st = (Inr found, st')"
  shows "(let ids = query_identities sys (resolve_physical_mapping_scope enclosure) slot True
    in found = list_ex (\<lambda>i. stored E (st_file st) i \<noteq> None) ids \<and>
       (if found then stored E (st_file st') = (\<lambda>i. if i \<in> set ids then None else map_option validated (stored E (st_file st) i)) \<and>
          get_mapping E (st_file st') sys enclosure slot legacy FromFile = Inr None
        else st' = st))"
proof -
  let ?enc = "resolve_physical_mapping_scope enclosure" let ?ids = "query_identities sys ?enc slot True"
  obtain s where s: "load_state E (st_file st) = Inr s" using assms(2) by (auto simp: clear_mapping_def split: sum.splits)
  let ?ms = "without_identities (resolvable_identity_selected sys ?enc slot) (cs_mappings s)"
  have wf: "wf_mappings ?ms" using load_state_wf [OF s] by simp
  have none: "first_mapping (cs_mappings s) ?ids = None \<longleftrightarrow> \<not> list_ex (\<lambda>i. stored E (st_file st) i \<noteq> None) ?ids"
    by (auto simp: first_mapping_None list_ex_iff stored_def s)
  show ?thesis
  proof (cases "first_mapping (cs_mappings s) ?ids = None")
    case True
    then show ?thesis using assms(2) s none by (auto simp: clear_mapping_def Let_def split: if_splits)
  next
    case False
    then have c: "commit_with E fate ?ms (''mapping.clear'', bay_subject (sys, ?enc, slot)) True st = (Inr found, st')"
      using assms(2) s by (auto simp: clear_mapping_def Let_def split: if_splits)
    have found: found using commit_with_InrD [OF c] by simp
    have abs: "stored E (st_file st') = (\<lambda>i. if i \<in> set ?ids then None else map_option validated (stored E (st_file st) i))"
      unfolding committed_store(1) [OF wf assms(1) c]
      by (auto simp: fun_eq_iff map_of_without resolvable_identity_selected_def stored_def s)
    have "first_mapping (map (\<lambda>(i, m). (i, validated m)) (file_order ?ms)) (query_identities sys ?enc slot legacy) = None"
      using wf query_subset [of sys ?enc slot legacy]
      by (auto simp: first_mapping_None map_of_validated_order wf_mappings_def map_of_without resolvable_identity_selected_def)
    then have "get_mapping E (st_file st') sys enclosure slot legacy FromFile = Inr None"
      unfolding committed_store(2) [OF wf assms(1) c] by simp
    then show ?thesis using found abs False none unfolding Let_def by simp
  qed
qed

subsection \<open>Texts that change when they are read again\<close>

text \<open>The validator strips a text and then cuts it to 256 characters. A cut that falls after a white space leaves
  it at the end, and the next reading strips it: a saved mapping can differ from the mapping read back.\<close>

lemma trim_string_twice_differs:
  "trim_string (Some (replicate 255 (CHR ''x'') @ '' yz'')) = Some (replicate 255 (CHR ''x'') @ '' '') \<and>
   trim_string (Some (replicate 255 (CHR ''x'') @ '' '')) = Some (replicate 255 (CHR ''x''))"
proof -
  have "py_strip (replicate 255 (CHR ''x'') @ '' yz'') = replicate 255 (CHR ''x'') @ '' yz''"
    by (intro py_strip_id) (simp_all add: py_isspace_def)
  moreover have "dropWhile py_isspace (replicate 255 (CHR ''x'') @ '' '') = replicate 255 (CHR ''x'') @ '' ''"
    by (simp add: dropWhile_append numeral_eq_Suc py_isspace_def)
  ultimately show ?thesis
    by (simp add: trim_string_def py_strip_def py_isspace_def numeral_eq_Suc)
qed

subsection \<open>Witnesses\<close>

definition sample_env :: mapping_env where
  "sample_env = \<lparr>me_time = VInt, me_stamp = int_str, me_read_time = (\<lambda>v. case v of VInt i \<Rightarrow> Some i | _ \<Rightarrow> None),
     me_digest = (\<lambda>_. ''d''), me_now = 7\<rparr>"

definition sample_mapping :: manual_mapping where
  "sample_mapping = \<lparr>mm_system_id = Some ''nas'', mm_slot = 3, mm_enclosure_id = Some ''e1'', mm_serial = Some ''S1'',
     mm_device_name = None, mm_gptid = None, mm_notes = None, mm_updated_at = 0, mm_source = ''manual''\<rparr>"

definition sample_state :: store_state where
  "sample_state = \<lparr>st_file = Missing, st_journal = []\<rparr>"

lemma sample_times: "times_read_back sample_env"
  by (simp add: times_read_back_def sample_env_def)

lemma sample_save: "case save_mapping sample_env Committed sample_mapping None sample_state of (out, _) \<Rightarrow>
    out = Inr (sample_mapping\<lparr>mm_updated_at := 7\<rparr>)"
  by code_simp

theorem save_mapping_refines_witness:
  "\<exists>st' :: store_state. get_mapping sample_env (st_file st') (Some ''nas'') (Some ''e1'') 3 True FromFile =
     Inr (Some (validated (sample_mapping\<lparr>mm_updated_at := 7\<rparr>)))"
proof -
  obtain st' where "save_mapping sample_env Committed sample_mapping None sample_state =
      (Inr (sample_mapping\<lparr>mm_updated_at := 7\<rparr>), st')"
    using sample_save by (auto split: prod.splits)
  from save_mapping_refines [OF sample_times this, THEN conjunct2, THEN conjunct2, of True]
  have "get_mapping sample_env (st_file st') (mm_system_id sample_mapping) (mm_enclosure_id sample_mapping)
      (mm_slot sample_mapping) True FromFile = Inr (Some (validated (sample_mapping\<lparr>mm_updated_at := 7\<rparr>)))" .
  then show ?thesis by - (rule exI [of _ st'], simp add: sample_mapping_def)
qed

lemma sample_import: "case apply_mapping_import sample_env Committed (Some ''nas'') None [sample_mapping] ''d'' ''d'' sample_state of
    (out, _) \<Rightarrow> \<not> isl out"
  by code_simp

theorem import_applies_preview_witness:
  "\<exists>(r :: import_result) (st' :: store_state). ir_saved_count r = 1 \<and> (\<lambda>(k, vs). (k, map_of vs)) ` set (pv_additions (ir_preview r)) = {((Some ''e1'', 3), shown sample_mapping)} \<and>
    stored sample_env (st_file st') (Some ''nas'', Some ''e1'', 3) \<noteq> None"
proof -
  obtain r st' where i: "apply_mapping_import sample_env Committed (Some ''nas'') None [sample_mapping] ''d'' ''d'' sample_state = (Inr r, st')"
    using sample_import by (auto split: prod.splits simp: isl_def) (metis sum.exhaust)
  have load: "load_state sample_env (st_file sample_state) = Inr \<lparr>cs_version = 2, cs_rows = [], cs_mappings = []\<rparr>"
    by code_simp
  have scope: "scope_entries \<lparr>cs_version = 2, cs_rows = [], cs_mappings = []\<rparr> (Some ''nas'') None = []" by code_simp
  have e: "resolve_physical_mapping_scope None = None" by code_simp
  have m: "map (\<lambda>m. (snd (model_identity m), m)) (map (scoped_mapping (Some ''nas'') None) [sample_mapping]) =
      [((Some ''e1'', 3), sample_mapping)]"
    by code_simp
  have sel: "import_identity_selected (Some ''nas'') None (Some ''nas'', Some ''e1'', 3)" by code_simp
  from import_applies_preview [OF sample_times i, unfolded Let_def]
  have "ir_saved_count r = 1 \<and> (\<lambda>(k, vs). (k, map_of vs)) ` set (pv_additions (ir_preview r)) = {((Some ''e1'', 3), shown sample_mapping)} \<and>
      stored sample_env (st_file st') (Some ''nas'', Some ''e1'', 3) \<noteq> None"
  proof (elim exE conjE)
    fix s incoming
    assume s: "load_state sample_env (st_file sample_state) = Inr s"
      and inc: "incoming = map (\<lambda>m. (snd (model_identity m), m))
        (map (scoped_mapping (Some ''nas'') (resolve_physical_mapping_scope None)) [sample_mapping])"
      and n: "ir_saved_count r = length [sample_mapping]"
      and add: "(\<lambda>(k, vs). (k, map_of vs)) ` set (pv_additions (ir_preview r)) =
        {(k, shown m) |k m. map_of (scope_entries s (Some ''nas'') None) k = None \<and> map_of incoming k = Some m}"
      and st: "stored sample_env (st_file st') = (\<lambda>i. map_option validated
        (if import_identity_selected (Some ''nas'') (resolve_physical_mapping_scope None) i
         then (if fst i = Some ''nas'' then map_option (\<lambda>m. m\<lparr>mm_updated_at := me_now sample_env\<rparr>) (map_of incoming (snd i)) else None)
         else stored sample_env (st_file sample_state) i))"
    have inc': "incoming = [((Some ''e1'', 3), sample_mapping)]" using inc by (simp only: e m)
    have "scope_entries s (Some ''nas'') None = []" using s load scope by simp
    then show ?thesis using n add by (auto simp: st inc' sel e split: if_splits)
  qed
  then show ?thesis by blast
qed

definition saved_state :: store_state where
  "saved_state = snd (save_mapping sample_env Committed sample_mapping None sample_state)"

lemma sample_clear:
  "fst (clear_mapping sample_env Committed (Some ''nas'') (Some ''e1::dell-md1280-drawer-top-42'') 3 None saved_state) = Inr True"
  by code_simp

theorem clear_mapping_exact_witness:
  "\<exists>st' :: store_state. get_mapping sample_env (st_file st') (Some ''nas'') (Some ''e1::dell-md1280-drawer-top-42'') 3 True FromFile = Inr None"
proof -
  obtain st' where c: "clear_mapping sample_env Committed (Some ''nas'') (Some ''e1::dell-md1280-drawer-top-42'') 3 None saved_state = (Inr True, st')"
    using sample_clear by (metis prod.collapse)
  show ?thesis
    using clear_mapping_exact [OF sample_times c, of True] by (auto simp: Let_def)
qed

text \<open>A digest without collisions: the values of the model are countable.\<close>

instance py_value :: countable
  by countable_datatype

definition exact_env :: mapping_env where
  "exact_env = sample_env\<lparr>me_digest := (\<lambda>v. nat_str (to_nat v))\<rparr>"

lemma exact_env_laws: "inj (me_digest exact_env)" "times_read_back exact_env"
  by (auto simp: exact_env_def inj_def times_read_back_def sample_env_def)

definition empty_store :: classified_store where
  "empty_store = \<lparr>cs_version = 2, cs_rows = [], cs_mappings = []\<rparr>"

lemma empty_loads:
  "load_state E Missing = Inr empty_store" "load_state_for_scope E Missing sys enc slot = Inr empty_store"
  by (simp_all add: load_state_def load_state_for_scope_def load_scoped_snapshot_def read_document_def classify_entries_def
      row_identities_def firsts_def empty_store_def snapshot_of_def state_for_scope_def legacy_clash_def Let_def List.map_filter_simps)


end
