(* ===== verification/Claim_Index.thy ===== *)
theory Claim_Index
  imports Prelude
begin

text \<open>
  Indexes that drop what two owners claim. Several look-ups of the inventory give a key to the one owner that
  claims it and to nobody once a second owner claims it too. The contract is a locale over the code's own index
  states: what one claim does to the answer for every key. What a run of claims does is proved once.
\<close>

text \<open>The answer for a key: nobody claimed it, one owner did, or several.\<close>

type_synonym 'r answer = "'r option option"

definition merge_claim :: "'r answer \<Rightarrow> 'r \<Rightarrow> 'r answer" where
  "merge_claim a r = (case a of None \<Rightarrow> Some (Some r) | Some o' \<Rightarrow> if o' = Some r then a else Some None)"

text \<open>The reference answer: the distinct owners that claim the key.\<close>

definition owners_of :: "('k \<times> 'r) list \<Rightarrow> 'k \<Rightarrow> 'r list" where
  "owners_of cs k = remdups (map snd (filter (\<lambda>c. fst c = k) cs))"

definition answer_of :: "'r list \<Rightarrow> 'r answer" where
  "answer_of rs = (case rs of [] \<Rightarrow> None | [r] \<Rightarrow> Some (Some r) | _ \<Rightarrow> Some None)"

definition sole :: "'r list \<Rightarrow> 'r option" where
  "sole rs = (case rs of [r] \<Rightarrow> Some r | _ \<Rightarrow> None)"

lemma answer_simps [simp]:
  "answer_of [] = None" "answer_of [r] = Some (Some r)" "answer_of (r # s # rs) = Some None"
  by (simp_all add: answer_of_def)

lemma sole_simps [simp]: "sole [] = None" "sole [r] = Some r" "sole (r # s # rs) = None"
  by (simp_all add: sole_def)

lemma answer_sole: "answer_of rs = Some (Some r) \<longleftrightarrow> sole rs = Some r"
  by (cases rs rule: remdups_adj.cases) auto

lemma sole_iff: "distinct rs \<Longrightarrow> sole rs = Some r \<longleftrightarrow> set rs = {r}"
  by (cases rs rule: remdups_adj.cases) auto

text \<open>Only the set of the owners matters.\<close>

lemma answer_of_remdups: "answer_of (remdups rs) =
   (if rs = [] then None else if set rs = {hd rs} then Some (Some (hd rs)) else Some None)"
proof (cases rs)
  case (Cons r rest)
  show ?thesis
  proof (cases "set rs = {r}")
    case True
    then have "length (remdups rs) = 1" using length_remdups_card_conv [of rs] by simp
    then obtain q where "remdups rs = [q]" by (auto simp: length_Suc_conv)
    moreover from this have "set rs = {q}" by (metis set_remdups list.set(1,2))
    ultimately have a: "answer_of (remdups rs) = Some (Some q)" and "q = r" using True by auto
    then show ?thesis using True Cons by (simp only:) simp
  next
    case False
    then have "\<exists>q\<in>set rs. q \<noteq> r" using Cons by auto
    moreover have "r \<in> set rs" using Cons by simp
    ultimately have "2 \<le> card (set rs)"
      by (metis One_nat_def card_1_singletonE card_gt_0_iff empty_iff finite_set insert_iff less_2_cases linorder_not_less not_gr_zero)
    then have "2 \<le> length (remdups rs)" using length_remdups_card_conv [of rs] by simp
    then obtain a b ys where "remdups rs = a # b # ys"
      by (metis One_nat_def Suc_1 Suc_le_length_iff)
    then show ?thesis using False Cons by simp
  qed
qed simp

lemma answer_of_snoc: "answer_of (remdups (rs @ [r])) = merge_claim (answer_of (remdups rs)) r"
proof (cases rs)
  case (Cons q rest)
  have "set (rs @ [r]) = {hd (rs @ [r])} \<longleftrightarrow> set rs = {q} \<and> r = q" using Cons by auto
  then show ?thesis using Cons unfolding answer_of_remdups by (auto simp: merge_claim_def)
qed (simp add: merge_claim_def)

text \<open>A run of claims, one after the other.\<close>

definition run_claims :: "('s \<Rightarrow> 'k \<Rightarrow> 'r \<Rightarrow> 's) \<Rightarrow> 's \<Rightarrow> ('k \<times> 'r) list \<Rightarrow> 's" where
  "run_claims claim s cs = foldl (\<lambda>s (k, r). claim s k r) s cs"

locale claim_index =
  fixes start :: 's
    and claim :: "'s \<Rightarrow> 'k \<Rightarrow> 'r \<Rightarrow> 's"
    and answer :: "'s \<Rightarrow> 'k \<Rightarrow> 'r answer"
    and ok :: "'s \<Rightarrow> bool"
  assumes ok_start: "ok start"
    and ok_claim: "ok s \<Longrightarrow> ok (claim s k r)"
    and answer_start: "answer start k = None"
    and answer_claim: "ok s \<Longrightarrow> answer (claim s k r) k' = (if k' = k then merge_claim (answer s k) r else answer s k')"
begin

lemma run_ok: "ok (run_claims claim start cs)"
  by (induction cs rule: rev_induct) (auto simp: run_claims_def ok_start ok_claim)

lemma answer_run: "answer (run_claims claim start cs) k = answer_of (owners_of cs k)"
proof (induction cs rule: rev_induct)
  case Nil
  then show ?case by (simp add: run_claims_def answer_start owners_of_def)
next
  case (snoc c cs)
  obtain l r where c: "c = (l, r)" by fastforce
  let ?s = "run_claims claim start cs"
  have "run_claims claim start (cs @ [c]) = claim ?s l r" by (simp add: run_claims_def c)
  then have "answer (run_claims claim start (cs @ [c])) k = (if k = l then merge_claim (answer ?s k) r else answer ?s k)"
    using run_ok [of cs] by (simp add: answer_claim)
  also have "\<dots> = answer_of (owners_of (cs @ [c]) k)"
    using snoc by (cases "k = l") (simp_all add: c owners_of_def answer_of_snoc)
  finally show ?case .
qed

end

text \<open>The plain index: a map whose entry becomes None at the second owner.\<close>

definition note_claim :: "('k \<Rightarrow> 'r answer) \<Rightarrow> 'k \<Rightarrow> 'r \<Rightarrow> 'k \<Rightarrow> 'r answer" where
  "note_claim m k r = (case m k of
       None \<Rightarrow> m(k := Some (Some r))
     | Some o' \<Rightarrow> if o' = Some r then m else m(k := Some None))"

interpretation plain: claim_index "\<lambda>_. None" note_claim "\<lambda>m. m" "\<lambda>_. True"
  by unfold_locales (auto simp: note_claim_def merge_claim_def split: option.splits)

text \<open>The index of a set of owners that were popped, kept beside a map of the owners that were not.\<close>

definition pop_claim :: "('k \<Rightarrow> 'r option) \<times> 'k set \<Rightarrow> 'k \<Rightarrow> 'r \<Rightarrow> ('k \<Rightarrow> 'r option) \<times> 'k set" where
  "pop_claim s k r = (case s of (m, ambiguous) \<Rightarrow>
     if k \<in> ambiguous then s
     else (case m k of None \<Rightarrow> (m(k := Some r), ambiguous)
       | Some q \<Rightarrow> if q = r then (m(k := Some r), ambiguous) else (m(k := None), insert k ambiguous)))"

definition pop_answer :: "('k \<Rightarrow> 'r option) \<times> 'k set \<Rightarrow> 'k \<Rightarrow> 'r answer" where
  "pop_answer s k = (if k \<in> snd s then Some None else map_option Some (fst s k))"

definition popped_ok :: "('k \<Rightarrow> 'r option) \<times> 'k set \<Rightarrow> bool" where
  "popped_ok s \<longleftrightarrow> (\<forall>k\<in>snd s. fst s k = None)"

interpretation popping: claim_index "(\<lambda>_. None, {})" pop_claim pop_answer popped_ok
proof unfold_locales
  fix s :: "('k \<Rightarrow> 'r option) \<times> 'k set" and k k' r
  show "popped_ok s \<Longrightarrow> popped_ok (pop_claim s k r)"
    by (cases s) (auto simp: popped_ok_def pop_claim_def split: option.splits)
  show "popped_ok s \<Longrightarrow> pop_answer (pop_claim s k r) k' = (if k' = k then merge_claim (pop_answer s k) r else pop_answer s k')"
    by (cases s) (auto simp: pop_answer_def pop_claim_def merge_claim_def split: option.splits)
qed (simp_all add: popped_ok_def pop_answer_def)

lemma popped_index: "fst (run_claims pop_claim (\<lambda>_. None, {}) cs) k = sole (owners_of cs k)"
proof -
  let ?s = "run_claims pop_claim (\<lambda>_. None, {}) cs"
  have ok: "popped_ok ?s" by (rule popping.run_ok)
  have "fst ?s k = Some r \<longleftrightarrow> pop_answer ?s k = Some (Some r)" for r
    using ok by (auto simp: pop_answer_def popped_ok_def)
  then have "fst ?s k = Some r \<longleftrightarrow> sole (owners_of cs k) = Some r" for r
    by (simp add: popping.answer_run answer_sole)
  then show ?thesis by (metis not_Some_eq)
qed

lemma noted_index: "run_claims note_claim (\<lambda>_. None) cs k = answer_of (owners_of cs k)"
  by (rule plain.answer_run)

end
