(* ===== verification/Disk_Resolution.thy ===== *)
theory Disk_Resolution
  imports Device_Names Mapping_Scope Claim_Index
begin

text \<open>
  Which disk is in a bay, and which pool it belongs to: the disk indexes and
  \<open>InventoryService._resolve_disk_for_slot\<close> of \<open>app/services/inventory.py\<close>, the multipath consumer index, the
  look-up of pool membership, and the conflict check of TrueNAS CORE bays.

  Objects that the code compares by identity are positions: a disk is its position in the list of records, a
  GEOM its position in the list of geoms. A set that is only tested or sorted is a list. Where the code iterates a
  set of look-up keys, the order is the argument \<open>ord\<close>. The dictionary of slot facts is a record whose
  fields hold what the accesses here read: absent is None or the empty list.
\<close>

subsection \<open>Records\<close>

record disk_record =
  dr_raw :: dict
  dr_device_name :: "string option"
  dr_path_device_name :: "string option"
  dr_multipath_name :: "string option"
  dr_multipath_member :: "string option"
  dr_serial :: "string option"
  dr_model :: "string option"
  dr_size_bytes :: "int option"
  dr_identifier :: "string option"
  dr_health :: "string option"
  dr_pool_name :: "string option"
  dr_lunid :: "string option"
  dr_bus :: "string option"
  dr_temperature_c :: "int option"
  dr_last_smart_test_type :: "string option"
  dr_last_smart_test_status :: "string option"
  dr_last_smart_test_lifetime_hours :: "int option"
  dr_logical_block_size :: "int option"
  dr_physical_block_size :: "int option"
  dr_enclosure_id :: "string option"
  dr_slot :: "int option"
  dr_smart_devices :: "string list"
  dr_lookup_keys :: "string list"

record multipath_consumer =
  mc_device_name :: string
  mc_state :: "string option"
  mc_mode :: "string option"
  mc_controller_label :: "string option"

record multipath_info =
  mi_name :: string
  mi_device_name :: string
  mi_uuid :: "string option"
  mi_mode :: "string option"
  mi_state :: "string option"
  mi_provider_state :: "string option"
  mi_consumers :: "multipath_consumer list"

record zpool_member =
  zm_pool_name :: string
  zm_vdev_class :: string
  zm_vdev_name :: "string option"
  zm_topology_label :: "string option"
  zm_health :: "string option"
  zm_raw_name :: string
  zm_raw_path :: "string option"

text \<open>The parts of \<open>SESMapEnclosure\<close> and of \<open>ParsedSSHData\<close> used here. \<open>sd_multipath_info\<close> is the dictionary from names to geoms; the
  parser stores every geom under two names.\<close>

record ses_map_enclosure =
  se_ssh_host :: "string option"
  se_ses_device :: "string option"
  se_ses_devices :: "string list"
  se_enclosure_id :: "string option"

record ssh_data =
  sd_gptid_to_device :: "string \<Rightarrow> string option"
  sd_device_to_gptid :: "string \<Rightarrow> string option"
  sd_device_to_gptids :: "string \<Rightarrow> string list option"
  sd_zpool_members :: "string \<Rightarrow> zpool_member option"
  sd_zpool_device_members :: "string \<Rightarrow> zpool_member option"
  sd_geoms :: "multipath_info list"
  sd_multipath_info :: "(string \<times> nat) list"
  sd_ses_slot_to_device :: "int \<Rightarrow> string option"
  sd_camcontrol_models :: "string \<Rightarrow> string option"
  sd_camcontrol_controllers :: "string \<Rightarrow> string option"
  sd_camcontrol_peer_devices :: "string \<Rightarrow> string list option"
  sd_ses_enclosures :: "ses_map_enclosure list"
  sd_unifi_led_states :: "int \<Rightarrow> bool option"

record ses_target_fact =
  tf_ssh_host :: "string option"
  tf_ses_device :: "string option"
  tf_ses_element_id :: "int option"
  tf_ses_slot_number :: "int option"
  tf_enclosure_id :: "string option"

record slot_status =
  ss_presence_conflict :: bool
  ss_presence_source :: "string option"
  ss_present :: "bool option"
  ss_ses_device :: "string option"
  ss_ses_targets :: "ses_target_fact list"
  ss_sas_address_hint :: "string option"
  ss_sas_device_type :: "string option"
  ss_device_names :: "string list"
  ss_device_names_source :: "string option"
  ss_device_hint :: "string option"
  ss_serial_hint :: "string option"
  ss_gptid_hint :: "string option"

record disk_resolution =
  rs_disk :: "nat option"
  rs_source :: string
  rs_stale_manual_mapping :: bool

subsection \<open>Look-ups\<close>

definition first_hit :: "('a \<Rightarrow> 'b option) \<Rightarrow> 'a list \<Rightarrow> 'b option" where
  "first_hit f xs = (case List.map_filter f xs of [] \<Rightarrow> None | y # _ \<Rightarrow> Some y)"

text \<open>\<open>filter(None, values)\<close> for texts that may be missing.\<close>

definition filled :: "string option list \<Rightarrow> string list" where
  "filled vs = List.map_filter (\<lambda>v. case v of None \<Rightarrow> None | Some s \<Rightarrow> if s = '''' then None else Some s) vs"

text \<open>The lower-case device name of a text, empty when it has none.\<close>

definition device_key :: "string option \<Rightarrow> string" where
  "device_key v = py_lower (case normalize_device_name v of None \<Rightarrow> '''' | Some d \<Rightarrow> d)"

subsection \<open>SAS addresses\<close>

definition lunid_deltas :: "string \<Rightarrow> int list" where
  "lunid_deltas platform = (if platform = ''scale'' \<or> platform = ''quantastor'' then [- 2, - 1, 1, 2] else [1])"

definition build_lunid_alias_tiers :: "string option \<Rightarrow> string \<Rightarrow> string option \<times> string list" where
  "build_lunid_alias_tiers v platform =
     (let exact = normalize_hex_identifier v
      in (exact, firsts (List.map_filter (\<lambda>d. case shift_hex_identifier v d of None \<Rightarrow> None
           | Some c \<Rightarrow> if c \<noteq> '''' \<and> Some c \<noteq> exact then Some c else None) (lunid_deltas platform))))"

definition build_lunid_aliases :: "string option \<Rightarrow> string \<Rightarrow> string set" where
  "build_lunid_aliases v platform = (case build_lunid_alias_tiers v platform of (exact, shifted) \<Rightarrow>
     set shifted \<union> (case exact of None \<Rightarrow> {} | Some e \<Rightarrow> if e = '''' then {} else {e}))"

definition lunid_alias_tier_sets :: "string option \<Rightarrow> string \<Rightarrow> string list \<times> string list" where
  "lunid_alias_tier_sets v platform = (case build_lunid_alias_tiers v platform of (exact, shifted) \<Rightarrow>
     (case exact of None \<Rightarrow> [] | Some e \<Rightarrow> if e = '''' then [] else [e], shifted))"

definition put_claim :: "('k \<Rightarrow> 'r option) \<Rightarrow> 'k \<Rightarrow> 'r \<Rightarrow> 'k \<Rightarrow> 'r option" where
  "put_claim m k r = m(k := Some r)"

text \<open>The claims of owners with several keys each, in the order of the loops.\<close>

definition claims :: "('r \<times> 'k list) list \<Rightarrow> ('k \<times> 'r) list" where
  "claims es = concat (map (\<lambda>(r, ks). map (\<lambda>k. (k, r)) ks) es)"

definition index_disks_by_sas :: "(nat \<times> string list \<times> string list) list \<Rightarrow> string \<Rightarrow> nat option" where
  "index_disks_by_sas entries =
     (let exact_index = run_claims put_claim (\<lambda>_. None) (claims (map (\<lambda>(i, ex, sh). (i, ex)) entries));
          shifted_index = run_claims note_claim (\<lambda>_. None) (claims (map (\<lambda>(i, ex, sh). (i, sh)) entries))
      in (\<lambda>a. case exact_index a of Some i \<Rightarrow> Some i
           | None \<Rightarrow> (case shifted_index a of Some (Some i) \<Rightarrow> Some i | _ \<Rightarrow> None)))"

subsection \<open>The indexes of a list of disks\<close>

type_synonym slot_place = "string option \<times> int"

definition slot_places :: "disk_record \<Rightarrow> slot_place list" where
  "slot_places d = (case dr_slot d of None \<Rightarrow> [] | Some n \<Rightarrow> remdups [(dr_enclosure_id d, n), (None, n)])"

record disk_index =
  by_key :: "string \<Rightarrow> nat option"
  by_slot :: "slot_place \<Rightarrow> nat option"
  by_sas :: "string \<Rightarrow> nat option"

definition index_disk_records :: "disk_record list \<Rightarrow> string \<Rightarrow> bool \<Rightarrow> disk_index" where
  "index_disk_records ds platform allow_unowned =
     (let records = enumerate 0 ds;
          slots = fst (run_claims pop_claim (\<lambda>_. None, {}) (claims (map (\<lambda>(i, d). (i, slot_places d)) records)))
      in \<lparr>by_key = run_claims put_claim (\<lambda>_. None) (claims (map (\<lambda>(i, d). (i, dr_lookup_keys d)) records)),
          by_slot = (\<lambda>k. case slots k of None \<Rightarrow> None
            | Some i \<Rightarrow> if allow_unowned \<or> dr_enclosure_id (ds ! i) \<noteq> None then Some i else None),
          by_sas = index_disks_by_sas (map (\<lambda>(i, d). (i, lunid_alias_tier_sets (dr_lunid d) platform)) records)\<rparr>)"

definition bay_peer_devices :: "slot_status \<Rightarrow> disk_record list \<Rightarrow> nat option \<Rightarrow> (string \<Rightarrow> nat option) \<Rightarrow> string list" where
  "bay_peer_devices st ds disk keyed = (case disk of None \<Rightarrow> []
     | Some i \<Rightarrow>
         (let listed = firsts (filled (map (\<lambda>n. normalize_device_name (Some n)) (ss_device_names st)));
              own = set (dr_lookup_keys (ds ! i))
          in if \<not> list_ex (\<lambda>n. py_lower n \<in> own) listed then []
             else filter (\<lambda>p. py_lower p \<notin> own \<and> (case keyed (py_lower p) of None \<Rightarrow> True | Some j \<Rightarrow> j = i)) listed))"

subsection \<open>The disk of a bay\<close>

definition ses_presence_sources :: "string list" where
  "ses_presence_sources = [''sesutil_show'', ''sg_ses_ec'', ''sesutil_map'', ''sg_ses_aes'', ''sg_ses_join'']"

definition slot_has_live_empty_evidence :: "slot_status \<Rightarrow> bool" where
  "slot_has_live_empty_evidence st =
     (if ss_presence_conflict st then False
      else let source = normalize_text (ss_presence_source st);
             has_ses_evidence = ((case source of None \<Rightarrow> False | Some s \<Rightarrow> s \<in> set ses_presence_sources) \<or>
               normalize_text (ss_ses_device st) \<noteq> None \<or> ss_ses_targets st \<noteq> [])
        in if \<not> has_ses_evidence then False
           else if source \<noteq> None \<and> ss_present st \<noteq> None then ss_present st = Some False
           else ss_present st = Some False \<or> normalize_hex_identifier (ss_sas_address_hint st) = Some ''0'' \<or>
             (case normalize_text (ss_sas_device_type st) of None \<Rightarrow> False
              | Some t \<Rightarrow> has_substring ''no sas device attached'' (py_lower t)))"

text \<open>The first disk that one of the look-up keys of a text names.\<close>

definition keyed_disk :: "(string set \<Rightarrow> string list) \<Rightarrow> disk_index \<Rightarrow> string \<Rightarrow> nat option" where
  "keyed_disk ord ix c = first_hit (by_key ix) (ord (normalize_lookup_keys (Some c)))"

definition mapped_disk :: "(string set \<Rightarrow> string list) \<Rightarrow> disk_index \<Rightarrow> manual_mapping option \<Rightarrow> nat option" where
  "mapped_disk ord ix mapping = (case mapping of None \<Rightarrow> None
     | Some m \<Rightarrow> first_hit (keyed_disk ord ix) (filled [mm_serial m, mm_gptid m, mm_device_name m]))"

definition mapped_source :: "manual_mapping option \<Rightarrow> string" where
  "mapped_source mapping = (case mapping of None \<Rightarrow> ''manual''
     | Some m \<Rightarrow> if mm_source m = '''' then ''manual'' else mm_source m)"

definition named_disk :: "disk_index \<Rightarrow> slot_status \<Rightarrow> nat option" where
  "named_disk ix st = first_hit (\<lambda>n. if device_key (Some n) = '''' then None else by_key ix (device_key (Some n)))
     (ss_device_names st)"

definition name_source :: "slot_status \<Rightarrow> string" where
  "name_source st = (if normalize_text (ss_device_names_source st) = Some ''enclosure_sysfs''
     then ''enclosure-sysfs'' else ''device-name'')"

definition unowned_disk :: "disk_index \<Rightarrow> disk_record list \<Rightarrow> int \<Rightarrow> string option \<Rightarrow> nat option" where
  "unowned_disk ix ds slot enc = (case by_slot ix (None, slot) of None \<Rightarrow> None
     | Some i \<Rightarrow> if dr_enclosure_id (ds ! i) = None \<or>
           resolve_physical_mapping_scope (dr_enclosure_id (ds ! i)) = resolve_physical_mapping_scope enc
         then Some i else None)"

definition hinted_disk :: "(string set \<Rightarrow> string list) \<Rightarrow> disk_index \<Rightarrow> string option \<Rightarrow> nat option" where
  "hinted_disk ord ix hint = (case hint of None \<Rightarrow> None | Some h \<Rightarrow> keyed_disk ord ix h)"

definition sas_disk :: "disk_index \<Rightarrow> slot_status \<Rightarrow> nat option" where
  "sas_disk ix st = (case normalize_hex_identifier (ss_sas_address_hint st) of None \<Rightarrow> None | Some a \<Rightarrow> by_sas ix a)"

text \<open>The sources in the order of the code, each with the disk it names; the first that names one decides.\<close>

definition disk_sources :: "(string set \<Rightarrow> string list) \<Rightarrow> string \<Rightarrow> int \<Rightarrow> string option \<Rightarrow> manual_mapping option \<Rightarrow>
    disk_index \<Rightarrow> disk_record list \<Rightarrow> slot_status \<Rightarrow> ssh_data \<Rightarrow> (string \<times> nat option) list" where
  "disk_sources ord platform slot enc mapping ix ds st sd = [
     (mapped_source mapping, mapped_disk ord ix mapping),
     (''sas-address'', if platform = ''quantastor'' \<and> normalize_hex_identifier (ss_sas_address_hint st) \<noteq> Some ''0''
        then sas_disk ix st else None),
     (''api-slot'', if enc = None then None else by_slot ix (enc, slot)),
     (name_source st, named_disk ix st),
     (''api-slot-fallback'', unowned_disk ix ds slot enc),
     (''device-hint'', hinted_disk ord ix (ss_device_hint st)),
     (''serial-hint'', hinted_disk ord ix (ss_serial_hint st)),
     (''gptid-hint'', hinted_disk ord ix (ss_gptid_hint st)),
     (''sas-address'', sas_disk ix st),
     (''ses-slot-map'', case sd_ses_slot_to_device sd slot of None \<Rightarrow> None
        | Some d \<Rightarrow> if d = '''' then None else by_key ix (py_lower d))]"

fun first_source :: "(string \<times> nat option) list \<Rightarrow> disk_resolution" where
  "first_source [] = \<lparr>rs_disk = None, rs_source = ''unknown'', rs_stale_manual_mapping = False\<rparr>"
| "first_source ((s, None) # ss) = first_source ss"
| "first_source ((s, Some i) # ss) = \<lparr>rs_disk = Some i, rs_source = s, rs_stale_manual_mapping = False\<rparr>"

definition resolve_disk_for_slot :: "(string set \<Rightarrow> string list) \<Rightarrow> string \<Rightarrow> int \<Rightarrow> string option \<Rightarrow>
    manual_mapping option \<Rightarrow> disk_index \<Rightarrow> disk_record list \<Rightarrow> slot_status \<Rightarrow> ssh_data \<Rightarrow> bool \<Rightarrow> disk_resolution" where
  "resolve_disk_for_slot ord platform slot enc mapping ix ds st sd manual_only =
     (if manual_only then first_source [(mapped_source mapping, mapped_disk ord ix mapping)]
      else if slot_has_live_empty_evidence st
        then \<lparr>rs_disk = None, rs_source = ''ses-empty'', rs_stale_manual_mapping = mapping \<noteq> None\<rparr>
      else first_source (disk_sources ord platform slot enc mapping ix ds st sd))"

subsection \<open>Multipath consumers\<close>

definition consumer_claims :: "ssh_data \<Rightarrow> (string \<times> nat) list" where
  "consumer_claims sd = claims (map (\<lambda>g. (g, filter (\<lambda>k. k \<noteq> '''')
       (map (\<lambda>c. device_key (Some (mc_device_name c))) (mi_consumers (sd_geoms sd ! g)))))
     (firsts (map snd (sd_multipath_info sd))))"

definition index_multipath_consumers :: "ssh_data \<Rightarrow> string \<Rightarrow> nat answer" where
  "index_multipath_consumers sd = run_claims note_claim (\<lambda>_. None) (consumer_claims sd)"

definition consumer_candidates :: "ssh_data \<Rightarrow> string option list \<Rightarrow> string list" where
  "consumer_candidates sd names = (let given = firsts (filled names)
     in firsts (given @ concat (map (\<lambda>n. case sd_camcontrol_peer_devices sd (py_lower n) of None \<Rightarrow> [] | Some ps \<Rightarrow> ps) given)))"

fun agree_on_geom :: "(string \<Rightarrow> nat answer) \<Rightarrow> nat option \<Rightarrow> string list \<Rightarrow> nat option" where
  "agree_on_geom index matched [] = matched"
| "agree_on_geom index matched (n # ns) = (case index (py_lower n) of
       None \<Rightarrow> agree_on_geom index matched ns
     | Some None \<Rightarrow> None
     | Some (Some g) \<Rightarrow> if matched \<noteq> None \<and> matched \<noteq> Some g then None else agree_on_geom index (Some g) ns)"

definition match_multipath_consumer :: "(string \<Rightarrow> nat answer) \<Rightarrow> ssh_data \<Rightarrow> string option list \<Rightarrow> nat option" where
  "match_multipath_consumer index sd names = agree_on_geom index None (consumer_candidates sd names)"

subsection \<open>Labels and pool membership\<close>

definition gpt_labels_for_device :: "ssh_data \<Rightarrow> string option \<Rightarrow> string list" where
  "gpt_labels_for_device sd device =
     (let key = device_key device
      in if key = '''' then []
         else (let labels = (case sd_device_to_gptids sd key of None \<Rightarrow> [] | Some ls \<Rightarrow> ls)
           in case sd_device_to_gptid sd key of None \<Rightarrow> labels
              | Some single \<Rightarrow> if single \<noteq> '''' \<and> single \<notin> set labels then labels @ [single] else labels))"

type_synonym members = "string \<Rightarrow> zpool_member option"

definition membership_tables :: "ssh_data \<Rightarrow> members \<Rightarrow> members list" where
  "membership_tables sd api = [sd_zpool_members sd, api, sd_zpool_device_members sd]"

definition pooled_label :: "ssh_data \<Rightarrow> members \<Rightarrow> string \<Rightarrow> bool" where
  "pooled_label sd api label \<longleftrightarrow>
     (\<exists>k\<in>normalize_lookup_keys (Some label). list_ex (\<lambda>t. t k \<noteq> None) (membership_tables sd api))"

definition select_gpt_label :: "ssh_data \<Rightarrow> members \<Rightarrow> string option \<Rightarrow> string option" where
  "select_gpt_label sd api device = (case gpt_labels_for_device sd device of
       [] \<Rightarrow> None
     | [label] \<Rightarrow> Some label
     | labels \<Rightarrow>
         (case filter (pooled_label sd api) labels of
            [label] \<Rightarrow> Some label
          | _ \<Rightarrow> (case sd_device_to_gptid sd (device_key device) of
                Some single \<Rightarrow> if single \<noteq> '''' then Some single else Some (last labels)
              | None \<Rightarrow> Some (last labels))))"

text \<open>The geom of a device name, in lower case: the name itself for a multipath device, and otherwise the
  one geom whose consumers include it.\<close>

definition geom_of :: "ssh_data \<Rightarrow> string option \<Rightarrow> string option" where
  "geom_of sd name =
     (let normalized = device_key name
      in if normalized = '''' then None
         else if starts_with ''multipath/'' normalized
           then Some (py_lower (case map_of (sd_multipath_info sd) normalized of
             Some g \<Rightarrow> mi_name (sd_geoms sd ! g) | None \<Rightarrow> remove_prefix ''multipath/'' normalized))
         else (case index_multipath_consumers sd normalized of
             Some (Some g) \<Rightarrow> Some (py_lower (mi_name (sd_geoms sd ! g))) | _ \<Rightarrow> None))"

definition own_geoms :: "ssh_data \<Rightarrow> disk_record option \<Rightarrow> string option \<Rightarrow> string list" where
  "own_geoms sd disk device = firsts (filled (
     (case disk of None \<Rightarrow> [] | Some d \<Rightarrow> [map_option py_lower (dr_multipath_name d)]) @
     map (geom_of sd) (device # (case disk of None \<Rightarrow> []
       | Some d \<Rightarrow> [dr_device_name d, dr_path_device_name d, dr_multipath_member d]))))"

text \<open>The GPT labels to check: the one to be shown and the member's own path and name.\<close>

definition gptid_label :: "string option \<Rightarrow> string option" where
  "gptid_label v = (case v of None \<Rightarrow> None
     | Some s \<Rightarrow> if s = '''' then None
         else (case normalize_gptid (Some s) of None \<Rightarrow> None
           | Some l \<Rightarrow> if starts_with ''gptid/'' (py_lower l) then Some l else None))"

definition label_geoms :: "ssh_data \<Rightarrow> string option \<Rightarrow> zpool_member option \<Rightarrow> string list" where
  "label_geoms sd gptid member = filled (map (\<lambda>v. case gptid_label v of None \<Rightarrow> None
       | Some l \<Rightarrow> geom_of sd (sd_gptid_to_device sd (py_lower l)))
     (gptid # (case member of None \<Rightarrow> [] | Some z \<Rightarrow> [zm_raw_path z, Some (zm_raw_name z)])))"

definition core_bay_membership_conflict :: "ssh_data \<Rightarrow> disk_record option \<Rightarrow> string option \<Rightarrow> string option \<Rightarrow>
    zpool_member option \<Rightarrow> bool" where
  "core_bay_membership_conflict sd disk device gptid member =
     (if sd_multipath_info sd = [] then False
      else let own = own_geoms sd disk device
        in if length own > 1 then True else list_ex (\<lambda>g. g \<notin> set own) (label_geoms sd gptid member))"

text \<open>The keys under which membership is looked up: of the values in turn, then the disk's own in order.
  \<open>str_of\<close> is \<open>str\<close> of a payload value.\<close>

definition membership_values :: "(py_value \<Rightarrow> string) \<Rightarrow> disk_record option \<Rightarrow> string option \<Rightarrow> string option \<Rightarrow>
    string option list" where
  "membership_values str_of disk device gptid = [gptid, device] @ (case disk of None \<Rightarrow> [None, None, None]
     | Some d \<Rightarrow> map Some (dr_smart_devices d) @ [dr_identifier d,
         (case dict_get (dr_raw d) ''zfs_guid'' of VNone \<Rightarrow> None | v \<Rightarrow> Some (str_of v)), dr_serial d])"

definition membership_keys :: "(string set \<Rightarrow> string list) \<Rightarrow> (py_value \<Rightarrow> string) \<Rightarrow> disk_record option \<Rightarrow>
    string option \<Rightarrow> string option \<Rightarrow> string list" where
  "membership_keys ord str_of disk device gptid = firsts (
     concat (map (\<lambda>v. ord (normalize_lookup_keys v)) (membership_values str_of disk device gptid)) @
     (case disk of None \<Rightarrow> [] | Some d \<Rightarrow> map py_lower (sort (dr_lookup_keys d))))"

text \<open>A member found by a device node or by its geom: its path is no identity.\<close>

definition without_path :: "zpool_member \<Rightarrow> zpool_member" where
  "without_path m = m\<lparr>zm_raw_name := '''', zm_raw_path := None\<rparr>"

fun agree_on_member :: "zpool_member option \<Rightarrow> zpool_member list \<Rightarrow> zpool_member option" where
  "agree_on_member inferred [] = inferred"
| "agree_on_member inferred (m # ms) =
     (if inferred \<noteq> None \<and> inferred \<noteq> Some (without_path m) then None else agree_on_member (Some (without_path m)) ms)"

definition geom_members :: "ssh_data \<Rightarrow> members \<Rightarrow> multipath_info \<Rightarrow> zpool_member list" where
  "geom_members sd api info =
     (let provider = normalize_device_name (Some (mi_device_name info));
          keys = normalize_lookup_keys (Some (mi_device_name info)) \<union>
            \<Union> (set (map (\<lambda>l. normalize_lookup_keys (Some l)) (gpt_labels_for_device sd provider)))
      in concat (map (\<lambda>k. List.map_filter (\<lambda>t. t k) (membership_tables sd api)) (sorted_list_of_set keys)))"

definition lookup_zpool_member :: "(string set \<Rightarrow> string list) \<Rightarrow> (py_value \<Rightarrow> string) \<Rightarrow> string \<Rightarrow> ssh_data \<Rightarrow>
    members \<Rightarrow> disk_record option \<Rightarrow> string option \<Rightarrow> string option \<Rightarrow> bool \<Rightarrow> zpool_member option" where
  "lookup_zpool_member ord str_of platform sd api disk device gptid allow_geom_inference =
     (let keys = membership_keys ord str_of disk device gptid
      in case first_hit (\<lambda>k. case sd_zpool_members sd k of Some m \<Rightarrow> Some m | None \<Rightarrow> api k) keys of
           Some m \<Rightarrow> Some m
         | None \<Rightarrow>
             (case first_hit (\<lambda>k. map_option without_path (sd_zpool_device_members sd k)) keys of
                Some m \<Rightarrow> Some m
              | None \<Rightarrow>
                  if \<not> allow_geom_inference \<or> disk \<noteq> None \<or> platform \<noteq> ''core'' then None
                  else (case index_multipath_consumers sd (device_key device) of
                      Some (Some g) \<Rightarrow> agree_on_member None (geom_members sd api (sd_geoms sd ! g))
                    | _ \<Rightarrow> None)))"

subsection \<open>SAS addresses of a disk and its multipath view\<close>

definition disk_sas_sources :: "(py_value \<Rightarrow> string) \<Rightarrow> disk_record \<Rightarrow> string option list" where
  "disk_sas_sources str_of d =
     (let payloads = dr_raw d # (case dict_get (dr_raw d) ''quantastor_hw_disk'' of VDict p \<Rightarrow> [p] | _ \<Rightarrow> [])
      in dr_lunid d # concat (map (\<lambda>p. map (\<lambda>k. case dict_get p k of VNone \<Rightarrow> None | v \<Rightarrow> Some (str_of v))
           [''sasAddress'', ''portSasAddress'', ''scsiId'', ''wwid'', ''wwn'']) payloads))"

definition disk_sas_alias_tiers :: "(py_value \<Rightarrow> string) \<Rightarrow> string \<Rightarrow> disk_record \<Rightarrow> string list \<times> string list" where
  "disk_sas_alias_tiers str_of platform d =
     (let tiers = map (\<lambda>v. build_lunid_alias_tiers v platform) (disk_sas_sources str_of d);
          exact = firsts (filled (map fst tiers))
      in (exact, filter (\<lambda>a. a \<notin> set exact) (firsts (concat (map snd tiers)))))"

record multipath_view =
  mv_name :: string
  mv_device_name :: string
  mv_uuid :: "string option"
  mv_mode :: "string option"
  mv_state :: "string option"
  mv_provider_state :: "string option"
  mv_path_device_name :: "string option"
  mv_alternate_path_device :: "string option"
  mv_lunid :: "string option"
  mv_bus :: "string option"
  mv_members :: "multipath_consumer list"

definition consumer_member :: "ssh_data \<Rightarrow> multipath_consumer \<Rightarrow> multipath_consumer" where
  "consumer_member sd c = c\<lparr>mc_controller_label := (case mc_controller_label c of
       Some l \<Rightarrow> if l \<noteq> '''' then Some l else sd_camcontrol_controllers sd (py_lower (mc_device_name c))
     | None \<Rightarrow> sd_camcontrol_controllers sd (py_lower (mc_device_name c)))\<rparr>"

definition build_multipath_view :: "ssh_data \<Rightarrow> disk_record option \<Rightarrow> multipath_view option" where
  "build_multipath_view sd disk = (case disk of None \<Rightarrow> None
     | Some d \<Rightarrow> (case dr_multipath_name d of None \<Rightarrow> None
        | Some name \<Rightarrow> if name = '''' then None
            else (let device = ''multipath/'' @ name;
                      parsed = map_option (\<lambda>g. sd_geoms sd ! g) (map_of (sd_multipath_info sd) (py_lower device));
                      members = (case parsed of
                        Some p \<Rightarrow> map (consumer_member sd) (mi_consumers p)
                      | None \<Rightarrow> map (\<lambda>n. \<lparr>mc_device_name = n, mc_state = None, mc_mode = None,
                            mc_controller_label = sd_camcontrol_controllers sd (py_lower n)\<rparr>)
                          (firsts (filled [dr_path_device_name d, dr_multipath_member d])))
                  in Some \<lparr>mv_name = name, mv_device_name = (case parsed of None \<Rightarrow> device | Some p \<Rightarrow> mi_device_name p),
                       mv_uuid = Option.bind parsed mi_uuid, mv_mode = Option.bind parsed mi_mode,
                       mv_state = Option.bind parsed mi_state, mv_provider_state = Option.bind parsed mi_provider_state,
                       mv_path_device_name = dr_path_device_name d, mv_alternate_path_device = dr_multipath_member d,
                       mv_lunid = dr_lunid d, mv_bus = dr_bus d, mv_members = members\<rparr>)))"

subsection \<open>The indexes are exact\<close>

text \<open>The last owner.\<close>

definition latest :: "'r list \<Rightarrow> 'r option" where
  "latest rs = (if rs = [] then None else Some (last rs))"

lemma last_remdups: "last (remdups xs) = last xs"
  by (induction xs) auto

lemma latest_remdups: "latest (remdups rs) = latest rs"
  by (simp add: latest_def last_remdups)

lemma put_index: "run_claims put_claim (\<lambda>_. None) cs k = latest (owners_of cs k)"
proof (induction cs rule: rev_induct)
  case Nil
  then show ?case by (simp add: run_claims_def owners_of_def latest_def)
next
  case (snoc c cs)
  then show ?case
    by (cases c) (auto simp: run_claims_def put_claim_def owners_of_def latest_def last_remdups)
qed

lemma remdups_replicate_append:
  "x \<notin> set ys \<Longrightarrow> remdups (replicate n x @ ys) = (if n = 0 then [] else [x]) @ remdups ys"
  by (induction n) auto

lemma owned_keys: "map snd (filter (\<lambda>c. fst c = k) (map (\<lambda>k. (k, r)) ks)) = replicate (count_list ks k) r"
  by (induction ks) auto

lemma owners_of_claims:
  "distinct is \<Longrightarrow> owners_of (claims (map (\<lambda>i. (i, g i)) is)) k = filter (\<lambda>i. k \<in> set (g i)) is"
proof (induction "is")
  case Nil
  then show ?case by (simp add: owners_of_def claims_def)
next
  case (Cons i "is")
  let ?rest = "map snd (filter (\<lambda>c. fst c = k) (claims (map (\<lambda>i. (i, g i)) is)))"
  have "i \<notin> set ?rest" using Cons.prems by (auto simp: claims_def)
  then have "owners_of (claims (map (\<lambda>i. (i, g i)) (i # is))) k =
      (if count_list (g i) k = 0 then [] else [i]) @ owners_of (claims (map (\<lambda>i. (i, g i)) is)) k"
    by (simp add: owners_of_def claims_def owned_keys remdups_replicate_append)
  then show ?case using Cons by (simp add: count_list_0_iff)
qed

text \<open>The positions of the records that satisfy a condition.\<close>

definition places :: "(disk_record \<Rightarrow> bool) \<Rightarrow> disk_record list \<Rightarrow> nat list" where
  "places P ds = filter (\<lambda>i. P (ds ! i)) [0..<length ds]"

lemma enumerate_positions: "enumerate 0 ds = map (\<lambda>i. (i, ds ! i)) [0..<length ds]"
  by (rule nth_equalityI) (simp_all add: nth_enumerate_eq)

lemma owners_of_records:
  "owners_of (claims (map (\<lambda>(i, d). (i, f d)) (enumerate 0 ds))) k = places (\<lambda>d. k \<in> set (f d)) ds"
  using owners_of_claims [of "[0..<length ds]" "\<lambda>i. f (ds ! i)" k]
  by (simp add: enumerate_positions places_def comp_def)

lemma set_places: "i \<in> set (places P ds) \<longleftrightarrow> i < length ds \<and> P (ds ! i)"
  by (simp add: places_def)

lemma distinct_places: "distinct (places P ds)"
  by (simp add: places_def)

text \<open>What a record claims by its SAS address.\<close>

definition exact_address :: "string \<Rightarrow> string \<Rightarrow> disk_record \<Rightarrow> bool" where
  "exact_address platform a d \<longleftrightarrow> a \<in> set (fst (lunid_alias_tier_sets (dr_lunid d) platform))"

definition shifted_address :: "string \<Rightarrow> string \<Rightarrow> disk_record \<Rightarrow> bool" where
  "shifted_address platform a d \<longleftrightarrow> a \<in> set (snd (lunid_alias_tier_sets (dr_lunid d) platform))"

lemma sas_index_exact:
  "index_disks_by_sas (map (\<lambda>(i, d). (i, lunid_alias_tier_sets (dr_lunid d) platform)) (enumerate 0 ds)) a =
   (case latest (places (exact_address platform a) ds) of Some i \<Rightarrow> Some i
      | None \<Rightarrow> sole (places (shifted_address platform a) ds))"
proof -
  let ?t = "\<lambda>d. lunid_alias_tier_sets (dr_lunid d) platform"
  have ex: "map (\<lambda>(i, ex, sh). (i, ex)) (map (\<lambda>(i, d). (i, ?t d)) (enumerate 0 ds)) =
      map (\<lambda>(i, d). (i, fst (?t d))) (enumerate 0 ds)"
    and sh: "map (\<lambda>(i, ex, sh). (i, sh)) (map (\<lambda>(i, d). (i, ?t d)) (enumerate 0 ds)) =
      map (\<lambda>(i, d). (i, snd (?t d))) (enumerate 0 ds)"
    by (simp_all add: split_beta)
  have "(case answer_of rs of Some (Some i) \<Rightarrow> Some i | _ \<Rightarrow> None) = sole rs" for rs :: "nat list"
    by (cases rs rule: remdups_adj.cases) simp_all
  then show ?thesis
    by (simp only: index_disks_by_sas_def Let_def ex sh put_index noted_index owners_of_records
        exact_address_def [abs_def] shifted_address_def [abs_def])
qed

lemma by_key_index: "by_key (index_disk_records ds platform unowned) k = latest (places (\<lambda>d. k \<in> set (dr_lookup_keys d)) ds)"
  by (simp add: index_disk_records_def Let_def put_index owners_of_records)

lemma by_slot_index: "by_slot (index_disk_records ds platform unowned) p =
    (case sole (places (\<lambda>d. p \<in> set (slot_places d)) ds) of None \<Rightarrow> None
      | Some i \<Rightarrow> if unowned \<or> dr_enclosure_id (ds ! i) \<noteq> None then Some i else None)"
  by (simp add: index_disk_records_def Let_def popped_index owners_of_records)

lemma by_sas_index: "by_sas (index_disk_records ds platform unowned) a =
    (case latest (places (exact_address platform a) ds) of Some i \<Rightarrow> Some i
      | None \<Rightarrow> sole (places (shifted_address platform a) ds))"
  by (simp add: index_disk_records_def Let_def sas_index_exact)

text \<open>The disk indexes are exact. A look-up key leads to the last record that carries it; a slot, of an
  enclosure or without one, leads to a disk only when no other record claims that slot; a SAS address leads to
  the last record with exactly that address, and only if there is none to the one record of which it is a
  neighbour, never to one of several.\<close>

theorem disk_indexes_exact:
  "let ix = index_disk_records ds platform unowned
   in by_key ix k = latest (places (\<lambda>d. k \<in> set (dr_lookup_keys d)) ds) \<and>
      by_slot ix p = (case sole (places (\<lambda>d. p \<in> set (slot_places d)) ds) of None \<Rightarrow> None
        | Some i \<Rightarrow> if \<not> unowned \<and> dr_enclosure_id (ds ! i) = None then None else Some i) \<and>
      by_sas ix a = (case latest (places (exact_address platform a) ds) of Some i \<Rightarrow> Some i
        | None \<Rightarrow> sole (places (shifted_address platform a) ds))"
  by (simp add: Let_def by_key_index by_slot_index by_sas_index split: option.split)

subsection \<open>Placing a disk needs evidence\<close>

lemma first_hit_Nil [simp]: "first_hit f [] = None"
  by (simp add: first_hit_def)

lemma first_hit_Cons [simp]: "first_hit f (x # xs) = (case f x of None \<Rightarrow> first_hit f xs | Some y \<Rightarrow> Some y)"
  by (simp add: first_hit_def List.map_filter_simps split: option.split)

lemma first_hit_SomeD: "first_hit f xs = Some y \<Longrightarrow> \<exists>x\<in>set xs. f x = Some y"
  by (induction xs) (auto split: option.splits)

lemma first_hit_None: "first_hit f xs = None \<longleftrightarrow> (\<forall>x\<in>set xs. f x = None)"
  by (induction xs) (auto split: option.splits)

lemma first_hit_constant: "\<exists>x\<in>set xs. f x \<noteq> None \<Longrightarrow> \<forall>x\<in>set xs. f x = None \<or> f x = Some y \<Longrightarrow> first_hit f xs = Some y"
  using first_hit_None [of f xs] first_hit_SomeD [of f xs] by (cases "first_hit f xs") force+

lemma set_filled: "s \<in> set (filled vs) \<longleftrightarrow> Some s \<in> set vs \<and> s \<noteq> ''''"
  by (induction vs) (auto simp: filled_def List.map_filter_simps split: option.split)

lemma finite_lookup_keys [simp]: "finite (normalize_lookup_keys v)"
  by (auto simp: normalize_lookup_keys_def split: option.splits)

lemma first_source_Some: "rs_disk (first_source ss) = Some i \<Longrightarrow> (rs_source (first_source ss), Some i) \<in> set ss"
  by (induction ss rule: first_source.induct) auto

lemma first_source_None: "rs_disk (first_source ss) = None \<longleftrightarrow> (\<forall>s\<in>set ss. snd s = None)"
  by (induction ss rule: first_source.induct) auto

text \<open>The record that carries a key, the record of a SAS address.\<close>

definition named :: "disk_record list \<Rightarrow> string \<Rightarrow> nat \<Rightarrow> bool" where
  "named ds k i \<longleftrightarrow> latest (places (\<lambda>d. k \<in> set (dr_lookup_keys d)) ds) = Some i"

definition addressed :: "string \<Rightarrow> disk_record list \<Rightarrow> string \<Rightarrow> nat \<Rightarrow> bool" where
  "addressed platform ds a i \<longleftrightarrow> (case latest (places (exact_address platform a) ds) of Some j \<Rightarrow> i = j
     | None \<Rightarrow> sole (places (shifted_address platform a) ds) = Some i)"

text \<open>What can place a disk in a bay, over the records themselves: the hand-made assignment, the slot the record
  reports for the enclosure, a name the enclosure lists, a slot reported without or with the same physical
  enclosure, a hint, the SAS address, and the slot map of the enclosure services.\<close>

inductive evidence :: "string \<Rightarrow> bool \<Rightarrow> int \<Rightarrow> string option \<Rightarrow> manual_mapping option \<Rightarrow> disk_record list \<Rightarrow>
    slot_status \<Rightarrow> ssh_data \<Rightarrow> string \<Rightarrow> nat \<Rightarrow> bool"
  for platform unowned slot enc mapping ds st sd where
  assigned: "mapping = Some m \<Longrightarrow> c \<in> set (filled [mm_serial m, mm_gptid m, mm_device_name m]) \<Longrightarrow>
    k \<in> normalize_lookup_keys (Some c) \<Longrightarrow> named ds k i \<Longrightarrow>
    evidence platform unowned slot enc mapping ds st sd (mapped_source mapping) i"
| own_slot: "enc \<noteq> None \<Longrightarrow> sole (places (\<lambda>d. (enc, slot) \<in> set (slot_places d)) ds) = Some i \<Longrightarrow>
    evidence platform unowned slot enc mapping ds st sd ''api-slot'' i"
| listed: "n \<in> set (ss_device_names st) \<Longrightarrow> device_key (Some n) \<noteq> '''' \<Longrightarrow> named ds (device_key (Some n)) i \<Longrightarrow>
    evidence platform unowned slot enc mapping ds st sd (name_source st) i"
| bare_slot: "sole (places (\<lambda>d. dr_slot d = Some slot) ds) = Some i \<Longrightarrow>
    unowned \<or> dr_enclosure_id (ds ! i) \<noteq> None \<Longrightarrow>
    dr_enclosure_id (ds ! i) = None \<or>
      resolve_physical_mapping_scope (dr_enclosure_id (ds ! i)) = resolve_physical_mapping_scope enc \<Longrightarrow>
    evidence platform unowned slot enc mapping ds st sd ''api-slot-fallback'' i"
| hinted: "(s, Some h) \<in> set [(''device-hint'', ss_device_hint st), (''serial-hint'', ss_serial_hint st),
      (''gptid-hint'', ss_gptid_hint st)] \<Longrightarrow> k \<in> normalize_lookup_keys (Some h) \<Longrightarrow> named ds k i \<Longrightarrow>
    evidence platform unowned slot enc mapping ds st sd s i"
| address: "normalize_hex_identifier (ss_sas_address_hint st) = Some a \<Longrightarrow> addressed platform ds a i \<Longrightarrow>
    evidence platform unowned slot enc mapping ds st sd ''sas-address'' i"
| ses_map: "sd_ses_slot_to_device sd slot = Some d \<Longrightarrow> d \<noteq> '''' \<Longrightarrow> named ds (py_lower d) i \<Longrightarrow>
    evidence platform unowned slot enc mapping ds st sd ''ses-slot-map'' i"

lemma by_key_named: "by_key (index_disk_records ds platform unowned) k = Some i \<longleftrightarrow> named ds k i"
  by (simp add: by_key_index named_def)

lemma by_sas_addressed: "by_sas (index_disk_records ds platform unowned) a = Some i \<longleftrightarrow> addressed platform ds a i"
  by (auto simp: by_sas_index addressed_def split: option.split)

lemma by_slot_Some: "by_slot (index_disk_records ds platform unowned) p = Some i \<longleftrightarrow>
    sole (places (\<lambda>d. p \<in> set (slot_places d)) ds) = Some i \<and> (unowned \<or> dr_enclosure_id (ds ! i) \<noteq> None)"
  by (auto simp: by_slot_index split: option.split)

lemma owned_place: "(Some e, n) \<in> set (slot_places d) \<Longrightarrow> dr_enclosure_id d = Some e"
  by (auto simp: slot_places_def split: option.splits if_splits)

lemma bare_place: "(None, n) \<in> set (slot_places d) \<longleftrightarrow> dr_slot d = Some n"
  by (auto simp: slot_places_def split: option.split)

lemma latest_in: "latest rs = Some r \<Longrightarrow> r \<in> set rs"
  by (auto simp: latest_def split: if_splits)

lemma sole_in: "sole rs = Some r \<Longrightarrow> r \<in> set rs"
  by (auto simp: sole_def split: list.splits)

lemma named_bound: "named ds k i \<Longrightarrow> i < length ds"
  by (auto simp: named_def set_places dest: latest_in)

lemma evidence_bound: "evidence platform unowned slot enc mapping ds st sd s i \<Longrightarrow> i < length ds"
  by (induction rule: evidence.induct)
    (auto simp: set_places addressed_def split: option.splits dest!: latest_in sole_in named_bound)

lemma keyed_disk_named:
  assumes "\<And>S. finite S \<Longrightarrow> set (ord S) = S"
  shows "keyed_disk ord (index_disk_records ds platform unowned) c = Some i \<Longrightarrow>
      \<exists>k\<in>normalize_lookup_keys (Some c). named ds k i"
    and "keyed_disk ord (index_disk_records ds platform unowned) c = None \<Longrightarrow>
      \<forall>k\<in>normalize_lookup_keys (Some c). \<forall>i. \<not> named ds k i"
  using assms [of "normalize_lookup_keys (Some c)"]
  by (auto simp: keyed_disk_def first_hit_None dest!: first_hit_SomeD simp flip: by_key_named [where platform = platform and unowned = unowned])

text \<open>Every entry of the list of sources is evidence, and every evidence has an entry.\<close>

lemma sources_evidence:
  assumes ord: "\<And>S. finite S \<Longrightarrow> set (ord S) = S"
    and s: "(s, Some i) \<in> set (disk_sources ord platform slot enc mapping (index_disk_records ds platform unowned) ds st sd)"
  shows "evidence platform unowned slot enc mapping ds st sd s i"
proof -
  let ?ix = "index_disk_records ds platform unowned"
  note named = by_key_named [of ds platform unowned] and keyed = keyed_disk_named [OF ord]
  consider "s = mapped_source mapping" "Some i = mapped_disk ord ?ix mapping"
    | "s = ''sas-address''" "Some i = sas_disk ?ix st"
    | "s = ''api-slot''" "enc \<noteq> None" "Some i = by_slot ?ix (enc, slot)"
    | "s = name_source st" "Some i = named_disk ?ix st"
    | "s = ''api-slot-fallback''" "Some i = unowned_disk ?ix ds slot enc"
    | h where "(s, Some h) \<in> set [(''device-hint'', ss_device_hint st), (''serial-hint'', ss_serial_hint st),
        (''gptid-hint'', ss_gptid_hint st)]" "keyed_disk ord ?ix h = Some i"
    | "s = ''ses-slot-map''" "Some i = (case sd_ses_slot_to_device sd slot of None \<Rightarrow> None
        | Some d \<Rightarrow> if d = '''' then None else by_key ?ix (py_lower d))"
    using s unfolding disk_sources_def list.set insert_iff empty_iff prod.inject
  proof (elim disjE conjE)
    assume "Some i = (if platform = ''quantastor'' \<and> normalize_hex_identifier (ss_sas_address_hint st) \<noteq> Some ''0''
        then sas_disk ?ix st else None)" "s = ''sas-address''"
    then show thesis using that(2) by (auto split: if_splits)
  next
    assume "Some i = (if enc = None then None else by_slot ?ix (enc, slot))" "s = ''api-slot''"
    then show thesis using that(3) by (auto split: if_splits)
  next
    assume "s = ''device-hint''" "Some i = hinted_disk ord ?ix (ss_device_hint st)"
    then show thesis using that(6) by (cases "ss_device_hint st") (auto simp: hinted_disk_def)
  next
    assume "s = ''serial-hint''" "Some i = hinted_disk ord ?ix (ss_serial_hint st)"
    then show thesis using that(6) by (cases "ss_serial_hint st") (auto simp: hinted_disk_def)
  next
    assume "s = ''gptid-hint''" "Some i = hinted_disk ord ?ix (ss_gptid_hint st)"
    then show thesis using that(6) by (cases "ss_gptid_hint st") (auto simp: hinted_disk_def)
  qed (use that in blast)+
  then show ?thesis
  proof cases
    case 1
    from 1(2) [symmetric] obtain m c where "mapping = Some m" "c \<in> set (filled [mm_serial m, mm_gptid m, mm_device_name m])"
      "keyed_disk ord ?ix c = Some i"
      by (auto simp: mapped_disk_def split: option.splits dest!: first_hit_SomeD)
    moreover from this obtain k where "k \<in> normalize_lookup_keys (Some c)" "named ds k i" using keyed(1) by blast
    ultimately show ?thesis unfolding 1(1) by (blast intro: evidence.assigned)
  next
    case 2
    from 2(2) [symmetric] show ?thesis unfolding 2(1) by (auto simp: sas_disk_def by_sas_addressed split: option.splits intro: evidence.address)
  next
    case 3
    from 3(3) [symmetric] 3(2) show ?thesis unfolding 3(1) by (auto simp: by_slot_Some intro: evidence.own_slot)
  next
    case 4
    from 4(2) [symmetric] obtain n where "n \<in> set (ss_device_names st)" "device_key (Some n) \<noteq> ''''" "by_key ?ix (device_key (Some n)) = Some i"
      by (auto simp: named_disk_def split: if_splits dest!: first_hit_SomeD)
    then show ?thesis unfolding 4(1) by (auto simp: named intro: evidence.listed)
  next
    case 5
    from 5(2) [symmetric] show ?thesis unfolding 5(1)
      by (auto simp: unowned_disk_def by_slot_Some bare_place split: option.splits if_splits intro!: evidence.bare_slot)
  next
    case 6
    then show ?thesis using keyed(1) by (blast intro: evidence.hinted)
  next
    case 7
    from 7(2) [symmetric] show ?thesis unfolding 7(1)
      by (auto simp: named intro: evidence.ses_map split: option.splits if_splits)
  qed
qed

lemma evidence_sources:
  assumes ord: "\<And>S. finite S \<Longrightarrow> set (ord S) = S" and e: "evidence platform unowned slot enc mapping ds st sd s i"
  shows "\<exists>src\<in>set (disk_sources ord platform slot enc mapping (index_disk_records ds platform unowned) ds st sd). snd src \<noteq> None"
proof -
  let ?ix = "index_disk_records ds platform unowned"
  note named = by_key_named [of ds platform unowned, symmetric] and keyed = keyed_disk_named(2) [OF ord]
  have hit: "keyed_disk ord ?ix c \<noteq> None" if "k \<in> normalize_lookup_keys (Some c)" "named ds k i" for k c
    using keyed that by blast
  have "mapped_disk ord ?ix mapping \<noteq> None \<or> sas_disk ?ix st \<noteq> None \<or> (enc \<noteq> None \<and> by_slot ?ix (enc, slot) \<noteq> None) \<or>
     named_disk ?ix st \<noteq> None \<or> unowned_disk ?ix ds slot enc \<noteq> None \<or> hinted_disk ord ?ix (ss_device_hint st) \<noteq> None \<or>
     hinted_disk ord ?ix (ss_serial_hint st) \<noteq> None \<or> hinted_disk ord ?ix (ss_gptid_hint st) \<noteq> None \<or>
     (\<exists>d. sd_ses_slot_to_device sd slot = Some d \<and> d \<noteq> '''' \<and> by_key ?ix (py_lower d) \<noteq> None)"
    using e
  proof cases
    case (assigned m c k)
    then have "mapped_disk ord ?ix mapping \<noteq> None" using hit [of k c] by (auto simp: mapped_disk_def first_hit_None intro!: bexI [of _ c])
    then show ?thesis by blast
  next
    case own_slot
    then obtain e where e: "enc = Some e" by blast
    moreover have "dr_enclosure_id (ds ! i) = Some e"
      using own_slot e sole_in [OF own_slot(3)] by (auto simp: set_places dest: owned_place)
    ultimately have "by_slot ?ix (enc, slot) = Some i" using own_slot by (simp add: by_slot_Some)
    then show ?thesis using e by simp
  next
    case (listed n)
    then have "named_disk ?ix st \<noteq> None" by (auto simp: named_disk_def first_hit_None named)
    then show ?thesis by blast
  next
    case bare_slot
    then have "by_slot ?ix (None, slot) = Some i" by (simp add: by_slot_Some bare_place)
    then have "unowned_disk ?ix ds slot enc \<noteq> None" using bare_slot by (simp add: unowned_disk_def)
    then show ?thesis by blast
  next
    case (hinted h k)
    then have "keyed_disk ord ?ix h \<noteq> None" using hit by blast
    moreover have "ss_device_hint st = Some h \<or> ss_serial_hint st = Some h \<or> ss_gptid_hint st = Some h" using hinted(1) by auto
    ultimately have "hinted_disk ord ?ix (ss_device_hint st) \<noteq> None \<or> hinted_disk ord ?ix (ss_serial_hint st) \<noteq> None \<or>
        hinted_disk ord ?ix (ss_gptid_hint st) \<noteq> None"
      by (elim disjE) (simp_all add: hinted_disk_def)
    then show ?thesis by blast
  next
    case (address a)
    then have "sas_disk ?ix st \<noteq> None" using by_sas_addressed [of ds platform unowned a i] by (simp add: sas_disk_def)
    then show ?thesis by blast
  next
    case (ses_map d)
    then show ?thesis by (simp add: named)
  qed
  then show ?thesis unfolding disk_sources_def by (elim disjE exE conjE; auto)
qed

text \<open>C10: No disk is placed without evidence, and no evidence is overlooked. When the enclosure services report
  an empty bay, no disk is placed and an assignment by hand is flagged as stale. Otherwise, in whatever order
  sets are iterated, a disk is placed exactly when some evidence names one, and the evidence it is placed
  by, over the records themselves, is of the reported source: a slot number without its enclosure, for one, places
  only a disk whose record names no other physical enclosure and which alone reports that slot.\<close>

theorem resolution_is_evidence:
  assumes "\<And>S. finite S \<Longrightarrow> set (ord S) = S"
  shows "let r = resolve_disk_for_slot ord platform slot enc mapping (index_disk_records ds platform unowned) ds st sd False
    in if slot_has_live_empty_evidence st then rs_disk r = None \<and> rs_stale_manual_mapping r = (mapping \<noteq> None)
       else (case rs_disk r of
           Some i \<Rightarrow> i < length ds \<and> evidence platform unowned slot enc mapping ds st sd (rs_source r) i
         | None \<Rightarrow> \<not> (\<exists>s i. evidence platform unowned slot enc mapping ds st sd s i))"
proof (cases "slot_has_live_empty_evidence st")
  case True
  then show ?thesis by (simp add: resolve_disk_for_slot_def)
next
  case False
  let ?ss = "disk_sources ord platform slot enc mapping (index_disk_records ds platform unowned) ds st sd"
  have "case rs_disk (first_source ?ss) of
      Some i \<Rightarrow> i < length ds \<and> evidence platform unowned slot enc mapping ds st sd (rs_source (first_source ?ss)) i
    | None \<Rightarrow> \<not> (\<exists>s i. evidence platform unowned slot enc mapping ds st sd s i)"
  proof (cases "rs_disk (first_source ?ss)")
    case None
    then have "\<not> evidence platform unowned slot enc mapping ds st sd s i" for s i
      using evidence_sources [OF assms, of platform unowned slot enc mapping ds st sd s i] by (auto simp: first_source_None)
    then show ?thesis by (simp add: None)
  next
    case (Some i)
    then have "evidence platform unowned slot enc mapping ds st sd (rs_source (first_source ?ss)) i"
      using sources_evidence [OF assms first_source_Some [OF Some]] by blast
    then show ?thesis using Some by (simp add: evidence_bound)
  qed
  then show ?thesis using False by (simp add: resolve_disk_for_slot_def Let_def)
qed

text \<open>A disk that reports bay 3 of a shelf, a bay with no facts of its own, and no data over SSH.\<close>

definition sample_disk :: disk_record where
  "sample_disk = \<lparr>dr_raw = [], dr_device_name = Some ''da7'', dr_path_device_name = Some ''da7'', dr_multipath_name = None,
     dr_multipath_member = None, dr_serial = Some ''ZA1'', dr_model = None, dr_size_bytes = None, dr_identifier = None,
     dr_health = None, dr_pool_name = None, dr_lunid = Some ''5000c500a1'', dr_bus = None, dr_temperature_c = None,
     dr_last_smart_test_type = None, dr_last_smart_test_status = None, dr_last_smart_test_lifetime_hours = None,
     dr_logical_block_size = None, dr_physical_block_size = None, dr_enclosure_id = Some ''shelf'', dr_slot = Some 3,
     dr_smart_devices = [''da7''], dr_lookup_keys = [''da7'', ''za1'']\<rparr>"

definition sample_status :: slot_status where
  "sample_status = \<lparr>ss_presence_conflict = False, ss_presence_source = None, ss_present = None, ss_ses_device = None,
     ss_ses_targets = [], ss_sas_address_hint = None, ss_sas_device_type = None, ss_device_names = [],
     ss_device_names_source = None, ss_device_hint = None, ss_serial_hint = None, ss_gptid_hint = None\<rparr>"

definition sample_ssh :: ssh_data where
  "sample_ssh = \<lparr>sd_gptid_to_device = (\<lambda>_. None), sd_device_to_gptid = (\<lambda>_. None), sd_device_to_gptids = (\<lambda>_. None),
     sd_zpool_members = (\<lambda>_. None), sd_zpool_device_members = (\<lambda>_. None), sd_geoms = [], sd_multipath_info = [],
     sd_ses_slot_to_device = (\<lambda>_. None), sd_camcontrol_models = (\<lambda>_. None), sd_camcontrol_controllers = (\<lambda>_. None),
     sd_camcontrol_peer_devices = (\<lambda>_. None), sd_ses_enclosures = [], sd_unifi_led_states = (\<lambda>_. None)\<rparr>"

definition sample_member :: zpool_member where
  "sample_member = \<lparr>zm_pool_name = ''tank'', zm_vdev_class = ''data'', zm_vdev_name = None, zm_topology_label = None,
     zm_health = None, zm_raw_name = '''', zm_raw_path = None\<rparr>"

theorem resolution_is_evidence_witness:
  "evidence ''core'' True 3 (Some ''shelf'') None [sample_disk] sample_status sample_ssh ''api-slot'' 0"
proof -
  let ?r = "resolve_disk_for_slot sorted_list_of_set ''core'' 3 (Some ''shelf'') None
    (index_disk_records [sample_disk] ''core'' True) [sample_disk] sample_status sample_ssh False"
  have "rs_disk ?r = Some 0" "rs_source ?r = ''api-slot''" "\<not> slot_has_live_empty_evidence sample_status"
    by (simp_all add: resolve_disk_for_slot_def disk_sources_def mapped_disk_def by_slot_index places_def slot_places_def
        sample_disk_def sample_status_def slot_has_live_empty_evidence_def normalize_text_def)
  then show ?thesis
    using resolution_is_evidence [where ord = sorted_list_of_set and platform = "''core''" and unowned = True and slot = 3 and
      enc = "Some ''shelf''" and mapping = None and ds = "[sample_disk]" and st = sample_status and sd = sample_ssh]
    by simp
qed

subsection \<open>Assignments by hand\<close>

text \<open>An assignment by hand that names one disk places that disk, whatever else is known of the bay. When the
  look-up keys of the texts of a mapping lead to one disk only, that disk is the resolution, with the source of the
  mapping, in whatever order sets are iterated; a layout whose bay order is unvalidated uses nothing else, and any
  other bay gives way only to the enclosure reporting it empty.\<close>

theorem assignment_decides:
  assumes "\<And>S. finite S \<Longrightarrow> set (ord S) = S"
    and "{j. \<exists>c\<in>set (filled [mm_serial m, mm_gptid m, mm_device_name m]).
      \<exists>k\<in>normalize_lookup_keys (Some c). named ds k j} = {i}"
    and "manual_only \<or> \<not> slot_has_live_empty_evidence st"
  shows "resolve_disk_for_slot ord platform slot enc (Some m) (index_disk_records ds platform unowned) ds st sd manual_only =
    \<lparr>rs_disk = Some i, rs_source = mapped_source (Some m), rs_stale_manual_mapping = False\<rparr>"
proof -
  let ?ix = "index_disk_records ds platform unowned" let ?cs = "filled [mm_serial m, mm_gptid m, mm_device_name m]"
  note keyed = keyed_disk_named [OF assms(1), where ds = ds and platform = platform and unowned = unowned]
  have "keyed_disk ord ?ix c = None \<or> keyed_disk ord ?ix c = Some i" if "c \<in> set ?cs" for c
  proof (cases "keyed_disk ord ?ix c")
    case (Some a)
    then have "\<exists>k\<in>normalize_lookup_keys (Some c). named ds k a" using keyed(1) by blast
    then have "a \<in> {i}" unfolding assms(2) [symmetric] using that by blast
    then show ?thesis using Some by simp
  qed simp
  moreover have "\<exists>c\<in>set ?cs. keyed_disk ord ?ix c \<noteq> None" using keyed(2) assms(2) by blast
  ultimately have "mapped_disk ord ?ix (Some m) = Some i"
    unfolding mapped_disk_def option.case by (intro first_hit_constant) blast+
  then show ?thesis using assms(3) by (auto simp: resolve_disk_for_slot_def disk_sources_def)
qed

definition sample_mapping :: "string \<Rightarrow> manual_mapping" where
  "sample_mapping serial = \<lparr>mm_system_id = None, mm_slot = 3, mm_enclosure_id = None, mm_serial = Some serial,
     mm_device_name = None, mm_gptid = None, mm_notes = None, mm_updated_at = 0, mm_source = ''manual''\<rparr>"

lemma sample_keys: "normalize_lookup_keys (Some ''ZA1'') = {''za1''}"
  by code_simp

theorem assignment_decides_witness:
  "resolve_disk_for_slot sorted_list_of_set ''core'' 9 None (Some (sample_mapping ''ZA1''))
     (index_disk_records [sample_disk] ''core'' True) [sample_disk] sample_status sample_ssh True =
   \<lparr>rs_disk = Some 0, rs_source = ''manual'', rs_stale_manual_mapping = False\<rparr>"
proof -
  let ?m = "sample_mapping ''ZA1''"
  have "set (filled [mm_serial ?m, mm_gptid ?m, mm_device_name ?m]) = {''ZA1''}"
    by (auto simp: set_filled sample_mapping_def)
  moreover have "named [sample_disk] ''za1'' j \<longleftrightarrow> j = 0" for j
    by (auto simp: named_def places_def latest_def sample_disk_def)
  ultimately have "{j. \<exists>c\<in>set (filled [mm_serial ?m, mm_gptid ?m, mm_device_name ?m]).
      \<exists>k\<in>normalize_lookup_keys (Some c). named [sample_disk] k j} = {0}"
    by (simp add: sample_keys)
  then show ?thesis
    using assignment_decides [where ord = sorted_list_of_set and m = ?m and ds = "[sample_disk]" and i = 0 and manual_only = True]
    by (simp add: mapped_source_def sample_mapping_def)
qed

text \<open>A text whose look-up keys lead to two disks: the disk of a mapping then depends on the order in which Python
  iterates a set of texts, which changes from one process to the next.\<close>

lemma assignment_order_matters:
  "let ds = [sample_disk\<lparr>dr_lookup_keys := [''s-da1'', ''da1'']\<rparr>, sample_disk\<lparr>dr_lookup_keys := [''da1'']\<rparr>];
       disk = (\<lambda>ord. mapped_disk ord (index_disk_records ds ''core'' True) (Some (sample_mapping ''S-DA1'')))
   in disk sorted_list_of_set = Some 1 \<and> disk (rev \<circ> sorted_list_of_set) = Some 0"
proof -
  have "normalize_lookup_keys (Some ''S-DA1'') = {''s-da1'', ''da1''}" by code_simp
  then show ?thesis
    by (simp add: mapped_disk_def keyed_disk_def sample_mapping_def filled_def List.map_filter_simps by_key_index
        places_def latest_def insert_commute)
qed

subsection \<open>Multipath evidence is unambiguous\<close>

lemma agree_on_geom_iff:
  assumes "\<And>k. index k = answer_of (owners_of cs k)"
  shows "agree_on_geom index matched ns = Some g \<longleftrightarrow>
    set_option matched \<union> (\<Union>n\<in>set ns. set (owners_of cs (py_lower n))) = {g}"
proof (induction ns arbitrary: matched)
  case Nil
  then show ?case by (cases matched) auto
next
  case (Cons n ns)
  have d: "distinct (owners_of cs (py_lower n))" by (simp add: owners_of_def)
  show ?case
  proof (cases "owners_of cs (py_lower n)" rule: remdups_adj.cases)
    case 1
    then show ?thesis using Cons by (simp add: assms)
  next
    case (2 h)
    then show ?thesis using Cons by (cases matched) (auto simp: assms)
  next
    case (3 a b rest)
    then have "a \<noteq> b" using d by simp
    then show ?thesis using 3 by (auto simp: assms)
  qed
qed

lemma set_consumer_owners: "set (owners_of (consumer_claims sd) k) =
    {h \<in> snd ` set (sd_multipath_info sd). \<exists>c\<in>set (mi_consumers (sd_geoms sd ! h)).
       device_key (Some (mc_device_name c)) \<noteq> '''' \<and> device_key (Some (mc_device_name c)) = k}"
proof -
  have "(k, h) \<in> set (consumer_claims sd) \<longleftrightarrow> h \<in> snd ` set (sd_multipath_info sd) \<and>
      (\<exists>c\<in>set (mi_consumers (sd_geoms sd ! h)). device_key (Some (mc_device_name c)) \<noteq> '''' \<and>
        device_key (Some (mc_device_name c)) = k)" for h
    by (auto simp: consumer_claims_def claims_def)
  then show ?thesis by (force simp: owners_of_def)
qed

text \<open>A name belongs to a geom only on unanimous evidence. The match is a geom exactly when that geom is the only
  one any of whose consumers is one of the given names or a path that camcontrol lists beside them; a path that two
  geoms claim, and names of different geoms, give no match.\<close>

theorem multipath_match_unanimous:
  "match_multipath_consumer (index_multipath_consumers sd) sd names = Some g \<longleftrightarrow>
     {h \<in> snd ` set (sd_multipath_info sd). \<exists>c\<in>set (mi_consumers (sd_geoms sd ! h)).
        device_key (Some (mc_device_name c)) \<noteq> '''' \<and>
        device_key (Some (mc_device_name c)) \<in> py_lower ` set (consumer_candidates sd names)} = {g}"
proof -
  have "index_multipath_consumers sd k = answer_of (owners_of (consumer_claims sd) k)" for k
    by (simp add: index_multipath_consumers_def noted_index)
  then have "match_multipath_consumer (index_multipath_consumers sd) sd names = Some g \<longleftrightarrow>
      (\<Union>n\<in>set (consumer_candidates sd names). set (owners_of (consumer_claims sd) (py_lower n))) = {g}"
    unfolding match_multipath_consumer_def by (subst agree_on_geom_iff) auto
  also have "(\<Union>n\<in>set (consumer_candidates sd names). set (owners_of (consumer_claims sd) (py_lower n))) =
    {h \<in> snd ` set (sd_multipath_info sd). \<exists>c\<in>set (mi_consumers (sd_geoms sd ! h)).
        device_key (Some (mc_device_name c)) \<noteq> '''' \<and>
        device_key (Some (mc_device_name c)) \<in> py_lower ` set (consumer_candidates sd names)}"
    unfolding set_consumer_owners by auto
  finally show ?thesis .
qed

subsection \<open>Pool membership is read from the tables\<close>

lemma agree_on_member_iff:
  "agree_on_member inferred ms = Some m \<longleftrightarrow> set_option inferred \<union> without_path ` set ms = {m}"
proof (induction ms arbitrary: inferred)
  case Nil
  then show ?case by (cases inferred) auto
next
  case (Cons z ms)
  show ?case by (cases inferred) (auto simp: Cons)
qed

text \<open>The keys of a bay as a set.\<close>

definition bay_keys :: "(py_value \<Rightarrow> string) \<Rightarrow> disk_record option \<Rightarrow> string option \<Rightarrow> string option \<Rightarrow> string set" where
  "bay_keys str_of disk device gptid =
     (\<Union>v\<in>set (membership_values str_of disk device gptid). normalize_lookup_keys v) \<union>
     (case disk of None \<Rightarrow> {} | Some d \<Rightarrow> py_lower ` set (dr_lookup_keys d))"

lemma set_membership_keys:
  assumes "\<And>S. finite S \<Longrightarrow> set (ord S) = S"
  shows "set (membership_keys ord str_of disk device gptid) = bay_keys str_of disk device gptid"
  using assms by (auto simp: membership_keys_def bay_keys_def split: option.split)

definition direct_member :: "ssh_data \<Rightarrow> members \<Rightarrow> members" where
  "direct_member sd api k = (case sd_zpool_members sd k of Some m \<Rightarrow> Some m | None \<Rightarrow> api k)"

text \<open>C36: A bay is shown in a pool only on evidence for that bay. A member is one that a membership table holds under a
  key of the bay; failing all of those, the device table, without a path; and only for a CORE bay without a disk, when
  both have nothing, the member on which all tables agree for the one geom that owns the bay's path. No membership
  is reported only when no table has a key of the bay.\<close>

theorem membership_is_evidence:
  assumes "\<And>S. finite S \<Longrightarrow> set (ord S) = S"
  shows "let K = bay_keys str_of disk device gptid; direct = direct_member sd api ` K;
             nodes = (\<lambda>k. map_option without_path (sd_zpool_device_members sd k)) ` K
    in case lookup_zpool_member ord str_of platform sd api disk device gptid inference of
         Some m \<Rightarrow> Some m \<in> direct \<or> direct \<subseteq> {None} \<and> (Some m \<in> nodes \<or> nodes \<subseteq> {None} \<and>
           inference \<and> disk = None \<and> platform = ''core'' \<and>
           (\<exists>g. index_multipath_consumers sd (device_key device) = Some (Some g) \<and>
             without_path ` set (geom_members sd api (sd_geoms sd ! g)) = {m}))
       | None \<Rightarrow> direct \<subseteq> {None} \<and> nodes \<subseteq> {None}"
proof -
  let ?ks = "membership_keys ord str_of disk device gptid"
  let ?nodes = "\<lambda>k. map_option without_path (sd_zpool_device_members sd k)"
  have hit: "case first_hit f ?ks of Some m \<Rightarrow> Some m \<in> f ` bay_keys str_of disk device gptid
      | None \<Rightarrow> f ` bay_keys str_of disk device gptid \<subseteq> {None}" for f :: "string \<Rightarrow> zpool_member option"
    using first_hit_SomeD [of f ?ks] first_hit_None [of f ?ks]
    by (auto simp: set_membership_keys [OF assms] split: option.split) (metis imageI)
  have lookup: "lookup_zpool_member ord str_of platform sd api disk device gptid inference =
     (case first_hit (direct_member sd api) ?ks of Some m \<Rightarrow> Some m
      | None \<Rightarrow> (case first_hit ?nodes ?ks of Some m \<Rightarrow> Some m
         | None \<Rightarrow> if \<not> inference \<or> disk \<noteq> None \<or> platform \<noteq> ''core'' then None
             else (case index_multipath_consumers sd (device_key device) of
                 Some (Some g) \<Rightarrow> agree_on_member None (geom_members sd api (sd_geoms sd ! g)) | _ \<Rightarrow> None)))"
    by (simp add: lookup_zpool_member_def Let_def direct_member_def [abs_def])
  show ?thesis
  proof (cases "first_hit (direct_member sd api) ?ks")
    case (Some m)
    then show ?thesis using hit [of "direct_member sd api"] by (simp add: lookup)
  next
    case none: None
    show ?thesis
    proof (cases "first_hit ?nodes ?ks")
      case (Some m)
      then show ?thesis using none hit [of "direct_member sd api"] hit [of ?nodes] by (simp add: lookup)
    next
      case None
      then show ?thesis using none hit [of "direct_member sd api"] hit [of ?nodes] agree_on_member_iff [of None]
        by (auto simp: lookup Let_def split: option.split)
    qed
  qed
qed

theorem membership_is_evidence_witness:
  "Some sample_member \<in> direct_member (sample_ssh\<lparr>sd_zpool_members := (\<lambda>k. if k = ''za1'' then Some sample_member else None)\<rparr>)
     (\<lambda>_. None) ` bay_keys (\<lambda>_. '''') (Some sample_disk) (Some ''da7'') None"
proof -
  let ?sd = "sample_ssh\<lparr>sd_zpool_members := (\<lambda>k. if k = ''za1'' then Some sample_member else None)\<rparr>"
  have "lookup_zpool_member sorted_list_of_set (\<lambda>_. '''') ''core'' ?sd (\<lambda>_. None) (Some sample_disk) (Some ''da7'') None True =
      Some sample_member"
  proof -
    have "normalize_lookup_keys (Some ''da7'') = {''da7''}" by code_simp
    then show ?thesis
      by (simp add: lookup_zpool_member_def membership_keys_def membership_values_def sample_disk_def sample_ssh_def
          sample_keys normalize_lookup_keys_def [of None] firsts_def dict_get_def)
  qed
  then show ?thesis
    using membership_is_evidence [where ord = sorted_list_of_set and str_of = "\<lambda>_. ''''" and disk = "Some sample_disk" and
        device = "Some ''da7''" and gptid = None and sd = ?sd and api = "\<lambda>_. None" and platform = "''core''" and inference = True]
    by (auto simp: Let_def sample_ssh_def)
qed

end
