(* ===== verification/Slot_View.thy ===== *)
theory Slot_View
  imports Disk_Resolution
begin

text \<open>
  The view of a bay, \<open>InventoryService._build_slot_view\<close> of \<open>app/services/inventory.py\<close>: the device and its
  pool, presence and state, the persistent id, the elements whose light stands for the bay, and whether and how
  that light can be switched. The dictionary of slot facts is a record as in \<open>Disk_Resolution\<close>, extended by what the view
  reads. The search text and the enriched copy of the facts are not part of the view here.
\<close>

subsection \<open>Facts and settings\<close>

record slot_facts = slot_status +
  sf_resolution_source :: "string option"
  sf_stale_manual_mapping :: bool
  sf_manual_mapping_only :: bool
  sf_identify_active :: bool
  sf_mapped_disk_identify_active :: bool
  sf_status_texts :: "string list"
  sf_status :: "string option"
  sf_value :: "string option"
  sf_model_hint :: "string option"
  sf_reported_size :: "string option"
  sf_enclosure_id :: "string option"
  sf_enclosure_label :: "string option"
  sf_enclosure_name :: "string option"
  sf_ses_element_id :: "int option"
  sf_ses_slot_number :: "int option"
  sf_bmc_match_source :: "string option"
  sf_bmc_identify_active :: bool
  sf_bmc_slot_number :: "int option"
  sf_bmc_enclosure_id :: "string option"
  sf_bmc_physical_index :: "int option"
  sf_bmc_controller_id :: "int option"
  sf_vendor_slot_number :: "int option"
  sf_attached_sas_address :: "string option"
  sf_transport_protocol :: "string option"
  sf_phy_identifier :: "string option"
  sf_target_port_protocol :: "string option"
  sf_descriptor :: "string option"
  sf_smartctl_device_type :: "string option"

record enclosure_meta =
  em_id :: "string option"
  em_label :: "string option"
  em_name :: "string option"
  em_slot_number_base :: "int option"

text \<open>The settings of the system, and what the view takes from outside: \<open>str\<close> and the truth value of a payload
  value, the text of a size, and the order of a set of keys.\<close>

record view_env =
  ve_platform :: string
  ve_ssh_enabled :: bool
  ve_bmc_service :: bool
  ve_slot_number_base :: int
  ve_str :: "py_value \<Rightarrow> string"
  ve_truth :: "py_value \<Rightarrow> bool"
  ve_format_bytes :: "int option \<Rightarrow> string option"
  ve_order :: "string set \<Rightarrow> string list"

datatype slot_state = Healthy | Empty | Identify | Fault | Unknown | Unmapped

text \<open>\<open>a or b\<close> for texts that may be missing.\<close>

definition or_text :: "string option \<Rightarrow> string option \<Rightarrow> string option" where
  "or_text a b = (case a of None \<Rightarrow> b | Some s \<Rightarrow> if s = '''' then b else a)"

definition text_true :: "string option \<Rightarrow> bool" where
  "text_true a \<longleftrightarrow> a \<noteq> None \<and> a \<noteq> Some ''''"

subsection \<open>Status text\<close>

definition status_haystack :: "slot_facts \<Rightarrow> string" where
  "status_haystack f = join '' '' (map py_lower (sf_status_texts f))"

text \<open>A needle at the start of a word: not after a small letter or a digit.\<close>

definition word_char :: "char \<Rightarrow> bool" where
  "word_char c \<longleftrightarrow> ascii_digit c \<or> (let n = (of_char c :: nat) in 97 \<le> n \<and> n \<le> 122)"

fun at_word_start :: "bool \<Rightarrow> string \<Rightarrow> string \<Rightarrow> bool" where
  "at_word_start inside p [] = (\<not> inside \<and> p = [])"
| "at_word_start inside p (c # cs) =
     ((\<not> inside \<and> starts_with p (c # cs)) \<or> at_word_start (word_char c) p cs)"

definition haystack_contains :: "string \<Rightarrow> string list \<Rightarrow> bool" where
  "haystack_contains h needles \<longleftrightarrow> h \<noteq> '''' \<and> list_ex (\<lambda>n. at_word_start False (py_lower n) h) needles"

text \<open>\<open>s.replace(p, r)\<close> for a text \<open>p\<close> that is not empty.\<close>

function replace_text :: "string \<Rightarrow> string \<Rightarrow> string \<Rightarrow> string" where
  "replace_text p r [] = []"
| "replace_text p r (c # cs) =
     (if p \<noteq> [] \<and> starts_with p (c # cs) then r @ replace_text p r (drop (length p) (c # cs))
      else c # replace_text p r cs)"
  by pat_completeness auto
termination
  by (relation "measure (\<lambda>(p, r, s). length s)") (auto simp: neq_Nil_conv)

definition bad_health_keywords :: "string list" where
  "bad_health_keywords = [''fault'', ''degrad'', ''fail'', ''unavail'', ''offline'', ''removed'', ''critical'']"

definition health_is_bad :: "string option list \<Rightarrow> bool" where
  "health_is_bad vs \<longleftrightarrow> list_ex (\<lambda>v. let lowered = replace_text ''noncritical'' ''non-crit-code'' (py_lower v)
     in list_ex (\<lambda>k. has_substring k lowered) bad_health_keywords) (filled vs)"

subsection \<open>Device and membership\<close>

definition all_digits :: "string \<Rightarrow> bool" where
  "all_digits s \<longleftrightarrow> s \<noteq> '''' \<and> list_all ascii_digit s"

definition is_placeholder_hint_device :: "string option \<Rightarrow> bool" where
  "is_placeholder_hint_device v = (case v of None \<Rightarrow> False
     | Some s \<Rightarrow> s \<noteq> '''' \<and> (let t = py_strip s; parts = split_on (CHR '':'') t
         in (length parts = 4 \<and> list_all all_digits parts) \<or>
            (starts_with ''bmc-slot:'' (py_lower t) \<and> all_digits (drop 9 t))))"

definition listed_devices :: "slot_facts \<Rightarrow> string option list" where
  "listed_devices f = map (\<lambda>n. normalize_device_name (Some n)) (ss_device_names f)"

definition view_device :: "slot_facts \<Rightarrow> disk_record option \<Rightarrow> string option" where
  "view_device f disk = (case disk of Some d \<Rightarrow> dr_device_name d
     | None \<Rightarrow>
         (let fallback = (case filled (listed_devices f) of [] \<Rightarrow> None | n # _ \<Rightarrow> Some n);
              device = or_text (normalize_device_name (ss_device_hint f)) fallback
          in if is_placeholder_hint_device device then None else device))"

text \<open>Without a record, a device that the enclosure itself lists in the bay still has a known position.\<close>

definition view_source :: "slot_facts \<Rightarrow> disk_record option \<Rightarrow> string option \<Rightarrow> string option" where
  "view_source f disk device =
     (let given = normalize_text (sf_resolution_source f); names_source = normalize_text (ss_device_names_source f)
      in if disk = None \<and> (given = None \<or> given = Some ''unknown'') \<and> text_true device \<and> names_source \<noteq> None \<and>
            device \<in> set (listed_devices f)
         then Some (if names_source = Some ''enclosure_sysfs'' then ''enclosure-sysfs'' else ''device-name'')
         else given)"

text \<open>The first peer of the bay that is in a pool, with its label.\<close>

fun peer_membership :: "view_env \<Rightarrow> ssh_data \<Rightarrow> members \<Rightarrow> string list \<Rightarrow> (string option \<times> zpool_member) option" where
  "peer_membership V sd api [] = None"
| "peer_membership V sd api (p # ps) =
     (let label = sd_device_to_gptid sd (py_lower p)
      in case lookup_zpool_member (ve_order V) (ve_str V) (ve_platform V) sd api None (Some p) label False of
           Some m \<Rightarrow> Some (label, m)
         | None \<Rightarrow> peer_membership V sd api ps)"

text \<open>Label and membership of the bay before the conflict check, and the check.\<close>

definition bay_membership :: "view_env \<Rightarrow> ssh_data \<Rightarrow> members \<Rightarrow> disk_record option \<Rightarrow> string option \<Rightarrow> string list \<Rightarrow>
    string option \<times> zpool_member option" where
  "bay_membership V sd api disk device peers =
     (let gptid = (if text_true device then select_gpt_label sd api device else None)
      in case lookup_zpool_member (ve_order V) (ve_str V) (ve_platform V) sd api disk device gptid True of
           Some m \<Rightarrow> (gptid, Some m)
         | None \<Rightarrow> (case peer_membership V sd api peers of
              None \<Rightarrow> (gptid, None)
            | Some (label, m) \<Rightarrow> (or_text gptid label, Some m)))"

definition membership_conflict :: "view_env \<Rightarrow> ssh_data \<Rightarrow> disk_record option \<Rightarrow> string option \<Rightarrow>
    string option \<times> zpool_member option \<Rightarrow> bool" where
  "membership_conflict V sd disk device bm \<longleftrightarrow> ve_platform V = ''core'' \<and> text_true device \<and>
     core_bay_membership_conflict sd disk device (fst bm) (snd bm)"

definition shown_membership :: "view_env \<Rightarrow> ssh_data \<Rightarrow> members \<Rightarrow> disk_record option \<Rightarrow> string option \<Rightarrow> string list \<Rightarrow>
    string option \<times> zpool_member option" where
  "shown_membership V sd api disk device peers =
     (let bm = bay_membership V sd api disk device peers
      in if membership_conflict V sd disk device bm then (None, None) else bm)"

subsection \<open>Presence and state\<close>

text \<open>A light that the record of the mapped disk itself reports.\<close>

definition quantastor_bool :: "py_value \<Rightarrow> bool" where
  "quantastor_bool v = (case v of VBool b \<Rightarrow> b | VInt i \<Rightarrow> i \<noteq> 0
     | VStr s \<Rightarrow> py_lower (py_strip s) \<in> {''1'', ''true'', ''yes'', ''on''} | _ \<Rightarrow> False)"

definition mapped_disk_identify_active :: "view_env \<Rightarrow> slot_facts \<Rightarrow> disk_record option \<Rightarrow> bool" where
  "mapped_disk_identify_active V f disk = (case disk of None \<Rightarrow> False
     | Some d \<Rightarrow> sf_mapped_disk_identify_active f \<or> ve_truth V (dict_get (dr_raw d) ''bmc_identify_active'') \<or>
         quantastor_bool (dict_get (dr_raw d) ''isBlinking''))"

definition view_identify :: "view_env \<Rightarrow> int \<Rightarrow> slot_facts \<Rightarrow> disk_record option \<Rightarrow> ssh_data \<Rightarrow> bool" where
  "view_identify V slot f disk sd =
     (if sf_manual_mapping_only f then mapped_disk_identify_active V f disk
      else sf_identify_active f \<or> haystack_contains (status_haystack f) [''identify'', ''led=locate''] \<or>
        sd_unifi_led_states sd slot = Some True)"

definition view_faulty :: "slot_facts \<Rightarrow> disk_record option \<Rightarrow> zpool_member option \<Rightarrow> bool" where
  "view_faulty f disk member \<longleftrightarrow> haystack_contains (status_haystack f) [''fault''] \<or>
     health_is_bad [Option.bind disk dr_health, Option.bind member zm_health, normalize_text (sf_status f), normalize_text (sf_value f)]"

definition bmc_present :: "slot_facts \<Rightarrow> bool" where
  "bmc_present f \<longleftrightarrow> ss_present f = Some True \<and> (sf_bmc_slot_number f \<noteq> None \<or> sf_bmc_enclosure_id f \<noteq> None \<or>
     sf_bmc_physical_index f \<noteq> None \<or> sf_bmc_controller_id f \<noteq> None)"

definition quantastor_ses_empty :: "view_env \<Rightarrow> slot_facts \<Rightarrow> bool" where
  "quantastor_ses_empty V f \<longleftrightarrow> ve_platform V = ''quantastor'' \<and> ss_present f = Some False \<and>
     (normalize_text (ss_ses_device f) \<noteq> None \<or> ss_ses_targets f \<noteq> [] \<or> normalize_text (ss_sas_device_type f) \<noteq> None \<or>
      normalize_hex_identifier (ss_sas_address_hint f) = Some ''0'')"

definition view_empty :: "slot_facts \<Rightarrow> disk_record option \<Rightarrow> bool" where
  "view_empty f disk \<longleftrightarrow> ss_present f = Some False \<or>
     (ss_present f = None \<and> disk = None \<and> haystack_contains (status_haystack f) [''empty'', ''not installed'', ''absent''])"

definition ses_says_empty_without_disk :: "slot_facts \<Rightarrow> disk_record option \<Rightarrow> bool" where
  "ses_says_empty_without_disk f disk \<longleftrightarrow> ss_present f = Some False \<and> disk = None"

definition status_says_populated :: "slot_facts \<Rightarrow> bool" where
  "status_says_populated f \<longleftrightarrow> haystack_contains (status_haystack f) [''ok'', ''installed'', ''ready'', ''present''] \<and>
     \<not> haystack_contains (status_haystack f) [''not installed'', ''empty'', ''absent'']"

definition view_present :: "view_env \<Rightarrow> slot_facts \<Rightarrow> disk_record option \<Rightarrow> bool" where
  "view_present V f disk = (if quantastor_ses_empty V f then False
     else ss_present f = Some True \<or> disk \<noteq> None \<or> (\<not> ses_says_empty_without_disk f disk \<and> status_says_populated f))"

definition non_identify_state :: "view_env \<Rightarrow> slot_facts \<Rightarrow> disk_record option \<Rightarrow> zpool_member option \<Rightarrow>
    manual_mapping option \<Rightarrow> slot_state" where
  "non_identify_state V f disk member mapping =
     (if view_faulty f disk member \<and> \<not> ses_says_empty_without_disk f disk then Fault
      else if quantastor_ses_empty V f \<or> view_empty f disk then Empty
      else if disk \<noteq> None \<or> bmc_present f then Healthy
      else if mapping \<noteq> None then Unmapped else Unknown)"

subsection \<open>Persistent ids\<close>

text \<open>\<open>{serial_lunid}\<close> before an identifier, both dollar signs optional.\<close>

definition match_serial_lunid :: "string \<Rightarrow> string option" where
  "match_serial_lunid s =
     (let r1 = (if starts_with ''{$'' s then drop 2 s else drop 1 s); r2 = drop 13 r1;
          r3 = (if starts_with ''$'' r2 \<and> length r2 > 1 then drop 1 r2 else r2)
      in if starts_with ''{'' s \<and> py_lower (take 13 r1) = ''serial_lunid}'' \<and> r3 \<noteq> '''' \<and> CHR 0x0A \<notin> set r3
         then Some r3 else None)"

definition path_leaf :: "string \<Rightarrow> string" where
  "path_leaf s = last (split_on (CHR ''/'') s)"

definition persistent_kind :: "string \<Rightarrow> (string option \<times> string option) option" where
  "persistent_kind v =
     (let lowered = py_lower v; leaf = path_leaf v; leaf_lowered = py_lower leaf
      in if has_substring ''/dev/disk/by-partuuid/'' lowered then Some (Some leaf, Some ''PARTUUID'')
         else if has_substring ''/dev/disk/by-id/'' lowered
           then Some (Some leaf, Some (if starts_with ''wwn-'' leaf_lowered then ''WWN'' else ''Disk ID''))
         else if starts_with ''gptid/'' lowered \<or> has_substring ''/gptid/'' lowered
           then Some (or_text (normalize_gptid (Some v)) (Some v), Some ''GPTID'')
         else if starts_with ''wwn-'' leaf_lowered then Some (Some leaf, Some ''WWN'')
         else if starts_with ''eui.'' leaf_lowered then Some (Some leaf, Some ''EUI64'')
         else None)"

definition fallback_id :: "string \<Rightarrow> string option \<times> string option" where
  "fallback_id v = (case match_serial_lunid v of
       Some i \<Rightarrow> (Some (filter (\<lambda>c. \<not> py_isspace c) (py_strip i)), Some ''Serial/LUN ID'')
     | None \<Rightarrow> (Some v, None))"

fun persistent_from :: "string option \<times> string option \<Rightarrow> string option list \<Rightarrow> string option \<times> string option" where
  "persistent_from fallback [] = fallback"
| "persistent_from fallback (c # cs) = (case normalize_text c of
       None \<Rightarrow> persistent_from fallback cs
     | Some v \<Rightarrow> (case persistent_kind v of
          Some r \<Rightarrow> r
        | None \<Rightarrow> persistent_from (if fst fallback = None then fallback_id v else fallback) cs))"

definition resolve_persistent_id :: "string option list \<Rightarrow> string option \<times> string option" where
  "resolve_persistent_id cs = persistent_from (None, None) cs"

subsection \<open>Elements of the enclosure services\<close>

record ses_target =
  tg_ses_device :: string
  tg_ses_element_id :: int
  tg_ses_slot_number :: "int option"
  tg_ssh_host :: "string option"
  tg_enclosure_id :: "string option"

definition linux_sg :: "string \<Rightarrow> bool" where
  "linux_sg d \<longleftrightarrow> starts_with ''/dev/sg'' d"

definition slot_number_known :: "int option \<Rightarrow> bool" where
  "slot_number_known n = (case n of None \<Rightarrow> False | Some i \<Rightarrow> 0 \<le> i)"

fun listed_targets :: "(string option \<times> string \<times> int) list \<Rightarrow> ses_target_fact list \<Rightarrow> ses_target list" where
  "listed_targets seen [] = []"
| "listed_targets seen (t # ts) =
     (case (normalize_text (tf_ses_device t), tf_ses_element_id t) of
        (Some d, Some e) \<Rightarrow>
          if linux_sg d \<and> \<not> slot_number_known (tf_ses_slot_number t) then listed_targets seen ts
          else if (normalize_text (tf_ssh_host t), d, e) \<in> set seen then listed_targets seen ts
          else \<lparr>tg_ses_device = d, tg_ses_element_id = e, tg_ses_slot_number = tf_ses_slot_number t,
              tg_ssh_host = normalize_text (tf_ssh_host t), tg_enclosure_id = normalize_text (tf_enclosure_id t)\<rparr> #
            listed_targets ((normalize_text (tf_ssh_host t), d, e) # seen) ts
      | _ \<Rightarrow> listed_targets seen ts)"

definition own_targets :: "slot_facts \<Rightarrow> ses_target list" where
  "own_targets f = (case (normalize_text (ss_ses_device f), sf_ses_element_id f) of
       (Some d, Some e) \<Rightarrow>
         if \<not> linux_sg d \<or> slot_number_known (sf_ses_slot_number f)
         then [\<lparr>tg_ses_device = d, tg_ses_element_id = e, tg_ses_slot_number = sf_ses_slot_number f, tg_ssh_host = None,
           tg_enclosure_id = None\<rparr>] else []
     | _ \<Rightarrow> [])"

text \<open>The enclosure of each SES device of a host; a device seen with two ids has none.\<close>

definition device_enclosure_claims :: "ses_map_enclosure list \<Rightarrow> ((string option \<times> string) \<times> string option) list" where
  "device_enclosure_claims es = concat (map (\<lambda>e. map (\<lambda>d. ((normalize_text (se_ssh_host e), d), normalize_text (se_enclosure_id e)))
     (remdups ((case se_ses_device e of None \<Rightarrow> [] | Some d \<Rightarrow> [d]) @ se_ses_devices e))) es)"

definition ses_device_enclosure_ids :: "ses_map_enclosure list \<Rightarrow> string option \<times> string \<Rightarrow> string option" where
  "ses_device_enclosure_ids es k = (case sole (owners_of (device_enclosure_claims es) k) of Some (Some i) \<Rightarrow> Some i | _ \<Rightarrow> None)"

definition with_enclosure :: "ses_map_enclosure list \<Rightarrow> ses_target \<Rightarrow> ses_target" where
  "with_enclosure es t = (case ses_device_enclosure_ids es (tg_ssh_host t, tg_ses_device t) of
       None \<Rightarrow> t | Some i \<Rightarrow> t\<lparr>tg_enclosure_id := Some i\<rparr>)"

definition view_targets :: "view_env \<Rightarrow> slot_facts \<Rightarrow> ssh_data \<Rightarrow> ses_target list" where
  "view_targets V f sd =
     (let ts = listed_targets [] (ss_ses_targets f); ts = (if ts = [] then own_targets f else ts)
      in if ve_platform V = ''core'' \<and> 1 < length ts then map (with_enclosure (sd_ses_enclosures sd)) ts else ts)"

definition authentic_core_ses_target :: "ses_target \<Rightarrow> bool" where
  "authentic_core_ses_target t \<longleftrightarrow> (let d = (case normalize_text (Some (tg_ses_device t)) of None \<Rightarrow> '''' | Some d \<Rightarrow> d)
     in starts_with ''/dev/ses'' d \<and> all_digits (drop 8 d))"

definition core_identify_target :: "ses_target list \<Rightarrow> ses_target option" where
  "core_identify_target ts = (case ts of [] \<Rightarrow> None
     | t # rest \<Rightarrow>
         if \<not> list_all authentic_core_ses_target ts then None
         else if rest = [] then Some t
         else (let ids = remdups (map (\<lambda>t. normalize_text (tg_enclosure_id t)) ts)
           in if length (remdups (map tg_ses_element_id ts)) \<noteq> 1 \<or> length ids \<noteq> 1 \<or> None \<in> set ids then None else Some t))"

subsection \<open>The light of the bay\<close>

record led_decision =
  ld_supported :: bool
  ld_backend :: "string option"
  ld_reason :: "string option"

definition led_by :: "string \<Rightarrow> led_decision" where
  "led_by backend = \<lparr>ld_supported = True, ld_backend = Some backend, ld_reason = None\<rparr>"

definition no_led :: "string \<Rightarrow> led_decision" where
  "no_led reason = \<lparr>ld_supported = False, ld_backend = None, ld_reason = Some reason\<rparr>"

definition unifi_gpio_led_profile_ids :: "string list" where
  "unifi_gpio_led_profile_ids = [''ubiquiti-unvr-front-4'', ''ubiquiti-unvr-pro-front-7'']"

definition padded_number :: "int \<Rightarrow> string" where
  "padded_number n = (if n < 0 then int_str n else pad_left 2 (CHR ''0'') (int_str n))"

text \<open>What the decision depends on: the enclosures the API knows, whether it could be asked, and the bay's own.\<close>

record led_scope =
  lq_api_enclosure_ids :: "string set"
  lq_api_query_failed :: bool
  lq_enclosure_id :: "string option"

definition scale_linux_ses_targets :: "view_env \<Rightarrow> ses_target list \<Rightarrow> bool" where
  "scale_linux_ses_targets V ts \<longleftrightarrow> ve_platform V = ''scale'' \<and>
     list_ex (\<lambda>t. case normalize_text (Some (tg_ses_device t)) of None \<Rightarrow> False | Some d \<Rightarrow> linux_sg d) ts"

definition core_ses_target_invalid :: "view_env \<Rightarrow> ses_target list \<Rightarrow> bool" where
  "core_ses_target_invalid V ts \<longleftrightarrow> ve_platform V = ''core'' \<and> core_identify_target ts = None"

definition led_decision_of :: "view_env \<Rightarrow> led_scope \<Rightarrow> int \<Rightarrow> slot_facts \<Rightarrow> ses_target list \<Rightarrow> led_decision" where
  "led_decision_of V Q slot f ts =
     (let enc = lq_enclosure_id Q; known_enclosure = text_true enc;
          api_led = (\<not> lq_api_query_failed Q \<and> known_enclosure \<and> the enc \<in> lq_api_enclosure_ids Q);
          ssh_led = (ve_ssh_enabled V \<and> ts \<noteq> [] \<and> \<not> scale_linux_ses_targets V ts \<and> \<not> core_ses_target_invalid V ts);
          unifi_led = (ve_platform V = ''linux'' \<and>
            (case normalize_text (sf_enclosure_id f) of None \<Rightarrow> False | Some p \<Rightarrow> p \<in> set unifi_gpio_led_profile_ids) \<and>
            ve_ssh_enabled V \<and> sf_vendor_slot_number f \<noteq> None);
          bmc_led = (ve_bmc_service V \<and> sf_bmc_controller_id f \<noteq> None \<and> sf_bmc_physical_index f \<noteq> None)
      in if sf_manual_mapping_only f
           then no_led ''Bay lights are off for this layout: its bay order has not been validated on real hardware.''
         else if bmc_led then led_by ''supermicro_bmc''
         else if ve_platform V = ''quantastor'' \<and> ve_ssh_enabled V \<and> ts \<noteq> [] then led_by ''quantastor_sg_ses''
         else if ve_platform V = ''quantastor'' then no_led (''Bay lights cannot be controlled on this QuantaStor cluster: the appliance rejected the ''
             @ ''identify command and no SES enclosure was reachable over SSH.'')
         else if ve_platform V = ''esxi'' then no_led ''Bay lights cannot be controlled on ESXi hosts.''
         else if api_led then led_by ''api''
         else if scale_linux_ses_targets V ts \<and> ve_ssh_enabled V then led_by ''scale_sg_ses''
         else if unifi_led then led_by ''unifi_fault''
         else if ssh_led then led_by ''ssh''
         else if lq_api_query_failed Q then no_led (''Bay lights are unavailable because TrueNAS could not list the ''
             @ ''enclosure this time. Refresh to try again.'')
         else if core_ses_target_invalid V ts then no_led (''Bay '' @ padded_number slot @
             '' is not tied to exactly one enclosure element, so its light cannot be switched safely.'')
         else if \<not> known_enclosure \<and> normalize_text (ss_ses_device f) = None
           then no_led ''This bay is not linked to an enclosure, so its light cannot be switched.''
         else if known_enclosure \<and> ve_ssh_enabled V
           then no_led (''The enclosure did not report the details needed to switch this bay'' @ [CHR 0x27] @ ''s light over SSH.'')
         else if known_enclosure then no_led (''This bay was mapped over SSH, but TrueNAS did not report a matching enclosure, ''
             @ ''so its light cannot be switched.'')
         else no_led ''This bay is missing enclosure details, so its light cannot be switched.'')"

subsection \<open>The view\<close>

record slot_view =
  sv_slot :: int
  sv_slot_label :: string
  sv_row_index :: nat
  sv_column_index :: nat
  sv_enclosure_id :: "string option"
  sv_enclosure_label :: "string option"
  sv_enclosure_name :: "string option"
  sv_present :: bool
  sv_state :: slot_state
  sv_non_identify_state :: slot_state
  sv_identify_active :: bool
  sv_device_name :: "string option"
  sv_smart_device_names :: "string list"
  sv_smart_device_type :: "string option"
  sv_serial :: "string option"
  sv_model :: "string option"
  sv_size_bytes :: "int option"
  sv_size_human :: "string option"
  sv_persistent_id :: "string option"
  sv_persistent_id_label :: "string option"
  sv_pool_name :: "string option"
  sv_vdev_name :: "string option"
  sv_vdev_class :: "string option"
  sv_topology_label :: "string option"
  sv_health :: "string option"
  sv_multipath :: "multipath_view option"
  sv_temperature_c :: "int option"
  sv_last_smart_test_type :: "string option"
  sv_last_smart_test_status :: "string option"
  sv_last_smart_test_lifetime_hours :: "int option"
  sv_logical_block_size :: "int option"
  sv_physical_block_size :: "int option"
  sv_logical_unit_id :: "string option"
  sv_sas_address :: "string option"
  sv_attached_sas_address :: "string option"
  sv_transport_protocol :: "string option"
  sv_sg_device :: "string option"
  sv_scsi_hctl :: "string option"
  sv_phy_identifier :: "string option"
  sv_target_port_protocol :: "string option"
  sv_enclosure_identifier :: "string option"
  sv_led :: led_decision
  sv_ssh_ses_device :: "string option"
  sv_ssh_ses_element_id :: "int option"
  sv_ssh_ses_targets :: "ses_target list"
  sv_mapping_source :: string
  sv_notes :: "string option"
  sv_pool_membership_conflict :: bool

definition mapping_source_of :: "view_env \<Rightarrow> slot_facts \<Rightarrow> disk_record option \<Rightarrow> manual_mapping option \<Rightarrow>
    string option \<Rightarrow> string" where
  "mapping_source_of V f disk mapping source =
     (if text_true source then the source
      else if mapping \<noteq> None \<and> disk \<noteq> None then mm_source (the mapping)
      else if normalize_text (ss_ses_device f) \<noteq> None \<or> ve_platform V = ''linux'' \<or> ve_platform V = ''esxi'' then ''ssh''
      else if ve_platform V = ''ipmi'' \<and> disk \<noteq> None then ''bmc''
      else if disk \<noteq> None then ''api'' else ''unknown'')"

definition stale_note :: string where
  "stale_note = ''This bay is assigned by hand, but the enclosure reports it empty.''"

definition view_notes :: "bool \<Rightarrow> manual_mapping option \<Rightarrow> string option" where
  "view_notes stale mapping = (let notes = Option.bind mapping mm_notes
     in if stale then Some (if text_true notes then the notes @ [CHR 0x0A] @ stale_note else stale_note) else notes)"

text \<open>A summary the inventory put into the payload of a record, and a text of it.\<close>

definition raw_summary :: "disk_record option \<Rightarrow> string \<Rightarrow> dict" where
  "raw_summary disk k = (case disk of None \<Rightarrow> [] | Some d \<Rightarrow> (case dict_get (dr_raw d) k of VDict p \<Rightarrow> p | _ \<Rightarrow> []))"

definition payload_text :: "dict \<Rightarrow> string \<Rightarrow> string option" where
  "payload_text p k = (case dict_get p k of VStr s \<Rightarrow> normalize_text (Some s) | _ \<Rightarrow> None)"

definition build_slot_view :: "view_env \<Rightarrow> int \<Rightarrow> nat \<times> nat \<Rightarrow> enclosure_meta \<Rightarrow> slot_facts \<Rightarrow> disk_record option \<Rightarrow>
    manual_mapping option \<Rightarrow> ssh_data \<Rightarrow> members \<Rightarrow> string set \<Rightarrow> bool \<Rightarrow> string list \<Rightarrow> slot_view" where
  "build_slot_view V slot place M f disk mapping sd api api_ids api_failed peers =
     (let device = view_device f disk; source = view_source f disk device;
          stale = sf_stale_manual_mapping f; identity_mapping = (if stale then None else mapping);
          bm = shown_membership V sd api disk device peers; gptid = fst bm; member = snd bm;
          conflict = membership_conflict V sd disk device (bay_membership V sd api disk device peers);
          hinted_model = (case disk of Some d \<Rightarrow> dr_model d | None \<Rightarrow> normalize_text (sf_model_hint f));
          model = (if \<not> text_true hinted_model \<and> text_true device then sd_camcontrol_models sd (py_lower (the device)) else hinted_model);
          identify = view_identify V slot f disk sd; state = non_identify_state V f disk member mapping;
          hinted_serial = (case disk of Some d \<Rightarrow> dr_serial d | None \<Rightarrow> normalize_text (ss_serial_hint f));
          serial = (if \<not> text_true hinted_serial \<and> identity_mapping \<noteq> None then mm_serial (the identity_mapping) else hinted_serial);
          persistent = resolve_persistent_id [gptid, ss_gptid_hint f, Option.bind disk dr_identifier,
            Option.bind member zm_raw_path, map_option zm_raw_name member, Option.bind identity_mapping mm_gptid];
          enc = or_text (em_id M) (normalize_text (sf_enclosure_id f));
          ses_device = normalize_text (ss_ses_device f); targets = view_targets V f sd;
          led = led_decision_of V \<lparr>lq_api_enclosure_ids = api_ids, lq_api_query_failed = api_failed, lq_enclosure_id = enc\<rparr> slot f targets;
          block = raw_summary disk ''linux_blockdevice''; scsi = raw_summary disk ''linux_scsi_device'';
          label_base = (case em_slot_number_base M of Some b \<Rightarrow> b | None \<Rightarrow> ve_slot_number_base V)
      in \<lparr>sv_slot = slot, sv_slot_label = padded_number (slot + label_base), sv_row_index = fst place, sv_column_index = snd place,
          sv_enclosure_id = enc, sv_enclosure_label = or_text (em_label M) (normalize_text (sf_enclosure_label f)),
          sv_enclosure_name = or_text (normalize_text (sf_enclosure_name f)) (em_name M),
          sv_present = view_present V f disk, sv_state = (if identify then Identify else state), sv_non_identify_state = state,
          sv_identify_active = identify, sv_device_name = device,
          sv_smart_device_names = (case disk of None \<Rightarrow> [] | Some d \<Rightarrow> dr_smart_devices d),
          sv_smart_device_type = or_text (normalize_text (sf_smartctl_device_type f))
            (case disk of None \<Rightarrow> None | Some d \<Rightarrow> payload_text (dr_raw d) ''smartctl_device_type''),
          sv_serial = serial, sv_model = model, sv_size_bytes = Option.bind disk dr_size_bytes,
          sv_size_human = or_text (ve_format_bytes V (Option.bind disk dr_size_bytes)) (normalize_text (sf_reported_size f)),
          sv_persistent_id = fst persistent, sv_persistent_id_label = snd persistent,
          sv_pool_name = (if conflict then None
            else if text_true (Option.bind disk dr_pool_name) then Option.bind disk dr_pool_name else map_option zm_pool_name member),
          sv_vdev_name = Option.bind member zm_vdev_name, sv_vdev_class = map_option zm_vdev_class member,
          sv_topology_label = Option.bind member zm_topology_label,
          sv_health = (if text_true (Option.bind disk dr_health) then Option.bind disk dr_health
            else case member of Some m \<Rightarrow> zm_health m | None \<Rightarrow> sf_status f),
          sv_multipath = build_multipath_view sd disk, sv_temperature_c = Option.bind disk dr_temperature_c,
          sv_last_smart_test_type = Option.bind disk dr_last_smart_test_type,
          sv_last_smart_test_status = Option.bind disk dr_last_smart_test_status,
          sv_last_smart_test_lifetime_hours = Option.bind disk dr_last_smart_test_lifetime_hours,
          sv_logical_block_size = Option.bind disk dr_logical_block_size,
          sv_physical_block_size = Option.bind disk dr_physical_block_size, sv_logical_unit_id = Option.bind disk dr_lunid,
          sv_sas_address = normalize_text (ss_sas_address_hint f), sv_attached_sas_address = normalize_text (sf_attached_sas_address f),
          sv_transport_protocol = or_text (normalize_text (sf_transport_protocol f))
            (or_text (payload_text scsi ''transport'') (payload_text block ''tran'')),
          sv_sg_device = or_text (payload_text scsi ''sg_device'') ses_device,
          sv_scsi_hctl = or_text (payload_text scsi ''hctl'') (payload_text block ''hctl''),
          sv_phy_identifier = normalize_text (sf_phy_identifier f), sv_target_port_protocol = normalize_text (sf_target_port_protocol f),
          sv_enclosure_identifier = normalize_text (sf_descriptor f), sv_led = led, sv_ssh_ses_device = ses_device,
          sv_ssh_ses_element_id = sf_ses_element_id f, sv_ssh_ses_targets = targets,
          sv_mapping_source = mapping_source_of V f disk mapping source, sv_notes = view_notes stale mapping,
          sv_pool_membership_conflict = conflict\<rparr>)"

subsection \<open>From the facts of a bay to its view\<close>

text \<open>A layout whose bay order is unvalidated keeps only what names the enclosure and the resolution, and the light
  that a board management controller matched to the mapped disk by its serial.\<close>

definition manual_only_slot_status :: "bool \<Rightarrow> slot_facts \<Rightarrow> slot_facts" where
  "manual_only_slot_status manual_only f =
     (if \<not> manual_only then f
      else \<lparr>ss_presence_conflict = False, ss_presence_source = None, ss_present = None, ss_ses_device = None,
        ss_ses_targets = [], ss_sas_address_hint = None, ss_sas_device_type = None, ss_device_names = [],
        ss_device_names_source = None, ss_device_hint = None, ss_serial_hint = None, ss_gptid_hint = None,
        sf_resolution_source = sf_resolution_source f, sf_stale_manual_mapping = False, sf_manual_mapping_only = True,
        sf_identify_active = False,
        sf_mapped_disk_identify_active = (sf_bmc_match_source f = Some ''serial'' \<and> sf_bmc_identify_active f),
        sf_status_texts = [], sf_status = None, sf_value = None, sf_model_hint = None, sf_reported_size = None,
        sf_enclosure_id = sf_enclosure_id f, sf_enclosure_label = sf_enclosure_label f,
        sf_enclosure_name = sf_enclosure_name f, sf_ses_element_id = None, sf_ses_slot_number = None,
        sf_bmc_match_source = None, sf_bmc_identify_active = False, sf_bmc_slot_number = None,
        sf_bmc_enclosure_id = None, sf_bmc_physical_index = None, sf_bmc_controller_id = None,
        sf_vendor_slot_number = None, sf_attached_sas_address = None, sf_transport_protocol = None,
        sf_phy_identifier = None, sf_target_port_protocol = None, sf_descriptor = None, sf_smartctl_device_type = None\<rparr>)"

text \<open>One bay of a TrueNAS snapshot: the disk is resolved and the view is built from what the resolution says. (The
  facts already hold what a board management controller reports.)\<close>

definition bay_resolution :: "view_env \<Rightarrow> int \<Rightarrow> enclosure_meta \<Rightarrow> slot_facts \<Rightarrow> manual_mapping option \<Rightarrow> disk_index \<Rightarrow>
    disk_record list \<Rightarrow> ssh_data \<Rightarrow> bool \<Rightarrow> disk_resolution" where
  "bay_resolution V slot M f mapping ix ds sd manual_only =
     resolve_disk_for_slot (ve_order V) (ve_platform V) slot (or_text (em_id M) (normalize_text (sf_enclosure_id f)))
       mapping ix ds (slot_status.truncate f) sd manual_only"

definition bay_view :: "view_env \<Rightarrow> int \<Rightarrow> nat \<times> nat \<Rightarrow> enclosure_meta \<Rightarrow> slot_facts \<Rightarrow> manual_mapping option \<Rightarrow>
    disk_index \<Rightarrow> disk_record list \<Rightarrow> ssh_data \<Rightarrow> members \<Rightarrow> string set \<Rightarrow> bool \<Rightarrow> bool \<Rightarrow> slot_view" where
  "bay_view V slot place M f mapping ix ds sd api api_ids api_failed manual_only =
     (let r = bay_resolution V slot M f mapping ix ds sd manual_only;
          resolved = f\<lparr>sf_resolution_source := Some (rs_source r), sf_stale_manual_mapping := rs_stale_manual_mapping r\<rparr>
      in build_slot_view V slot place M (manual_only_slot_status manual_only resolved)
           (map_option (\<lambda>i. ds ! i) (rs_disk r)) mapping sd api api_ids api_failed
           (bay_peer_devices (slot_status.truncate f) ds (rs_disk r) (by_key ix)))"

subsection \<open>The light is switched only where it is this bay's\<close>

text \<open>The fields of a view one by one.\<close>

lemma view_fields:
  "sv_led (build_slot_view V slot place M f disk mapping sd api api_ids api_failed peers) = led_decision_of V
     \<lparr>lq_api_enclosure_ids = api_ids, lq_api_query_failed = api_failed, lq_enclosure_id = sv_enclosure_id (build_slot_view V slot place M f disk mapping sd api api_ids api_failed peers)\<rparr> slot f (view_targets V f sd)"
  "sv_enclosure_id (build_slot_view V slot place M f disk mapping sd api api_ids api_failed peers) = or_text (em_id M) (normalize_text (sf_enclosure_id f))"
  "sv_ssh_ses_targets (build_slot_view V slot place M f disk mapping sd api api_ids api_failed peers) = view_targets V f sd"
  "sv_present (build_slot_view V slot place M f disk mapping sd api api_ids api_failed peers) = view_present V f disk"
  "sv_non_identify_state (build_slot_view V slot place M f disk mapping sd api api_ids api_failed peers) = non_identify_state V f disk (snd (shown_membership V sd api disk (sv_device_name (build_slot_view V slot place M f disk mapping sd api api_ids api_failed peers)) peers)) mapping"
  "sv_device_name (build_slot_view V slot place M f disk mapping sd api api_ids api_failed peers) = view_device f disk"
  "sv_pool_membership_conflict (build_slot_view V slot place M f disk mapping sd api api_ids api_failed peers) = membership_conflict V sd disk (sv_device_name (build_slot_view V slot place M f disk mapping sd api api_ids api_failed peers)) (bay_membership V sd api disk (sv_device_name (build_slot_view V slot place M f disk mapping sd api api_ids api_failed peers)) peers)"
  "sv_state (build_slot_view V slot place M f disk mapping sd api api_ids api_failed peers) = (if sv_identify_active (build_slot_view V slot place M f disk mapping sd api api_ids api_failed peers) then Identify else sv_non_identify_state (build_slot_view V slot place M f disk mapping sd api api_ids api_failed peers))"
  by (simp_all add: build_slot_view_def Let_def)

lemma view_identify_field:
  "sv_identify_active (build_slot_view V slot place M f disk mapping sd api api_ids api_failed peers) = view_identify V slot f disk sd"
  by (simp add: build_slot_view_def Let_def)

text \<open>On CORE: all targets are one element of one enclosure.\<close>

definition one_element :: "ses_target list \<Rightarrow> bool" where
  "one_element ts \<longleftrightarrow> ts \<noteq> [] \<and> (\<exists>e. set (map tg_ses_element_id ts) = {e}) \<and>
     (length ts = 1 \<or> (\<exists>i. set (map (\<lambda>t. normalize_text (tg_enclosure_id t)) ts) = {Some i}))"

lemma length_remdups_one: "length (remdups xs) = 1 \<longleftrightarrow> (\<exists>x. set xs = {x})"
  by (simp add: length_remdups_card_conv card_1_singleton_iff)

lemma core_identify_one_element: "core_identify_target ts \<noteq> None \<Longrightarrow> one_element ts"
proof (cases ts)
  case (Cons t rest)
  assume some: "core_identify_target ts \<noteq> None"
  show ?thesis
  proof (cases "rest = []")
    case False
    then have "length (remdups (map tg_ses_element_id ts)) = 1"
      and ids: "length (remdups (map (\<lambda>t. normalize_text (tg_enclosure_id t)) ts)) = 1"
      and none: "None \<notin> set (map (\<lambda>t. normalize_text (tg_enclosure_id t)) ts)"
      using some Cons by (auto simp: core_identify_target_def Let_def split: if_splits)
    moreover obtain i where "set (map (\<lambda>t. normalize_text (tg_enclosure_id t)) ts) = {i}"
      using ids unfolding length_remdups_one by blast
    ultimately show ?thesis using Cons unfolding length_remdups_one one_element_def by (cases i) auto
  qed (simp add: Cons one_element_def)
qed (simp add: core_identify_target_def)

text \<open>What holds of a decision, branch by branch.\<close>

definition led_ok :: "view_env \<Rightarrow> led_scope \<Rightarrow> slot_facts \<Rightarrow> ses_target list \<Rightarrow> led_decision \<Rightarrow> bool" where
  "led_ok V Q f ts led = (case ld_backend led of
        None \<Rightarrow> \<not> ld_supported led \<and> ld_reason led \<noteq> None
      | Some b \<Rightarrow> ld_supported led \<and> ld_reason led = None \<and> \<not> sf_manual_mapping_only f \<and>
          (b = ''supermicro_bmc'' \<and> ve_bmc_service V \<and> sf_bmc_controller_id f \<noteq> None \<and> sf_bmc_physical_index f \<noteq> None \<or>
           b = ''api'' \<and> (\<exists>e. lq_enclosure_id Q = Some e \<and> e \<in> lq_api_enclosure_ids Q) \<and> \<not> lq_api_query_failed Q \<or>
           ve_ssh_enabled V \<and>
             (b = ''quantastor_sg_ses'' \<and> ts \<noteq> [] \<or> b = ''scale_sg_ses'' \<and> ts \<noteq> [] \<or>
              b = ''unifi_fault'' \<and> sf_vendor_slot_number f \<noteq> None \<or>
              b = ''ssh'' \<and> (if ve_platform V = ''core'' then one_element ts else ts \<noteq> []))))"

lemma led_ok_if: "(c \<Longrightarrow> led_ok V Q f ts x) \<Longrightarrow> (\<not> c \<Longrightarrow> led_ok V Q f ts y) \<Longrightarrow> led_ok V Q f ts (if c then x else y)"
  by simp

lemma led_ok_none: "led_ok V Q f ts (no_led r)"
  by (simp add: led_ok_def no_led_def)

lemma led_decision_ok: "led_ok V Q f ts (led_decision_of V Q slot f ts)"
proof -
  have linux: "scale_linux_ses_targets V ts \<Longrightarrow> ts \<noteq> []" by (auto simp: scale_linux_ses_targets_def)
  have core: "\<not> core_ses_target_invalid V ts \<Longrightarrow> ve_platform V = ''core'' \<Longrightarrow> one_element ts"
    using core_identify_one_element [of ts] by (simp add: core_ses_target_invalid_def)
  show ?thesis
    unfolding led_decision_of_def Let_def
    by (intro led_ok_if led_ok_none) (use linux core in \<open>auto simp: led_ok_def led_by_def text_true_def\<close>)
qed


subsection \<open>Presence and state agree\<close>

text \<open>C37: Presence and state follow the enclosure, then the disk, then the text. When the enclosure says the bay is
  occupied, the bay is present: faulty, healthy with a disk or a management controller, else unmapped or unknown. When it
  says the bay is empty, only a resolved disk makes it present, outside a QuantaStor cluster whose enclosure answers for the bay,
  and only with a disk does a fault, in its health, its pool or the text, make it anything but empty. When it says nothing, a disk makes it present; without
  one the text decides, and a text that says empty makes it empty. So a bay is present and empty at once exactly when a
  disk without a fault was resolved against the enclosure's word, outside such a cluster.\<close>

theorem presence_and_state_exact:
  "let v = build_slot_view V slot place M f disk mapping sd api api_ids api_failed peers;
       member = snd (shown_membership V sd api disk (sv_device_name v) peers); says = haystack_contains (status_haystack f);
       faulty = (says [''fault''] \<or> health_is_bad [Option.bind disk dr_health, Option.bind member zm_health,
         normalize_text (sf_status f), normalize_text (sf_value f)]);
       says_empty = says [''empty'', ''not installed'', ''absent'']; otherwise = (if mapping = None then Unknown else Unmapped);
       controller = (\<not> (sf_bmc_slot_number f = None \<and> sf_bmc_enclosure_id f = None \<and> sf_bmc_physical_index f = None \<and>
         sf_bmc_controller_id f = None));
       answers = (ve_platform V = ''quantastor'' \<and> \<not> (normalize_text (ss_ses_device f) = None \<and> ss_ses_targets f = [] \<and>
         normalize_text (ss_sas_device_type f) = None \<and> normalize_hex_identifier (ss_sas_address_hint f) \<noteq> Some ''0''))
   in (case ss_present f of
         Some True \<Rightarrow> sv_present v \<and>
           sv_non_identify_state v = (if faulty then Fault else if disk = None \<and> \<not> controller then otherwise else Healthy)
       | Some False \<Rightarrow> sv_present v = (disk \<noteq> None \<and> \<not> answers) \<and>
           sv_non_identify_state v = (if disk \<noteq> None \<and> faulty then Fault else Empty)
       | None \<Rightarrow> sv_present v = (if disk = None then says [''ok'', ''installed'', ''ready'', ''present''] \<and> \<not> says_empty else True) \<and>
           sv_non_identify_state v = (if faulty then Fault else if disk \<noteq> None then Healthy else if says_empty then Empty else otherwise)) \<and>
      (sv_present v \<and> sv_non_identify_state v = Empty \<longleftrightarrow>
         ss_present f = Some False \<and> disk \<noteq> None \<and> \<not> answers \<and> \<not> faulty)"
proof -
  have q: "quantastor_ses_empty V f = (ss_present f = Some False \<and> ve_platform V = ''quantastor'' \<and>
      \<not> (normalize_text (ss_ses_device f) = None \<and> ss_ses_targets f = [] \<and>
         normalize_text (ss_sas_device_type f) = None \<and> normalize_hex_identifier (ss_sas_address_hint f) \<noteq> Some ''0''))"
    by (auto simp: quantastor_ses_empty_def)
  have words: "haystack_contains h [''not installed'', ''empty'', ''absent''] = haystack_contains h [''empty'', ''not installed'', ''absent'']" for h
    by (auto simp: haystack_contains_def)
  show ?thesis
    unfolding view_fields Let_def
    by (cases "ss_present f" rule: option.exhaust [case_names None Some]; cases disk)
      (auto simp: q view_present_def non_identify_state_def ses_says_empty_without_disk_def view_empty_def bmc_present_def
        view_faulty_def status_says_populated_def words split: bool.split)
qed


subsection \<open>The elements of a bay\<close>

definition target_key :: "ses_target \<Rightarrow> string option \<times> string \<times> int" where
  "target_key t = (tg_ssh_host t, tg_ses_device t, tg_ses_element_id t)"

lemma listed_targets_fresh:
  "distinct (map target_key (listed_targets seen ts)) \<and> target_key ` set (listed_targets seen ts) \<inter> set seen = {} \<and>
   list_all (\<lambda>t. linux_sg (tg_ses_device t) = False \<or> slot_number_known (tg_ses_slot_number t)) (listed_targets seen ts)"
proof (induction seen ts rule: listed_targets.induct)
  case (2 seen t ts)
  then show ?case by (auto simp: target_key_def split: option.splits)
qed simp

lemma with_enclosure_key [simp]: "target_key (with_enclosure es t) = target_key t"
  "tg_ses_device (with_enclosure es t) = tg_ses_device t" "tg_ses_slot_number (with_enclosure es t) = tg_ses_slot_number t"
  "tg_ssh_host (with_enclosure es t) = tg_ssh_host t"
  by (simp_all add: with_enclosure_def target_key_def split: option.split)

lemma with_enclosure_id:
  "case sole (owners_of (device_enclosure_claims es) (tg_ssh_host t, tg_ses_device t)) of
     Some (Some i) \<Rightarrow> tg_enclosure_id (with_enclosure es t) = Some i | _ \<Rightarrow> True"
  by (auto simp: with_enclosure_def ses_device_enclosure_ids_def split: option.split)

text \<open>The elements whose light stands for a bay are distinct, and no Linux SCSI generic device is among them without
  the slot number that addresses it; on CORE with several paths, the enclosure of an element is the one its
  device reports, when every report of that device agrees.\<close>

theorem view_targets_well_formed:
  "let ts = view_targets V f sd
   in distinct (map target_key ts) \<and>
      list_all (\<lambda>t. if linux_sg (tg_ses_device t) then slot_number_known (tg_ses_slot_number t) else True) ts \<and>
      (if ve_platform V = ''core'' \<and> 1 < length ts
       then list_all (\<lambda>t. case sole (owners_of (device_enclosure_claims (sd_ses_enclosures sd)) (tg_ssh_host t, tg_ses_device t)) of
           Some (Some i) \<Rightarrow> tg_enclosure_id t = Some i | _ \<Rightarrow> True) ts
       else True)"
proof -
  let ?l = "listed_targets [] (ss_ses_targets f)"
  let ?ts = "if ?l = [] then own_targets f else ?l"
  have own: "distinct (map target_key (own_targets f)) \<and>
      list_all (\<lambda>t. linux_sg (tg_ses_device t) = False \<or> slot_number_known (tg_ses_slot_number t)) (own_targets f)"
    by (auto simp: own_targets_def split: option.split)
  have base: "distinct (map target_key ?ts)"
    "list_all (\<lambda>t. linux_sg (tg_ses_device t) = False \<or> slot_number_known (tg_ses_slot_number t)) ?ts"
    using own listed_targets_fresh [of "[]" "ss_ses_targets f"] by auto
  show ?thesis
  proof (cases "ve_platform V = ''core'' \<and> 1 < length ?ts")
    case True
    then have "view_targets V f sd = map (with_enclosure (sd_ses_enclosures sd)) ?ts" by (simp add: view_targets_def Let_def)
    then show ?thesis using base True with_enclosure_id [of "sd_ses_enclosures sd"]
      by (simp add: comp_def list_all_iff del: not_less)
  next
    case False
    then have "view_targets V f sd = ?ts" by (auto simp: view_targets_def Let_def)
    then show ?thesis using base False by (auto simp: list_all_iff)
  qed
qed

subsection \<open>What a view may depend on\<close>

lemma peers_by_names: "ss_device_names st = ss_device_names st' \<Longrightarrow> bay_peer_devices st ds disk keyed = bay_peer_devices st' ds disk keyed"
  by (simp only: bay_peer_devices_def)

text \<open>What SSH observed under a slot number: the lights of a UniFi board, the devices and the enclosures of the
  enclosure services. The rest of the view reads none of it.\<close>

definition reobserved :: "(int \<Rightarrow> bool option) \<Rightarrow> (int \<Rightarrow> string option) \<Rightarrow> ses_map_enclosure list \<Rightarrow> ssh_data \<Rightarrow> ssh_data" where
  "reobserved leds devices encs sd = sd\<lparr>sd_unifi_led_states := leds, sd_ses_slot_to_device := devices, sd_ses_enclosures := encs\<rparr>"

lemma reobserved_fields [simp]:
  "sd_gptid_to_device (reobserved l d e sd) = sd_gptid_to_device sd" "sd_device_to_gptid (reobserved l d e sd) = sd_device_to_gptid sd"
  "sd_device_to_gptids (reobserved l d e sd) = sd_device_to_gptids sd" "sd_zpool_members (reobserved l d e sd) = sd_zpool_members sd"
  "sd_zpool_device_members (reobserved l d e sd) = sd_zpool_device_members sd" "sd_geoms (reobserved l d e sd) = sd_geoms sd"
  "sd_multipath_info (reobserved l d e sd) = sd_multipath_info sd" "sd_camcontrol_models (reobserved l d e sd) = sd_camcontrol_models sd"
  "sd_camcontrol_controllers (reobserved l d e sd) = sd_camcontrol_controllers sd"
  "sd_camcontrol_peer_devices (reobserved l d e sd) = sd_camcontrol_peer_devices sd"
  by (simp_all add: reobserved_def)

lemma reobserved_pools [simp]:
  "index_multipath_consumers (reobserved l d e sd) = index_multipath_consumers sd"
  "gpt_labels_for_device (reobserved l d e sd) = gpt_labels_for_device sd"
  "membership_tables (reobserved l d e sd) = membership_tables sd"
  unfolding index_multipath_consumers_def [abs_def] consumer_claims_def [abs_def] gpt_labels_for_device_def [abs_def]
    membership_tables_def [abs_def] reobserved_fields by (rule refl)+

lemma reobserved_labels [simp]:
  "select_gpt_label (reobserved l d e sd) = select_gpt_label sd" "geom_members (reobserved l d e sd) = geom_members sd"
  "geom_of (reobserved l d e sd) = geom_of sd" "consumer_member (reobserved l d e sd) = consumer_member sd"
  "consumer_candidates (reobserved l d e sd) = consumer_candidates sd"
  unfolding select_gpt_label_def [abs_def] pooled_label_def [abs_def] geom_members_def [abs_def] geom_of_def [abs_def]
    consumer_member_def [abs_def] consumer_candidates_def [abs_def] reobserved_fields reobserved_pools by (rule refl)+

lemma reobserved_membership [simp]:
  "lookup_zpool_member ord str_of platform (reobserved l d e sd) = lookup_zpool_member ord str_of platform sd"
  "own_geoms (reobserved l d e sd) = own_geoms sd" "label_geoms (reobserved l d e sd) = label_geoms sd"
  "match_multipath_consumer index (reobserved l d e sd) = match_multipath_consumer index sd"
  unfolding lookup_zpool_member_def [abs_def] own_geoms_def [abs_def] label_geoms_def [abs_def] match_multipath_consumer_def [abs_def]
    reobserved_fields reobserved_pools reobserved_labels by (rule refl)+

lemma reobserved_peers [simp]: "peer_membership V (reobserved l d e sd) api ps = peer_membership V sd api ps"
  by (induction ps) (simp_all add: Let_def cong: option.case_cong)

lemma reobserved_view [simp]:
  "membership_conflict V (reobserved l d e sd) = membership_conflict V sd"
  "bay_membership V (reobserved l d e sd) = bay_membership V sd"
  "build_multipath_view (reobserved l d e sd) = build_multipath_view sd"
  unfolding membership_conflict_def [abs_def] core_bay_membership_conflict_def [abs_def] bay_membership_def [abs_def]
    build_multipath_view_def [abs_def] reobserved_fields reobserved_pools reobserved_labels reobserved_membership reobserved_peers
  by (rule refl)+

lemma reobserved_shown [simp]: "shown_membership V (reobserved l d e sd) = shown_membership V sd"
  unfolding shown_membership_def [abs_def] reobserved_view ..

text \<open>C13: On a layout whose bay order is unvalidated, what was observed at a slot number says nothing about the bay. The
  view is the same for any other facts that name the same enclosure and carry the same light matched by serial,
  whatever lights, devices and enclosures SSH reports under slot numbers and whatever disks claim a slot number; only
  the paths listed beside the mapped disk still help to find its pool. Such a bay is present exactly when an assignment
  by hand places a disk in it, it is lit exactly when that disk's own record or the light matched by its serial says so, and
  its light is never offered.\<close>

theorem unvalidated_layout_ignores_slot_facts:
  "let v = bay_view V slot place M f mapping ix ds sd api api_ids api_failed True; mapped = mapped_disk (ve_order V) ix mapping;
       other = g\<lparr>sf_enclosure_id := sf_enclosure_id f, sf_enclosure_label := sf_enclosure_label f,
         sf_enclosure_name := sf_enclosure_name f, sf_bmc_match_source := sf_bmc_match_source f,
         sf_bmc_identify_active := sf_bmc_identify_active f, ss_device_names := ss_device_names f\<rparr>
   in v = bay_view V slot place M other mapping (ix\<lparr>by_slot := spots\<rparr>) ds (reobserved leds devices encs sd) api api_ids api_failed True \<and>
      sv_present v = (mapped \<noteq> None) \<and>
      sv_identify_active v = (case mapped of None \<Rightarrow> False
        | Some i \<Rightarrow> sf_bmc_match_source f = Some ''serial'' \<and> sf_bmc_identify_active f \<or>
            ve_truth V (dict_get (dr_raw (ds ! i)) ''bmc_identify_active'') \<or> quantastor_bool (dict_get (dr_raw (ds ! i)) ''isBlinking'')) \<and>
      \<not> ld_supported (sv_led v)"
proof -
  define other where "other = g\<lparr>sf_enclosure_id := sf_enclosure_id f, sf_enclosure_label := sf_enclosure_label f,
         sf_enclosure_name := sf_enclosure_name f, sf_bmc_match_source := sf_bmc_match_source f,
         sf_bmc_identify_active := sf_bmc_identify_active f, ss_device_names := ss_device_names f\<rparr>"
  let ?ix = "ix\<lparr>by_slot := spots\<rparr>" and ?sd = "reobserved leds devices encs sd"
  have "keyed_disk (ve_order V) ?ix = keyed_disk (ve_order V) ix" by (intro ext) (simp add: keyed_disk_def)
  then have mapped: "mapped_disk (ve_order V) ?ix mapping = mapped_disk (ve_order V) ix mapping" unfolding mapped_disk_def by (rule arg_cong)
  have k: "by_key ?ix = by_key ix" by simp
  have r: "bay_resolution V slot M other mapping ?ix ds ?sd True = bay_resolution V slot M f mapping ix ds sd True"
    by (simp add: bay_resolution_def resolve_disk_for_slot_def mapped)
  have facts: "manual_only_slot_status True (other\<lparr>sf_resolution_source := s, sf_stale_manual_mapping := b\<rparr>) =
      manual_only_slot_status True (f\<lparr>sf_resolution_source := s, sf_stale_manual_mapping := b\<rparr>)" for s b
    by (simp add: manual_only_slot_status_def other_def)
  have peers: "bay_peer_devices (slot_status.truncate other) ds d k = bay_peer_devices (slot_status.truncate f) ds d k" for d k
    by (rule peers_by_names) (simp add: slot_status.defs other_def)
  have "own_targets (manual_only_slot_status True h) = []" for h
    by (cases "normalize_text None") (simp_all add: own_targets_def manual_only_slot_status_def)
  then have none: "view_targets V (manual_only_slot_status True h) x = []" for h x
    by (simp add: view_targets_def manual_only_slot_status_def)
  have blind: "view_identify V slot (manual_only_slot_status True h) disk ?sd = view_identify V slot (manual_only_slot_status True h) disk sd"
    "view_targets V (manual_only_slot_status True h) ?sd = view_targets V (manual_only_slot_status True h) sd" for h disk
    unfolding none by (simp_all add: view_identify_def manual_only_slot_status_def mapped_disk_identify_active_def)
  have same: "bay_view V slot place M other mapping ?ix ds ?sd api api_ids api_failed True =
      bay_view V slot place M f mapping ix ds sd api api_ids api_failed True"
    unfolding bay_view_def build_slot_view_def Let_def r facts peers blind reobserved_shown reobserved_view reobserved_fields k ..
  have d: "rs_disk (bay_resolution V slot M f mapping ix ds sd True) = mapped_disk (ve_order V) ix mapping"
    by (cases "mapped_disk (ve_order V) ix mapping") (simp_all add: bay_resolution_def resolve_disk_for_slot_def)
  then have "sv_present (bay_view V slot place M f mapping ix ds sd api api_ids api_failed True) =
      (mapped_disk (ve_order V) ix mapping \<noteq> None)"
    unfolding bay_view_def Let_def view_fields
    by (simp add: view_present_def manual_only_slot_status_def quantastor_ses_empty_def status_says_populated_def
        haystack_contains_def status_haystack_def)
  moreover have "sv_identify_active (bay_view V slot place M f mapping ix ds sd api api_ids api_failed True) =
      (case mapped_disk (ve_order V) ix mapping of None \<Rightarrow> False
        | Some i \<Rightarrow> sf_bmc_match_source f = Some ''serial'' \<and> sf_bmc_identify_active f \<or>
            ve_truth V (dict_get (dr_raw (ds ! i)) ''bmc_identify_active'') \<or> quantastor_bool (dict_get (dr_raw (ds ! i)) ''isBlinking''))"
    unfolding bay_view_def Let_def view_identify_field d
    by (simp add: view_identify_def manual_only_slot_status_def mapped_disk_identify_active_def split: option.split)
  moreover have "\<not> ld_supported (sv_led (bay_view V slot place M f mapping ix ds sd api api_ids api_failed True))"
    unfolding bay_view_def Let_def view_fields
    by (simp add: led_decision_of_def manual_only_slot_status_def no_led_def)
  ultimately show ?thesis unfolding Let_def other_def [symmetric] same by blast
qed

text \<open>Apart from the notes and the serial and persistent id of a mapping, no part of the view reads the flag of a stale
  assignment.\<close>

lemma haystack_unflagged [simp]: "status_haystack (f\<lparr>sf_stale_manual_mapping := b\<rparr>) = status_haystack f"
  by (simp add: status_haystack_def)

lemma view_tests_unflagged [simp]:
  "listed_devices (f\<lparr>sf_stale_manual_mapping := b\<rparr>) = listed_devices f"
  "mapped_disk_identify_active V (f\<lparr>sf_stale_manual_mapping := b\<rparr>) disk = mapped_disk_identify_active V f disk"
  "own_targets (f\<lparr>sf_stale_manual_mapping := b\<rparr>) = own_targets f"
  "quantastor_ses_empty V (f\<lparr>sf_stale_manual_mapping := b\<rparr>) = quantastor_ses_empty V f"
  "ses_says_empty_without_disk (f\<lparr>sf_stale_manual_mapping := b\<rparr>) disk = ses_says_empty_without_disk f disk"
  "status_says_populated (f\<lparr>sf_stale_manual_mapping := b\<rparr>) = status_says_populated f"
  by (simp_all add: listed_devices_def mapped_disk_identify_active_def own_targets_def quantastor_ses_empty_def
      ses_says_empty_without_disk_def status_says_populated_def cong: option.case_cong if_cong)

lemma view_parts_unflagged:
  "view_identify V slot (f\<lparr>sf_stale_manual_mapping := b\<rparr>) disk sd = view_identify V slot f disk sd"
  "view_targets V (f\<lparr>sf_stale_manual_mapping := b\<rparr>) sd = view_targets V f sd"
  "view_present V (f\<lparr>sf_stale_manual_mapping := b\<rparr>) disk = view_present V f disk"
  "led_decision_of V Q slot (f\<lparr>sf_stale_manual_mapping := b\<rparr>) ts = led_decision_of V Q slot f ts"
  by (simp_all add: view_identify_def view_targets_def view_present_def led_decision_of_def Let_def cong: option.case_cong if_cong)

lemma view_names_unflagged:
  "view_device (f\<lparr>sf_stale_manual_mapping := b\<rparr>) disk = view_device f disk"
  "view_source (f\<lparr>sf_stale_manual_mapping := b\<rparr>) disk device = view_source f disk device"
  by (simp_all add: view_device_def view_source_def view_parts_unflagged cong: option.case_cong)

lemma view_without_assignment:
  assumes "sf_resolution_source f = Some ''ses-empty''"
  shows "build_slot_view V slot place M (f\<lparr>sf_stale_manual_mapping := True\<rparr>) None (Some m) sd api api_ids api_failed peers =
    (build_slot_view V slot place M (f\<lparr>sf_stale_manual_mapping := False\<rparr>) None None sd api api_ids api_failed peers)
      \<lparr>sv_notes := view_notes True (Some m),
       sv_state := sv_state (build_slot_view V slot place M (f\<lparr>sf_stale_manual_mapping := True\<rparr>) None (Some m) sd api api_ids api_failed peers),
       sv_non_identify_state := sv_non_identify_state
         (build_slot_view V slot place M (f\<lparr>sf_stale_manual_mapping := True\<rparr>) None (Some m) sd api api_ids api_failed peers)\<rparr>"
proof -
  have source: "view_source f None d = Some ''ses-empty''" for d
    using assms by (simp add: view_source_def normalize_text_def py_strip_def py_isspace_def)
  have mapped: "mapping_source_of V (f\<lparr>sf_stale_manual_mapping := b\<rparr>) None mapping (Some ''ses-empty'') = ''ses-empty''" for b mapping
    by (simp add: mapping_source_of_def text_true_def)
  show ?thesis
    unfolding build_slot_view_def Let_def view_parts_unflagged view_names_unflagged source mapped
    by (simp cong: option.case_cong)
qed

text \<open>C12: An assignment by hand shows nothing in a bay that the enclosure reports empty. The view is that of the bay
  without the assignment, except that the notes say the assignment is stale and the state may still tell an assigned bay.\<close>

theorem stale_assignment_shows_nothing:
  assumes "slot_has_live_empty_evidence (slot_status.truncate f)"
  shows "let v = bay_view V slot place M f (Some m) ix ds sd api api_ids api_failed False
    in v = (bay_view V slot place M f None ix ds sd api api_ids api_failed False)
         \<lparr>sv_notes := Some ((case mm_notes m of None \<Rightarrow> '''' | Some n \<Rightarrow> if n = '''' then '''' else n @ [CHR 0x0A]) @ stale_note),
          sv_state := sv_state v, sv_non_identify_state := sv_non_identify_state v\<rparr>"
proof -
  have "bay_resolution V slot M f mapping ix ds sd False =
      \<lparr>rs_disk = None, rs_source = ''ses-empty'', rs_stale_manual_mapping = mapping \<noteq> None\<rparr>" for mapping
    using assms by (simp add: bay_resolution_def resolve_disk_for_slot_def)
  moreover have "view_notes True (Some m) = Some ((case mm_notes m of None \<Rightarrow> ''''
      | Some n \<Rightarrow> if n = '''' then '''' else n @ [CHR 0x0A]) @ stale_note)"
    by (auto simp: view_notes_def text_true_def split: option.split)
  ultimately show ?thesis
    using view_without_assignment [of "f\<lparr>sf_resolution_source := Some ''ses-empty''\<rparr>" V slot place M m sd api api_ids api_failed
        "bay_peer_devices (slot_status.truncate f) ds None (by_key ix)"]
    by (simp add: bay_view_def manual_only_slot_status_def)
qed

definition sample_facts :: slot_facts where
  "sample_facts = (manual_only_slot_status True undefined)\<lparr>ss_presence_source := Some ''sg_ses_ec'', ss_present := Some False,
     sf_manual_mapping_only := False, sf_resolution_source := None, sf_mapped_disk_identify_active := False,
     sf_enclosure_id := None, sf_enclosure_label := None, sf_enclosure_name := None\<rparr>"

definition sample_env :: view_env where
  "sample_env = \<lparr>ve_platform = ''core'', ve_ssh_enabled = True, ve_bmc_service = False, ve_slot_number_base = 0,
     ve_str = (\<lambda>_. ''''), ve_truth = (\<lambda>_. False), ve_format_bytes = (\<lambda>_. None), ve_order = sorted_list_of_set\<rparr>"

definition sample_meta :: enclosure_meta where
  "sample_meta = \<lparr>em_id = Some ''shelf'', em_label = None, em_name = None, em_slot_number_base = None\<rparr>"

definition sample_bay :: "manual_mapping option \<Rightarrow> slot_view" where
  "sample_bay mapping = bay_view sample_env 3 (0, 0) sample_meta sample_facts mapping
     (index_disk_records [sample_disk] ''core'' True) [sample_disk] sample_ssh (\<lambda>_. None) {} False False"

lemma kept_fields:
  "v = w\<lparr>sv_notes := n, sv_state := s, sv_non_identify_state := t\<rparr> \<Longrightarrow> sv_serial v = sv_serial w \<and> sv_notes v = n"
  by simp

theorem stale_assignment_shows_nothing_witness:
  "sv_serial (sample_bay (Some (sample_mapping ''ZA1''))) = sv_serial (sample_bay None) \<and>
   sv_notes (sample_bay (Some (sample_mapping ''ZA1''))) = Some stale_note"
proof -
  have "slot_has_live_empty_evidence (slot_status.truncate sample_facts)"
    by (simp add: slot_has_live_empty_evidence_def slot_status.defs sample_facts_def manual_only_slot_status_def
        normalize_text_def py_strip_def py_isspace_def ses_presence_sources_def)
  from stale_assignment_shows_nothing [OF this, of sample_env 3 "(0, 0)" sample_meta "sample_mapping ''ZA1''"
      "index_disk_records [sample_disk] ''core'' True" "[sample_disk]" sample_ssh "\<lambda>_. None" "{}" False]
  have "sample_bay (Some (sample_mapping ''ZA1'')) = (sample_bay None)
      \<lparr>sv_notes := Some stale_note, sv_state := sv_state (sample_bay (Some (sample_mapping ''ZA1''))),
       sv_non_identify_state := sv_non_identify_state (sample_bay (Some (sample_mapping ''ZA1'')))\<rparr>"
    unfolding Let_def sample_bay_def [symmetric] by (simp add: sample_mapping_def)
  then show ?thesis by (rule kept_fields)
qed

end
