(* ===== verification/Json_Text.thy ===== *)
theory Json_Text
  imports Prelude
begin

text \<open>
  The JSON texts that the backup journal reads and writes: Python's \<open>json.dumps\<close> in its stable form
  (sorted keys, no blanks, ASCII escapes) and \<open>json.loads\<close> of a line of bytes. This is the standard
  library, of which only \<open>_stable_json\<close> (\<open>history_service/backup_archive/journal.py\<close>) is a line of
  the repository; it is written out because what a reader makes of a line cut short by a crash, or
  of a line that another program damaged, decides what the journal promises.

  Here a text is a list of Unicode code points, surrogates included, and a line a list of bytes. A
  float keeps the spelling of its literal; how Python prints a float again, and whether it is zero,
  are arguments. A line of bytes 1 to 127 is its own text. What the UTF-8, UTF-16 and UTF-32
  decoders make of any other line is an argument too, so what is proved holds of every such line.
  Nesting beyond the interpreter's recursion limit is read here, where Python gives up on the line.

  The lemmas are that a printed value reads back (\<open>loads_stable_json\<close>), that no proper beginning of
  a printed object reads at all (\<open>loads_prefix\<close>) and that the reader's fuel is enough
  (\<open>scan_fuel_enough\<close>).
\<close>

subsection \<open>Values\<close>

type_synonym utext = "nat list"
type_synonym bytes = "nat list"

datatype json =
    JNull
  | JBool bool
  | JInt int
  | JFloat utext
  | JStr utext
  | JList "json list"
  | JObj "(utext \<times> json) list"

text \<open>The standard library's own answers that the model does not compute: decoding a line that is
  not plain ASCII, the \<open>repr\<close> of a float, and the tests that a float is zero and that it is finite.\<close>

record python =
  py_decode :: "bytes \<Rightarrow> utext option"
  py_float_repr :: "utext \<Rightarrow> utext"
  py_float_zero :: "utext \<Rightarrow> bool"
  py_float_finite :: "utext \<Rightarrow> bool"

definition codes :: "string \<Rightarrow> utext" where
  "codes s = map of_char s"

fun obj_set :: "(utext \<times> json) list \<Rightarrow> utext \<Rightarrow> json \<Rightarrow> (utext \<times> json) list" where
  "obj_set [] k v = [(k, v)]"
| "obj_set ((k', w) # d) k v = (if k' = k then (k, v) # d else (k', w) # obj_set d k v)"

definition obj_of :: "(utext \<times> json) list \<Rightarrow> (utext \<times> json) list" where
  "obj_of kvs = foldl (\<lambda>d (k, v). obj_set d k v) [] kvs"

definition get :: "(utext \<times> json) list \<Rightarrow> string \<Rightarrow> json option" where
  "get d k = map_of d (codes k)"

definition get_or :: "json \<Rightarrow> (utext \<times> json) list \<Rightarrow> string \<Rightarrow> json" where
  "get_or v d k = (case get d k of None \<Rightarrow> v | Some w \<Rightarrow> w)"

definition truthy :: "python \<Rightarrow> json \<Rightarrow> bool" where
  "truthy P v = (case v of JNull \<Rightarrow> False | JBool b \<Rightarrow> b | JInt i \<Rightarrow> i \<noteq> 0 | JFloat x \<Rightarrow> \<not> py_float_zero P x
     | JStr s \<Rightarrow> s \<noteq> [] | JList vs \<Rightarrow> vs \<noteq> [] | JObj d \<Rightarrow> d \<noteq> [])"

subsection \<open>Printing\<close>

definition hex_code :: "nat \<Rightarrow> nat" where
  "hex_code d = (if d < 10 then 48 + d else 87 + d)"

definition hex4 :: "nat \<Rightarrow> utext" where
  "hex4 n = [hex_code (n div 4096 mod 16), hex_code (n div 256 mod 16), hex_code (n div 16 mod 16), hex_code (n mod 16)]"

definition unit_escape :: "nat \<Rightarrow> utext" where
  "unit_escape n = [92, 117] @ hex4 n"

definition print_code :: "nat \<Rightarrow> utext" where
  "print_code n =
     (if n = 34 \<or> n = 92 then [92, n]
      else if n = 10 then [92, 110] else if n = 13 then [92, 114] else if n = 9 then [92, 116]
      else if n = 8 then [92, 98] else if n = 12 then [92, 102]
      else if 32 \<le> n \<and> n \<le> 126 then [n]
      else if n < 65536 then unit_escape n
      else unit_escape (55296 + (n - 65536) div 1024) @ unit_escape (56320 + (n - 65536) mod 1024))"

definition print_text :: "utext \<Rightarrow> utext" where
  "print_text s = [34] @ concat (map print_code s) @ [34]"

fun digits10 :: "nat \<Rightarrow> utext" where
  "digits10 n = (if n < 10 then [48 + n] else digits10 (n div 10) @ [48 + n mod 10])"

definition print_int :: "int \<Rightarrow> utext" where
  "print_int i = (if i < 0 then [45] else []) @ digits10 (nat \<bar>i\<bar>)"

fun commas :: "utext list \<Rightarrow> utext" where
  "commas [] = []"
| "commas [p] = p"
| "commas (p # q # ps) = p @ [44] @ commas (q # ps)"

text \<open>\<open>print_json\<close> prints a value as it stands. \<open>stable_json\<close> sorts the keys of every object first,
  as \<open>sort_keys\<close> asks for, and \<open>has_text\<close> tells where \<open>json.dumps\<close> raises nothing: every float is
  one that \<open>allow_nan=False\<close> accepts and every integer within the interpreter's 4300 digits.\<close>

fun print_json :: "python \<Rightarrow> json \<Rightarrow> utext" where
  "print_json P JNull = codes ''null''"
| "print_json P (JBool b) = codes (if b then ''true'' else ''false'')"
| "print_json P (JInt i) = print_int i"
| "print_json P (JFloat x) = py_float_repr P x"
| "print_json P (JStr s) = print_text s"
| "print_json P (JList vs) = [91] @ commas (map (print_json P) vs) @ [93]"
| "print_json P (JObj d) = [123] @ commas (map (\<lambda>(k, v). print_text k @ [58] @ print_json P v) d) @ [125]"

fun sort_keys :: "json \<Rightarrow> json" where
  "sort_keys (JList vs) = JList (map sort_keys vs)"
| "sort_keys (JObj d) = JObj (sort_key fst (map (\<lambda>(k, v). (k, sort_keys v)) d))"
| "sort_keys v = v"

definition stable_json :: "python \<Rightarrow> json \<Rightarrow> utext" where
  "stable_json P v = print_json P (sort_keys v)"

fun has_text :: "(utext \<Rightarrow> bool) \<Rightarrow> json \<Rightarrow> bool" where
  "has_text fin (JList vs) = list_all (has_text fin) vs"
| "has_text fin (JObj d) = list_all (\<lambda>(k, v). has_text fin v) d"
| "has_text fin (JFloat x) = fin x"
| "has_text fin (JInt i) = (length (digits10 (nat \<bar>i\<bar>)) \<le> 4300)"
| "has_text fin v = True"

subsection \<open>Reading\<close>

definition is_digit :: "nat \<Rightarrow> bool" where
  "is_digit c \<longleftrightarrow> 48 \<le> c \<and> c \<le> 57"

definition is_ws :: "nat \<Rightarrow> bool" where
  "is_ws c \<longleftrightarrow> c = 32 \<or> c = 9 \<or> c = 10 \<or> c = 13"

definition skip_ws :: "utext \<Rightarrow> utext" where
  "skip_ws s = dropWhile is_ws s"

definition next_is :: "nat \<Rightarrow> utext \<Rightarrow> bool" where
  "next_is c s = (case s of [] \<Rightarrow> False | d # _ \<Rightarrow> d = c)"

definition after :: "utext \<Rightarrow> utext \<Rightarrow> utext option" where
  "after p s = (if take (length p) s = p then Some (drop (length p) s) else None)"

definition hex_value :: "nat \<Rightarrow> nat option" where
  "hex_value c = (if is_digit c then Some (c - 48) else if 65 \<le> c \<and> c \<le> 70 then Some (c - 55)
     else if 97 \<le> c \<and> c \<le> 102 then Some (c - 87) else None)"

definition hex_unit :: "utext \<Rightarrow> (nat \<times> utext) option" where
  "hex_unit s = (case s of a # b # c # d # r \<Rightarrow>
       (case (hex_value a, hex_value b, hex_value c, hex_value d) of
          (Some w, Some x, Some y, Some z) \<Rightarrow> Some (4096 * w + 256 * x + 16 * y + z, r)
        | _ \<Rightarrow> None)
     | _ \<Rightarrow> None)"

definition high_surrogate :: "nat \<Rightarrow> bool" where
  "high_surrogate n \<longleftrightarrow> 55296 \<le> n \<and> n \<le> 56319"

definition low_surrogate :: "nat \<Rightarrow> bool" where
  "low_surrogate n \<longleftrightarrow> 56320 \<le> n \<and> n \<le> 57343"

text \<open>The code point of an escape: a high surrogate takes the low one escaped right after it.\<close>

definition escaped_unit :: "utext \<Rightarrow> (nat \<times> utext) option" where
  "escaped_unit s = (case hex_unit s of None \<Rightarrow> None
     | Some (u, r) \<Rightarrow> if \<not> high_surrogate u then Some (u, r) else
         (case after [92, 117] r of None \<Rightarrow> Some (u, r)
          | Some t \<Rightarrow> (case hex_unit t of None \<Rightarrow> None
              | Some (w, q) \<Rightarrow> if low_surrogate w then Some (65536 + 1024 * (u - 55296) + (w - 56320), q) else Some (u, r))))"

definition escaped :: "utext \<Rightarrow> (nat \<times> utext) option" where
  "escaped s = (case s of [] \<Rightarrow> None
     | c # t \<Rightarrow> if c = 34 \<or> c = 92 \<or> c = 47 then Some (c, t)
         else if c = 98 then Some (8, t) else if c = 102 then Some (12, t) else if c = 110 then Some (10, t)
         else if c = 114 then Some (13, t) else if c = 116 then Some (9, t)
         else if c = 117 then escaped_unit t else None)"

lemma hex_unit_shorter: "hex_unit s = Some (u, r) \<Longrightarrow> length s = length r + 4"
  by (auto simp: hex_unit_def split: list.splits option.splits)

lemma after_shorter: "after p s = Some r \<Longrightarrow> length s = length r + length p"
  by (auto simp: after_def split: if_splits) (metis append_take_drop_id length_append add.commute length_drop)

lemma escaped_shorter: "escaped s = Some (u, r) \<Longrightarrow> length r < length s"
  by (auto simp: escaped_def escaped_unit_def split: list.splits if_splits option.splits
      dest!: hex_unit_shorter after_shorter)

text \<open>A string from after its opening quote on.\<close>

function scan_string :: "utext \<Rightarrow> (utext \<times> utext) option" where
  "scan_string s = (case s of [] \<Rightarrow> None
     | c # t \<Rightarrow> if c = 34 then Some ([], t)
         else if c = 92 then (case escaped t of None \<Rightarrow> None
            | Some (u, r) \<Rightarrow> map_option (\<lambda>(x, q). (u # x, q)) (scan_string r))
         else if c < 32 then None
         else map_option (\<lambda>(x, q). (c # x, q)) (scan_string t))"
  by auto
termination
  by (relation "measure length") (auto dest: escaped_shorter)

declare scan_string.simps [simp del]

definition fraction :: "utext \<Rightarrow> utext" where
  "fraction s = (if next_is 46 s then (let d = takeWhile is_digit (tl s) in if d = [] then [] else 46 # d) else [])"

definition exponent :: "utext \<Rightarrow> utext" where
  "exponent s = (if next_is 101 s \<or> next_is 69 s
     then (let g = (if next_is 43 (tl s) \<or> next_is 45 (tl s) then [hd (tl s)] else []);
               d = takeWhile is_digit (drop (length g) (tl s))
           in if d = [] then [] else hd s # g @ d)
     else [])"

definition value10 :: "utext \<Rightarrow> nat" where
  "value10 ds = foldl (\<lambda>v c. 10 * v + (c - 48)) 0 ds"

definition scan_number :: "utext \<Rightarrow> (json \<times> utext) option" where
  "scan_number s =
     (let neg = next_is 45 s; t = (if neg then tl s else s);
          ds = (if next_is 48 t then [48] else takeWhile is_digit t); r = drop (length ds) t;
          f = fraction r; q = drop (length f) r; e = exponent q
      in if ds = [] then None
         else if f @ e \<noteq> [] then Some (JFloat ((if neg then [45] else []) @ ds @ f @ e), drop (length e) q)
         else if 4300 < length ds then None
         else Some (JInt (if neg then - int (value10 ds) else int (value10 ds)), r))"

definition word :: "string \<Rightarrow> json \<Rightarrow> utext \<Rightarrow> (json \<times> utext) option" where
  "word w v s = map_option (\<lambda>r. (v, r)) (after (codes w) s)"

definition scan_word :: "utext \<Rightarrow> (json \<times> utext) option" where
  "scan_word s =
     (if next_is 110 s then word ''null'' JNull s
      else if next_is 116 s then word ''true'' (JBool True) s
      else if next_is 102 s then word ''false'' (JBool False) s
      else if next_is 78 s then word ''NaN'' (JFloat (codes ''NaN'')) s
      else if next_is 73 s then word ''Infinity'' (JFloat (codes ''Infinity'')) s
      else if next_is 45 s \<and> next_is 73 (tl s) then word ''-Infinity'' (JFloat (codes ''-Infinity'')) s
      else scan_number s)"

text \<open>Values, the elements of an array from the first one on, the members of an object from after
  the first key's opening quote on. The first argument is fuel.\<close>

fun scan_value :: "nat \<Rightarrow> utext \<Rightarrow> (json \<times> utext) option"
and scan_items :: "nat \<Rightarrow> utext \<Rightarrow> (json list \<times> utext) option"
and scan_members :: "nat \<Rightarrow> utext \<Rightarrow> ((utext \<times> json) list \<times> utext) option" where
  "scan_value 0 s = None"
| "scan_value (Suc n) s =
     (if next_is 34 s then map_option (\<lambda>(x, r). (JStr x, r)) (scan_string (tl s))
      else if next_is 91 s then (let t = skip_ws (tl s) in if next_is 93 t then Some (JList [], tl t)
         else map_option (\<lambda>(vs, r). (JList vs, r)) (scan_items n t))
      else if next_is 123 s then (let t = skip_ws (tl s) in if next_is 125 t then Some (JObj [], tl t)
         else if next_is 34 t then map_option (\<lambda>(d, r). (JObj (obj_of d), r)) (scan_members n (tl t)) else None)
      else scan_word s)"
| "scan_items 0 s = None"
| "scan_items (Suc n) s = (case scan_value n s of None \<Rightarrow> None
     | Some (v, r) \<Rightarrow> (let t = skip_ws r in if next_is 93 t then Some ([v], tl t)
         else if next_is 44 t then map_option (\<lambda>(vs, q). (v # vs, q)) (scan_items n (skip_ws (tl t)))
         else None))"
| "scan_members 0 s = None"
| "scan_members (Suc n) s = (case scan_string s of None \<Rightarrow> None
     | Some (k, r) \<Rightarrow> (let t = skip_ws r in if next_is 58 t
         then (case scan_value n (skip_ws (tl t)) of None \<Rightarrow> None
            | Some (v, q) \<Rightarrow> (let u = skip_ws q in if next_is 125 u then Some ([(k, v)], tl u)
                else if next_is 44 u \<and> next_is 34 (skip_ws (tl u))
                then map_option (\<lambda>(d, p). ((k, v) # d, p)) (scan_members n (tl (skip_ws (tl u))))
                else None))
         else None))"

definition loads_text :: "utext \<Rightarrow> json option" where
  "loads_text s = (case scan_value (2 * length s + 2) (skip_ws s) of None \<Rightarrow> None
     | Some (v, r) \<Rightarrow> if skip_ws r = [] then Some v else None)"

definition plain_ascii :: "bytes \<Rightarrow> bool" where
  "plain_ascii s \<longleftrightarrow> list_all (\<lambda>c. 0 < c \<and> c < 128) s"

definition loads :: "python \<Rightarrow> bytes \<Rightarrow> json option" where
  "loads P s = (if plain_ascii s then loads_text s else case py_decode P s of None \<Rightarrow> None | Some t \<Rightarrow> loads_text t)"

subsection \<open>What the reader leaves\<close>

lemma next_is_iff: "next_is c s \<longleftrightarrow> (\<exists>t. s = c # t)"
  by (cases s) (auto simp: next_is_def)

lemma next_is_simps [simp]: "next_is c [] \<longleftrightarrow> False" "next_is c (d # s) \<longleftrightarrow> d = c"
  by (simp_all add: next_is_def)

lemma next_is_append: "s \<noteq> [] \<Longrightarrow> next_is c (s @ t) = next_is c s"
  by (cases s) auto

lemma after_append: "length p \<le> length s \<Longrightarrow> after p (s @ t) = map_option (\<lambda>r. r @ t) (after p s)"
  by (simp add: after_def)

lemma after_self [simp]: "after p (p @ s) = Some s"
  by (simp add: after_def)

lemma after_SomeD: "after p s = Some r \<Longrightarrow> s = p @ r"
  by (auto simp: after_def split: if_splits) (metis append_take_drop_id)

lemma length_skip_ws: "length (skip_ws s) \<le> length s"
  by (simp add: skip_ws_def length_dropWhile_le)

lemma skip_ws_append: "skip_ws s \<noteq> [] \<Longrightarrow> skip_ws (s @ t) = skip_ws s @ t"
  by (auto simp: skip_ws_def dropWhile_append)

lemma skip_ws_eq_Nil: "skip_ws s = [] \<longleftrightarrow> list_all is_ws s"
  by (simp add: skip_ws_def list_all_iff)

lemma skip_ws_id: "s \<noteq> [] \<Longrightarrow> \<not> is_ws (hd s) \<Longrightarrow> skip_ws s = s"
  by (cases s) (auto simp: skip_ws_def)

lemma scan_string_shorter: "scan_string s = Some (x, r) \<Longrightarrow> length r < length s"
proof (induction s arbitrary: x r rule: scan_string.induct)
  case (1 s)
  show ?case
  proof (cases s)
    case Nil
    then show ?thesis
      using 1(3) by (simp add: scan_string.simps)
  next
    case (Cons c t)
    note s = 1(3)[unfolded Cons scan_string.simps[of "c # t"]]
    consider "c = 34" | u q where "c = 92" "escaped t = Some (u, q)" | "c \<noteq> 34" "c \<noteq> 92" "\<not> c < 32"
      using s by (auto split: if_splits option.splits)
    then show ?thesis
    proof cases
      case 1
      then show ?thesis using s Cons by simp
    next
      case 2
      then obtain y where "scan_string q = Some (y, r)" using s by auto
      then have "length r < length q" using 1(1)[OF Cons _ _ 2(2)] 2(1) by simp
      then show ?thesis using escaped_shorter[OF 2(2)] Cons by simp
    next
      case 3
      then obtain y where "scan_string t = Some (y, r)" using s by auto
      then show ?thesis using 1(2)[OF Cons] 3 Cons by fastforce
    qed
  qed
qed

lemma word_shorter: "word w v s = Some (u, r) \<Longrightarrow> w \<noteq> '''' \<Longrightarrow> length r < length s"
  by (auto simp: word_def codes_def dest!: after_shorter)

lemma scan_number_shorter: "scan_number s = Some (v, r) \<Longrightarrow> length r < length s"
  by (cases s) (auto simp: scan_number_def Let_def split: if_splits)

lemma scan_word_shorter: "scan_word s = Some (v, r) \<Longrightarrow> length r < length s"
  by (auto simp: scan_word_def split: if_splits dest!: word_shorter scan_number_shorter)

lemma next_isD: "next_is c s \<Longrightarrow> s = c # tl s"
  by (cases s) auto

lemma shorter_tl: "next_is c s \<Longrightarrow> length (tl s) < length s"
  by (cases s) auto

lemma length_skip_tl: "length (skip_ws (tl s)) \<le> length s"
  by (metis One_nat_def diff_le_self le_trans length_skip_ws length_tl)

lemma scan_shorter:
  "scan_value n s = Some (v, r) \<Longrightarrow> length r < length s"
  "scan_items n s = Some (vs, r) \<Longrightarrow> length r < length s"
  "scan_members n s = Some (d, r) \<Longrightarrow> length r < length s"
proof (induction n s and n s and n s arbitrary: v r and vs r and d r
    rule: scan_value_scan_items_scan_members.induct)
  case (2 n s)
  let ?t = "skip_ws (tl s)"
  have l: "length ?t \<le> length (tl s)" "length (tl ?t) \<le> length ?t"
    using length_skip_ws[of "tl s"] by simp_all
  consider x where "next_is 34 s" "scan_string (tl s) = Some (x, r)"
    | "next_is 91 s" "r = tl ?t" | vs where "next_is 91 s" "\<not> next_is 93 ?t" "\<not> next_is 34 s" "scan_items n ?t = Some (vs, r)"
    | "next_is 123 s" "r = tl ?t" | d where "next_is 123 s" "\<not> next_is 34 s" "\<not> next_is 91 s" "\<not> next_is 125 ?t"
        "next_is 34 ?t" "scan_members n (tl ?t) = Some (d, r)"
    | "scan_word s = Some (v, r)"
    using 2(3) by (auto simp: Let_def split: if_splits)
  then show ?case
  proof cases
    case 1
    then show ?thesis using scan_string_shorter shorter_tl by fastforce
  next
    case 2
    then show ?thesis using l shorter_tl by fastforce
  next
    case 3
    then have "length r < length ?t" using 2(1) by blast
    then show ?thesis using l shorter_tl[OF 3(1)] by simp
  next
    case 4
    then show ?thesis using l shorter_tl by fastforce
  next
    case 5
    then have "length r < length (tl ?t)" using 2(2) by blast
    then show ?thesis using l shorter_tl[OF 5(1)] by simp
  next
    case 6
    then show ?thesis by (rule scan_word_shorter)
  qed
next
  case (4 n s)
  from 4(3) obtain v q where v: "scan_value n s = Some (v, q)"
    by (auto split: option.splits)
  let ?t = "skip_ws q"
  have q: "length q < length s" "length ?t \<le> length q" "length (tl ?t) \<le> length ?t" "length (skip_ws (tl ?t)) \<le> length ?t"
    using 4(1)[OF v] length_skip_ws length_skip_tl by simp_all
  consider "r = tl ?t" | ws where "\<not> next_is 93 ?t" "next_is 44 ?t" "scan_items n (skip_ws (tl ?t)) = Some (ws, r)"
    using 4(3) v by (auto simp: Let_def split: if_splits)
  then show ?case
  proof cases
    case 1
    then show ?thesis using q by simp
  next
    case 2
    then have "length r < length (skip_ws (tl ?t))" using 4(2)[OF v refl refl] by blast
    then show ?thesis using q by simp
  qed
next
  case (6 n s)
  from 6(3) obtain k q where k: "scan_string s = Some (k, q)" and c: "next_is 58 (skip_ws q)"
    by (auto simp: Let_def split: option.splits if_splits)
  let ?t = "skip_ws (tl (skip_ws q))"
  from 6(3) k c obtain v p where v: "scan_value n ?t = Some (v, p)"
    by (auto simp: Let_def split: option.splits)
  let ?u = "skip_ws p"
  have q: "length q < length s" "length ?t \<le> length q" "length p < length ?t" "length ?u \<le> length p" "length (tl ?u) \<le> length ?u"
    "length (tl (skip_ws (tl ?u))) \<le> length ?u"
    using scan_string_shorter[OF k] 6(1)[OF k refl refl c v] length_skip_ws[of q] length_skip_tl[of "skip_ws q"]
      length_skip_ws[of p] length_skip_tl[of ?u] length_tl[of ?u] length_tl[of "skip_ws (tl ?u)"] by linarith+
  consider "r = tl ?u" | e where "\<not> next_is 125 ?u" "next_is 44 ?u \<and> next_is 34 (skip_ws (tl ?u))"
      "scan_members n (tl (skip_ws (tl ?u))) = Some (e, r)"
    using 6(3) k c v by (auto simp: Let_def split: if_splits)
  then show ?case
  proof cases
    case 1
    then show ?thesis using q by simp
  next
    case 2
    then have "length r < length (tl (skip_ws (tl ?u)))" using 6(2)[OF k refl refl c v refl refl] by blast
    then show ?thesis using q by simp
  qed
qed auto

subsection \<open>The fuel of the reader\<close>

text \<open>Whatever fuel reads a value, twice the length of what is read is enough and gives the same.\<close>

lemma scan_fuel_enough:
  "scan_value n s = Some x \<Longrightarrow> 2 * length s + 1 \<le> m \<Longrightarrow> scan_value m s = Some x"
  "scan_items n s = Some y \<Longrightarrow> 2 * length s + 2 \<le> m \<Longrightarrow> scan_items m s = Some y"
  "scan_members n s = Some z \<Longrightarrow> 2 * length s + 2 \<le> m \<Longrightarrow> scan_members m s = Some z"
proof (induction n s and n s and n s arbitrary: x m and y m and z m
    rule: scan_value_scan_items_scan_members.induct)
  case (2 n s)
  from 2(4) obtain k where m: "m = Suc k" and k: "2 * length s \<le> k" by (cases m) auto
  let ?t = "skip_ws (tl s)"
  have items: "scan_items k ?t = Some vs" if "next_is 91 s" "\<not> next_is 93 ?t" "\<not> next_is 34 s" "scan_items n ?t = Some vs" for vs
    using 2(1)[OF that(3,1) refl that(2,4)] k shorter_tl[OF that(1)] length_skip_ws[of "tl s"] by simp
  have members: "scan_members k (tl ?t) = Some d" if "next_is 123 s" "next_is 34 ?t" "scan_members n (tl ?t) = Some d" for d
  proof -
    have "\<not> next_is 34 s" "\<not> next_is 91 s" "\<not> next_is 125 ?t" using that(1,2) by (auto simp: next_is_iff)
    then show ?thesis
      using 2(2)[OF _ _ that(1) refl _ that(2,3)] k shorter_tl[OF that(1)] length_skip_ws[of "tl s"] by simp
  qed
  show ?case
    using 2(3) items members by (auto simp: m Let_def split: if_splits)
next
  case (4 n s)
  from 4(4) obtain k where m: "m = Suc k" and k: "2 * length s + 1 \<le> k" by (cases m) auto
  from 4(3) obtain v q where v: "scan_value n s = Some (v, q)" by (auto split: option.splits)
  let ?t = "skip_ws q"
  have q: "length q < length s" "length (skip_ws (tl ?t)) \<le> length q"
    using scan_shorter(1)[OF v] length_skip_ws[of q] length_skip_tl[of ?t] by simp_all
  have "scan_value k s = Some (v, q)" using 4(1)[OF v k] .
  moreover have "scan_items k (skip_ws (tl ?t)) = Some w" if "\<not> next_is 93 ?t" "next_is 44 ?t" "scan_items n (skip_ws (tl ?t)) = Some w" for w
    using 4(2)[OF v refl refl that] k q by simp
  ultimately show ?case
    using 4(3) v by (auto simp: m Let_def split: if_splits)
next
  case (6 n s)
  from 6(4) obtain l where m: "m = Suc l" and l: "2 * length s + 1 \<le> l" by (cases m) auto
  from 6(3) obtain k q where k: "scan_string s = Some (k, q)" and c: "next_is 58 (skip_ws q)"
    by (auto simp: Let_def split: option.splits if_splits)
  let ?t = "skip_ws (tl (skip_ws q))"
  from 6(3) k c obtain v p where v: "scan_value n ?t = Some (v, p)"
    by (auto simp: Let_def split: option.splits)
  let ?u = "skip_ws p"
  have q: "length q < length s" "length ?t \<le> length q" "length p < length ?t" "length (tl (skip_ws (tl ?u))) \<le> length p"
    using scan_string_shorter[OF k] scan_shorter(1)[OF v] length_skip_ws[of q] length_skip_tl[of "skip_ws q"]
      length_skip_ws[of p] length_skip_tl[of ?u] length_tl[of "skip_ws (tl ?u)"] by linarith+
  have "scan_value l ?t = Some (v, p)" using 6(1)[OF k refl refl c v] l q by simp
  moreover have "scan_members l (tl (skip_ws (tl ?u))) = Some w"
    if "\<not> next_is 125 ?u" "next_is 44 ?u" "next_is 34 (skip_ws (tl ?u))" "scan_members n (tl (skip_ws (tl ?u))) = Some w" for w
    using 6(2)[OF k refl refl c v refl refl that(1) conjI[OF that(2,3)] that(4)] l q by simp
  ultimately show ?case
    using 6(3) k c v by (auto simp: m Let_def split: if_splits)
qed auto

subsection \<open>Reading does not depend on what follows\<close>

text \<open>What stops a number: a blank, a comma or a closing bracket.\<close>

definition stop :: "utext \<Rightarrow> bool" where
  "stop r \<longleftrightarrow> (case r of [] \<Rightarrow> False | c # _ \<Rightarrow> is_ws c \<or> c = 44 \<or> c = 93 \<or> c = 125)"

lemma stop_iff: "stop r \<longleftrightarrow> (\<exists>c t. r = c # t \<and> (is_ws c \<or> c = 44 \<or> c = 93 \<or> c = 125))"
  by (cases r) (auto simp: stop_def)

lemma stop_skip_ws: "next_is c (skip_ws r) \<Longrightarrow> c = 44 \<or> c = 93 \<or> c = 125 \<Longrightarrow> stop r"
  by (cases r) (auto simp: stop_def skip_ws_def split: if_splits)

lemma scan_string_SomeD: "scan_string s = Some (x, r) \<Longrightarrow> s \<noteq> [] \<and> s \<noteq> [92]"
  by (auto simp: scan_string.simps[of s] escaped_def)

lemma hex_unit_append: "hex_unit s = Some (u, r) \<Longrightarrow> hex_unit (s @ t) = Some (u, r @ t)"
  by (auto simp: hex_unit_def split: list.splits option.splits)

lemma after_append_Some: "after p s = Some r \<Longrightarrow> after p (s @ t) = Some (r @ t)"
  by (metis after_SomeD after_self append_assoc)

lemma escaped_append:
  assumes "escaped s = Some (u, r)" and "scan_string r = Some (x, q)"
  shows "escaped (s @ t) = Some (u, r @ t)"
proof (cases s)
  case Nil
  then show ?thesis using assms by (simp add: escaped_def)
next
  case (Cons c s')
  show ?thesis
  proof (cases "c = 117")
    case True
    then have e: "escaped_unit s' = Some (u, r)" using assms(1) Cons by (simp add: escaped_def)
    then obtain w p where p: "hex_unit s' = Some (w, p)" by (auto simp: escaped_unit_def split: option.splits)
    have "escaped_unit (s' @ t) = Some (u, r @ t)"
    proof (cases "high_surrogate w \<and> after [92, 117] p = None")
      case True
      then have "r = p" using e p by (simp add: escaped_unit_def)
      then have "p \<noteq> []" "p \<noteq> [92]" using scan_string_SomeD[OF assms(2)] by auto
      then have "2 \<le> length p \<or> hd p \<noteq> 92" by (cases p; cases "tl p") auto
      then have "after [92, 117] (p @ t) = None"
        using True \<open>p \<noteq> []\<close> by (cases p) (auto simp: after_def split: if_splits)
      then show ?thesis using True e p by (simp add: escaped_unit_def hex_unit_append[OF p])
    next
      case False
      show ?thesis
      proof (cases "high_surrogate w")
        case True
        then obtain v where v: "after [92, 117] p = Some v" using False by auto
        then obtain z y where z: "hex_unit v = Some (z, y)"
          using e p True by (auto simp: escaped_unit_def split: option.splits)
        show ?thesis
          using e p True v z by (simp add: escaped_unit_def hex_unit_append[OF p] after_append_Some[OF v] hex_unit_append[OF z] split: if_splits)
      next
        case False
        then show ?thesis using e p by (simp add: escaped_unit_def hex_unit_append[OF p])
      qed
    qed
    then show ?thesis using True Cons by (simp add: escaped_def)
  next
    case False
    then show ?thesis using assms(1) Cons by (auto simp: escaped_def split: if_splits)
  qed
qed

lemma scan_string_append: "scan_string s = Some (x, r) \<Longrightarrow> scan_string (s @ t) = Some (x, r @ t)"
proof (induction s arbitrary: x r rule: scan_string.induct)
  case (1 s)
  show ?case
  proof (cases s)
    case Nil
    then show ?thesis using 1(3) by (simp add: scan_string.simps)
  next
    case (Cons c v)
    note s = 1(3)[unfolded Cons scan_string.simps[of "c # v"]]
    consider "c = 34" | u q y where "c = 92" "escaped v = Some (u, q)" "scan_string q = Some (y, r)" "x = u # y"
      | y where "c \<noteq> 34" "c \<noteq> 92" "\<not> c < 32" "scan_string v = Some (y, r)" "x = c # y"
      using s by (auto split: if_splits option.splits)
    then show ?thesis
    proof cases
      case 1
      then show ?thesis using s Cons by (auto simp: scan_string.simps[of "34 # _"])
    next
      case 2
      have "scan_string (q @ t) = Some (y, r @ t)" using 1(1)[OF Cons _ _ 2(2) refl 2(3)] 2(1) by simp
      then show ?thesis using escaped_append[OF 2(2,3)] 2 Cons by (simp add: scan_string.simps[of "92 # _"])
    next
      case 3
      have "scan_string (v @ t) = Some (y, r @ t)" using 1(2)[OF Cons 3(1,2,3,4)] .
      then show ?thesis using 3 Cons by (simp add: scan_string.simps[of "c # _"])
    qed
  qed
qed

lemma takeWhile_append_stop: "drop (length (takeWhile P s)) s \<noteq> [] \<Longrightarrow> takeWhile P (s @ t) = takeWhile P s"
  by (induction s) auto

lemma stop_not_digit: "stop (c # r) \<Longrightarrow> \<not> is_digit c \<and> c \<noteq> 46 \<and> c \<noteq> 101 \<and> c \<noteq> 69"
  by (auto simp: stop_def is_digit_def is_ws_def)

lemma exponent_Cons:
  assumes "c = 101 \<or> c = 69" and "(if next_is 43 u \<or> next_is 45 u then [hd u] else []) = g"
  shows "exponent (c # u) = (if takeWhile is_digit (drop (length g) u) = [] then []
    else c # g @ takeWhile is_digit (drop (length g) u))"
  unfolding exponent_def Let_def list.sel assms(2) using assms(1) by simp

lemma exponent_append:
  assumes "stop (drop (length (exponent s)) s)"
  shows "exponent (s @ t) = exponent s"
proof (cases "next_is 101 s \<or> next_is 69 s")
  case False
  moreover have "s \<noteq> []" using assms by (auto simp: stop_def)
  ultimately show ?thesis by (auto simp: exponent_def next_is_append)
next
  case True
  then obtain c u where s: "s = c # u" "c = 101 \<or> c = 69" by (auto simp: next_is_iff)
  define g where "g = (if next_is 43 u \<or> next_is 45 u then [hd u] else [])"
  let ?d = "takeWhile is_digit (drop (length g) u)"
  have e: "exponent s = (if ?d = [] then [] else c # g @ ?d)"
    using exponent_Cons[OF s(2) g_def [symmetric]] s(1) by simp
  have d: "?d \<noteq> []" using assms e s stop_not_digit by (cases "?d = []") auto
  have u: "u \<noteq> []" using d by (cases u) auto
  have "drop (length (exponent s)) s = drop (length ?d) (drop (length g) u)"
    using e d s by (simp add: add.commute)
  then have "drop (length ?d) (drop (length g) u) \<noteq> []" using assms by (auto simp: stop_def)
  then have "takeWhile is_digit (drop (length g) u @ t) = ?d" by (rule takeWhile_append_stop)
  moreover have "drop (length g) (u @ t) = drop (length g) u @ t"
    using u by (cases u) (auto simp: g_def)
  moreover have "(if next_is 43 (u @ t) \<or> next_is 45 (u @ t) then [hd (u @ t)] else []) = g"
    using u by (cases u) (auto simp: g_def)
  ultimately show ?thesis
    using exponent_Cons[OF s(2), of "u @ t" g] s(1) e by simp
qed

lemma fraction_append:
  assumes "stop (drop (length (fraction s)) s) \<or> next_is 101 (drop (length (fraction s)) s) \<or> next_is 69 (drop (length (fraction s)) s)"
  shows "fraction (s @ t) = fraction s"
proof (cases "next_is 46 s")
  case False
  moreover have "s \<noteq> []" using assms by (auto simp: stop_def)
  ultimately show ?thesis by (simp add: fraction_def next_is_append)
next
  case True
  then obtain u where s: "s = 46 # u" by (auto simp: next_is_iff)
  let ?d = "takeWhile is_digit u"
  have e: "fraction s = (if ?d = [] then [] else 46 # ?d)" using s by (simp add: fraction_def Let_def)
  have d: "?d \<noteq> []" using assms e s stop_not_digit by (cases "?d = []") auto
  have "drop (length ?d) u \<noteq> []" using assms e d s by (auto simp: stop_def)
  then show ?thesis using s e d by (simp add: fraction_def Let_def takeWhile_append_stop)
qed

lemma scan_number_append:
  assumes "scan_number s = Some (v, r)" and "stop r"
  shows "scan_number (s @ t) = Some (v, r @ t)"
proof -
  define n where "n = next_is 45 s"
  define u where "u = (if n then tl s else s)"
  define ds where "ds = (if next_is 48 u then [48] else takeWhile is_digit u)"
  define f where "f = fraction (drop (length ds) u)"
  define q where "q = drop (length f) (drop (length ds) u)"
  define e where "e = exponent q"
  have v: "scan_number s = (if ds = [] then None
         else if f @ e \<noteq> [] then Some (JFloat ((if n then [45] else []) @ ds @ f @ e), drop (length e) q)
         else if 4300 < length ds then None
         else Some (JInt (if n then - int (value10 ds) else int (value10 ds)), drop (length ds) u))"
    by (simp add: scan_number_def Let_def n_def u_def ds_def f_def q_def e_def)
  have d: "ds \<noteq> []" and r: "r = drop (length e) q"
    using v assms(1) by (auto simp: q_def split: if_splits)
  have ne: "e = exponent q" "stop (drop (length e) q)" using assms(2) r by (simp_all add: e_def)
  have q: "exponent (q @ t) = e" using exponent_append ne by simp
  have q0: "stop q \<or> next_is 101 q \<or> next_is 69 q"
    using ne by (cases "e = []") (auto simp: exponent_def split: if_splits)
  then have "fraction (drop (length ds) u @ t) = f"
    using fraction_append[of "drop (length ds) u" t] unfolding q_def f_def by blast
  moreover have q1: "q \<noteq> []" using q0 by (auto simp: stop_def)
  then have rest: "drop (length ds) u \<noteq> []" by (auto simp: q_def)
  have u0: "u \<noteq> []" using d by (auto simp: ds_def split: if_splits)
  have "(if next_is 48 (u @ t) then [48] else takeWhile is_digit (u @ t)) = ds"
    using u0 rest by (auto simp: ds_def next_is_append takeWhile_append_stop split: if_splits)
  moreover have "drop (length ds) (u @ t) = drop (length ds) u @ t" "drop (length f) (drop (length ds) u @ t) = q @ t"
    "drop (length e) (q @ t) = drop (length e) q @ t"
  proof -
    have "drop (length e) q \<noteq> []" using ne(2) by (auto simp: stop_def)
    then have "length e < length q" by simp
    moreover have "length f + length ds < length u" using q1 by (simp add: q_def)
    ultimately show "drop (length ds) (u @ t) = drop (length ds) u @ t" "drop (length f) (drop (length ds) u @ t) = q @ t"
      "drop (length e) (q @ t) = drop (length e) q @ t"
      by (simp_all add: q_def)
  qed
  moreover have "next_is 45 (s @ t) = n" "(if n then tl (s @ t) else s @ t) = u @ t"
    using u0 by (cases s; auto simp: n_def u_def)+
  ultimately have "scan_number (s @ t) = (if ds = [] then None
         else if f @ e \<noteq> [] then Some (JFloat ((if n then [45] else []) @ ds @ f @ e), drop (length e) q @ t)
         else if 4300 < length ds then None
         else Some (JInt (if n then - int (value10 ds) else int (value10 ds)), drop (length ds) u @ t))"
    unfolding scan_number_def Let_def by (simp only: q)
  then show ?thesis
    using v assms(1) by (auto split: if_splits)
qed

lemma word_append: "word w v s = Some (u, r) \<Longrightarrow> word w v (s @ t) = Some (u, r @ t)"
  by (auto simp: word_def after_append_Some)

lemma word_iff: "word w v s = Some (u, r) \<longleftrightarrow> u = v \<and> s = codes w @ r"
  by (auto simp: word_def dest: after_SomeD)

lemma scan_word_append:
  assumes "scan_word s = Some (v, r)" and "stop r"
  shows "scan_word (s @ t) = Some (v, r @ t)"
proof -
  obtain c u where s: "s = c # u" using scan_word_shorter[OF assms(1)] by (cases s) auto
  have minus: "next_is 73 (u @ t) = next_is 73 u" if "c = 45"
  proof (cases u)
    case Nil
    then show ?thesis using assms(1) that s by (simp add: scan_word_def scan_number_def)
  qed simp
  have words: "word w x s = Some (v, r) \<Longrightarrow> word w x (s @ t) = Some (v, r @ t)" for w x
    by (rule word_append)
  have number: "scan_number s = Some (v, r) \<Longrightarrow> scan_number (s @ t) = Some (v, r @ t)"
    using assms(2) by (rule scan_number_append [rotated])
  have "next_is k (s @ t) = next_is k s" "tl (s @ t) = tl s @ t" for k by (simp_all add: s)
  then show ?thesis
    using assms(1) minus unfolding scan_word_def
    by (simp only: split: if_split_asm) (simp_all add: words number s [symmetric], auto simp: s)
qed

lemma scan_append:
  "scan_value n s = Some (v, r) \<Longrightarrow> stop r \<or> next_is 123 s \<Longrightarrow> scan_value n (s @ t) = Some (v, r @ t)"
  "scan_items n s = Some (vs, r) \<Longrightarrow> scan_items n (s @ t) = Some (vs, r @ t)"
  "scan_members n s = Some (d, r) \<Longrightarrow> scan_members n (s @ t) = Some (d, r @ t)"
proof (induction n s and n s and n s arbitrary: v r and vs r and d r
    rule: scan_value_scan_items_scan_members.induct)
  case (2 n s)
  let ?t = "skip_ws (tl s)"
  have s: "s \<noteq> []" using scan_shorter(1)[OF 2(3)] by auto
  then have st: "tl (s @ t) = tl s @ t" by simp
  have nt: "skip_ws (tl s @ t) = ?t @ t" if "?t \<noteq> []" using skip_ws_append[OF that] .
  consider (str) x where "next_is 34 s" "scan_string (tl s) = Some (x, r)" "v = JStr x"
    | (nil) "\<not> next_is 34 s" "next_is 91 s" "next_is 93 ?t" "r = tl ?t" "v = JList []"
    | (list) vs where "next_is 91 s" "\<not> next_is 93 ?t" "\<not> next_is 34 s" "scan_items n ?t = Some (vs, r)" "v = JList vs"
    | (none) "\<not> next_is 34 s" "\<not> next_is 91 s" "next_is 123 s" "next_is 125 ?t" "r = tl ?t" "v = JObj []"
    | (obj) d where "next_is 123 s" "\<not> next_is 34 s" "\<not> next_is 91 s" "\<not> next_is 125 ?t"
        "next_is 34 ?t" "scan_members n (tl ?t) = Some (d, r)" "v = JObj (obj_of d)"
    | (word) "\<not> next_is 34 s" "\<not> next_is 91 s" "\<not> next_is 123 s" "scan_word s = Some (v, r)"
    using 2(3) by (auto simp: Let_def split: if_splits)
  then show ?case
  proof cases
    case str
    then show ?thesis using s by (simp add: next_is_append scan_string_append)
  next
    case nil
    then have "?t \<noteq> []" by auto
    then show ?thesis using nil s st nt by (simp add: next_is_append)
  next
    case list
    have "?t \<noteq> []" using scan_shorter(2)[OF list(4)] by auto
    moreover have "scan_items n (?t @ t) = Some (vs, r @ t)" using 2(1)[OF list(3,1) refl list(2,4)] .
    ultimately show ?thesis using list s st nt by (simp add: next_is_append)
  next
    case none
    then have "?t \<noteq> []" by auto
    then show ?thesis using none s st nt by (simp add: next_is_append)
  next
    case obj
    have "?t \<noteq> []" using obj(5) by auto
    moreover have "scan_members n (tl ?t @ t) = Some (d, r @ t)" using 2(2)[OF obj(2,3,1) refl obj(4,5,6)] .
    ultimately show ?thesis using obj s st nt by (simp add: next_is_append)
  next
    case word
    then show ?thesis using s 2(4) by (simp add: next_is_append scan_word_append)
  qed
next
  case (4 n s)
  from 4(3) obtain v q where v: "scan_value n s = Some (v, q)" by (auto split: option.splits)
  let ?t = "skip_ws q"
  consider (last) "next_is 93 ?t" "vs = [v]" "r = tl ?t"
    | (more) ws where "\<not> next_is 93 ?t" "next_is 44 ?t" "scan_items n (skip_ws (tl ?t)) = Some (ws, r)" "vs = v # ws"
    using 4(3) v by (auto simp: Let_def split: if_splits)
  then show ?case
  proof cases
    case last
    have "scan_value n (s @ t) = Some (v, q @ t)" using 4(1)[OF v] stop_skip_ws[OF last(1)] by simp
    moreover have "?t \<noteq> []" using last(1) by auto
    ultimately show ?thesis using last by (simp add: skip_ws_append next_is_append)
  next
    case more
    have "scan_value n (s @ t) = Some (v, q @ t)" using 4(1)[OF v] stop_skip_ws[OF more(2)] by simp
    moreover have "?t \<noteq> []" "skip_ws (tl ?t) \<noteq> []" using more(2) scan_shorter(2)[OF more(3)] by auto
    moreover have "scan_items n (skip_ws (tl ?t) @ t) = Some (ws, r @ t)" using 4(2)[OF v refl refl more(1,2,3)] .
    ultimately show ?thesis using more by (simp add: skip_ws_append next_is_append)
  qed
next
  case (6 n s)
  from 6(3) obtain k q where k: "scan_string s = Some (k, q)" and c: "next_is 58 (skip_ws q)"
    by (auto simp: Let_def split: option.splits if_splits)
  let ?t = "skip_ws (tl (skip_ws q))"
  from 6(3) k c obtain v p where v: "scan_value n ?t = Some (v, p)"
    by (auto simp: Let_def split: option.splits)
  let ?u = "skip_ws p"
  have start: "scan_string (s @ t) = Some (k, q @ t)" "skip_ws (q @ t) = skip_ws q @ t" "next_is 58 (skip_ws q @ t)"
    "tl (skip_ws q @ t) = tl (skip_ws q) @ t" "skip_ws (tl (skip_ws q) @ t) = ?t @ t"
  proof -
    obtain w where w: "skip_ws q = 58 # w" using c by (auto simp: next_is_iff)
    then show "scan_string (s @ t) = Some (k, q @ t)" "skip_ws (q @ t) = skip_ws q @ t" "next_is 58 (skip_ws q @ t)"
      "tl (skip_ws q @ t) = tl (skip_ws q) @ t"
      using scan_string_append[OF k] by (simp_all add: skip_ws_append)
    show "skip_ws (tl (skip_ws q) @ t) = ?t @ t"
      using scan_shorter(1)[OF v] by (intro skip_ws_append) auto
  qed
  consider (last) "next_is 125 ?u" "d = [(k, v)]" "r = tl ?u"
    | (more) e where "\<not> next_is 125 ?u" "next_is 44 ?u" "next_is 34 (skip_ws (tl ?u))"
      "scan_members n (tl (skip_ws (tl ?u))) = Some (e, r)" "d = (k, v) # e"
    using 6(3) k c v by (auto simp: Let_def split: if_splits)
  then show ?case
  proof cases
    case last
    have "scan_value n (?t @ t) = Some (v, p @ t)" using 6(1)[OF k refl refl c v] stop_skip_ws[OF last(1)] by simp
    moreover have "?u \<noteq> []" using last(1) by auto
    ultimately show ?thesis using last start by (simp add: skip_ws_append next_is_append)
  next
    case more
    have "scan_value n (?t @ t) = Some (v, p @ t)" using 6(1)[OF k refl refl c v] stop_skip_ws[OF more(2)] by simp
    moreover have "?u \<noteq> []" "skip_ws (tl ?u) \<noteq> []" using more(2,3) by auto
    moreover have "scan_members n (tl (skip_ws (tl ?u)) @ t) = Some (e, r @ t)"
      using 6(2)[OF k refl refl c v refl refl more(1) conjI[OF more(2,3)] more(4)] .
    ultimately show ?thesis using more start by (simp add: skip_ws_append next_is_append)
  qed
qed auto

subsection \<open>A printed value reads back\<close>

text \<open>Texts whose escapes read back: no two surrogates in a row that would be read as one character.\<close>

fun spelled :: "utext \<Rightarrow> bool" where
  "spelled [] \<longleftrightarrow> True"
| "spelled [c] \<longleftrightarrow> c < 1114112"
| "spelled (c # d # s) \<longleftrightarrow> c < 1114112 \<and> \<not> (high_surrogate c \<and> low_surrogate d) \<and> spelled (d # s)"

fun readable :: "json \<Rightarrow> bool" where
  "readable (JFloat x) \<longleftrightarrow> False"
| "readable (JInt i) \<longleftrightarrow> length (digits10 (nat \<bar>i\<bar>)) \<le> 4300"
| "readable (JStr s) \<longleftrightarrow> spelled s"
| "readable (JList vs) \<longleftrightarrow> list_all readable vs"
| "readable (JObj d) \<longleftrightarrow> distinct (map fst d) \<and> list_all (\<lambda>(k, v). spelled k \<and> readable v) d"
| "readable v \<longleftrightarrow> True"

lemma hex_value_code [simp]: "d < 16 \<Longrightarrow> hex_value (hex_code d) = Some d"
  by (auto simp: hex_value_def hex_code_def is_digit_def)

lemma hex_unit_hex4: "n < 65536 \<Longrightarrow> hex_unit (hex4 n @ r) = Some (n, r)"
proof -
  assume "n < 65536"
  define x y z where "x = n div 16" and "y = x div 16" and "z = y div 16"
  have "n = 16 * x + n mod 16" "x = 16 * y + x mod 16" "y = 16 * z + y mod 16"
    by (simp_all add: x_def y_def z_def)
  moreover have "z < 16" using \<open>n < 65536\<close> by (simp add: x_def y_def z_def less_mult_imp_div_less div_mult2_eq [symmetric])
  then have z: "z mod 16 = z" by simp
  ultimately have "4096 * (z mod 16) + 256 * (y mod 16) + 16 * (x mod 16) + n mod 16 = n" by linarith
  then have "4096 * z + 256 * (y mod 16) + 16 * (x mod 16) + n mod 16 = n" using z by simp
  moreover have "n div 4096 = z" "n div 256 = y" "n div 16 = x"
    by (simp_all add: x_def y_def z_def div_mult2_eq [symmetric])
  ultimately show ?thesis using z by (simp add: hex_unit_def hex4_def)
qed

lemma print_code_cases:
  obtains (short) a where "print_code c = [92, a]" "a \<noteq> 117" "escaped (a # r) = Some (c, r)"
    | (itself) "print_code c = [c]" "c \<noteq> 34" "c \<noteq> 92" "32 \<le> c"
    | (one) "print_code c = unit_escape c" "c < 65536"
    | (two) "65536 \<le> c" "print_code c = unit_escape (55296 + (c - 65536) div 1024) @ unit_escape (56320 + (c - 65536) mod 1024)"
proof (cases "c = 34 \<or> c = 92 \<or> c = 10 \<or> c = 13 \<or> c = 9 \<or> c = 8 \<or> c = 12")
  case True
  then show ?thesis by (auto simp: print_code_def escaped_def intro: short)
next
  case False
  show ?thesis
  proof (cases "32 \<le> c \<and> c \<le> 126")
    case True
    then show ?thesis using False by (intro itself) (auto simp: print_code_def)
  next
    case out: False
    show ?thesis
    proof (cases "c < 65536")
      case True
      have "print_code c = unit_escape c" using False out True unfolding print_code_def by presburger
      then show ?thesis using True by (rule one)
    next
      case False
      then show ?thesis by (intro two) (auto simp: print_code_def)
    qed
  qed
qed

lemma escaped_unit_escape:
  assumes "n < 65536" and "high_surrogate n \<Longrightarrow> after [92, 117] r = None \<or>
    (\<exists>t w q. after [92, 117] r = Some t \<and> hex_unit t = Some (w, q) \<and> \<not> low_surrogate w)"
  shows "escaped (117 # hex4 n @ r) = Some (n, r)"
  using assms by (auto simp: escaped_def escaped_unit_def hex_unit_hex4)

lemma escaped_pair:
  assumes "u < 1024" and "w < 1024"
  shows "escaped (117 # hex4 (55296 + u) @ 92 # 117 # hex4 (56320 + w) @ r) = Some (65536 + 1024 * u + w, r)"
proof -
  have "after [92, 117] (92 # 117 # hex4 (56320 + w) @ r) = Some (hex4 (56320 + w) @ r)"
    using after_self[of "[92, 117]"] by simp
  then show ?thesis
    using assms by (simp add: escaped_def escaped_unit_def hex_unit_hex4 high_surrogate_def low_surrogate_def)
qed

lemma scan_string_escape: "escaped t = Some (u, r) \<Longrightarrow> scan_string (92 # t) = map_option (\<lambda>(x, q). (u # x, q)) (scan_string r)"
  by (simp add: scan_string.simps[of "92 # t"])

lemma not_a_low_half:
  assumes "spelled (c # d # s)" and "high_surrogate c"
  shows "after [92, 117] (print_code d @ r) = None \<or>
    (\<exists>t w q. after [92, 117] (print_code d @ r) = Some t \<and> hex_unit t = Some (w, q) \<and> \<not> low_surrogate w)"
proof -
  have low: "\<not> low_surrogate d" using assms by simp
  have self: "after [92, 117] (unit_escape m @ q) = Some (hex4 m @ q)" for m q
    using after_self[of "[92, 117]"] by (simp add: unit_escape_def)
  show ?thesis
  proof (cases d rule: print_code_cases [where r = r])
    case (short a)
    then show ?thesis by (simp add: after_def)
  next
    case itself
    then show ?thesis by (simp add: after_def)
  next
    case one
    then show ?thesis using low self[of d r] hex_unit_hex4[OF one(2), of r] by simp
  next
    case two
    let ?u = "55296 + (d - 65536) div 1024" and ?q = "unit_escape (56320 + (d - 65536) mod 1024) @ r"
    have "d - 65536 < 1024 * 1024" using assms(1) two by (cases s) auto
    then have "(d - 65536) div 1024 < 1024" by (simp add: less_mult_imp_div_less)
    then have u: "?u < 65536" "\<not> low_surrogate ?u" by (auto simp: low_surrogate_def)
    have "after [92, 117] (print_code d @ r) = Some (hex4 ?u @ ?q)" unfolding two(2) append_assoc by (rule self)
    moreover have "hex_unit (hex4 ?u @ ?q) = Some (?u, ?q)" by (rule hex_unit_hex4[OF u(1)])
    ultimately show ?thesis using u(2) by blast
  qed
qed

lemma scan_string_print: "spelled x \<Longrightarrow> scan_string (concat (map print_code x) @ 34 # r) = Some (x, r)"
proof (induction x)
  case Nil
  then show ?case by (simp add: scan_string.simps)
next
  case (Cons c x)
  let ?rest = "concat (map print_code x) @ 34 # r"
  have x: "spelled x" and c: "c < 1114112" using Cons.prems by (cases x; simp)+
  note IH = Cons.IH[OF x]
  show ?case
  proof (cases c rule: print_code_cases [where r = ?rest])
    case (short a)
    then show ?thesis using IH by (simp add: scan_string_escape)
  next
    case itself
    then show ?thesis using IH by (simp add: scan_string.simps[of "c # _"])
  next
    case one
    have "after [92, 117] ?rest = None \<or> (\<exists>t w q. after [92, 117] ?rest = Some t \<and> hex_unit t = Some (w, q) \<and> \<not> low_surrogate w)"
      if "high_surrogate c"
    proof (cases x)
      case Nil
      then show ?thesis by (simp add: after_def)
    next
      case (Cons d y)
      then show ?thesis
        using not_a_low_half[of c d y] Cons.prems that by simp
    qed
    then have "escaped (117 # hex4 c @ ?rest) = Some (c, ?rest)" by (rule escaped_unit_escape[OF one(2)])
    then show ?thesis using one IH by (simp add: unit_escape_def scan_string_escape)
  next
    case two
    let ?u = "(c - 65536) div 1024" and ?w = "(c - 65536) mod 1024"
    have "c - 65536 < 1024 * 1024" using c by simp
    then have "?u < 1024" "?w < 1024" by (simp_all add: less_mult_imp_div_less)
    then have "escaped (117 # hex4 (55296 + ?u) @ 92 # 117 # hex4 (56320 + ?w) @ ?rest) = Some (65536 + 1024 * ?u + ?w, ?rest)"
      by (rule escaped_pair)
    moreover have "65536 + 1024 * ?u + ?w = c" using two by simp
    ultimately show ?thesis using two IH by (simp add: unit_escape_def scan_string_escape)
  qed
qed

subsubsection \<open>Numbers and values\<close>

declare digits10.simps [simp del]

lemma digits10_digits: "list_all is_digit (digits10 n)"
  by (induction n rule: digits10.induct) (subst digits10.simps, auto simp: is_digit_def list_all_iff)

lemma digits10_not_Nil [simp]: "digits10 n \<noteq> []"
  by (subst digits10.simps) simp

lemma hd_digits10: "hd (digits10 n) = 48 \<Longrightarrow> digits10 n = [48]"
proof (induction n rule: digits10.induct)
  case (1 n)
  show ?case
  proof (cases "n < 10")
    case True
    then show ?thesis using 1(2) by (subst digits10.simps) (subst (asm) digits10.simps, auto)
  next
    case False
    then have "digits10 (n div 10) = [48]" using 1 by (subst (asm) (2) digits10.simps) simp
    moreover have "value10 (digits10 m) = m" for m
      by (induction m rule: digits10.induct) (subst digits10.simps, auto simp: value10_def)
    ultimately have "n div 10 = 0" by (metis value10_def foldl.simps diff_self_eq_0 mult_zero_right add_0)
    then show ?thesis using False by simp
  qed
qed

lemma value10_digits10: "value10 (digits10 n) = n"
  by (induction n rule: digits10.induct) (subst digits10.simps, auto simp: value10_def)

definition delimited :: "utext \<Rightarrow> bool" where
  "delimited r \<longleftrightarrow> (case r of [] \<Rightarrow> True | c # _ \<Rightarrow> c = 44 \<or> c = 93 \<or> c = 125)"

lemma takeWhile_digits: "list_all is_digit ds \<Longrightarrow> delimited r \<Longrightarrow> takeWhile is_digit (ds @ r) = ds"
  by (induction ds) (auto simp: delimited_def is_digit_def split: list.splits)

lemma scan_number_print:
  assumes "delimited r" and "length (digits10 (nat \<bar>i\<bar>)) \<le> 4300"
  shows "scan_number (print_int i @ r) = Some (JInt i, r)"
proof -
  let ?n = "nat \<bar>i\<bar>"
  have d: "\<not> next_is 45 (digits10 ?n @ r)"
    using digits10_digits[of ?n] by (cases "digits10 ?n") (auto simp: is_digit_def)
  have t: "(if next_is 48 (digits10 ?n @ r) then [48] else takeWhile is_digit (digits10 ?n @ r)) = digits10 ?n"
  proof (cases "next_is 48 (digits10 ?n @ r)")
    case True
    then have "hd (digits10 ?n) = 48" by (cases "digits10 ?n") auto
    then show ?thesis using True hd_digits10 by simp
  next
    case False
    then show ?thesis using takeWhile_digits[OF digits10_digits assms(1)] by simp
  qed
  have r: "fraction r = []" "exponent r = []"
    using assms(1) by (auto simp: delimited_def fraction_def exponent_def split: list.splits)
  have n: "next_is 45 (print_int i @ r) = (i < 0)" "(if i < 0 then tl (print_int i @ r) else print_int i @ r) = digits10 ?n @ r"
    using d by (cases "i < 0"; simp add: print_int_def)+
  have "drop (length (digits10 ?n)) (digits10 ?n @ r) = r" by simp
  then show ?thesis
    unfolding scan_number_def Let_def n t r using assms(2) by (simp add: r value10_digits10)
qed

lemma print_int_start: "\<exists>c s. print_int i = c # s \<and> (c = 45 \<and> (\<exists>d u. s = d # u \<and> is_digit d) \<or> is_digit c)"
proof -
  obtain d u where "digits10 (nat \<bar>i\<bar>) = d # u" "is_digit d"
    using digits10_digits[of "nat \<bar>i\<bar>"] by (cases "digits10 (nat \<bar>i\<bar>)") auto
  then show ?thesis by (simp add: print_int_def)
qed

lemma scan_word_print:
  assumes "delimited r" and "length (digits10 (nat \<bar>i\<bar>)) \<le> 4300"
  shows "scan_word (print_int i @ r) = Some (JInt i, r)"
  using scan_number_print[OF assms] print_int_start[of i] by (auto simp: scan_word_def is_digit_def)

lemma codes_simps [simp]: "codes [] = []" "codes (c # s) = of_char c # codes s" "codes s = codes t \<longleftrightarrow> s = t"
  by (simp_all add: codes_def inj_map_eq_map inj_on_def)

lemma scan_word_words:
  "scan_word (codes ''null'' @ r) = Some (JNull, r)"
  "scan_word (codes ''true'' @ r) = Some (JBool True, r)"
  "scan_word (codes ''false'' @ r) = Some (JBool False, r)"
  by (simp_all add: scan_word_def word_def after_def)

text \<open>The first character of a printed value tells its kind, and is no blank.\<close>

definition opens :: "json \<Rightarrow> nat \<Rightarrow> bool" where
  "opens v c \<longleftrightarrow> (case v of JStr _ \<Rightarrow> c = 34 | JList _ \<Rightarrow> c = 91 | JObj _ \<Rightarrow> c = 123
     | _ \<Rightarrow> c \<noteq> 34 \<and> c \<noteq> 91 \<and> c \<noteq> 93 \<and> c \<noteq> 123 \<and> c \<noteq> 125 \<and> \<not> is_ws c)"

lemma print_json_opens: "readable v \<Longrightarrow> \<exists>c s. print_json P v = c # s \<and> opens v c"
  using print_int_start[of "case v of JInt i \<Rightarrow> i | _ \<Rightarrow> 0"]
  by (cases v) (auto simp: opens_def print_text_def is_digit_def is_ws_def)

lemma opens_not_blank: "opens v c \<Longrightarrow> \<not> is_ws c \<and> c \<noteq> 93 \<and> c \<noteq> 125"
  by (auto simp: opens_def is_ws_def split: json.splits)

lemma commas_Cons: "ps \<noteq> [] \<Longrightarrow> commas (p # ps) = p @ [44] @ commas ps"
  by (cases ps) auto

definition reads_as :: "python \<Rightarrow> json \<Rightarrow> bool" where
  "reads_as P v \<longleftrightarrow> (\<forall>m r. delimited r \<and> 2 * length (print_json P v @ r) + 1 \<le> m \<longrightarrow> scan_value m (print_json P v @ r) = Some (v, r))"

lemma reads_asD: "reads_as P v \<Longrightarrow> delimited r \<Longrightarrow> 2 * length (print_json P v @ r) + 1 \<le> m \<Longrightarrow>
    scan_value m (print_json P v @ r) = Some (v, r)"
  by (auto simp: reads_as_def)

lemma skip_ws_print: "readable v \<Longrightarrow> skip_ws (print_json P v @ r) = print_json P v @ r"
  using print_json_opens[of v P] opens_not_blank by (fastforce simp: skip_ws_def)

lemma scan_items_print:
  assumes "vs \<noteq> []" and "\<forall>v\<in>set vs. readable v \<and> reads_as P v"
    and "2 * length (commas (map (print_json P) vs) @ 93 # r) + 2 \<le> m"
  shows "scan_items m (commas (map (print_json P) vs) @ 93 # r) = Some (vs, r)"
  using assms
proof (induction vs arbitrary: m)
  case (Cons v vs)
  obtain k where m: "m = Suc k" using Cons.prems(3) by (cases m) auto
  show ?case
  proof (cases "vs = []")
    case True
    then have "scan_value k (print_json P v @ 93 # r) = Some (v, 93 # r)"
      using Cons.prems m by (intro reads_asD) (auto simp: delimited_def)
    then show ?thesis using True m by (simp add: skip_ws_def is_ws_def)
  next
    case False
    let ?rest = "commas (map (print_json P) vs) @ 93 # r"
    have c: "commas (map (print_json P) (v # vs)) @ 93 # r = print_json P v @ 44 # ?rest"
      using False by (simp add: commas_Cons)
    have "scan_value k (print_json P v @ 44 # ?rest) = Some (v, 44 # ?rest)"
      using Cons.prems m unfolding c by (intro reads_asD) (auto simp: delimited_def)
    moreover have "scan_items k ?rest = Some (vs, r)"
      using Cons.prems m False unfolding c by (intro Cons.IH) auto
    moreover have "skip_ws ?rest = ?rest"
    proof -
      obtain w ws where "vs = w # ws" using False by (cases vs) auto
      then show ?thesis using Cons.prems(2) skip_ws_print[of w P] by (cases ws) auto
    qed
    ultimately show ?thesis unfolding c m by (simp add: skip_ws_def is_ws_def Let_def del: commas.simps)
  qed
qed simp

lemma scan_members_print:
  assumes "d \<noteq> []" and "\<forall>(k, v)\<in>set d. spelled k \<and> readable v \<and> reads_as P v"
    and "2 * length (commas (map (\<lambda>(k, v). print_text k @ [58] @ print_json P v) d) @ 125 # r) + 1 \<le> m"
  shows "\<exists>s. commas (map (\<lambda>(k, v). print_text k @ [58] @ print_json P v) d) @ 125 # r = 34 # s \<and> scan_members m s = Some (d, r)"
  using assms
proof (induction d arbitrary: m)
  case (Cons p d)
  obtain k v where p: "p = (k, v)" by force
  obtain n where m: "m = Suc n" using Cons.prems(3) by (cases m) auto
  let ?v = "print_json P v" and ?k = "concat (map print_code k)"
  have kv: "spelled k" "readable v" "reads_as P v" using Cons.prems(2) p by auto
  have key: "scan_string (?k @ 34 # q) = Some (k, q)" for q by (rule scan_string_print[OF kv(1)])
  have colon: "skip_ws (58 # q) = 58 # q" "skip_ws (44 # q) = 44 # q" "skip_ws (125 # q) = 125 # q" "skip_ws (34 # q) = 34 # q" for q
    by (simp_all add: skip_ws_def is_ws_def)
  show ?case
  proof (cases "d = []")
    case True
    have "scan_value n (?v @ 125 # r) = Some (v, 125 # r)"
      using Cons.prems(3) m p True by (intro reads_asD kv) (auto simp: delimited_def print_text_def)
    then have "scan_members m (?k @ 34 # 58 # ?v @ 125 # r) = Some ([(k, v)], r)"
      unfolding m by (simp add: key colon skip_ws_print kv)
    then show ?thesis using True p by (simp add: print_text_def)
  next
    case False
    let ?rest = "commas (map (\<lambda>(k, v). print_text k @ [58] @ print_json P v) d) @ 125 # r"
    have c: "commas (map (\<lambda>(k, v). print_text k @ [58] @ print_json P v) (p # d)) @ 125 # r = 34 # ?k @ 34 # 58 # ?v @ 44 # ?rest"
      using False p by (simp add: commas_Cons print_text_def)
    have "2 * length ?rest + 1 \<le> n" using Cons.prems(3) unfolding c m by simp
    then obtain s where s: "?rest = 34 # s" "scan_members n s = Some (d, r)"
      using Cons.IH[of n] Cons.prems(2) False by auto
    have "scan_value n (?v @ 44 # ?rest) = Some (v, 44 # ?rest)"
      using Cons.prems(3) unfolding c m by (intro reads_asD kv) (auto simp: delimited_def)
    then have "scan_members m (?k @ 34 # 58 # ?v @ 44 # ?rest) = Some ((k, v) # d, r)"
      unfolding m s(1) by (simp add: key colon skip_ws_print kv s(2))
    then show ?thesis unfolding c by (simp add: p)
  qed
qed simp

lemma obj_set_new: "k \<notin> fst ` set d \<Longrightarrow> obj_set d k v = d @ [(k, v)]"
  by (induction d k v rule: obj_set.induct) auto

lemma obj_of_distinct: "distinct (map fst d) \<Longrightarrow> obj_of d = d"
proof -
  have "distinct (map fst (e @ d)) \<Longrightarrow> foldl (\<lambda>d (k, v). obj_set d k v) e d = e @ d" for e
  proof (induction d arbitrary: e)
    case (Cons p d)
    then show ?case by (cases p) (simp add: obj_set_new)
  qed simp
  from this[of "[]"] show "distinct (map fst d) \<Longrightarrow> obj_of d = d" by (simp add: obj_of_def)
qed

lemma reads_as_word:
  assumes "\<And>r. delimited r \<Longrightarrow> scan_word (print_json P v @ r) = Some (v, r)"
    and "print_json P v = c # s" and "c \<noteq> 34" and "c \<noteq> 91" and "c \<noteq> 123"
  shows "reads_as P v"
  unfolding reads_as_def
proof (intro allI impI)
  fix m r
  assume r: "delimited r \<and> 2 * length (print_json P v @ r) + 1 \<le> m"
  then obtain k where "m = Suc k" by (cases m) auto
  then show "scan_value m (print_json P v @ r) = Some (v, r)"
    using assms r by simp
qed

lemma readable_reads: "readable v \<Longrightarrow> reads_as P v"
proof (induction v)
  case JNull
  show ?case by (rule reads_as_word) (use scan_word_words in simp_all, simp_all)
next
  case (JBool b)
  show ?case by (cases b; rule reads_as_word) (use scan_word_words in simp_all, simp_all)
next
  case (JInt i)
  obtain c s where c: "print_int i = c # s" "c = 45 \<or> is_digit c" using print_int_start[of i] by blast
  show ?case
  proof (rule reads_as_word [where c = c and s = s])
    show "scan_word (print_json P (JInt i) @ r) = Some (JInt i, r)" if "delimited r" for r
      using scan_word_print[OF that, of i] JInt by simp
  qed (use c in \<open>auto simp: is_digit_def\<close>)
next
  case (JStr s)
  then have "scan_string (concat (map print_code s) @ 34 # r) = Some (s, r)" for r by (simp add: scan_string_print)
  then have "scan_value m (print_text s @ r) = Some (JStr s, r)" if "Suc 0 \<le> m" for m r
    using that by (cases m) (simp_all add: print_text_def)
  then show ?case by (simp add: reads_as_def)
next
  case (JList vs)
  have "scan_value m (print_json P (JList vs) @ r) = Some (JList vs, r)" if bound: "2 * length (print_json P (JList vs) @ r) + 1 \<le> m" for m r
  proof -
    obtain k where m: "m = Suc k" using bound by (cases m) auto
    show ?thesis
    proof (cases vs)
      case Nil
      then show ?thesis by (simp add: m skip_ws_def is_ws_def)
    next
      case (Cons w ws)
      let ?t = "commas (map (print_json P) vs) @ 93 # r"
      have "scan_items k ?t = Some (vs, r)"
        using JList bound m Cons by (intro scan_items_print) (auto simp: list_all_iff)
      moreover have "skip_ws ?t = ?t \<and> \<not> next_is 93 ?t"
      proof -
        have w: "readable w" using JList.prems Cons by simp
        obtain q where q: "?t = print_json P w @ q" using Cons by (cases ws) auto
        obtain c u where "print_json P w = c # u" "opens w c" using print_json_opens[OF w, of P] by blast
        then show ?thesis
          unfolding q using opens_not_blank skip_ws_print[OF w, of P q] by auto
      qed
      ultimately show ?thesis by (simp add: m Let_def)
    qed
  qed
  then show ?case by (simp add: reads_as_def)
next
  case (JObj d)
  have "scan_value m (print_json P (JObj d) @ r) = Some (JObj d, r)" if bound: "2 * length (print_json P (JObj d) @ r) + 1 \<le> m" for m r
  proof -
    obtain k where m: "m = Suc k" using bound by (cases m) auto
    show ?thesis
    proof (cases "d = []")
      case True
      then show ?thesis by (simp add: m skip_ws_def is_ws_def)
    next
      case False
      let ?t = "commas (map (\<lambda>(k, v). print_text k @ [58] @ print_json P v) d) @ 125 # r"
      have "\<forall>(k, v)\<in>set d. spelled k \<and> readable v \<and> reads_as P v"
        using JObj.prems JObj.IH by (auto simp: list_all_iff snds.simps)
      then obtain s where s: "?t = 34 # s" "scan_members k s = Some (d, r)"
        using scan_members_print[OF False, of P r k] bound m by auto
      moreover have "obj_of d = d" using JObj.prems by (simp add: obj_of_distinct)
      ultimately have "scan_value (Suc k) (123 # ?t) = Some (JObj d, r)"
        unfolding s(1) by (simp add: skip_ws_def is_ws_def)
      then show ?thesis by (simp add: m del: scan_value.simps)
    qed
  qed
  then show ?case by (simp add: reads_as_def)
qed simp

subsubsection \<open>The stable form\<close>

lemma map_of_sort_key:
  assumes "distinct (map fst e)"
  shows "map_of (sort_key fst e) = map_of e" and "distinct (map fst (sort_key fst e))"
proof -
  show d: "distinct (map fst (sort_key fst e))" using assms by (metis distinct_map distinct_sort set_sort)
  show "map_of (sort_key fst e) = map_of e"
    by (rule map_of_inject_set [THEN iffD2]) (use assms d in simp_all)
qed

lemma map_of_sort_keys:
  "distinct (map fst d) \<Longrightarrow> map_of (sort_key fst (map (\<lambda>(k, v). (k, f v)) d)) k = map_option f (map_of d k)"
proof -
  assume d: "distinct (map fst d)"
  have "map fst (map (\<lambda>(k, v). (k, f v)) d) = map fst d" by (auto simp: case_prod_beta)
  then have "distinct (map fst (map (\<lambda>(k, v). (k, f v)) d))" using d by (simp only:)
  then show ?thesis by (simp only: map_of_sort_key(1) map_of_map) simp
qed

lemma readable_sort_keys: "readable v \<Longrightarrow> readable (sort_keys v)"
proof (induction v)
  case (JObj d)
  let ?e = "map (\<lambda>(k, v). (k, sort_keys v)) d"
  have e: "map fst ?e = map fst d" by (auto simp: case_prod_beta)
  have "distinct (map fst (sort_key fst ?e))"
    using JObj.prems by (intro map_of_sort_key(2)) (simp only: e readable.simps)
  moreover have "\<forall>(k, v)\<in>set ?e. spelled k \<and> readable v"
  proof
    fix p assume "p \<in> set ?e"
    then obtain k v where p: "p = (k, sort_keys v)" and kv: "(k, v) \<in> set d" by auto
    have "spelled k" "readable v" using JObj.prems kv by (auto simp: list_all_iff)
    then show "case p of (k, v) \<Rightarrow> spelled k \<and> readable v" using JObj.IH[OF kv] p by (simp add: snds.simps)
  qed
  ultimately show ?case by (simp add: list_all_iff)
qed (auto simp: list_all_iff)

text \<open>A printed value is one line of graphic ASCII.\<close>

definition graphic :: "utext \<Rightarrow> bool" where
  "graphic s \<longleftrightarrow> list_all (\<lambda>c. 32 \<le> c \<and> c < 127) s"

lemma graphic_simps: "graphic []" "graphic (c # s) \<longleftrightarrow> 32 \<le> c \<and> c < 127 \<and> graphic s"
  "graphic (a @ b) \<longleftrightarrow> graphic a \<and> graphic b"
  by (simp_all add: graphic_def)

lemma hex_code_bounds: "d < 16 \<Longrightarrow> 48 \<le> hex_code d \<and> hex_code d < 103"
  by (auto simp: hex_code_def)

lemma graphic_hex4: "graphic (unit_escape n)"
  using hex_code_bounds[of "n div 4096 mod 16"] hex_code_bounds[of "n div 256 mod 16"]
    hex_code_bounds[of "n div 16 mod 16"] hex_code_bounds[of "n mod 16"]
  by (simp add: unit_escape_def hex4_def graphic_simps)

lemma graphic_print_text: "graphic (print_text s)"
proof -
  have "graphic (print_code c)" for c
    by (auto simp: print_code_def graphic_simps graphic_hex4)
  then have "graphic (concat (map print_code s))"
    by (induction s) (simp_all add: graphic_simps)
  then show ?thesis by (simp add: print_text_def graphic_simps)
qed

lemma graphic_commas: "\<forall>p\<in>set ps. graphic p \<Longrightarrow> graphic (commas ps)"
  by (induction ps rule: commas.induct) (auto simp: graphic_simps)

lemma graphic_print: "readable v \<Longrightarrow> graphic (print_json P v)"
proof (induction v)
  case (JInt i)
  have "graphic (digits10 n)" for n
    using digits10_digits[of n] by (auto simp: graphic_def is_digit_def list_all_iff)
  then show ?case by (simp add: print_int_def graphic_simps)
next
  case (JList vs)
  then show ?case by (auto simp: graphic_simps list_all_iff intro!: graphic_commas)
next
  case (JObj d)
  then show ?case
    by (fastforce simp: graphic_simps graphic_print_text list_all_iff snds.simps intro!: graphic_commas)
qed (auto simp: graphic_simps graphic_print_text)

lemma graphic_ascii: "graphic s \<Longrightarrow> plain_ascii s"
  by (auto simp: graphic_def plain_ascii_def list_all_iff)

lemma graphic_stable_json: "readable v \<Longrightarrow> graphic (stable_json P v)"
  by (simp add: stable_json_def graphic_print readable_sort_keys)

lemma scan_print:
  "readable v \<Longrightarrow> scan_value (2 * length (print_json P v) + 2) (print_json P v) = Some (v, [])"
  using reads_asD[OF readable_reads, of v "[]" P] by (simp add: delimited_def del: scan_value.simps)

lemma loads_print_json: "readable v \<Longrightarrow> loads P (print_json P v) = Some v"
proof -
  assume v: "readable v"
  have "scan_value (2 * length (print_json P v) + 2) (skip_ws (print_json P v)) = Some (v, [])"
    using scan_print[OF v, of P] skip_ws_print[OF v, of P "[]"] by (simp del: scan_value.simps)
  then show ?thesis
    using graphic_ascii[OF graphic_print[OF v]] by (simp add: loads_def loads_text_def skip_ws_def del: scan_value.simps)
qed

theorem loads_stable_json: "readable v \<Longrightarrow> loads P (stable_json P v) = Some (sort_keys v)"
  by (simp add: stable_json_def loads_print_json readable_sort_keys)

text \<open>No proper beginning of a printed object reads at all.\<close>

theorem loads_prefix:
  assumes "readable (JObj d)" and "stable_json P (JObj d) = p @ q" and "q \<noteq> []"
  shows "loads P p = None"
proof (cases p)
  case Nil
  then show ?thesis by (simp add: loads_def loads_text_def plain_ascii_def skip_ws_def scan_word_def scan_number_def)
next
  case (Cons c t)
  define e where "e = sort_key fst (map (\<lambda>(k, v). (k, sort_keys v)) d)"
  have e: "readable (JObj e)" "print_json P (JObj e) = p @ q"
    using readable_sort_keys[OF assms(1)] assms(2) by (simp_all add: e_def stable_json_def)
  have c: "c = 123" using e(2) Cons by simp
  have ascii: "plain_ascii p" using graphic_ascii[OF graphic_print[OF e(1), of P]] unfolding e(2) by (simp add: plain_ascii_def)
  have blank: "skip_ws p = p" using Cons c by (simp add: skip_ws_def is_ws_def)
  show ?thesis
  proof (rule ccontr)
    assume "loads P p \<noteq> None"
    then obtain v r where v: "scan_value (2 * length p + 2) p = Some (v, r)" and r: "skip_ws r = []"
      using ascii blank by (auto simp: loads_def loads_text_def split: option.splits if_splits simp del: scan_value.simps)
    have "scan_value (2 * length p + 2) (p @ q) = Some (v, r @ q)"
      by (rule scan_append(1)[OF v]) (simp add: Cons c)
    then have "scan_value (2 * length (p @ q) + 2) (p @ q) = Some (v, r @ q)"
      by (rule scan_fuel_enough(1)) simp
    moreover have "scan_value (2 * length (p @ q) + 2) (p @ q) = Some (JObj e, [])"
      using scan_print[OF e(1), of P] unfolding e(2) .
    ultimately show False using assms(3) by simp
  qed
qed

text \<open>The object that a printed object reads back as.\<close>

definition stable_obj :: "(utext \<times> json) list \<Rightarrow> (utext \<times> json) list" where
  "stable_obj d = sort_key fst (map (\<lambda>(k, v). (k, sort_keys v)) d)"

lemma sort_keys_obj: "sort_keys (JObj d) = JObj (stable_obj d)"
  by (simp add: stable_obj_def)

lemma get_stable_obj: "distinct (map fst d) \<Longrightarrow> get (stable_obj d) k = map_option sort_keys (get d k)"
  by (simp add: get_def stable_obj_def map_of_sort_keys)

lemma get_or_stable_obj: "distinct (map fst d) \<Longrightarrow> sort_keys v = v \<Longrightarrow> get_or v (stable_obj d) k = sort_keys (get_or v d k)"
  by (simp add: get_or_def get_stable_obj split: option.split)

lemma sort_keys_eq_iff [simp]:
  "sort_keys v = JNull \<longleftrightarrow> v = JNull" "sort_keys v = JBool b \<longleftrightarrow> v = JBool b" "sort_keys v = JInt i \<longleftrightarrow> v = JInt i"
  "sort_keys v = JStr s \<longleftrightarrow> v = JStr s"
  by (cases v; auto)+

lemma map_of_obj_set: "map_of (obj_set d k v) x = (if x = k then Some v else map_of d x)"
  by (induction d k v rule: obj_set.induct) auto

lemma get_obj_set: "get (obj_set d (codes k) v) x = (if x = k then Some v else get d x)"
  by (auto simp: get_def map_of_obj_set)

lemma keys_obj_set: "k \<in> fst ` set d \<Longrightarrow> map fst (obj_set d k v) = map fst d"
  by (induction d k v rule: obj_set.induct) auto

end
