(* ===== verification/Change_Journal.thy ===== *)
theory Change_Journal
  imports Json_Text Calendar "HOL-Library.Monad_Syntax"
begin

text \<open>
  The change journal of \<open>history_service/backup_archive/journal.py\<close>: one line of JSON for every
  mutation of the configuration (\<open>ChangeJournal.append\<close>), further lines that mark changes as captured
  by a backup (\<open>commit\<close>), and a compaction that rewrites the file once it is over budget. The file is
  its bytes (no file and an empty file read alike), so a reader sees what a crash in the middle of a
  write leaves behind, and what damaged lines or lines of other programs do.

  \<open>journal_state\<close> is \<open>_JournalState\<close>: \<open>js_changes\<close> and \<open>js_commits\<close> are its dictionaries, \<open>js_order\<close> the
  list of change ids. \<open>parse\<close>, \<open>append_change\<close>, \<open>commit_changes\<close> and \<open>compact\<close> are the methods of the
  same names; the lock that every method holds makes each one step. The clock, the random ids and the
  first 24 hexadecimal digits of SHA-256 are arguments, and so is \<open>datetime.fromisoformat\<close> on texts
  other than the one spelling the journal itself writes. Not modelled: file modes, symbolic links,
  \<open>fsync\<close> and the temporary file of a compaction, which replaces the journal in one step.
\<close>

subsection \<open>Entries\<close>

record journal_python =
  jp_python :: python
  jp_iso :: "utext \<Rightarrow> date_time option"
  jp_sha24 :: "nat \<Rightarrow> bytes \<Rightarrow> utext"

datatype commit_outcome = Backup | Noop

record journal_entry =
  je_change_id :: utext
  je_at :: date_time
  je_action :: utext
  je_subject :: utext
  je_before :: "utext option"
  je_after :: "utext option"
  je_status :: "commit_outcome option"
  je_backup_id :: "utext option"
  je_recovered :: bool
  je_merged :: nat

text \<open>\<open>je_status\<close> is \<open>None\<close> for a pending entry.\<close>

type_synonym obj = "(utext \<times> json) list"

record journal_state =
  js_changes :: "utext \<Rightarrow> journal_entry option"
  js_order :: "utext list"
  js_commits :: "utext \<Rightarrow> (commit_outcome \<times> utext option) option"
  js_commit_records :: "obj list"
  js_last_hash :: "utext option"
  js_last_id :: "utext option"
  js_corrupt :: nat
  js_torn :: nat

record journal_config =
  jc_max_bytes :: nat
  jc_retain :: nat

datatype journal_error = ValueError | TypeError

definition max_line_bytes :: nat where
  "max_line_bytes = 64 * 1024"

definition commit_ids_per_record :: nat where
  "commit_ids_per_record = 256"

definition new_state :: journal_state where
  "new_state = \<lparr>js_changes = Map.empty, js_order = [], js_commits = Map.empty, js_commit_records = [],
     js_last_hash = None, js_last_id = None, js_corrupt = 0, js_torn = 0\<rparr>"

subsection \<open>Patterns, hashes and times\<close>

definition between :: "char \<Rightarrow> char \<Rightarrow> nat \<Rightarrow> bool" where
  "between a b c \<longleftrightarrow> of_char a \<le> c \<and> c \<le> of_char b"

definition among :: "string \<Rightarrow> nat \<Rightarrow> bool" where
  "among s c \<longleftrightarrow> c \<in> set (codes s)"

definition action_ok :: "utext \<Rightarrow> bool" where
  "action_ok s \<longleftrightarrow> (case s of [] \<Rightarrow> False | c # t \<Rightarrow> between CHR ''a'' CHR ''z'' c \<and> length t \<le> 63 \<and>
     list_all (\<lambda>c. between CHR ''a'' CHR ''z'' c \<or> is_digit c \<or> among ''_.-'' c) t)"

definition sha256_ok :: "utext \<Rightarrow> bool" where
  "sha256_ok s \<longleftrightarrow> length s = 64 \<and> list_all (\<lambda>c. is_digit c \<or> between CHR ''a'' CHR ''f'' c) s"

definition change_id_ok :: "utext \<Rightarrow> bool" where
  "change_id_ok s \<longleftrightarrow> take 4 s = codes ''chg_'' \<and> 8 \<le> length (drop 4 s) \<and> length (drop 4 s) \<le> 64 \<and>
     list_all (\<lambda>c. is_digit c \<or> between CHR ''a'' CHR ''z'' c \<or> among ''_'' c) (drop 4 s)"

definition backup_id_ok :: "utext \<Rightarrow> bool" where
  "backup_id_ok s \<longleftrightarrow> (let alnum = (\<lambda>c. between CHR ''A'' CHR ''Z'' c \<or> between CHR ''a'' CHR ''z'' c \<or> is_digit c)
     in case s of [] \<Rightarrow> False | c # t \<Rightarrow> alnum c \<and> length t \<le> 127 \<and> list_all (\<lambda>c. alnum c \<or> among ''._:-'' c) t)"

fun padded :: "nat \<Rightarrow> nat \<Rightarrow> utext" where
  "padded 0 n = []"
| "padded (Suc w) n = padded w (n div 10) @ [48 + n mod 10]"

text \<open>\<open>_format_time\<close> of a time in UTC, and \<open>_parse_time\<close>: the spelling it writes, else what
  \<open>fromisoformat\<close> makes of any other.\<close>

definition format_time :: "date_time \<Rightarrow> utext" where
  "format_time t = padded 4 (dt_year t) @ codes ''-'' @ padded 2 (dt_month t) @ codes ''-'' @ padded 2 (dt_day t) @ codes ''T'' @
     padded 2 (dt_hour t) @ codes '':'' @ padded 2 (dt_minute t) @ codes '':'' @ padded 2 (dt_second t) @
     (if dt_micro t = 0 then [] else codes ''.'' @ padded 6 (dt_micro t)) @ codes ''Z''"

definition field_at :: "nat \<Rightarrow> nat \<Rightarrow> utext \<Rightarrow> nat" where
  "field_at i w s = value10 (take w (drop i s))"

definition spelled_time :: "utext \<Rightarrow> date_time" where
  "spelled_time s = \<lparr>dt_year = field_at 0 4 s, dt_month = field_at 5 2 s, dt_day = field_at 8 2 s, dt_hour = field_at 11 2 s,
     dt_minute = field_at 14 2 s, dt_second = field_at 17 2 s, dt_micro = (if length s = 27 then field_at 20 6 s else 0)\<rparr>"

definition parse_time :: "journal_python \<Rightarrow> json \<Rightarrow> date_time option" where
  "parse_time E v = (case v of
       JStr s \<Rightarrow> (let t = spelled_time s in if valid_date_time t \<and> format_time t = s then Some t
         else case jp_iso E s of Some u \<Rightarrow> if valid_date_time u then Some u else None | None \<Rightarrow> None)
     | _ \<Rightarrow> None)"

definition validate_hash :: "json \<Rightarrow> utext option option" where
  "validate_hash v = (case v of JNull \<Rightarrow> Some None | JStr s \<Rightarrow> if sha256_ok s then Some (Some s) else None | _ \<Rightarrow> None)"

definition hash_ok :: "utext option \<Rightarrow> bool" where
  "hash_ok h \<longleftrightarrow> (case h of None \<Rightarrow> True | Some s \<Rightarrow> sha256_ok s)"

definition opt_json :: "utext option \<Rightarrow> json" where
  "opt_json h = (case h of None \<Rightarrow> JNull | Some s \<Rightarrow> JStr s)"

definition positive_int :: "json \<Rightarrow> nat option" where
  "positive_int v = (case v of JInt i \<Rightarrow> if 1 \<le> i then Some (nat i) else None | _ \<Rightarrow> None)"

definition as_text :: "json \<Rightarrow> utext option" where
  "as_text v = (case v of JStr s \<Rightarrow> Some s | _ \<Rightarrow> None)"

definition as_items :: "json \<Rightarrow> json list option" where
  "as_items v = (case v of JList vs \<Rightarrow> Some vs | _ \<Rightarrow> None)"

definition outcome_text :: "commit_outcome \<Rightarrow> utext" where
  "outcome_text oc = (case oc of Backup \<Rightarrow> codes ''backup'' | Noop \<Rightarrow> codes ''noop'')"

definition as_outcome :: "json \<Rightarrow> commit_outcome option" where
  "as_outcome v = (if v = JStr (codes ''backup'') then Some Backup else if v = JStr (codes ''noop'') then Some Noop else None)"

subsection \<open>Reading the file\<close>

text \<open>\<open>data.split(b"\n")\<close>: the terminated lines and the rest.\<close>

fun lines_of :: "bytes \<Rightarrow> bytes list \<times> bytes" where
  "lines_of [] = ([], [])"
| "lines_of (c # s) = (case lines_of s of (ls, t) \<Rightarrow>
     if c = 10 then ([] # ls, t) else case ls of [] \<Rightarrow> ([], c # t) | l # ls' \<Rightarrow> ((c # l) # ls', t))"

definition blank :: "bytes \<Rightarrow> bool" where
  "blank raw \<longleftrightarrow> list_all (\<lambda>c. c = 32 \<or> 9 \<le> c \<and> c \<le> 13) raw"

definition read_change :: "journal_python \<Rightarrow> obj \<Rightarrow> journal_entry option" where
  "read_change E d = do {
     cid \<leftarrow> Option.bind (get d ''change_id'') as_text;
     action \<leftarrow> Option.bind (get d ''action'') as_text;
     subject \<leftarrow> as_text (get_or (JStr []) d ''subject'');
     at \<leftarrow> Option.bind (get d ''at'') (parse_time E);
     h \<leftarrow> validate_hash (get_or JNull d ''before'');
     h' \<leftarrow> validate_hash (get_or JNull d ''after'');
     n \<leftarrow> positive_int (get_or (JInt 1) d ''merged'');
     if change_id_ok cid
     then Some \<lparr>je_change_id = cid, je_at = at, je_action = action, je_subject = subject, je_before = h, je_after = h',
       je_status = None, je_backup_id = None,
       je_recovered = truthy (jp_python E) (get_or (JBool False) d ''recovered''), je_merged = n\<rparr>
     else None }"

definition commit_of :: "obj \<Rightarrow> (commit_outcome \<times> json list \<times> utext option \<times> utext option) option" where
  "commit_of d = do {
     oc \<leftarrow> Option.bind (get d ''outcome'') as_outcome;
     ids \<leftarrow> Option.bind (get d ''change_ids'') as_items;
     h \<leftarrow> Option.bind (get d ''config_hash'') validate_hash;
     (case oc of Noop \<Rightarrow> Some (Noop, ids, h, None)
      | Backup \<Rightarrow> do {
          b \<leftarrow> as_text (get_or JNull d ''backup_id'');
          if backup_id_ok b then Some (Backup, ids, h, Some b) else None }) }"

definition note_commit :: "commit_outcome \<Rightarrow> utext option \<Rightarrow> json list \<Rightarrow> (utext \<Rightarrow> (commit_outcome \<times> utext option) option) \<Rightarrow>
    utext \<Rightarrow> (commit_outcome \<times> utext option) option" where
  "note_commit oc b ids m = (\<lambda>cid. if JStr cid \<in> set ids then Some (oc, b) else m cid)"

definition kind_is :: "obj \<Rightarrow> string \<Rightarrow> bool" where
  "kind_is d k \<longleftrightarrow> get d ''type'' = Some (JStr (codes k))"

definition add_entry :: "journal_entry \<Rightarrow> journal_state \<Rightarrow> journal_state" where
  "add_entry e st = st\<lparr>js_order := (if js_changes st (je_change_id e) = None then js_order st @ [je_change_id e] else js_order st),
     js_changes := (js_changes st)(je_change_id e \<mapsto> e)\<rparr>"

definition apply_record :: "journal_python \<Rightarrow> journal_state \<Rightarrow> obj \<Rightarrow> journal_state option" where
  "apply_record E st d =
     (if kind_is d ''change'' then map_option (\<lambda>e. add_entry e st) (read_change E d)
      else if kind_is d ''commit'' then map_option (\<lambda>(oc, ids, h, b).
          let st' = st\<lparr>js_commits := note_commit oc b ids (js_commits st), js_commit_records := js_commit_records st @ [d]\<rparr>
          in if oc = Backup then st'\<lparr>js_last_hash := h, js_last_id := b\<rparr> else st') (commit_of d)
      else if kind_is d ''checkpoint'' then map_option (\<lambda>h. st\<lparr>js_last_hash := h, js_last_id := as_text (get_or JNull d ''last_backup_id'')\<rparr>)
          (validate_hash (get_or JNull d ''last_backup_hash''))
      else None)"

definition epoch_time :: date_time where
  "epoch_time = \<lparr>dt_year = 1970, dt_month = 1, dt_day = 1, dt_hour = 0, dt_minute = 0, dt_second = 0, dt_micro = 0\<rparr>"

definition recovered_entry :: "journal_python \<Rightarrow> nat \<Rightarrow> bytes \<Rightarrow> bool \<Rightarrow> journal_entry" where
  "recovered_entry E n raw torn = \<lparr>je_change_id = codes ''chg_recovered_'' @ jp_sha24 E n raw, je_at = epoch_time,
     je_action = codes ''journal.recovered'',
     je_subject = codes (if torn then ''torn'' else ''unreadable'') @ codes '' journal line '' @ digits10 n,
     je_before = None, je_after = None, je_status = None, je_backup_id = None, je_recovered = True, je_merged = 1\<rparr>"

definition add_placeholder :: "journal_python \<Rightarrow> journal_state \<Rightarrow> nat \<Rightarrow> bytes \<Rightarrow> bool \<Rightarrow> journal_state" where
  "add_placeholder E st n raw torn =
     (let st' = (if torn then st\<lparr>js_torn := length raw\<rparr> else st\<lparr>js_corrupt := js_corrupt st + 1\<rparr>);
          e = recovered_entry E n raw torn
      in if js_changes st (je_change_id e) \<noteq> None then st' else add_entry e st')"

definition read_record :: "journal_python \<Rightarrow> journal_state \<Rightarrow> bytes \<Rightarrow> journal_state option" where
  "read_record E st raw = (case if length raw \<le> max_line_bytes then loads (jp_python E) raw else None of
       Some (JObj d) \<Rightarrow> apply_record E st d
     | _ \<Rightarrow> None)"

definition read_line :: "journal_python \<Rightarrow> nat \<Rightarrow> bytes \<Rightarrow> journal_state \<Rightarrow> journal_state" where
  "read_line E n raw st = (if blank raw then st else
     case read_record E st raw of Some st' \<Rightarrow> st' | None \<Rightarrow> add_placeholder E st n raw False)"

fun read_lines :: "journal_python \<Rightarrow> nat \<Rightarrow> bytes list \<Rightarrow> journal_state \<Rightarrow> journal_state" where
  "read_lines E n [] st = st"
| "read_lines E n (l # ls) st = read_lines E (n + 1) ls (read_line E n l st)"

definition read_tail :: "journal_python \<Rightarrow> nat \<Rightarrow> bytes \<Rightarrow> journal_state \<Rightarrow> journal_state" where
  "read_tail E n tail st = (if tail = [] then st else
     case read_record E st tail of Some st' \<Rightarrow> st'\<lparr>js_torn := length tail\<rparr> | None \<Rightarrow> add_placeholder E st n tail True)"

definition replace_status :: "journal_entry \<Rightarrow> commit_outcome \<times> utext option \<Rightarrow> journal_entry" where
  "replace_status e ob = e\<lparr>je_status := Some (fst ob), je_backup_id := snd ob\<rparr>"

definition mark_committed :: "journal_state \<Rightarrow> journal_state" where
  "mark_committed st = st\<lparr>js_changes := (\<lambda>cid. case js_changes st cid of None \<Rightarrow> None
     | Some e \<Rightarrow> Some (case js_commits st cid of None \<Rightarrow> e | Some ob \<Rightarrow> replace_status e ob))\<rparr>"

definition read_bytes :: "journal_python \<Rightarrow> bytes \<Rightarrow> journal_state" where
  "read_bytes E data = (case lines_of data of (ls, tail) \<Rightarrow> read_tail E (length ls + 1) tail (read_lines E 1 ls new_state))"

definition parse :: "journal_python \<Rightarrow> bytes \<Rightarrow> journal_state" where
  "parse E data = mark_committed (read_bytes E data)"

definition entry_of :: "journal_state \<Rightarrow> utext \<Rightarrow> journal_entry" where
  "entry_of st cid = the (js_changes st cid)"

definition pending_ids :: "journal_state \<Rightarrow> utext list" where
  "pending_ids st = filter (\<lambda>cid. je_status (entry_of st cid) = None) (js_order st)"

definition pending :: "journal_python \<Rightarrow> bytes \<Rightarrow> journal_entry list" where
  "pending E data = (let st = parse E data in map (entry_of st) (pending_ids st))"

definition journal_entries :: "journal_python \<Rightarrow> bytes \<Rightarrow> int option \<Rightarrow> journal_entry list" where
  "journal_entries E data limit = (let st = parse E data; es = map (entry_of st) (rev (js_order st))
     in case limit of None \<Rightarrow> es | Some n \<Rightarrow> take (nat (max 0 n)) es)"

definition last_backup :: "journal_python \<Rightarrow> bytes \<Rightarrow> utext option \<times> utext option" where
  "last_backup E data = (let st = parse E data in (js_last_hash st, js_last_id st))"

record journal_stats =
  jt_size :: nat
  jt_pending :: nat
  jt_committed :: nat
  jt_corrupt :: nat
  jt_torn :: nat
  jt_last_hash :: "utext option"
  jt_last_id :: "utext option"
  jt_over_budget :: bool

definition stats :: "journal_python \<Rightarrow> journal_config \<Rightarrow> bytes \<Rightarrow> journal_stats" where
  "stats E C data = (let st = parse E data; p = length (pending_ids st) in
     \<lparr>jt_size = length data, jt_pending = p, jt_committed = length (js_order st) - p, jt_corrupt = js_corrupt st, jt_torn = js_torn st,
      jt_last_hash = js_last_hash st, jt_last_id = js_last_id st, jt_over_budget = jc_max_bytes C < length data\<rparr>)"

subsection \<open>Writing\<close>

definition line_of :: "journal_python \<Rightarrow> obj \<Rightarrow> bytes" where
  "line_of E d = stable_json (jp_python E) (JObj d)"

definition terminated :: "bytes list \<Rightarrow> bytes" where
  "terminated ls = concat (map (\<lambda>l. l @ [10]) ls)"

definition has_torn_tail :: "bytes \<Rightarrow> bool" where
  "has_torn_tail data \<longleftrightarrow> data \<noteq> [] \<and> last data \<noteq> 10"

definition payload :: "journal_python \<Rightarrow> obj list \<Rightarrow> bytes \<Rightarrow> bytes" where
  "payload E ds data = (if has_torn_tail data then [10] else []) @ terminated (map (line_of E) ds)"

definition append_records :: "journal_python \<Rightarrow> obj list \<Rightarrow> bytes \<Rightarrow> journal_error + bytes" where
  "append_records E ds data = (if list_ex (\<lambda>d. max_line_bytes < length (line_of E d)) ds then Inl ValueError
     else Inr (data @ payload E ds data))"

definition change_record :: "journal_entry \<Rightarrow> obj" where
  "change_record e = [(codes ''v'', JInt 1), (codes ''type'', JStr (codes ''change'')), (codes ''change_id'', JStr (je_change_id e)),
     (codes ''at'', JStr (format_time (je_at e))), (codes ''action'', JStr (je_action e)), (codes ''subject'', JStr (je_subject e)),
     (codes ''before'', opt_json (je_before e)), (codes ''after'', opt_json (je_after e))]"

definition commit_record :: "date_time \<Rightarrow> utext list \<Rightarrow> commit_outcome \<Rightarrow> utext option \<Rightarrow> utext option \<Rightarrow> obj" where
  "commit_record at ids oc b h = [(codes ''v'', JInt 1), (codes ''type'', JStr (codes ''commit'')), (codes ''at'', JStr (format_time at)),
     (codes ''change_ids'', JList (map JStr ids)), (codes ''outcome'', JStr (outcome_text oc)),
     (codes ''backup_id'', opt_json b), (codes ''config_hash'', opt_json h)]"

definition checkpoint_record :: "date_time \<Rightarrow> utext option \<Rightarrow> utext option \<Rightarrow> obj" where
  "checkpoint_record at h b = [(codes ''v'', JInt 1), (codes ''type'', JStr (codes ''checkpoint'')), (codes ''at'', JStr (format_time at)),
     (codes ''last_backup_hash'', opt_json h), (codes ''last_backup_id'', opt_json b)]"

subsection \<open>Compaction\<close>

definition entry_dict :: "journal_entry \<Rightarrow> obj" where
  "entry_dict e = [(codes ''change_id'', JStr (je_change_id e)), (codes ''at'', JStr (format_time (je_at e))),
     (codes ''action'', JStr (je_action e)), (codes ''subject'', JStr (je_subject e)),
     (codes ''before_hash'', opt_json (je_before e)), (codes ''after_hash'', opt_json (je_after e)),
     (codes ''status'', JStr (case je_status e of None \<Rightarrow> codes ''pending'' | Some oc \<Rightarrow> outcome_text oc)),
     (codes ''backup_id'', opt_json (je_backup_id e)), (codes ''recovered'', JBool (je_recovered e)),
     (codes ''merged'', JInt (int (je_merged e)))]"

definition pending_bytes :: "journal_python \<Rightarrow> journal_state \<Rightarrow> utext list \<Rightarrow> nat" where
  "pending_bytes E st ids = sum_list (map (\<lambda>cid. length (line_of E (entry_dict (entry_of st cid))) + 1) ids)"

definition commit_ids :: "obj \<Rightarrow> json list" where
  "commit_ids d = (case get_or (JList []) d ''change_ids'' of JList vs \<Rightarrow> vs | _ \<Rightarrow> [])"

definition with_ids :: "obj \<Rightarrow> utext list \<Rightarrow> obj" where
  "with_ids d ids = obj_set d (codes ''change_ids'') (JList (map JStr ids))"

text \<open>\<open>record_of\<close>: the last commit record that names an id.\<close>

definition record_of :: "obj list \<Rightarrow> utext \<Rightarrow> nat option" where
  "record_of ds cid = (case filter (\<lambda>i. JStr cid \<in> set (commit_ids (ds ! i))) [0..<length ds] of [] \<Rightarrow> None | is \<Rightarrow> Some (last is))"

definition fits_json :: "journal_python \<Rightarrow> obj \<Rightarrow> bool" where
  "fits_json E d \<longleftrightarrow> has_text (py_float_finite (jp_python E)) (JObj d)"

definition hashable :: "json \<Rightarrow> bool" where
  "hashable v \<longleftrightarrow> (case v of JList _ \<Rightarrow> False | JObj _ \<Rightarrow> False | _ \<Rightarrow> True)"

text \<open>The loop over the committed ids, newest first: \<open>budget\<close>, \<open>counted_records\<close> and \<open>kept\<close>.\<close>

fun keep_committed :: "journal_python \<Rightarrow> journal_config \<Rightarrow> journal_state \<Rightarrow> nat \<Rightarrow> nat list \<Rightarrow> utext list \<Rightarrow> utext list \<Rightarrow>
    journal_error + utext list" where
  "keep_committed E C st budget counted kept [] = Inr kept"
| "keep_committed E C st budget counted kept (cid # cids) =
     (if jc_retain C \<le> length kept then Inr kept
      else let ix = record_of (js_commit_records st) cid;
               fresh = (case ix of None \<Rightarrow> False | Some i \<Rightarrow> i \<notin> set counted);
               d = (case ix of None \<Rightarrow> [] | Some i \<Rightarrow> with_ids (js_commit_records st ! i) []);
               cost = pending_bytes E st [cid] + length cid + 3 + (if fresh then length (line_of E d) + 1 else 0)
           in if fresh \<and> \<not> fits_json E d then Inl ValueError
              else if budget < cost then Inr kept
              else keep_committed E C st (budget - cost) (case ix of None \<Rightarrow> counted | Some i \<Rightarrow> i # counted) (cid # kept) cids)"

definition committed_within_budget :: "journal_python \<Rightarrow> journal_config \<Rightarrow> journal_state \<Rightarrow> utext list \<Rightarrow> journal_error + utext list" where
  "committed_within_budget E C st committed =
     (if jc_retain C = 0 then Inr []
      else if list_ex (\<lambda>d. list_ex (\<lambda>v. \<not> hashable v) (commit_ids d)) (js_commit_records st) then Inl TypeError
      else keep_committed E C st (jc_max_bytes C div 4) [] [] (rev committed))"

fun newest_within :: "journal_python \<Rightarrow> journal_state \<Rightarrow> int \<Rightarrow> utext list \<Rightarrow> utext list" where
  "newest_within E st budget [] = []"
| "newest_within E st budget (cid # cids) =
     (let b = budget - int (pending_bytes E st [cid]) in if b < 0 then [] else newest_within E st b cids @ [cid])"

definition overflow_entry :: "journal_state \<Rightarrow> utext \<Rightarrow> utext list \<Rightarrow> journal_entry" where
  "overflow_entry st uid merged =
     (let n = sum_list (map (\<lambda>cid. je_merged (entry_of st cid)) merged); first = entry_of st (hd merged) in
      \<lparr>je_change_id = codes ''chg_overflow_'' @ uid, je_at = je_at first, je_action = codes ''journal.overflow'',
       je_subject = digits10 n @ codes '' older uncommitted changes merged'',
       je_before = je_before first, je_after = je_after (entry_of st (last merged)),
       je_status = None, je_backup_id = None, je_recovered = True, je_merged = n\<rparr>)"

text \<open>The state and the pending ids after the merge of the oldest pending changes, if they are over
  half the budget.\<close>

definition merge_overflow :: "journal_python \<Rightarrow> journal_config \<Rightarrow> utext \<Rightarrow> journal_state \<Rightarrow> journal_state \<times> utext list" where
  "merge_overflow E C uid st =
     (let p = pending_ids st in
      if 1 < length p \<and> jc_max_bytes C div 2 < pending_bytes E st p
      then (let newest = newest_within E st (int (jc_max_bytes C div 2) - 512) (rev p);
                merged = filter (\<lambda>cid. cid \<notin> set newest) p; e = overflow_entry st uid merged
            in (st\<lparr>js_changes := (js_changes st)(je_change_id e \<mapsto> e),
                   js_order := je_change_id e # filter (\<lambda>cid. cid \<notin> set merged) (js_order st)\<rparr>,
                je_change_id e # newest))
      else (st, p))"

definition compacted_record :: "journal_entry \<Rightarrow> obj" where
  "compacted_record e = change_record e @ (if je_recovered e then [(codes ''recovered'', JBool True)] else []) @
     (if 1 < je_merged e then [(codes ''merged'', JInt (int (je_merged e)))] else [])"

definition kept_commits :: "utext list \<Rightarrow> obj list \<Rightarrow> obj list" where
  "kept_commits kept ds = List.map_filter (\<lambda>d. let ids = List.map_filter as_text (filter (\<lambda>v. v \<in> JStr ` set kept) (commit_ids d))
     in if ids = [] then None else Some (with_ids d ids)) ds"

definition committed_ids :: "journal_state \<Rightarrow> utext list" where
  "committed_ids st = filter (\<lambda>cid. je_status (entry_of st cid) \<noteq> None \<and> \<not> je_recovered (entry_of st cid)) (js_order st)"

definition compacted_records :: "date_time \<Rightarrow> utext list \<Rightarrow> utext list \<Rightarrow> journal_state \<Rightarrow> obj list" where
  "compacted_records now pend kept st =
     map (\<lambda>cid. compacted_record (entry_of st cid)) (filter (\<lambda>cid. cid \<in> set pend \<union> set kept) (js_order st)) @
     kept_commits kept (js_commit_records st) @ [checkpoint_record now (js_last_hash st) (js_last_id st)]"

definition compact :: "journal_python \<Rightarrow> journal_config \<Rightarrow> date_time \<Rightarrow> utext \<Rightarrow> bytes \<Rightarrow> journal_error + bytes" where
  "compact E C now uid data =
     (let st = parse E data in case committed_within_budget E C st (committed_ids st) of Inl err \<Rightarrow> Inl err
      | Inr kept \<Rightarrow> (case merge_overflow E C uid st of (st', pend) \<Rightarrow>
          let ds = compacted_records now pend kept st'
          in if list_ex (\<lambda>d. list_ex (\<lambda>v. \<not> hashable v) (commit_ids d)) (js_commit_records st) then Inl TypeError
             else if list_ex (\<lambda>d. \<not> fits_json E d) ds then Inl ValueError
             else Inr (terminated (map (line_of E) ds))))"

subsection \<open>Appending and committing\<close>

text \<open>A write compacts the journal when it is over budget afterwards. The file stays as the write left
  it when the compaction raises, and the caller sees the error.\<close>

definition compact_if_over :: "journal_python \<Rightarrow> journal_config \<Rightarrow> date_time \<Rightarrow> utext \<Rightarrow> bytes \<Rightarrow> bytes \<times> journal_error option" where
  "compact_if_over E C now uid data = (if length data \<le> jc_max_bytes C then (data, None)
     else case compact E C now uid data of Inl err \<Rightarrow> (data, Some err) | Inr data' \<Rightarrow> (data', None))"

definition new_entry :: "date_time \<Rightarrow> utext \<Rightarrow> utext \<Rightarrow> utext \<Rightarrow> utext option \<Rightarrow> utext option \<Rightarrow> journal_entry" where
  "new_entry at uid action subject h h' = \<lparr>je_change_id = codes ''chg_'' @ uid, je_at = at, je_action = action, je_subject = subject,
     je_before = h, je_after = h', je_status = None, je_backup_id = None, je_recovered = False, je_merged = 1\<rparr>"

definition append_guard :: "journal_entry \<Rightarrow> bool" where
  "append_guard e \<longleftrightarrow> action_ok (je_action e) \<and> length (je_subject e) \<le> 256 \<and> hash_ok (je_before e) \<and> hash_ok (je_after e)"

definition append_change :: "journal_python \<Rightarrow> journal_config \<Rightarrow> date_time \<times> date_time \<Rightarrow> utext \<times> utext \<Rightarrow> utext \<Rightarrow> utext \<Rightarrow>
    utext option \<Rightarrow> utext option \<Rightarrow> bytes \<Rightarrow> bytes \<times> (journal_error + journal_entry)" where
  "append_change E C = (\<lambda>(at, now) (uid, ovid) action subject h h' data.
     let e = new_entry at uid action subject h h'
     in if \<not> append_guard e then (data, Inl ValueError)
        else case append_records E [change_record e] data of Inl err \<Rightarrow> (data, Inl err)
           | Inr data' \<Rightarrow> (case compact_if_over E C now ovid data' of
                (data'', Some err) \<Rightarrow> (data'', Inl err) | (data'', None) \<Rightarrow> (data'', Inr e)))"

definition commit_guard :: "commit_outcome \<Rightarrow> utext option \<Rightarrow> utext option \<Rightarrow> bool" where
  "commit_guard oc b h \<longleftrightarrow> hash_ok h \<and> (case oc of Noop \<Rightarrow> b = None | Backup \<Rightarrow> (case b of None \<Rightarrow> False | Some s \<Rightarrow> backup_id_ok s))"

function chunks :: "nat \<Rightarrow> 'a list \<Rightarrow> 'a list list" where
  "chunks n xs = (if length xs \<le> n \<or> n = 0 then [xs] else take n xs # chunks n (drop n xs))"
  by auto
termination
  by (relation "measure (\<lambda>(n, xs). length xs)") auto

definition commit_changes :: "journal_python \<Rightarrow> journal_config \<Rightarrow> date_time \<times> date_time \<Rightarrow> utext \<Rightarrow> utext list \<Rightarrow> commit_outcome \<Rightarrow> utext option \<Rightarrow>
    utext option \<Rightarrow> bytes \<Rightarrow> bytes \<times> journal_error option" where
  "commit_changes E C = (\<lambda>(at, now) uid ids oc h b data.
     if \<not> commit_guard oc b h then (data, Some ValueError)
      else case append_records E (map (\<lambda>c. commit_record at c oc b h) (chunks commit_ids_per_record ids)) data of
           Inl err \<Rightarrow> (data, Some err)
         | Inr data' \<Rightarrow> compact_if_over E C now uid data')"

subsection \<open>Lines\<close>

lemma lines_of_no_newline: "10 \<notin> set s \<Longrightarrow> lines_of s = ([], s)"
  by (induction s) auto

lemma lines_of_append: "10 \<notin> set s \<Longrightarrow> lines_of d = (ls, t) \<Longrightarrow> lines_of (d @ s) = (ls, t @ s)"
  by (induction d arbitrary: ls t) (auto simp: lines_of_no_newline split: prod.splits list.splits if_splits)

lemma lines_of_newline: "lines_of d = (ls, t) \<Longrightarrow> lines_of (d @ 10 # s) = (ls @ t # fst (lines_of s), snd (lines_of s))"
  by (induction d arbitrary: ls t) (auto split: prod.splits list.splits if_splits)

lemma lines_of_terminated:
  assumes "\<forall>l\<in>set ls'. 10 \<notin> set l" and "10 \<notin> set p"
  shows "lines_of (terminated ls' @ p) = (ls', p)"
  using assms(1)
proof (induction ls')
  case Nil
  then show ?case using assms(2) by (simp add: terminated_def lines_of_no_newline)
next
  case (Cons l ls')
  then have "lines_of (l @ 10 # (terminated ls' @ p)) = ([] @ l # ls', p)"
    using lines_of_newline[OF lines_of_no_newline, of l "terminated ls' @ p"] by simp
  then show ?case by (simp add: terminated_def)
qed

lemma torn_tail_iff: "lines_of d = (ls, t) \<Longrightarrow> has_torn_tail d \<longleftrightarrow> t \<noteq> []"
proof (induction d arbitrary: ls t)
  case (Cons c d)
  obtain ls' t' where d: "lines_of d = (ls', t')" by force
  show ?case
  proof (cases "d = []")
    case True
    then show ?thesis using Cons.prems by (auto simp: has_torn_tail_def split: if_splits)
  next
    case False
    then have "has_torn_tail (c # d) \<longleftrightarrow> t' \<noteq> []" using Cons.IH[OF d] by (simp add: has_torn_tail_def)
    moreover have "ls' \<noteq> [] \<or> t' \<noteq> []" using False d by (cases d) (auto split: prod.splits list.splits if_splits)
    ultimately show ?thesis using Cons.prems d by (auto split: if_splits list.splits)
  qed
qed (simp add: has_torn_tail_def)

text \<open>What is on disk after the first \<open>k\<close> bytes of a write: some whole lines and a piece of the next.\<close>

lemma take_terminated:
  "\<exists>j p q. take k (terminated ls) = terminated (take j ls) @ p \<and> j \<le> length ls \<and>
     (p = [] \<or> j < length ls \<and> ls ! j = p @ q)"
proof (induction ls arbitrary: k)
  case Nil
  then show ?case by (simp add: terminated_def)
next
  case (Cons l ls)
  have t: "terminated (l # ls) = l @ 10 # terminated ls" by (simp add: terminated_def)
  show ?case
  proof (cases "k \<le> length l")
    case True
    then have "take k (terminated (l # ls)) = terminated (take 0 (l # ls)) @ take k l"
      by (simp add: t) (simp add: terminated_def)
    then show ?thesis
      by (intro exI[of _ 0] exI[of _ "take k l"] exI[of _ "drop k l"]) simp
  next
    case False
    then obtain m where k: "k = Suc (length l) + m" using less_imp_add_positive by (metis add_Suc_shift le_iff_add linorder_not_le Suc_leI)
    obtain j p q where j: "take m (terminated ls) = terminated (take j ls) @ p" "j \<le> length ls"
      "p = [] \<or> j < length ls \<and> ls ! j = p @ q"
      using Cons.IH[of m] by blast
    have "take k (terminated (l # ls)) = terminated (take (Suc j) (l # ls)) @ p"
      by (simp add: t k j) (simp add: terminated_def)
    then show ?thesis
      using j(2,3) by (intro exI[of _ "Suc j"] exI[of _ p] exI[of _ q]) simp
  qed
qed

lemma read_lines_append: "read_lines E n (a @ b) st = read_lines E (n + length a) b (read_lines E n a st)"
  by (induction E n a st rule: read_lines.induct) auto

subsection \<open>Times and texts\<close>

lemma length_padded [simp]: "length (padded w n) = w"
  by (induction w n rule: padded.induct) auto

lemma value10_append: "value10 (ds @ [c]) = 10 * value10 ds + (c - 48)"
  by (simp add: value10_def)

lemma value10_padded: "n < 10 ^ w \<Longrightarrow> value10 (padded w n) = n"
proof (induction w n rule: padded.induct)
  case (2 w n)
  then have "n div 10 < 10 ^ w" by (simp add: less_mult_imp_div_less mult.commute)
  then show ?case using 2 by (simp add: value10_append)
qed (simp add: value10_def)

lemma field_at_skip: "length a = i \<Longrightarrow> length b = w \<Longrightarrow> field_at i w (a @ b @ r) = value10 b"
  by (simp add: field_at_def)

lemma spelled_format_time: "valid_date_time t \<Longrightarrow> spelled_time (format_time t) = t"
proof -
  assume v: "valid_date_time t"
  have small: "dt_month t < 100" "dt_day t < 100"
    using v days_in_month_bounds(2)[of "dt_year t" "dt_month t"] by (auto simp: valid_date_time_def valid_date_def)
  let ?y = "padded 4 (dt_year t)" and ?mo = "padded 2 (dt_month t)" and ?d = "padded 2 (dt_day t)" and ?h = "padded 2 (dt_hour t)"
    and ?mi = "padded 2 (dt_minute t)" and ?s = "padded 2 (dt_second t)" and ?u = "padded 6 (dt_micro t)"
  have "field_at 0 4 (format_time t) = value10 ?y"
    unfolding format_time_def using field_at_skip[of "[]" 0 ?y] by simp
  moreover have "field_at 5 2 (format_time t) = value10 ?mo"
    unfolding format_time_def using field_at_skip[of "?y @ codes ''-''" 5 ?mo] by simp
  moreover have "field_at 8 2 (format_time t) = value10 ?d"
    unfolding format_time_def using field_at_skip[of "?y @ codes ''-'' @ ?mo @ codes ''-''" 8 ?d] by simp
  moreover have "field_at 11 2 (format_time t) = value10 ?h"
    unfolding format_time_def using field_at_skip[of "?y @ codes ''-'' @ ?mo @ codes ''-'' @ ?d @ codes ''T''" 11 ?h] by simp
  moreover have "field_at 14 2 (format_time t) = value10 ?mi"
    unfolding format_time_def
    using field_at_skip[of "?y @ codes ''-'' @ ?mo @ codes ''-'' @ ?d @ codes ''T'' @ ?h @ codes '':''" 14 ?mi] by simp
  moreover have "field_at 17 2 (format_time t) = value10 ?s"
    unfolding format_time_def
    using field_at_skip[of "?y @ codes ''-'' @ ?mo @ codes ''-'' @ ?d @ codes ''T'' @ ?h @ codes '':'' @ ?mi @ codes '':''" 17 ?s] by simp
  moreover have "field_at 20 6 (format_time t) = value10 ?u" if "dt_micro t \<noteq> 0"
    unfolding format_time_def
    using that field_at_skip[of "?y @ codes ''-'' @ ?mo @ codes ''-'' @ ?d @ codes ''T'' @ ?h @ codes '':'' @ ?mi @ codes '':'' @ ?s @ codes ''.''" 20 ?u]
    by simp
  moreover have "length (format_time t) = (if dt_micro t = 0 then 20 else 27)"
    by (simp add: format_time_def)
  ultimately show ?thesis
    using v small by (cases t) (simp add: spelled_time_def value10_padded valid_date_time_def)
qed

lemma parse_format_time: "valid_date_time t \<Longrightarrow> parse_time E (JStr (format_time t)) = Some t"
  by (simp add: parse_time_def spelled_format_time)

subsection \<open>A record reads back\<close>

declare codes_simps(2) [simp del]

lemma plain_spelled: "list_all (\<lambda>c. c < 128) s \<Longrightarrow> spelled s"
  by (induction s rule: spelled.induct) (auto simp: high_surrogate_def)

lemma codes_spelled [simp]: "list_all (\<lambda>c. of_char c < (128 :: nat)) s \<Longrightarrow> spelled (codes s)"
  by (rule plain_spelled) (simp add: codes_def list_all_iff)

lemma padded_plain: "list_all (\<lambda>c. c < 128) (padded w n)"
  by (induction w n rule: padded.induct) auto

lemma digits10_plain: "list_all (\<lambda>c. c < 128) (digits10 n)"
  using digits10_digits[of n] by (auto simp: list_all_iff is_digit_def)

lemma format_time_spelled [simp]: "spelled (format_time t)"
  by (rule plain_spelled) (simp add: format_time_def padded_plain codes_simps)

lemma sha256_spelled: "sha256_ok s \<Longrightarrow> spelled s"
  by (rule plain_spelled) (auto simp: sha256_ok_def list_all_iff is_digit_def between_def)

lemma change_id_spelled: "change_id_ok s \<Longrightarrow> spelled s"
proof (rule plain_spelled)
  assume s: "change_id_ok s"
  have "s = take 4 s @ drop 4 s" by simp
  moreover have "list_all (\<lambda>c. c < 128) (take 4 s)" "list_all (\<lambda>c. c < 128) (drop 4 s)"
    using s by (auto simp: change_id_ok_def list_all_iff is_digit_def between_def among_def codes_simps)
  ultimately show "list_all (\<lambda>c. c < 128) s" by (metis list_all_append)
qed

lemma backup_id_spelled: "backup_id_ok s \<Longrightarrow> spelled s"
  by (rule plain_spelled)
    (auto simp: backup_id_ok_def Let_def list_all_iff is_digit_def between_def among_def codes_simps split: list.splits)

lemma digits10_one [simp]: "digits10 (Suc 0) = [49]"
  by (subst digits10.simps) simp

definition entry_ok :: "journal_entry \<Rightarrow> bool" where
  "entry_ok e \<longleftrightarrow> change_id_ok (je_change_id e) \<and> valid_date_time (je_at e) \<and> hash_ok (je_before e) \<and> hash_ok (je_after e) \<and>
     1 \<le> je_merged e"

definition writable :: "journal_entry \<Rightarrow> bool" where
  "writable e \<longleftrightarrow> entry_ok e \<and> spelled (je_action e) \<and> spelled (je_subject e) \<and> length (digits10 (je_merged e)) \<le> 4300"

lemma readable_opt_json: "hash_ok h \<Longrightarrow> readable (opt_json h)"
  by (auto simp: opt_json_def hash_ok_def sha256_spelled split: option.splits)

lemma validate_opt_json: "hash_ok h \<Longrightarrow> validate_hash (opt_json h) = Some h"
  by (auto simp: validate_hash_def opt_json_def hash_ok_def split: option.splits)

lemma sort_opt_json [simp]: "sort_keys (opt_json h) = opt_json h"
  by (simp add: opt_json_def split: option.split)

lemma distinct_compacted: "distinct (map fst (compacted_record e))"
  by (simp add: compacted_record_def change_record_def)

lemma readable_compacted: "writable e \<Longrightarrow> readable (JObj (compacted_record e))"
proof -
  assume e: "writable e"
  then have "spelled (je_change_id e)" "spelled (je_action e)" "spelled (je_subject e)" "readable (opt_json (je_before e))"
    "readable (opt_json (je_after e))" "length (digits10 (je_merged e)) \<le> 4300"
    by (simp_all add: writable_def entry_ok_def change_id_spelled readable_opt_json)
  then have "list_all (\<lambda>(k, v). spelled k \<and> readable v) (compacted_record e)"
    by (simp add: compacted_record_def change_record_def)
  then show ?thesis using distinct_compacted[of e] by simp
qed

definition fresh_entry :: "journal_entry \<Rightarrow> journal_entry" where
  "fresh_entry e = e\<lparr>je_status := None, je_backup_id := None\<rparr>"

lemma get_compacted:
  "get (compacted_record e) ''type'' = Some (JStr (codes ''change''))" "get (compacted_record e) ''change_id'' = Some (JStr (je_change_id e))"
  "get (compacted_record e) ''at'' = Some (JStr (format_time (je_at e)))" "get (compacted_record e) ''action'' = Some (JStr (je_action e))"
  "get (compacted_record e) ''subject'' = Some (JStr (je_subject e))" "get (compacted_record e) ''before'' = Some (opt_json (je_before e))"
  "get (compacted_record e) ''after'' = Some (opt_json (je_after e))"
  "get (compacted_record e) ''recovered'' = (if je_recovered e then Some (JBool True) else None)"
  "get (compacted_record e) ''merged'' = (if 1 < je_merged e then Some (JInt (int (je_merged e))) else None)"
  by (simp_all add: get_def compacted_record_def change_record_def)

lemma apply_compacted:
  assumes "entry_ok e"
  shows "apply_record E st (stable_obj (compacted_record e)) = Some (add_entry (fresh_entry e) st)"
proof -
  have "read_change E (stable_obj (compacted_record e)) = Some (fresh_entry e)"
    using assms unfolding entry_ok_def
    by (cases e) (auto simp: read_change_def get_stable_obj get_or_def distinct_compacted get_compacted as_text_def parse_format_time
        validate_opt_json positive_int_def truthy_def fresh_entry_def)
  then show ?thesis
    by (simp add: apply_record_def kind_is_def get_stable_obj distinct_compacted get_compacted)
qed

lemma change_record_compacted: "\<not> je_recovered e \<Longrightarrow> je_merged e = 1 \<Longrightarrow> change_record e = compacted_record e"
  by (simp add: compacted_record_def)

lemma loads_line: "readable (JObj d) \<Longrightarrow> loads P (stable_json P (JObj d)) = Some (JObj (stable_obj d))"
  by (simp add: loads_stable_json sort_keys_obj del: sort_keys.simps)

lemma read_record_line:
  "readable (JObj d) \<Longrightarrow> length (line_of E d) \<le> max_line_bytes \<Longrightarrow> read_record E st (line_of E d) = apply_record E st (stable_obj d)"
  by (simp add: read_record_def line_of_def loads_line del: readable.simps)

lemma line_of_start: "\<exists>s. line_of E d = 123 # s"
  by (simp add: line_of_def stable_json_def)

lemma line_of_lines: "readable (JObj d) \<Longrightarrow> 10 \<notin> set (line_of E d)"
  using graphic_stable_json[of "JObj d" "jp_python E"] by (auto simp: graphic_def list_all_iff line_of_def)

lemma not_blank_line: "line_of E d = p @ q \<Longrightarrow> p \<noteq> [] \<Longrightarrow> \<not> blank p"
  using line_of_start[of E d] by (cases p) (auto simp: blank_def)

text \<open>A piece of a line is damage, not a record.\<close>

lemma read_piece: "readable (JObj d) \<Longrightarrow> line_of E d = p @ q \<Longrightarrow> q \<noteq> [] \<Longrightarrow> read_record E st p = None"
  using loads_prefix[of d "jp_python E" p q] by (simp add: read_record_def line_of_def)

subsection \<open>The state a file reads as\<close>

definition commits_from :: "obj list \<Rightarrow> utext \<Rightarrow> (commit_outcome \<times> utext option) option" where
  "commits_from ds = foldl (\<lambda>m d. case commit_of d of None \<Rightarrow> m | Some (oc, ids, h, b) \<Rightarrow> note_commit oc b ids m) Map.empty ds"

definition well_formed :: "journal_state \<Rightarrow> bool" where
  "well_formed st \<longleftrightarrow> distinct (js_order st) \<and> set (js_order st) = dom (js_changes st) \<and>
     (\<forall>cid e. js_changes st cid = Some e \<longrightarrow> je_change_id e = cid) \<and>
     js_commits st = commits_from (js_commit_records st) \<and>
     (\<forall>d\<in>set (js_commit_records st). kind_is d ''commit'' \<and> commit_of d \<noteq> None)"

lemma well_formed_new: "well_formed new_state"
  by (simp add: well_formed_def new_state_def commits_from_def)

lemma well_formed_add: "well_formed st \<Longrightarrow> well_formed (add_entry e st)"
  by (auto simp: well_formed_def add_entry_def)

lemma well_formed_extra [simp]:
  "well_formed (st\<lparr>js_torn := n\<rparr>) = well_formed st" "well_formed (st\<lparr>js_corrupt := n\<rparr>) = well_formed st"
  "well_formed (st\<lparr>js_last_hash := h, js_last_id := b\<rparr>) = well_formed st"
  by (simp_all add: well_formed_def)

lemma apply_recordE:
  assumes "apply_record E st d = Some st'"
  obtains (change) e where "read_change E d = Some e" "st' = add_entry e st"
    | (commit) oc ids h b where "kind_is d ''commit''" "commit_of d = Some (oc, ids, h, b)"
        "st' = (let s = st\<lparr>js_commits := note_commit oc b ids (js_commits st), js_commit_records := js_commit_records st @ [d]\<rparr>
          in if oc = Backup then s\<lparr>js_last_hash := h, js_last_id := b\<rparr> else s)"
    | (checkpoint) h b where "st' = st\<lparr>js_last_hash := h, js_last_id := b\<rparr>"
  using assms by (fastforce simp: apply_record_def split: if_splits)

lemma well_formed_apply: "well_formed st \<Longrightarrow> apply_record E st d = Some st' \<Longrightarrow> well_formed st'"
proof -
  assume w: "well_formed st" and a: "apply_record E st d = Some st'"
  from a show ?thesis
  proof (cases rule: apply_recordE)
    case (commit oc ids h b)
    have "well_formed (st\<lparr>js_commits := note_commit oc b ids (js_commits st), js_commit_records := js_commit_records st @ [d]\<rparr>)"
      using w commit(1,2) by (auto simp: well_formed_def commits_from_def)
    then show ?thesis using commit(3) by (auto simp: Let_def well_formed_def)
  qed (use w well_formed_add in auto)
qed

lemma well_formed_placeholder: "well_formed st \<Longrightarrow> well_formed (add_placeholder E st n raw torn)"
  by (auto simp: add_placeholder_def Let_def intro!: well_formed_add)

lemma well_formed_record: "well_formed st \<Longrightarrow> read_record E st raw = Some st' \<Longrightarrow> well_formed st'"
  by (auto simp: read_record_def split: option.splits json.splits dest: well_formed_apply)

lemma well_formed_line: "well_formed st \<Longrightarrow> well_formed (read_line E n raw st)"
  by (auto simp: read_line_def split: option.split intro: well_formed_record well_formed_placeholder)

lemma well_formed_lines: "well_formed st \<Longrightarrow> well_formed (read_lines E n ls st)"
  by (induction E n ls st rule: read_lines.induct) (simp_all add: well_formed_line)

lemma well_formed_read: "well_formed (read_bytes E data)"
  using well_formed_lines[OF well_formed_new]
  by (auto simp: read_bytes_def read_tail_def split: prod.split option.split intro: well_formed_record well_formed_placeholder)

lemma well_formed_mark: "well_formed st \<Longrightarrow> well_formed (mark_committed st)"
  by (auto simp: well_formed_def mark_committed_def replace_status_def dom_def split: option.splits)

lemma well_formed_parse: "well_formed (parse E data)"
  by (simp add: parse_def well_formed_mark well_formed_read)

text \<open>What the file says of a change, wherever a line of it was torn: everything but the words of a
  recovered entry's subject and the two counts of damage.\<close>

definition veil :: "journal_entry \<Rightarrow> journal_entry" where
  "veil e = (if je_recovered e then e\<lparr>je_subject := []\<rparr> else e)"

definition same_journal :: "journal_state \<Rightarrow> journal_state \<Rightarrow> bool" where
  "same_journal s s' \<longleftrightarrow> js_order s = js_order s' \<and> (\<forall>c. map_option veil (js_changes s c) = map_option veil (js_changes s' c)) \<and>
     js_commits s = js_commits s' \<and> js_commit_records s = js_commit_records s' \<and>
     js_last_hash s = js_last_hash s' \<and> js_last_id s = js_last_id s'"

lemma same_refl [simp]: "same_journal s s"
  by (simp add: same_journal_def)

lemma same_sym: "same_journal s t \<Longrightarrow> same_journal t s"
  by (simp add: same_journal_def)

lemma same_trans: "same_journal s t \<Longrightarrow> same_journal t u \<Longrightarrow> same_journal s u"
  by (simp add: same_journal_def)

lemma same_extra [simp]:
  "same_journal (s\<lparr>js_torn := n\<rparr>) t = same_journal s t" "same_journal (s\<lparr>js_corrupt := n\<rparr>) t = same_journal s t"
  "same_journal s (t\<lparr>js_torn := n\<rparr>) = same_journal s t" "same_journal s (t\<lparr>js_corrupt := n\<rparr>) = same_journal s t"
  by (simp_all add: same_journal_def)

lemma same_add: "same_journal s t \<Longrightarrow> veil e = veil e' \<Longrightarrow> je_change_id e = je_change_id e' \<Longrightarrow> same_journal (add_entry e s) (add_entry e' t)"
proof -
  assume st: "same_journal s t" and e: "veil e = veil e'" "je_change_id e = je_change_id e'"
  have "js_changes s c = None \<longleftrightarrow> js_changes t c = None" for c
    using st by (metis same_journal_def map_option_is_None)
  then show ?thesis using st e by (simp add: same_journal_def add_entry_def)
qed

lemma same_add_new: "same_journal s t \<Longrightarrow> same_journal (add_entry e s) (add_entry e t)"
  by (rule same_add) simp_all

lemma same_apply:
  assumes "same_journal s t" and "apply_record E s d = Some s'"
  shows "\<exists>t'. apply_record E t d = Some t' \<and> same_journal s' t'"
proof -
  show ?thesis
  proof (cases "kind_is d ''change''")
    case True
    then show ?thesis using assms by (auto simp: apply_record_def same_add_new)
  next
    case change: False
    show ?thesis
    proof (cases "kind_is d ''commit''")
      case True
      then obtain oc ids h b where "commit_of d = Some (oc, ids, h, b)" using assms(2) change by (auto simp: apply_record_def)
      then show ?thesis using True change assms by (cases oc) (auto simp: apply_record_def Let_def same_journal_def)
    next
      case False
      then show ?thesis using change assms by (auto simp: apply_record_def same_journal_def split: if_splits)
    qed
  qed
qed

lemma same_mark: "same_journal s t \<Longrightarrow> same_journal (mark_committed s) (mark_committed t)"
proof -
  assume st: "same_journal s t"
  have "map_option veil (js_changes (mark_committed s) c) = map_option veil (js_changes (mark_committed t) c)" for c
  proof -
    have v: "veil (case m of None \<Rightarrow> e | Some ob \<Rightarrow> replace_status e ob) = (case m of None \<Rightarrow> veil e | Some ob \<Rightarrow> replace_status (veil e) ob)" for m e
      by (simp add: veil_def replace_status_def split: option.split)
    have "map_option veil (js_changes s c) = map_option veil (js_changes t c)" "js_commits s c = js_commits t c"
      using st by (simp_all add: same_journal_def)
    then show ?thesis
      by (cases "js_changes s c"; cases "js_changes t c") (auto simp: mark_committed_def v split: option.split)
  qed
  then show ?thesis using st by (simp add: same_journal_def mark_committed_def)
qed

lemma same_torn_line: "\<not> blank raw \<Longrightarrow> same_journal (read_line E n raw st) (read_tail E n raw st)"
proof -
  assume b: "\<not> blank raw"
  then have "raw \<noteq> []" by (auto simp: blank_def)
  moreover have "same_journal (add_placeholder E st n raw False) (add_placeholder E st n raw True)"
    by (auto simp: add_placeholder_def Let_def recovered_entry_def veil_def intro!: same_add)
  ultimately show ?thesis using b by (auto simp: read_line_def read_tail_def split: option.split)
qed

lemma same_pending:
  assumes "same_journal s t"
  shows "pending_ids s = pending_ids t" and "map (veil \<circ> entry_of s) (pending_ids s) = map (veil \<circ> entry_of t) (pending_ids t)"
    and "well_formed s \<Longrightarrow> well_formed t \<Longrightarrow> committed_ids s = committed_ids t"
proof -
  have e: "veil (entry_of s c) = veil (entry_of t c)" for c
  proof -
    have "map_option veil (js_changes s c) = map_option veil (js_changes t c)" using assms by (simp add: same_journal_def)
    then show ?thesis by (cases "js_changes s c"; cases "js_changes t c") (simp_all add: entry_of_def)
  qed
  have status: "je_status e = je_status (veil e)" "je_recovered e = je_recovered (veil e)" for e
    by (simp_all add: veil_def)
  have "je_status (entry_of s c) = je_status (entry_of t c)" "je_recovered (entry_of s c) = je_recovered (entry_of t c)" for c
    using e[of c] status by metis+
  then show "pending_ids s = pending_ids t" "committed_ids s = committed_ids t"
    using assms by (simp_all add: pending_ids_def committed_ids_def same_journal_def)
  then show "map (veil \<circ> entry_of s) (pending_ids s) = map (veil \<circ> entry_of t) (pending_ids t)"
    using e by simp
qed

subsection \<open>Writes, whole and torn\<close>

definition good_record :: "journal_python \<Rightarrow> obj \<Rightarrow> bool" where
  "good_record E d \<longleftrightarrow> readable (JObj d) \<and> length (line_of E d) \<le> max_line_bytes \<and> (\<forall>st. apply_record E st (stable_obj d) \<noteq> None)"

definition applied :: "journal_python \<Rightarrow> journal_state \<Rightarrow> obj \<Rightarrow> journal_state" where
  "applied E st d = (case apply_record E st (stable_obj d) of None \<Rightarrow> st | Some st' \<Rightarrow> st')"

text \<open>No program writes a blank unterminated line; a journal whose last line is not one is \<open>sound\<close>.\<close>

definition sound_tail :: "bytes \<Rightarrow> bool" where
  "sound_tail data \<longleftrightarrow> (let t = snd (lines_of data) in t = [] \<or> \<not> blank t)"

lemma read_line_good: "good_record E d \<Longrightarrow> read_line E n (line_of E d) st = applied E st d"
proof -
  assume g: "good_record E d"
  have "line_of E d \<noteq> []" using line_of_start[of E d] by auto
  then have "\<not> blank (line_of E d)" by (intro not_blank_line[of E d _ "[]"]) simp
  moreover obtain st' where "apply_record E st (stable_obj d) = Some st'" using g by (auto simp: good_record_def)
  ultimately show ?thesis
    using g read_record_line[of d E st] by (simp add: good_record_def read_line_def applied_def del: readable.simps)
qed

lemma read_lines_good: "\<forall>d\<in>set ds. good_record E d \<Longrightarrow> read_lines E n (map (line_of E) ds) st = foldl (applied E) st ds"
  by (induction ds arbitrary: n st) (simp_all add: read_line_good)

lemma same_applied: "same_journal s t \<Longrightarrow> good_record E d \<Longrightarrow> same_journal (applied E s d) (applied E t d)"
proof -
  assume st: "same_journal s t" and g: "good_record E d"
  then obtain s' where s: "apply_record E s (stable_obj d) = Some s'" by (auto simp: good_record_def)
  from same_apply[OF st s] show ?thesis by (auto simp: applied_def s)
qed

lemma same_foldl_applied:
  "same_journal s t \<Longrightarrow> \<forall>d\<in>set ds. good_record E d \<Longrightarrow> same_journal (foldl (applied E) s ds) (foldl (applied E) t ds)"
  by (induction ds arbitrary: s t) (simp_all add: same_applied)

text \<open>Terminating a torn last line changes nothing a reader is told of the changes.\<close>

lemma read_settled:
  assumes "sound_tail data" and "data' = data @ (if has_torn_tail data then [10] else [])"
  shows "same_journal (read_bytes E data') (read_bytes E data)" and "snd (lines_of data') = []"
proof -
  obtain ls t where d: "lines_of data = (ls, t)" by force
  have torn: "has_torn_tail data \<longleftrightarrow> t \<noteq> []" by (rule torn_tail_iff[OF d])
  have l: "lines_of data' = (if t = [] then (ls, []) else (ls @ [t], []))"
    using assms(2) d torn lines_of_newline[OF d, of "[]"] by auto
  then show "snd (lines_of data') = []" by simp
  show "same_journal (read_bytes E data') (read_bytes E data)"
  proof (cases "t = []")
    case True
    then show ?thesis using l d by (simp add: read_bytes_def)
  next
    case False
    then have "\<not> blank t" using assms(1) d by (simp add: sound_tail_def)
    moreover have "read_bytes E data' = read_line E (length ls + 1) t (read_lines E 1 ls new_state)"
      using l False by (simp add: read_bytes_def read_lines_append) (simp add: read_tail_def)
    moreover have "read_bytes E data = read_tail E (length ls + 1) t (read_lines E 1 ls new_state)"
      using d by (simp add: read_bytes_def)
    ultimately show ?thesis using same_torn_line by simp
  qed
qed

lemma read_after_lines:
  assumes "snd (lines_of data) = []" and "\<forall>d\<in>set ds. good_record E d" and "10 \<notin> set p"
  shows "read_bytes E (data @ terminated (map (line_of E) ds) @ p) =
    read_tail E (length (fst (lines_of data)) + length ds + 1) p (foldl (applied E) (read_bytes E data) ds)"
    and "snd (lines_of (data @ terminated (map (line_of E) ds) @ p)) = p"
proof -
  obtain ls where d: "lines_of data = (ls, [])" using assms(1) by (cases "lines_of data") auto
  have nl: "\<forall>l\<in>set (map (line_of E) ds). 10 \<notin> set l"
    using assms(2) line_of_lines by (auto simp: good_record_def simp del: readable.simps)
  have app: "lines_of x = (ls, []) \<Longrightarrow> lines_of (x @ y) = (ls @ fst (lines_of y), snd (lines_of y))" for x y
  proof (induction x arbitrary: ls)
    case (Cons c x)
    then show ?case by (auto split: prod.splits list.splits if_splits)
  qed simp
  have "lines_of (data @ terminated (map (line_of E) ds) @ p) = (ls @ map (line_of E) ds, p)"
    using app[OF d] lines_of_terminated[OF nl assms(3)] by simp
  moreover have "read_lines E 1 (ls @ map (line_of E) ds) new_state = foldl (applied E) (read_lines E 1 ls new_state) ds"
    using assms(2) by (simp add: read_lines_append read_lines_good)
  moreover have "read_bytes E data = read_lines E 1 ls new_state"
    using d by (simp add: read_bytes_def read_tail_def)
  ultimately show "read_bytes E (data @ terminated (map (line_of E) ds) @ p) =
    read_tail E (length (fst (lines_of data)) + length ds + 1) p (foldl (applied E) (read_bytes E data) ds)"
    "snd (lines_of (data @ terminated (map (line_of E) ds) @ p)) = p"
    using d by (simp_all add: read_bytes_def)
qed

lemma whole_write:
  assumes "sound_tail data" and "\<forall>d\<in>set ds. good_record E d"
  shows "same_journal (read_bytes E (data @ payload E ds data)) (foldl (applied E) (read_bytes E data) ds)"
proof -
  let ?data = "data @ (if has_torn_tail data then [10] else [])"
  have "read_bytes E (?data @ terminated (map (line_of E) ds) @ []) = foldl (applied E) (read_bytes E ?data) ds"
    using read_after_lines(1)[OF read_settled(2)[OF assms(1) refl] assms(2), of "[]"] by (simp add: read_tail_def)
  then show ?thesis
    using same_foldl_applied[OF read_settled(1)[OF assms(1) refl] assms(2)] by (simp add: payload_def)
qed

text \<open>A crash leaves the first bytes of a write: then the first records are in the journal, and the
  piece of the next one is a change to back up.\<close>

lemma torn_write:
  assumes "sound_tail data" and "\<forall>d\<in>set ds. good_record E d"
  obtains j n p where "j \<le> length ds" and "p = [] \<or> j < length ds \<and> (\<exists>q. line_of E (ds ! j) = p @ q)"
    and "same_journal (read_bytes E (data @ take k (payload E ds data)))
      (if p = [] then foldl (applied E) (read_bytes E data) (take j ds)
       else add_placeholder E (foldl (applied E) (read_bytes E data) (take j ds)) n p True)"
    and "sound_tail (data @ take k (payload E ds data))"
proof -
  let ?data = "data @ (if has_torn_tail data then [10] else [])"
  let ?L = "map (line_of E) ds"
  show ?thesis
  proof (cases "has_torn_tail data \<and> k = 0")
    case True
    then show ?thesis using that[of 0 "[]" 0] assms(1) by simp
  next
    case False
    define m where "m = (if has_torn_tail data then k - 1 else k)"
    have whole: "data @ take k (payload E ds data) = ?data @ take m (terminated ?L)"
      using False by (cases k) (auto simp: payload_def m_def)
    obtain j p q where j: "take m (terminated ?L) = terminated (take j ?L) @ p" "j \<le> length ds"
      "p = [] \<or> j < length ds \<and> line_of E (ds ! j) = p @ q"
    proof -
      obtain i p q where i: "take m (terminated ?L) = terminated (take i ?L) @ p \<and> i \<le> length ?L \<and> (p = [] \<or> i < length ?L \<and> ?L ! i = p @ q)"
        using take_terminated[of m ?L] by blast
      show ?thesis by (rule that[of i p q]) (use i in auto)
    qed
    have good: "\<forall>d\<in>set (take j ds). good_record E d" using assms(2) by (meson in_set_takeD)
    let ?R = "foldl (applied E) (read_bytes E data) (take j ds)"
    have nl: "10 \<notin> set p"
    proof (cases "p = []")
      case False
      then have "good_record E (ds ! j)" "line_of E (ds ! j) = p @ q" using j(3) assms(2) by auto
      then show ?thesis using line_of_lines[of "ds ! j" E] by (auto simp: good_record_def simp del: readable.simps)
    qed simp
    have "read_bytes E (data @ take k (payload E ds data)) =
        read_tail E (length (fst (lines_of ?data)) + j + 1) p (foldl (applied E) (read_bytes E ?data) (take j ds))"
      and tail: "snd (lines_of (data @ take k (payload E ds data))) = p"
      using read_after_lines[OF read_settled(2)[OF assms(1) refl] good nl] j(1,2) unfolding whole by (simp_all add: take_map)
    moreover define n S where "n = length (fst (lines_of ?data)) + j + 1" and "S = foldl (applied E) (read_bytes E ?data) (take j ds)"
    ultimately have r: "read_bytes E (data @ take k (payload E ds data)) = read_tail E n p S" by simp
    have S: "same_journal S ?R" unfolding S_def by (rule same_foldl_applied[OF read_settled(1)[OF assms(1) refl] good])
    have sound: "sound_tail (data @ take k (payload E ds data))"
      using tail j(3) not_blank_line by (auto simp: sound_tail_def)
    show ?thesis
    proof (cases "p = []")
      case True
      then show ?thesis using that[of j "[]" 0] j(2) r S sound by (simp add: read_tail_def)
    next
      case False
      then have jl: "j < length ds" "line_of E (ds ! j) = p @ q" using j(3) by auto
      then have g: "good_record E (ds ! j)" using assms(2) by simp
      show ?thesis
      proof (cases "q = []")
        case True
        obtain S' where "apply_record E S (stable_obj (ds ! j)) = Some S'" using g by (auto simp: good_record_def)
        then have "read_record E S p = Some (applied E S (ds ! j))"
          using g jl True read_record_line[of "ds ! j" E S] by (simp add: good_record_def applied_def del: readable.simps)
        then have "same_journal (read_tail E n p S) (applied E ?R (ds ! j))"
          using False same_applied[OF S g] by (simp add: read_tail_def)
        moreover have "applied E ?R (ds ! j) = foldl (applied E) (read_bytes E data) (take (Suc j) ds)"
          using jl(1) by (simp add: take_Suc_conv_app_nth)
        ultimately show ?thesis using that[of "Suc j" "[]" 0] jl(1) r sound by simp
      next
        case q: False
        have "read_record E S p = None"
          using read_piece[OF _ jl(2) q] g by (simp add: good_record_def del: readable.simps)
        then have "read_tail E n p S = add_placeholder E S n p True" using False by (simp add: read_tail_def)
        moreover have "same_journal (add_placeholder E S n p True) (add_placeholder E ?R n p True)"
        proof -
          have "js_changes S c = None \<longleftrightarrow> js_changes ?R c = None" for c
            using S by (metis same_journal_def map_option_is_None)
          then show ?thesis using S by (simp add: add_placeholder_def Let_def same_add_new)
        qed
        ultimately show ?thesis using that[of j p n] False j(2) jl r sound by auto
      qed
    qed
  qed
qed

subsection \<open>A change appended is a change pending\<close>

text \<open>No line of the file, a commit included, has named the id yet.\<close>

definition unused :: "journal_state \<Rightarrow> utext \<Rightarrow> bool" where
  "unused st cid \<longleftrightarrow> cid \<notin> set (js_order st) \<and> js_commits st cid = None"

definition pending_view :: "journal_state \<Rightarrow> journal_entry list" where
  "pending_view st = map (veil \<circ> entry_of st) (pending_ids st)"

definition backup_view :: "journal_state \<Rightarrow> utext option \<times> utext option" where
  "backup_view st = (js_last_hash st, js_last_id st)"

lemma same_views: "same_journal s t \<Longrightarrow> pending_view s = pending_view t \<and> backup_view s = backup_view t"
  using same_pending(2)[of s t] by (simp add: pending_view_def backup_view_def same_journal_def)

lemma same_unused: "same_journal s t \<Longrightarrow> unused s c = unused t c"
  by (simp add: unused_def same_journal_def)

lemma mark_fields [simp]:
  "js_order (mark_committed st) = js_order st" "js_commits (mark_committed st) = js_commits st"
  "js_commit_records (mark_committed st) = js_commit_records st"
  "js_last_hash (mark_committed st) = js_last_hash st" "js_last_id (mark_committed st) = js_last_id st"
  by (simp_all add: mark_committed_def)

lemma unused_mark [simp]: "unused (mark_committed st) c = unused st c"
  by (simp add: unused_def)

lemma mark_add: "js_commits st (je_change_id e) = None \<Longrightarrow> mark_committed (add_entry e st) = add_entry e (mark_committed st)"
  by (simp add: mark_committed_def add_entry_def fun_eq_iff split: option.split)

lemma pending_add:
  assumes "well_formed st" and "je_change_id e \<notin> set (js_order st)" and "je_status e = None"
  shows "pending_view (add_entry e st) = pending_view st @ [veil e]"
    and "pending_ids (add_entry e st) = pending_ids st @ [je_change_id e]"
proof -
  have n: "js_changes st (je_change_id e) = None" using assms(1,2) by (auto simp: well_formed_def)
  have other: "entry_of (add_entry e st) c = entry_of st c" if "c \<in> set (js_order st)" for c
    using that assms(2) by (auto simp: entry_of_def add_entry_def)
  have self: "entry_of (add_entry e st) (je_change_id e) = e" by (simp add: entry_of_def add_entry_def)
  have order: "js_order (add_entry e st) = js_order st @ [je_change_id e]" using n by (simp add: add_entry_def)
  show ids: "pending_ids (add_entry e st) = pending_ids st @ [je_change_id e]"
    using assms(3) by (simp add: pending_ids_def order self other cong: filter_cong)
  have "set (pending_ids st) \<subseteq> set (js_order st)" by (auto simp: pending_ids_def)
  then have "map (veil \<circ> entry_of (add_entry e st)) (pending_ids st) = map (veil \<circ> entry_of st) (pending_ids st)"
    using other by auto
  then show "pending_view (add_entry e st) = pending_view st @ [veil e]"
    unfolding pending_view_def ids by (simp add: self)
qed

lemma pending_parse: "pending_view (parse E data) = map veil (pending E data)"
  by (simp add: pending_view_def pending_def Let_def)

lemma veil_id: "\<not> je_recovered e \<Longrightarrow> veil e = e"
  by (simp add: veil_def)

lemma good_new_entry:
  assumes "writable e" and "\<not> je_recovered e" and "je_merged e = 1" and "fresh_entry e = e"
    and "length (line_of E (change_record e)) \<le> max_line_bytes"
  shows "good_record E (change_record e)" and "applied E st (change_record e) = add_entry e st"
  using assms apply_compacted[of e E] readable_compacted[of e] change_record_compacted[of e]
  by (simp_all add: good_record_def applied_def writable_def del: readable.simps)

lemma append_reads:
  assumes "sound_tail data" and "writable e" and "\<not> je_recovered e" and "je_merged e = 1" and "fresh_entry e = e"
    and "append_records E [change_record e] data = Inr data'" and "unused (parse E data) (je_change_id e)"
  shows "same_journal (parse E data') (add_entry e (parse E data))"
proof -
  have l: "length (line_of E (change_record e)) \<le> max_line_bytes" and d: "data' = data @ payload E [change_record e] data"
    using assms(6) by (auto simp: append_records_def split: if_splits)
  note good = good_new_entry[OF assms(2-5) l]
  have "same_journal (read_bytes E data') (add_entry e (read_bytes E data))"
    using whole_write[of data "[change_record e]" E] assms(1) good unfolding d by simp
  then have "same_journal (parse E data') (mark_committed (add_entry e (read_bytes E data)))"
    unfolding parse_def by (rule same_mark)
  moreover have "mark_committed (add_entry e (read_bytes E data)) = add_entry e (parse E data)"
    using assms(7) unfolding parse_def by (intro mark_add) (simp add: unused_def mark_committed_def)
  ultimately show ?thesis by simp
qed

lemma pending_add_marked:
  assumes "well_formed st" and "je_change_id e \<notin> set (js_order st)" and "je_status e \<noteq> None"
  shows "pending_view (add_entry e st) = pending_view st"
proof -
  have n: "js_changes st (je_change_id e) = None" using assms(1,2) by (auto simp: well_formed_def)
  have other: "entry_of (add_entry e st) c = entry_of st c" if "c \<in> set (js_order st)" for c
    using that assms(2) by (auto simp: entry_of_def add_entry_def)
  have self: "entry_of (add_entry e st) (je_change_id e) = e" by (simp add: entry_of_def add_entry_def)
  have order: "js_order (add_entry e st) = js_order st @ [je_change_id e]" using n by (simp add: add_entry_def)
  have ids: "pending_ids (add_entry e st) = pending_ids st"
    using assms(3) by (simp add: pending_ids_def order self other cong: filter_cong)
  have "set (pending_ids st) \<subseteq> set (js_order st)" by (auto simp: pending_ids_def)
  then show ?thesis unfolding pending_view_def ids using other by auto
qed

lemma mark_add_marked: "js_commits st (je_change_id e) = Some ob \<Longrightarrow>
    mark_committed (add_entry e st) = add_entry (replace_status e ob) (mark_committed st)"
  by (simp add: mark_committed_def add_entry_def replace_status_def fun_eq_iff split: option.split)

text \<open>A damaged piece is one more pending change, unless a line before it has had the same digest.\<close>

lemma pending_placeholder:
  fixes E n p torn
  defines "r \<equiv> recovered_entry E n p torn"
  assumes "well_formed st"
  shows "pending_view (mark_committed (add_placeholder E st n p torn)) =
      pending_view (mark_committed st) @ (if unused st (je_change_id r) then [veil r] else [])"
    and "backup_view (mark_committed (add_placeholder E st n p torn)) = backup_view (mark_committed st)"
proof -
  let ?st = "if torn then st\<lparr>js_torn := length p\<rparr> else st\<lparr>js_corrupt := js_corrupt st + 1\<rparr>" and ?c = "je_change_id r"
  have same: "same_journal ?st st" by simp
  show "backup_view (mark_committed (add_placeholder E st n p torn)) = backup_view (mark_committed st)"
    by (simp add: backup_view_def add_placeholder_def Let_def add_entry_def)
  show "pending_view (mark_committed (add_placeholder E st n p torn)) =
      pending_view (mark_committed st) @ (if unused st ?c then [veil r] else [])"
  proof (cases "js_changes st ?c")
    case (Some e)
    then have "\<not> unused st ?c" using assms(2) by (auto simp: unused_def well_formed_def)
    moreover have "add_placeholder E st n p torn = ?st" using Some by (simp add: add_placeholder_def Let_def r_def)
    ultimately show ?thesis using same_views[OF same_mark[OF same]] by (simp del: same_extra)
  next
    case None
    have o: "?c \<notin> set (js_order (mark_committed st))" using None assms(2) by (auto simp: well_formed_def)
    have w: "well_formed (mark_committed st)" using assms(2) by (rule well_formed_mark)
    have "add_placeholder E st n p torn = add_entry r ?st" using None by (simp add: add_placeholder_def Let_def r_def)
    then have v: "pending_view (mark_committed (add_placeholder E st n p torn)) = pending_view (mark_committed (add_entry r st))"
      using same_views[OF same_mark[OF same_add_new[OF same]], of r] by (simp del: same_extra)
    show ?thesis
    proof (cases "js_commits st ?c")
      case c: None
      have "unused st ?c" using o c by (simp add: unused_def)
      moreover have "je_status r = None" by (simp add: r_def recovered_entry_def)
      ultimately show ?thesis unfolding v mark_add[OF c] by (simp add: pending_add(1)[OF w o])
    next
      case (Some ob)
      then have "\<not> unused st ?c" by (simp add: unused_def)
      moreover have "pending_view (add_entry (replace_status r ob) (mark_committed st)) = pending_view (mark_committed st)"
        using o by (intro pending_add_marked[OF w]) (simp_all add: replace_status_def)
      ultimately show ?thesis unfolding v mark_add_marked[OF Some] by simp
    qed
  qed
qed


text \<open>What the first \<open>k\<close> bytes of one record's write leave behind its changes: nothing before the line starts, the record
  once the line is whole, and in between the piece, as a recovered change.\<close>

definition piece_written :: "journal_python \<Rightarrow> obj \<Rightarrow> bytes \<Rightarrow> nat \<Rightarrow> journal_entry" where
  "piece_written E d data k = (let start = (if has_torn_tail data then 1 else 0)
     in recovered_entry E (length (fst (lines_of data)) + start + 1) (take (k - start) (line_of E d)) True)"

lemma torn_record:
  fixes k
  assumes "sound_tail data" and "good_record E d"
  defines "start \<equiv> if has_torn_tail data then 1 else 0"
  defines "torn \<equiv> data @ take k (payload E [d] data)"
  shows "same_journal (read_bytes E torn)
    (if k \<le> start then read_bytes E data
     else if length (line_of E d) + start \<le> k then applied E (read_bytes E data) d
     else add_placeholder E (read_bytes E data) (length (fst (lines_of data)) + start + 1) (take (k - start) (line_of E d)) True)"
    and "sound_tail torn"
proof -
  let ?l = "line_of E d" and ?data = "data @ (if has_torn_tail data then [10] else [])"
  note settled = read_settled[OF assms(1) refl]
  show "sound_tail torn" using torn_write[OF assms(1), of "[d]" E k] assms(2) by (auto simp: torn_def)
  have nl: "10 \<notin> set ?l" using line_of_lines[of d E] assms(2) by (auto simp: good_record_def simp del: readable.simps)
  have lines: "length (fst (lines_of ?data)) = length (fst (lines_of data)) + start"
  proof -
    obtain ls t where d: "lines_of data = (ls, t)" by force
    then show ?thesis using lines_of_newline[OF d, of "[]"] torn_tail_iff[OF d] by (auto simp: start_def)
  qed
  consider "k \<le> start" | "start < k" "k < length ?l + start" | "k = length ?l + start" "start < k" | "length ?l + start < k" by linarith
  then show "same_journal (read_bytes E torn)
    (if k \<le> start then read_bytes E data
     else if length ?l + start \<le> k then applied E (read_bytes E data) d
     else add_placeholder E (read_bytes E data) (length (fst (lines_of data)) + start + 1) (take (k - start) ?l) True)"
  proof cases
    case 1
    then have "torn = data \<or> torn = ?data" by (cases k) (auto simp: torn_def payload_def start_def split: if_splits)
    then show ?thesis using settled(1) 1 by auto
  next
    case 4
    have "length (payload E [d] data) = start + length ?l + 1" by (simp add: payload_def terminated_def start_def)
    then have "torn = data @ payload E [d] data" using 4 by (simp add: torn_def)
    then show ?thesis using whole_write[OF assms(1), of "[d]" E] assms(2) 4 by simp
  next
    case 2
    let ?p = "take (k - start) ?l"
    have split: "?l = ?p @ drop (k - start) ?l" "?p \<noteq> []" "drop (k - start) ?l \<noteq> []" using 2 by auto
    have "torn = ?data @ terminated (map (line_of E) []) @ ?p"
      using 2 by (cases k) (auto simp: torn_def payload_def terminated_def start_def)
    moreover have "10 \<notin> set ?p" using nl by (meson in_set_takeD)
    ultimately have "read_bytes E torn = read_tail E (length (fst (lines_of data)) + start + 1) ?p (read_bytes E ?data)"
      using read_after_lines(1)[OF settled(2), of "[]" E ?p] lines by simp
    moreover have "read_record E S ?p = None" for S
      using read_piece[OF _ split(1,3)] assms(2) by (simp add: good_record_def del: readable.simps)
    ultimately have "read_bytes E torn = add_placeholder E (read_bytes E ?data) (length (fst (lines_of data)) + start + 1) ?p True"
      using split(2) by (simp add: read_tail_def)
    moreover have "same_journal (add_placeholder E (read_bytes E ?data) n ?p True) (add_placeholder E (read_bytes E data) n ?p True)" for n
    proof -
      have "js_changes (read_bytes E ?data) c = None \<longleftrightarrow> js_changes (read_bytes E data) c = None" for c
        using settled(1) by (metis same_journal_def map_option_is_None)
      then show ?thesis using settled(1) by (simp add: add_placeholder_def Let_def same_add_new)
    qed
    ultimately show ?thesis using 2 by simp
  next
    case 3
    have "torn = ?data @ terminated (map (line_of E) []) @ ?l"
      using 3 by (cases k) (auto simp: torn_def payload_def terminated_def start_def)
    then have "read_bytes E torn = read_tail E (length (fst (lines_of data)) + start + 1) ?l (read_bytes E ?data)"
      using read_after_lines(1)[OF settled(2), of "[]" E ?l] lines nl by simp
    moreover obtain S' where S: "apply_record E (read_bytes E ?data) (stable_obj d) = Some S'" using assms(2) by (auto simp: good_record_def)
    then have "read_record E (read_bytes E ?data) ?l = Some (applied E (read_bytes E ?data) d)"
      using assms(2) read_record_line[of d E] by (simp add: good_record_def applied_def del: readable.simps)
    ultimately have "same_journal (read_bytes E torn) (applied E (read_bytes E data) d)"
      using 3 same_applied[OF settled(1) assms(2)] by (simp add: read_tail_def)
    then show ?thesis using 3 by simp
  qed
qed

definition left_by_crash :: "journal_python \<Rightarrow> journal_entry \<Rightarrow> bytes \<Rightarrow> nat \<Rightarrow> journal_entry list" where
  "left_by_crash E e data k =
     (let start = (if has_torn_tail data then 1 else 0); r = piece_written E (change_record e) data k
      in if k \<le> start then []
         else if length (line_of E (change_record e)) + start \<le> k then [e]
         else if unused (parse E data) (je_change_id r) then [veil r] else [])"

lemma torn_append_reads:
  fixes k
  assumes "sound_tail data" and "writable e" and "\<not> je_recovered e" and "je_merged e = 1" and "fresh_entry e = e"
    and "append_records E [change_record e] data = Inr data'" and "unused (parse E data) (je_change_id e)"
  defines "torn \<equiv> data @ take k (payload E [change_record e] data)"
  shows "pending_view (parse E torn) = pending_view (parse E data) @ left_by_crash E e data k"
    and "backup_view (parse E torn) = backup_view (parse E data)"
    and "sound_tail torn"
proof -
  let ?d = "change_record e" and ?S = "read_bytes E data" and ?start = "if has_torn_tail data then 1 else 0 :: nat"
  let ?n = "length (fst (lines_of data)) + ?start + 1" and ?p = "take (k - ?start) (line_of E (change_record e))"
  have l: "length (line_of E ?d) \<le> max_line_bytes" using assms(6) by (auto simp: append_records_def split: if_splits)
  note good = good_new_entry[OF assms(2-5) l]
  note reads = torn_record[OF assms(1) good(1), where k = k, folded torn_def]
  show "sound_tail torn" by (rule reads(2))
  have u: "js_commits ?S (je_change_id e) = None" using assms(7) by (simp add: parse_def unused_def)
  have "je_status e = je_status (fresh_entry e)" using assms(5) by simp
  then have status: "je_status e = None" by (simp add: fresh_entry_def)
  have add: "pending_view (mark_committed (add_entry e ?S)) = pending_view (parse E data) @ [e]"
      "backup_view (mark_committed (add_entry e ?S)) = backup_view (parse E data)"
    using pending_add(1)[OF well_formed_parse _ status, of E data] assms(3,7) mark_add[OF u]
    by (simp_all add: unused_def veil_id parse_def backup_view_def add_entry_def)
  note place = pending_placeholder[OF well_formed_read[of E data], of E ?n ?p True, folded parse_def]
  have views: "pending_view (parse E torn) = pending_view (mark_committed T) \<and> backup_view (parse E torn) = backup_view (mark_committed T)"
    if "same_journal (read_bytes E torn) T" for T
    using same_views[OF same_mark[OF that]] by (simp add: parse_def)
  consider "k \<le> ?start" | "?start < k" "length (line_of E ?d) + ?start \<le> k" | "?start < k" "\<not> length (line_of E ?d) + ?start \<le> k" by linarith
  then have "pending_view (parse E torn) = pending_view (parse E data) @ left_by_crash E e data k \<and>
      backup_view (parse E torn) = backup_view (parse E data)"
  proof cases
    case 1
    then show ?thesis using views reads(1) by (simp add: left_by_crash_def parse_def)
  next
    case 2
    then show ?thesis using views[of "add_entry e ?S"] reads(1) add good(2)[of ?S] by (simp add: left_by_crash_def)
  next
    case 3
    then have "same_journal (read_bytes E torn) (add_placeholder E ?S ?n ?p True)" using reads(1) by simp
    from views[OF this] show ?thesis
      using 3 place unfolding left_by_crash_def piece_written_def Let_def by (simp add: parse_def del: mark_fields)
  qed
  then show "pending_view (parse E torn) = pending_view (parse E data) @ left_by_crash E e data k"
    and "backup_view (parse E torn) = backup_view (parse E data)" by simp_all
qed

subsection \<open>A commit marks its changes and no others\<close>

text \<open>An entry is pending until a commit names it.\<close>

definition unmarked :: "journal_state \<Rightarrow> bool" where
  "unmarked st \<longleftrightarrow> (\<forall>c e. js_changes st c = Some e \<longrightarrow> je_status e = None \<and> je_backup_id e = None)"

lemma unmarked_add: "unmarked st \<Longrightarrow> je_status e = None \<Longrightarrow> je_backup_id e = None \<Longrightarrow> unmarked (add_entry e st)"
  by (auto simp: unmarked_def add_entry_def)

lemma read_change_pending: "read_change E d = Some e \<Longrightarrow> je_status e = None \<and> je_backup_id e = None"
  by (auto simp: read_change_def Option.bind_eq_Some_conv split: if_splits)

lemma unmarked_extra [simp]: "unmarked (st\<lparr>js_torn := n\<rparr>) = unmarked st" "unmarked (st\<lparr>js_corrupt := n\<rparr>) = unmarked st"
  by (simp_all add: unmarked_def)

lemma unmarked_placeholder: "unmarked st \<Longrightarrow> unmarked (add_placeholder E st n raw torn)"
  by (auto simp: add_placeholder_def Let_def recovered_entry_def intro!: unmarked_add)

lemma unmarked_record: "unmarked st \<Longrightarrow> read_record E st raw = Some st' \<Longrightarrow> unmarked st'"
proof -
  assume u: "unmarked st" and "read_record E st raw = Some st'"
  then obtain d where "apply_record E st d = Some st'" by (auto simp: read_record_def split: option.splits json.splits)
  then show "unmarked st'"
  proof (cases rule: apply_recordE)
    case (change e)
    then show ?thesis using u read_change_pending by (auto intro!: unmarked_add)
  qed (use u in \<open>auto simp: unmarked_def Let_def\<close>)
qed

lemma unmarked_lines: "unmarked st \<Longrightarrow> unmarked (read_lines E n ls st)"
  by (induction E n ls st rule: read_lines.induct)
    (auto simp: read_line_def unmarked_placeholder split: option.splits dest: unmarked_record)

lemma unmarked_read: "unmarked (read_bytes E data)"
proof -
  have "unmarked new_state" by (simp add: unmarked_def new_state_def)
  then have u: "unmarked (read_lines E n ls new_state)" for n ls by (rule unmarked_lines)
  show ?thesis
    by (auto simp: read_bytes_def read_tail_def u unmarked_placeholder split: prod.split option.split dest: unmarked_record[OF u])
qed

lemma mark_entry:
  assumes "c \<in> set (js_order st)" and "well_formed st" and "unmarked st"
  shows "je_status (entry_of (mark_committed st) c) = map_option fst (js_commits st c)"
    and "je_backup_id (entry_of (mark_committed st) c) = Option.bind (js_commits st c) snd"
proof -
  obtain e where e: "js_changes st c = Some e" using assms(1,2) by (auto simp: well_formed_def)
  then have "je_status e = None" "je_backup_id e = None" using assms(3) by (auto simp: unmarked_def)
  then show "je_status (entry_of (mark_committed st) c) = map_option fst (js_commits st c)"
    "je_backup_id (entry_of (mark_committed st) c) = Option.bind (js_commits st c) snd"
    using e by (auto simp: entry_of_def mark_committed_def replace_status_def split: option.split)
qed

lemma mark_pending_ids:
  "well_formed st \<Longrightarrow> unmarked st \<Longrightarrow> pending_ids (mark_committed st) = filter (\<lambda>c. js_commits st c = None) (js_order st)"
  by (simp add: pending_ids_def mark_entry cong: filter_cong)

lemma pending_ids_parse: "pending_ids (parse E data) = filter (\<lambda>c. js_commits (parse E data) c = None) (js_order (parse E data))"
  unfolding parse_def by (simp add: mark_pending_ids well_formed_read unmarked_read)

lemma entry_parse:
  assumes "c \<in> set (js_order (parse E data))"
  shows "je_status (entry_of (parse E data) c) = map_option fst (js_commits (parse E data) c)"
    and "je_backup_id (entry_of (parse E data) c) = Option.bind (js_commits (parse E data) c) snd"
  using mark_entry[of c "read_bytes E data"] assms by (simp_all add: parse_def well_formed_read unmarked_read)

declare chunks.simps [simp del]

lemma concat_chunks: "concat (chunks n xs) = xs" and chunks_not_Nil: "chunks n xs \<noteq> []"
  by (induction n xs rule: chunks.induct) (subst chunks.simps, simp)+

lemma get_commit_record:
  "get (commit_record at ids oc b h) ''type'' = Some (JStr (codes ''commit''))"
  "get (commit_record at ids oc b h) ''change_ids'' = Some (JList (map JStr ids))"
  "get (commit_record at ids oc b h) ''outcome'' = Some (JStr (outcome_text oc))"
  "get (commit_record at ids oc b h) ''backup_id'' = Some (opt_json b)"
  "get (commit_record at ids oc b h) ''config_hash'' = Some (opt_json h)"
  by (simp_all add: get_def commit_record_def)

lemma distinct_commit_record: "distinct (map fst (commit_record at ids oc b h))"
  by (simp add: commit_record_def)

lemma readable_commit_record:
  assumes "commit_guard oc b h" and "\<forall>c\<in>set ids. spelled c"
  shows "readable (JObj (commit_record at ids oc b h))"
proof -
  have "readable (opt_json h)" using assms(1) by (simp add: commit_guard_def readable_opt_json)
  moreover have "readable (opt_json b)"
    using assms(1) by (auto simp: commit_guard_def opt_json_def backup_id_spelled split: commit_outcome.splits option.splits)
  moreover have "spelled (outcome_text oc)" by (cases oc) (simp_all add: outcome_text_def)
  ultimately have "list_all (\<lambda>(k, v). spelled k \<and> readable v) (commit_record at ids oc b h)"
    using assms(2) by (simp add: commit_record_def list_all_iff)
  then show ?thesis using distinct_commit_record[of at ids oc b h] by simp
qed

lemma as_outcome_text [simp]: "as_outcome (JStr (outcome_text oc)) = Some oc"
  by (cases oc) (simp_all add: as_outcome_def outcome_text_def)

lemma commit_of_stable:
  assumes "commit_guard oc b h"
  shows "commit_of (stable_obj (commit_record at ids oc b h)) = Some (oc, map JStr ids, h, b)"
proof -
  have "validate_hash (opt_json h) = Some h" using assms by (simp add: commit_guard_def validate_opt_json)
  then show ?thesis
    using assms
    by (cases oc; cases b) (simp_all add: commit_of_def get_stable_obj get_or_def distinct_commit_record get_commit_record commit_guard_def
        as_items_def as_text_def opt_json_def[of "Some _"] o_def)
qed

definition committed_state :: "obj \<Rightarrow> utext list \<Rightarrow> commit_outcome \<Rightarrow> utext option \<Rightarrow> utext option \<Rightarrow> journal_state \<Rightarrow> journal_state" where
  "committed_state d ids oc b h st =
     (let s = st\<lparr>js_commits := (\<lambda>c. if c \<in> set ids then Some (oc, b) else js_commits st c), js_commit_records := js_commit_records st @ [d]\<rparr>
      in if oc = Backup then s\<lparr>js_last_hash := h, js_last_id := b\<rparr> else s)"

lemma committed_state_fields [simp]:
  "js_order (committed_state d ids oc b h st) = js_order st" "js_changes (committed_state d ids oc b h st) = js_changes st"
  "js_commits (committed_state d ids oc b h st) = (\<lambda>c. if c \<in> set ids then Some (oc, b) else js_commits st c)"
  "backup_view (committed_state d ids oc b h st) = (if oc = Backup then (h, b) else backup_view st)"
  by (simp_all add: committed_state_def Let_def backup_view_def)

lemma apply_commit_record:
  assumes "commit_guard oc b h"
  shows "apply_record E st (stable_obj (commit_record at ids oc b h)) =
    Some (committed_state (stable_obj (commit_record at ids oc b h)) ids oc b h st)"
proof -
  have "note_commit oc b (map JStr ids) m = (\<lambda>c. if c \<in> set ids then Some (oc, b) else m c)" for m
    by (auto simp: note_commit_def fun_eq_iff)
  then show ?thesis
    using commit_of_stable[OF assms, of at ids]
    by (simp add: apply_record_def kind_is_def get_stable_obj distinct_commit_record get_commit_record committed_state_def)
qed

abbreviation commit_all :: "journal_python \<Rightarrow> date_time \<Rightarrow> commit_outcome \<Rightarrow> utext option \<Rightarrow> utext option \<Rightarrow> journal_state \<Rightarrow> utext list list \<Rightarrow>
    journal_state" where
  "commit_all E at oc b h st cs \<equiv> foldl (applied E) st (map (\<lambda>c. commit_record at c oc b h) cs)"

lemma commit_records_state:
  assumes "commit_guard oc b h"
  shows "js_order (commit_all E at oc b h st cs) = js_order st"
    "js_changes (commit_all E at oc b h st cs) = js_changes st"
    "js_commits (commit_all E at oc b h st cs) = (\<lambda>c. if c \<in> set (concat cs) then Some (oc, b) else js_commits st c)"
    "backup_view (commit_all E at oc b h st cs) = (if oc = Backup \<and> cs \<noteq> [] then (h, b) else backup_view st)"
proof (induction cs arbitrary: st)
  case (Cons c cs)
  have s: "applied E st (commit_record at c oc b h) = committed_state (stable_obj (commit_record at c oc b h)) c oc b h st" for st
    by (simp add: applied_def apply_commit_record[OF assms(1)])
  { case 1 show ?case by (simp add: s Cons(1)) }
  { case 2 show ?case by (simp add: s Cons(2)) }
  { case 3 show ?case by (auto simp: s Cons(3) fun_eq_iff) }
  { case 4 show ?case by (auto simp: s Cons(4)) }
qed auto

lemma commit_good:
  assumes "commit_guard oc b h" and "\<forall>c\<in>set ids. spelled c"
    and "append_records E (map (\<lambda>c. commit_record at c oc b h) (chunks n ids)) data = Inr data'"
  shows "\<forall>d\<in>set (map (\<lambda>c. commit_record at c oc b h) (chunks n ids)). good_record E d"
    and "data' = data @ payload E (map (\<lambda>c. commit_record at c oc b h) (chunks n ids)) data"
proof -
  have "\<forall>c\<in>set cs. spelled c" if "cs \<in> set (chunks n ids)" for cs
    using assms(2) concat_chunks[of n ids] that by (metis UN_I set_concat)
  moreover have "\<forall>d\<in>set (map (\<lambda>c. commit_record at c oc b h) (chunks n ids)). length (line_of E d) \<le> max_line_bytes"
    using assms(3) by (auto simp: append_records_def list_ex_iff split: if_splits)
  ultimately show "\<forall>d\<in>set (map (\<lambda>c. commit_record at c oc b h) (chunks n ids)). good_record E d"
    using apply_commit_record[OF assms(1)] readable_commit_record[OF assms(1)] by (auto simp: good_record_def simp del: readable.simps)
  show "data' = data @ payload E (map (\<lambda>c. commit_record at c oc b h) (chunks n ids)) data"
    using assms(3) by (auto simp: append_records_def split: if_splits)
qed

lemma same_mark_fields:
  assumes "same_journal (read_bytes E data) S"
  shows "js_order (parse E data) = js_order S" "js_commits (parse E data) = js_commits S"
    "backup_view (parse E data) = backup_view S"
  using assms by (simp_all add: parse_def same_journal_def backup_view_def)

lemma parse_fields:
  "js_order (parse E data) = js_order (read_bytes E data)" "js_commits (parse E data) = js_commits (read_bytes E data)"
  "backup_view (parse E data) = backup_view (read_bytes E data)" "js_commit_records (parse E data) = js_commit_records (read_bytes E data)"
  by (simp_all add: parse_def backup_view_def)

lemma commit_reads:
  assumes "sound_tail data" and "commit_guard oc b h" and "\<forall>c\<in>set ids. spelled c"
    and "append_records E (map (\<lambda>c. commit_record at c oc b h) (chunks n ids)) data = Inr data'"
  shows "js_order (parse E data') = js_order (parse E data)"
    and "js_commits (parse E data') = (\<lambda>c. if c \<in> set ids then Some (oc, b) else js_commits (parse E data) c)"
    and "backup_view (parse E data') = (if oc = Backup then (h, b) else backup_view (parse E data))"
proof -
  let ?S = "read_bytes E data" and ?cs = "chunks n ids"
  note good = commit_good[OF assms(2-4)]
  note same = same_mark_fields[OF whole_write[OF assms(1) good(1), folded good(2)]]
  note state = commit_records_state[OF assms(2), where E = E and at = at and st = ?S and cs = ?cs]
  show "js_order (parse E data') = js_order (parse E data)"
    unfolding same(1) state(1) unfolding parse_fields ..
  have "set (concat ?cs) = set ids" by (simp only: concat_chunks)
  then show "js_commits (parse E data') = (\<lambda>c. if c \<in> set ids then Some (oc, b) else js_commits (parse E data) c)"
    unfolding same(2) state(3) unfolding parse_fields by (simp only:)
  show "backup_view (parse E data') = (if oc = Backup then (h, b) else backup_view (parse E data))"
    unfolding same(3) state(4) unfolding parse_fields by (simp add: chunks_not_Nil)
qed

lemma torn_commit_reads:
  assumes "sound_tail data" and "commit_guard oc b h" and "\<forall>c\<in>set ids. spelled c"
    and "append_records E (map (\<lambda>c. commit_record at c oc b h) (chunks n ids)) data = Inr data'"
    and torn: "torn = data @ take k (payload E (map (\<lambda>c. commit_record at c oc b h) (chunks n ids)) data)"
  shows "\<exists>marked more. set marked \<subseteq> set ids \<and> (more = [] \<or> (\<exists>n p. more = [codes ''chg_recovered_'' @ jp_sha24 E n p])) \<and>
      pending_ids (parse E torn) = filter (\<lambda>c. c \<notin> set marked) (pending_ids (parse E data)) @ more \<and>
      backup_view (parse E torn) \<in> {backup_view (parse E data), if oc = Backup then (h, b) else backup_view (parse E data)}"
    and "sound_tail torn"
    and "js_commits (parse E torn) c = Some ob \<Longrightarrow> c \<in> set ids \<and> ob = (oc, b) \<or> js_commits (parse E data) c = Some ob"
proof -
  let ?S = "read_bytes E data" and ?ds = "map (\<lambda>c. commit_record at c oc b h) (chunks n ids)"
  note good = commit_good[OF assms(2-4)]
  obtain j m p where j: "j \<le> length ?ds" "p = [] \<or> j < length ?ds \<and> (\<exists>q. line_of E (?ds ! j) = p @ q)"
    and s: "same_journal (read_bytes E torn) (if p = [] then foldl (applied E) ?S (take j ?ds)
         else add_placeholder E (foldl (applied E) ?S (take j ?ds)) m p True)"
    and sound: "sound_tail torn"
    by (rule torn_write[OF assms(1) good(1), where k = k, folded torn]) (rule that)
  show "sound_tail torn" by (rule sound)
  let ?cs = "take j (chunks n ids)" and ?r = "recovered_entry E m p True"
  let ?marked = "concat ?cs"
  let ?T = "commit_all E at oc b h ?S ?cs"
  note state = commit_records_state[OF assms(2), where E = E and at = at and st = ?S and cs = ?cs]
  have T: "foldl (applied E) ?S (take j ?ds) = ?T" by (simp add: take_map)
  have "set ?marked \<subseteq> set (concat (chunks n ids))" by (auto dest: in_set_takeD)
  then have done_sub: "set ?marked \<subseteq> set ids" by (simp only: concat_chunks)
  have r: "je_change_id ?r = codes ''chg_recovered_'' @ jp_sha24 E m p" by (simp add: recovered_entry_def)
  have "js_changes ?T (je_change_id ?r) = None \<longleftrightarrow> je_change_id ?r \<notin> set (js_order ?S)"
    using well_formed_read[of E data] unfolding state(2) by (auto simp: well_formed_def)
  then have place: "js_order (add_placeholder E ?T m p True) = js_order ?S @ (if je_change_id ?r \<in> set (js_order ?S) then [] else [je_change_id ?r])"
    "js_commits (add_placeholder E ?T m p True) = js_commits ?T" "backup_view (add_placeholder E ?T m p True) = backup_view ?T"
    by (auto simp: add_placeholder_def Let_def add_entry_def state(1) backup_view_def)
  note same = same_mark_fields[OF s[unfolded T]]
  define placed where "placed = (if p = [] \<or> je_change_id ?r \<in> set (js_order ?S) then [] else [je_change_id ?r])"
  define more where "more = filter (\<lambda>c. js_commits ?T c = None) placed"
  have order: "js_order (parse E torn) = js_order ?S @ placed"
    unfolding same(1) by (simp add: placed_def state(1) place(1))
  have commits: "js_commits (parse E torn) = js_commits ?T" unfolding same(2) by (simp add: place(2))
  show "js_commits (parse E torn) c = Some ob \<Longrightarrow> c \<in> set ids \<and> ob = (oc, b) \<or> js_commits (parse E data) c = Some ob"
    using done_sub unfolding commits state(3) unfolding parse_fields by (auto split: if_splits)
  have "pending_ids (parse E torn) = filter (\<lambda>c. c \<notin> set ?marked) (pending_ids (parse E data)) @ more"
  proof -
    have "filter (\<lambda>c. js_commits ?T c = None) (js_order ?S) =
        filter (\<lambda>c. c \<notin> set ?marked) (filter (\<lambda>c. js_commits ?S c = None) (js_order ?S))"
      unfolding filter_filter state(3) by (rule filter_cong) auto
    then show ?thesis
      unfolding pending_ids_parse order commits filter_append more_def unfolding parse_fields by simp
  qed
  moreover have "backup_view (parse E torn) \<in> {backup_view (parse E data), if oc = Backup then (h, b) else backup_view (parse E data)}"
  proof -
    have "backup_view (parse E torn) = backup_view ?T" unfolding same(3) by (cases "p = []") (simp_all add: place(3))
    then show ?thesis unfolding state(4) parse_fields(3) by (cases "oc = Backup \<and> ?cs \<noteq> []") auto
  qed
  ultimately show "\<exists>marked more. set marked \<subseteq> set ids \<and> (more = [] \<or> (\<exists>n p. more = [codes ''chg_recovered_'' @ jp_sha24 E n p])) \<and>
      pending_ids (parse E torn) = filter (\<lambda>c. c \<notin> set marked) (pending_ids (parse E data)) @ more \<and>
      backup_view (parse E torn) \<in> {backup_view (parse E data), if oc = Backup then (h, b) else backup_view (parse E data)}"
    using done_sub by (intro exI[of _ ?marked] exI[of _ more] conjI) (auto simp: more_def placed_def r)
qed

subsection \<open>Compaction\<close>

lemma applied_fields:
  assumes "entry_ok e"
  shows "applied E st (compacted_record e) = add_entry (fresh_entry e) st"
  by (simp add: applied_def apply_compacted[OF assms])

lemma read_changes:
  assumes "\<forall>e\<in>set es. entry_ok e" and "distinct (map je_change_id es)" and "je_change_id ` set es \<inter> dom (js_changes st) = {}"
  shows "foldl (applied E) st (map compacted_record es) =
    st\<lparr>js_order := js_order st @ map je_change_id es,
       js_changes := js_changes st ++ map_of (map (\<lambda>e. (je_change_id e, fresh_entry e)) es)\<rparr>"
  using assms
proof (induction es arbitrary: st)
  case (Cons e es)
  have e: "je_change_id (fresh_entry e) = je_change_id e" by (simp add: fresh_entry_def)
  have n: "js_changes st (je_change_id e) = None" using Cons.prems(3) by auto
  have "foldl (applied E) (add_entry (fresh_entry e) st) (map compacted_record es) =
    (add_entry (fresh_entry e) st)\<lparr>js_order := js_order (add_entry (fresh_entry e) st) @ map je_change_id es,
       js_changes := js_changes (add_entry (fresh_entry e) st) ++ map_of (map (\<lambda>e. (je_change_id e, fresh_entry e)) es)\<rparr>"
  proof (rule Cons.IH)
    have "e' \<in> set es \<Longrightarrow> je_change_id e' \<noteq> je_change_id e" for e'
      using Cons.prems(2) by (metis distinct.simps(2) imageI list.simps(9) set_map)
    then show "je_change_id ` set es \<inter> dom (js_changes (add_entry (fresh_entry e) st)) = {}"
      using Cons.prems(3) by (fastforce simp: add_entry_def e split: if_splits)
  qed (use Cons.prems in auto)
  moreover have "map_of (map (\<lambda>e. (je_change_id e, fresh_entry e)) es) (je_change_id e) = None"
    using Cons.prems(2) by (auto simp: map_of_eq_None_iff)
  ultimately show ?case
    using Cons.prems(1) n by (auto simp: applied_fields add_entry_def e map_add_def fun_eq_iff split: option.split)
qed (simp add: map_add_def)

lemma with_ids_get: "get (with_ids d ids) x = (if x = ''change_ids'' then Some (JList (map JStr ids)) else get d x)"
  by (simp add: with_ids_def get_obj_set)

lemma as_items_iff: "as_items v = Some vs \<longleftrightarrow> v = JList vs"
  by (simp add: as_items_def split: json.split)

lemma as_text_iff: "as_text v = Some s \<longleftrightarrow> v = JStr s"
  by (simp add: as_text_def split: json.split)

lemma not_backup [simp]: "oc \<noteq> Backup \<longleftrightarrow> oc = Noop" "oc \<noteq> Noop \<longleftrightarrow> oc = Backup"
  by (cases oc; simp)+

lemma commit_of_iff:
  "commit_of d = Some (oc, ids, h, b) \<longleftrightarrow>
     (\<exists>v w. get d ''outcome'' = Some v \<and> as_outcome v = Some oc \<and> get d ''change_ids'' = Some (JList ids) \<and>
        get d ''config_hash'' = Some w \<and> validate_hash w = Some h \<and>
        (oc = Noop \<and> b = None \<or> oc = Backup \<and> (\<exists>s. get d ''backup_id'' = Some (JStr s) \<and> backup_id_ok s \<and> b = Some s)))"
  by (cases oc; cases "get d ''backup_id''")
    (auto simp: commit_of_def Option.bind_eq_Some_conv as_items_iff as_text_iff get_or_def split: commit_outcome.splits if_splits)

lemma commit_ids_of: "commit_of d = Some (oc, ids, h, b) \<Longrightarrow> commit_ids d = ids \<and> get d ''change_ids'' = Some (JList ids)"
  by (auto simp: commit_of_iff commit_ids_def get_or_def)

lemma keys_with_ids: "commit_of d \<noteq> None \<Longrightarrow> map fst (with_ids d ids) = map fst d"
proof -
  assume "commit_of d \<noteq> None"
  then have "get d ''change_ids'' \<noteq> None" using commit_ids_of by fastforce
  then have "codes ''change_ids'' \<in> fst ` set d" by (metis get_def map_of_eq_None_iff)
  then show ?thesis by (simp add: with_ids_def keys_obj_set)
qed

lemma obj_set_values: "(k', v) \<in> set (obj_set d k w) \<Longrightarrow> (k', v) \<in> set d \<or> k' = k \<and> v = w"
  by (induction d k w rule: obj_set.induct) (auto split: if_splits)

lemma readable_with_ids:
  assumes "readable (JObj d)" and "commit_of d \<noteq> None" and "\<forall>c\<in>set ids. spelled c"
  shows "readable (JObj (with_ids d ids))"
proof -
  have "distinct (map fst (with_ids d ids))" using assms(1) keys_with_ids[OF assms(2)] by simp
  moreover have "spelled k \<and> readable v" if "(k, v) \<in> set (with_ids d ids)" for k v
    using obj_set_values[of k v d] that assms(1,3) by (fastforce simp: with_ids_def list_all_iff)
  ultimately show ?thesis by (auto simp: list_all_iff)
qed

lemma commit_of_with_ids:
  assumes "commit_of d = Some (oc, vs, h, b)" and "distinct (map fst d)"
  shows "commit_of (stable_obj (with_ids d ids)) = Some (oc, map JStr ids, h, b)"
proof -
  have k: "distinct (map fst (with_ids d ids))" using assms keys_with_ids[of d ids] by simp
  have g: "get (stable_obj (with_ids d ids)) x = map_option sort_keys (get (with_ids d ids) x)" for x
    by (rule get_stable_obj[OF k])
  have "as_outcome (sort_keys v) = as_outcome v" "validate_hash (sort_keys v) = validate_hash v" for v
    by (cases v; simp add: as_outcome_def validate_hash_def)+
  then show ?thesis
    using assms(1) by (auto simp: commit_of_iff g with_ids_get o_def)
qed

definition note_all :: "obj list \<Rightarrow> (utext \<Rightarrow> (commit_outcome \<times> utext option) option) \<Rightarrow> utext \<Rightarrow> (commit_outcome \<times> utext option) option" where
  "note_all ds m = foldl (\<lambda>m d. case commit_of d of None \<Rightarrow> m | Some (oc, ids, h, b) \<Rightarrow> note_commit oc b ids m) m ds"

lemma note_all_at: "m c = m' c \<Longrightarrow> note_all ds m c = note_all ds m' c"
proof (induction ds arbitrary: m m')
  case (Cons d ds)
  let ?f = "\<lambda>m. case commit_of d of None \<Rightarrow> m | Some (oc, ids, h, b) \<Rightarrow> note_commit oc b ids m"
  have "?f m c = ?f m' c" using Cons.prems by (auto simp: note_commit_def split: option.split)
  then have "note_all ds (?f m) c = note_all ds (?f m') c" by (rule Cons.IH)
  then show ?case by (simp add: note_all_def)
qed (simp add: note_all_def)

definition clean_commit :: "obj \<Rightarrow> bool" where
  "clean_commit d \<longleftrightarrow> kind_is d ''commit'' \<and> commit_of d \<noteq> None \<and> readable (JObj d)"

lemma apply_kept_commit:
  assumes "clean_commit d" and "commit_of d = Some (oc, vs, h, b)" and "\<forall>c\<in>set ids. spelled c"
  shows "apply_record E st (stable_obj (with_ids d ids)) = Some (committed_state (stable_obj (with_ids d ids)) ids oc b h st)"
    and "readable (JObj (with_ids d ids))"
proof -
  have d: "distinct (map fst d)" using assms(1) by (simp add: clean_commit_def)
  have k: "distinct (map fst (with_ids d ids))" using d keys_with_ids[of d ids] assms(2) by simp
  have "note_commit oc b (map JStr ids) m = (\<lambda>c. if c \<in> set ids then Some (oc, b) else m c)" for m
    by (auto simp: note_commit_def fun_eq_iff)
  then show "apply_record E st (stable_obj (with_ids d ids)) = Some (committed_state (stable_obj (with_ids d ids)) ids oc b h st)"
    using assms(1) commit_of_with_ids[OF assms(2) d, of ids]
    by (simp add: apply_record_def kind_is_def get_stable_obj[OF k] with_ids_get clean_commit_def committed_state_def)
  show "readable (JObj (with_ids d ids))"
    using assms by (intro readable_with_ids) (simp_all add: clean_commit_def)
qed

definition kept_ids :: "utext list \<Rightarrow> obj \<Rightarrow> utext list" where
  "kept_ids kept d = List.map_filter as_text (filter (\<lambda>v. v \<in> JStr ` set kept) (commit_ids d))"

lemma set_kept_ids: "commit_of d = Some (oc, vs, h, b) \<Longrightarrow> set (kept_ids kept d) = {c \<in> set kept. JStr c \<in> set vs}"
  using commit_ids_of[of d oc vs h b]
  by (auto simp: kept_ids_def List.map_filter_def as_text_iff) (force simp: as_text_def)+

lemma kept_commits_simps:
  "kept_commits kept [] = []"
  "kept_commits kept (d # ds) = (if kept_ids kept d = [] then [] else [with_ids d (kept_ids kept d)]) @ kept_commits kept ds"
  by (simp_all add: kept_commits_def kept_ids_def List.map_filter_def)

lemma read_kept_commits:
  assumes "\<forall>c\<in>set kept. spelled c"
  shows "\<forall>d\<in>set ds. clean_commit d \<Longrightarrow>
    (\<forall>d\<in>set (kept_commits kept ds). readable (JObj d) \<and> (\<forall>st. apply_record E st (stable_obj d) \<noteq> None)) \<and>
    (\<exists>ds'. foldl (applied E) st (kept_commits kept ds) =
       st\<lparr>js_commits := (\<lambda>c. if c \<in> set kept then note_all ds (js_commits st) c else js_commits st c),
          js_commit_records := ds', js_last_hash := js_last_hash (foldl (applied E) st (kept_commits kept ds)),
          js_last_id := js_last_id (foldl (applied E) st (kept_commits kept ds))\<rparr>)"
proof (induction ds arbitrary: st)
  case Nil
  then show ?case
    by (simp add: kept_commits_simps note_all_def cong: if_cong) (intro exI[of _ "js_commit_records st"], simp)
next
  case (Cons d ds)
  then have d: "clean_commit d" by simp
  then obtain oc vs h b where c: "commit_of d = Some (oc, vs, h, b)" by (auto simp: clean_commit_def)
  let ?k = "kept_ids kept d"
  have k: "set ?k = {c \<in> set kept. JStr c \<in> set vs}" by (rule set_kept_ids[OF c])
  then have sp: "\<forall>c\<in>set ?k. spelled c" using assms by simp
  note a = apply_kept_commit[OF d c sp]
  define s where "s = (if ?k = [] then st else committed_state (stable_obj (with_ids d ?k)) ?k oc b h st)"
  have fold: "foldl (applied E) st (kept_commits kept (d # ds)) = foldl (applied E) s (kept_commits kept ds)"
    by (simp add: kept_commits_simps s_def applied_def a(1))
  have commits: "js_commits s = (\<lambda>c. if c \<in> set kept \<and> JStr c \<in> set vs then Some (oc, b) else js_commits st c)"
    using k by (auto simp: s_def fun_eq_iff)
  have same: "s\<lparr>js_commits := m, js_commit_records := rs, js_last_hash := h, js_last_id := b\<rparr> =
      st\<lparr>js_commits := m, js_commit_records := rs, js_last_hash := h, js_last_id := b\<rparr>" for m rs h b
    by (simp add: s_def committed_state_def Let_def)
  have at_kept: "(\<lambda>c. if c \<in> set kept then note_all ds (js_commits s) c else js_commits s c) =
      (\<lambda>c. if c \<in> set kept then note_all (d # ds) (js_commits st) c else js_commits st c)"
  proof
    fix c'
    have "note_all (d # ds) (js_commits st) = note_all ds (note_commit oc b vs (js_commits st))" by (simp add: note_all_def c)
    then have "note_all ds (js_commits s) c' = note_all (d # ds) (js_commits st) c'" if "c' \<in> set kept"
      using that by (auto simp: commits note_commit_def intro: note_all_at)
    then show "(if c' \<in> set kept then note_all ds (js_commits s) c' else js_commits s c') =
        (if c' \<in> set kept then note_all (d # ds) (js_commits st) c' else js_commits st c')"
      by (simp add: commits)
  qed
  have IH: "\<forall>d\<in>set (kept_commits kept ds). readable (JObj d) \<and> (\<forall>st. apply_record E st (stable_obj d) \<noteq> None)"
    "\<exists>ds'. foldl (applied E) s (kept_commits kept ds) =
       s\<lparr>js_commits := (\<lambda>c. if c \<in> set kept then note_all ds (js_commits s) c else js_commits s c),
          js_commit_records := ds', js_last_hash := js_last_hash (foldl (applied E) s (kept_commits kept ds)),
          js_last_id := js_last_id (foldl (applied E) s (kept_commits kept ds))\<rparr>"
    using Cons.IH[of s] Cons.prems by simp_all
  have "\<forall>d\<in>set (kept_commits kept (d # ds)). readable (JObj d) \<and> (\<forall>st. apply_record E st (stable_obj d) \<noteq> None)"
    using IH(1) a unfolding kept_commits_simps by (simp del: readable.simps)
  then show ?case using IH(2) unfolding fold at_kept same by blast
qed

lemma readable_checkpoint: "hash_ok h \<Longrightarrow> (case b of None \<Rightarrow> True | Some s \<Rightarrow> spelled s) \<Longrightarrow> readable (JObj (checkpoint_record now h b))"
  using readable_opt_json[of h] by (auto simp: checkpoint_record_def opt_json_def split: option.splits)

lemma apply_checkpoint:
  assumes "hash_ok h"
  shows "apply_record E st (stable_obj (checkpoint_record now h b)) = Some (st\<lparr>js_last_hash := h, js_last_id := b\<rparr>)"
proof -
  let ?d = "checkpoint_record now h b"
  have k: "distinct (map fst ?d)" by (simp add: checkpoint_record_def)
  have g: "get ?d ''type'' = Some (JStr (codes ''checkpoint''))" "get ?d ''last_backup_hash'' = Some (opt_json h)" "get ?d ''last_backup_id'' = Some (opt_json b)"
    by (simp_all add: get_def checkpoint_record_def)
  have "as_text (opt_json b) = b" by (simp add: as_text_def opt_json_def split: option.split)
  then show ?thesis
    using validate_opt_json[OF assms] by (simp add: apply_record_def kind_is_def get_stable_obj[OF k] g get_or_def)
qed

text \<open>A state whose every part can be printed and read again: no text with split surrogate pairs, no
  float, and no commit record with such a part. Whatever the journal itself writes is clean.\<close>

definition clean :: "journal_state \<Rightarrow> bool" where
  "clean st \<longleftrightarrow> list_all (\<lambda>c. writable (entry_of st c)) (js_order st) \<and> list_all clean_commit (js_commit_records st) \<and>
     hash_ok (js_last_hash st) \<and> (case js_last_id st of None \<Rightarrow> True | Some s \<Rightarrow> spelled s)"

text \<open>The lines of a file that its reader takes: within the length limit.\<close>

definition lines_fit :: "bytes \<Rightarrow> bool" where
  "lines_fit data \<longleftrightarrow> list_all (\<lambda>l. length l \<le> max_line_bytes) (fst (lines_of data))"

lemma read_empty: "read_bytes E [] = new_state"
  by (simp add: read_bytes_def read_tail_def)

lemma compacted_state:
  assumes order: "distinct (js_order s)" "\<forall>c\<in>set (js_order s). \<exists>e. js_changes s c = Some e \<and> je_change_id e = c \<and>
      je_status e = map_option fst (js_commits s c) \<and> je_backup_id e = Option.bind (js_commits s c) snd"
    and clean: "clean s"
    and commits: "js_commits s = commits_from (js_commit_records s)"
    and pend: "\<forall>c\<in>set pend. js_commits s c = None" and kept: "set kept \<subseteq> set (js_order s)"
    and data: "data = terminated (map (line_of E) (compacted_records now pend kept s))" and fit: "lines_fit data"
  defines "keep \<equiv> filter (\<lambda>c. c \<in> set pend \<union> set kept) (js_order s)"
  shows "js_order (parse E data) = keep" and "\<forall>c\<in>set keep. entry_of (parse E data) c = entry_of s c"
    and "js_commits (parse E data) = (\<lambda>c. if c \<in> set kept then js_commits s c else None)"
    and "backup_view (parse E data) = backup_view s" and "js_corrupt (parse E data) = 0" and "js_torn (parse E data) = 0"
proof -
  let ?es = "map (entry_of s) keep" and ?ks = "kept_commits kept (js_commit_records s)"
    and ?cp = "checkpoint_record now (js_last_hash s) (js_last_id s)"
  have ds: "compacted_records now pend kept s = map compacted_record ?es @ ?ks @ [?cp]"
    by (simp add: compacted_records_def keep_def)
  have sub: "set keep \<subseteq> set (js_order s)" and dist: "distinct keep" using order(1) by (auto simp: keep_def)
  have w: "writable (entry_of s c)" if "c \<in> set (js_order s)" for c using clean that by (simp add: clean_def list_all_iff)
  have ent: "js_changes s c = Some (entry_of s c)" "je_change_id (entry_of s c) = c"
    "je_status (entry_of s c) = map_option fst (js_commits s c)" "je_backup_id (entry_of s c) = Option.bind (js_commits s c) snd"
    if "c \<in> set (js_order s)" for c
    using order(2) that by (auto simp: entry_of_def)
  have sp: "\<forall>c\<in>set kept. spelled c"
  proof
    fix c assume "c \<in> set kept"
    then have "c \<in> set (js_order s)" using kept by auto
    then show "spelled c" using w[of c] ent(2)[of c] change_id_spelled[of c] by (simp add: writable_def entry_ok_def)
  qed
  have h: "hash_ok (js_last_hash s)" "case js_last_id s of None \<Rightarrow> True | Some s \<Rightarrow> spelled s" using clean by (simp_all add: clean_def)
  have cc: "\<forall>d\<in>set (js_commit_records s). clean_commit d" using clean by (simp add: clean_def list_all_iff)
  note kc = read_kept_commits[OF sp cc, of E]
  have e_ok: "\<forall>e\<in>set ?es. writable e" using w sub by auto
  have read: "\<forall>d\<in>set (map compacted_record ?es @ ?ks @ [?cp]). readable (JObj d) \<and> (\<forall>st. apply_record E st (stable_obj d) \<noteq> None)"
    using e_ok kc readable_compacted apply_compacted readable_checkpoint[OF h] apply_checkpoint[OF h(1)]
    by (auto simp: writable_def simp del: readable.simps)
  have nl: "\<forall>l\<in>set (map (line_of E) (map compacted_record ?es @ ?ks @ [?cp])). 10 \<notin> set l"
  proof
    fix l assume "l \<in> set (map (line_of E) (map compacted_record ?es @ ?ks @ [?cp]))"
    then obtain d where "l = line_of E d" "d \<in> set (map compacted_record ?es @ ?ks @ [?cp])" by (auto simp only: set_map)
    then show "10 \<notin> set l" using read line_of_lines by blast
  qed
  have "lines_of data = (map (line_of E) (map compacted_record ?es @ ?ks @ [?cp]), [])"
    using lines_of_terminated[OF nl, of "[]"] unfolding data ds by simp
  then have "\<forall>d\<in>set (map compacted_record ?es @ ?ks @ [?cp]). length (line_of E d) \<le> max_line_bytes"
    using fit by (auto simp: lines_fit_def list_all_iff)
  then have good: "\<forall>d\<in>set (map compacted_record ?es @ ?ks @ [?cp]). good_record E d"
    using read unfolding good_record_def by blast
  have all: "read_bytes E data = foldl (applied E) new_state (map compacted_record ?es @ ?ks @ [?cp])"
    using read_after_lines(1)[of "[]" _ E "[]", OF _ good] unfolding data ds by (simp add: read_empty read_tail_def)
  define s1 where "s1 = foldl (applied E) new_state (map compacted_record ?es)"
  have "map (je_change_id \<circ> entry_of s) keep = map (\<lambda>c. c) keep" by (rule map_cong) (use ent(2) sub in auto)
  then have ids: "map je_change_id ?es = keep" by simp
  have s1: "s1 = new_state\<lparr>js_order := keep, js_changes := map_of (map (\<lambda>e. (je_change_id e, fresh_entry e)) ?es)\<rparr>"
    using read_changes[of ?es new_state E] e_ok dist unfolding s1_def ids by (simp add: new_state_def writable_def)
  define s2 where "s2 = foldl (applied E) s1 ?ks"
  obtain ds' where s2: "s2 = s1\<lparr>js_commits := (\<lambda>c. if c \<in> set kept then note_all (js_commit_records s) (js_commits s1) c else js_commits s1 c),
      js_commit_records := ds', js_last_hash := js_last_hash s2, js_last_id := js_last_id s2\<rparr>"
    using kc[of s1] unfolding s2_def by blast
  have fin: "read_bytes E data = s2\<lparr>js_last_hash := js_last_hash s, js_last_id := js_last_id s\<rparr>"
    unfolding all s2_def s1_def by (simp add: applied_def apply_checkpoint[OF h(1)])
  have c2: "js_commits s2 = (\<lambda>c. if c \<in> set kept then js_commits s c else None)"
    by (subst s2) (simp add: s1 new_state_def commits commits_from_def note_all_def cong: if_cong)
  have ch2: "js_changes s2 = map_of (map (\<lambda>e. (je_change_id e, fresh_entry e)) ?es)" by (subst s2) (simp add: s1)
  show "js_order (parse E data) = keep" unfolding parse_fields fin by (simp, subst s2) (simp add: s1)
  show "js_commits (parse E data) = (\<lambda>c. if c \<in> set kept then js_commits s c else None)" unfolding parse_fields fin by (simp add: c2)
  show "backup_view (parse E data) = backup_view s" unfolding parse_fields fin by (simp add: backup_view_def)
  show "js_corrupt (parse E data) = 0" "js_torn (parse E data) = 0"
    unfolding parse_def mark_committed_def fin by (simp, subst s2, simp add: s1 new_state_def)+
  show "\<forall>c\<in>set keep. entry_of (parse E data) c = entry_of s c"
  proof
    fix c assume c: "c \<in> set keep"
    then have o: "c \<in> set (js_order s)" using sub by auto
    have "map_of (map (\<lambda>e. (je_change_id e, fresh_entry e)) ?es) c = Some (fresh_entry (entry_of s c))"
      using c dist ids ent(2)[OF o] by (intro map_of_is_SomeI) (force simp: o_def)+
    then have "js_changes (read_bytes E data) c = Some (fresh_entry (entry_of s c))" by (simp add: fin ch2)
    moreover have "js_commits (read_bytes E data) c = js_commits s c"
      using c pend by (auto simp: fin c2 keep_def)
    moreover have "(case js_commits s c of None \<Rightarrow> fresh_entry (entry_of s c) | Some ob \<Rightarrow> replace_status (fresh_entry (entry_of s c)) ob) = entry_of s c"
      using ent(3,4)[OF o] by (cases "entry_of s c") (auto simp: fresh_entry_def replace_status_def split: option.split)
    ultimately have "js_changes (parse E data) c = Some (entry_of s c)" by (simp add: parse_def mark_committed_def)
    then show "entry_of (parse E data) c = entry_of s c" by (simp add: entry_of_def[of "parse E data"])
  qed
qed

lemma newest_within_suffix:
  "\<exists>older. p = older @ newest_within E st b (rev p) \<and>
     (b < int (pending_bytes E st p) \<and> 0 \<le> b \<longrightarrow> older \<noteq> []) \<and> (0 \<le> b \<longrightarrow> int (pending_bytes E st (newest_within E st b (rev p))) \<le> b)"
proof (induction p arbitrary: b rule: rev_induct)
  case Nil
  then show ?case by (simp add: pending_bytes_def)
next
  case (snoc c p)
  let ?b = "b - int (pending_bytes E st [c])"
  have sum: "pending_bytes E st (xs @ [c]) = pending_bytes E st xs + pending_bytes E st [c]" for xs by (simp add: pending_bytes_def)
  show ?case
  proof (cases "?b < 0")
    case True
    then show ?thesis by (simp add: Let_def pending_bytes_def)
  next
    case False
    obtain older where o: "p = older @ newest_within E st ?b (rev p)" "?b < int (pending_bytes E st p) \<and> 0 \<le> ?b \<longrightarrow> older \<noteq> []"
      "0 \<le> ?b \<longrightarrow> int (pending_bytes E st (newest_within E st ?b (rev p))) \<le> ?b"
      using snoc.IH[of ?b] by blast
    have n: "newest_within E st b (rev (p @ [c])) = newest_within E st ?b (rev p) @ [c]" using False by (simp add: Let_def)
    have "p @ [c] = older @ newest_within E st b (rev (p @ [c]))" unfolding n using o(1) by (metis append.assoc)
    moreover have "b < int (pending_bytes E st (p @ [c])) \<and> 0 \<le> b \<longrightarrow> older \<noteq> []" using o(2) False unfolding sum by auto
    moreover have "0 \<le> b \<longrightarrow> int (pending_bytes E st (newest_within E st b (rev (p @ [c])))) \<le> b"
      unfolding n sum using o(3) False by auto
    ultimately show ?thesis by blast
  qed
qed

lemma keep_committed_prefix:
  "keep_committed E C st b cnt kept cids = Inr ks \<Longrightarrow> \<exists>n. ks = rev (take n cids) @ kept"
proof (induction cids arbitrary: b cnt kept)
  case Nil
  then show ?case by simp
next
  case (Cons cid cids)
  show ?case
  proof (cases "ks = kept")
    case True
    then show ?thesis by (intro exI[of _ 0]) simp
  next
    case False
    obtain b' cnt' where "keep_committed E C st b' cnt' (cid # kept) cids = Inr ks"
      using Cons.prems False by (auto simp: Let_def split: if_splits)
    then obtain n where "ks = rev (take n cids) @ cid # kept" using Cons.IH by blast
    then show ?thesis by (intro exI[of _ "Suc n"]) simp
  qed
qed

text \<open>The committed changes kept are the newest ones.\<close>

lemma committed_suffix:
  assumes "committed_within_budget E C st ids = Inr kept"
  shows "\<exists>dropped. ids = dropped @ kept" and "length kept \<le> jc_retain C"
proof -
  have bound: "keep_committed E C st b cnt ks cids = Inr kept \<Longrightarrow> length ks \<le> jc_retain C \<Longrightarrow> length kept \<le> jc_retain C" for b cnt ks cids
    by (induction cids arbitrary: b cnt ks) (auto simp: Let_def split: if_splits)
  then show "length kept \<le> jc_retain C"
    using assms by (auto simp: committed_within_budget_def split: if_splits)
  have "kept = [] \<or> (\<exists>n. kept = rev (take n (rev ids)))"
    using assms keep_committed_prefix[of E C st "jc_max_bytes C div 4" "[]" "[]" "rev ids" kept]
    by (auto simp: committed_within_budget_def split: if_splits)
  then show "\<exists>dropped. ids = dropped @ kept"
    by (metis append_Nil2 append_take_drop_id rev_append rev_rev_ident)
qed

lemma filter_part: "distinct xs \<Longrightarrow> filter P xs = older @ newer \<Longrightarrow> filter (\<lambda>x. x \<in> set newer) xs = newer"
proof -
  assume d: "distinct xs" and f: "filter P xs = older @ newer"
  have "set newer \<subseteq> set (filter P xs)" by (simp only: f set_append Un_upper2)
  then have "filter (\<lambda>x. x \<in> set newer) xs = filter (\<lambda>x. x \<in> set newer) (filter P xs)"
    by (auto intro: filter_cong)
  also have "\<dots> = newer"
  proof -
    have "distinct (older @ newer)" using d f by (metis distinct_filter)
    then have "filter (\<lambda>x. x \<in> set newer) older = []" by (auto simp: filter_empty_conv)
    then show ?thesis by (simp add: f)
  qed
  finally show ?thesis .
qed

lemma digits10_mono: "m \<le> n \<Longrightarrow> length (digits10 m) \<le> length (digits10 n)"
proof (induction n arbitrary: m rule: digits10.induct)
  case (1 n)
  show ?case
  proof (cases "n < 10")
    case True
    then show ?thesis using 1(2) by (simp add: digits10.simps[of m] digits10.simps[of n])
  next
    case False
    then have "length (digits10 (m div 10)) \<le> length (digits10 (n div 10))" using 1 by (intro 1(1)) (simp_all add: div_le_mono)
    then show ?thesis using False by (simp add: digits10.simps[of m] digits10.simps[of n])
  qed
qed

definition total_merged :: "journal_entry list \<Rightarrow> nat" where
  "total_merged es = sum_list (map je_merged es)"

text \<open>The parts of a compaction: the state it prints, the pending ids and the committed ones.\<close>

lemma compact_parts:
  assumes "compact E C now uid data = Inr data'"
  obtains kept s pend where "committed_within_budget E C (parse E data) (committed_ids (parse E data)) = Inr kept"
    "merge_overflow E C uid (parse E data) = (s, pend)" "data' = terminated (map (line_of E) (compacted_records now pend kept s))"
  using assms by (auto simp: compact_def Let_def split: sum.splits prod.splits if_splits)

lemma merge_cases:
  assumes "merge_overflow E C uid st = (s, pend)" and d: "distinct (pending_ids st)" and m: "4096 \<le> jc_max_bytes C"
  obtains (same) "s = st" "pend = pending_ids st"
    | (merged) older newest e where "pending_ids st = older @ newest" "older \<noteq> []" "e = overflow_entry st uid older"
      "pend = je_change_id e # newest" "jc_max_bytes C div 2 < pending_bytes E st (pending_ids st)"
      "s = st\<lparr>js_changes := (js_changes st)(je_change_id e \<mapsto> e), js_order := je_change_id e # filter (\<lambda>c. c \<notin> set older) (js_order st)\<rparr>"
proof (cases "1 < length (pending_ids st) \<and> jc_max_bytes C div 2 < pending_bytes E st (pending_ids st)")
  case False
  then have "merge_overflow E C uid st = (st, pending_ids st)" unfolding merge_overflow_def Let_def by (simp only: if_False)
  then show ?thesis using assms(1) same by simp
next
  case True
  let ?b = "int (jc_max_bytes C div 2) - 512" and ?p = "pending_ids st"
  let ?newest = "newest_within E st ?b (rev ?p)"
  show ?thesis
  proof -
    obtain older where o: "?p = older @ ?newest" "?b < int (pending_bytes E st ?p) \<and> 0 \<le> ?b \<longrightarrow> older \<noteq> []"
      using newest_within_suffix[of ?p E st ?b] by blast
    have "distinct (older @ ?newest)" using d o(1) by simp
    then have f: "filter (\<lambda>c. c \<notin> set ?newest) ?p = older"
      by (subst o(1)) (auto simp: filter_empty_conv filter_id_conv)
    have "older \<noteq> []" using o(2) True m by auto
    moreover have "pend = je_change_id (overflow_entry st uid older) # ?newest"
      "s = st\<lparr>js_changes := (js_changes st)(je_change_id (overflow_entry st uid older) \<mapsto> overflow_entry st uid older),
         js_order := je_change_id (overflow_entry st uid older) # filter (\<lambda>c. c \<notin> set older) (js_order st)\<rparr>"
      using assms True f by (auto simp: merge_overflow_def Let_def)
    ultimately show ?thesis using True by (intro merged[OF o(1) _ refl]) auto
  qed
qed

lemma pending_ids_pending: "pending E data = map (entry_of (parse E data)) (pending_ids (parse E data))"
  by (simp add: pending_def Let_def)

lemma parse_entry:
  assumes "c \<in> set (js_order (parse E data))"
  shows "js_changes (parse E data) c = Some (entry_of (parse E data) c)" and "je_change_id (entry_of (parse E data) c) = c"
  using assms well_formed_parse[of E data] by (auto simp: well_formed_def entry_of_def)

text \<open>What is about to be printed: a clean state that differs from the one read only by the merge.\<close>

definition merge_of :: "journal_entry list \<Rightarrow> journal_entry list \<Rightarrow> bool" where
  "merge_of es es' \<longleftrightarrow> (\<exists>older newest e. es = older @ newest \<and> older \<noteq> [] \<and> es' = e # newest \<and>
     je_merged e = total_merged older \<and> je_at e = je_at (hd older) \<and> je_before e = je_before (hd older) \<and>
     je_after e = je_after (last older))"

definition ready :: "journal_python \<Rightarrow> journal_config \<Rightarrow> bytes \<Rightarrow> journal_state \<Rightarrow> utext list \<Rightarrow> utext list \<Rightarrow> bool" where
  "ready E C data s pend kept \<longleftrightarrow> (let st = parse E data in
     distinct (js_order s) \<and> (\<forall>c\<in>set (js_order s). \<exists>e. js_changes s c = Some e \<and> je_change_id e = c \<and>
       je_status e = map_option fst (js_commits s c) \<and> je_backup_id e = Option.bind (js_commits s c) snd) \<and> clean s \<and>
     js_commits s = js_commits st \<and> js_commit_records s = js_commit_records st \<and> backup_view s = backup_view st \<and>
     filter (\<lambda>c. c \<in> set pend) (js_order s) = pend \<and> filter (\<lambda>c. c \<in> set kept) (js_order s) = kept \<and>
     (\<forall>c\<in>set pend. js_commits s c = None) \<and> (\<forall>c\<in>set kept. entry_of s c = entry_of st c \<and> js_commits s c \<noteq> None) \<and>
     (map (entry_of s) pend = pending E data \<or>
      merge_of (pending E data) (map (entry_of s) pend) \<and> jc_max_bytes C div 2 < pending_bytes E st (pending_ids st)))"

lemma kept_facts:
  assumes "committed_within_budget E C (parse E data) (committed_ids (parse E data)) = Inr kept"
  shows "filter (\<lambda>c. c \<in> set kept) (js_order (parse E data)) = kept"
    and "\<forall>c\<in>set kept. c \<in> set (js_order (parse E data)) \<and> js_commits (parse E data) c \<noteq> None \<and> \<not> je_recovered (entry_of (parse E data) c)"
proof -
  let ?st = "parse E data"
  have dist: "distinct (js_order ?st)" using well_formed_parse[of E data] by (simp add: well_formed_def)
  obtain dropped where drop: "committed_ids ?st = dropped @ kept" using committed_suffix(1)[OF assms] by blast
  show "filter (\<lambda>c. c \<in> set kept) (js_order ?st) = kept"
    using drop unfolding committed_ids_def by (rule filter_part[OF dist])
  show "\<forall>c\<in>set kept. c \<in> set (js_order ?st) \<and> js_commits ?st c \<noteq> None \<and> \<not> je_recovered (entry_of ?st c)"
  proof
    fix c assume "c \<in> set kept"
    then have "c \<in> set (committed_ids ?st)" using drop by simp
    then have "c \<in> set (js_order ?st)" "je_status (entry_of ?st c) \<noteq> None" "\<not> je_recovered (entry_of ?st c)"
      by (simp_all add: committed_ids_def)
    then show "c \<in> set (js_order ?st) \<and> js_commits ?st c \<noteq> None \<and> \<not> je_recovered (entry_of ?st c)"
      using entry_parse(1)[of c E data] by auto
  qed
qed

lemma pending_facts:
  "distinct (pending_ids (parse E data))" "set (pending_ids (parse E data)) \<subseteq> set (js_order (parse E data))"
  "\<forall>c\<in>set (pending_ids (parse E data)). js_commits (parse E data) c = None"
  using well_formed_parse[of E data] by (auto simp: pending_ids_parse well_formed_def)

lemma parse_entries:
  "c \<in> set (js_order (parse E data)) \<Longrightarrow> \<exists>e. js_changes (parse E data) c = Some e \<and> je_change_id e = c \<and>
     je_status e = map_option fst (js_commits (parse E data) c) \<and> je_backup_id e = Option.bind (js_commits (parse E data) c) snd"
  using parse_entry[of c E data] entry_parse[of c E data] by blast

lemma ready_same:
  assumes "clean (parse E data)" and k: "committed_within_budget E C (parse E data) (committed_ids (parse E data)) = Inr kept"
  shows "ready E C data (parse E data) (pending_ids (parse E data)) kept"
proof -
  let ?st = "parse E data"
  have "filter (\<lambda>c. c \<in> set (pending_ids ?st)) (js_order ?st) = pending_ids ?st"
    unfolding pending_ids_parse by (rule filter_cong) auto
  then show ?thesis
    using assms(1) kept_facts[OF k] pending_facts[of E data] parse_entries[of _ E data] well_formed_parse[of E data]
    by (simp add: ready_def Let_def pending_ids_pending well_formed_def)
qed

lemma overflow_writable:
  assumes w: "\<forall>c\<in>set older. writable (entry_of st c)" and "older \<noteq> []" and ok: "change_id_ok (codes ''chg_overflow_'' @ uid)"
    and d: "length (digits10 (total_merged (map (entry_of st) older))) \<le> 4300"
  shows "writable (overflow_entry st uid older)"
proof -
  have "hd older \<in> set older" "last older \<in> set older" using assms(2) by auto
  then have "entry_ok (entry_of st (hd older))" "entry_ok (entry_of st (last older))" using w by (simp_all add: writable_def)
  moreover have "1 \<le> sum_list (map (\<lambda>cid. je_merged (entry_of st cid)) older)"
    using w assms(2) by (cases older) (auto simp: writable_def entry_ok_def)
  moreover have "spelled (digits10 n @ codes '' older uncommitted changes merged'')" for n
    by (rule plain_spelled) (simp add: digits10_plain, simp add: codes_simps)
  ultimately show ?thesis
    using ok d by (simp add: writable_def entry_ok_def overflow_entry_def Let_def total_merged_def o_def)
qed

lemma ready_merged:
  assumes cl: "clean (parse E data)" and k: "committed_within_budget E C (parse E data) (committed_ids (parse E data)) = Inr kept"
    and digits: "length (digits10 (total_merged (pending E data))) \<le> 4300"
    and new: "unused (parse E data) (codes ''chg_overflow_'' @ uid)" and ok: "change_id_ok (codes ''chg_overflow_'' @ uid)"
    and p: "pending_ids (parse E data) = older @ newest" "older \<noteq> []" and over: "jc_max_bytes C div 2 < pending_bytes E (parse E data) (pending_ids (parse E data))"
    and e: "e = overflow_entry (parse E data) uid older" and pend: "pend = je_change_id e # newest"
    and s: "s = (parse E data)\<lparr>js_changes := (js_changes (parse E data))(je_change_id e \<mapsto> e),
      js_order := je_change_id e # filter (\<lambda>c. c \<notin> set older) (js_order (parse E data))\<rparr>"
  shows "ready E C data s pend kept"
proof -
  let ?st = "parse E data" and ?oid = "je_change_id e"
  have dist: "distinct (js_order ?st)" using well_formed_parse[of E data] by (simp add: well_formed_def)
  note pf = pending_facts[of E data, unfolded p(1)] and kf = kept_facts[OF k]
  have oid: "?oid = codes ''chg_overflow_'' @ uid" using e by (simp add: overflow_entry_def Let_def)
  have fresh: "?oid \<notin> set (js_order ?st)" "js_commits ?st ?oid = None" using new by (simp_all add: unused_def oid)
  have other: "js_changes s c = js_changes ?st c" "entry_of s c = entry_of ?st c" if "c \<noteq> ?oid" for c
    using that s by (simp_all add: entry_of_def)
  have self: "js_changes s ?oid = Some e" "entry_of s ?oid = e" using s by (simp_all add: entry_of_def)
  have com: "js_commits s = js_commits ?st" "js_commit_records s = js_commit_records ?st" "backup_view s = backup_view ?st"
    using s by (simp_all add: backup_view_def)
  have order: "js_order s = ?oid # filter (\<lambda>c. c \<notin> set older) (js_order ?st)" using s by simp
  have notin: "?oid \<notin> set newest" "?oid \<notin> set kept" using fresh(1) pf(2) kf(2) by auto
  have "filter (\<lambda>c. c \<in> set newest) (js_order ?st) = newest"
    using filter_part[OF dist] p(1) unfolding pending_ids_parse by blast
  moreover have "filter (\<lambda>c. c \<in> set pend) (filter (\<lambda>c. c \<notin> set older) (js_order ?st)) = filter (\<lambda>c. c \<in> set newest) (js_order ?st)"
    unfolding filter_filter by (rule filter_cong) (use pf(1) pend fresh(1) in auto)
  ultimately have pend': "filter (\<lambda>c. c \<in> set pend) (js_order s) = pend" using pend order by simp
  have "filter (\<lambda>c. c \<in> set kept) (filter (\<lambda>c. c \<notin> set older) (js_order ?st)) = filter (\<lambda>c. c \<in> set kept) (js_order ?st)"
    unfolding filter_filter by (rule filter_cong) (use pf(3) kf(2) in auto)
  then have keep: "filter (\<lambda>c. c \<in> set kept) (js_order s) = kept" using order notin(2) kf(1) by simp
  have w: "writable (entry_of ?st c)" if "c \<in> set (js_order ?st)" for c using cl that by (simp add: clean_def list_all_iff)
  have tm: "je_merged e = total_merged (map (entry_of ?st) older)"
    using e by (simp add: overflow_entry_def Let_def total_merged_def o_def)
  have "total_merged (map (entry_of ?st) older) \<le> total_merged (pending E data)"
    unfolding pending_ids_pending p(1) by (simp add: total_merged_def)
  then have "length (digits10 (total_merged (map (entry_of ?st) older))) \<le> 4300"
    using digits10_mono digits le_trans by blast
  then have "writable e"
    unfolding e using pf(2) w by (intro overflow_writable[OF _ p(2) ok]) auto
  then have "\<forall>c\<in>set (js_order s). writable (entry_of s c)"
    using w order other(2) self(2) by (metis filter_is_subset set_ConsD subsetD)
  moreover have "js_last_hash s = js_last_hash ?st" "js_last_id s = js_last_id ?st" using s by simp_all
  ultimately have clean: "clean s" using cl com(2) by (simp add: clean_def list_all_iff)
  have ents: "\<exists>e. js_changes s c = Some e \<and> je_change_id e = c \<and> je_status e = map_option fst (js_commits s c) \<and>
      je_backup_id e = Option.bind (js_commits s c) snd" if "c \<in> set (js_order s)" for c
  proof (cases "c = ?oid")
    case True
    have "je_status e = None" "je_backup_id e = None" using e by (simp_all add: overflow_entry_def Let_def)
    then show ?thesis using True self fresh(2) com by simp
  next
    case False
    then have "c \<in> set (js_order ?st)" using that order by simp
    then show ?thesis using parse_entries[of c E data] other(1)[OF False] com by simp
  qed
  have "map (entry_of s) newest = map (entry_of ?st) newest" by (rule map_cong) (use other(2) notin(1) in \<open>auto, metis\<close>)
  then have merge: "merge_of (pending E data) (map (entry_of s) pend)"
    unfolding merge_of_def pending_ids_pending p(1) map_append using p(2) pend self(2) tm e
    by (intro exI[of _ "map (entry_of ?st) older"] exI[of _ "map (entry_of ?st) newest"] exI[of _ e])
      (simp add: overflow_entry_def Let_def hd_map last_map)
  have "\<forall>c\<in>set kept. entry_of s c = entry_of ?st c \<and> js_commits s c \<noteq> None" using other(2) notin(2) kf(2) com by metis
  moreover have "\<forall>c\<in>set pend. js_commits s c = None" using pend pf(3) fresh(2) com by auto
  moreover have "distinct (js_order s)" using order dist fresh(1) by simp
  ultimately show ?thesis
    unfolding ready_def Let_def using com pend' keep clean ents merge over by blast
qed

lemma ready_reads:
  assumes r: "ready E C data s pend kept" and k: "committed_within_budget E C (parse E data) (committed_ids (parse E data)) = Inr kept"
    and d': "data' = terminated (map (line_of E) (compacted_records now pend kept s))" and fit: "lines_fit data'"
  shows "pending E data' = map (entry_of s) pend"
    and "map (entry_of (parse E data')) (committed_ids (parse E data')) = map (entry_of (parse E data)) kept"
    and "last_backup E data' = last_backup E data" and "js_corrupt (parse E data') = 0" and "js_torn (parse E data') = 0"
proof -
  let ?st' = "parse E data'" and ?keep = "filter (\<lambda>c. c \<in> set pend \<union> set kept) (js_order s)"
  note f = r[unfolded ready_def Let_def]
  have cm: "js_commits s = commits_from (js_commit_records s)" using f well_formed_parse[of E data] by (simp add: well_formed_def)
  have sub: "set pend \<subseteq> set (js_order s)" "set kept \<subseteq> set (js_order s)" using f by (metis filter_is_subset)+
  have pr: "distinct (js_order s)" "\<forall>c\<in>set (js_order s). \<exists>e. js_changes s c = Some e \<and> je_change_id e = c \<and>
       je_status e = map_option fst (js_commits s c) \<and> je_backup_id e = Option.bind (js_commits s c) snd" "clean s"
    "\<forall>c\<in>set pend. js_commits s c = None" using f by blast+
  have order': "js_order ?st' = ?keep" and ent': "\<forall>c\<in>set ?keep. entry_of ?st' c = entry_of s c"
    and com': "js_commits ?st' = (\<lambda>c. if c \<in> set kept then js_commits s c else None)" and back': "backup_view ?st' = backup_view s"
    and zero: "js_corrupt ?st' = 0" "js_torn ?st' = 0"
    using compacted_state[OF pr(1,2,3) cm pr(4) sub(2) d' fit] by simp_all
  show "js_corrupt ?st' = 0" "js_torn ?st' = 0" by (rule zero)+
  show "last_backup E data' = last_backup E data" using back' f by (simp add: backup_view_def last_backup_def Let_def)
  have subk: "set pend \<subseteq> set ?keep" "set kept \<subseteq> set ?keep" using sub by auto
  have "pending_ids ?st' = filter (\<lambda>c. c \<in> set pend) (js_order s)"
    unfolding pending_ids_parse order' com' filter_filter by (rule filter_cong) (use f in auto)
  then have "pending_ids ?st' = pend" using f by simp
  then show "pending E data' = map (entry_of s) pend"
    unfolding pending_ids_pending using ent' subk(1) by (auto intro!: map_cong)
  have "je_status (entry_of ?st' c) \<noteq> None \<and> \<not> je_recovered (entry_of ?st' c) \<longleftrightarrow> c \<in> set kept" if "c \<in> set ?keep" for c
  proof -
    have "je_status (entry_of ?st' c) = map_option fst (js_commits ?st' c)" using entry_parse(1)[of c E data'] that order' by simp
    moreover have "c \<in> set kept \<Longrightarrow> \<not> je_recovered (entry_of ?st' c)" using ent' that kept_facts(2)[OF k] f by simp
    ultimately show ?thesis using f by (auto simp: com')
  qed
  then have "committed_ids ?st' = filter (\<lambda>c. c \<in> set kept) ?keep" unfolding committed_ids_def order' by (intro filter_cong) auto
  also have "\<dots> = filter (\<lambda>c. c \<in> set kept) (js_order s)" unfolding filter_filter by (rule filter_cong) auto
  finally have "committed_ids ?st' = kept" using f by simp
  then show "map (entry_of ?st') (committed_ids ?st') = map (entry_of (parse E data)) kept"
    using ent' subk(2) f by (auto intro!: map_cong)
qed

lemma compact_reads:
  assumes c: "compact E C now uid data = Inr data'" and cl: "clean (parse E data)" and fit: "lines_fit data'"
    and digits: "length (digits10 (total_merged (pending E data))) \<le> 4300"
    and new: "unused (parse E data) (codes ''chg_overflow_'' @ uid)" and ok: "change_id_ok (codes ''chg_overflow_'' @ uid)"
    and m: "4096 \<le> jc_max_bytes C"
  obtains kept where "committed_within_budget E C (parse E data) (committed_ids (parse E data)) = Inr kept"
    and "map (entry_of (parse E data')) (committed_ids (parse E data')) = map (entry_of (parse E data)) kept"
    and "pending E data' = pending E data \<or>
      merge_of (pending E data) (pending E data') \<and> jc_max_bytes C div 2 < pending_bytes E (parse E data) (pending_ids (parse E data))"
    and "last_backup E data' = last_backup E data" and "js_corrupt (parse E data') = 0" and "js_torn (parse E data') = 0"
proof -
  obtain kept s pend where k: "committed_within_budget E C (parse E data) (committed_ids (parse E data)) = Inr kept"
    and ms: "merge_overflow E C uid (parse E data) = (s, pend)" and d': "data' = terminated (map (line_of E) (compacted_records now pend kept s))"
    by (rule compact_parts[OF c])
  have r: "ready E C data s pend kept"
    using ms pending_facts(1) m
  proof (cases rule: merge_cases)
    case same
    then show ?thesis using ready_same[OF cl k] by simp
  next
    case (merged older newest e)
    then show ?thesis by (intro ready_merged[OF cl k digits new ok merged(1,2,5,3,4,6)])
  qed
  note out = ready_reads[OF r k d' fit]
  have "pending E data' = pending E data \<or>
      merge_of (pending E data) (pending E data') \<and> jc_max_bytes C div 2 < pending_bytes E (parse E data) (pending_ids (parse E data))"
    unfolding out(1) using r by (auto simp: ready_def Let_def)
  then show ?thesis using that k out by blast
qed

subsection \<open>What the methods promise\<close>

lemma append_changeD:
  assumes "append_change E C (at, now) (uid, ovid) action subject h h' data = (data', Inr e)"
    and "valid_date_time at" and "change_id_ok (codes ''chg_'' @ uid)" and "spelled subject"
  shows "e = new_entry at uid action subject h h'" and "writable e" and "\<not> je_recovered e" and "je_merged e = 1" and "fresh_entry e = e"
    and "append_records E [change_record e] data = Inr (data @ payload E [change_record e] data)"
    and "compact_if_over E C now ovid (data @ payload E [change_record e] data) = (data', None)"
proof -
  show e: "e = new_entry at uid action subject h h'"
    using assms(1) by (auto simp: append_change_def Let_def split: if_splits sum.splits prod.splits option.splits)
  have g: "append_guard e"
    using assms(1) by (auto simp: append_change_def Let_def e split: if_splits)
  have "spelled action"
    using g by (intro plain_spelled) (auto simp: append_guard_def e new_entry_def action_ok_def list_all_iff is_digit_def between_def among_def codes_simps split: list.splits)
  then show "writable e" using g assms(2-4) by (simp add: writable_def entry_ok_def append_guard_def e new_entry_def)
  show "\<not> je_recovered e" "je_merged e = 1" "fresh_entry e = e" by (simp_all add: e new_entry_def fresh_entry_def)
  show "append_records E [change_record e] data = Inr (data @ payload E [change_record e] data)"
    "compact_if_over E C now ovid (data @ payload E [change_record e] data) = (data', None)"
    using assms(1) by (auto simp: append_change_def Let_def e append_records_def split: if_splits sum.splits prod.splits option.splits)
qed

text \<open>C19: a change is appended once \<open>append\<close> returns: the pending changes are those of before, in their order, and
  the new one last, whether or not the file ended in a torn line, and the last backup is what it was. (An append
  that takes the file over its budget also compacts it.)\<close>

theorem append_is_durable:
  assumes "append_change E C (at, now) (uid, ovid) action subject h h' data = (data', Inr e)"
    and "valid_date_time at" and "change_id_ok (codes ''chg_'' @ uid)" and "spelled subject" and "sound_tail data"
    and "unused (parse E data) (codes ''chg_'' @ uid)" and "length (data @ payload E [change_record e] data) \<le> jc_max_bytes C"
  shows "map veil (pending E data') = map veil (pending E data) @ [new_entry at uid action subject h h'] \<and>
    last_backup E data' = last_backup E data"
proof
  note e = append_changeD[OF assms(1-4)]
  have d: "data' = data @ payload E [change_record e] data" using e(7) assms(7) by (simp add: compact_if_over_def)
  have u: "unused (parse E data) (je_change_id e)" using assms(6) e(1) by (simp add: new_entry_def)
  have same: "same_journal (parse E data') (add_entry e (parse E data))"
    using append_reads[OF assms(5) e(2-6) u] by (simp add: d)
  have "pending_view (add_entry e (parse E data)) = pending_view (parse E data) @ [veil e]"
    using u e(1) by (intro pending_add(1)[OF well_formed_parse]) (simp_all add: unused_def new_entry_def)
  then show "map veil (pending E data') = map veil (pending E data) @ [new_entry at uid action subject h h']"
    using same_views[OF same] e(1,3) by (simp add: pending_parse veil_id)
  show "last_backup E data' = last_backup E data"
    using same_views[OF same] by (simp add: last_backup_def Let_def backup_view_def add_entry_def)
qed

text \<open>C6: a crash while a change is appended loses no change and invents no commit, on any file, one with pieces of
  earlier crashes included. The changes pending before are pending still, in their order; after them comes nothing
  while no byte of the line is on disk, the new change once the whole line is, and in between one recovered change that
  keeps a backup pending, unless the journal has a line with the digest of that piece already.\<close>

theorem torn_append_loses_nothing:
  assumes "append_change E C (at, now) (uid, ovid) action subject h h' data = (data', Inr e)"
    and "valid_date_time at" and "change_id_ok (codes ''chg_'' @ uid)" and "spelled subject" and "sound_tail data"
    and "unused (parse E data) (codes ''chg_'' @ uid)"
  shows "let torn = data @ take k (payload E [change_record e] data)
    in map veil (pending E torn) = map veil (pending E data) @ left_by_crash E e data k \<and>
       last_backup E torn = last_backup E data \<and> sound_tail torn"
proof -
  note e = append_changeD[OF assms(1-4)]
  have u: "unused (parse E data) (je_change_id e)" using assms(6) e(1) by (simp add: new_entry_def)
  show ?thesis
    using torn_append_reads[OF assms(5) e(2-6) u, where k = k]
    by (simp add: Let_def pending_parse last_backup_def backup_view_def)
qed

lemma pending_change_ids: "map je_change_id (pending E data) = pending_ids (parse E data)"
  using parse_entry(2)[of _ E data] pending_facts(2)[of E data] by (auto simp: pending_ids_pending intro!: map_idI)

text \<open>The file right after the records of a commit, and what a compaction that follows asks of it.\<close>

definition with_commit :: "journal_python \<Rightarrow> date_time \<Rightarrow> utext list \<Rightarrow> commit_outcome \<Rightarrow> utext option \<Rightarrow> utext option \<Rightarrow> bytes \<Rightarrow> bytes" where
  "with_commit E at ids oc h b data = data @ payload E (map (\<lambda>c. commit_record at c oc b h) (chunks commit_ids_per_record ids)) data"

definition compactable :: "journal_python \<Rightarrow> journal_config \<Rightarrow> utext \<Rightarrow> bytes \<Rightarrow> bytes \<Rightarrow> bool" where
  "compactable E C uid data data' \<longleftrightarrow> clean (parse E data) \<and> lines_fit data' \<and> length (digits10 (total_merged (pending E data))) \<le> 4300 \<and>
     unused (parse E data) (codes ''chg_overflow_'' @ uid) \<and> change_id_ok (codes ''chg_overflow_'' @ uid) \<and> 4096 \<le> jc_max_bytes C"

lemma entries_agree:
  assumes "map (entry_of st) cs = map (entry_of st') ds" and "\<forall>c\<in>set cs. je_change_id (entry_of st c) = c"
    and "\<forall>d\<in>set ds. je_change_id (entry_of st' d) = d"
  shows "cs = ds \<and> (\<forall>c\<in>set cs. entry_of st c = entry_of st' c)"
proof -
  have "map (je_change_id \<circ> entry_of st) cs = map (je_change_id \<circ> entry_of st') ds"
    using arg_cong[OF assms(1), of "map je_change_id"] by simp
  then have "cs = ds" using assms(2,3) by (simp add: map_idI comp_def)
  then show ?thesis using assms(1) by simp
qed

lemma compacted_marks:
  assumes "compact E C now uid data = Inr data'" and "compactable E C uid data data'"
  shows "pending E data' = pending E data \<or> merge_of (pending E data) (pending E data')"
    and "last_backup E data' = last_backup E data"
    and "length (committed_ids (parse E data')) \<le> jc_retain C \<and> (\<exists>dropped. committed_ids (parse E data) = dropped @ committed_ids (parse E data'))"
    and "\<forall>c\<in>set (committed_ids (parse E data')). entry_of (parse E data') c = entry_of (parse E data) c"
proof -
  obtain kept where k: "committed_within_budget E C (parse E data) (committed_ids (parse E data)) = Inr kept"
    and com: "map (entry_of (parse E data')) (committed_ids (parse E data')) = map (entry_of (parse E data)) kept"
    and "pending E data' = pending E data \<or> merge_of (pending E data) (pending E data')"
    and "last_backup E data' = last_backup E data"
    using compact_reads[OF assms(1)] assms(2) unfolding compactable_def by metis
  then show "pending E data' = pending E data \<or> merge_of (pending E data) (pending E data')"
    and "last_backup E data' = last_backup E data" by simp_all
  obtain dropped where d: "committed_ids (parse E data) = dropped @ kept" using committed_suffix(1)[OF k] by blast
  then have "set kept \<subseteq> set (committed_ids (parse E data))" by auto
  then have "committed_ids (parse E data') = kept \<and> (\<forall>c\<in>set (committed_ids (parse E data')). entry_of (parse E data') c = entry_of (parse E data) c)"
    using parse_entry(2)[of _ E data] parse_entry(2)[of _ E data'] by (intro entries_agree[OF com]) (auto simp: committed_ids_def)
  then show "length (committed_ids (parse E data')) \<le> jc_retain C \<and> (\<exists>dropped. committed_ids (parse E data) = dropped @ committed_ids (parse E data'))"
    and "\<forall>c\<in>set (committed_ids (parse E data')). entry_of (parse E data') c = entry_of (parse E data) c"
    using committed_suffix(2)[OF k] d by auto
qed

text \<open>What a commit, whole, torn or compacted, may mark: its own ids, with its own outcome and backup. A committed entry
  it did not name is as an earlier commit marked it.\<close>

definition marks_only :: "journal_python \<Rightarrow> utext list \<Rightarrow> commit_outcome \<times> utext option \<Rightarrow> bytes \<Rightarrow> bytes \<Rightarrow> bool" where
  "marks_only E ids ob data data' \<longleftrightarrow> (\<forall>c\<in>set (committed_ids (parse E data')). \<exists>mark.
     je_status (entry_of (parse E data') c) = Some (fst mark) \<and> je_backup_id (entry_of (parse E data') c) = snd mark \<and>
     (c \<in> set ids \<and> mark = ob \<or> js_commits (parse E data) c = Some mark))"

lemma marks_only_commits:
  assumes "\<And>c mark. js_commits (parse E data') c = Some mark \<Longrightarrow> c \<in> set ids \<and> mark = ob \<or> js_commits (parse E data) c = Some mark"
  shows "marks_only E ids ob data data'"
  unfolding marks_only_def
proof
  fix c assume c: "c \<in> set (committed_ids (parse E data'))"
  then have o: "c \<in> set (js_order (parse E data'))" by (simp add: committed_ids_def)
  obtain mark where m: "js_commits (parse E data') c = Some mark"
    using c entry_parse(1)[OF o] by (auto simp: committed_ids_def)
  show "\<exists>mark. je_status (entry_of (parse E data') c) = Some (fst mark) \<and> je_backup_id (entry_of (parse E data') c) = snd mark \<and>
     (c \<in> set ids \<and> mark = ob \<or> js_commits (parse E data) c = Some mark)"
    using entry_parse[OF o] m assms[OF m] by (intro exI[of _ mark]) simp
qed

lemma torn_commit_marks:
  assumes "sound_tail data" and "commit_guard oc b h" and "list_all spelled ids"
    and "append_records E (map (\<lambda>c. commit_record at c oc b h) (chunks n ids)) data = Inr data'"
  shows "marks_only E ids (oc, b) data (data @ take k (payload E (map (\<lambda>c. commit_record at c oc b h) (chunks n ids)) data))"
  using assms(3) by (intro marks_only_commits torn_commit_reads(3)[OF assms(1,2) _ assms(4) refl]) (simp_all add: list_all_iff)

lemma commit_changes_marks:
  assumes "commit_changes E C (at, now) uid ids oc h b data = (data', err)" and "list_all spelled ids" and "sound_tail data"
    and "data' \<noteq> data \<Longrightarrow> data' \<noteq> with_commit E at ids oc h b data \<Longrightarrow> compactable E C uid (with_commit E at ids oc h b data) data'"
  shows "marks_only E ids (oc, b) data data'"
proof -
  let ?ds = "map (\<lambda>c. commit_record at c oc b h) (chunks commit_ids_per_record ids)" and ?w = "with_commit E at ids oc h b data"
  have same: "marks_only E ids (oc, b) data data" by (rule marks_only_commits) simp
  show ?thesis
  proof (cases "commit_guard oc b h \<and> append_records E ?ds data = Inr ?w")
    case False
    then have "data' = data"
      using assms(1) by (auto simp: commit_changes_def with_commit_def append_records_def split: if_splits)
    then show ?thesis using same by simp
  next
    case True
    have w: "marks_only E ids (oc, b) data ?w"
      using commit_reads(2)[OF assms(3) _ _ conjunct2[OF True]] True assms(2)
      by (intro marks_only_commits) (auto simp: list_all_iff split: if_splits)
    have c: "compact_if_over E C now uid ?w = (data', err)" using assms(1) True by (simp add: commit_changes_def)
    show ?thesis
    proof (cases "data' = data \<or> data' = ?w")
      case True
      then show ?thesis using w same by auto
    next
      case over: False
      then have "compact E C now uid ?w = Inr data'" using c by (auto simp: compact_if_over_def split: if_splits sum.splits)
      moreover have "compactable E C uid ?w data'" using assms(4) over by blast
      ultimately have "set (committed_ids (parse E data')) \<subseteq> set (committed_ids (parse E ?w))"
        "\<forall>c\<in>set (committed_ids (parse E data')). entry_of (parse E data') c = entry_of (parse E ?w) c"
        using compacted_marks(3,4)[of E C now uid ?w data'] by auto
      then show ?thesis using w by (auto simp: marks_only_def)
    qed
  qed
qed

text \<open>C18: a commit takes its ids off the pending changes, marks each of them with the outcome and the backup, and
  touches nothing else; a backup commit becomes the last backup, a no-op leaves it. The ids may be split over any
  number of records. When the file outgrows its budget the compaction that follows keeps the pending changes or merges
  the oldest, keeps the last backup, and keeps the newest committed entries, at most \<open>retain\<close> of them, still marked.\<close>

theorem commit_marks_exactly:
  assumes "commit_changes E C (at, now) uid ids oc h b data = (data', None)" and "list_all spelled ids" and "sound_tail data"
    and "jc_max_bytes C < length (with_commit E at ids oc h b data) \<Longrightarrow> compactable E C uid (with_commit E at ids oc h b data) data'"
  shows "let written = with_commit E at ids oc h b data; marks = (\<lambda>data c. (je_status (entry_of (parse E data) c), je_backup_id (entry_of (parse E data) c)))
    in js_order (parse E written) = js_order (parse E data) \<and>
       (\<forall>c\<in>set (js_order (parse E data)). marks written c = (if c \<in> set ids then (Some oc, b) else marks data c)) \<and>
       map je_change_id (pending E written) = filter (\<lambda>c. c \<notin> set ids) (map je_change_id (pending E data)) \<and>
       last_backup E data' = (if oc = Backup then (h, b) else last_backup E data) \<and>
       (if length written \<le> jc_max_bytes C then data' = written
        else (pending E data' = pending E written \<or> merge_of (pending E written) (pending E data')) \<and>
          (\<exists>dropped. committed_ids (parse E written) = dropped @ committed_ids (parse E data')) \<and>
          (\<forall>c\<in>set (committed_ids (parse E data')). entry_of (parse E data') c = entry_of (parse E written) c) \<and>
          length (committed_ids (parse E data')) \<le> jc_retain C)"
proof -
  let ?ds = "map (\<lambda>c. commit_record at c oc b h) (chunks commit_ids_per_record ids)" and ?w = "with_commit E at ids oc h b data"
  have g: "commit_guard oc b h" using assms(1) by (auto simp: commit_changes_def split: if_splits)
  have sp: "\<forall>c\<in>set ids. spelled c" using assms(2) by (simp add: list_all_iff)
  have a: "append_records E ?ds data = Inr ?w" and c: "compact_if_over E C now uid ?w = (data', None)"
    using assms(1) g by (auto simp: commit_changes_def append_records_def with_commit_def split: if_splits)
  note r = commit_reads[OF assms(3) g sp a]
  have p: "map je_change_id (pending E ?w) = filter (\<lambda>c. c \<notin> set ids) (map je_change_id (pending E data))"
    unfolding pending_change_ids pending_ids_parse r(1,2) filter_filter by (rule filter_cong) auto
  have m: "\<forall>c\<in>set (js_order (parse E data)). (je_status (entry_of (parse E ?w) c), je_backup_id (entry_of (parse E ?w) c)) =
      (if c \<in> set ids then (Some oc, b) else (je_status (entry_of (parse E data) c), je_backup_id (entry_of (parse E data) c)))"
    using entry_parse[of _ E ?w] entry_parse[of _ E data] r(1,2) by simp
  have b: "last_backup E ?w = (if oc = Backup then (h, b) else last_backup E data)"
    using r(3) by (simp add: last_backup_def backup_view_def Let_def)
  show ?thesis
  proof (cases "length ?w \<le> jc_max_bytes C")
    case True
    then have "data' = ?w" using c by (simp add: compact_if_over_def)
    then show ?thesis using True p m b r(1) by (simp add: Let_def)
  next
    case False
    then have k: "compact E C now uid ?w = Inr data'" using c by (auto simp: compact_if_over_def split: sum.splits)
    have "compactable E C uid ?w data'" using False assms(4) by simp
    note k = compacted_marks[OF k this]
    then show ?thesis using False p m b r(1) by (simp add: Let_def)
  qed
qed

lemma merge_total: "merge_of es es' \<Longrightarrow> total_merged es' = total_merged es"
  by (auto simp: merge_of_def total_merged_def)

text \<open>C17: compaction keeps the pending changes, entry for entry. Only when they take more than half of the budget are the
  oldest merged into one pending entry, which counts them, spans their time and their hashes, and stands before the
  others. The last backup stays, the damage is gone, and the committed changes that stay are the newest, as they
  were.\<close>

theorem compaction_keeps_pending:
  assumes "compact E C now uid data = Inr data'" and "clean (parse E data)" and "lines_fit data'"
    and "length (digits10 (total_merged (pending E data))) \<le> 4300" and "unused (parse E data) (codes ''chg_overflow_'' @ uid)"
    and "change_id_ok (codes ''chg_overflow_'' @ uid)" and "4096 \<le> jc_max_bytes C"
  shows "(if pending E data' = pending E data then True
      else merge_of (pending E data) (pending E data') \<and> jc_max_bytes C div 2 < pending_bytes E (parse E data) (pending_ids (parse E data))) \<and>
    total_merged (pending E data') = total_merged (pending E data) \<and> last_backup E data' = last_backup E data \<and>
    jt_corrupt (stats E C data') = 0 \<and> jt_torn (stats E C data') = 0 \<and>
    (\<exists>dropped. map (entry_of (parse E data)) (committed_ids (parse E data)) =
        dropped @ map (entry_of (parse E data')) (committed_ids (parse E data'))) \<and>
    length (committed_ids (parse E data')) \<le> jc_retain C"
proof -
  obtain kept where k: "committed_within_budget E C (parse E data) (committed_ids (parse E data)) = Inr kept"
    and com: "map (entry_of (parse E data')) (committed_ids (parse E data')) = map (entry_of (parse E data)) kept"
    and pend: "pending E data' = pending E data \<or>
      merge_of (pending E data) (pending E data') \<and> jc_max_bytes C div 2 < pending_bytes E (parse E data) (pending_ids (parse E data))"
    and rest: "last_backup E data' = last_backup E data" "js_corrupt (parse E data') = 0" "js_torn (parse E data') = 0"
    by (rule compact_reads[OF assms]) (rule that)
  obtain dropped where "committed_ids (parse E data) = dropped @ kept" using committed_suffix(1)[OF k] by blast
  then have "map (entry_of (parse E data)) (committed_ids (parse E data)) =
      map (entry_of (parse E data)) dropped @ map (entry_of (parse E data')) (committed_ids (parse E data'))"
    by (simp add: com)
  moreover have "length (committed_ids (parse E data')) \<le> jc_retain C"
    using committed_suffix(2)[OF k] map_eq_imp_length_eq[OF com] by simp
  moreover have "total_merged (pending E data') = total_merged (pending E data)" using pend merge_total by metis
  ultimately show ?thesis using pend rest by (auto simp: stats_def Let_def)
qed

lemma compaction_type_error:
  assumes "d \<in> set (js_commit_records (parse E data))" and "JList vs \<in> set (commit_ids d)" and "jc_retain C \<noteq> 0"
  shows "compact E C now uid data = Inl TypeError"
  using assms by (force simp: compact_def Let_def committed_within_budget_def list_ex_iff hashable_def)

subsection \<open>No acknowledged change is lost\<close>

text \<open>The histories of a journal file: appends, commits, crashes in the middle of either, and compactions.
  \<open>A\<close> holds the changes that an \<open>append\<close> acknowledged, each under the id that stands for it (a compaction may
  have merged it into an overflow entry), and \<open>N\<close> the ids that a commit named, one that crashed included. The
  random ids are new; nothing is asked of the digests that name a damaged line.\<close>

definition stand_in :: "utext list \<Rightarrow> utext list \<Rightarrow> utext \<Rightarrow> utext" where
  "stand_in before now c = (if c \<in> set before \<and> c \<notin> set now then hd now else c)"

inductive history :: "journal_python \<Rightarrow> journal_config \<Rightarrow> bytes \<Rightarrow> utext set \<Rightarrow> utext set \<Rightarrow> bool" for E C where
  start: "history E C [] {} {}"
| append: "history E C data A N \<Longrightarrow> append_records E [change_record e] data = Inr data' \<Longrightarrow> writable e \<Longrightarrow> e = new_entry at uid action subject h h' \<Longrightarrow>
    unused (parse E data) (je_change_id e) \<Longrightarrow> history E C data' (insert (je_change_id e) A) N"
| append_crash: "history E C data A N \<Longrightarrow> append_records E [change_record e] data = Inr data' \<Longrightarrow> writable e \<Longrightarrow> e = new_entry at uid action subject h h' \<Longrightarrow>
    unused (parse E data) (je_change_id e) \<Longrightarrow>
    history E C (data @ take k (payload E [change_record e] data)) A N"
| commit: "history E C data A N \<Longrightarrow> commit_guard oc b h \<Longrightarrow> list_all spelled ids \<Longrightarrow>
    append_records E (map (\<lambda>c. commit_record at c oc b h) (chunks commit_ids_per_record ids)) data = Inr data' \<Longrightarrow>
    history E C data' A (N \<union> set ids)"
| commit_crash: "history E C data A N \<Longrightarrow> commit_guard oc b h \<Longrightarrow> list_all spelled ids \<Longrightarrow>
    append_records E (map (\<lambda>c. commit_record at c oc b h) (chunks commit_ids_per_record ids)) data = Inr data' \<Longrightarrow>
    history E C (data @ take k (payload E (map (\<lambda>c. commit_record at c oc b h) (chunks commit_ids_per_record ids)) data)) A (N \<union> set ids)"
| compact: "history E C data A N \<Longrightarrow> compact E C now uid data = Inr data' \<Longrightarrow> clean (parse E data) \<Longrightarrow> lines_fit data' \<Longrightarrow>
    length (digits10 (total_merged (pending E data))) \<le> 4300 \<Longrightarrow> unused (parse E data) (codes ''chg_overflow_'' @ uid) \<Longrightarrow>
    change_id_ok (codes ''chg_overflow_'' @ uid) \<Longrightarrow> 4096 \<le> jc_max_bytes C \<Longrightarrow>
    history E C data' (stand_in (pending_ids (parse E data)) (pending_ids (parse E data')) ` A) N"

lemma compact_sound_tail:
  assumes "compact E C now uid data = Inr data'"
  shows "sound_tail data'"
proof -
  have "ls \<noteq> [] \<Longrightarrow> \<not> has_torn_tail (terminated ls)" for ls
    by (induction ls rule: rev_induct) (simp_all add: has_torn_tail_def terminated_def)
  moreover obtain ds d where "data' = terminated (map (line_of E) (ds @ [d]))"
    by (rule compact_parts[OF assms]) (metis append.assoc compacted_records_def)
  ultimately have "\<not> has_torn_tail data'" by simp
  then show ?thesis using torn_tail_iff[of data'] by (cases "lines_of data'") (auto simp: sound_tail_def)
qed

lemma new_entry_facts: "e = new_entry at uid action subject h h' \<Longrightarrow> \<not> je_recovered e \<and> je_merged e = 1 \<and> fresh_entry e = e \<and> je_status e = None"
  by (simp add: new_entry_def fresh_entry_def)

lemma pending_ids_view: "pending_ids (parse E data) = map je_change_id (pending_view (parse E data))"
proof -
  have "je_change_id (veil e) = je_change_id e" for e by (simp add: veil_def)
  then have "map je_change_id (pending_view (parse E data)) = map je_change_id (pending E data)"
    by (simp add: pending_parse)
  then show ?thesis by (simp add: pending_change_ids)
qed

lemma whole_sound: "sound_tail data \<Longrightarrow> \<forall>d\<in>set ds. good_record E d \<Longrightarrow> sound_tail (data @ payload E ds data)"
  by (rule torn_write[of data ds E "length (payload E ds data)"]) simp_all


subsection \<open>The journal's own files are clean\<close>

definition own_record :: "obj \<Rightarrow> bool" where
  "own_record d \<longleftrightarrow> (\<exists>e. writable e \<and> \<not> je_recovered e \<and> je_merged e = 1 \<and> d = change_record e) \<or>
     (\<exists>at ids oc b h. commit_guard oc b h \<and> list_all spelled ids \<and> d = commit_record at ids oc b h)"

lemma clean_add: "clean st \<Longrightarrow> writable e \<Longrightarrow> well_formed st \<Longrightarrow> clean (add_entry e st)"
  by (auto simp: clean_def add_entry_def list_all_iff entry_of_def)

lemma writable_fresh [simp]: "writable (fresh_entry e) = writable e"
  by (simp add: writable_def entry_ok_def fresh_entry_def)

lemma clean_commit_state:
  assumes "clean st" and "commit_guard oc b h" and "\<forall>c\<in>set ids. spelled c"
  shows "clean (committed_state (stable_obj (commit_record at ids oc b h)) ids oc b h st)"
proof -
  let ?d = "stable_obj (commit_record at ids oc b h)"
  have "readable (JObj ?d)"
    using readable_sort_keys[OF readable_commit_record[OF assms(2,3), of at]] by (simp add: sort_keys_obj del: readable.simps sort_keys.simps)
  moreover have "kind_is ?d ''commit''" by (simp add: kind_is_def get_stable_obj distinct_commit_record get_commit_record)
  ultimately have "clean_commit ?d" using commit_of_stable[OF assms(2), of at ids] by (simp add: clean_commit_def del: readable.simps)
  moreover have "hash_ok h" "case b of None \<Rightarrow> True | Some s \<Rightarrow> spelled s"
    using assms(2) by (auto simp: commit_guard_def backup_id_spelled split: commit_outcome.splits option.splits)
  moreover have "clean (committed_state d ids oc b h st)" if "clean_commit d" "hash_ok h" "case b of None \<Rightarrow> True | Some s \<Rightarrow> spelled s" for d
    using assms(1) that by (simp add: clean_def committed_state_def Let_def entry_of_def)
  ultimately show ?thesis by blast
qed

lemma well_formed_applied: "well_formed st \<Longrightarrow> well_formed (applied E st d)"
  by (auto simp: applied_def split: option.split dest: well_formed_apply)

text \<open>So what compaction asks of a file holds of every file of the journal's own records.\<close>

lemma own_file_clean:
  assumes "\<forall>d\<in>set ds. own_record d \<and> length (line_of E d) \<le> max_line_bytes"
  shows "clean (parse E (terminated (map (line_of E) ds)))"
proof -
  have good: "good_record E d" if d: "d \<in> set ds" for d
  proof -
    have "own_record d" "length (line_of E d) \<le> max_line_bytes" using assms d by auto
    then show ?thesis
      unfolding own_record_def list_all_iff
      using readable_commit_record apply_commit_record change_record_compacted readable_compacted apply_compacted
      by (fastforce simp: good_record_def writable_def simp del: readable.simps)
  qed
  have "clean st \<and> well_formed st \<Longrightarrow> \<forall>d\<in>set ds. own_record d \<Longrightarrow> clean (foldl (applied E) st ds) \<and> well_formed (foldl (applied E) st ds)" for st
  proof (induction ds arbitrary: st)
    case (Cons d ds)
    have "clean (applied E st d)"
      using Cons.prems(2)
    proof (simp add: own_record_def del: not_backup, elim conjE disjE exE)
      fix e assume e: "writable e" "\<not> je_recovered e" "je_merged e = Suc 0" "d = change_record e"
      then have "applied E st d = add_entry (fresh_entry e) st" using applied_fields[of e E st] by (simp add: change_record_compacted writable_def)
      then show ?thesis using clean_add Cons.prems(1) e(1) by simp
    next
      fix at ids oc b h assume c: "commit_guard oc b h" "list_all spelled ids" "d = commit_record at ids oc b h"
      then have "applied E st d = committed_state (stable_obj d) ids oc b h st" by (simp add: applied_def apply_commit_record)
      then show ?thesis using clean_commit_state Cons.prems(1) c by (simp add: list_all_iff)
    qed
    then show ?case using Cons well_formed_applied by simp
  qed simp
  moreover have "clean new_state" "well_formed new_state"
    by (simp_all add: clean_def new_state_def hash_ok_def well_formed_new [unfolded new_state_def])
  ultimately have "clean (foldl (applied E) new_state ds) \<and> well_formed (foldl (applied E) new_state ds)" using assms by blast
  moreover have "read_bytes E (terminated (map (line_of E) ds)) = foldl (applied E) new_state ds"
    using read_after_lines(1)[of "[]" ds E "[]"] good by (simp add: read_empty read_tail_def)
  moreover have "clean (mark_committed st)" if "clean st" "well_formed st" for st
  proof -
    have "writable (entry_of (mark_committed st) c)" if c: "c \<in> set (js_order st)" for c
    proof -
      obtain e where "js_changes st c = Some e" using c \<open>well_formed st\<close> by (auto simp: well_formed_def)
      moreover have "writable (entry_of st c)" using c \<open>clean st\<close> by (simp add: clean_def list_all_iff)
      ultimately show ?thesis
        by (auto simp: entry_of_def mark_committed_def replace_status_def writable_def entry_ok_def split: option.split)
    qed
    then show ?thesis using that(1) by (simp add: clean_def list_all_iff)
  qed
  ultimately show ?thesis by (simp add: parse_def)
qed

lemma pending_nothing: "pending E [] = []"
  by (simp add: pending_ids_pending pending_ids_parse parse_fields read_empty new_state_def)

definition plain_python :: journal_python where
  "plain_python = \<lparr>jp_python = \<lparr>py_decode = (\<lambda>_. None), py_float_repr = id, py_float_zero = (\<lambda>_. False), py_float_finite = (\<lambda>_. True)\<rparr>,
     jp_iso = (\<lambda>_. None), jp_sha24 = (\<lambda>n raw. replicate 24 48)\<rparr>"


definition plain_config :: journal_config where
  "plain_config = \<lparr>jc_max_bytes = 4096, jc_retain = 2\<rparr>"

abbreviation zeros :: "nat \<Rightarrow> utext" where
  "zeros n \<equiv> replicate n 48"

definition one_change :: journal_entry where
  "one_change = new_entry epoch_time (zeros 32) (codes ''mapping.save'') (codes ''slot 3'') None None"

definition one_line :: bytes where
  "one_line = line_of plain_python (change_record one_change) @ [10]"

lemma one_line_fits: "length (line_of plain_python (change_record one_change)) = 172"
  by code_simp

lemma one_change_ok: "valid_date_time epoch_time" "change_id_ok (codes ''chg_'' @ zeros 32)" "spelled (codes ''slot 3'')" "sound_tail []"
  "change_id_ok (codes ''chg_overflow_'' @ zeros 24)"
  by (simp_all add: valid_date_time_def valid_date_def epoch_time_def days_in_month_def change_id_ok_def codes_simps is_digit_def sound_tail_def list_all_iff
    high_surrogate_def low_surrogate_def between_def among_def)

lemma one_change_guard: "append_guard one_change"
  by (simp add: append_guard_def one_change_def new_entry_def action_ok_def codes_simps between_def is_digit_def among_def hash_ok_def)

lemma payload_nothing: "payload E [change_record e] [] = line_of E (change_record e) @ [10]"
  by (simp add: payload_def has_torn_tail_def terminated_def)

lemma one_change_appends:
  "append_change plain_python plain_config (epoch_time, epoch_time) (zeros 32, zeros 24) (codes ''mapping.save'') (codes ''slot 3'') None None [] =
    (one_line, Inr one_change)"
proof -
  have "append_records plain_python [change_record one_change] [] = Inr one_line"
    by (simp add: append_records_def one_line_fits max_line_bytes_def payload_nothing one_line_def)
  moreover have "compact_if_over plain_python plain_config epoch_time (zeros 24) one_line = (one_line, None)"
    by (simp add: compact_if_over_def one_line_def one_line_fits plain_config_def)
  ultimately show ?thesis using one_change_guard by (simp add: append_change_def one_change_def [symmetric])
qed

lemma unused_nothing: "unused (parse E []) c"
  by (simp add: parse_def read_empty new_state_def unused_def)

lemma append_is_durable_witness: "map veil (pending plain_python one_line) = [one_change]"
proof -
  have "length ([] @ payload plain_python [change_record one_change] []) \<le> jc_max_bytes plain_config"
    by (simp add: payload_nothing one_line_fits plain_config_def)
  from append_is_durable[OF one_change_appends one_change_ok(1-4) unused_nothing this] show ?thesis
    by (simp add: pending_nothing one_change_def)
qed

lemma torn_append_loses_nothing_witness:
  "last_backup plain_python (take 50 one_line) = last_backup plain_python [] \<and> sound_tail (take 50 one_line)"
proof -
  note t = torn_append_loses_nothing[OF one_change_appends one_change_ok(1-4) unused_nothing, of 50]
  then show ?thesis unfolding payload_nothing Let_def append_Nil one_line_def by blast
qed

text \<open>The journal with that one change.\<close>

lemma one_line_reads: "same_journal (parse plain_python one_line) (add_entry one_change (parse plain_python []))"
proof -
  note e = append_changeD[OF one_change_appends one_change_ok(1-3)]
  have "one_line = [] @ payload plain_python [change_record one_change] []" by (simp add: payload_nothing one_line_def)
  then show ?thesis using append_reads[OF one_change_ok(4) e(2-6) unused_nothing] by simp
qed

lemma one_line_sound: "sound_tail one_line"
  by (simp add: one_line_def) code_simp

lemma one_line_ids: "js_order (parse plain_python one_line) = [codes ''chg_'' @ zeros 32]" "js_commits (parse plain_python one_line) = Map.empty"
  using one_line_reads by (auto simp: same_journal_def add_entry_def parse_fields read_empty new_state_def one_change_def new_entry_def parse_def mark_committed_def)

text \<open>A backup commit of that change.\<close>

abbreviation one_commit :: bytes where
  "one_commit \<equiv> with_commit plain_python epoch_time [codes ''chg_'' @ zeros 32] Backup (Some (zeros 64)) (Some (codes ''b1'')) one_line"

lemma one_commit_fits: "length one_commit \<le> jc_max_bytes plain_config"
  "commit_changes plain_python plain_config (epoch_time, epoch_time) (zeros 24) [codes ''chg_'' @ zeros 32] Backup (Some (zeros 64))
    (Some (codes ''b1'')) one_line = (one_commit, None)"
  "list_all spelled [codes ''chg_'' @ zeros 32]"
proof -
  let ?id = "codes ''chg_'' @ zeros 32" and ?h = "Some (zeros 64)" and ?b = "Some (codes ''b1'')"
  let ?d = "commit_record epoch_time [?id] Backup ?b ?h"
  have l: "length (line_of plain_python ?d) = 222" by code_simp
  have g: "commit_guard Backup ?b ?h"
    by (simp add: commit_guard_def hash_ok_def sha256_ok_def backup_id_ok_def Let_def codes_simps between_def is_digit_def among_def list_all_iff)
  have c: "chunks commit_ids_per_record [?id] = [[?id]]" by (simp add: chunks.simps commit_ids_per_record_def)
  show small: "length one_commit \<le> jc_max_bytes plain_config"
    using l by (simp add: with_commit_def c payload_def terminated_def one_line_def one_line_fits plain_config_def)
  show "commit_changes plain_python plain_config (epoch_time, epoch_time) (zeros 24) [?id] Backup ?h ?b one_line = (one_commit, None)"
    using g l small by (simp add: commit_changes_def with_commit_def c append_records_def max_line_bytes_def compact_if_over_def)
  show "list_all spelled [?id]" using change_id_spelled[OF one_change_ok(2)] by simp
qed

lemma commit_marks_exactly_witness:
  "pending plain_python one_commit = [] \<and> js_order (parse plain_python one_commit) = [codes ''chg_'' @ zeros 32] \<and>
     last_backup plain_python one_commit = (Some (zeros 64), Some (codes ''b1''))"
proof -
  let ?id = "codes ''chg_'' @ zeros 32" and ?h = "Some (zeros 64)" and ?b = "Some (codes ''b1'')"
  have "compactable plain_python plain_config (zeros 24) one_commit one_commit" if "jc_max_bytes plain_config < length one_commit"
    using one_commit_fits(1) that by simp
  then have "js_order (parse plain_python one_commit) = js_order (parse plain_python one_line) \<and>
      map je_change_id (pending plain_python one_commit) = filter (\<lambda>c. c \<notin> set [?id]) (map je_change_id (pending plain_python one_line)) \<and>
      last_backup plain_python one_commit = (?h, ?b)"
    using commit_marks_exactly[OF one_commit_fits(2,3) one_line_sound] unfolding Let_def by presburger
  moreover have "map je_change_id (pending plain_python one_line) = [?id]"
    by (simp add: pending_change_ids pending_ids_parse one_line_ids)
  ultimately show ?thesis using one_line_ids(1) by simp
qed


lemma one_line_state: "parse plain_python one_line = mark_committed (add_entry one_change new_state)"
proof -
  note e = append_changeD[OF one_change_appends one_change_ok(1-3)]
  have g: "good_record plain_python (change_record one_change)" "applied plain_python new_state (change_record one_change) = add_entry one_change new_state"
    using good_new_entry[OF e(2-5)] one_line_fits by (simp_all add: max_line_bytes_def)
  have "read_bytes plain_python ([] @ terminated (map (line_of plain_python) [change_record one_change]) @ []) = add_entry one_change new_state"
    using read_after_lines(1)[of "[]" "[change_record one_change]" plain_python "[]"] g by (simp add: read_empty read_tail_def)
  then show ?thesis by (simp add: parse_def one_line_def terminated_def)
qed

lemma compaction_keeps_pending_witness: "\<exists>data'. last_backup plain_python data' = last_backup plain_python one_line \<and> 173 < length data' \<and>
    total_merged (pending plain_python data') = 1"
proof -
  let ?E = plain_python and ?cp = "checkpoint_record epoch_time None None" and ?e = one_change
  have st: "js_order (parse ?E one_line) = [je_change_id ?e]" "entry_of (parse ?E one_line) (je_change_id ?e) = ?e"
    "js_commit_records (parse ?E one_line) = []" "js_last_hash (parse ?E one_line) = None" "js_last_id (parse ?E one_line) = None"
    by (simp_all add: one_line_state mark_committed_def add_entry_def new_state_def entry_of_def)
  have pending: "je_status ?e = None" "je_merged ?e = 1" "\<not> je_recovered ?e" by (simp_all add: one_change_def new_entry_def)
  have ids: "pending_ids (parse ?E one_line) = [je_change_id ?e]" "committed_ids (parse ?E one_line) = []"
    using pending by (simp_all add: pending_ids_def committed_ids_def st)
  let ?data = "terminated (map (line_of ?E) [change_record ?e, ?cp])"
  have lens: "length (line_of ?E ?cp) = 101" by code_simp
  have fits: "fits_json ?E (change_record ?e)" "fits_json ?E ?cp"
    by (simp_all add: fits_json_def change_record_def checkpoint_record_def opt_json_def one_change_def new_entry_def)
  have "compacted_records epoch_time [je_change_id ?e] [] (parse ?E one_line) = [change_record ?e, ?cp]"
    using pending by (simp add: compacted_records_def st kept_commits_simps change_record_compacted)
  then have c: "compact ?E plain_config epoch_time (zeros 24) one_line = Inr ?data"
    using fits by (simp add: compact_def Let_def ids st committed_within_budget_def plain_config_def merge_overflow_def)
  note e = append_changeD[OF one_change_appends one_change_ok(1-3)]
  have clean: "clean (parse ?E one_line)" using e(2) by (simp add: clean_def st hash_ok_def)
  have "10 \<notin> set (line_of ?E (change_record ?e))" "10 \<notin> set (line_of ?E ?cp)"
    using line_of_lines[OF readable_compacted[OF e(2)], of ?E] change_record_compacted[OF pending(3,2)] line_of_lines[OF readable_checkpoint, of None None ?E epoch_time]
    by (simp_all add: hash_ok_def del: readable.simps)
  then have fit: "lines_fit ?data"
    using lines_of_terminated[of "map (line_of ?E) [change_record ?e, ?cp]" "[]"] lens one_line_fits by (simp add: lines_fit_def max_line_bytes_def)
  have total: "total_merged (pending ?E one_line) = 1" by (simp add: total_merged_def pending_ids_pending ids st(2) pending(2))
  have new: "unused (parse ?E one_line) (codes ''chg_overflow_'' @ zeros 24)"
    using one_line_ids by (auto simp: unused_def codes_simps dest!: arg_cong[of _ _ "\<lambda>s. s ! 4"])
  have "last_backup ?E ?data = last_backup ?E one_line \<and> total_merged (pending ?E ?data) = 1"
    using compaction_keeps_pending[OF c clean fit _ new one_change_ok(5)] by (simp add: total plain_config_def)
  moreover have "173 < length ?data" using lens one_line_fits by (simp add: terminated_def)
  ultimately show ?thesis by blast
qed

end
