(* ===== verification/Config_Coalescer.thy ===== *)
theory Config_Coalescer
  imports Change_Journal Complex_Main
begin

text \<open>
  \<open>ConfigBackupCoalescer\<close> of \<open>history_service/backup_archive/journal.py\<close>: it turns the pending changes of the
  journal into configuration backups, after a quiet period or a maximum delay. One object is shared by the
  threads of the scheduler (its loop calls \<open>tick\<close>, its API \<open>poll\<close> and \<open>run\<close>) while other processes write the
  journal and the configuration.

  \<open>coalescer\<close> holds the fields of the object. \<open>activity\<close> is where a thread stands inside a method: every
  block under the state lock, every journal method (which holds the lock of the journal) and every callback
  is one step of \<open>advance\<close>, and what the outside answers to that step is its \<open>luck\<close>. \<open>co_step\<close> interleaves
  the steps of all threads with writes of other processes, new configurations and the clock.

  The fingerprint of the journal file (inode, size and time of its last write) is the number of the write that
  made the file as it is: no two writes leave the same fingerprint. Times are rational seconds, without the
  rounding of floats. The hash of a configuration, modelled in \<open>Config_Hash\<close>, is an argument.
\<close>

subsection \<open>The object\<close>

datatype run_status = Backup_done | Noop_done | Idle | Not_due | Busy | Failed

record coalescer_result =
  cr_status :: run_status
  cr_change_ids :: "utext list"
  cr_config_hash :: "utext option"
  cr_backup_id :: "utext option"
  cr_error :: "utext option"

record coalescer =
  co_seen :: "utext set"
  co_first_seen :: "rat option"
  co_last_seen :: "rat option"
  co_retry_at :: "rat option"
  co_failures :: nat
  co_fingerprint :: "nat option"
  co_last_error :: "utext option"

text \<open>\<open>_fingerprint\<close> starts as \<open>False\<close>; like \<open>None\<close>, that is no fingerprint of a file.\<close>

record 'cfg coalescer_env =
  ce_python :: journal_python
  ce_journal :: journal_config
  ce_quiet_period :: rat
  ce_max_delay :: rat
  ce_config_hash :: "'cfg \<Rightarrow> utext"

definition max_retry_exponent :: nat where
  "max_retry_exponent = 16"

definition init_guard :: "'cfg coalescer_env \<Rightarrow> bool" where
  "init_guard E \<longleftrightarrow> \<not> (ce_quiet_period E < 0 \<or> ce_max_delay E \<le> 0 \<or> ce_max_delay E < ce_quiet_period E)"

definition new_coalescer :: coalescer where
  "new_coalescer = \<lparr>co_seen = {}, co_first_seen = None, co_last_seen = None, co_retry_at = None, co_failures = 0,
     co_fingerprint = None, co_last_error = None\<rparr>"

definition note_new_ids :: "rat \<Rightarrow> utext set \<Rightarrow> coalescer \<Rightarrow> coalescer" where
  "note_new_ids now ids c = (if ids = {} then c else
     c\<lparr>co_seen := co_seen c \<union> ids, co_last_seen := Some now,
       co_first_seen := (case co_first_seen c of None \<Rightarrow> Some now | Some t \<Rightarrow> Some t)\<rparr>)"

definition reset_timers :: "coalescer \<Rightarrow> coalescer" where
  "reset_timers c = c\<lparr>co_first_seen := None, co_last_seen := None, co_retry_at := None, co_failures := 0\<rparr>"

definition seconds_until_due :: "'cfg coalescer_env \<Rightarrow> rat \<Rightarrow> coalescer \<Rightarrow> rat option" where
  "seconds_until_due E now c = (if co_seen c = {} then None else
     case (co_first_seen c, co_last_seen c) of
       (Some a, Some b) \<Rightarrow>
         (let due_at = min (b + ce_quiet_period E) (a + ce_max_delay E);
              due_at' = (case co_retry_at c of None \<Rightarrow> due_at | Some r \<Rightarrow> max due_at r)
          in Some (max 0 (due_at' - now)))
     | _ \<Rightarrow> None)"

definition due :: "'cfg coalescer_env \<Rightarrow> rat \<Rightarrow> coalescer \<Rightarrow> bool" where
  "due E now c \<longleftrightarrow> (case seconds_until_due E now c of None \<Rightarrow> False | Some r \<Rightarrow> r \<le> 0)"

text \<open>The two blocks of \<open>poll\<close> under the state lock.\<close>

definition poll_unchanged :: "nat option \<Rightarrow> coalescer \<Rightarrow> bool" where
  "poll_unchanged fp c \<longleftrightarrow> fp \<noteq> None \<and> fp = co_fingerprint c"

definition poll_take :: "rat \<Rightarrow> nat option \<Rightarrow> utext set \<Rightarrow> coalescer \<Rightarrow> coalescer" where
  "poll_take now fp ids c =
     (let c1 = c\<lparr>co_fingerprint := fp, co_seen := co_seen c \<inter> ids\<rparr>;
          c2 = note_new_ids now (ids - co_seen c1) c1
      in if co_seen c2 = {} then reset_timers c2 else c2)"

text \<open>The blocks of \<open>_run_locked\<close>, \<open>_record_success\<close> and \<open>_record_failure\<close> under the state lock.\<close>

definition forget_all :: "coalescer \<Rightarrow> coalescer" where
  "forget_all c = reset_timers (c\<lparr>co_seen := {}\<rparr>)"

definition record_success :: "rat \<Rightarrow> utext set \<Rightarrow> coalescer \<Rightarrow> coalescer" where
  "record_success now ids c =
     (let c1 = c\<lparr>co_last_error := None, co_seen := co_seen c - ids, co_failures := 0, co_retry_at := None\<rparr>
      in if co_seen c1 = {} then reset_timers c1 else c1\<lparr>co_first_seen := Some now, co_last_seen := Some now\<rparr>)"

definition retry_delay :: "'cfg coalescer_env \<Rightarrow> nat \<Rightarrow> rat" where
  "retry_delay E failures = min (ce_max_delay E) (max (ce_quiet_period E) 1 * 2 ^ min (failures - 1) max_retry_exponent)"

definition record_failure :: "'cfg coalescer_env \<Rightarrow> rat \<Rightarrow> utext \<Rightarrow> coalescer \<Rightarrow> coalescer" where
  "record_failure E now err c =
     (let n = co_failures c + 1 in
      c\<lparr>co_last_error := Some err, co_failures := n, co_retry_at := Some (now + retry_delay E n)\<rparr>)"

subsection \<open>The world and the threads\<close>

text \<open>\<open>cw_backups\<close> are the calls of \<open>make_backup\<close> that made a backup: its id, the changes and the snapshot it got.\<close>

record 'cfg coalescer_world =
  cw_data :: bytes
  cw_writes :: nat
  cw_config :: 'cfg
  cw_clock :: rat
  cw_running :: bool
  cw_backups :: "(utext \<times> utext list \<times> 'cfg) list"
  cw_object :: coalescer

definition fingerprint :: "'cfg coalescer_world \<Rightarrow> nat option" where
  "fingerprint w = (if cw_writes w = 0 then None else Some (cw_writes w))"

definition written :: "bytes \<Rightarrow> 'cfg coalescer_world \<Rightarrow> 'cfg coalescer_world" where
  "written d w = w\<lparr>cw_data := d, cw_writes := cw_writes w + 1\<rparr>"

text \<open>A call that raises may have written before.\<close>

definition maybe_written :: "bytes \<Rightarrow> 'cfg coalescer_world \<Rightarrow> 'cfg coalescer_world" where
  "maybe_written d w = (if d = cw_data w then w else written d w)"

definition on_object :: "(coalescer \<Rightarrow> coalescer) \<Rightarrow> 'cfg coalescer_world \<Rightarrow> 'cfg coalescer_world" where
  "on_object f w = w\<lparr>cw_object := f (cw_object w)\<rparr>"

definition world_pending :: "'cfg coalescer_env \<Rightarrow> 'cfg coalescer_world \<Rightarrow> utext list" where
  "world_pending E w = map je_change_id (pending (ce_python E) (cw_data w))"

text \<open>What the outside answers to one step: whether the journal can be read and the file lock of the run is free,
  whether the snapshot callback returns, the artifact id \<open>make_backup\<close> returns if it does, after how many bytes
  a write of the journal fails if it does, the readings of the wall clock, the random ids (of a change, of an
  overflow entry), and the class name of an exception.\<close>

record luck =
  lu_read :: bool
  lu_flock :: bool
  lu_snapshot :: bool
  lu_backup :: "utext option"
  lu_torn :: "nat option"
  lu_times :: "date_time \<times> date_time"
  lu_uids :: "utext \<times> utext"
  lu_exception :: utext

text \<open>What a thread does after a poll: return to its caller, go on with a tick, or end a successful run.\<close>

datatype poll_caller = Return | Then_tick | Then_finish coalescer_result

datatype 'cfg activity =
    Rest
  | Counted nat
  | Finished coalescer_result
  | Recorded journal_entry
  | Raised
  | Poll_start poll_caller
  | Poll_check "nat option" poll_caller
  | Poll_read "nat option" poll_caller
  | Poll_apply "nat option" "utext list" poll_caller
  | Tick_seen
  | Tick_due
  | Run_lock
  | Run_read
  | Run_forget
  | Run_snapshot "utext list"
  | Run_compare "utext list" 'cfg utext
  | Run_noop "utext list" utext
  | Run_backup "utext list" 'cfg utext
  | Run_commit "utext list" utext utext
  | Run_success coalescer_result
  | Run_failure coalescer_result
  | Record_change utext utext "utext option" "utext option"
  | Record_note journal_entry

definition plain_result :: "run_status \<Rightarrow> coalescer_result" where
  "plain_result s = \<lparr>cr_status = s, cr_change_ids = [], cr_config_hash = None, cr_backup_id = None, cr_error = None\<rparr>"

definition failed_result :: "utext list \<Rightarrow> string \<Rightarrow> utext \<Rightarrow> coalescer_result" where
  "failed_result ids what exc = (plain_result Failed)\<lparr>cr_change_ids := ids, cr_error := Some (codes what @ codes '' failed: '' @ exc)\<rparr>"

text \<open>The end of a run gives up its locks.\<close>

definition leave :: "'cfg coalescer_world \<Rightarrow> 'cfg coalescer_world" where
  "leave w = w\<lparr>cw_running := False\<rparr>"

definition poll_return :: "'cfg coalescer_world \<Rightarrow> poll_caller \<Rightarrow> 'cfg coalescer_world \<times> 'cfg activity" where
  "poll_return w k = (case k of Return \<Rightarrow> (w, Counted (card (co_seen (cw_object w)))) | Then_tick \<Rightarrow> (w, Tick_seen)
     | Then_finish r \<Rightarrow> (leave w, Finished r))"

definition poll_raise :: "'cfg coalescer_world \<Rightarrow> poll_caller \<Rightarrow> 'cfg coalescer_world \<times> 'cfg activity" where
  "poll_raise w k = (case k of Then_finish r \<Rightarrow> (leave w, Raised) | _ \<Rightarrow> (w, Raised))"

text \<open>\<open>journal.commit\<close> as the run sees it: it returns, raises an \<open>OSError\<close> after part of its write, or raises
  an error that the run does not catch.\<close>

datatype reply = Returns | Os_error | Escapes

definition try_commit :: "'cfg coalescer_env \<Rightarrow> luck \<Rightarrow> utext list \<Rightarrow> commit_outcome \<Rightarrow> utext \<Rightarrow> utext option \<Rightarrow> bytes \<Rightarrow> bytes \<times> reply" where
  "try_commit E l ids oc h b data =
     (let ds = map (\<lambda>c. commit_record (fst (lu_times l)) c oc b (Some h)) (chunks commit_ids_per_record ids)
      in case lu_torn l of
           Some k \<Rightarrow> (if commit_guard oc b (Some h) \<and> append_records (ce_python E) ds data \<noteq> Inl ValueError
               then (data @ take k (payload (ce_python E) ds data), Os_error) else (data, Escapes))
         | None \<Rightarrow> (case commit_changes (ce_python E) (ce_journal E) (lu_times l) (snd (lu_uids l)) ids oc (Some h) b data of
               (data', err) \<Rightarrow> (data', if err = None then Returns else Escapes)))"

definition run_commit :: "'cfg coalescer_env \<Rightarrow> luck \<Rightarrow> 'cfg coalescer_world \<Rightarrow> utext list \<Rightarrow> commit_outcome \<Rightarrow> utext \<Rightarrow> utext option \<Rightarrow>
    'cfg coalescer_world \<times> 'cfg activity" where
  "run_commit E l w ids oc h b =
     (case try_commit E l ids oc h b (cw_data w) of (d, reply) \<Rightarrow>
       let w' = maybe_written d w in case reply of
         Returns \<Rightarrow> (written d w, Run_success \<lparr>cr_status = (case oc of Backup \<Rightarrow> Backup_done | Noop \<Rightarrow> Noop_done), cr_change_ids = ids,
           cr_config_hash = Some h, cr_backup_id = b, cr_error = None\<rparr>)
       | Os_error \<Rightarrow> (w', Run_failure (let r = failed_result ids ''journal commit'' (lu_exception l)
           in case oc of Noop \<Rightarrow> r | Backup \<Rightarrow> r\<lparr>cr_config_hash := Some h, cr_backup_id := b\<rparr>))
       | Escapes \<Rightarrow> (leave w', Raised))"

definition record_append :: "'cfg coalescer_env \<Rightarrow> luck \<Rightarrow> 'cfg coalescer_world \<Rightarrow> utext \<Rightarrow> utext \<Rightarrow> utext option \<Rightarrow> utext option \<Rightarrow>
    'cfg coalescer_world \<times> 'cfg activity" where
  "record_append E l w action subject h h' =
     (let e = new_entry (fst (lu_times l)) (fst (lu_uids l)) action subject h h'; ds = [change_record e] in case lu_torn l of
        Some k \<Rightarrow> (if append_guard e \<and> append_records (ce_python E) ds (cw_data w) \<noteq> Inl ValueError
            then (maybe_written (cw_data w @ take k (payload (ce_python E) ds (cw_data w))) w, Raised) else (w, Raised))
      | None \<Rightarrow> (case append_change (ce_python E) (ce_journal E) (lu_times l) (lu_uids l) action subject h h' (cw_data w) of
            (d, Inl _) \<Rightarrow> (maybe_written d w, Raised) | (d, Inr e') \<Rightarrow> (written d w, Record_note e')))"

subsection \<open>One step of a thread\<close>

fun advance :: "'cfg coalescer_env \<Rightarrow> luck \<Rightarrow> 'cfg coalescer_world \<Rightarrow> 'cfg activity \<Rightarrow> 'cfg coalescer_world \<times> 'cfg activity" where
  "advance E l w (Poll_start k) = (w, Poll_check (fingerprint w) k)"
| "advance E l w (Poll_check fp k) = (if poll_unchanged fp (cw_object w) then poll_return w k else (w, Poll_read fp k))"
| "advance E l w (Poll_read fp k) = (if lu_read l then (w, Poll_apply fp (world_pending E w) k) else poll_raise w k)"
| "advance E l w (Poll_apply fp ids k) = poll_return (on_object (poll_take (cw_clock w) fp (set ids)) w) k"
| "advance E l w Tick_seen = (w, if co_seen (cw_object w) = {} then Finished (plain_result Idle) else Tick_due)"
| "advance E l w Tick_due = (w, if due E (cw_clock w) (cw_object w) then Run_lock else Finished (plain_result Not_due))"
| "advance E l w Run_lock = (if cw_running w \<or> \<not> lu_flock l then (w, Finished (plain_result Busy)) else (w\<lparr>cw_running := True\<rparr>, Run_read))"
| "advance E l w Run_read = (if \<not> lu_read l then (leave w, Raised)
     else if world_pending E w = [] then (w, Run_forget) else (w, Run_snapshot (world_pending E w)))"
| "advance E l w Run_forget = (leave (on_object forget_all w), Finished (plain_result Idle))"
| "advance E l w (Run_snapshot ids) = (w, if lu_snapshot l then Run_compare ids (cw_config w) (ce_config_hash E (cw_config w))
     else Run_failure (failed_result ids ''config snapshot'' (lu_exception l)))"
| "advance E l w (Run_compare ids cfg h) = (if \<not> lu_read l then (leave w, Raised)
     else (w, if fst (last_backup (ce_python E) (cw_data w)) = Some h then Run_noop ids h else Run_backup ids cfg h))"
| "advance E l w (Run_noop ids h) = run_commit E l w ids Noop h None"
| "advance E l w (Run_backup ids cfg h) = (case lu_backup l of
       None \<Rightarrow> (w, Run_failure (failed_result ids ''config backup'' (lu_exception l)))
     | Some b \<Rightarrow> (w\<lparr>cw_backups := cw_backups w @ [(b, ids, cfg)]\<rparr>,
         if backup_id_ok b then Run_commit ids h b else Run_failure (failed_result ids ''config backup'' (codes ''ValueError''))))"
| "advance E l w (Run_commit ids h b) = run_commit E l w ids Backup h (Some b)"
| "advance E l w (Run_success r) = (on_object (record_success (cw_clock w) (set (cr_change_ids r))) w, Poll_start (Then_finish r))"
| "advance E l w (Run_failure r) = (leave (on_object (record_failure E (cw_clock w) (the (cr_error r))) w), Finished r)"
| "advance E l w (Record_change action subject h h') = record_append E l w action subject h h'"
| "advance E l w (Record_note e) = (on_object (note_new_ids (cw_clock w) {je_change_id e}) w, Recorded e)"
| "advance E l w a = (w, a)"

fun at_rest :: "'cfg activity \<Rightarrow> bool" where
  "at_rest Rest \<longleftrightarrow> True"
| "at_rest (Counted n) \<longleftrightarrow> True"
| "at_rest (Finished r) \<longleftrightarrow> True"
| "at_rest (Recorded e) \<longleftrightarrow> True"
| "at_rest Raised \<longleftrightarrow> True"
| "at_rest _ \<longleftrightarrow> False"

text \<open>The public methods: \<open>poll\<close>, \<open>tick\<close>, \<open>run\<close> and \<open>record_change\<close>.\<close>

fun starts :: "'cfg activity \<Rightarrow> bool" where
  "starts (Poll_start k) \<longleftrightarrow> k = Return \<or> k = Then_tick"
| "starts Run_lock \<longleftrightarrow> True"
| "starts (Record_change action subject h h') \<longleftrightarrow> True"
| "starts _ \<longleftrightarrow> False"

subsection \<open>Interleaving\<close>

text \<open>The threads \<open>T\<close> call the object; other processes write the journal, the configuration changes, time passes.\<close>

type_synonym 'cfg coalescer_system = "'cfg coalescer_world \<times> (nat \<Rightarrow> 'cfg activity)"

inductive co_step :: "'cfg coalescer_env \<Rightarrow> nat set \<Rightarrow> 'cfg coalescer_system \<Rightarrow> 'cfg coalescer_system \<Rightarrow> bool" for E T where
  call: "i \<in> T \<Longrightarrow> at_rest (th i) \<Longrightarrow> starts a \<Longrightarrow> co_step E T (w, th) (w, th(i := a))"
| thread: "i \<in> T \<Longrightarrow> advance E l w (th i) = (w', a) \<Longrightarrow> co_step E T (w, th) (w', th(i := a))"
| other_write: "co_step E T (w, th) (written d w, th)"
| configure: "co_step E T (w, th) (w\<lparr>cw_config := cfg\<rparr>, th)"
| elapse: "0 \<le> d \<Longrightarrow> co_step E T (w, th) (w\<lparr>cw_clock := cw_clock w + d\<rparr>, th)"

text \<open>A fresh object beside any journal: no file, or one written before.\<close>

definition fresh_world :: "bytes \<Rightarrow> nat \<Rightarrow> 'cfg \<Rightarrow> rat \<Rightarrow> 'cfg coalescer_world" where
  "fresh_world data n cfg now = \<lparr>cw_data = (if n = 0 then [] else data), cw_writes = n, cw_config = cfg, cw_clock = now,
     cw_running = False, cw_backups = [], cw_object = new_coalescer\<rparr>"

inductive co_reach :: "'cfg coalescer_env \<Rightarrow> nat set \<Rightarrow> 'cfg coalescer_system \<Rightarrow> bool" for E T where
  fresh: "co_reach E T (fresh_world data n cfg now, \<lambda>_. Rest)"
| step: "co_reach E T s \<Longrightarrow> co_step E T s s' \<Longrightarrow> co_reach E T s'"

inductive_cases co_stepE: "co_step E T (w, th) s"

subsection \<open>One thread: every change is seen\<close>

lemma object_fields [simp]:
  "co_seen (forget_all c) = {}" "co_fingerprint (forget_all c) = co_fingerprint c"
  "co_seen (note_new_ids now ids c) = co_seen c \<union> ids" "co_fingerprint (note_new_ids now ids c) = co_fingerprint c"
  "co_seen (poll_take now fp ids c) = ids" "co_fingerprint (poll_take now fp ids c) = fp"
  "co_seen (record_success now ids c) = co_seen c - ids" "co_fingerprint (record_success now ids c) = co_fingerprint c"
  "co_seen (record_failure E now err c) = co_seen c" "co_fingerprint (record_failure E now err c) = co_fingerprint c"
  by (auto simp: forget_all_def reset_timers_def note_new_ids_def poll_take_def record_success_def record_failure_def Let_def)

lemma world_fields [simp]:
  "cw_data (written d w) = d" "cw_writes (written d w) = Suc (cw_writes w)" "cw_object (written d w) = cw_object w"
  "cw_data (leave w) = cw_data w" "cw_writes (leave w) = cw_writes w" "cw_object (leave w) = cw_object w"
  "cw_data (on_object f w) = cw_data w" "cw_writes (on_object f w) = cw_writes w" "cw_object (on_object f w) = f (cw_object w)"
  by (simp_all add: written_def leave_def on_object_def)

definition cached :: "'cfg coalescer_world \<Rightarrow> bool" where
  "cached w \<longleftrightarrow> co_fingerprint (cw_object w) = fingerprint w"

definition stamp_ok :: "'cfg coalescer_world \<Rightarrow> nat option \<Rightarrow> bool" where
  "stamp_ok w fp \<longleftrightarrow> (case fp of None \<Rightarrow> True | Some n \<Rightarrow> n \<le> cw_writes w)"

fun activity_ok :: "'cfg coalescer_env \<Rightarrow> 'cfg coalescer_world \<Rightarrow> 'cfg activity \<Rightarrow> bool" where
  "activity_ok E w (Poll_check fp k) \<longleftrightarrow> stamp_ok w fp"
| "activity_ok E w (Poll_read fp k) \<longleftrightarrow> stamp_ok w fp"
| "activity_ok E w (Poll_apply fp ids k) \<longleftrightarrow> stamp_ok w fp \<and> (fp = fingerprint w \<longrightarrow> set ids = set (world_pending E w))"
| "activity_ok E w Run_forget \<longleftrightarrow> (cached w \<longrightarrow> world_pending E w = [])"
| "activity_ok E w (Run_success r) \<longleftrightarrow> \<not> cached w"
| "activity_ok E w a \<longleftrightarrow> True"

definition object_ok :: "'cfg coalescer_env \<Rightarrow> 'cfg coalescer_world \<Rightarrow> bool" where
  "object_ok E w \<longleftrightarrow> (cw_writes w = 0 \<longrightarrow> cw_data w = []) \<and> stamp_ok w (co_fingerprint (cw_object w)) \<and>
     (cached w \<longrightarrow> set (world_pending E w) \<subseteq> co_seen (cw_object w))"

lemma fingerprint_stamp [simp]: "stamp_ok w (fingerprint w)"
  by (simp add: stamp_ok_def fingerprint_def)

lemma same_object:
  assumes "cw_data w' = cw_data w" and "cw_writes w' = cw_writes w" and "cw_object w' = cw_object w"
  shows "world_pending E w' = world_pending E w" "object_ok E w' = object_ok E w" "activity_ok E w' a = activity_ok E w a"
proof -
  have p: "world_pending E w' = world_pending E w" "cached w' = cached w" "stamp_ok w' = stamp_ok w" "fingerprint w' = fingerprint w"
    using assms by (auto simp: world_pending_def cached_def fingerprint_def stamp_ok_def fun_eq_iff split: option.splits)
  then show "world_pending E w' = world_pending E w" "object_ok E w' = object_ok E w" "activity_ok E w' a = activity_ok E w a"
    using assms by (simp_all add: object_ok_def) (cases a, simp_all)
qed

lemma unchanged_object [simp]:
  "object_ok E (leave w) = object_ok E w" "activity_ok E (leave w) a = activity_ok E w a"
  "object_ok E (w\<lparr>cw_running := b\<rparr>) = object_ok E w" "object_ok E (w\<lparr>cw_backups := bs\<rparr>) = object_ok E w"
  "object_ok E (w\<lparr>cw_config := cfg\<rparr>) = object_ok E w" "activity_ok E (w\<lparr>cw_config := cfg\<rparr>) a = activity_ok E w a"
  "object_ok E (w\<lparr>cw_clock := t\<rparr>) = object_ok E w" "activity_ok E (w\<lparr>cw_clock := t\<rparr>) a = activity_ok E w a"
  by (rule same_object; simp)+

lemma not_cached_written: "object_ok E w \<Longrightarrow> \<not> cached (written d w)"
  by (auto simp: object_ok_def stamp_ok_def cached_def fingerprint_def split: option.splits)

lemma stamp_written: "stamp_ok w fp \<Longrightarrow> stamp_ok (written d w) fp \<and> fp \<noteq> fingerprint (written d w)"
  by (auto simp: stamp_ok_def fingerprint_def split: option.splits)

lemma object_written: "object_ok E w \<Longrightarrow> object_ok E (written d w)"
  using not_cached_written[of E w d] by (simp add: object_ok_def stamp_written)

lemma activity_written: "object_ok E w \<Longrightarrow> activity_ok E w a \<Longrightarrow> activity_ok E (written d w) a"
  using not_cached_written[of E w d] by (cases a) (auto simp: stamp_written)

lemma object_maybe_written: "object_ok E w \<Longrightarrow> object_ok E (maybe_written d w)"
  by (simp add: maybe_written_def object_written)

lemma object_changed:
  assumes "object_ok E w" and "stamp_ok w (co_fingerprint (f (cw_object w)))"
    and "co_fingerprint (f (cw_object w)) = fingerprint w \<Longrightarrow> set (world_pending E w) \<subseteq> co_seen (f (cw_object w))"
  shows "object_ok E (on_object f w)"
  using assms by (auto simp: object_ok_def cached_def fingerprint_def stamp_ok_def world_pending_def split: option.splits)

lemma solo_poll_return: "poll_return w k = (w', a') \<Longrightarrow> object_ok E w \<Longrightarrow> object_ok E w' \<and> activity_ok E w' a'"
  by (auto simp: poll_return_def split: poll_caller.splits)

lemma solo_poll_raise: "poll_raise w k = (w', a') \<Longrightarrow> object_ok E w \<Longrightarrow> object_ok E w' \<and> activity_ok E w' a'"
  by (auto simp: poll_raise_def split: poll_caller.splits)

lemma solo_run_commit: "run_commit E l w ids oc h b = (w', a') \<Longrightarrow> object_ok E w \<Longrightarrow> object_ok E w' \<and> activity_ok E w' a'"
  by (auto simp: run_commit_def Let_def object_maybe_written object_written dest: not_cached_written split: prod.splits reply.splits)

lemma solo_record_append: "record_append E l w action subject h h' = (w', a') \<Longrightarrow> object_ok E w \<Longrightarrow> object_ok E w' \<and> activity_ok E w' a'"
  by (auto simp: record_append_def Let_def object_maybe_written object_written split: prod.splits sum.splits option.splits if_splits)

lemma advance_solo:
  assumes step: "advance E l w a = (w', a')" and ok: "object_ok E w" "activity_ok E w a"
  shows "object_ok E w' \<and> activity_ok E w' a'"
proof -
  note solo = solo_poll_return solo_poll_raise solo_run_commit solo_record_append
  have object: "stamp_ok w (co_fingerprint (cw_object w))" "cached w \<Longrightarrow> set (world_pending E w) \<subseteq> co_seen (cw_object w)"
    using ok(1) by (simp_all add: object_ok_def)
  show ?thesis
  proof (cases a)
    case (Poll_apply fp ids k)
    have "object_ok E (on_object (poll_take (cw_clock w) fp (set ids)) w)"
      using ok(2) Poll_apply by (intro object_changed[OF ok(1)]) auto
    then show ?thesis using step Poll_apply solo(1) by simp
  next
    case Run_forget
    have "object_ok E (on_object forget_all w)"
      using ok(2) object Run_forget by (intro object_changed[OF ok(1)]) (auto simp: cached_def)
    then show ?thesis using step Run_forget by auto
  next
    case (Run_success r)
    have "object_ok E (on_object (record_success (cw_clock w) (set (cr_change_ids r))) w)"
      using object ok(2) Run_success by (intro object_changed[OF ok(1)]) (auto simp: cached_def)
    then show ?thesis using step Run_success by auto
  next
    case (Run_failure r)
    have "object_ok E (on_object (record_failure E (cw_clock w) (the (cr_error r))) w)"
      using object by (intro object_changed[OF ok(1)]) (auto simp: cached_def)
    then show ?thesis using step Run_failure by auto
  next
    case (Record_note e)
    have "object_ok E (on_object (note_new_ids (cw_clock w) {je_change_id e}) w)"
      using object by (intro object_changed[OF ok(1)]) (auto simp: cached_def)
    then show ?thesis using step Record_note by auto
  next
    case (Poll_read fp k)
    then show ?thesis using step ok by (auto split: if_splits dest: solo_poll_raise)
  next
    case (Poll_check fp k)
    then show ?thesis using step ok by (auto split: if_splits dest: solo_poll_return)
  next
    case Run_read
    then show ?thesis using step ok(1) by (auto split: if_splits)
  next
    case (Run_backup ids cfg h)
    then show ?thesis using step ok(1) by (auto split: if_splits option.splits)
  next
    case (Run_compare ids cfg h)
    then show ?thesis using step ok(1) by (auto split: if_splits)
  qed (use step ok in \<open>auto dest: solo_run_commit solo_record_append split: if_splits\<close>)
qed

lemma starts_ok: "starts a \<Longrightarrow> activity_ok E w a"
  by (cases a) simp_all

text \<open>C9: one thread misses no change. However other processes write the journal between its steps, whenever the object
  takes the file for unchanged (and would not read it again), it has seen every pending change; so a tick that
  reports nothing to do either has nothing to do, or the file was written since it looked.\<close>

theorem sole_thread_sees_changes:
  assumes "co_reach E {0} (w, th)" and "cached w"
  shows "set (world_pending E w) \<subseteq> co_seen (cw_object w)"
proof -
  have "co_reach E {0} s \<Longrightarrow> object_ok E (fst s) \<and> activity_ok E (fst s) (snd s 0)" for s
  proof (induction rule: co_reach.induct)
    case (fresh data n cfg now)
    show ?case
      by (auto simp: object_ok_def fresh_world_def new_coalescer_def cached_def fingerprint_def stamp_ok_def world_pending_def pending_nothing)
  next
    case (step s s')
    then show ?case
      by (cases s) (auto elim!: co_stepE simp: object_written activity_written starts_ok dest: advance_solo)
  qed
  from this[OF assms(1)] assms(2) show ?thesis by (simp add: object_ok_def)
qed

subsection \<open>Several threads: a change can be stranded\<close>

text \<open>Steps in which nobody writes the journal and threads at rest call nothing but \<open>poll\<close> and \<open>tick\<close>.\<close>

definition quiet_step :: "'cfg coalescer_env \<Rightarrow> nat set \<Rightarrow> 'cfg coalescer_system \<Rightarrow> 'cfg coalescer_system \<Rightarrow> bool" where
  "quiet_step E T s s' \<longleftrightarrow> co_step E T s s' \<and> cw_writes (fst s') = cw_writes (fst s) \<and>
     (\<forall>i. at_rest (snd s i) \<longrightarrow> at_rest (snd s' i) \<or> (\<exists>k. snd s' i = Poll_start k))"

definition stranded :: "'cfg coalescer_env \<Rightarrow> 'cfg coalescer_world \<Rightarrow> bool" where
  "stranded E w \<longleftrightarrow> cached w \<and> fingerprint w \<noteq> None \<and> co_seen (cw_object w) = {} \<and> world_pending E w \<noteq> []"

fun harmless :: "'cfg coalescer_world \<Rightarrow> 'cfg activity \<Rightarrow> bool" where
  "harmless w (Poll_start k) \<longleftrightarrow> k = Return \<or> k = Then_tick"
| "harmless w (Poll_check fp k) \<longleftrightarrow> fp = fingerprint w \<and> (k = Return \<or> k = Then_tick)"
| "harmless w Tick_seen \<longleftrightarrow> True"
| "harmless w a \<longleftrightarrow> at_rest a"

lemma advance_stranded:
  assumes "stranded E w" and "harmless w a" and "advance E l w a = (w', a')"
  shows "w' = w \<and> harmless w a'"
  using assms by (cases a) (auto simp: stranded_def cached_def poll_unchanged_def poll_return_def split: if_splits)

lemma stranded_fields:
  "stranded E (w\<lparr>cw_config := cfg\<rparr>) = stranded E w" "stranded E (w\<lparr>cw_clock := t\<rparr>) = stranded E w"
  "harmless (w\<lparr>cw_config := cfg\<rparr>) a = harmless w a" "harmless (w\<lparr>cw_clock := t\<rparr>) a = harmless w a"
proof -
  have f: "fingerprint (w\<lparr>cw_config := cfg\<rparr>) = fingerprint w" "fingerprint (w\<lparr>cw_clock := t\<rparr>) = fingerprint w"
    by (simp_all add: fingerprint_def)
  then show "stranded E (w\<lparr>cw_config := cfg\<rparr>) = stranded E w" "stranded E (w\<lparr>cw_clock := t\<rparr>) = stranded E w"
    by (simp_all add: stranded_def cached_def world_pending_def)
  show "harmless (w\<lparr>cw_config := cfg\<rparr>) a = harmless w a" "harmless (w\<lparr>cw_clock := t\<rparr>) a = harmless w a"
    using f by (cases a, simp_all)+
qed

lemma quiet_stranded:
  assumes "quiet_step E T (w, th) (w', th')" and "stranded E w" and "\<forall>i. harmless w (th i)"
  shows "stranded E w' \<and> (\<forall>i. harmless w' (th' i)) \<and> cw_data w' = cw_data w \<and> cw_backups w' = cw_backups w"
proof -
  have "co_step E T (w, th) (w', th')" and quiet: "cw_writes w' = cw_writes w"
    "\<forall>i. at_rest (th i) \<longrightarrow> at_rest (th' i) \<or> (\<exists>k. th' i = Poll_start k)"
    using assms(1) by (simp_all add: quiet_step_def)
  from this(1) show ?thesis
  proof (cases rule: co_step.cases)
    case (call i a)
    have "at_rest a \<or> (\<exists>k. a = Poll_start k)" using quiet(2) call by (auto dest: spec[of _ i])
    then have "harmless w a" using call by (cases a) auto
    then show ?thesis using call assms(2,3) by simp
  next
    case (thread i l a)
    then have "w' = w \<and> harmless w a" using advance_stranded[OF assms(2), of "th i"] assms(3) by simp
    then show ?thesis using thread assms(2,3) by simp
  next
    case (other_write d)
    then show ?thesis using quiet(1) by simp
  qed (use assms in \<open>simp_all add: stranded_fields\<close>)
qed

text \<open>Thread 0 makes a run that finds nothing pending. Before it forgets what the object has seen, another process
  appends a change, and a poll of thread 1 sees it and remembers the fingerprint of the file.\<close>

definition two :: "'cfg activity \<Rightarrow> 'cfg activity \<Rightarrow> nat \<Rightarrow> 'cfg activity" where
  "two a b = (\<lambda>_. Rest)(0 := a, 1 := b)"

lemma two_simps [simp]: "two a b 0 = a" "two a b (Suc 0) = b" "(two a b)(0 := c) = two c b" "(two a b)(Suc 0 := c) = two a c"
  "at_rest a \<Longrightarrow> at_rest b \<Longrightarrow> at_rest (two a b i)" "harmless w a \<Longrightarrow> harmless w b \<Longrightarrow> harmless w (two a b i)"
  by (auto simp: two_def fun_eq_iff)

lemma two_rest: "(\<lambda>_. Rest) = two Rest Rest"
  by (auto simp: two_def fun_eq_iff)

lemma reach_two:
  assumes "co_reach E {0, 1} (w, two a b)"
  shows "advance E l w a = (w', c) \<Longrightarrow> co_reach E {0, 1} (w', two c b)"
    "advance E l w b = (w', c) \<Longrightarrow> co_reach E {0, 1} (w', two a c)"
    "at_rest a \<Longrightarrow> starts c \<Longrightarrow> co_reach E {0, 1} (w, two c b)" "at_rest b \<Longrightarrow> starts c \<Longrightarrow> co_reach E {0, 1} (w, two a c)"
    "co_reach E {0, 1} (written d w, two a b)"
  using co_reach.step[OF assms] co_step.thread[of 0 "{0, 1}" E l w "two a b" w' c] co_step.thread[of 1 "{0, 1}" E l w "two a b" w' c]
    co_step.call[of 0 "{0, 1}" "two a b" c E w] co_step.call[of 1 "{0, 1}" "two a b" c E w] co_step.other_write[of E "{0, 1}" w "two a b" d]
  by simp_all

lemma strand:
  assumes "pending (ce_python E) d \<noteq> []"
  shows "\<exists>w n. co_reach E {0, 1} (w, two (Finished (plain_result Idle)) (Counted n)) \<and> stranded E w \<and> cw_data w = d"
proof -
  define l where "l = \<lparr>lu_read = True, lu_flock = True, lu_snapshot = True, lu_backup = None, lu_torn = None, lu_times = (epoch_time, epoch_time),
     lu_uids = ([], []), lu_exception = []\<rparr>"
  define w0 :: "'a coalescer_world" where "w0 = fresh_world [] 0 undefined 0"
  define w1 where "w1 = w0\<lparr>cw_running := True\<rparr>"
  define w2 where "w2 = written d w1"
  define ids where "ids = world_pending E w2"
  define w3 where "w3 = on_object (poll_take (cw_clock w2) (Some 1) (set ids)) w2"
  define w4 where "w4 = leave (on_object forget_all w3)"
  have l: "lu_read l" "lu_flock l" by (simp_all add: l_def)
  have "co_reach E {0, 1} (w0, two Rest Rest)"
    using co_reach.fresh[of E "{0, 1}" "[]" 0 undefined 0] by (simp add: w0_def two_rest)
  then have "co_reach E {0, 1} (w0, two Run_lock Rest)" by (rule reach_two(3)) simp_all
  then have "co_reach E {0, 1} (w1, two Run_read Rest)"
    by (rule reach_two(1)[where l = l]) (simp add: l w1_def w0_def fresh_world_def)
  then have "co_reach E {0, 1} (w1, two Run_forget Rest)"
    by (rule reach_two(1)[where l = l]) (simp add: l w1_def w0_def fresh_world_def world_pending_def pending_nothing)
  then have "co_reach E {0, 1} (w2, two Run_forget Rest)" unfolding w2_def by (rule reach_two(5))
  then have "co_reach E {0, 1} (w2, two Run_forget (Poll_start Return))" by (rule reach_two(4)) simp_all
  then have "co_reach E {0, 1} (w2, two Run_forget (Poll_check (Some 1) Return))"
    by (rule reach_two(2)[where l = l]) (simp add: fingerprint_def w2_def w1_def w0_def fresh_world_def)
  then have "co_reach E {0, 1} (w2, two Run_forget (Poll_read (Some 1) Return))"
    by (rule reach_two(2)[where l = l]) (simp add: poll_unchanged_def w2_def w1_def w0_def fresh_world_def new_coalescer_def)
  then have "co_reach E {0, 1} (w2, two Run_forget (Poll_apply (Some 1) ids Return))"
    by (rule reach_two(2)[where l = l]) (simp add: l ids_def)
  then have "co_reach E {0, 1} (w3, two Run_forget (Counted (card (set ids))))"
    by (rule reach_two(2)[where l = l]) (simp add: w3_def poll_return_def)
  then have "co_reach E {0, 1} (w4, two (Finished (plain_result Idle)) (Counted (card (set ids))))"
    by (rule reach_two(1)[where l = l]) (simp add: w4_def)
  moreover have "cw_data w4 = d" "world_pending E w4 = ids" "fingerprint w4 = Some 1" "co_fingerprint (cw_object w4) = Some 1" "co_seen (cw_object w4) = {}"
    by (simp_all add: w4_def w3_def w2_def w1_def w0_def fresh_world_def fingerprint_def world_pending_def ids_def)
  moreover have "ids \<noteq> []" using assms by (simp add: ids_def world_pending_def w2_def)
  ultimately show ?thesis by (auto simp: stranded_def cached_def)
qed

text \<open>C21: with several threads a change can be stranded: there is an execution of a run and a poll after which both threads are
  done, a change is pending, and however long the object polls and ticks from then on, it takes no backup of that
  change, because it has forgotten the change but remembers the file. (One thread alone never does this.)\<close>

theorem idle_run_strands_change:
  assumes "pending (ce_python E) d \<noteq> []"
  shows "\<exists>w th. co_reach E {0, 1} (w, th) \<and> (\<forall>i. at_rest (th i)) \<and> cw_data w = d \<and>
    (\<forall>w' th'. (quiet_step E {0, 1})\<^sup>*\<^sup>* (w, th) (w', th') \<longrightarrow>
       world_pending E w' = world_pending E w \<and> co_seen (cw_object w') = {} \<and> cw_backups w' = cw_backups w)"
proof -
  obtain w n where w: "co_reach E {0, 1} (w, two (Finished (plain_result Idle)) (Counted n))" "stranded E w" "cw_data w = d"
    using strand[OF assms] by blast
  let ?th = "two (Finished (plain_result Idle)) (Counted n) :: nat \<Rightarrow> 'a activity"
  have "(quiet_step E {0, 1})\<^sup>*\<^sup>* (w, ?th) s \<Longrightarrow> stranded E (fst s) \<and> (\<forall>i. harmless (fst s) (snd s i)) \<and>
      cw_data (fst s) = cw_data w \<and> cw_backups (fst s) = cw_backups w" for s
  proof (induction rule: rtranclp_induct)
    case base
    show ?case using w(2) by simp
  next
    case (step s s')
    then show ?case using quiet_stranded[of E "{0, 1}" "fst s" "snd s" "fst s'" "snd s'"] by simp
  qed
  then have "world_pending E w' = world_pending E w \<and> co_seen (cw_object w') = {} \<and> cw_backups w' = cw_backups w"
    if "(quiet_step E {0, 1})\<^sup>*\<^sup>* (w, ?th) (w', th')" for w' th'
    using that by (fastforce simp: stranded_def world_pending_def)
  then show ?thesis using w(1,3) by (intro exI[of _ w] exI[of _ ?th]) simp
qed

subsection \<open>Deadlines\<close>

definition timers_ok :: "'cfg coalescer_env \<Rightarrow> rat \<Rightarrow> coalescer \<Rightarrow> bool" where
  "timers_ok E now c \<longleftrightarrow> (co_first_seen c = None \<longleftrightarrow> co_seen c = {}) \<and> (co_last_seen c = None \<longleftrightarrow> co_seen c = {}) \<and>
     (\<forall>t. co_first_seen c = Some t \<or> co_last_seen c = Some t \<longrightarrow> t \<le> now) \<and>
     (\<forall>t. co_retry_at c = Some t \<longrightarrow> t \<le> now + ce_max_delay E)"

lemma timers_later: "timers_ok E now c \<Longrightarrow> 0 \<le> d \<Longrightarrow> timers_ok E (now + d) c"
  by (fastforce simp: timers_ok_def)

lemma timers_steps:
  assumes "timers_ok E now c"
  shows "timers_ok E now (note_new_ids now ids c)" "timers_ok E now (forget_all c)" "timers_ok E now (poll_take now fp ids c)"
    "timers_ok E now (record_success now ids c)" "timers_ok E now (record_failure E now err c)"
  using assms
  by (auto simp: timers_ok_def note_new_ids_def forget_all_def reset_timers_def poll_take_def record_success_def record_failure_def
      retry_delay_def Let_def split: option.splits)

lemma advance_timers:
  assumes "advance E l w a = (w', a')" and "timers_ok E (cw_clock w) (cw_object w)"
  shows "timers_ok E (cw_clock w') (cw_object w')"
  using assms
  by (cases a) (auto simp: timers_steps leave_def on_object_def written_def maybe_written_def run_commit_def record_append_def
      poll_return_def poll_raise_def Let_def split: if_splits option.splits poll_caller.splits prod.splits reply.splits sum.splits)

lemma reach_timers: "co_reach E T s \<Longrightarrow> init_guard E \<Longrightarrow> timers_ok E (cw_clock (fst s)) (cw_object (fst s))"
proof (induction rule: co_reach.induct)
  case (fresh data n cfg now)
  then show ?case by (simp add: timers_ok_def fresh_world_def new_coalescer_def)
next
  case (step s s')
  then show ?case
    by (cases s) (auto elim!: co_stepE simp: timers_later written_def dest: advance_timers)
qed

text \<open>C22: whatever the threads do and however often backups fail, a run is due exactly when the object has seen a change, and
  it is never further away than the maximum delay.\<close>

theorem due_within_max_delay:
  assumes "co_reach E T (w, th)" and "init_guard E"
  shows "(case seconds_until_due E (cw_clock w) (cw_object w) of
      None \<Rightarrow> co_seen (cw_object w) = {} | Some r \<Rightarrow> co_seen (cw_object w) \<noteq> {} \<and> 0 \<le> r \<and> r \<le> ce_max_delay E)"
  using reach_timers[OF assms] assms(2)
  by (auto simp: timers_ok_def seconds_until_due_def init_guard_def Let_def split: option.splits)

subsection \<open>What a backup contains\<close>

text \<open>Executions as lists of the systems they pass through.\<close>

inductive co_run :: "'cfg coalescer_env \<Rightarrow> nat set \<Rightarrow> 'cfg coalescer_system list \<Rightarrow> bool" for E T where
  fresh: "co_run E T [(fresh_world data n cfg now, \<lambda>_. Rest)]"
| step: "co_run E T ss \<Longrightarrow> co_step E T (last ss) s \<Longrightarrow> co_run E T (ss @ [s])"

definition was_pending :: "'cfg coalescer_env \<Rightarrow> 'cfg coalescer_system list \<Rightarrow> utext list \<Rightarrow> bool" where
  "was_pending E ss ids \<longleftrightarrow> ids \<noteq> [] \<and> (\<exists>s\<in>set ss. ids = world_pending E (fst s))"

definition captured :: "'cfg coalescer_env \<Rightarrow> 'cfg coalescer_system list \<Rightarrow> utext list \<Rightarrow> 'cfg \<Rightarrow> bool" where
  "captured E ss ids cfg \<longleftrightarrow> (\<exists>j<length ss. was_pending E (take (Suc j) ss) ids \<and> cfg = cw_config (fst (ss ! j)))"

fun activity_captured :: "'cfg coalescer_env \<Rightarrow> 'cfg coalescer_system list \<Rightarrow> 'cfg activity \<Rightarrow> bool" where
  "activity_captured E ss (Run_snapshot ids) \<longleftrightarrow> was_pending E ss ids"
| "activity_captured E ss (Run_compare ids cfg h) \<longleftrightarrow> captured E ss ids cfg \<and> h = ce_config_hash E cfg"
| "activity_captured E ss (Run_noop ids h) \<longleftrightarrow> (\<exists>cfg. captured E ss ids cfg \<and> h = ce_config_hash E cfg)"
| "activity_captured E ss (Run_backup ids cfg h) \<longleftrightarrow> captured E ss ids cfg \<and> h = ce_config_hash E cfg"
| "activity_captured E ss (Run_commit ids h b) \<longleftrightarrow>
     (\<exists>cfg. (b, ids, cfg) \<in> set (cw_backups (fst (last ss))) \<and> captured E ss ids cfg \<and> h = ce_config_hash E cfg)"
| "activity_captured E ss a \<longleftrightarrow> True"

lemma was_pending_append: "was_pending E ss ids \<Longrightarrow> was_pending E (ss @ [s]) ids"
  by (auto simp: was_pending_def)

lemma captured_append:
  assumes "captured E ss ids cfg"
  shows "captured E (ss @ [s]) ids cfg"
proof -
  obtain j where "j < length ss" "was_pending E (take (Suc j) ss) ids" "cfg = cw_config (fst (ss ! j))"
    using assms by (auto simp: captured_def)
  then show ?thesis unfolding captured_def by (intro exI[of _ j]) (simp add: nth_append)
qed

lemma captured_now:
  assumes "was_pending E ss ids"
  shows "captured E (ss @ [s]) ids (cw_config (fst (last ss)))"
proof -
  have "ss \<noteq> []" using assms by (auto simp: was_pending_def)
  then show ?thesis
    using assms unfolding captured_def by (intro exI[of _ "length ss - 1"]) (simp add: nth_append last_conv_nth)
qed

lemma captured_hash: "captured E ss ids cfg \<Longrightarrow> \<exists>cfg'. captured E (ss @ [s]) ids cfg' \<and> ce_config_hash E cfg = ce_config_hash E cfg'"
  by (rule exI[of _ cfg]) (simp add: captured_append)

lemma activity_captured_append:
  assumes "activity_captured E ss a" and "set (cw_backups (fst (last ss))) \<subseteq> set (cw_backups (fst s))"
  shows "activity_captured E (ss @ [s]) a"
  using assms by (cases a) (auto intro: was_pending_append captured_append)

lemma backups_grow: "advance E l w a = (w', a') \<Longrightarrow> set (cw_backups w) \<subseteq> set (cw_backups w')"
  by (cases a) (auto simp: leave_def on_object_def written_def maybe_written_def run_commit_def record_append_def
      poll_return_def poll_raise_def Let_def split: if_splits option.splits poll_caller.splits prod.splits reply.splits sum.splits)

lemma advance_captured:
  assumes "advance E l (fst (last ss)) a = (w', a')" and "activity_captured E ss a" and "ss \<noteq> []"
  shows "activity_captured E (ss @ [(w', th)]) a' \<and>
    (\<forall>(b, ids, cfg)\<in>set (cw_backups w') - set (cw_backups (fst (last ss))). captured E (ss @ [(w', th)]) ids cfg)"
proof -
  have here: "world_pending E (fst (last ss)) \<noteq> [] \<Longrightarrow> was_pending E (ss @ [s]) (world_pending E (fst (last ss)))" for s
    using last_in_set[OF assms(3)] by (auto simp: was_pending_def)
  show ?thesis
  proof (cases a)
    case (Run_backup ids cfg h)
    then have c: "captured E (ss @ [(w', th)]) ids cfg" "h = ce_config_hash E cfg" using assms(2) captured_append by auto
    moreover have "activity_captured E (ss @ [(w', th)]) a'"
      using assms(1) Run_backup c by (cases "lu_backup l") (auto split: if_splits intro!: exI[of _ cfg])
    ultimately show ?thesis using assms(1) Run_backup by (auto split: option.splits)
  qed (use assms(1,2) here in \<open>auto simp: leave_def on_object_def written_def maybe_written_def run_commit_def record_append_def
      poll_return_def poll_raise_def Let_def captured_now captured_append captured_hash
      split: if_splits option.splits poll_caller.splits prod.splits reply.splits sum.splits\<close>)
qed

lemma starts_captured: "starts a \<Longrightarrow> activity_captured E ss a"
  by (cases a) simp_all

text \<open>The commits of a run: the ids, the outcome, the hash and the backup.\<close>

fun commit_of_run :: "'cfg activity \<Rightarrow> (utext list \<times> commit_outcome \<times> utext \<times> utext option) option" where
  "commit_of_run (Run_noop ids h) = Some (ids, Noop, h, None)"
| "commit_of_run (Run_commit ids h b) = Some (ids, Backup, h, Some b)"
| "commit_of_run a = None"

text \<open>A journal whose last line is not blank, and a compaction, if there is one, that finds a clean file.\<close>

definition tidy_journal :: "'cfg coalescer_env \<Rightarrow> luck \<Rightarrow> utext list \<times> commit_outcome \<times> utext \<times> utext option \<Rightarrow> bytes \<Rightarrow> bytes \<Rightarrow> bool" where
  "tidy_journal E l = (\<lambda>(ids, oc, h, b) data data'.
     let written = with_commit (ce_python E) (fst (lu_times l)) ids oc (Some h) b data
     in sound_tail data \<and> list_all spelled ids \<and>
       (lu_torn l = None \<and> data' \<noteq> data \<and> data' \<noteq> written \<longrightarrow> compactable (ce_python E) (ce_journal E) (snd (lu_uids l)) written data'))"

lemma run_commit_marks:
  assumes "run_commit E l w ids oc h b = (w', a)" and "tidy_journal E l (ids, oc, h, b) (cw_data w) (cw_data w')"
  shows "marks_only (ce_python E) ids (oc, b) (cw_data w) (cw_data w')"
proof -
  let ?P = "ce_python E" and ?at = "fst (lu_times l)"
  let ?ds = "map (\<lambda>c. commit_record ?at c oc b (Some h)) (chunks commit_ids_per_record ids)"
  have t: "sound_tail (cw_data w)" "list_all spelled ids"
    and k: "lu_torn l = None \<Longrightarrow> cw_data w' \<noteq> cw_data w \<Longrightarrow> cw_data w' \<noteq> with_commit ?P ?at ids oc (Some h) b (cw_data w) \<Longrightarrow>
      compactable ?P (ce_journal E) (snd (lu_uids l)) (with_commit ?P ?at ids oc (Some h) b (cw_data w)) (cw_data w')"
    using assms(2) by (simp_all add: tidy_journal_def Let_def)
  obtain reply where c: "try_commit E l ids oc h b (cw_data w) = (cw_data w', reply)"
    using assms(1) by (auto simp: run_commit_def Let_def maybe_written_def split: prod.splits reply.splits if_splits)
  have same: "marks_only ?P ids (oc, b) (cw_data w) (cw_data w)" by (rule marks_only_commits) simp
  show ?thesis
  proof (cases "lu_torn l")
    case None
    obtain err where "commit_changes ?P (ce_journal E) (?at, snd (lu_times l)) (snd (lu_uids l)) ids oc (Some h) b (cw_data w) = (cw_data w', err)"
      using c None by (auto simp: try_commit_def split: prod.splits)
    then show ?thesis using commit_changes_marks[OF _ t(2,1)] k[OF None] by blast
  next
    case (Some n)
    have "append_records ?P ?ds (cw_data w) = Inl err \<Longrightarrow> err = ValueError" for err by (auto simp: append_records_def split: if_splits)
    then have "cw_data w' = cw_data w \<or> commit_guard oc b (Some h) \<and> (\<exists>d. append_records ?P ?ds (cw_data w) = Inr d) \<and>
        cw_data w' = cw_data w @ take n (payload ?P ?ds (cw_data w))"
      using c Some by (cases "append_records ?P ?ds (cw_data w)") (auto simp: try_commit_def Let_def split: if_splits)
    then show ?thesis using same torn_commit_marks[OF t(1) _ t(2)] by metis
  qed
qed

text \<open>C8: a backup contains the changes it is said to contain. Whatever the threads, other processes and callbacks do, the
  changes named with a backup were the pending changes of some moment, and the snapshot it archived is the
  configuration of that moment or a later one. A commit is for such changes and that snapshot, and what it writes, whole,
  torn or compacted, marks them and no others: a change that is committed afterwards is one of them, with this backup,
  or was committed before. (A change is journalled after its mutation, so the snapshot has it. For what a commit
  writes, the journal is one without a blank last line, and a compaction finds a clean file.)\<close>

theorem backups_contain_their_changes:
  assumes "co_run E T ss"
  shows "(\<forall>(b, ids, cfg)\<in>set (cw_backups (fst (last ss))). captured E ss ids cfg) \<and>
    (\<forall>i ids oc h b. commit_of_run (snd (last ss) i) = Some (ids, oc, h, b) \<longrightarrow>
       (\<exists>cfg. captured E ss ids cfg \<and> h = ce_config_hash E cfg \<and>
          (case b of None \<Rightarrow> oc = Noop | Some b \<Rightarrow> oc = Backup \<and> (b, ids, cfg) \<in> set (cw_backups (fst (last ss))))) \<and>
       (\<forall>l w' a. advance E l (fst (last ss)) (snd (last ss) i) = (w', a) \<and>
          tidy_journal E l (ids, oc, h, b) (cw_data (fst (last ss))) (cw_data w') \<longrightarrow>
          marks_only (ce_python E) ids (oc, b) (cw_data (fst (last ss))) (cw_data w')))"
proof -
  have "ss \<noteq> [] \<and> (\<forall>(b, ids, cfg)\<in>set (cw_backups (fst (last ss))). captured E ss ids cfg) \<and> (\<forall>i. activity_captured E ss (snd (last ss) i))"
    using assms
  proof (induction rule: co_run.induct)
    case (fresh data n cfg now)
    show ?case by (simp add: fresh_world_def)
  next
    case (step ss s)
    obtain w th where last: "last ss = (w, th)" by fastforce
    have ih: "ss \<noteq> []" "\<And>b ids cfg. (b, ids, cfg) \<in> set (cw_backups w) \<Longrightarrow> captured E ss ids cfg" "\<And>i. activity_captured E ss (th i)"
      using step.IH last by auto
    have keep: "activity_captured E (ss @ [s]) (th i)" if "set (cw_backups w) \<subseteq> set (cw_backups (fst s))" for i s
      using activity_captured_append[of E ss "th i" s] ih(3) that last by simp
    have same: ?case if "cw_backups (fst s) = cw_backups w" "\<And>i. snd s i = th i \<or> starts (snd s i)"
    proof -
      have "activity_captured E (ss @ [s]) (snd s i)" for i
        using that(2)[of i] keep[of s i] that(1) starts_captured by auto
      then show ?thesis using that(1) ih by (auto intro: captured_append)
    qed
    from step.hyps(2)[unfolded last] show ?case
    proof (cases rule: co_step.cases)
      case (thread i l w' a)
      then have s: "s = (w', th(i := a))" and adv: "advance E l w (th i) = (w', a)" by simp_all
      have new: "activity_captured E (ss @ [s]) a" "\<forall>(b, ids, cfg)\<in>set (cw_backups w') - set (cw_backups w). captured E (ss @ [s]) ids cfg"
        using advance_captured[of E l ss "th i" w' a "th(i := a)"] adv ih(1,3) last by (simp_all add: s)
      have "\<forall>(b, ids, cfg)\<in>set (cw_backups w'). captured E (ss @ [s]) ids cfg"
        using new(2) ih(2) captured_append[of E ss _ _ s] by blast
      moreover have "activity_captured E (ss @ [s]) (snd s j)" for j
        using new(1) keep[of s j] backups_grow[OF adv] by (simp add: s)
      ultimately show ?thesis by (simp add: s)
    qed (use same in \<open>auto simp: written_def\<close>)
  qed
  then have all: "\<forall>(b, ids, cfg)\<in>set (cw_backups (fst (last ss))). captured E ss ids cfg" "\<And>i. activity_captured E ss (snd (last ss) i)"
    by simp_all
  have "(\<exists>cfg. captured E ss ids cfg \<and> h = ce_config_hash E cfg \<and>
          (case b of None \<Rightarrow> oc = Noop | Some b \<Rightarrow> oc = Backup \<and> (b, ids, cfg) \<in> set (cw_backups (fst (last ss))))) \<and>
       (advance E l (fst (last ss)) (snd (last ss) i) = (w', a) \<and>
          tidy_journal E l (ids, oc, h, b) (cw_data (fst (last ss))) (cw_data w') \<longrightarrow>
          marks_only (ce_python E) ids (oc, b) (cw_data (fst (last ss))) (cw_data w'))"
    if "commit_of_run (snd (last ss) i) = Some (ids, oc, h, b)" for i ids oc h b l w' a
    using that all(2)[of i] run_commit_marks[of E l "fst (last ss)" ids oc h b w' a]
    by (cases "snd (last ss) i") (auto intro: exI)
  then show ?thesis using all(1) by blast
qed

subsection \<open>Concrete executions\<close>

text \<open>The journal holds one change; a poll sees it and a run backs it up.\<close>

definition demo_env :: "nat coalescer_env" where
  "demo_env = \<lparr>ce_python = plain_python, ce_journal = plain_config, ce_quiet_period = 30, ce_max_delay = 600, ce_config_hash = (\<lambda>_. zeros 64)\<rparr>"

definition demo_luck :: luck where
  "demo_luck = \<lparr>lu_read = True, lu_flock = True, lu_snapshot = True, lu_backup = Some (codes ''b1''), lu_torn = None,
     lu_times = (epoch_time, epoch_time), lu_uids = (zeros 32, zeros 24), lu_exception = []\<rparr>"

definition demo_ids :: "utext list" where
  "demo_ids = [codes ''chg_'' @ zeros 32]"

definition demo_start :: "nat coalescer_world" where
  "demo_start = fresh_world one_line 1 7 0"

definition demo_polled :: "nat coalescer_world" where
  "demo_polled = on_object (poll_take 0 (Some 1) (set demo_ids)) demo_start"

definition demo_backed_up :: "nat coalescer_world" where
  "demo_backed_up = demo_polled\<lparr>cw_running := True, cw_backups := [(codes ''b1'', demo_ids, 7)]\<rparr>"

definition alone :: "'cfg activity \<Rightarrow> nat \<Rightarrow> 'cfg activity" where
  "alone a = (\<lambda>_. Rest)(0 := a)"

lemma alone_simps [simp]: "alone a 0 = a" "(alone a)(0 := c) = alone c"
  by (simp_all add: alone_def)

lemma reach_alone:
  assumes "co_reach E {0} (w, alone a)"
  shows "advance E l w a = (w', c) \<Longrightarrow> co_reach E {0} (w', alone c)" "at_rest a \<Longrightarrow> starts c \<Longrightarrow> co_reach E {0} (w, alone c)"
  using co_reach.step[OF assms] co_step.thread[of 0 "{0}" E l w "alone a" w' c] co_step.call[of 0 "{0}" "alone a" c E w] by simp_all

lemma demo_pending: "world_pending demo_env w = demo_ids" if "cw_data w = one_line"
  using that by (simp add: world_pending_def demo_env_def demo_ids_def pending_change_ids pending_ids_parse one_line_ids)

lemma demo_data [simp]: "cw_data demo_start = one_line" "cw_data demo_polled = one_line" "fingerprint demo_start = Some 1"
    "fingerprint demo_polled = Some 1" "co_fingerprint (cw_object demo_polled) = Some 1" "co_seen (cw_object demo_polled) = set demo_ids"
    "cw_running demo_polled = False" "cw_config demo_polled = 7" "cw_backups demo_polled = []" "cw_clock demo_polled = 0"
  by (simp_all add: demo_start_def demo_polled_def fresh_world_def fingerprint_def) (simp_all add: on_object_def)

lemma demo_poll: "co_reach demo_env {0} (demo_polled, alone (Counted 1))"
proof -
  have l: "lu_read demo_luck" by (simp add: demo_luck_def)
  have "co_reach demo_env {0} (demo_start, alone Rest)"
    using co_reach.fresh[of demo_env "{0}" one_line 1 7 0] by (simp add: demo_start_def alone_def fun_upd_idem)
  then have "co_reach demo_env {0} (demo_start, alone (Poll_start Return))" by (rule reach_alone(2)) simp_all
  then have "co_reach demo_env {0} (demo_start, alone (Poll_check (Some 1) Return))" by (rule reach_alone(1)[where l = demo_luck]) simp
  then have "co_reach demo_env {0} (demo_start, alone (Poll_read (Some 1) Return))"
    by (rule reach_alone(1)[where l = demo_luck]) (simp add: poll_unchanged_def demo_start_def fresh_world_def new_coalescer_def)
  then have "co_reach demo_env {0} (demo_start, alone (Poll_apply (Some 1) demo_ids Return))"
    by (rule reach_alone(1)[where l = demo_luck]) (simp add: l demo_pending)
  then show ?thesis
    by (rule reach_alone(1)[where l = demo_luck])
      (simp add: poll_return_def demo_polled_def demo_start_def fresh_world_def on_object_def demo_ids_def)
qed

lemma demo_last_backup: "last_backup plain_python one_line = (None, None)"
  by (simp add: last_backup_def one_line_state mark_committed_def add_entry_def new_state_def Let_def)

lemma demo_run: "co_reach demo_env {0} (demo_backed_up, alone (Run_commit demo_ids (zeros 64) (codes ''b1'')))"
proof -
  let ?w = "demo_polled\<lparr>cw_running := True\<rparr>"
  have l: "lu_read demo_luck" "lu_flock demo_luck" "lu_snapshot demo_luck" "lu_backup demo_luck = Some (codes ''b1'')"
    by (simp_all add: demo_luck_def)
  have p: "world_pending demo_env ?w = demo_ids" "demo_ids \<noteq> []" by (simp_all add: demo_pending demo_ids_def)
  have "co_reach demo_env {0} (demo_polled, alone Run_lock)" by (rule reach_alone(2)[OF demo_poll]) simp_all
  then have "co_reach demo_env {0} (?w, alone Run_read)" by (rule reach_alone(1)[where l = demo_luck]) (simp add: l)
  then have "co_reach demo_env {0} (?w, alone (Run_snapshot demo_ids))" by (rule reach_alone(1)[where l = demo_luck]) (simp add: l p)
  then have "co_reach demo_env {0} (?w, alone (Run_compare demo_ids 7 (zeros 64)))"
    by (rule reach_alone(1)[where l = demo_luck]) (simp add: l demo_env_def)
  then have "co_reach demo_env {0} (?w, alone (Run_backup demo_ids 7 (zeros 64)))"
    by (rule reach_alone(1)[where l = demo_luck]) (simp add: l demo_env_def demo_last_backup)
  then show ?thesis
    by (rule reach_alone(1)[where l = demo_luck])
      (simp add: l demo_backed_up_def backup_id_ok_def codes_simps Let_def between_def is_digit_def)
qed

lemma run_reaches: "co_reach E T s \<Longrightarrow> \<exists>ss. co_run E T ss \<and> last ss = s"
proof (induction rule: co_reach.induct)
  case (fresh data n cfg now)
  show ?case by (rule exI[of _ "[(fresh_world data n cfg now, \<lambda>_. Rest)]"]) (simp add: co_run.fresh)
next
  case (step s s')
  then obtain ss where "co_run E T ss" "last ss = s" by blast
  then show ?case using step.hyps(2) by (intro exI[of _ "ss @ [s']"]) (simp add: co_run.step)
qed

lemma sole_thread_sees_changes_witness: "set demo_ids \<subseteq> co_seen (cw_object demo_polled) \<and> demo_ids \<noteq> []"
  using sole_thread_sees_changes[OF demo_poll] by (simp add: cached_def demo_pending demo_ids_def)

lemma idle_run_strands_change_witness: "\<exists>(w :: nat coalescer_world) th. co_reach demo_env {0, 1} (w, th) \<and> cw_data w = one_line"
proof -
  have "pending (ce_python demo_env) one_line \<noteq> []"
    using demo_pending[of demo_start] by (auto simp: world_pending_def demo_ids_def)
  from idle_run_strands_change[OF this] show ?thesis by blast
qed

lemma due_within_max_delay_witness: "\<exists>r. seconds_until_due demo_env 0 (cw_object demo_polled) = Some r \<and> r \<le> 600"
proof -
  have "init_guard demo_env" by (simp add: init_guard_def demo_env_def)
  from due_within_max_delay[OF demo_poll this] show ?thesis
    by (auto simp: demo_ids_def demo_env_def split: option.splits)
qed

lemma backups_contain_their_changes_witness:
  "\<exists>ss. co_run demo_env {0} ss \<and> captured demo_env ss demo_ids 7 \<and> marks_only plain_python demo_ids (Backup, Some (codes ''b1'')) one_line one_commit"
proof -
  let ?a = "Run_commit demo_ids (zeros 64) (codes ''b1'') :: nat activity"
  obtain ss where ss: "co_run demo_env {0} ss" "last ss = (demo_backed_up, alone ?a)"
    using run_reaches[OF demo_run] by blast
  note b = backups_contain_their_changes[OF ss(1), unfolded ss(2) fst_conv snd_conv]
  have d: "cw_data demo_backed_up = one_line" by (simp add: demo_backed_up_def)
  have c: "commit_of_run (alone ?a 0) = Some (demo_ids, Backup, zeros 64, Some (codes ''b1''))" by simp
  obtain w' a where step: "advance demo_env demo_luck demo_backed_up (alone ?a 0) = (w', a)" by fastforce
  then have w': "cw_data w' = one_commit"
    using one_commit_fits(2) by (auto simp: run_commit_def try_commit_def demo_luck_def demo_env_def d demo_ids_def Let_def)
  moreover have "tidy_journal demo_env demo_luck (demo_ids, Backup, zeros 64, Some (codes ''b1'')) one_line one_commit"
    using one_line_sound one_commit_fits(3) by (simp add: tidy_journal_def demo_luck_def demo_env_def demo_ids_def)
  ultimately have "marks_only plain_python demo_ids (Backup, Some (codes ''b1'')) one_line one_commit"
    using conjunct2[OF spec[OF spec[OF spec[OF spec[OF spec[OF conjunct2[OF b]]]]], THEN mp, OF c], rule_format, OF conjI[OF step]]
    by (simp add: d demo_env_def)
  moreover have "captured demo_env ss demo_ids 7" using b by (auto simp: demo_backed_up_def)
  ultimately show ?thesis using ss(1) by blast
qed

end
