(* ===== verification/Config_Hash.thy ===== *)
theory Config_Hash
  imports Json_Text
begin

text \<open>
  \<open>canonicalize_config\<close> and \<open>canonical_config_hash\<close> of \<open>history_service/backup_archive/journal.py\<close>: the form of a set
  of configuration documents that decides whether a backup is needed. \<open>pyval\<close> are the values a JSON or YAML
  document can hold; \<open>json\<close> is what the canonical form is made of. The digest, \<open>str\<close> of a value that is not a
  text, and the UTC spelling of a time with a zone are arguments.

  Shown: two sets of JSON documents have the same hash exactly when they agree everywhere but on volatile keys,
  in whatever order their keys are written.
\<close>

subsection \<open>Canonical form\<close>

datatype pyval =
    PNone
  | PBool bool
  | PInt int
  | PFloat utext
  | PStr utext
  | PBytes bytes
  | PDatetime bool utext
  | PDate utext
  | PDict "(pyval \<times> pyval) list"
  | PList "pyval list"
  | PTuple "pyval list"
  | PSet "pyval list"
  | POther nat

text \<open>A time is its \<open>isoformat\<close> and whether it has a zone; a set is its members as the code iterates them.\<close>

record hash_env =
  he_python :: python
  he_str :: "pyval \<Rightarrow> utext"
  he_utc :: "utext \<Rightarrow> utext"
  he_sha256 :: "bytes \<Rightarrow> utext"

definition default_volatile_keys :: "utext set" where
  "default_volatile_keys = set (map codes [''checked_at'', ''collected_at'', ''exported_at'', ''generated_at'', ''last_seen'',
     ''last_seen_at'', ''observed_at'', ''refreshed_at'', ''saved_at'', ''updated_at''])"

definition str_of :: "hash_env \<Rightarrow> pyval \<Rightarrow> utext" where
  "str_of E v = (case v of PStr s \<Rightarrow> s | _ \<Rightarrow> he_str E v)"

fun canonicalize_config :: "hash_env \<Rightarrow> utext set \<Rightarrow> pyval \<Rightarrow> json" where
  "canonicalize_config E V (PDict d) = JObj (obj_of (filter (\<lambda>(k, v). k \<notin> V)
     (sort_key fst (map (\<lambda>(k, v). (str_of E k, canonicalize_config E V v)) d))))"
| "canonicalize_config E V (PList vs) = JList (map (canonicalize_config E V) vs)"
| "canonicalize_config E V (PTuple vs) = JList (map (canonicalize_config E V) vs)"
| "canonicalize_config E V (PSet vs) = JList (sort_key (stable_json (he_python E)) (map (canonicalize_config E V) vs))"
| "canonicalize_config E V (PDatetime aware s) = JStr (if aware then he_utc E s else s)"
| "canonicalize_config E V (PDate s) = JStr s"
| "canonicalize_config E V (PBytes b) = JObj [(codes ''sha256'', JStr (he_sha256 E b)), (codes ''size'', JInt (int (length b)))]"
| "canonicalize_config E V PNone = JNull"
| "canonicalize_config E V (PBool b) = JBool b"
| "canonicalize_config E V (PInt i) = JInt i"
| "canonicalize_config E V (PFloat x) = JFloat x"
| "canonicalize_config E V (PStr s) = JStr s"
| "canonicalize_config E V (POther n) = JStr (he_str E (POther n))"

text \<open>\<open>None\<close>: the printing raises, on a float or an integer that \<open>json.dumps\<close> refuses.\<close>

definition canonical_config_hash :: "hash_env \<Rightarrow> utext set \<Rightarrow> (pyval \<times> pyval) list \<Rightarrow> utext option" where
  "canonical_config_hash E V config =
     (let v = canonicalize_config E V (PDict config)
      in if has_text (py_float_finite (he_python E)) v then Some (he_sha256 E (stable_json (he_python E) v)) else None)"

subsection \<open>JSON documents\<close>

text \<open>What \<open>json.loads\<close> makes of a document.\<close>

fun loaded :: "json \<Rightarrow> pyval" where
  "loaded JNull = PNone"
| "loaded (JBool b) = PBool b"
| "loaded (JInt i) = PInt i"
| "loaded (JFloat x) = PFloat x"
| "loaded (JStr s) = PStr s"
| "loaded (JList vs) = PList (map loaded vs)"
| "loaded (JObj d) = PDict (map (\<lambda>(k, v). (PStr k, loaded v)) d)"

text \<open>Two documents say the same: they agree at every key that is not volatile.\<close>

inductive same_config :: "utext set \<Rightarrow> json \<Rightarrow> json \<Rightarrow> bool" for V where
  atom: "(\<And>vs. v \<noteq> JList vs) \<Longrightarrow> (\<And>d. v \<noteq> JObj d) \<Longrightarrow> same_config V v v"
| list: "list_all2 (same_config V) vs ws \<Longrightarrow> same_config V (JList vs) (JList ws)"
| obj: "(\<And>k. k \<notin> V \<Longrightarrow> rel_option (same_config V) (map_of d k) (map_of e k)) \<Longrightarrow> same_config V (JObj d) (JObj e)"

text \<open>The canonical form of a JSON document, in the order in which it is printed.\<close>

abbreviation canonical :: "hash_env \<Rightarrow> utext set \<Rightarrow> json \<Rightarrow> json" where
  "canonical E V a \<equiv> canonicalize_config E V (loaded a)"

abbreviation printed_order :: "hash_env \<Rightarrow> utext set \<Rightarrow> json \<Rightarrow> json" where
  "printed_order E V a \<equiv> sort_keys (canonical E V a)"

lemma map_of_filter_keys: "map_of (filter (\<lambda>(k, v). P k) d) k = (if P k then map_of d k else None)"
  by (induction d) auto

lemma keys_map: "map fst (map (\<lambda>(k, v). (k, f v)) d) = map fst d"
  by (auto simp: case_prod_beta)

lemma distinct_filter_keys: "distinct (map fst d) \<Longrightarrow> distinct (map fst (filter P d))"
  by (induction d) auto

lemma canonical_obj:
  assumes "distinct (map fst d)"
  shows "canonical E V (JObj d) = JObj (filter (\<lambda>(k, v). k \<notin> V) (sort_key fst (map (\<lambda>(k, v). (k, canonical E V v)) d)))"
proof -
  have "distinct (map fst (sort_key fst (map (\<lambda>(k, v). (k, canonical E V v)) d)))"
    using assms by (intro map_of_sort_key(2)) (simp only: keys_map)
  moreover have "map (\<lambda>(k, v). (str_of E k, canonicalize_config E V v)) (map (\<lambda>(k, v). (PStr k, loaded v)) d) = map (\<lambda>(k, v). (k, canonical E V v)) d"
    by (auto simp: str_of_def)
  ultimately show ?thesis
    unfolding loaded.simps canonicalize_config.simps by (simp only: obj_of_distinct distinct_filter_keys)
qed

lemma printed_order_obj:
  assumes d: "distinct (map fst d)"
  obtains n where "printed_order E V (JObj d) = JObj n" "sorted (map fst n)" "distinct (map fst n)"
    "\<And>k. map_of n k = (if k \<in> V then None else map_option (printed_order E V) (map_of d k))"
proof -
  let ?c = "filter (\<lambda>(k, v). k \<notin> V) (sort_key fst (map (\<lambda>(k, v). (k, canonical E V v)) d))"
  let ?n = "sort_key fst (map (\<lambda>(k, v). (k, sort_keys v)) ?c)"
  have dc: "distinct (map fst ?c)" using d by (intro distinct_filter_keys map_of_sort_key(2)) (simp only: keys_map)
  have "map_of ?n k = (if k \<in> V then None else map_option (printed_order E V) (map_of d k))" for k
    unfolding map_of_sort_keys[OF dc] map_of_filter_keys[where P = "\<lambda>k. k \<notin> V"]
    unfolding map_of_sort_keys[OF d] by (simp add: option.map_comp comp_def)
  moreover have "distinct (map fst ?n)" by (rule map_of_sort_key(2)) (use dc in \<open>simp only: keys_map\<close>)
  moreover have "printed_order E V (JObj d) = JObj ?n" by (simp only: canonical_obj[OF d] sort_keys.simps)
  ultimately show thesis by (intro that[of ?n]) simp_all
qed

lemma sorted_keys_unique:
  assumes "sorted (map fst (xs :: (utext \<times> 'b) list))" "distinct (map fst xs)" "sorted (map fst ys)" "distinct (map fst ys)" "map_of xs = map_of ys"
  shows "xs = ys"
proof -
  have set: "set xs = set ys" using assms(2,4,5) by (metis map_of_inject_set)
  have "inj_on fst (set xs \<union> set ys)" using assms(2) set by (simp add: distinct_map)
  then show ?thesis using map_sorted_distinct_set_unique[OF _ assms(1,2,3,4) set] by blast
qed

lemma readable_members: "readable (JObj d) \<Longrightarrow> map_of d k = Some v \<Longrightarrow> readable v"
  by (auto simp: list_all_iff dest!: map_of_SomeD)

lemma same_printed: "same_config V a b \<Longrightarrow> readable a \<Longrightarrow> readable b \<Longrightarrow> printed_order E V a = printed_order E V b"
proof (induction rule: same_config.induct)
  case (list vs ws)
  then show ?case by (auto simp: list_all_iff list_all2_conv_all_nth intro!: nth_equalityI)
next
  case (obj d e)
  obtain n where n: "printed_order E V (JObj d) = JObj n" "sorted (map fst n)" "distinct (map fst n)"
    "\<And>k. map_of n k = (if k \<in> V then None else map_option (printed_order E V) (map_of d k))"
    using printed_order_obj[of d] obj.prems(1) by (metis readable.simps(5))
  obtain m where m: "printed_order E V (JObj e) = JObj m" "sorted (map fst m)" "distinct (map fst m)"
    "\<And>k. map_of m k = (if k \<in> V then None else map_option (printed_order E V) (map_of e k))"
    using printed_order_obj[of e] obj.prems(2) by (metis readable.simps(5))
  have "map_of n k = map_of m k" for k
  proof (cases "k \<in> V")
    case False
    then show ?thesis
      using obj.IH[OF False] readable_members[OF obj.prems(1)] readable_members[OF obj.prems(2)]
      by (cases "map_of d k"; cases "map_of e k") (auto simp: n(4) m(4))
  qed (simp add: n(4) m(4))
  then show ?case using sorted_keys_unique[OF n(2,3) m(2,3)] n(1) m(1) by auto
qed simp

text \<open>The kind of a value is that of its printed form.\<close>

lemma printed_list: "printed_order E V (JList vs) = JList (map (printed_order E V) vs)"
  by simp

lemma printed_obj: "\<exists>n. printed_order E V (JObj d) = JObj n"
  by (simp only: loaded.simps canonicalize_config.simps sort_keys.simps) blast

lemma printed_kinds [simp]:
  "printed_order E V v = JNull \<longleftrightarrow> v = JNull" "printed_order E V v = JBool b \<longleftrightarrow> v = JBool b" "printed_order E V v = JInt i \<longleftrightarrow> v = JInt i"
  "printed_order E V v = JFloat x \<longleftrightarrow> v = JFloat x" "printed_order E V v = JStr s \<longleftrightarrow> v = JStr s"
  by (cases v; simp only: loaded.simps canonicalize_config.simps sort_keys.simps json.inject json.distinct)+

lemmas kinds_printed [simp] = printed_kinds[THEN trans[OF eq_commute]]

lemma printed_JListD: "printed_order E V v = JList ws \<Longrightarrow> \<exists>vs. v = JList vs"
  by (cases v) (simp_all only: loaded.simps canonicalize_config.simps sort_keys.simps json.inject json.distinct, blast)

lemma printed_JObjD: "printed_order E V v = JObj n \<Longrightarrow> \<exists>d. v = JObj d"
  by (cases v) (simp_all only: loaded.simps canonicalize_config.simps sort_keys.simps json.inject json.distinct, blast)

lemma map_eq_nth:
  assumes "map f vs = map f ws"
  shows "length vs = length ws" "i < length vs \<Longrightarrow> f (vs ! i) = f (ws ! i)"
  using assms by (metis length_map, metis length_map nth_map)

lemma printed_same: "printed_order E V a = printed_order E V b \<Longrightarrow> readable a \<Longrightarrow> readable b \<Longrightarrow> same_config V a b"
proof (induction a arbitrary: b)
  case (JList vs)
  obtain ws where b: "b = JList ws" using JList.prems(1) unfolding printed_list by (metis printed_JListD)
  then have "map (printed_order E V) vs = map (printed_order E V) ws" using JList.prems(1) by (simp only: printed_list json.inject)
  note l = map_eq_nth[OF this]
  have "same_config V (vs ! i) (ws ! i)" if i: "i < length vs" for i
  proof (rule JList.IH[OF nth_mem[OF i] l(2)[OF i]])
    show "readable (vs ! i)" "readable (ws ! i)" using JList.prems(2,3) i l(1) unfolding b by (simp_all add: list_all_length)
  qed
  then show ?case unfolding b by (intro same_config.list list_all2_all_nthI l(1))
next
  case (JObj d)
  obtain e where b: "b = JObj e" using printed_obj[of E V d] JObj.prems(1) by (metis printed_JObjD)
  have dist: "distinct (map fst d)" "distinct (map fst e)" using JObj.prems(2,3) by (simp_all add: b)
  obtain n where n: "printed_order E V (JObj d) = JObj n" "\<And>k. map_of n k = (if k \<in> V then None else map_option (printed_order E V) (map_of d k))"
    by (rule printed_order_obj[OF dist(1), of E V]) blast
  obtain m where m: "printed_order E V (JObj e) = JObj m" "\<And>k. map_of m k = (if k \<in> V then None else map_option (printed_order E V) (map_of e k))"
    by (rule printed_order_obj[OF dist(2), of E V]) blast
  have "n = m" using n(1) m(1) JObj.prems(1) by (simp only: b json.inject)
  then have eq: "map_option (printed_order E V) (map_of d k) = map_option (printed_order E V) (map_of e k)" if "k \<notin> V" for k
    using n(2)[of k] m(2)[of k] that by simp
  have "rel_option (same_config V) (map_of d k) (map_of e k)" if k: "k \<notin> V" for k
  proof (cases "map_of d k")
    case None
    then show ?thesis using eq[OF k] by simp
  next
    case (Some v)
    then obtain w where w: "map_of e k = Some w" "printed_order E V v = printed_order E V w" using eq[OF k] by (cases "map_of e k") auto
    have "same_config V v w"
      using JObj.IH[of "(k, v)" v w] map_of_SomeD[OF Some] w(2) readable_members[OF JObj.prems(2) Some] readable_members[OF JObj.prems(3)[unfolded b] w(1)]
      by simp
    then show ?thesis using Some w(1) by simp
  qed
  then show ?case unfolding b by (rule same_config.obj)
qed (simp_all add: same_config.atom)

lemma readable_canonical: "readable a \<Longrightarrow> readable (canonical E V a)"
proof (induction a)
  case (JObj d)
  then have d: "distinct (map fst d)" and ok: "\<And>k v. (k, v) \<in> set d \<Longrightarrow> spelled k \<and> readable (canonical E V v)"
    by (auto simp: list_all_iff)
  let ?c = "filter (\<lambda>(k, v). k \<notin> V) (sort_key fst (map (\<lambda>(k, v). (k, canonical E V v)) d))"
  have "distinct (map fst ?c)" using d by (intro distinct_filter_keys map_of_sort_key(2)) (simp only: keys_map)
  moreover have "\<forall>(k, v)\<in>set ?c. spelled k \<and> readable v" using ok by auto
  ultimately show ?case unfolding canonical_obj[OF d] readable.simps list_all_iff by (rule conjI)
qed (auto simp: list_all_iff)

lemma readable_has_text: "readable v \<Longrightarrow> has_text fin v"
proof (induction v)
  case (JObj d)
  then show ?case by (auto simp: list_all_iff)
qed (auto simp: list_all_iff)

text \<open>C20: a backup is taken exactly when the configuration changed. Two sets of JSON documents have the same canonical hash
  if and only if they agree at every key that is not volatile, at every depth and in whatever order the keys are
  written, provided that the digest tells their canonical texts apart. (Documents without floats.)\<close>

theorem hash_decides_change:
  assumes "readable (JObj a)" and "readable (JObj b)"
    and "inj_on (he_sha256 E) {stable_json (he_python E) (canonical E V (JObj a)), stable_json (he_python E) (canonical E V (JObj b))}"
  shows "canonical_config_hash E V (map (\<lambda>(k, v). (PStr k, loaded v)) a) = canonical_config_hash E V (map (\<lambda>(k, v). (PStr k, loaded v)) b) \<longleftrightarrow>
    same_config V (JObj a) (JObj b)"
proof -
  let ?text = "\<lambda>a. stable_json (he_python E) (canonical E V a)"
  have hash: "canonical_config_hash E V (map (\<lambda>(k, v). (PStr k, loaded v)) c) = Some (he_sha256 E (?text (JObj c)))" if "readable (JObj c)" for c
    using readable_has_text[OF readable_canonical[OF that, of E V]] by (simp only: canonical_config_hash_def loaded.simps Let_def if_True)
  have "?text (JObj a) = ?text (JObj b) \<longleftrightarrow> printed_order E V (JObj a) = printed_order E V (JObj b)"
    using loads_stable_json[OF readable_canonical[OF assms(1)], of "he_python E" E V] loads_stable_json[OF readable_canonical[OF assms(2)], of "he_python E" E V]
    by (metis option.inject stable_json_def)
  also have "\<dots> \<longleftrightarrow> same_config V (JObj a) (JObj b)" using same_printed printed_same assms(1,2) by blast
  finally show ?thesis
    unfolding hash[OF assms(1)] hash[OF assms(2)] option.inject inj_on_eq_iff[OF assms(3) insertI1 insertI2[OF singletonI]] .
qed

subsection \<open>A concrete configuration\<close>

text \<open>Saved twice: only the time of the save and the order of the keys differ. Then a bay is renamed.\<close>

definition plain_hash :: hash_env where
  "plain_hash = \<lparr>he_python = \<lparr>py_decode = (\<lambda>_. None), py_float_repr = id, py_float_zero = (\<lambda>_. False), py_float_finite = (\<lambda>_. True)\<rparr>,
     he_str = (\<lambda>_. []), he_utc = id, he_sha256 = id\<rparr>"

definition saved_doc :: "utext \<Rightarrow> int \<Rightarrow> (utext \<times> json) list" where
  "saved_doc name time = [(codes ''name'', JStr name), (codes ''saved_at'', JInt time)]"

definition resaved_doc :: "utext \<Rightarrow> int \<Rightarrow> (utext \<times> json) list" where
  "resaved_doc name time = [(codes ''saved_at'', JInt time), (codes ''name'', JStr name)]"

lemma docs_readable: "readable (JObj (saved_doc [97] 1))" "readable (JObj (resaved_doc [97] 2))" "readable (JObj (resaved_doc [98] 2))"
  by (simp_all add: saved_doc_def resaved_doc_def codes_simps high_surrogate_def low_surrogate_def digits10.simps[of 2] digits10.simps[of "Suc 0"])

lemma docs_same: "same_config default_volatile_keys (JObj (saved_doc [97] 1)) (JObj (resaved_doc [x] 2)) \<longleftrightarrow> x = 97"
proof -
  have volatile: "codes ''saved_at'' \<in> default_volatile_keys" "codes ''name'' \<notin> default_volatile_keys"
    by (simp_all add: default_volatile_keys_def codes_simps)
  have "map_of (saved_doc [97] 1) (codes ''name'') = Some (JStr [97])" "map_of (resaved_doc [x] 2) (codes ''name'') = Some (JStr [x])"
    by (simp_all add: saved_doc_def resaved_doc_def codes_simps)
  then have "x = 97" if "same_config default_volatile_keys (JObj (saved_doc [97] 1)) (JObj (resaved_doc [x] 2))"
    using that volatile(2) by (auto elim!: same_config.cases dest!: spec[of _ "codes ''name''"])
  moreover have "same_config default_volatile_keys (JObj (saved_doc [97] 1)) (JObj (resaved_doc [97] 2))"
    using volatile by (intro same_config.obj) (auto simp: saved_doc_def resaved_doc_def intro!: same_config.atom)
  ultimately show ?thesis by blast
qed

lemma hash_decides_change_witness:
  "\<exists>h h'. canonical_config_hash plain_hash default_volatile_keys (map (\<lambda>(k, v). (PStr k, loaded v)) (saved_doc [97] 1)) = h \<and>
     canonical_config_hash plain_hash default_volatile_keys (map (\<lambda>(k, v). (PStr k, loaded v)) (resaved_doc [97] 2)) = h \<and>
     canonical_config_hash plain_hash default_volatile_keys (map (\<lambda>(k, v). (PStr k, loaded v)) (resaved_doc [98] 2)) = h' \<and> h \<noteq> h'"
proof -
  have inj: "inj_on (he_sha256 plain_hash) A" for A by (simp add: plain_hash_def)
  show ?thesis
    using hash_decides_change[OF docs_readable(1,2) inj, of default_volatile_keys] hash_decides_change[OF docs_readable(1,3) inj, of default_volatile_keys]
      docs_same[of 97] docs_same[of 98] by simp
qed

end
