(* ===== verification/Stream_Envelope.thy ===== *)
theory Stream_Envelope
  imports Json_Text
begin

text \<open>
  The encrypted archive format \<open>TJBENC02\<close> of \<open>history_service/backup_archive/stream_envelope.py\<close>: a header, then
  one authenticated record for every chunk of the plaintext, the last one marked in its nonce. \<open>sealer\<close> is
  \<open>StreamSealer\<close> with its output so far, \<open>decrypt_file\<close> the reader; files are their bytes, and an error means
  that the output file is removed. AES-256-GCM and scrypt are arguments.

  Shown: what is sealed, in writes of any sizes, decrypts to the bytes written; no nonce is used twice; and when
  the cipher accepts nothing but what was sealed, a file that decrypts is the sealed file, byte for byte.
\<close>

subsection \<open>The format\<close>

record envelope_env =
  en_derive :: "utext \<Rightarrow> bytes \<Rightarrow> nat \<Rightarrow> nat \<Rightarrow> nat \<Rightarrow> bytes option"
  en_encrypt :: "bytes \<Rightarrow> bytes \<Rightarrow> bytes \<Rightarrow> bytes \<Rightarrow> bytes"
  en_decrypt :: "bytes \<Rightarrow> bytes \<Rightarrow> bytes \<Rightarrow> bytes \<Rightarrow> bytes option"

text \<open>\<open>en_derive\<close>: passphrase, salt, log2 N, r, p; \<open>None\<close> when the key derivation raises. The cipher: key, nonce, data,
  associated data.\<close>

datatype envelope_error =
    Passphrase_required
  | Unsupported_chunk_size
  | Struct_error
  | Key_error
  | Already_sealed
  | Too_large
  | Corrupt
  | Newer_version
  | Larger_than_accepted
  | Decrypt_failed

definition magic :: bytes where
  "magic = codes ''TJBENC02''"

definition format_version :: nat where
  "format_version = 1"

definition header_bytes :: nat where
  "header_bytes = 48"

definition tag_bytes :: nat where
  "tag_bytes = 16"

definition salt_bytes :: nat where
  "salt_bytes = 16"

definition nonce_prefix_bytes :: nat where
  "nonce_prefix_bytes = 7"

definition default_chunk_log2 :: int where
  "default_chunk_log2 = 20"

definition default_scrypt :: "int \<times> int \<times> int" where
  "default_scrypt = (15, 8, 1)"

definition max_records :: nat where
  "max_records = 2 ^ 32 - 1"

definition scrypt_max_memory :: nat where
  "scrypt_max_memory = 512 * 1024 * 1024"

definition is_stream_envelope :: "bytes \<Rightarrow> bool" where
  "is_stream_envelope s \<longleftrightarrow> take (length magic) s = magic"

text \<open>\<open>struct\<close> packs one byte or raises.\<close>

definition pack_header :: "int \<times> int \<times> int \<Rightarrow> int \<Rightarrow> bytes \<Rightarrow> bytes \<Rightarrow> bytes option" where
  "pack_header = (\<lambda>(n, r, p) chunk_log2 salt prefix.
     if list_all (\<lambda>v. 0 \<le> v \<and> v \<le> 255) [n, r, p, chunk_log2]
     then Some (magic @ [format_version, nat n, nat r, nat p, nat chunk_log2] @ replicate 3 0 @ salt @ prefix @ replicate 9 0)
     else None)"

definition be4 :: "nat \<Rightarrow> bytes" where
  "be4 i = [i div 2 ^ 24 mod 256, i div 2 ^ 16 mod 256, i div 2 ^ 8 mod 256, i mod 256]"

definition nonce :: "bytes \<Rightarrow> nat \<Rightarrow> bool \<Rightarrow> envelope_error + bytes" where
  "nonce prefix i final = (if max_records < i then Inl Too_large else Inr (prefix @ be4 i @ [if final then 1 else 0]))"

subsection \<open>Sealing\<close>

record sealer =
  sl_header :: bytes
  sl_prefix :: bytes
  sl_key :: bytes
  sl_chunk :: nat
  sl_buffer :: bytes
  sl_index :: nat
  sl_output :: bytes
  sl_closed :: bool
  sl_bytes_in :: nat
  sl_bytes_out :: nat

text \<open>The two random values, the salt and the nonce prefix, are an argument.\<close>

definition new_sealer :: "envelope_env \<Rightarrow> utext \<Rightarrow> int \<Rightarrow> int \<times> int \<times> int \<Rightarrow> bytes \<times> bytes \<Rightarrow> envelope_error + sealer" where
  "new_sealer E pw chunk_log2 scrypt = (\<lambda>(salt, prefix).
     if pw = [] then Inl Passphrase_required
     else if \<not> (16 \<le> chunk_log2 \<and> chunk_log2 < 25) then Inl Unsupported_chunk_size
     else case pack_header scrypt chunk_log2 salt prefix of None \<Rightarrow> Inl Struct_error
       | Some h \<Rightarrow> (case scrypt of (n, r, p) \<Rightarrow> case en_derive E pw salt (nat n) (nat r) (nat p) of None \<Rightarrow> Inl Key_error
           | Some k \<Rightarrow> Inr \<lparr>sl_header = h, sl_prefix = prefix, sl_key = k, sl_chunk = 2 ^ nat chunk_log2, sl_buffer = [], sl_index = 0,
               sl_output = h, sl_closed = False, sl_bytes_in = 0, sl_bytes_out = header_bytes\<rparr>))"

definition seal :: "envelope_env \<Rightarrow> sealer \<Rightarrow> bytes \<Rightarrow> bool \<Rightarrow> envelope_error + sealer" where
  "seal E s chunk final = (case nonce (sl_prefix s) (sl_index s) final of Inl e \<Rightarrow> Inl e
     | Inr n \<Rightarrow> (let rec = en_encrypt E (sl_key s) n chunk (sl_header s) in
         Inr (s\<lparr>sl_output := sl_output s @ rec, sl_bytes_out := sl_bytes_out s + length rec, sl_index := sl_index s + 1\<rparr>)))"

text \<open>The loop of \<open>write\<close>. A sealer's chunk is never empty.\<close>

function drain :: "envelope_env \<Rightarrow> sealer \<Rightarrow> sealer \<times> envelope_error option" where
  "drain E s = (if 0 < sl_chunk s \<and> sl_chunk s < length (sl_buffer s)
     then case seal E s (take (sl_chunk s) (sl_buffer s)) False of Inl e \<Rightarrow> (s, Some e)
       | Inr s' \<Rightarrow> drain E (s'\<lparr>sl_buffer := drop (sl_chunk s) (sl_buffer s)\<rparr>)
     else (s, None))"
  by auto
termination
  by (relation "measure (\<lambda>(E, s). length (sl_buffer s))") auto

definition write_bytes :: "envelope_env \<Rightarrow> sealer \<Rightarrow> bytes \<Rightarrow> sealer \<times> (envelope_error + nat)" where
  "write_bytes E s data = (if sl_closed s then (s, Inl Already_sealed)
     else case drain E (s\<lparr>sl_bytes_in := sl_bytes_in s + length data, sl_buffer := sl_buffer s @ data\<rparr>) of
       (s', None) \<Rightarrow> (s', Inr (length data)) | (s', Some e) \<Rightarrow> (s', Inl e))"

definition close_sealer :: "envelope_env \<Rightarrow> sealer \<Rightarrow> sealer \<times> envelope_error option" where
  "close_sealer E s = (if sl_closed s then (s, None)
     else case seal E s (sl_buffer s) True of Inl e \<Rightarrow> (s, Some e)
       | Inr s' \<Rightarrow> (s'\<lparr>sl_buffer := [], sl_closed := True\<rparr>, None))"

fun write_all :: "envelope_env \<Rightarrow> sealer \<Rightarrow> bytes list \<Rightarrow> envelope_error + sealer" where
  "write_all E s [] = Inr s"
| "write_all E s (d # ds) = (case write_bytes E s d of (s', Inl e) \<Rightarrow> Inl e | (s', Inr n) \<Rightarrow> write_all E s' ds)"

text \<open>A sealer that is made, fed and closed, and \<open>encrypt_file\<close>, which feeds it what \<open>read\<close> returns.\<close>

definition seal_file :: "envelope_env \<Rightarrow> utext \<Rightarrow> int \<Rightarrow> int \<times> int \<times> int \<Rightarrow> bytes \<times> bytes \<Rightarrow> bytes list \<Rightarrow> envelope_error + sealer" where
  "seal_file E pw chunk_log2 scrypt rnd ds = (case new_sealer E pw chunk_log2 scrypt rnd of Inl e \<Rightarrow> Inl e
     | Inr s \<Rightarrow> (case write_all E s ds of Inl e \<Rightarrow> Inl e
         | Inr s' \<Rightarrow> (case close_sealer E s' of (s'', Some e) \<Rightarrow> Inl e | (s'', None) \<Rightarrow> Inr s'')))"

function pieces :: "nat \<Rightarrow> bytes \<Rightarrow> bytes list" where
  "pieces n data = (if n = 0 \<or> data = [] then [] else take n data # pieces n (drop n data))"
  by auto
termination
  by (relation "measure (\<lambda>(n, data). length data)") (auto simp: not_le)

definition encrypt_file :: "envelope_env \<Rightarrow> utext \<Rightarrow> bytes \<times> bytes \<Rightarrow> nat \<Rightarrow> bytes \<Rightarrow> envelope_error + bytes \<times> nat" where
  "encrypt_file E pw rnd read_bytes data = (case seal_file E pw default_chunk_log2 default_scrypt rnd (pieces read_bytes data) of
     Inl e \<Rightarrow> Inl e | Inr s \<Rightarrow> Inr (sl_output s, sl_bytes_out s))"

subsection \<open>Opening\<close>

record envelope_header =
  eh_header :: bytes
  eh_chunk_size :: nat
  eh_scrypt :: "nat \<times> nat \<times> nat"
  eh_salt :: bytes
  eh_prefix :: bytes

definition read_header :: "bytes \<Rightarrow> envelope_error + envelope_header" where
  "read_header data =
     (let h = take header_bytes data in
      if length h \<noteq> header_bytes then Inl Corrupt
      else let n = h ! 9; r = h ! 10; p = h ! 11; chunk_log2 = h ! 12 in
        if take 8 h \<noteq> magic then Inl Corrupt
        else if h ! 8 \<noteq> format_version then Inl Newer_version
        else if take 3 (drop 13 h) \<noteq> replicate 3 0 \<or> drop 39 h \<noteq> replicate 9 0 \<or> \<not> (16 \<le> chunk_log2 \<and> chunk_log2 < 25) \<or>
          \<not> (14 \<le> n \<and> n < 21) \<or> \<not> (1 \<le> r \<and> r < 17) \<or> \<not> (1 \<le> p \<and> p < 5) \<or> scrypt_max_memory < 128 * r * 2 ^ n * p then Inl Corrupt
        else Inr \<lparr>eh_header = h, eh_chunk_size = 2 ^ chunk_log2, eh_scrypt = (n, r, p), eh_salt = take 16 (drop 16 h),
          eh_prefix = take 7 (drop 32 h)\<rparr>)"

text \<open>The loop over the records: the number of records left, the index of the next, and the rest of the file.\<close>

fun open_records :: "envelope_env \<Rightarrow> bytes \<Rightarrow> envelope_header \<Rightarrow> nat \<Rightarrow> nat \<Rightarrow> nat \<Rightarrow> bytes \<Rightarrow> envelope_error + bytes \<times> bytes" where
  "open_records E k H remainder 0 i data = Inr ([], data)"
| "open_records E k H remainder (Suc left) i data =
     (let final = (left = 0);
          wanted = (if \<not> final \<or> remainder = 0 then eh_chunk_size H + tag_bytes else remainder);
          rec = take wanted data
      in if length rec \<noteq> wanted then Inl Corrupt
         else case nonce (eh_prefix H) i final of Inl e \<Rightarrow> Inl e
           | Inr n \<Rightarrow> (case en_decrypt E k n rec (eh_header H) of None \<Rightarrow> Inl (if i = 0 then Decrypt_failed else Corrupt)
               | Some p \<Rightarrow> (case open_records E k H remainder left (i + 1) (drop wanted data) of Inl e \<Rightarrow> Inl e
                   | Inr (q, rest) \<Rightarrow> Inr (p @ q, rest))))"

text \<open>\<open>file_size\<close> is the size that \<open>stat\<close> reported, \<open>data\<close> what the reads return.\<close>

definition decrypt_file :: "envelope_env \<Rightarrow> utext option \<Rightarrow> nat \<Rightarrow> nat \<Rightarrow> bytes \<Rightarrow> envelope_error + bytes" where
  "decrypt_file E pw max_output file_size data =
     (if pw = None \<or> pw = Some [] then Inl Passphrase_required
      else case read_header data of Inl e \<Rightarrow> Inl e
      | Inr H \<Rightarrow> (let record_size = eh_chunk_size H + tag_bytes in
          if file_size < header_bytes + tag_bytes then Inl Corrupt
          else let body = file_size - header_bytes; remainder = body mod record_size in
            if remainder \<noteq> 0 \<and> remainder < tag_bytes then Inl Corrupt
            else let records = body div record_size + (if remainder = 0 then 0 else 1);
                     plaintext_size = int body - int (records * tag_bytes)
              in if int max_output < plaintext_size then Inl Larger_than_accepted
                 else case eh_scrypt H of (n, r, p) \<Rightarrow> (case en_derive E (the pw) (eh_salt H) n r p of None \<Rightarrow> Inl Key_error
                   | Some k \<Rightarrow> (case open_records E k H remainder records 0 (drop header_bytes data) of Inl e \<Rightarrow> Inl e
                       | Inr (out, rest) \<Rightarrow> if rest \<noteq> [] \<or> int (length out) \<noteq> plaintext_size then Inl Corrupt else Inr out))))"

subsection \<open>What a sealer has written\<close>

definition nonce_of :: "bytes \<Rightarrow> nat \<Rightarrow> bool \<Rightarrow> bytes" where
  "nonce_of prefix i final = prefix @ be4 i @ [if final then 1 else 0]"

definition sealed_record :: "envelope_env \<Rightarrow> bytes \<Rightarrow> bytes \<Rightarrow> bytes \<Rightarrow> bytes list \<Rightarrow> nat \<Rightarrow> bytes" where
  "sealed_record E k prefix h parts i = en_encrypt E k (nonce_of prefix i (Suc i = length parts)) (parts ! i) h"

definition open_record :: "envelope_env \<Rightarrow> bytes \<Rightarrow> bytes \<Rightarrow> bytes \<Rightarrow> bytes list \<Rightarrow> nat \<Rightarrow> bytes" where
  "open_record E k prefix h parts i = en_encrypt E k (nonce_of prefix i False) (parts ! i) h"

lemma sealD: "seal E s c final = Inr s' \<Longrightarrow> sl_index s \<le> max_records \<and>
    s' = s\<lparr>sl_output := sl_output s @ en_encrypt E (sl_key s) (nonce_of (sl_prefix s) (sl_index s) final) c (sl_header s),
      sl_bytes_out := sl_bytes_out s + length (en_encrypt E (sl_key s) (nonce_of (sl_prefix s) (sl_index s) final) c (sl_header s)),
      sl_index := sl_index s + 1\<rparr>"
  by (auto simp: seal_def nonce_def nonce_of_def Let_def split: if_splits)

text \<open>The open sealer has written the full parts \<open>ps\<close> of the plaintext, the rest is its buffer.\<close>

definition has_written :: "envelope_env \<Rightarrow> sealer \<Rightarrow> bytes list \<Rightarrow> bytes \<Rightarrow> bool" where
  "has_written E s ps P \<longleftrightarrow> \<not> sl_closed s \<and> 0 < sl_chunk s \<and> P = concat ps @ sl_buffer s \<and> (\<forall>p\<in>set ps. length p = sl_chunk s) \<and>
     sl_index s = length ps \<and> (ps \<noteq> [] \<longrightarrow> sl_buffer s \<noteq> []) \<and>
     sl_output s = sl_header s @ concat (map (open_record E (sl_key s) (sl_prefix s) (sl_header s) ps) [0..<length ps]) \<and>
     sl_bytes_out s = header_bytes + (length (sl_output s) - length (sl_header s))"

definition same_sealer :: "sealer \<Rightarrow> sealer \<Rightarrow> bool" where
  "same_sealer s s' \<longleftrightarrow> sl_header s' = sl_header s \<and> sl_prefix s' = sl_prefix s \<and> sl_key s' = sl_key s \<and> sl_chunk s' = sl_chunk s"

lemma open_record_append: "i < length ps \<Longrightarrow> open_record E k prefix h (ps @ qs) i = open_record E k prefix h ps i"
  by (simp add: open_record_def nth_append)

lemma open_records_snoc:
  "concat (map (open_record E k prefix h (ps @ [p])) [0..<Suc (length ps)]) =
   concat (map (open_record E k prefix h ps) [0..<length ps]) @ en_encrypt E k (nonce_of prefix (length ps) False) p h"
proof -
  have "map (open_record E k prefix h (ps @ [p])) [0..<length ps] = map (open_record E k prefix h ps) [0..<length ps]"
    by (rule map_cong) (simp_all add: open_record_append)
  then show ?thesis
    by (simp only: upt_Suc_append zero_le map_append list.map concat_append concat.simps append_Nil2 open_record_def nth_append_length)
qed

declare drain.simps [simp del]

lemma drain_written:
  "drain E s = (s', None) \<Longrightarrow> has_written E s ps P \<Longrightarrow>
    \<exists>ps'. has_written E s' ps' P \<and> length (sl_buffer s') \<le> sl_chunk s' \<and> same_sealer s s'"
proof (induction E s arbitrary: ps rule: drain.induct)
  case (1 E s)
  show ?case
  proof (cases "sl_chunk s < length (sl_buffer s)")
    case False
    then show ?thesis using 1(2,3) by (auto simp: drain.simps[of E s] same_sealer_def)
  next
    case True
    have pos: "0 < sl_chunk s" using 1(3) by (simp add: has_written_def)
    let ?p = "take (sl_chunk s) (sl_buffer s)"
    obtain s1 where s1: "seal E s ?p False = Inr s1" "drain E (s1\<lparr>sl_buffer := drop (sl_chunk s) (sl_buffer s)\<rparr>) = (s', None)"
      using 1(2) True pos by (auto simp: drain.simps[of E s] split: sum.splits)
    have "has_written E (s1\<lparr>sl_buffer := drop (sl_chunk s) (sl_buffer s)\<rparr>) (ps @ [?p]) P"
      using 1(3) True conjunct2[OF sealD[OF s1(1)]]
      by (simp add: has_written_def open_records_snoc del: upt_Suc)
    from 1(1)[OF _ s1(1) s1(2) this] True pos show ?thesis
      using conjunct2[OF sealD[OF s1(1)]] by (simp add: same_sealer_def)
  qed
qed

text \<open>The sealed file: all parts but the last are full, the last may be empty only if it is the first.\<close>

definition envelope_parts :: "nat \<Rightarrow> bytes list \<Rightarrow> bool" where
  "envelope_parts chunk ps \<longleftrightarrow> ps \<noteq> [] \<and> (\<forall>p\<in>set (butlast ps). length p = chunk) \<and> length (last ps) \<le> chunk \<and>
     (1 < length ps \<longrightarrow> last ps \<noteq> []) \<and> length ps \<le> max_records + 1"

definition sealed_body :: "envelope_env \<Rightarrow> bytes \<Rightarrow> bytes \<Rightarrow> bytes \<Rightarrow> bytes list \<Rightarrow> bytes" where
  "sealed_body E k prefix h ps = concat (map (sealed_record E k prefix h ps) [0..<length ps])"

lemma write_all_written:
  "write_all E s ds = Inr s' \<Longrightarrow> has_written E s ps P \<Longrightarrow> length (sl_buffer s) \<le> sl_chunk s \<Longrightarrow>
    \<exists>ps'. has_written E s' ps' (P @ concat ds) \<and> length (sl_buffer s') \<le> sl_chunk s' \<and> same_sealer s s'"
proof (induction ds arbitrary: s ps P)
  case Nil
  then show ?case by (auto simp: same_sealer_def)
next
  case (Cons d ds)
  let ?s = "s\<lparr>sl_bytes_in := sl_bytes_in s + length d, sl_buffer := sl_buffer s @ d\<rparr>"
  have "\<not> sl_closed s" using Cons.prems(2) by (simp add: has_written_def)
  then obtain s1 where s1: "drain E ?s = (s1, None)" "write_all E s1 ds = Inr s'"
    using Cons.prems(1) by (auto simp: write_bytes_def split: prod.splits sum.splits option.splits)
  have "has_written E ?s ps (P @ d)" using Cons.prems(2) by (simp add: has_written_def)
  from drain_written[OF s1(1) this] obtain ps1 where
    "has_written E s1 ps1 (P @ d)" "length (sl_buffer s1) \<le> sl_chunk s1" "same_sealer ?s s1" by blast
  with Cons.IH[OF s1(2)] obtain ps' where "has_written E s' ps' (P @ concat (d # ds))" "length (sl_buffer s') \<le> sl_chunk s'" "same_sealer s1 s'"
    by fastforce
  with \<open>same_sealer ?s s1\<close> show ?case by (auto simp: same_sealer_def)
qed

lemma close_written:
  assumes "close_sealer E s = (s', None)" and w: "has_written E s ps P" and "length (sl_buffer s) \<le> sl_chunk s"
  shows "\<exists>qs. envelope_parts (sl_chunk s) qs \<and> concat qs = P \<and> sl_output s' = sl_header s @ sealed_body E (sl_key s) (sl_prefix s) (sl_header s) qs \<and>
    sl_bytes_out s' = header_bytes + length (sealed_body E (sl_key s) (sl_prefix s) (sl_header s) qs) \<and> same_sealer s s'"
proof -
  let ?qs = "ps @ [sl_buffer s]"
  obtain s1 where s1: "seal E s (sl_buffer s) True = Inr s1" "s' = s1\<lparr>sl_buffer := [], sl_closed := True\<rparr>"
    using assms(1) w by (auto simp: close_sealer_def has_written_def split: sum.splits)
  note s1' = sealD[OF s1(1)]
  have "map (sealed_record E (sl_key s) (sl_prefix s) (sl_header s) ?qs) [0..<length ps] =
      map (open_record E (sl_key s) (sl_prefix s) (sl_header s) ps) [0..<length ps]"
    by (rule map_cong) (simp_all add: sealed_record_def open_record_def nth_append)
  then have body: "sealed_body E (sl_key s) (sl_prefix s) (sl_header s) ?qs =
      concat (map (open_record E (sl_key s) (sl_prefix s) (sl_header s) ps) [0..<length ps]) @
      en_encrypt E (sl_key s) (nonce_of (sl_prefix s) (length ps) True) (sl_buffer s) (sl_header s)"
    by (simp only: sealed_body_def length_append_singleton upt_Suc_append zero_le map_append list.map concat_append concat.simps append_Nil2
        sealed_record_def nth_append_length simp_thms)
  have "envelope_parts (sl_chunk s) ?qs" "concat ?qs = P"
    using w assms(3) s1' by (auto simp: envelope_parts_def has_written_def)
  moreover have "sl_output s' = sl_header s @ sealed_body E (sl_key s) (sl_prefix s) (sl_header s) ?qs"
    "sl_bytes_out s' = header_bytes + length (sealed_body E (sl_key s) (sl_prefix s) (sl_header s) ?qs)"
    "same_sealer s s'"
    using w s1' s1(2) by (simp_all add: has_written_def body same_sealer_def)
  ultimately show ?thesis by blast
qed

lemma seal_fileE:
  assumes "seal_file E pw chunk_log2 (n, r, p) (salt, prefix) ds = Inr s"
  obtains h k ps where "pack_header (n, r, p) chunk_log2 salt prefix = Some h" "en_derive E pw salt (nat n) (nat r) (nat p) = Some k"
    "pw \<noteq> []" "16 \<le> chunk_log2 \<and> chunk_log2 < 25" "envelope_parts (2 ^ nat chunk_log2) ps" "concat ps = concat ds"
    "sl_output s = h @ sealed_body E k prefix h ps" "sl_bytes_out s = header_bytes + length (sealed_body E k prefix h ps)" "sl_key s = k" "sl_header s = h"
proof -
  obtain s0 s1 where s0: "new_sealer E pw chunk_log2 (n, r, p) (salt, prefix) = Inr s0" and s1: "write_all E s0 ds = Inr s1"
    and s: "close_sealer E s1 = (s, None)"
    using assms by (auto simp: seal_file_def split: sum.splits prod.splits option.splits)
  obtain h k where h: "pack_header (n, r, p) chunk_log2 salt prefix = Some h" "en_derive E pw salt (nat n) (nat r) (nat p) = Some k"
    "pw \<noteq> []" "16 \<le> chunk_log2 \<and> chunk_log2 < 25"
    and init: "s0 = \<lparr>sl_header = h, sl_prefix = prefix, sl_key = k, sl_chunk = 2 ^ nat chunk_log2, sl_buffer = [], sl_index = 0,
      sl_output = h, sl_closed = False, sl_bytes_in = 0, sl_bytes_out = header_bytes\<rparr>"
    using s0 by (auto simp: new_sealer_def split: if_splits option.splits)
  have "has_written E s0 [] []" by (simp add: has_written_def init)
  from write_all_written[OF s1 this] obtain ps where
    "has_written E s1 ps (concat ds)" "length (sl_buffer s1) \<le> sl_chunk s1" "same_sealer s0 s1"
    by (auto simp: init)
  from close_written[OF s this(1,2)] this(3) h show thesis
    by (auto simp: same_sealer_def init intro: that)
qed

subsection \<open>Opening a sealed file\<close>

definition header_of :: "int \<times> int \<times> int \<Rightarrow> int \<Rightarrow> bytes \<Rightarrow> bytes \<Rightarrow> bytes" where
  "header_of = (\<lambda>(n, r, p) c salt prefix. magic @ [format_version, nat n, nat r, nat p, nat c] @ replicate 3 0 @ salt @ prefix @ replicate 9 0)"

text \<open>The costs a reader accepts.\<close>

definition readable_costs :: "int \<times> int \<times> int \<Rightarrow> bool" where
  "readable_costs = (\<lambda>(n, r, p). 14 \<le> n \<and> n < 21 \<and> 1 \<le> r \<and> r < 17 \<and> 1 \<le> p \<and> p < 5 \<and> 128 * nat r * 2 ^ nat n * nat p \<le> scrypt_max_memory)"

lemma header_parts:
  assumes "length salt = salt_bytes" and "length prefix = nonce_prefix_bytes" and h: "h = header_of (n, r, p) c salt prefix"
  shows "length h = 48" "take 8 h = magic" "h ! 8 = 1" "h ! 9 = nat n" "h ! 10 = nat r" "h ! 11 = nat p" "h ! 12 = nat c"
    "take 3 (drop 13 h) = replicate 3 0" "take 16 (drop 16 h) = salt" "take 7 (drop 32 h) = prefix" "drop 39 h = replicate 9 0"
  using assms(1,2)
  by (simp_all add: h header_of_def magic_def codes_simps format_version_def salt_bytes_def nonce_prefix_bytes_def)

lemma read_sealed_header:
  assumes "length salt = salt_bytes" "length prefix = nonce_prefix_bytes" "readable_costs (n, r, p)" "16 \<le> c \<and> c < 25"
  shows "read_header (header_of (n, r, p) c salt prefix @ rest) =
    Inr \<lparr>eh_header = header_of (n, r, p) c salt prefix, eh_chunk_size = 2 ^ nat c, eh_scrypt = (nat n, nat r, nat p), eh_salt = salt, eh_prefix = prefix\<rparr>"
proof -
  have "16 \<le> nat c" "nat c < 25" "14 \<le> nat n" "nat n < 21" "1 \<le> nat r" "nat r < 17" "1 \<le> nat p" "nat p < 5"
    "128 * nat r * 2 ^ nat n * nat p \<le> scrypt_max_memory"
    using assms(3,4) by (auto simp: readable_costs_def)
  then show ?thesis
    using header_parts[OF assms(1,2) refl, of n r p c] by (simp add: read_header_def Let_def header_bytes_def format_version_def)
qed

text \<open>What is documented of the cipher: a sealed record is opened again, and is longer by the tag.\<close>

definition cipher_opens :: "envelope_env \<Rightarrow> bool" where
  "cipher_opens E \<longleftrightarrow> (\<forall>k n c a. en_decrypt E k n (en_encrypt E k n c a) a = Some c \<and> length (en_encrypt E k n c a) = length c + tag_bytes)"

lemma length_sealed_body:
  assumes "cipher_opens E" and "envelope_parts chunk ps"
  shows "length (sealed_body E k prefix h ps) = (length ps - 1) * (chunk + tag_bytes) + length (last ps) + tag_bytes"
proof -
  have l: "length (sealed_record E k prefix h ps i) = length (ps ! i) + tag_bytes" for i
    using assms(1) by (simp add: sealed_record_def cipher_opens_def)
  obtain qs q where ps: "ps = qs @ [q]" using assms(2) by (metis append_butlast_last_id envelope_parts_def)
  have "map (\<lambda>i. length (ps ! i) + tag_bytes) [0..<length ps] = map (\<lambda>p. length p + tag_bytes) ps"
    by (rule nth_equalityI) simp_all
  then have "length (sealed_body E k prefix h ps) = sum_list (map (\<lambda>p. length p + tag_bytes) ps)"
    by (simp add: sealed_body_def length_concat l comp_def)
  also have "map (\<lambda>p. length p + tag_bytes) ps = map (\<lambda>p. chunk + tag_bytes) qs @ [length q + tag_bytes]"
    using assms(2) by (simp add: ps envelope_parts_def)
  finally show ?thesis by (simp add: ps sum_list_triv)
qed

lemma open_sealed:
  assumes "cipher_opens E" and parts: "envelope_parts chunk ps" and H: "eh_header H = h" "eh_prefix H = prefix" "eh_chunk_size H = chunk"
    and rem: "remainder = (if length (last ps) = chunk then 0 else length (last ps) + tag_bytes)"
  shows "i \<le> length ps \<Longrightarrow> open_records E k H remainder (length ps - i) i (concat (map (sealed_record E k prefix h ps) [i..<length ps])) =
    Inr (concat (drop i ps), [])"
proof (induction "length ps - i" arbitrary: i)
  case 0
  then show ?case by simp
next
  case (Suc left)
  then have i: "i < length ps" "length ps - Suc i = left" by auto
  let ?c = "sealed_record E k prefix h ps i" and ?wanted = "if left \<noteq> 0 \<or> remainder = 0 then chunk + tag_bytes else remainder"
  have "length (ps ! i) = chunk" if "left \<noteq> 0"
    using parts that i nth_mem[of i "butlast ps"] by (simp add: envelope_parts_def nth_butlast)
  moreover have "ps ! i = last ps" if "left = 0"
  proof -
    have "i = length ps - 1" "ps \<noteq> []" using that i by auto
    then show ?thesis by (simp add: last_conv_nth)
  qed
  ultimately have len: "length ?c = ?wanted"
    using assms(1) rem by (cases "left = 0") (auto simp: sealed_record_def cipher_opens_def tag_bytes_def)
  have final: "(Suc i = length ps) = (left = 0)" using i by auto
  have "nonce prefix i (left = 0) = Inr (nonce_of prefix i (left = 0))"
    using parts i by (simp add: nonce_def nonce_of_def envelope_parts_def)
  moreover have "en_decrypt E k (nonce_of prefix i (left = 0)) ?c h = Some (ps ! i)"
    using assms(1) by (simp add: sealed_record_def cipher_opens_def final)
  moreover have "open_records E k H remainder left (i + 1) (concat (map (sealed_record E k prefix h ps) [Suc i..<length ps])) = Inr (concat (drop (Suc i) ps), [])"
    using Suc.hyps(1)[of "Suc i"] i by simp
  ultimately have "open_records E k H remainder (Suc left) i (?c @ concat (map (sealed_record E k prefix h ps) [Suc i..<length ps])) =
      Inr (ps ! i @ concat (drop (Suc i) ps), [])"
    using len H by (simp add: Let_def)
  then show ?case
    using i Suc.hyps(2) by (simp add: upt_conv_Cons Cons_nth_drop_Suc[symmetric])
qed

lemma record_layout:
  assumes "n \<noteq> 0" and "m \<le> chunk"
  defines "body \<equiv> (n - 1) * (chunk + tag_bytes) + m + tag_bytes"
  shows "body mod (chunk + tag_bytes) = (if m = chunk then 0 else m + tag_bytes)"
    "body div (chunk + tag_bytes) + (if m = chunk then 0 else 1) = n"
proof -
  have "body mod (chunk + tag_bytes) = (if m = chunk then 0 else m + tag_bytes) \<and>
      body div (chunk + tag_bytes) + (if m = chunk then 0 else 1) = n"
  proof (cases "m = chunk")
    case True
    have "body = n * (chunk + tag_bytes)" using assms(1) True by (cases n) (simp_all add: body_def)
    then show ?thesis using True by (simp add: tag_bytes_def)
  next
    case False
    have "body = m + tag_bytes + (n - 1) * (chunk + tag_bytes)" by (simp add: body_def)
    moreover have "m + tag_bytes < chunk + tag_bytes" using False assms(2) by simp
    ultimately show ?thesis using assms(1) False by simp
  qed
  then show "body mod (chunk + tag_bytes) = (if m = chunk then 0 else m + tag_bytes)"
    "body div (chunk + tag_bytes) + (if m = chunk then 0 else 1) = n" by simp_all
qed

lemma length_concat_parts: "envelope_parts chunk ps \<Longrightarrow> length (concat ps) = (length ps - 1) * chunk + length (last ps)"
proof -
  assume parts: "envelope_parts chunk ps"
  then obtain qs q where ps: "ps = qs @ [q]" by (metis append_butlast_last_id envelope_parts_def)
  then have "sum_list (map length qs) = sum_list (map (\<lambda>_. chunk) qs)"
    using parts by (intro arg_cong[of _ _ sum_list] map_cong) (auto simp: envelope_parts_def)
  then show ?thesis by (simp add: ps length_concat sum_list_triv)
qed

text \<open>C23: what is sealed is opened again. However the plaintext is split into writes, the sealed file decrypts to exactly
  the bytes written, and its size is what the sealer reports; this is so for every chunk size, also when the
  plaintext is empty or ends with a full chunk.\<close>

theorem sealed_file_opens:
  assumes "cipher_opens E" and "seal_file E pw chunk_log2 costs (salt, prefix) ds = Inr s" and "readable_costs costs"
    and "length salt = salt_bytes" and "length prefix = nonce_prefix_bytes" and "length (concat ds) \<le> max_output"
  shows "decrypt_file E (Some pw) max_output (length (sl_output s)) (sl_output s) = Inr (concat ds) \<and> sl_bytes_out s = length (sl_output s)"
proof -
  obtain n r p where costs: "costs = (n, r, p)" by (cases costs) auto
  obtain h k ps where h: "pack_header (n, r, p) chunk_log2 salt prefix = Some h" and k: "en_derive E pw salt (nat n) (nat r) (nat p) = Some k"
    and pw: "pw \<noteq> []" and c: "16 \<le> chunk_log2 \<and> chunk_log2 < 25" and parts: "envelope_parts (2 ^ nat chunk_log2) ps" and ps: "concat ps = concat ds"
    and out: "sl_output s = h @ sealed_body E k prefix h ps" "sl_bytes_out s = header_bytes + length (sealed_body E k prefix h ps)"
    by (rule seal_fileE[OF assms(2)[unfolded costs]])
  have h: "h = header_of (n, r, p) chunk_log2 salt prefix" using h by (simp add: pack_header_def header_of_def split: if_splits)
  let ?chunk = "2 ^ nat chunk_log2 :: nat" and ?body = "sealed_body E k prefix h ps"
  let ?rem = "if length (last ps) = ?chunk then 0 else length (last ps) + tag_bytes"
  let ?H = "\<lparr>eh_header = h, eh_chunk_size = ?chunk, eh_scrypt = (nat n, nat r, nat p), eh_salt = salt, eh_prefix = prefix\<rparr>"
  have len: "length h = header_bytes" using header_parts(1)[OF assms(4,5) h] by (simp add: header_bytes_def)
  have read: "read_header (sl_output s) = Inr ?H"
    using read_sealed_header[OF assms(4,5) _ c] assms(3) by (simp add: out(1) h costs)
  have body: "length ?body = (length ps - 1) * (?chunk + tag_bytes) + length (last ps) + tag_bytes"
    by (rule length_sealed_body[OF assms(1) parts])
  have "length ps \<noteq> 0" "length (last ps) \<le> ?chunk" using parts by (simp_all add: envelope_parts_def)
  note layout = record_layout[OF this, folded body]
  have size: "length (sl_output s) = header_bytes + length ?body" using out(1) len by simp
  have records: "length ?body div (?chunk + tag_bytes) + (if ?rem = 0 then 0 else 1) = length ps" and rem: "?rem = 0 \<or> tag_bytes \<le> ?rem"
    using layout(2) by (auto simp: tag_bytes_def split: if_splits)
  have plain: "int (length ?body) - int (length ps * tag_bytes) = int (length (concat ps))"
    using \<open>length ps \<noteq> 0\<close> by (cases "length ps") (simp_all add: body length_concat_parts[OF parts] algebra_simps)
  have opened: "open_records E k ?H ?rem (length ps) 0 ?body = Inr (concat ps, [])"
    using open_sealed[OF assms(1) parts, of ?H h prefix ?rem 0 k] by (simp add: sealed_body_def)
  have "drop header_bytes (sl_output s) = ?body" "\<not> length (sl_output s) < header_bytes + tag_bytes" "length (sl_output s) - header_bytes = length ?body"
    using len size body out(1) by simp_all
  then have "decrypt_file E (Some pw) max_output (length (sl_output s)) (sl_output s) = Inr (concat ds)"
    using read opened rem records plain layout(1) pw k assms(6) by (simp add: decrypt_file_def Let_def ps)
  then show ?thesis using size out(2) by simp
qed

subsection \<open>Damage is noticed\<close>

lemma be4_inject:
  assumes "i \<le> max_records" "j \<le> max_records" "be4 i = be4 j"
  shows "i = j"
proof -
  have split: "x = x div 256 * 256 + x mod 256" for x :: nat by simp
  have digits: "be4 x = [x div 256 div 256 div 256, x div 256 div 256 mod 256, x div 256 mod 256, x mod 256]" if "x \<le> max_records" for x
  proof -
    have "x div 256 div 256 = x div 65536" "x div 256 div 256 div 256 = x div 16777216" by (simp_all flip: div_mult2_eq)
    moreover have "x div 16777216 < 256" using that by (simp add: max_records_def div_less_iff_less_mult)
    ultimately show ?thesis by (simp add: be4_def)
  qed
  have "i div 256 div 256 div 256 = j div 256 div 256 div 256" "i div 256 div 256 mod 256 = j div 256 div 256 mod 256"
    "i div 256 mod 256 = j div 256 mod 256" "i mod 256 = j mod 256"
    using assms(3) unfolding digits[OF assms(1)] digits[OF assms(2)] by simp_all
  then show ?thesis by (metis split)
qed

text \<open>No nonce is used for two records.\<close>

lemma nonce_of_inject:
  assumes "i \<le> max_records" "j \<le> max_records" "length q = length prefix" "nonce_of q i f = nonce_of prefix j g"
  shows "q = prefix \<and> i = j \<and> f = g"
proof -
  have "q = prefix" "be4 i @ [if f then 1 else 0] = be4 j @ [if g then 1 else 0]"
    using assms(3,4) by (simp_all add: nonce_of_def)
  then show ?thesis using be4_inject[OF assms(1,2)] by (auto simp: split: if_splits)
qed

text \<open>The records of a plaintext that is cut into chunks at once, and what an authenticated cipher promises: under
  the keys of the passphrase it opens these records only, each with its nonce and header.\<close>

definition envelope_split :: "nat \<Rightarrow> bytes \<Rightarrow> bytes list" where
  "envelope_split chunk data = (if data = [] then [[]] else pieces chunk data)"

definition issued :: "envelope_env \<Rightarrow> bytes \<Rightarrow> bytes \<Rightarrow> bytes \<Rightarrow> bytes list \<Rightarrow> (bytes \<times> bytes \<times> bytes \<times> bytes) set" where
  "issued E k prefix h ps = (\<lambda>i. (nonce_of prefix i (Suc i = length ps), h, ps ! i, sealed_record E k prefix h ps i)) ` {..<length ps}"

definition opens_only :: "envelope_env \<Rightarrow> utext \<Rightarrow> (bytes \<times> bytes \<times> bytes \<times> bytes) set \<Rightarrow> bool" where
  "opens_only E pw S \<longleftrightarrow> (\<forall>salt n r p k nc c a q. en_derive E pw salt n r p = Some k \<and> en_decrypt E k nc c a = Some q \<longrightarrow> (nc, a, q, c) \<in> S)"

declare pieces.simps [simp del]

lemma concat_pieces: "0 < n \<Longrightarrow> concat (pieces n data) = data"
  by (induction n data rule: pieces.induct) (simp add: pieces.simps)

lemma pieces_parts: "\<forall>p\<in>set ps. length p = n \<Longrightarrow> length q \<le> n \<Longrightarrow> q \<noteq> [] \<Longrightarrow> pieces n (concat ps @ q) = ps @ [q]"
proof (induction ps)
  case Nil
  then show ?case by (cases "n = 0") (simp_all add: pieces.simps[of n q] pieces.simps[of n "[]"])
next
  case (Cons p ps)
  have "n \<noteq> 0" using Cons.prems by auto
  then show ?case using Cons by (simp add: pieces.simps[of n "p @ concat ps @ q"])
qed

lemma split_parts:
  assumes "envelope_parts chunk ps"
  shows "envelope_split chunk (concat ps) = ps"
proof -
  obtain qs q where ps: "ps = qs @ [q]" using assms by (metis append_butlast_last_id envelope_parts_def)
  then have qs: "\<forall>p\<in>set qs. length p = chunk" "length q \<le> chunk" "qs \<noteq> [] \<longrightarrow> q \<noteq> []" using assms by (auto simp: envelope_parts_def)
  show ?thesis
  proof (cases "q = []")
    case True
    then show ?thesis using qs(3) by (simp add: ps envelope_split_def)
  next
    case False
    then show ?thesis using pieces_parts[OF qs(1,2)] by (simp add: ps envelope_split_def)
  qed
qed

lemma open_records_step:
  assumes "open_records E k H remainder (Suc left) i data = Inr (out, rest)"
  obtains w n p q where "nonce (eh_prefix H) i (left = 0) = Inr n" "en_decrypt E k n (take w data) (eh_header H) = Some p"
    "open_records E k H remainder left (i + 1) (drop w data) = Inr (q, rest)" "out = p @ q"
  using assms that[of _ "if left \<noteq> 0 \<or> remainder = 0 then eh_chunk_size H + tag_bytes else remainder"]
  by (auto simp: Let_def split: if_splits sum.splits option.splits prod.splits)

lemma open_only_issued:
  assumes only: "\<And>nc c a q. en_decrypt E k nc c a = Some q \<Longrightarrow> (nc, a, q, c) \<in> issued E k0 prefix h ps"
    and H: "eh_prefix H = take 7 (drop 32 (eh_header H))" "prefix = take 7 (drop 32 h)" "length ps \<le> max_records + 1"
  shows "open_records E k H remainder left i data = Inr (out, rest) \<Longrightarrow> left \<noteq> 0 \<Longrightarrow>
    eh_header H = h \<and> i + left = length ps \<and> data = concat (map (sealed_record E k0 prefix h ps) [i..<length ps]) @ rest \<and> out = concat (drop i ps)"
proof (induction left arbitrary: i data out)
  case 0
  then show ?case by simp
next
  case (Suc left)
  obtain w n p q where n: "nonce (eh_prefix H) i (left = 0) = Inr n" and p: "en_decrypt E k n (take w data) (eh_header H) = Some p"
    and rest: "open_records E k H remainder left (i + 1) (drop w data) = Inr (q, rest)" and out: "out = p @ q"
    by (rule open_records_step[OF Suc.prems(1)])
  obtain j where j: "j < length ps" "n = nonce_of prefix j (Suc j = length ps)" "eh_header H = h" "p = ps ! j"
    "take w data = sealed_record E k0 prefix h ps j"
    using only[OF p] by (auto simp: issued_def)
  have "i \<le> max_records" "n = nonce_of prefix i (left = 0)"
    using n H(1,2) j(3) by (auto simp: nonce_def nonce_of_def split: if_splits)
  moreover from this have "nonce_of prefix i (left = 0) = nonce_of prefix j (Suc j = length ps)" using j(2) by simp
  ultimately have ij: "i = j" "(left = 0) = (Suc i = length ps)"
    using nonce_of_inject[of i j prefix prefix "left = 0" "Suc j = length ps"] j(1) H(3) by simp_all
  have "data = take w data @ drop w data" by simp
  then have data: "data = sealed_record E k0 prefix h ps i @ drop w data" using j(5) ij(1) by simp
  have i: "[i..<length ps] = i # [Suc i..<length ps]" "drop i ps = ps ! i # drop (Suc i) ps"
    using j(1) ij(1) by (simp_all add: upt_conv_Cons Cons_nth_drop_Suc)
  show ?case
  proof (cases "left = 0")
    case True
    then show ?thesis using rest out data ij i j(3,4) by auto
  next
    case False
    from Suc.IH[OF rest False] show ?thesis using data i j(3,4) ij(1) out by auto
  qed
qed

lemma read_headerD:
  assumes "read_header data = Inr H"
  shows "eh_header H = take header_bytes data" "length (eh_header H) = header_bytes" "eh_prefix H = take 7 (drop 32 (eh_header H))"
  using assms by (auto simp: read_header_def Let_def split: if_splits)

text \<open>C7: damage is noticed. If the cipher opens nothing but the records of one sealed file, a file that decrypts under its
  passphrase is that file, byte for byte, whatever size it was reported to have, and yields its plaintext. So a file
  that is cut short, extended, reordered, spliced or has its header edited is refused.\<close>

theorem only_the_sealed_file_opens:
  assumes "seal_file E pw chunk_log2 costs (salt, prefix) ds = Inr s" and "length salt = salt_bytes" and "length prefix = nonce_prefix_bytes"
    and only: "opens_only E pw (issued E (sl_key s) prefix (sl_header s) (envelope_split (2 ^ nat chunk_log2) (concat ds)))"
    and opened: "decrypt_file E (Some pw) max_output file_size data = Inr out"
  shows "data = sl_output s \<and> out = concat ds"
proof -
  obtain n r p where costs: "costs = (n, r, p)" by (cases costs) auto
  obtain h k ps where h: "pack_header (n, r, p) chunk_log2 salt prefix = Some h" and parts: "envelope_parts (2 ^ nat chunk_log2) ps"
    and ps: "concat ps = concat ds" and sealed: "sl_output s = h @ sealed_body E k prefix h ps" and s: "sl_key s = k" "sl_header s = h"
    by (rule seal_fileE[OF assms(1)[unfolded costs]])
  have h: "h = header_of (n, r, p) chunk_log2 salt prefix" using h by (simp add: pack_header_def header_of_def split: if_splits)
  obtain H where H: "read_header data = Inr H" using opened by (auto simp: decrypt_file_def split: if_splits sum.splits)
  define body where "body = file_size - header_bytes"
  define remainder where "remainder = body mod (eh_chunk_size H + tag_bytes)"
  define records where "records = body div (eh_chunk_size H + tag_bytes) + (if remainder = 0 then 0 else 1)"
  obtain k' salt' n' r' p' where size: "header_bytes + tag_bytes \<le> file_size" and k': "en_derive E pw salt' n' r' p' = Some k'"
    and r: "open_records E k' H remainder records 0 (drop header_bytes data) = Inr (out, [])"
    using opened H
    by (auto simp: decrypt_file_def Let_def body_def[symmetric] remainder_def[symmetric] records_def[symmetric] not_less
        split: if_splits sum.splits option.splits prod.splits)
  have "body \<noteq> 0" using size by (simp add: body_def tag_bytes_def header_bytes_def)
  then have "records \<noteq> 0"
    using mod_mult_div_eq[of body "eh_chunk_size H + tag_bytes"] by (auto simp: records_def remainder_def split: if_splits)
  moreover have "(nc, a, q, c) \<in> issued E k prefix h ps" if "en_decrypt E k' nc c a = Some q" for nc c a q
    using only that k' unfolding opens_only_def s ps[symmetric] split_parts[OF parts] by blast
  moreover have "prefix = take 7 (drop 32 h)" using header_parts(10)[OF assms(2,3) h] by simp
  moreover have "length ps \<le> max_records + 1" using parts by (simp add: envelope_parts_def)
  ultimately have all: "eh_header H = h" "drop header_bytes data = concat (map (sealed_record E k prefix h ps) [0..<length ps])" "out = concat ps"
    using open_only_issued[OF _ read_headerD(3)[OF H] _ _ r, of k prefix h ps] by auto
  have "data = take header_bytes data @ drop header_bytes data" by simp
  then show ?thesis using all read_headerD(1)[OF H] sealed ps by (simp add: sealed_body_def)
qed

subsection \<open>Concrete envelopes\<close>

text \<open>A cipher that appends a tag of zeros and opens every record that ends with one; and one that opens a single
  record, as authentication does after one short file was sealed.\<close>

definition plain_cipher :: envelope_env where
  "plain_cipher = \<lparr>en_derive = (\<lambda>pw salt n r p. Some []), en_encrypt = (\<lambda>k n c a. c @ replicate 16 0),
     en_decrypt = (\<lambda>k n c a. if 16 \<le> length c \<and> drop (length c - 16) c = replicate 16 0 then Some (take (length c - 16) c) else None)\<rparr>"

definition demo_prefix :: bytes where
  "demo_prefix = replicate 7 5"

definition demo_salt :: bytes where
  "demo_salt = replicate 16 9"

definition demo_header :: bytes where
  "demo_header = header_of (15, 8, 1) 16 demo_salt demo_prefix"

definition strict_cipher :: envelope_env where
  "strict_cipher = plain_cipher\<lparr>en_decrypt := (\<lambda>k n c a. if n = nonce_of demo_prefix 0 True \<and> a = demo_header \<and> c = [1, 2, 3] @ replicate 16 0
     then Some [1, 2, 3] else None)\<rparr>"

lemma demo_lengths: "length demo_salt = salt_bytes" "length demo_prefix = nonce_prefix_bytes" "readable_costs (15, 8, 1)"
  by (simp_all add: demo_salt_def salt_bytes_def demo_prefix_def nonce_prefix_bytes_def readable_costs_def scrypt_max_memory_def)

lemma demo_header_length [simp]: "length demo_header = 48"
  using header_parts(1)[OF demo_lengths(1,2) refl] by (simp add: demo_header_def)

definition demo_sealer :: sealer where
  "demo_sealer = \<lparr>sl_header = demo_header, sl_prefix = demo_prefix, sl_key = [], sl_chunk = 65536, sl_buffer = [], sl_index = 1,
     sl_output = demo_header @ [1, 2, 3] @ replicate 16 0, sl_closed = True, sl_bytes_in = 3, sl_bytes_out = 67\<rparr>"

lemma demo_sealed:
  assumes "E = plain_cipher \<or> E = strict_cipher"
  shows "seal_file E [112] 16 (15, 8, 1) (demo_salt, demo_prefix) [[1, 2], [3]] = Inr demo_sealer"
proof -
  have E: "en_derive E pw salt n r p = Some []" "en_encrypt E k nc c a = c @ replicate 16 0" for pw salt n r p k nc c a
    using assms by (auto simp: plain_cipher_def strict_cipher_def)
  have "pack_header (15, 8, 1) 16 demo_salt demo_prefix = Some demo_header"
    by (simp add: pack_header_def demo_header_def header_of_def)
  then show ?thesis
    by (simp add: seal_file_def new_sealer_def E write_bytes_def drain.simps close_sealer_def seal_def nonce_def max_records_def Let_def
        header_bytes_def demo_sealer_def)
qed

lemma sealed_file_opens_witness: "decrypt_file plain_cipher (Some [112]) 3 67 (sl_output demo_sealer) = Inr [1, 2, 3] \<and> length (sl_output demo_sealer) = 67"
proof -
  have "cipher_opens plain_cipher" by (simp add: cipher_opens_def plain_cipher_def tag_bytes_def)
  from sealed_file_opens[OF this demo_sealed demo_lengths(3,1,2), of 3] show ?thesis by (simp add: demo_sealer_def)
qed

lemma only_the_sealed_file_opens_witness:
  "decrypt_file strict_cipher (Some [112]) 9 67 (sl_output demo_sealer) = Inr [1, 2, 3] \<and> (\<exists>e. decrypt_file strict_cipher (Some [112]) 9 66 (butlast (sl_output demo_sealer)) = Inl e)"
proof -
  have split: "envelope_split (2 ^ nat 16) (concat [[1, 2], [3]]) = [[1, 2, 3]]"
    by (simp add: envelope_split_def pieces.simps)
  have only: "opens_only strict_cipher [112] (issued strict_cipher (sl_key demo_sealer) demo_prefix (sl_header demo_sealer)
      (envelope_split (2 ^ nat 16) (concat [[1, 2], [3]])))"
    unfolding split by (auto simp: opens_only_def issued_def strict_cipher_def sealed_record_def plain_cipher_def demo_sealer_def split: if_splits)
  note sealed = only_the_sealed_file_opens[OF demo_sealed demo_lengths(1,2) only]
  let ?H = "\<lparr>eh_header = demo_header, eh_chunk_size = 65536, eh_scrypt = (15, 8, 1), eh_salt = demo_salt, eh_prefix = demo_prefix\<rparr>"
  have read: "read_header (sl_output demo_sealer) = Inr ?H"
    using read_sealed_header[OF demo_lengths, of 16] by (simp add: demo_sealer_def demo_header_def)
  have opened: "decrypt_file strict_cipher (Some [112]) 9 67 (sl_output demo_sealer) = Inr [1, 2, 3]"
    by (simp add: decrypt_file_def read) (simp add: demo_sealer_def header_bytes_def tag_bytes_def strict_cipher_def plain_cipher_def
        nonce_def nonce_of_def max_records_def Let_def)
  have "length (butlast (sl_output demo_sealer)) \<noteq> length (sl_output demo_sealer)" by (simp add: demo_sealer_def)
  then have "butlast (sl_output demo_sealer) \<noteq> sl_output demo_sealer" by metis
  then have "decrypt_file strict_cipher (Some [112]) 9 66 (butlast (sl_output demo_sealer)) \<noteq> Inr out" for out
    using sealed[of 9 66 "butlast (sl_output demo_sealer)" out] by auto
  then have "\<exists>e. decrypt_file strict_cipher (Some [112]) 9 66 (butlast (sl_output demo_sealer)) = Inl e"
    by (cases "decrypt_file strict_cipher (Some [112]) 9 66 (butlast (sl_output demo_sealer))") auto
  then show ?thesis using sealed[OF _ opened] opened by simp
qed

end
