(* ===== verification/Spec2Isabelle.thy ===== *)
theory Spec2Isabelle
  imports Cron Backup_Lifecycle Slot_Layout Combined_Shelf Operation_Bounds Disk_Accounting History_Domain
    Lsi_Rows Scsi_Decode Mpr_Summary Mapping_Store Slot_View Config_Coalescer Config_Hash Stream_Envelope
begin

text \<open>
  Verification library of truenas-jbod-ui, a web application that shows which disk is in which bay of a
  storage shelf, keeps a history of every bay, decodes kernel messages about disks, and makes backups of itself.

  The parts of the program and how they interact. The application (\<open>src/app\<close>) reads the inventory of a
  system from its API and over SSH, resolves the disk in every bay with the help of hand-made slot mappings,
  renders the bays in the layout of an enclosure profile, and decodes the messages of the SAS drivers. The
  history service (\<open>src/history_service\<close>) polls the application, stores a record for every bay and an event
  for every change, answers bounded reads, and runs scheduled backups whose copies it catalogues and grooms.

  Theories and the code they model (paths under \<open>src/\<close>):

  \<^item> \<open>Prelude\<close>: Python text, numbers, JSON values and sorting; \<open>Calendar\<close>: the proleptic Gregorian calendar.
  \<^item> \<open>Cron\<close>: \<open>history_service/backup_archive/cron.py\<close>. An expression becomes sets of legal values;
    \<open>next_after\<close> is its bounded search. Shown: the search finds the first matching minute or there is none
    at all, printing an expression and parsing it again gives the same schedule.
  \<^item> \<open>Backup_Catalog\<close>: \<open>backup_archive/catalog.py\<close>. Three tables as one record, one definition per method;
    the steps of all callers are the relation \<open>cat_step\<close>. Shown: the invariant of the tables over every
    reachable state, permanence of tombstones, exclusion of claims and pins, correctness of every deletion. The
    laws of a store of deletable copies are the locale \<open>deletion_store\<close>, interpreted on the catalog.
  \<^item> \<open>Backup_Lifecycle\<close>: \<open>backup_archive/lifecycle.py\<close>. Retention rules, the plan, its application location by
    location with other callers interfering between two steps, and reconciliation. Shown: the plan is exact,
    only deletable copies are deleted, every candidate is accounted for, and grooming again changes nothing.
  \<^item> \<open>Slot_Layout\<close>: \<open>app/slot_layout.py\<close>, the slot matrices of a profile. \<open>Combined_Shelf\<close>:
    \<open>app/services/combined_shelf_ids.py\<close>, the ids of shelves shown as one. \<open>Operation_Bounds\<close>:
    \<open>history_service/operation_bounds.py\<close>, plans and admission of history reads.
  \<^item> \<open>Device_Names\<close>: the normalisers of \<open>app/services/parsers.py\<close>. \<open>Disk_Accounting\<close>:
    \<open>app/services/inventory_accounting.py\<close>, the identity of a disk seen over several paths, by union-find; its
    contract is the locale \<open>class_store\<close>. Shown: refinement of linkage, independence of the order of records,
    and that serials decide identity.
  \<^item> \<open>History_Domain\<close>: \<open>history_service/domain.py\<close>, slot records and the events between two of them.
  \<^item> \<open>Fault_Families\<close>, \<open>Lsi_Loginfo\<close> with \<open>Lsi_Rows\<close>, \<open>Scsi_Decode\<close>, \<open>Mpr_Summary\<close>: the four files of
    \<open>app/services/sas_diagnostics\<close>, complete with their tables. Shown: every table row is decoded, command
    addresses are read back exactly, decoded records are well formed, summaries count every event once.
  \<^item> \<open>Mapping_Store\<close>: \<open>app/services/mapping_store.py\<close>, hand-made slot mappings. The abstract store is the map
    \<open>stored\<close> from bays to mappings. Shown: keys are exact, a save is one update of the abstract store, a
    guarded save loses no update in its scope, an import does what its preview said, value by value.
  \<^item> \<open>Mapping_Scope\<close>, \<open>Claim_Index\<close>, \<open>Disk_Resolution\<close>, \<open>Slot_View\<close>: how \<open>app/services/inventory.py\<close> decides which
    disk is in a bay and what the bay shows. \<open>Claim_Index\<close> holds the indexes with an owner count and their contract.
    Shown: a disk is placed exactly on evidence over the records, pool membership is evidence too, a light is
    offered only through a backend that addresses the bay, and a stale or unvalidated bay shows nothing else.
  \<^item> \<open>Json_Text\<close>: Python's \<open>json.dumps\<close> with sorted keys and \<open>json.loads\<close> over code points. Shown: what is printed
    is read again, its prefixes are not, and the fuel of the reader (the length of the text) is enough.
  \<^item> \<open>Change_Journal\<close>: \<open>ChangeJournal\<close> of \<open>backup_archive/journal.py\<close>, over the bytes of its file. \<open>history\<close> are the
    files that appends, commits, compactions and crashes inside a write can make, over and over. Shown: an appended
    change is read back, no acknowledged change is lost before a commit names it, what each byte of a torn append
    leaves, what a commit marks with and without a compaction, and that compaction keeps what is pending.
  \<^item> \<open>Config_Coalescer\<close>: \<open>ConfigBackupCoalescer\<close> of the same file. \<open>advance\<close> is one step of a thread, \<open>co_step\<close>
    interleaves the threads with each other and with other processes. Shown: a backup contains the changes it is
    committed to, deadlines are bounded, one thread misses no change, and two threads can strand one.
  \<^item> \<open>Config_Hash\<close>: \<open>canonicalize_config\<close> and \<open>canonical_config_hash\<close> of the same file, the hash the coalescer
    compares. Shown: it changes exactly when the configuration does, but for volatile keys and the order of keys.
  \<^item> \<open>Stream_Envelope\<close>: \<open>backup_archive/stream_envelope.py\<close>, the encrypted archive format. Shown: a sealed file
    decrypts to what was written, and with an authenticated cipher nothing but the sealed file decrypts.

  Parameters and bounds. What is outside the sources or depends on the machine is an argument: clocks, digests,
  the file system as an outcome, storage targets, \<open>str\<close> of unusual values, the order in which a set is iterated.
  Loops are structural or carry a measure. The two bounds are the number of days of the cron search, which is
  the code's own and shown to be enough by \<open>next_after_never\<close>, and the fuel of the JSON reader, shown to be enough
  by \<open>scan_fuel_enough\<close>. Texts are of code points below 256, those of the journal of any code points.

  Simplifications. The application of a plan tells its items apart by their position, where the code asks whether
  they are the same object. Sizes and counts have no upper bound (a database column has 63 bits). \<open>py_lower\<close>,
  \<open>py_upper\<close> and what stands for \<open>casefold\<close> change ASCII letters only. The fingerprint of the journal file is the
  number of its writes, so two writes never look alike, and times are exact numbers. The view of a bay leaves out its
  search text and the enriched copy of its facts.

  Not modelled: what talks to a network, a database or the file system (API and SSH clients, SQL, archive
  files, locks), settings models and web routes, the platform-specific readers of command output, the SAS
  fabric graph, and scripts. They are listed in the manifest with the reason.
\<close>

end
